(* ===== verification/Ton_Prelude.thy ===== *)
theory Ton_Prelude
  imports Main "HOL-Library.Word"
begin

unbundle bit_operations_syntax

text \<open>
  Shared vocabulary of the development: machine-integer types, the result type of fallible
  Rust code with its sequencing operator \<open>and_then\<close> (the source's \<open>?\<close>), and the
  generic facts on bits, bytes and big-endian numbers that the components use.

  Byte strings are lists of 8-bit words.  \<open>bytes_bits\<close> spells a byte string out as a
  list of bits, most significant bit first, and \<open>pack\<close> goes back, filling the unused
  bits of the final byte with zeros: together they relate the byte buffers of the source
  to the bit strings they stand for.
\<close>

type_synonym u8 = "8 word"
type_synonym u16 = "16 word"
type_synonym u32 = "32 word"
type_synonym u64 = "64 word"
type_synonym u128 = "128 word"
type_synonym bytes = "u8 list"

section \<open>Results\<close>

text \<open>
  Every \<open>bail!\<close> of the source is one constructor, grouped by source file.  \<open>Panic\<close> is a
  Rust panic (an index out of range), which no caller can catch as an \<open>Err\<close>;
  \<open>OutOfFuel\<close> marks the exhaustion of a recursion bound of the model and is proved
  unreachable where a bound is used.
\<close>

datatype cell_error =
    CellBitLengthExceeds | CellInsufficientData | ExoticAddReference | CellTooManyReferences
  | ExoticTooManyReferences | ExoticMissingTag | UnsupportedExotic u8
  | PrunedExpectedNoRefs | PrunedMissingMask | PrunedBadMask u8 | PrunedBadLength
  | LibraryExpectedNoRefs | LibraryBadLength | MerkleProofRefs | MerkleProofLength
  | MerkleUpdateRefs | MerkleUpdateLength | ExoticBadLevel

datatype builder_error =
    StoreExceedsCell | StoreInsufficientData | UintWiderThanType | BitsExceedMax
  | BitsNotAvailable | NonZeroInZeroBits | UnsignedDoesNotFit | SignedDoesNotFit
  | InvalidTwosComplement | BuilderTooManyRefs | BuilderRefsOverflow | VarLengthFieldExceeds
  | VarByteLengthDoesNotFit | CoinsTooLarge | StringTooLong

datatype slice_error =
    NoMoreBits | BitPositionOutOfBounds | NotEnoughBits | LoadWiderThanType
  | LoadExceedsMax | LoadedDoesNotFit | MoreThan64Bits | NoMoreReferences | ReferenceNotFound
  | SkipBitsTooMany | SkipRefsTooMany | VarLengthNotUsize | VarLengthOverflow | CoinsLengthTooLong

datatype address_error =
    AddressMissingSeparator | AddressTooManySeparators | AddressBadWorkchain
  | AddressBadHashLength | AddressBadHex | AddressBadBase64 | AddressBadBase64Length
  | AddressBadTag | AddressBadCrc | AddressBadFormat

datatype dict_error =
    KeyLengthMismatch | KeyUnusedBits | KeyInsufficientData | KeyU64TooWide | KeyU64DoesNotFit
  | KeyNotU64 | KeyBitOutOfBounds | KeyPrefixTooLong | DictKeyLength | EmptyEdge | DuplicateKey
  | ForkWithoutBranches | LabelTooLong | ShortLabelTooLong | LongLabelTooLong | SameLabelTooLong
  | LabelValueDoesNotFit | DecodedKeyLength | AugTrailingData | AugEmpty | DictBitsKeySize
  | DictAddressKeySize

datatype boc_error =
    BocTooShort | BocIndexedUnsupported | BocBadMagic | BocNotSingleRoot | BocUnexpectedEnd
  | BocCacheBits | BocBadSizeBytes | BocBadOffsetBytes | BocNoRoots | BocBadRootIndex
  | BocMalformedIndex | BocBadCellsSize | BocMissingCrc | BocTrailingBytes | BocCrcMismatch
  | BocEndOfCells | BocReservedBits | BocTooManyRefs | BocCellDataExceeds | BocEndOfRefs
  | BocTrailingCells | BocBadReference | BocCycle | BocNotResolved | BocInvalidExotic
  | BocBadLevel | BocDataSizeMismatch | BocMissingTopUpByte | BocMissingTopUpBit
  | BocInvalidTopUpBit | BocTopUpWithoutData | BocReferenceNotInMap | BocRootNotCollected
  | BocNotEnoughData | BocBadHex | BocBadBase64

datatype stack_error =
    StackTooLarge | StackIntTooLarge | StackPayloadTooLarge | StackCountMismatch
  | StackNodeTooLarge | StackChainTooLong | StackUnknownTag u8

datatype tlb_error =
    TlbTagMismatch string string
  | TlbTrailingData nat nat
  | TlbNonCanonical string
  | TlbCustomSchema string

datatype wallet_error =
    InvalidMnemonicWordCount nat | UnknownMnemonicWord string | InvalidMnemonicSeedVersion | CodeDecode
  | SubwalletNumberTooLarge nat | CustomContextTooLarge nat | TooManyActions nat nat | InvalidExtensionKeyWidth nat nat
  | MissingStackEntry string nat | WrongStackType string nat string | IntegerRange string nat string
  | PublicKeyWidth string nat | MissingCell string | InvalidCell string | NonZeroExitCode string int
  | MissingStack string | UndecodableStack string

datatype adnl_error =
    IntegrityError | TooShortPacket | TooLongPacket | UnknownAddr "8 word list" | EndOfStream | InvalidPublicKey

datatype abi_error =
    AbiTypeMismatch string string | AbiArityMismatch string nat nat | AbiInvalidIntegerWidth string nat
  | AbiIntegerOutOfRange string nat int | AbiInvalidBool int | AbiInvalidUtf8 | AbiMalformedSnake | AbiMalformedAddress
  | AbiUnsupportedType string | AbiUnsupportedMapKey string | AbiInvalidMapKeyBits string nat nat
  | AbiDuplicateMapKey "8 word list" | AbiInvalidMessageSelector | AbiInvalidGetMethodSelector | AbiInvalidEventSelector
  | AbiOpcodeMismatch "32 word" "32 word" | AbiMalformedBody | AbiTrailingBodyData nat nat | AbiEmptyName string

datatype metadata_error =
    NonByteAlignedSnake nat | TooManySnakeRefs nat | MalformedSnake | MalformedOnChainDictionary | MalformedChunkedDictionary

datatype token_error =
    TokenStackLength nat nat | TokenStackType nat string string | TokenInvalidInteger string | TokenMalformedAddress
  | TokenMalformedContent string metadata_error | TokenCollectionContentRequired

datatype proof_error = WrongShardRoot | WrongAccountHash | NonStandardAccountAddress | StateProofMismatch

datatype error =
    Panic
  | OutOfFuel
  | CellErr cell_error
  | BuilderErr builder_error
  | SliceErr slice_error
  | AddressErr address_error
  | DictErr dict_error
  | BocErr boc_error
  | StackErr stack_error
  | TlbErr tlb_error
  | WalletErr wallet_error
  | AdnlErr adnl_error
  | AbiErr abi_error
  | MetadataErr metadata_error
  | TokenErr token_error
  | ProofErr proof_error
  | TlbInvalidReference string error

type_synonym 'a result = "error + 'a"

definition and_then :: "'a result \<Rightarrow> ('a \<Rightarrow> 'b result) \<Rightarrow> 'b result" where
  "and_then r f = (case r of Inl e \<Rightarrow> Inl e | Inr x \<Rightarrow> f x)"

definition map_err :: "(error \<Rightarrow> error) \<Rightarrow> 'a result \<Rightarrow> 'a result" where
  "map_err f r = (case r of
      Inl e \<Rightarrow> Inl (if e = Panic \<or> e = OutOfFuel then e else f e)
    | Inr x \<Rightarrow> Inr x)"

definition index_or_panic :: "'a list \<Rightarrow> nat \<Rightarrow> 'a result" where
  "index_or_panic xs i = (if i < length xs then Inr (xs ! i) else Inl Panic)"

definition is_ok :: "'a result \<Rightarrow> bool" where
  "is_ok r = (case r of Inl _ \<Rightarrow> False | Inr _ \<Rightarrow> True)"

text \<open>A \<open>for\<close> loop whose body may return early with an error.\<close>

fun try_fold :: "('s \<Rightarrow> 'a \<Rightarrow> 's result) \<Rightarrow> 's \<Rightarrow> 'a list \<Rightarrow> 's result" where
  "try_fold f s [] = Inr s"
| "try_fold f s (x # xs) = and_then (f s x) (\<lambda>s'. try_fold f s' xs)"

text \<open>\<open>usize::div_ceil\<close> and the big-endian readings of byte strings.\<close>

definition div_ceil :: "nat \<Rightarrow> nat \<Rightarrow> nat" where
  "div_ceil a b = (a + b - 1) div b"

definition byte_bits :: "u8 \<Rightarrow> bool list" where
  "byte_bits w = map (\<lambda>i. bit w (7 - i)) [0..<8]"

definition bytes_bits :: "bytes \<Rightarrow> bool list" where
  "bytes_bits bs = concat (map byte_bits bs)"

fun bits_val :: "bool list \<Rightarrow> nat" where
  "bits_val [] = 0"
| "bits_val (b # bs) = of_bool b * 2 ^ length bs + bits_val bs"

fun nat_bits :: "nat \<Rightarrow> nat \<Rightarrow> bool list" where
  "nat_bits 0 v = []"
| "nat_bits (Suc n) v = odd (v div 2 ^ n) # nat_bits n v"

fun be_val :: "bytes \<Rightarrow> nat" where
  "be_val [] = 0"
| "be_val (b # bs) = unat b * 256 ^ length bs + be_val bs"

fun be_bytes :: "nat \<Rightarrow> nat \<Rightarrow> bytes" where
  "be_bytes 0 v = []"
| "be_bytes (Suc n) v = word_of_nat (v div 256 ^ n) # be_bytes n v"

definition byte_of_bits :: "bool list \<Rightarrow> u8" where
  "byte_of_bits bs = word_of_nat (bits_val (take 8 (bs @ replicate 8 False)))"

fun pack :: "bool list \<Rightarrow> bytes" where
  "pack [] = []"
| "pack (b # bs) = byte_of_bits (b # take 7 bs) # pack (drop 7 bs)"

text \<open>The number of bits of the shortest binary representation.\<close>

fun bit_length :: "nat \<Rightarrow> nat" where
  "bit_length v = (if v = 0 then 0 else Suc (bit_length (v div 2)))"

declare bit_length.simps [simp del]

text \<open>\<open>data[i / 8] |= 1 << (7 - i % 8)\<close> when the bit is set.\<close>

definition set_bit_at :: "bytes \<Rightarrow> nat \<Rightarrow> bool \<Rightarrow> bytes" where
  "set_bit_at bs i b =
     (if b then bs[i div 8 := (bs ! (i div 8)) OR push_bit (7 - i mod 8) 1] else bs)"

definition get_bit_at :: "bytes \<Rightarrow> nat \<Rightarrow> bool" where
  "get_bit_at bs i \<longleftrightarrow> drop_bit (7 - i mod 8) (bs ! (i div 8)) AND 1 = 1"

fun set_bits_from :: "bytes \<Rightarrow> nat \<Rightarrow> bool list \<Rightarrow> bytes" where
  "set_bits_from bs i [] = bs"
| "set_bits_from bs i (b # xs) = set_bits_from (set_bit_at bs i b) (Suc i) xs"

section \<open>Facts on results\<close>

lemma and_then_simps [simp]:
  "and_then (Inl e) f = Inl e"
  "and_then (Inr x) f = f x"
  by (simp_all add: and_then_def)

lemma and_then_cong [fundef_cong]:
  "r = r' \<Longrightarrow> (\<And>x. r' = Inr x \<Longrightarrow> f x = g x) \<Longrightarrow> and_then r f = and_then r' g"
  by (cases r') (simp_all add: and_then_def)

lemma and_then_eq_Inr:
  "and_then r f = Inr y \<longleftrightarrow> (\<exists>x. r = Inr x \<and> f x = Inr y)"
  by (cases r) simp_all

lemma and_then_eq_Inl:
  "and_then r f = Inl e \<longleftrightarrow> r = Inl e \<or> (\<exists>x. r = Inr x \<and> f x = Inl e)"
  by (cases r) simp_all

lemma and_then_assoc: "and_then (and_then r f) g = and_then r (\<lambda>x. and_then (f x) g)"
  by (cases r) simp_all

lemma and_then_if:
  "and_then (if c then a else b) f = (if c then and_then a f else and_then b f)"
  by simp

lemma map_err_simps [simp]:
  "map_err f (Inr x) = Inr x"
  "map_err f r = Inr y \<longleftrightarrow> r = Inr y"
  by (cases r; simp add: map_err_def)+

lemma map_err_Inl: "map_err f (Inl e) = Inl (if e = Panic \<or> e = OutOfFuel then e else f e)"
  by (simp add: map_err_def)

lemma is_ok_simps [simp]: "is_ok (Inr x)" "\<not> is_ok (Inl e)"
  by (simp_all add: is_ok_def)

lemma index_or_panic_ok [simp]: "i < length xs \<Longrightarrow> index_or_panic xs i = Inr (xs ! i)"
  by (simp add: index_or_panic_def)

lemma try_fold_append:
  "try_fold f s (xs @ ys) = and_then (try_fold f s xs) (\<lambda>s'. try_fold f s' ys)"
  by (induction xs arbitrary: s) (simp_all add: and_then_assoc)

lemma try_fold_cong [fundef_cong]:
  assumes "s = s'" "xs = ys" "\<And>s x. x \<in> set ys \<Longrightarrow> f s x = g s x"
  shows "try_fold f s xs = try_fold g s' ys"
  using assms by (induction ys arbitrary: s s' xs) (auto intro: and_then_cong)

section \<open>Arithmetic of byte counts\<close>

lemma div_ceil_8: "div_ceil n 8 = n div 8 + (if n mod 8 = 0 then 0 else 1)"
  unfolding div_ceil_def by (simp split: if_split, presburger)

lemma div_ceil_mult_8 [simp]: "div_ceil (8 * n) 8 = n" "div_ceil (n * 8) 8 = n"
  by (simp_all add: div_ceil_8)

lemma div_ceil_0 [simp]: "div_ceil 0 8 = 0"
  by (simp add: div_ceil_8)

lemma div_ceil_bounds: "n \<le> 8 * div_ceil n 8" "8 * div_ceil n 8 < n + 8"
  unfolding div_ceil_def by presburger+

lemma div_ceil_eq_0 [simp]: "div_ceil n 8 = 0 \<longleftrightarrow> n = 0"
  by (auto simp: div_ceil_8)

lemma div_ceil_le_iff: "div_ceil n 8 \<le> m \<longleftrightarrow> n \<le> 8 * m"
  by (auto simp: div_ceil_def)

section \<open>Bits and numbers\<close>

lemma length_nat_bits [simp]: "length (nat_bits n v) = n"
  by (induction n) auto

lemma bits_val_less: "bits_val bs < 2 ^ length bs"
  by (induction bs) auto

lemma bits_val_append: "bits_val (xs @ ys) = bits_val xs * 2 ^ length ys + bits_val ys"
  by (induction xs) (auto simp: algebra_simps power_add)

lemma bits_val_replicate_False [simp]: "bits_val (replicate n False) = 0"
  by (induction n) auto

lemma odd_div_mod_eq: "(v mod 2 ^ Suc n) = of_bool (odd (v div 2 ^ n)) * 2 ^ n + v mod (2 ^ n :: nat)"
  by (simp add: mod_mult2_eq odd_iff_mod_2_eq_one mult.commute[of 2] of_bool_def)

lemma bits_val_nat_bits [simp]: "bits_val (nat_bits n v) = v mod 2 ^ n"
proof (induction n)
  case (Suc n)
  then show ?case unfolding odd_div_mod_eq by simp
qed simp

lemma nat_bits_eq_iff: "nat_bits n v = nat_bits n w \<longleftrightarrow> v mod 2 ^ n = w mod 2 ^ n"
proof
  assume "nat_bits n v = nat_bits n w"
  then have "bits_val (nat_bits n v) = bits_val (nat_bits n w)" by simp
  then show "v mod 2 ^ n = w mod 2 ^ n" by simp
next
  show "v mod 2 ^ n = w mod 2 ^ n \<Longrightarrow> nat_bits n v = nat_bits n w"
  proof (induction n)
    case (Suc n)
    have lt: "v mod 2 ^ n < 2 ^ n" "w mod 2 ^ n < 2 ^ n" by simp_all
    from Suc.prems have eq: "of_bool (odd (v div 2 ^ n)) * 2 ^ n + v mod 2 ^ n
        = of_bool (odd (w div 2 ^ n)) * 2 ^ n + w mod 2 ^ n"
      unfolding odd_div_mod_eq .
    with lt have "odd (v div 2 ^ n) = odd (w div 2 ^ n)"
      by (cases "odd (v div 2 ^ n)"; cases "odd (w div 2 ^ n)") auto
    with eq have "v mod 2 ^ n = w mod 2 ^ n" by simp
    with Suc.IH \<open>odd (v div 2 ^ n) = odd (w div 2 ^ n)\<close> show ?case by simp
  qed simp
qed

lemma nat_bits_mod: "n \<le> m \<Longrightarrow> nat_bits n (v mod 2 ^ m) = nat_bits n v"
  by (simp add: nat_bits_eq_iff mod_mod_cancel le_imp_power_dvd)

lemma bits_val_inject:
  "length xs = length ys \<Longrightarrow> bits_val xs = bits_val ys \<longleftrightarrow> xs = ys"
proof (induction xs ys rule: list_induct2)
  case (Cons x xs y ys)
  with bits_val_less[of xs] bits_val_less[of ys] show ?case
    by (cases x; cases y) auto
qed simp

lemma nat_bits_bits_val: "nat_bits (length bs) (bits_val bs) = bs"
  by (simp add: bits_val_inject[symmetric] bits_val_less)

lemma nat_bits_unique: "length bs = n \<Longrightarrow> v mod 2 ^ n = bits_val bs \<Longrightarrow> nat_bits n v = bs"
  using bits_val_inject[of "nat_bits n v" bs] by simp

lemma nat_bits_append: "nat_bits (m + n) v = nat_bits m (v div 2 ^ n) @ nat_bits n v"
  by (induction m) (auto simp: power_add div_mult2_eq[symmetric] mult.commute)

lemma take_nat_bits: "take m (nat_bits (m + n) v) = nat_bits m (v div 2 ^ n)"
  by (simp add: nat_bits_append)

lemma nat_bits_shift: "nat_bits (m + n) (v * 2 ^ n) = nat_bits m v @ replicate n False"
  by (rule nat_bits_unique) (simp_all add: bits_val_append power_add mult_mod_left)

section \<open>Bytes\<close>

lemma length_byte_bits [simp]: "length (byte_bits w) = 8"
  by (simp add: byte_bits_def)

lemma length_bytes_bits [simp]: "length (bytes_bits bs) = 8 * length bs"
  by (induction bs) (auto simp: bytes_bits_def)

lemma bytes_bits_simps [simp]:
  "bytes_bits [] = []"
  "bytes_bits (b # bs) = byte_bits b @ bytes_bits bs"
  "bytes_bits (xs @ ys) = bytes_bits xs @ bytes_bits ys"
  by (simp_all add: bytes_bits_def)

lemma nth_nat_bits: "i < n \<Longrightarrow> nat_bits n v ! i = bit v (n - Suc i)"
proof (induction n arbitrary: i)
  case (Suc n)
  then show ?case by (cases i) (auto simp: bit_iff_odd)
qed simp

lemma byte_bits_nat_bits: "byte_bits w = nat_bits 8 (unat w)"
  by (rule nth_equalityI) (auto simp: byte_bits_def nth_nat_bits bit_simps)

lemma be_val_bits_val: "be_val bs = bits_val (bytes_bits bs)"
proof (induction bs)
  case (Cons b bs)
  have "unat b < 256" using unsigned_less[of b, where ?'a=nat] by simp
  with Cons show ?case
    by (simp add: bits_val_append byte_bits_nat_bits power_mult)
qed simp

lemma be_val_less: "be_val bs < 256 ^ length bs"
  using bits_val_less[of "bytes_bits bs"] by (simp add: be_val_bits_val power_mult)

lemma be_val_append: "be_val (xs @ ys) = be_val xs * 256 ^ length ys + be_val ys"
  by (simp add: be_val_bits_val bits_val_append power_mult)

lemma bytes_bits_be_val: "bytes_bits bs = nat_bits (8 * length bs) (be_val bs)"
  using nat_bits_bits_val[of "bytes_bits bs"] by (simp add: be_val_bits_val)

lemma byte_bits_inject [simp]: "byte_bits v = byte_bits w \<longleftrightarrow> v = w"
proof -
  have "unat v < 2 ^ 8" "unat w < 2 ^ 8" using unsigned_less[of v, where ?'a=nat] unsigned_less[of w, where ?'a=nat] by simp_all
  then show ?thesis
    by (simp add: byte_bits_nat_bits nat_bits_eq_iff) (metis unsigned_word_eqI)
qed

lemma bytes_bits_inject [simp]: "bytes_bits xs = bytes_bits ys \<longleftrightarrow> xs = ys"
proof
  assume eq: "bytes_bits xs = bytes_bits ys"
  then have "length xs = length ys"
    by (metis length_bytes_bits mult_cancel1 zero_neq_numeral)
  then show "xs = ys" using eq
    by (induction xs ys rule: list_induct2) auto
qed simp

lemma length_be_bytes [simp]: "length (be_bytes n v) = n"
  by (induction n) auto

lemma bytes_bits_be_bytes: "bytes_bits (be_bytes n v) = nat_bits (8 * n) v"
proof (induction n)
  case (Suc n)
  have "byte_bits (word_of_nat (v div 256 ^ n)) = nat_bits 8 (v div 256 ^ n)"
    by (simp add: byte_bits_nat_bits nat_bits_eq_iff unat_of_nat)
  then show ?case
    using Suc nat_bits_append[of 8 "8 * n" v] by (simp add: power_mult)
qed simp

lemma be_val_be_bytes: "be_val (be_bytes n v) = v mod 256 ^ n"
  by (simp add: be_val_bits_val bytes_bits_be_bytes power_mult)

lemma be_bytes_be_val: "be_bytes (length bs) (be_val bs) = bs"
  by (metis bytes_bits_be_bytes bytes_bits_be_val bytes_bits_inject)

lemma nth_bytes_bits:
  "i < 8 * length bs \<Longrightarrow> bytes_bits bs ! i = bit (bs ! (i div 8)) (7 - i mod 8)"
proof (induction bs arbitrary: i)
  case (Cons b bs)
  show ?case
  proof (cases "i < 8")
    case True
    then show ?thesis by (simp add: nth_append byte_bits_def)
  next
    case False
    then obtain j where "i = j + 8" by (metis add.commute le_Suc_ex not_less)
    with Cons show ?thesis by (simp add: nth_append div_add_self2)
  qed
qed simp

lemma get_bit_at_nth: "i < 8 * length bs \<Longrightarrow> get_bit_at bs i = bytes_bits bs ! i"
  by (simp add: get_bit_at_def nth_bytes_bits and_one_eq bit_iff_odd_drop_bit odd_iff_mod_2_eq_one)

lemma length_set_bit_at [simp]: "length (set_bit_at bs i b) = length bs"
  by (simp add: set_bit_at_def)

lemma bytes_bits_set_bit_at:
  assumes "i < 8 * length bs"
  shows "bytes_bits (set_bit_at bs i b) = (bytes_bits bs)[i := bytes_bits bs ! i \<or> b]"
proof (rule nth_equalityI)
  fix j assume "j < length (bytes_bits (set_bit_at bs i b))"
  then have j: "j < 8 * length bs" by simp
  have "j mod 8 < 8" "i mod 8 < 8" by simp_all
  then have "7 - j mod 8 = 7 - i mod 8 \<longleftrightarrow> j mod 8 = i mod 8" by arith
  then have eq: "j = i \<longleftrightarrow> j div 8 = i div 8 \<and> 7 - j mod 8 = 7 - i mod 8"
    by (metis div_mult_mod_eq)
  show "bytes_bits (set_bit_at bs i b) ! j = (bytes_bits bs)[i := bytes_bits bs ! i \<or> b] ! j"
    using j assms eq
    by (auto simp: nth_bytes_bits set_bit_at_def nth_list_update bit_simps)
qed simp

lemma length_set_bits_from [simp]: "length (set_bits_from bs i xs) = length bs"
  by (induction xs arbitrary: bs i) auto

lemma bytes_bits_set_bits_from:
  assumes "i + length xs \<le> 8 * length bs" "drop i (bytes_bits bs) = replicate (8 * length bs - i) False"
  shows "bytes_bits (set_bits_from bs i xs)
    = take i (bytes_bits bs) @ xs @ replicate (8 * length bs - i - length xs) False"
  using assms
proof (induction xs arbitrary: bs i)
  case Nil
  then show ?case by (metis append_Nil append_take_drop_id diff_zero list.size(3) set_bits_from.simps(1))
next
  case (Cons x xs)
  let ?bs = "set_bit_at bs i x"
  from Cons.prems have i: "i < 8 * length bs" by simp
  then have "bytes_bits bs ! i = drop i (bytes_bits bs) ! 0" by simp
  with Cons.prems(2) i have "\<not> bytes_bits bs ! i" by simp
  with i have bb: "bytes_bits ?bs = (bytes_bits bs)[i := x]"
    by (simp add: bytes_bits_set_bit_at)
  have tk: "take (Suc i) (bytes_bits ?bs) = take i (bytes_bits bs) @ [x]"
    using i by (simp add: bb take_Suc_conv_app_nth)
  have "drop (Suc i) (bytes_bits ?bs) = tl (drop i (bytes_bits bs))"
    by (simp add: bb drop_Suc flip: drop_tl) (metis drop_Suc drop_update_cancel lessI tl_drop)
  then have "drop (Suc i) (bytes_bits ?bs) = replicate (8 * length ?bs - Suc i) False"
    using Cons.prems(2) by simp
  moreover have "Suc i + length xs \<le> 8 * length ?bs" using Cons.prems(1) by simp
  ultimately show ?case using Cons.IH[of "Suc i" ?bs] tk by simp
qed

section \<open>Packed bit strings\<close>

lemma byte_bits_byte_of_bits:
  assumes "length bs \<le> 8"
  shows "byte_bits (byte_of_bits bs) = bs @ replicate (8 - length bs) False"
proof -
  let ?zs = "take 8 (bs @ replicate 8 False)"
  have zs: "?zs = bs @ replicate (8 - length bs) False" using assms by simp
  have "length ?zs = 8" by simp
  then have "nat_bits 8 (bits_val ?zs) = ?zs" by (metis nat_bits_bits_val)
  then have "byte_bits (byte_of_bits bs) = ?zs"
    using nat_bits_mod[of 8 8 "bits_val ?zs"]
    by (simp add: byte_bits_nat_bits byte_of_bits_def unat_of_nat)
  then show ?thesis using zs by simp
qed

lemma length_pack [simp]: "length (pack bs) = div_ceil (length bs) 8"
proof (induction bs rule: pack.induct)
  case (2 b bs)
  then show ?case by (simp add: div_ceil_def) presburger
qed simp

lemma bytes_bits_pack:
  "bytes_bits (pack bs) = bs @ replicate (8 * div_ceil (length bs) 8 - length bs) False"
proof (induction bs rule: pack.induct)
  case (2 b bs)
  show ?case
  proof (cases "length bs < 7")
    case True
    then have "div_ceil (Suc (length bs)) 8 = 1" by (simp add: div_ceil_8)
    with True 2 show ?thesis by (simp add: byte_bits_byte_of_bits)
  next
    case False
    then have "div_ceil (Suc (length bs)) 8 = Suc (div_ceil (length bs - 7) 8)"
      by (simp add: div_ceil_def)
    with False 2 show ?thesis by (simp add: byte_bits_byte_of_bits add.commute flip: append_assoc)
  qed
qed simp

lemma take_bytes_bits_pack [simp]: "take (length bs) (bytes_bits (pack bs)) = bs"
  by (simp add: bytes_bits_pack)

lemma nth_bytes_bits_pack: "i < length bs \<Longrightarrow> bytes_bits (pack bs) ! i = bs ! i"
  by (simp add: bytes_bits_pack nth_append)

lemma pack_unique:
  assumes "bytes_bits bs = xs @ replicate k False" and "k < 8"
  shows "bs = pack xs"
proof -
  have len: "8 * length bs = length xs + k" using arg_cong[OF assms(1), of length] by simp
  with assms(2) have "length bs = div_ceil (length xs) 8"
    using div_ceil_bounds[of "length xs"] by linarith
  with len assms(1) have "bytes_bits bs = bytes_bits (pack xs)"
    by (simp add: bytes_bits_pack)
  then show ?thesis by simp
qed

lemma pack_bytes_bits [simp]: "pack (bytes_bits bs) = bs"
  by (rule pack_unique[symmetric, of _ _ 0]) simp_all

lemma pack_eq_iff: "length xs = length ys \<Longrightarrow> pack xs = pack ys \<longleftrightarrow> xs = ys"
  by (metis take_bytes_bits_pack)

lemma bytes_bits_replicate_0 [simp]: "bytes_bits (replicate n 0) = replicate (8 * n) False"
  by (rule nth_equalityI) (simp_all add: nth_bytes_bits)

lemma set_bits_from_zeros [simp]:
  "set_bits_from (replicate (div_ceil (length xs) 8) 0) 0 xs = pack xs"
proof (rule pack_unique)
  show "bytes_bits (set_bits_from (replicate (div_ceil (length xs) 8) 0) 0 xs)
    = xs @ replicate (8 * div_ceil (length xs) 8 - length xs) False"
    using div_ceil_bounds[of "length xs"]
    by (subst bytes_bits_set_bits_from) simp_all
  show "8 * div_ceil (length xs) 8 - length xs < 8"
    using div_ceil_bounds[of "length xs"] by simp
qed

lemma be_val_pack:
  "be_val (pack xs) = bits_val xs * 2 ^ (8 * div_ceil (length xs) 8 - length xs)"
  by (simp add: be_val_bits_val bytes_bits_pack bits_val_append)

lemma pack_append_bytes: "8 dvd length xs \<Longrightarrow> pack (xs @ bytes_bits bs) = pack xs @ bs"
  by (rule pack_unique[symmetric, of _ _ 0]) (auto simp: bytes_bits_pack)

section \<open>Bit length\<close>

lemma bit_length_0 [simp]: "bit_length 0 = 0"
  by (simp add: bit_length.simps)

lemma bit_length_le_iff: "bit_length v \<le> n \<longleftrightarrow> v < 2 ^ n"
proof (induction n arbitrary: v)
  case 0
  then show ?case by (subst bit_length.simps) simp
next
  case (Suc n)
  show ?case
  proof (cases "v = 0")
    case False
    then have "bit_length v \<le> Suc n \<longleftrightarrow> bit_length (v div 2) \<le> n"
      by (subst bit_length.simps) simp
    also have "\<dots> \<longleftrightarrow> v div 2 < 2 ^ n" by (rule Suc.IH)
    also have "\<dots> \<longleftrightarrow> v < 2 ^ Suc n" by auto
    finally show ?thesis .
  qed simp
qed

lemma bit_length_less: "v < 2 ^ bit_length v"
  using bit_length_le_iff[of v "bit_length v"] by simp

lemma bit_length_pos_iff [simp]: "0 < bit_length v \<longleftrightarrow> v \<noteq> 0"
  by (subst bit_length.simps) simp

end
