(* ===== verification/Crates.thy ===== *)
theory Crates
  imports Ton_Prelude
begin

unbundle bit_operations_syntax

text \<open>
  The third-party crates the source calls (\<open>sha2\<close>, \<open>crc\<close>, \<open>num-bigint\<close>), as a record of
  functions that the model's definitions take as their first argument \<open>X\<close>.
  \<open>BigUint\<close> and \<open>BigInt\<close> values are unbounded numbers, so they are \<open>nat\<close> and \<open>int\<close>; their
  conversions to and from bytes and digits are fields of the record.

  The locales \<open>bignum\<close> and \<open>hashing\<close> state what the crates' documentation promises.  They
  are interpreted on \<open>ref_crates\<close>, an executable reference: the big-number conversions
  and the two checksums are computed as documented, and the digest is a 32-byte stand-in,
  since no fact about SHA-256 but its output length is used anywhere.
\<close>

record crates =
  sha256 :: "bytes \<Rightarrow> bytes"
  crc32_iso_hdlc :: "bytes \<Rightarrow> u32"
  crc16_ibm_sdlc :: "bytes \<Rightarrow> u16"
  biguint_bits :: "nat \<Rightarrow> nat"
  biguint_to_bytes_be :: "nat \<Rightarrow> bytes"
  biguint_from_bytes_be :: "bytes \<Rightarrow> nat"
  biguint_to_u64_digits :: "nat \<Rightarrow> u64 list"
  bigint_to_signed_bytes_be :: "int \<Rightarrow> bytes"
  bigint_from_signed_bytes_be :: "bytes \<Rightarrow> int"

section \<open>What the documentation promises\<close>

text \<open>The bytes of the shortest big-endian representation; zero is one zero byte.\<close>

definition min_be_bytes :: "nat \<Rightarrow> bytes" where
  "min_be_bytes v = be_bytes (max 1 (div_ceil (bit_length v) 8)) v"

text \<open>Little-endian base \<open>2\<^sup>6\<^sup>4\<close> digits without leading zeros; zero has none.\<close>

fun u64_digits :: "nat \<Rightarrow> u64 list" where
  "u64_digits v = (if v = 0 then [] else word_of_nat v # u64_digits (v div 2 ^ 64))"

declare u64_digits.simps [simp del]

locale bignum =
  fixes X :: crates
  assumes biguint_bits: "biguint_bits X v = bit_length v"
    and biguint_to_bytes_be: "biguint_to_bytes_be X v = min_be_bytes v"
    and biguint_from_bytes_be: "biguint_from_bytes_be X bs = be_val bs"
    and biguint_to_u64_digits: "biguint_to_u64_digits X v = u64_digits v"
    and bigint_signed_bytes: "bigint_from_signed_bytes_be X (bigint_to_signed_bytes_be X i) = i"

locale hashing =
  fixes X :: crates
  assumes length_sha256: "length (sha256 X bs) = 32"

section \<open>An executable reference\<close>

definition crc_reflected_step :: "'a::len word \<Rightarrow> 'a word \<Rightarrow> 'a word" where
  "crc_reflected_step poly c = (if odd c then drop_bit 1 c XOR poly else drop_bit 1 c)"

definition crc_reflected :: "'a::len word \<Rightarrow> bytes \<Rightarrow> 'a word" where
  "crc_reflected poly bs =
     NOT (fold (\<lambda>b c. (crc_reflected_step poly ^^ 8) (c XOR ucast b)) bs (NOT 0))"

definition signed_width :: "int \<Rightarrow> nat" where
  "signed_width i = bit_length (if 0 \<le> i then nat i else nat (- i - 1)) div 8 + 1"

definition ref_to_signed_bytes_be :: "int \<Rightarrow> bytes" where
  "ref_to_signed_bytes_be i = be_bytes (signed_width i) (nat (i mod 256 ^ signed_width i))"

definition ref_from_signed_bytes_be :: "bytes \<Rightarrow> int" where
  "ref_from_signed_bytes_be bs =
     (if 2 * be_val bs < 256 ^ length bs then int (be_val bs)
      else int (be_val bs) - 256 ^ length bs)"

definition ref_crates :: crates where
  "ref_crates = \<lparr>
     sha256 = (\<lambda>bs. be_bytes 32 (be_val bs)),
     crc32_iso_hdlc = crc_reflected 0xEDB88320,
     crc16_ibm_sdlc = crc_reflected 0x8408,
     biguint_bits = bit_length,
     biguint_to_bytes_be = min_be_bytes,
     biguint_from_bytes_be = be_val,
     biguint_to_u64_digits = u64_digits,
     bigint_to_signed_bytes_be = ref_to_signed_bytes_be,
     bigint_from_signed_bytes_be = ref_from_signed_bytes_be\<rparr>"

lemma ref_crates_sel [simp]:
  "sha256 ref_crates = (\<lambda>bs. be_bytes 32 (be_val bs))"
  "crc32_iso_hdlc ref_crates = crc_reflected 0xEDB88320"
  "crc16_ibm_sdlc ref_crates = crc_reflected 0x8408"
  "biguint_bits ref_crates = bit_length"
  "biguint_to_bytes_be ref_crates = min_be_bytes"
  "biguint_from_bytes_be ref_crates = be_val"
  "biguint_to_u64_digits ref_crates = u64_digits"
  "bigint_to_signed_bytes_be ref_crates = ref_to_signed_bytes_be"
  "bigint_from_signed_bytes_be ref_crates = ref_from_signed_bytes_be"
  by (simp_all add: ref_crates_def)

lemma signed_width_bounds:
  "i < 2 ^ (8 * signed_width i - 1)" "- (2 ^ (8 * signed_width i - 1)) \<le> i"
proof -
  define m where "m = (if 0 \<le> i then nat i else nat (- i - 1))"
  have "bit_length m \<le> 8 * signed_width i - 1"
    by (simp add: signed_width_def flip: m_def)
  then have "m < 2 ^ (8 * signed_width i - 1)"
    by (simp add: bit_length_le_iff)
  then have "int m < 2 ^ (8 * signed_width i - 1)"
    by (metis of_nat_less_iff of_nat_numeral of_nat_power)
  then show "i < 2 ^ (8 * signed_width i - 1)" "- (2 ^ (8 * signed_width i - 1)) \<le> i"
    unfolding m_def by (auto split: if_splits)
qed

lemma ref_signed_bytes: "ref_from_signed_bytes_be (ref_to_signed_bytes_be i) = i"
proof -
  define n where "n = signed_width i"
  define h :: int where "h = 2 ^ (8 * n - 1)"
  have n: "0 < n" by (simp add: n_def signed_width_def)
  have full: "(256::int) ^ n = 2 * h"
    using n power_Suc[of "2::int" "8 * n - 1"] by (simp add: h_def power_mult)
  have b: "i < h" "- h \<le> i" using signed_width_bounds[of i] by (simp_all add: h_def n_def)
  have h0: "0 < h" by (simp add: h_def)
  define m where "m = i mod 256 ^ n"
  have m0: "0 \<le> m" "m < 256 ^ n" unfolding m_def full using h0 by simp_all
  have "nat m mod 256 ^ n = nat m"
    using m0 by (metis mod_less nat_power_eq nat_less_eq_zless nat_numeral zero_le_numeral)
  then have v: "int (be_val (ref_to_signed_bytes_be i)) = m"
    using m0 by (simp add: ref_to_signed_bytes_be_def be_val_be_bytes flip: n_def m_def)
  have c: "(2 * be_val (ref_to_signed_bytes_be i) < 256 ^ n) \<longleftrightarrow> m < h"
    using v full by (metis mult_less_cancel_left_pos of_nat_less_iff of_nat_mult of_nat_numeral of_nat_power zero_less_numeral)
  have len: "length (ref_to_signed_bytes_be i) = n"
    by (simp add: ref_to_signed_bytes_be_def n_def)
  show ?thesis
  proof (cases "0 \<le> i")
    case True
    then have "m = i" using b h0 by (simp add: m_def full)
    then show ?thesis using b c v len by (simp add: ref_from_signed_bytes_be_def)
  next
    case False
    have "m = (i + 2 * h) mod (2 * h)" by (simp add: m_def full)
    also have "\<dots> = i + 2 * h" using False b by (intro mod_pos_pos_trivial) auto
    finally have "m = i + 2 * h" .
    then show ?thesis using b c v len full False by (simp add: ref_from_signed_bytes_be_def)
  qed
qed

interpretation ref_bignum: bignum ref_crates
  by unfold_locales (simp_all add: ref_signed_bytes)

interpretation ref_hashing: hashing ref_crates
  by unfold_locales simp

section \<open>Consequences of the contracts\<close>

lemma length_min_be_bytes: "length (min_be_bytes v) = max 1 (div_ceil (bit_length v) 8)"
  by (simp add: min_be_bytes_def)

lemma be_val_min_be_bytes [simp]: "be_val (min_be_bytes v) = v"
proof -
  have "bit_length v \<le> 8 * max 1 (div_ceil (bit_length v) 8)"
    using div_ceil_bounds[of "bit_length v"] by linarith
  then have "v < 2 ^ (8 * max 1 (div_ceil (bit_length v) 8))"
    by (simp only: bit_length_le_iff)
  then show ?thesis by (simp add: min_be_bytes_def be_val_be_bytes power_mult)
qed

lemma length_min_be_bytes_le:
  "v < 2 ^ n \<Longrightarrow> 0 < n \<Longrightarrow> length (min_be_bytes v) \<le> div_ceil n 8"
  using bit_length_le_iff[of v n]
  by (auto simp: length_min_be_bytes div_ceil_def intro!: div_le_mono)

lemma u64_digits_simps:
  "u64_digits 0 = []"
  "0 < v \<Longrightarrow> v < 2 ^ 64 \<Longrightarrow> u64_digits v = [word_of_nat v]"
  by (simp_all add: u64_digits.simps)

lemma length_u64_digits_le_1: "length (u64_digits v) \<le> 1 \<longleftrightarrow> v < 2 ^ 64"
  by (subst u64_digits.simps, subst u64_digits.simps) (auto simp: div_eq_0_iff)

end
