(* ===== verification/Cell.thy ===== *)
theory Cell
  imports Crates
begin

unbundle bit_operations_syntax

text \<open>
  Cells (\<open>src/tvm/cell/cell.rs\<close>): the exotic kinds, the \<open>Cell\<close> value with its seven
  fields, its constructors, descriptors, depth and representation hash, and the parsers of
  exotic payloads.  \<open>wf_cell\<close> is the invariant the module documents (at most 1023 bits and
  four references, zero padding, a level that agrees with the references or the exotic
  kind); every constructor establishes it.  \<open>Arc<Cell>\<close> is sharing of immutable values, so
  references are cells themselves.
\<close>

definition MAX_CELL_BITS :: nat where "MAX_CELL_BITS = 1023"
definition MAX_CELL_REFS :: nat where "MAX_CELL_REFS = 4"
definition MAX_CELL_LEVEL :: u8 where "MAX_CELL_LEVEL = 3"

datatype exotic_kind =
    PrunedBranch (level_mask: u8) (hashes: "bytes list") (depths: "u16 list")
  | LibraryReference bytes
  | MerkleProof bytes u16
  | MerkleUpdate bytes bytes u16 u16

definition exotic_tag :: "exotic_kind \<Rightarrow> u8" where
  "exotic_tag k = (case k of
      PrunedBranch _ _ _ \<Rightarrow> 0x01
    | LibraryReference _ \<Rightarrow> 0x02
    | MerkleProof _ _ \<Rightarrow> 0x03
    | MerkleUpdate _ _ _ _ \<Rightarrow> 0x04)"

datatype cell = Cell
  (cell_data: bytes)
  (cell_bit_len: nat)
  (cell_references: "cell list")
  (cell_exotic: "exotic_kind option")
  (cell_level: u8)
  (cell_hash_cache: "bytes option")
  (cell_depth_cache: "u16 option")

definition cell_new :: cell where
  "cell_new = Cell [] 0 [] None 0 None None"

text \<open>\<open>data[required_bytes - 1] &= 0xFF << unused_bits\<close> after truncation to the needed bytes.\<close>

definition truncate_data :: "bytes \<Rightarrow> nat \<Rightarrow> bytes" where
  "truncate_data bs n =
     (let required = div_ceil n 8; d = take required bs
      in if n mod 8 = 0 then d
         else d[required - 1 := (d ! (required - 1)) AND push_bit (8 - n mod 8) 0xFF])"

definition validate_cell_data :: "bytes \<Rightarrow> nat \<Rightarrow> (bytes \<times> nat) result" where
  "validate_cell_data bs n =
     (if MAX_CELL_BITS < n then Inl (CellErr CellBitLengthExceeds)
      else if length bs < div_ceil n 8 then Inl (CellErr CellInsufficientData)
      else Inr (truncate_data bs n, n))"

definition with_data :: "bytes \<Rightarrow> nat \<Rightarrow> cell result" where
  "with_data bs n =
     (if MAX_CELL_BITS < n then Inl (CellErr CellBitLengthExceeds)
      else if length bs < div_ceil n 8 then Inl (CellErr CellInsufficientData)
      else Inr (Cell (truncate_data bs n) n [] None 0 None None))"

definition is_exotic :: "cell \<Rightarrow> bool" where
  "is_exotic c \<longleftrightarrow> cell_exotic c \<noteq> None"

definition level_max :: "cell list \<Rightarrow> u8" where
  "level_max rs = fold max (map cell_level rs) 0"

definition update_level :: "cell \<Rightarrow> cell" where
  "update_level c =
     (if is_exotic c then c
      else Cell (cell_data c) (cell_bit_len c) (cell_references c) (cell_exotic c)
        (level_max (cell_references c)) (cell_hash_cache c) (cell_depth_cache c))"

definition add_reference :: "cell \<Rightarrow> cell \<Rightarrow> cell result" where
  "add_reference c r =
     (if is_exotic c then Inl (CellErr ExoticAddReference)
      else if MAX_CELL_REFS \<le> length (cell_references c) then Inl (CellErr CellTooManyReferences)
      else Inr (update_level
        (Cell (cell_data c) (cell_bit_len c) (cell_references c @ [r]) (cell_exotic c)
          (cell_level c) None None)))"

definition reference_count :: "cell \<Rightarrow> nat" where
  "reference_count c = length (cell_references c)"

definition reference :: "cell \<Rightarrow> nat \<Rightarrow> cell option" where
  "reference c i = (if i < length (cell_references c) then Some (cell_references c ! i) else None)"

definition descriptors :: "cell \<Rightarrow> bytes" where
  "descriptors c =
     [word_of_nat (length (cell_references c)) + (if is_exotic c then 8 else 0) + cell_level c * 32,
      word_of_nat (cell_bit_len c div 8 + div_ceil (cell_bit_len c) 8)]"

definition serialize_data :: "cell \<Rightarrow> bytes" where
  "serialize_data c =
     (if cell_bit_len c mod 8 \<noteq> 0 then
        let last_byte_idx = cell_bit_len c div 8
        in if last_byte_idx < length (cell_data c)
           then (cell_data c)[last_byte_idx :=
             (cell_data c ! last_byte_idx) OR push_bit (7 - cell_bit_len c mod 8) 1]
           else cell_data c
      else cell_data c)"

text \<open>Rust's release profile: the \<open>u16\<close> increment wraps.\<close>

fun cell_depth :: "cell \<Rightarrow> u16" where
  "cell_depth (Cell d n rs ex lv hc dc) =
     (case dc of
        Some v \<Rightarrow> v
      | None \<Rightarrow> if rs = [] then 0 else fold max (map cell_depth rs) 0 + 1)"

definition u16_be :: "u16 \<Rightarrow> bytes" where
  "u16_be w = be_bytes 2 (unat w)"

fun cell_hash :: "crates \<Rightarrow> cell \<Rightarrow> bytes" where
  "cell_hash X (Cell d n rs ex lv hc dc) =
     (case hc of
        Some h \<Rightarrow> h
      | None \<Rightarrow> sha256 X
          (descriptors (Cell d n rs ex lv hc dc) @ serialize_data (Cell d n rs ex lv hc dc)
           @ concat (map (\<lambda>r. u16_be (cell_depth r)) rs)
           @ concat (map (cell_hash X) rs)))"

section \<open>Exotic payloads\<close>

definition count_ones :: "u8 \<Rightarrow> nat" where
  "count_ones w = length (filter (\<lambda>b. b) (byte_bits w))"

definition leading_zeros :: "u8 \<Rightarrow> nat" where
  "leading_zeros w = length (takeWhile Not (byte_bits w))"

definition u16_from_be :: "bytes \<Rightarrow> u16" where
  "u16_from_be bs = word_of_nat (be_val bs)"

definition parse_pruned_branch :: "bytes \<Rightarrow> nat \<Rightarrow> cell list \<Rightarrow> exotic_kind result" where
  "parse_pruned_branch bs n rs =
     (if rs \<noteq> [] then Inl (CellErr PrunedExpectedNoRefs)
      else if n < 16 \<or> length bs < 2 then Inl (CellErr PrunedMissingMask)
      else let lmask = bs ! 1 in
        if \<not> (1 \<le> lmask \<and> lmask \<le> 7) then Inl (CellErr (PrunedBadMask lmask))
        else let hash_count = count_ones lmask;
                 expected_bytes = 2 + hash_count * 32 + hash_count * 2
          in if n \<noteq> expected_bytes * 8 \<or> length bs \<noteq> expected_bytes
             then Inl (CellErr PrunedBadLength)
             else Inr (PrunedBranch lmask
               (map (\<lambda>i. take 32 (drop (2 + 32 * i) bs)) [0..<hash_count])
               (map (\<lambda>i. u16_from_be (take 2 (drop (2 + 32 * hash_count + 2 * i) bs)))
                 [0..<hash_count])))"

definition parse_library_reference :: "bytes \<Rightarrow> nat \<Rightarrow> cell list \<Rightarrow> exotic_kind result" where
  "parse_library_reference bs n rs =
     (if rs \<noteq> [] then Inl (CellErr LibraryExpectedNoRefs)
      else if n \<noteq> 264 \<or> length bs \<noteq> 33 then Inl (CellErr LibraryBadLength)
      else Inr (LibraryReference (take 32 (drop 1 bs))))"

definition parse_merkle_proof :: "bytes \<Rightarrow> nat \<Rightarrow> cell list \<Rightarrow> exotic_kind result" where
  "parse_merkle_proof bs n rs =
     (if length rs \<noteq> 1 then Inl (CellErr MerkleProofRefs)
      else if n \<noteq> 280 \<or> length bs \<noteq> 35 then Inl (CellErr MerkleProofLength)
      else Inr (MerkleProof (take 32 (drop 1 bs)) (u16_from_be (take 2 (drop 33 bs)))))"

definition parse_merkle_update :: "bytes \<Rightarrow> nat \<Rightarrow> cell list \<Rightarrow> exotic_kind result" where
  "parse_merkle_update bs n rs =
     (if length rs \<noteq> 2 then Inl (CellErr MerkleUpdateRefs)
      else if n \<noteq> 552 \<or> length bs \<noteq> 69 then Inl (CellErr MerkleUpdateLength)
      else Inr (MerkleUpdate (take 32 (drop 1 bs)) (take 32 (drop 33 bs))
        (u16_from_be (take 2 (drop 65 bs))) (u16_from_be (take 2 (drop 67 bs)))))"

definition parse_exotic_kind :: "bytes \<Rightarrow> nat \<Rightarrow> cell list \<Rightarrow> exotic_kind result" where
  "parse_exotic_kind bs n rs =
     (if n < 8 \<or> bs = [] then Inl (CellErr ExoticMissingTag)
      else if bs ! 0 = 0x01 then parse_pruned_branch bs n rs
      else if bs ! 0 = 0x02 then parse_library_reference bs n rs
      else if bs ! 0 = 0x03 then parse_merkle_proof bs n rs
      else if bs ! 0 = 0x04 then parse_merkle_update bs n rs
      else Inl (CellErr (UnsupportedExotic (bs ! 0))))"

definition saturating_pred :: "u8 \<Rightarrow> u8" where
  "saturating_pred w = (if w = 0 then 0 else w - 1)"

definition exotic_level :: "exotic_kind \<Rightarrow> cell list \<Rightarrow> u8 result" where
  "exotic_level k rs =
     and_then (case k of
         PrunedBranch lmask _ _ \<Rightarrow> Inr (8 - word_of_nat (leading_zeros lmask))
       | LibraryReference _ \<Rightarrow> Inr 0
       | MerkleProof _ _ \<Rightarrow>
           and_then (index_or_panic rs 0) (\<lambda>r. Inr (saturating_pred (cell_level r)))
       | MerkleUpdate _ _ _ _ \<Rightarrow> Inr (fold max (map (\<lambda>r. saturating_pred (cell_level r)) rs) 0))
     (\<lambda>level. if MAX_CELL_LEVEL < level then Inl (CellErr ExoticBadLevel) else Inr level)"

definition with_exotic_data :: "bytes \<Rightarrow> nat \<Rightarrow> cell list \<Rightarrow> cell result" where
  "with_exotic_data bs n rs =
     and_then (validate_cell_data bs n) (\<lambda>(d, m).
       if MAX_CELL_REFS < length rs then Inl (CellErr ExoticTooManyReferences)
       else and_then (parse_exotic_kind d m rs) (\<lambda>ex.
         and_then (exotic_level ex rs) (\<lambda>level.
           Inr (Cell d m rs (Some ex) level None None))))"

section \<open>The invariant\<close>

text \<open>
  \<open>cell_bits\<close> is the bit string a cell stands for; \<open>mk_cell\<close> is the ordinary cell of a bit
  string and references, the only ordinary cell the constructors can produce for them.
\<close>

definition cell_bits :: "cell \<Rightarrow> bool list" where
  "cell_bits c = take (cell_bit_len c) (bytes_bits (cell_data c))"

definition mk_cell :: "bool list \<Rightarrow> cell list \<Rightarrow> cell" where
  "mk_cell xs rs = Cell (pack xs) (length xs) rs None (level_max rs) None None"

fun wf_cell :: "cell \<Rightarrow> bool" where
  "wf_cell (Cell d n rs ex lv hc dc) \<longleftrightarrow>
     n \<le> 1023 \<and> n \<le> 8 * length d \<and> pack (take n (bytes_bits d)) = d
     \<and> length rs \<le> 4 \<and> list_all wf_cell rs \<and> hc = None \<and> dc = None
     \<and> (case ex of
          None \<Rightarrow> lv = level_max rs
        | Some k \<Rightarrow> parse_exotic_kind d n rs = Inr k \<and> exotic_level k rs = Inr lv)"

text \<open>The loop \<open>for reference in references { cell.add_reference(reference)?; }\<close>.\<close>

definition add_references :: "cell \<Rightarrow> cell list \<Rightarrow> cell result" where
  "add_references = try_fold add_reference"

text \<open>All cells reachable from a cell, itself included.\<close>

fun subcells :: "cell \<Rightarrow> cell set" where
  "subcells (Cell d n rs ex lv hc dc) =
     insert (Cell d n rs ex lv hc dc) (\<Union>r \<in> set rs. subcells r)"

section \<open>Lemmas\<close>

lemmas max_cell_defs [simp] = MAX_CELL_BITS_def MAX_CELL_REFS_def MAX_CELL_LEVEL_def

lemma less_8_lex:
  fixes a b c d :: nat
  assumes "b < 8" "d < 8"
  shows "8 * a + b < 8 * c + d \<longleftrightarrow> a < c \<or> a = c \<and> b < d"
  using assms by (cases a c rule: linorder_cases) auto

lemma less_div_mod_8:
  fixes a b :: nat
  shows "a < b \<longleftrightarrow> a div 8 < b div 8 \<or> a div 8 = b div 8 \<and> a mod 8 < b mod 8"
  using less_8_lex[of "a mod 8" "b mod 8" "a div 8" "b div 8"] by simp

lemma bit_255: "bit (255 :: u8) j \<longleftrightarrow> j < 8"
proof -
  have "(255 :: u8) = - 1" by simp
  then show ?thesis by (simp only: bit_minus_1_iff) (simp add: possible_bit_def)
qed

lemma bit_shifted_mask:
  assumes "j < 8" "k < 8"
  shows "bit (push_bit (8 - k) (255 :: u8)) (7 - j) \<longleftrightarrow> j < k"
proof -
  have "bit (push_bit (8 - k) (255 :: u8)) (7 - j) \<longleftrightarrow> 8 - k \<le> 7 - j \<and> bit (255 :: u8) (7 - j - (8 - k))"
    by (simp only: bit_push_bit_iff possible_bit_word) auto
  then show ?thesis using assms unfolding bit_255 by auto
qed

lemma truncate_data_pack:
  assumes "n \<le> 8 * length bs"
  shows "truncate_data bs n = pack (take n (bytes_bits bs))"
proof -
  define r where "r = div_ceil n 8"
  have r: "r \<le> length bs" using assms by (simp add: r_def div_ceil_le_iff)
  have pre: "bytes_bits (take r bs) = take (8 * r) (bytes_bits bs)"
    using r by (intro nth_equalityI) (auto simp: nth_bytes_bits)
  show ?thesis
  proof (cases "n mod 8 = 0")
    case True
    then have "8 * r = n" by (simp add: r_def div_ceil_8) presburger
    with True pre show ?thesis
      by (simp add: truncate_data_def flip: r_def) (metis pack_bytes_bits)
  next
    case False
    then have n: "n = 8 * (r - 1) + n mod 8" "0 < r" by (simp_all add: r_def div_ceil_8)
    define m where "m = (take r bs)[r - 1 := (take r bs ! (r - 1)) AND push_bit (8 - n mod 8) 0xFF]"
    have "bytes_bits m = take n (bytes_bits bs) @ replicate (8 - n mod 8) False"
    proof (rule nth_equalityI)
      have "n mod 8 < 8" by simp
      then show "length (bytes_bits m) = length (take n (bytes_bits bs) @ replicate (8 - n mod 8) False)"
        using n r assms by (simp add: m_def)
      fix i assume "i < length (bytes_bits m)"
      then have i: "i < 8 * r" using r by (simp add: m_def)
      have "n div 8 = r - 1" using n(1) by (metis False div_ceil_8 diff_add_inverse2 r_def)
      then have lt: "i < n \<longleftrightarrow> i div 8 < r - 1 \<or> i div 8 = r - 1 \<and> i mod 8 < n mod 8"
        by (simp add: less_div_mod_8[of i n])
      show "bytes_bits m ! i = (take n (bytes_bits bs) @ replicate (8 - n mod 8) False) ! i"
        using i r lt n assms
        by (cases "i div 8 = r - 1")
           (auto simp: m_def nth_bytes_bits nth_append nth_list_update bit_and_iff bit_shifted_mask)
    qed
    then have "m = pack (take n (bytes_bits bs))" by (rule pack_unique) (use False in simp)
    with False show ?thesis by (simp add: truncate_data_def m_def flip: r_def)
  qed
qed

lemma less_div_ceil_iff: "m < div_ceil n 8 \<longleftrightarrow> 8 * m < n"
  using div_ceil_le_iff[of n m] by linarith

lemma with_data_eq:
  "n \<le> 1023 \<Longrightarrow> n \<le> 8 * length bs \<Longrightarrow>
    with_data bs n = Inr (mk_cell (take n (bytes_bits bs)) [])"
  by (auto simp: with_data_def truncate_data_pack mk_cell_def level_max_def
      less_div_ceil_iff)

lemma with_data_eq_Inr_iff:
  "with_data bs n = Inr c \<longleftrightarrow>
    n \<le> 1023 \<and> n \<le> 8 * length bs \<and> c = mk_cell (take n (bytes_bits bs)) []"
  using with_data_eq[of n bs]
  by (auto simp: with_data_def less_div_ceil_iff split: if_splits)

lemma validate_cell_data_eq_Inr_iff:
  "validate_cell_data bs n = Inr (d, m) \<longleftrightarrow>
    n \<le> 1023 \<and> n \<le> 8 * length bs \<and> d = pack (take n (bytes_bits bs)) \<and> m = n"
  by (auto simp: validate_cell_data_def truncate_data_pack not_less less_div_ceil_iff split: if_splits)

lemma cell_bits_mk_cell [simp]: "cell_bits (mk_cell xs rs) = xs"
  by (simp add: cell_bits_def mk_cell_def)

lemma mk_cell_sel [simp]:
  "cell_data (mk_cell xs rs) = pack xs"
  "cell_bit_len (mk_cell xs rs) = length xs"
  "cell_references (mk_cell xs rs) = rs"
  "cell_exotic (mk_cell xs rs) = None"
  "cell_level (mk_cell xs rs) = level_max rs"
  "is_exotic (mk_cell xs rs) = False"
  by (simp_all add: mk_cell_def is_exotic_def)

lemma mk_cell_inject [simp]: "mk_cell xs rs = mk_cell ys ss \<longleftrightarrow> xs = ys \<and> rs = ss"
  by (auto simp: mk_cell_def pack_eq_iff)

lemma add_reference_mk_cell:
  "add_reference (mk_cell xs rs) r =
    (if length rs < 4 then Inr (mk_cell xs (rs @ [r])) else Inl (CellErr CellTooManyReferences))"
  by (simp add: add_reference_def update_level_def is_exotic_def mk_cell_def)

lemma add_references_mk_cell:
  "length ps \<le> 4 \<Longrightarrow> add_references (mk_cell xs ps) rs =
    (if length ps + length rs \<le> 4 then Inr (mk_cell xs (ps @ rs))
     else Inl (CellErr CellTooManyReferences))"
  unfolding add_references_def
  by (induction rs arbitrary: ps) (auto simp: add_reference_mk_cell)

lemma fold_max_le:
  fixes b :: "'a::len word"
  shows "fold max xs a \<le> b \<longleftrightarrow> a \<le> b \<and> (\<forall>x \<in> set xs. x \<le> b)"
  by (induction xs arbitrary: a) auto

lemma level_max_le: "level_max rs \<le> b \<longleftrightarrow> (\<forall>r \<in> set rs. cell_level r \<le> b)"
  by (simp add: level_max_def fold_max_le)

lemma exotic_level_le: "exotic_level k rs = Inr l \<Longrightarrow> l \<le> 3"
  by (auto simp: exotic_level_def and_then_eq_Inr not_less split: if_splits)

lemma wf_cell_level_le: "wf_cell c \<Longrightarrow> cell_level c \<le> 3"
proof (induction c)
  case (Cell d n rs ex lv hc dc)
  then show ?case
    by (cases ex) (auto simp: level_max_le list_all_iff dest: exotic_level_le)
qed

lemma wf_cell_bounds:
  assumes "wf_cell c"
  shows "cell_bit_len c \<le> 1023" "length (cell_references c) \<le> 4"
    "length (cell_data c) = div_ceil (cell_bit_len c) 8"
    "list_all wf_cell (cell_references c)"
    "length (cell_bits c) = cell_bit_len c"
    "cell_data c = pack (cell_bits c)"
proof -
  obtain d n rs ex lv hc dc where c: "c = Cell d n rs ex lv hc dc" by (cases c)
  from assms have w: "n \<le> 1023" "n \<le> 8 * length d" "pack (take n (bytes_bits d)) = d"
      "length rs \<le> 4" "list_all wf_cell rs"
    unfolding c wf_cell.simps by blast+
  have "length (pack (take n (bytes_bits d))) = div_ceil n 8" using w(2) by simp
  then show "length (cell_data c) = div_ceil (cell_bit_len c) 8" unfolding w(3) c by simp
  show "cell_bit_len c \<le> 1023" "length (cell_references c) \<le> 4"
      "list_all wf_cell (cell_references c)"
    using w c by simp_all
  show "length (cell_bits c) = cell_bit_len c" using w(2) by (simp add: c cell_bits_def)
  show "cell_data c = pack (cell_bits c)" using w(3) by (simp add: c cell_bits_def)
qed

lemma wf_mk_cell:
  "wf_cell (mk_cell xs rs) \<longleftrightarrow> length xs \<le> 1023 \<and> length rs \<le> 4 \<and> list_all wf_cell rs"
  using div_ceil_bounds[of "length xs"] by (auto simp: mk_cell_def)

lemma wf_ordinary_eq:
  "wf_cell c \<Longrightarrow> cell_exotic c = None \<Longrightarrow> c = mk_cell (cell_bits c) (cell_references c)"
  by (cases c) (simp add: mk_cell_def cell_bits_def)

lemma wf_exotic_eq:
  assumes "wf_cell c" "cell_exotic c = Some k"
  shows "with_exotic_data (cell_data c) (cell_bit_len c) (cell_references c) = Inr c"
proof -
  from assms(1) have d: "cell_data c = pack (take (cell_bit_len c) (bytes_bits (cell_data c)))"
    by (metis cell_bits_def wf_cell_bounds(6))
  have "validate_cell_data (cell_data c) (cell_bit_len c) = Inr (cell_data c, cell_bit_len c)"
    using wf_cell_bounds[OF assms(1)] d div_ceil_bounds(1)[of "cell_bit_len c"]
    by (simp add: validate_cell_data_eq_Inr_iff)
  with assms show ?thesis
    by (cases c) (auto simp: with_exotic_data_def)
qed

lemma wf_with_exotic_data:
  assumes "with_exotic_data bs n rs = Inr c" "list_all wf_cell rs"
  shows "wf_cell c" "cell_exotic c \<noteq> None" "cell_references c = rs"
proof -
  from assms(1) obtain d k l where *: "validate_cell_data bs n = Inr (d, n)" "length rs \<le> 4"
      "parse_exotic_kind d n rs = Inr k" "exotic_level k rs = Inr l"
      "c = Cell d n rs (Some k) l None None"
    by (auto simp: with_exotic_data_def and_then_eq_Inr validate_cell_data_eq_Inr_iff not_less
        split: if_splits)
  from *(1) have d: "n \<le> 1023" "n \<le> 8 * length bs" "d = pack (take n (bytes_bits bs))"
    by (simp_all add: validate_cell_data_eq_Inr_iff)
  then have "n \<le> 8 * length d" "take n (bytes_bits d) = take n (bytes_bits bs)"
    using div_ceil_bounds(1)[of n] take_bytes_bits_pack[of "take n (bytes_bits bs)"] by auto
  with * d assms(2) show "wf_cell c" "cell_exotic c \<noteq> None" "cell_references c = rs"
    by simp_all
qed

lemma self_subcell [simp]: "c \<in> subcells c"
  by (cases c) simp

lemma subcells_ref: "r \<in> set (cell_references c) \<Longrightarrow> subcells r \<subseteq> subcells c"
  by (cases c) auto

lemma finite_subcells [simp]: "finite (subcells c)"
  by (induction c) simp

lemma wf_subcells: "wf_cell c \<Longrightarrow> d \<in> subcells c \<Longrightarrow> wf_cell d"
  by (induction c) (auto simp: list_all_iff)

lemma wf_cell_hash_eq:
  "wf_cell c \<Longrightarrow> cell_hash X c = sha256 X
     (descriptors c @ serialize_data c
      @ concat (map (\<lambda>r. u16_be (cell_depth r)) (cell_references c))
      @ concat (map (cell_hash X) (cell_references c)))"
  by (cases c) simp

end
