(* ===== verification/CellBuilder.thy ===== *)
theory CellBuilder
  imports Cell
begin

unbundle bit_operations_syntax

text \<open>
  The low-level builder of \<open>src/tvm/cell/cell.rs\<close> and the integer conversions of
  \<open>src/tvm/uint.rs\<close>.  The source appends bit by bit into a byte buffer; \<open>mk_cb xs rs\<close> is the
  builder whose buffer holds the bits \<open>xs\<close> and the references \<open>rs\<close>, and the lemmas say that
  every operation on it is an append to \<open>xs\<close> or \<open>rs\<close>, or the error the source returns.

  The locale \<open>bit_sink\<close> is that contract, shared by this builder and the high-level
  \<open>Builder\<close>; facts that need only the contract are proved once in it.
\<close>

record cell_builder =
  cb_data :: bytes
  cb_bit_len :: nat
  cb_references :: "cell list"

definition cb_new :: cell_builder where
  "cb_new = \<lparr>cb_data = [], cb_bit_len = 0, cb_references = []\<rparr>"

definition cb_ref_count :: "cell_builder \<Rightarrow> nat" where
  "cb_ref_count b = length (cb_references b)"

definition cb_available_bits :: "cell_builder \<Rightarrow> nat" where
  "cb_available_bits b = MAX_CELL_BITS - cb_bit_len b"

definition cb_available_refs :: "cell_builder \<Rightarrow> nat" where
  "cb_available_refs b = MAX_CELL_REFS - length (cb_references b)"

text \<open>One iteration of the copy loop of \<open>store_bits\<close>, then the loop.\<close>

definition cb_push_bit :: "cell_builder \<Rightarrow> bool \<Rightarrow> cell_builder" where
  "cb_push_bit b v =
     (let target_byte_idx = cb_bit_len b div 8;
          d = (if length (cb_data b) \<le> target_byte_idx then cb_data b @ [0] else cb_data b)
      in b\<lparr>cb_data := set_bit_at d (cb_bit_len b) v, cb_bit_len := cb_bit_len b + 1\<rparr>)"

fun cb_copy_bits :: "cell_builder \<Rightarrow> bytes \<Rightarrow> nat \<Rightarrow> nat \<Rightarrow> cell_builder" where
  "cb_copy_bits b bits i 0 = b"
| "cb_copy_bits b bits i (Suc k) = cb_copy_bits (cb_push_bit b (get_bit_at bits i)) bits (Suc i) k"

definition cb_store_bits :: "cell_builder \<Rightarrow> bytes \<Rightarrow> nat \<Rightarrow> cell_builder result" where
  "cb_store_bits b bits n =
     (if MAX_CELL_BITS < cb_bit_len b + n then Inl (BuilderErr StoreExceedsCell)
      else if length bits < div_ceil n 8 then Inl (BuilderErr StoreInsufficientData)
      else Inr (cb_copy_bits b bits 0 n))"

definition cb_store_byte :: "cell_builder \<Rightarrow> u8 \<Rightarrow> cell_builder result" where
  "cb_store_byte b w = cb_store_bits b [w] 8"

definition cb_store_bytes :: "cell_builder \<Rightarrow> bytes \<Rightarrow> cell_builder result" where
  "cb_store_bytes b bs = cb_store_bits b bs (length bs * 8)"

fun shift_left_rev :: "nat \<Rightarrow> u8 \<Rightarrow> bytes \<Rightarrow> bytes" where
  "shift_left_rev shift carry [] = []"
| "shift_left_rev shift carry (byte # bs) =
     (push_bit shift byte OR carry) # shift_left_rev shift (drop_bit (8 - shift) byte) bs"

definition shift_left_in_place :: "bytes \<Rightarrow> nat \<Rightarrow> bytes" where
  "shift_left_in_place bs shift =
     (if shift = 0 \<or> bs = [] then bs else rev (shift_left_rev shift 0 (rev bs)))"

text \<open>\<open>temp[start..].copy_from_slice(&value_bytes)\<close> panics when the lengths differ.\<close>

definition copy_into_tail :: "bytes \<Rightarrow> bytes \<Rightarrow> bytes result" where
  "copy_into_tail temp src =
     (let start = length temp - length src
      in if length temp - start = length src then Inr (take start temp @ src) else Inl Panic)"

definition cb_store_big_uint :: "crates \<Rightarrow> cell_builder \<Rightarrow> nat \<Rightarrow> nat \<Rightarrow> cell_builder result" where
  "cb_store_big_uint X b v n =
     (if MAX_CELL_BITS < n then Inl (BuilderErr BitsExceedMax)
      else if cb_available_bits b < n then Inl (BuilderErr BitsNotAvailable)
      else if n = 0 then (if v = 0 then Inr b else Inl (BuilderErr NonZeroInZeroBits))
      else if n < biguint_bits X v then Inl (BuilderErr UnsignedDoesNotFit)
      else and_then (copy_into_tail (replicate (div_ceil n 8) 0) (biguint_to_bytes_be X v)) (\<lambda>temp.
        let unused_low_bits = length temp * 8 - n;
            temp = (if 0 < unused_low_bits then shift_left_in_place temp unused_low_bits else temp)
        in cb_store_bits b temp n))"

text \<open>\<open>uint.rs\<close>: the width of \<open>T\<close> is the length of the word type.\<close>

definition to_big_uint :: "'a::len word \<Rightarrow> nat" where
  "to_big_uint w = unat w"

definition from_big_uint_small :: "crates \<Rightarrow> nat \<Rightarrow> 'a::len word result" where
  "from_big_uint_small X v =
     (let digits = biguint_to_u64_digits X v;
          value = (case digits of [] \<Rightarrow> 0 | d # _ \<Rightarrow> d)
      in if 1 < length digits \<or> 2 ^ LENGTH('a) - 1 < unat value
         then Inl (SliceErr LoadedDoesNotFit) else Inr (ucast value))"

definition from_big_uint_u128 :: "crates \<Rightarrow> nat \<Rightarrow> u128 result" where
  "from_big_uint_u128 X v =
     (let digits = biguint_to_u64_digits X v
      in if 2 < length digits then Inl (SliceErr LoadedDoesNotFit)
         else let low = (case digits of [] \<Rightarrow> 0 | d # _ \<Rightarrow> ucast d);
                  high = (if 1 < length digits then ucast (digits ! 1) else 0)
              in Inr (low OR push_bit 64 high))"

definition cb_store_uint_custom ::
    "crates \<Rightarrow> cell_builder \<Rightarrow> 'a::len word \<Rightarrow> nat \<Rightarrow> cell_builder result" where
  "cb_store_uint_custom X b v n =
     (if LENGTH('a) < n then Inl (BuilderErr UintWiderThanType)
      else cb_store_big_uint X b (to_big_uint v) n)"

definition cb_store_uint :: "crates \<Rightarrow> cell_builder \<Rightarrow> 'a::len word \<Rightarrow> cell_builder result" where
  "cb_store_uint X b v = cb_store_uint_custom X b v LENGTH('a)"

definition cb_store_u8 :: "crates \<Rightarrow> cell_builder \<Rightarrow> u8 \<Rightarrow> cell_builder result" where
  "cb_store_u8 X b v = cb_store_uint X b v"

definition cb_store_u16 :: "crates \<Rightarrow> cell_builder \<Rightarrow> u16 \<Rightarrow> cell_builder result" where
  "cb_store_u16 X b v = cb_store_uint X b v"

definition cb_store_u32 :: "crates \<Rightarrow> cell_builder \<Rightarrow> u32 \<Rightarrow> cell_builder result" where
  "cb_store_u32 X b v = cb_store_uint X b v"

definition cb_store_u64 :: "crates \<Rightarrow> cell_builder \<Rightarrow> u64 \<Rightarrow> cell_builder result" where
  "cb_store_u64 X b v = cb_store_uint X b v"

text \<open>\<open>BigInt::to_biguint\<close> is \<open>None\<close> on negative numbers.\<close>

definition cb_store_big_int :: "crates \<Rightarrow> cell_builder \<Rightarrow> int \<Rightarrow> nat \<Rightarrow> cell_builder result" where
  "cb_store_big_int X b v n =
     (if MAX_CELL_BITS < n then Inl (BuilderErr BitsExceedMax)
      else if n = 0 then (if v = 0 then Inr b else Inl (BuilderErr NonZeroInZeroBits))
      else let magnitude = 2 ^ (n - 1)
        in if v < - magnitude \<or> magnitude - 1 < v then Inl (BuilderErr SignedDoesNotFit)
           else let unsigned = (if v < 0 then 2 ^ n + v else v)
             in if unsigned < 0 then Inl (BuilderErr InvalidTwosComplement)
                else cb_store_big_uint X b (nat unsigned) n)"

definition cb_store_bit :: "cell_builder \<Rightarrow> bool \<Rightarrow> cell_builder result" where
  "cb_store_bit b v = cb_store_bits b [if v then 0x80 else 0x00] 1"

definition cb_store_reference :: "cell_builder \<Rightarrow> cell \<Rightarrow> cell_builder result" where
  "cb_store_reference b c =
     (if MAX_CELL_REFS \<le> length (cb_references b) then Inl (BuilderErr BuilderTooManyRefs)
      else Inr (b\<lparr>cb_references := cb_references b @ [c]\<rparr>))"

definition cb_build :: "cell_builder \<Rightarrow> cell result" where
  "cb_build b =
     and_then (with_data (cb_data b) (cb_bit_len b)) (\<lambda>c. add_references c (cb_references b))"

section \<open>The contract of a builder\<close>

definition mk_cb :: "bool list \<Rightarrow> cell list \<Rightarrow> cell_builder" where
  "mk_cb xs rs = \<lparr>cb_data = pack xs, cb_bit_len = length xs, cb_references = rs\<rparr>"

definition cb_bits :: "cell_builder \<Rightarrow> bool list" where
  "cb_bits b = take (cb_bit_len b) (bytes_bits (cb_data b))"

text \<open>The invariant of a builder: it is the canonical one of its bits, within the limits.\<close>

definition wf_cb :: "cell_builder \<Rightarrow> bool" where
  "wf_cb b \<longleftrightarrow> b = mk_cb (cb_bits b) (cb_references b)
     \<and> length (cb_bits b) \<le> 1023 \<and> length (cb_references b) \<le> 4
     \<and> list_all wf_cell (cb_references b)"

locale bit_sink =
  fixes mk :: "bool list \<Rightarrow> cell list \<Rightarrow> 'b"
    and put_bits :: "'b \<Rightarrow> bytes \<Rightarrow> nat \<Rightarrow> 'b result"
    and put_bit :: "'b \<Rightarrow> bool \<Rightarrow> 'b result"
    and put_ref :: "'b \<Rightarrow> cell \<Rightarrow> 'b result"
  assumes put_bits: "put_bits (mk xs rs) bs n =
      (if 1023 < length xs + n then Inl (BuilderErr StoreExceedsCell)
       else if 8 * length bs < n then Inl (BuilderErr StoreInsufficientData)
       else Inr (mk (xs @ take n (bytes_bits bs)) rs))"
    and put_bit: "put_bit (mk xs rs) v =
      (if length xs < 1023 then Inr (mk (xs @ [v]) rs) else Inl (BuilderErr StoreExceedsCell))"
    and put_ref: "put_ref (mk xs rs) c =
      (if length rs < 4 then Inr (mk xs (rs @ [c])) else Inl (BuilderErr BuilderTooManyRefs))"
begin

lemma put_bit_loop:
  "length xs \<le> 1023 \<Longrightarrow> try_fold put_bit (mk xs rs) vs =
    (if length xs + length vs \<le> 1023 then Inr (mk (xs @ vs) rs)
     else Inl (BuilderErr StoreExceedsCell))"
  by (induction vs arbitrary: xs) (auto simp: put_bit)

lemma put_ref_loop:
  "length rs \<le> 4 \<Longrightarrow> try_fold put_ref (mk xs rs) cs =
    (if length rs + length cs \<le> 4 then Inr (mk xs (rs @ cs))
     else Inl (BuilderErr BuilderTooManyRefs))"
  by (induction cs arbitrary: rs) (auto simp: put_ref)

lemma put_bytes:
  "put_bits (mk xs rs) bs (length bs * 8) =
    (if length xs + 8 * length bs \<le> 1023 then Inr (mk (xs @ bytes_bits bs) rs)
     else Inl (BuilderErr StoreExceedsCell))"
  by (auto simp: put_bits)

end

section \<open>Lemmas\<close>

lemma mk_cb_sel [simp]:
  "cb_data (mk_cb xs rs) = pack xs"
  "cb_bit_len (mk_cb xs rs) = length xs"
  "cb_references (mk_cb xs rs) = rs"
  "cb_bits (mk_cb xs rs) = xs"
  by (simp_all add: mk_cb_def cb_bits_def)

lemma cb_new_eq: "cb_new = mk_cb [] []"
  by (simp add: cb_new_def mk_cb_def)

lemma cb_push_bit_mk: "cb_push_bit (mk_cb xs rs) v = mk_cb (xs @ [v]) rs"
proof -
  let ?n = "length xs"
  define d where "d = (if div_ceil ?n 8 \<le> ?n div 8 then pack xs @ [0] else pack xs)"
  define k where "k = 8 * length d - ?n"
  have len: "length d = ?n div 8 + 1"
    by (auto simp: d_def div_ceil_8)
  then have k: "0 < k" "k \<le> 8" "8 * length d = ?n + k"
    using mod_less_divisor[of 8 ?n] div_mult_mod_eq[of ?n 8] unfolding k_def by linarith+
  have b0: "byte_bits 0 = replicate 8 False"
    using bytes_bits_replicate_0[of 1] by simp
  have "bytes_bits d = xs @ replicate k False"
    by (auto simp: d_def k_def bytes_bits_pack b0 div_ceil_8 simp flip: replicate_add)
  then have "bytes_bits (set_bit_at d ?n v) = (xs @ [v]) @ replicate (k - 1) False"
    using k by (cases k) (auto simp: bytes_bits_set_bit_at list_update_append)
  then have "set_bit_at d ?n v = pack (xs @ [v])" by (rule pack_unique) (use k in simp)
  then show ?thesis by (auto simp: cb_push_bit_def mk_cb_def d_def Let_def split: if_splits)
qed

lemma cb_copy_bits_mk:
  "i + k \<le> 8 * length bs \<Longrightarrow>
    cb_copy_bits (mk_cb xs rs) bs i k = mk_cb (xs @ take k (drop i (bytes_bits bs))) rs"
proof (induction k arbitrary: xs i)
  case (Suc k)
  then have "take (Suc k) (drop i (bytes_bits bs)) = get_bit_at bs i # take k (drop (Suc i) (bytes_bits bs))"
    by (simp add: get_bit_at_nth flip: Cons_nth_drop_Suc)
  with Suc show ?case by (simp add: cb_push_bit_mk)
qed simp

lemma cb_store_bits_mk:
  "cb_store_bits (mk_cb xs rs) bs n =
    (if 1023 < length xs + n then Inl (BuilderErr StoreExceedsCell)
     else if 8 * length bs < n then Inl (BuilderErr StoreInsufficientData)
     else Inr (mk_cb (xs @ take n (bytes_bits bs)) rs))"
  by (simp add: cb_store_bits_def cb_copy_bits_mk less_div_ceil_iff)

lemma cb_store_bit_mk:
  "cb_store_bit (mk_cb xs rs) v =
    (if length xs < 1023 then Inr (mk_cb (xs @ [v]) rs) else Inl (BuilderErr StoreExceedsCell))"
proof -
  have "take 1 (bytes_bits [if v then 0x80 else 0x00 :: u8]) = [v]"
    by (simp add: byte_bits_def upt_rec)
  then show ?thesis by (auto simp: cb_store_bit_def cb_store_bits_mk)
qed

lemma cb_store_reference_mk:
  "cb_store_reference (mk_cb xs rs) c =
    (if length rs < 4 then Inr (mk_cb xs (rs @ [c])) else Inl (BuilderErr BuilderTooManyRefs))"
  by (simp add: cb_store_reference_def mk_cb_def)

interpretation cb_sink: bit_sink mk_cb cb_store_bits cb_store_bit cb_store_reference
  by unfold_locales (rule cb_store_bits_mk cb_store_bit_mk cb_store_reference_mk)+

lemma cb_build_mk:
  "length xs \<le> 1023 \<Longrightarrow> length rs \<le> 4 \<Longrightarrow> cb_build (mk_cb xs rs) = Inr (mk_cell xs rs)"
  using div_ceil_bounds(1)[of "length xs"]
  by (simp add: cb_build_def with_data_eq add_references_mk_cell)

subsection \<open>Integers\<close>

lemma length_shift_left_rev [simp]: "length (shift_left_rev s c bs) = length bs"
  by (induction bs arbitrary: c) auto

lemma length_shift_left_in_place [simp]: "length (shift_left_in_place bs s) = length bs"
  by (simp add: shift_left_in_place_def)

lemma unat_shift_or_carry:
  fixes w c :: u8
  assumes "unat c < 2 ^ s" "s < 8"
  shows "unat (push_bit s w OR c) = (unat w * 2 ^ s) mod 256 + unat c"
proof -
  have "push_bit s w AND c = 0"
  proof (rule bit_eqI)
    fix i
    have "\<not> bit c i" if "s \<le> i"
    proof -
      have "unat c < 2 ^ i" using assms(1) that
        by (meson less_le_trans one_le_numeral power_increasing)
      then have "\<not> bit (unat c) i" by (simp add: bit_iff_odd)
      then show ?thesis by (simp add: bit_simps)
    qed
    then show "bit (push_bit s w AND c) i = bit (0 :: u8) i"
      by (auto simp: bit_simps)
  qed
  then have "push_bit s w OR c = push_bit s w + c"
    by (simp add: disjunctive_add_eq_or)
  moreover have pu: "unat (push_bit s w) = (unat w * 2 ^ s) mod 256"
    by (simp only: unsigned_push_bit_eq) (simp add: take_bit_eq_mod push_bit_eq_mult)
  moreover have "(unat w * 2 ^ s) mod 256 + unat c < 256"
  proof -
    have "(256 :: nat) = 2 ^ (8 - s) * 2 ^ s" using assms(2) by (simp flip: power_add)
    then have "(unat w * 2 ^ s) mod 256 = (unat w mod 2 ^ (8 - s)) * 2 ^ s"
      by (simp add: mult_mod_left)
    moreover have "unat w mod 2 ^ (8 - s) < 2 ^ (8 - s)" by simp
    then have "unat w mod 2 ^ (8 - s) \<le> 2 ^ (8 - s) - 1" by linarith
    ultimately have "(unat w * 2 ^ s) mod 256 \<le> (2 ^ (8 - s) - 1) * 2 ^ s"
      by simp
    also have "\<dots> = 256 - 2 ^ s" using \<open>256 = _\<close> by (simp add: diff_mult_distrib)
    moreover have "2 ^ s \<le> (256::nat)" using assms(2) power_increasing[of s 8 "2::nat"] by simp
    ultimately show ?thesis using assms(1) by linarith
  qed
  ultimately show ?thesis by (simp add: unat_word_ariths)
qed

lemma be_val_shift_left_rev:
  assumes "unat c < 2 ^ s" "s < 8"
  shows "be_val (rev (shift_left_rev s c bs)) = (be_val (rev bs) * 2 ^ s + unat c) mod 256 ^ length bs"
  using assms(1)
proof (induction bs arbitrary: c)
  case (Cons y bs)
  let ?c = "drop_bit (8 - s) y"
  have c: "unat ?c = unat y div 2 ^ (8 - s)" by (simp add: unat_drop_bit_eq) (simp add: drop_bit_eq_div)
  have "256 = 2 ^ (8 - s) * (2 :: nat) ^ s" using assms(2) by (simp flip: power_add)
  moreover have "unat y < 256" using unsigned_less[of y, where ?'a = nat] by simp
  ultimately have lt: "unat ?c < 2 ^ s" by (simp add: c less_mult_imp_div_less mult.commute)
  have y: "unat y * 2 ^ s = unat ?c * 256 + (unat y * 2 ^ s) mod 256"
    using \<open>256 = _\<close> by (simp add: c) (metis div_mult_mult2 mult_div_mod_eq power_not_zero zero_neq_numeral mult.commute)
  define h where "h = (unat y * 2 ^ s) mod 256 + unat c"
  have h: "unat (push_bit s y OR c) = h" using unat_shift_or_carry[OF Cons.prems assms(2)] by (simp add: h_def)
  have "h < 256" using unsigned_less[of "push_bit s y OR c", where ?'a = nat] h by simp
  define q where "q = be_val (rev bs) * 2 ^ s + unat ?c"
  have "be_val (rev (shift_left_rev s c (y # bs))) = (q mod 256 ^ length bs) * 256 + h"
    using Cons.IH[OF lt] h by (simp add: be_val_append q_def)
  also have "\<dots> = (q * 256 + h) mod (256 * 256 ^ length bs)"
    using \<open>h < 256\<close> by (simp add: mod_mult2_eq)
  also have "q * 256 + h = be_val (rev (y # bs)) * 2 ^ s + unat c"
    using y by (simp add: h_def q_def be_val_append algebra_simps)
  finally show ?case by simp
qed simp

lemma be_val_shift_left_in_place:
  "s < 8 \<Longrightarrow> be_val (shift_left_in_place bs s) = (be_val bs * 2 ^ s) mod 256 ^ length bs"
  using be_val_shift_left_rev[of 0 s "rev bs"] be_val_less[of bs]
  by (auto simp: shift_left_in_place_def)

lemma copy_into_zeros:
  assumes "length src \<le> n"
  shows "copy_into_tail (replicate n 0) src = Inr (be_bytes n (be_val src))"
proof -
  let ?t = "replicate (n - length src) (0 :: u8) @ src"
  have z: "be_val (replicate k (0 :: u8)) = 0" for k by (induction k) simp_all
  have "be_bytes (length ?t) (be_val ?t) = ?t" by (rule be_bytes_be_val)
  then have "be_bytes n (be_val src) = ?t" using assms by (simp add: be_val_append z)
  then show ?thesis using assms by (simp add: copy_into_tail_def Let_def)
qed

text \<open>Shifting the padding out of an \<open>n\<close>-bit number leaves its \<open>n\<close> bits in front.\<close>

lemma take_shifted_bytes:
  assumes "v < 2 ^ n"
  shows "take n (bytes_bits (shift_left_in_place (be_bytes (div_ceil n 8) v) (div_ceil n 8 * 8 - n)))
    = nat_bits n v"
proof -
  let ?m = "div_ceil n 8" let ?u = "div_ceil n 8 * 8 - n"
  let ?t = "shift_left_in_place (be_bytes ?m v) ?u"
  have m: "8 * ?m = n + ?u" and u: "?u < 8"
    using div_ceil_bounds[of n] by (simp_all add: mult.commute)
  have "n \<le> 8 * ?m" using m by linarith
  then have "(2::nat) ^ n \<le> 2 ^ (8 * ?m)" by (rule power_increasing) simp
  with assms have "v mod 256 ^ ?m = v" by (simp add: power_mult)
  then have val: "be_val ?t = (v * 2 ^ ?u) mod 2 ^ (8 * ?m)"
    using be_val_shift_left_in_place[OF u, of "be_bytes ?m v"]
    by (simp add: be_val_be_bytes power_mult)
  have "bytes_bits ?t = nat_bits (8 * ?m) (be_val ?t)"
    using bytes_bits_be_val[of ?t] by simp
  also have "\<dots> = nat_bits (8 * ?m) (v * 2 ^ ?u)" unfolding val by (rule nat_bits_mod) simp
  also have "\<dots> = nat_bits n v @ replicate ?u False" unfolding m by (rule nat_bits_shift)
  finally show ?thesis by simp
qed

lemma shift_left_in_place_0 [simp]: "shift_left_in_place bs 0 = bs"
  by (simp add: shift_left_in_place_def)

context bignum
begin

lemma cb_store_big_uint_mk:
  "length xs \<le> 1023 \<Longrightarrow> cb_store_big_uint X (mk_cb xs rs) v n =
    (if 1023 < n then Inl (BuilderErr BitsExceedMax)
     else if 1023 < length xs + n then Inl (BuilderErr BitsNotAvailable)
     else if n = 0 \<and> v \<noteq> 0 then Inl (BuilderErr NonZeroInZeroBits)
     else if 2 ^ n \<le> v then Inl (BuilderErr UnsignedDoesNotFit)
     else Inr (mk_cb (xs @ nat_bits n v) rs))"
proof -
  assume xs: "length xs \<le> 1023"
  have *: "and_then (copy_into_tail (replicate (div_ceil n 8) 0) (biguint_to_bytes_be X v)) (\<lambda>temp.
        let unused_low_bits = length temp * 8 - n;
            temp = (if 0 < unused_low_bits then shift_left_in_place temp unused_low_bits else temp)
        in cb_store_bits (mk_cb xs rs) temp n) = Inr (mk_cb (xs @ nat_bits n v) rs)"
    if "length xs + n \<le> 1023" "0 < n" "v < 2 ^ n"
  proof -
    let ?m = "div_ceil n 8" let ?t = "shift_left_in_place (be_bytes ?m v) (?m * 8 - n)"
    have "copy_into_tail (replicate ?m 0) (biguint_to_bytes_be X v) = Inr (be_bytes ?m v)"
      using copy_into_zeros[OF length_min_be_bytes_le[OF that(3,2)]]
      by (simp add: biguint_to_bytes_be)
    moreover have "cb_store_bits (mk_cb xs rs) ?t n = Inr (mk_cb (xs @ nat_bits n v) rs)"
      using that div_ceil_bounds(1)[of n] take_shifted_bytes[OF that(3)]
      by (simp add: cb_store_bits_mk)
    ultimately show ?thesis by (cases "n < ?m * 8") (simp_all add: Let_def)
  qed
  have "n < bit_length v \<longleftrightarrow> 2 ^ n \<le> v" using bit_length_le_iff[of v n] by linarith
  with * xs show ?thesis
    by (auto simp: cb_store_big_uint_def cb_available_bits_def biguint_bits simp del: Let_def)
qed

lemma cb_store_uint_custom_mk:
  fixes v :: "'a::len word"
  assumes "length xs \<le> 1023" "LENGTH('a) \<le> 1023"
  shows "cb_store_uint_custom X (mk_cb xs rs) v n =
    (if LENGTH('a) < n then Inl (BuilderErr UintWiderThanType)
     else if 1023 < length xs + n then Inl (BuilderErr BitsNotAvailable)
     else if n = 0 \<and> v \<noteq> 0 then Inl (BuilderErr NonZeroInZeroBits)
     else if 2 ^ n \<le> unat v then Inl (BuilderErr UnsignedDoesNotFit)
     else Inr (mk_cb (xs @ nat_bits n (unat v)) rs))"
  using assms by (auto simp: cb_store_uint_custom_def cb_store_big_uint_mk to_big_uint_def unat_eq_zero)

lemma cb_store_uint_mk:
  fixes v :: "'a::len word"
  assumes "length xs \<le> 1023" "LENGTH('a) \<le> 1023"
  shows "cb_store_uint X (mk_cb xs rs) v =
    (if 1023 < length xs + LENGTH('a) then Inl (BuilderErr BitsNotAvailable)
     else Inr (mk_cb (xs @ nat_bits LENGTH('a) (unat v)) rs))"
  using assms unsigned_less[of v, where ?'a = nat]
  by (auto simp: cb_store_uint_def cb_store_uint_custom_mk not_le[symmetric])

text \<open>Two's complement: the stored bits are those of the value modulo \<open>2\<^sup>n\<close>.\<close>

lemma cb_store_big_int_mk:
  "length xs \<le> 1023 \<Longrightarrow> cb_store_big_int X (mk_cb xs rs) v n =
    (if 1023 < n then Inl (BuilderErr BitsExceedMax)
     else if n = 0 then (if v = 0 then Inr (mk_cb xs rs) else Inl (BuilderErr NonZeroInZeroBits))
     else if v < - (2 ^ (n - 1)) \<or> 2 ^ (n - 1) \<le> v then Inl (BuilderErr SignedDoesNotFit)
     else if 1023 < length xs + n then Inl (BuilderErr BitsNotAvailable)
     else Inr (mk_cb (xs @ nat_bits n (nat (v mod 2 ^ n))) rs))"
proof (cases "n = 0 \<or> v < - (2 ^ (n - 1)) \<or> 2 ^ (n - 1) \<le> v")
  case False
  assume xs: "length xs \<le> 1023"
  define h :: int where "h = 2 ^ (n - 1)"
  have full: "2 ^ n = 2 * h" using False power_Suc[of "2::int" "n - 1"] by (simp add: h_def)
  have h0: "0 < h" by (simp add: h_def)
  have b: "- h \<le> v" "v < h" using False by (auto simp: h_def)
  define u where "u = (if v < 0 then 2 ^ n + v else v)"
  have u: "0 \<le> u" "u < 2 ^ n" using b h0 by (auto simp: u_def full)
  have "u mod 2 ^ n = v mod 2 ^ n" by (simp add: u_def)
  then have um: "u = v mod 2 ^ n" using u by simp
  have "nat u < 2 ^ n" using u by (metis nat_less_eq_zless nat_numeral nat_power_eq zero_le_numeral)
  moreover have "cb_store_big_int X (mk_cb xs rs) v n =
      (if 1023 < n then Inl (BuilderErr BitsExceedMax)
       else cb_store_big_uint X (mk_cb xs rs) (nat u) n)"
    using False u(1) by (simp add: cb_store_big_int_def Let_def u_def)
  ultimately show ?thesis using False xs by (simp add: cb_store_big_uint_mk flip: um)
qed (auto simp: cb_store_big_int_def)

end

end
