(* ===== verification/Slice.thy ===== *)
theory Slice
  imports CellBuilder
begin

unbundle bit_operations_syntax

text \<open>
  Sequential reading of a cell (\<open>src/tvm/slice.rs\<close>).  A slice is a cell with a bit and a
  reference position; every load returns the value with the advanced slice, or the
  source's error.  \<open>slice_bits\<close> and \<open>slice_refs\<close> are what is left to read, and \<open>adv s n m\<close>
  is the slice after \<open>n\<close> bits and \<open>m\<close> references: the lemmas express each load as a prefix
  of \<open>slice_bits\<close> and an \<open>adv\<close>.
\<close>

record slice =
  sl_cell :: cell
  bit_pos :: nat
  ref_pos :: nat

definition slice_new :: "cell \<Rightarrow> slice" where
  "slice_new c = \<lparr>sl_cell = c, bit_pos = 0, ref_pos = 0\<rparr>"

definition remaining_bits :: "slice \<Rightarrow> nat" where
  "remaining_bits s = cell_bit_len (sl_cell s) - bit_pos s"

definition remaining_refs :: "slice \<Rightarrow> nat" where
  "remaining_refs s = reference_count (sl_cell s) - ref_pos s"

definition slice_is_empty :: "slice \<Rightarrow> bool" where
  "slice_is_empty s \<longleftrightarrow> remaining_bits s = 0 \<and> remaining_refs s = 0"

definition load_bit :: "slice \<Rightarrow> (bool \<times> slice) result" where
  "load_bit s =
     (if remaining_bits s = 0 then Inl (SliceErr NoMoreBits)
      else if length (cell_data (sl_cell s)) \<le> bit_pos s div 8
      then Inl (SliceErr BitPositionOutOfBounds)
      else Inr (get_bit_at (cell_data (sl_cell s)) (bit_pos s), s\<lparr>bit_pos := bit_pos s + 1\<rparr>))"

fun load_bits_loop :: "slice \<Rightarrow> nat \<Rightarrow> nat \<Rightarrow> bytes \<Rightarrow> (bytes \<times> slice) result" where
  "load_bits_loop s i 0 acc = Inr (acc, s)"
| "load_bits_loop s i (Suc k) acc =
     and_then (load_bit s) (\<lambda>(v, s'). load_bits_loop s' (Suc i) k (set_bit_at acc i v))"

definition load_bits :: "slice \<Rightarrow> nat \<Rightarrow> (bytes \<times> slice) result" where
  "load_bits s n =
     (if remaining_bits s < n then Inl (SliceErr NotEnoughBits)
      else load_bits_loop s 0 n (replicate (div_ceil n 8) 0))"

definition load_bytes :: "slice \<Rightarrow> nat \<Rightarrow> (bytes \<times> slice) result" where
  "load_bytes s n = load_bits s (n * 8)"

definition load_big_uint :: "crates \<Rightarrow> slice \<Rightarrow> nat \<Rightarrow> (nat \<times> slice) result" where
  "load_big_uint X s n =
     (if MAX_CELL_BITS < n then Inl (SliceErr LoadExceedsMax)
      else if n = 0 then Inr (0, s)
      else and_then (load_bits s n) (\<lambda>(bs, s').
        let value = biguint_from_bytes_be X bs;
            unused_low_bits = length bs * 8 - n
        in Inr (if 0 < unused_low_bits then drop_bit unused_low_bits value else value, s')))"

definition from_big_uint :: "crates \<Rightarrow> nat \<Rightarrow> 'a::len word result" where
  "from_big_uint X v =
     (if LENGTH('a) = 128 then and_then (from_big_uint_u128 X v) (\<lambda>w. Inr (ucast w))
      else from_big_uint_small X v)"

definition load_uint_custom :: "crates \<Rightarrow> slice \<Rightarrow> nat \<Rightarrow> ('a::len word \<times> slice) result" where
  "load_uint_custom X s n =
     (if LENGTH('a) < n then Inl (SliceErr LoadWiderThanType)
      else and_then (load_big_uint X s n) (\<lambda>(v, s').
        and_then (from_big_uint X v) (\<lambda>w. Inr (w, s'))))"

definition load_uint :: "crates \<Rightarrow> slice \<Rightarrow> ('a::len word \<times> slice) result" where
  "load_uint X s = load_uint_custom X s LENGTH('a)"

definition load_byte :: "crates \<Rightarrow> slice \<Rightarrow> (u8 \<times> slice) result" where
  "load_byte X s = load_uint X s"

definition load_u8 :: "crates \<Rightarrow> slice \<Rightarrow> (u8 \<times> slice) result" where
  "load_u8 X s = load_uint X s"

definition load_u16 :: "crates \<Rightarrow> slice \<Rightarrow> (u16 \<times> slice) result" where
  "load_u16 X s = load_uint X s"

definition load_u32 :: "crates \<Rightarrow> slice \<Rightarrow> (u32 \<times> slice) result" where
  "load_u32 X s = load_uint X s"

definition load_u64 :: "crates \<Rightarrow> slice \<Rightarrow> (u64 \<times> slice) result" where
  "load_u64 X s = load_uint X s"

definition load_big_int :: "crates \<Rightarrow> slice \<Rightarrow> nat \<Rightarrow> (int \<times> slice) result" where
  "load_big_int X s n =
     (if MAX_CELL_BITS < n then Inl (SliceErr LoadExceedsMax)
      else if n = 0 then Inr (0, s)
      else and_then (load_big_uint X s n) (\<lambda>(unsigned, s').
        let sign_bit = push_bit (n - 1) 1
        in Inr (if unsigned AND sign_bit \<noteq> 0 then int unsigned - 2 ^ n else int unsigned, s')))"

text \<open>\<open>i64::try_from\<close>.\<close>

definition load_int :: "crates \<Rightarrow> slice \<Rightarrow> nat \<Rightarrow> (int \<times> slice) result" where
  "load_int X s n =
     (if 64 < n then Inl (SliceErr MoreThan64Bits)
      else and_then (load_big_int X s n) (\<lambda>(v, s').
        if - (2 ^ 63) \<le> v \<and> v < 2 ^ 63 then Inr (v, s') else Inl (SliceErr LoadedDoesNotFit)))"

definition load_reference :: "slice \<Rightarrow> (cell \<times> slice) result" where
  "load_reference s =
     (if remaining_refs s = 0 then Inl (SliceErr NoMoreReferences)
      else case reference (sl_cell s) (ref_pos s) of
          None \<Rightarrow> Inl (SliceErr ReferenceNotFound)
        | Some c \<Rightarrow> Inr (c, s\<lparr>ref_pos := ref_pos s + 1\<rparr>))"

definition preload_reference :: "slice \<Rightarrow> nat \<Rightarrow> cell result" where
  "preload_reference s i =
     (case reference (sl_cell s) (ref_pos s + i) of
        None \<Rightarrow> Inl (SliceErr ReferenceNotFound)
      | Some c \<Rightarrow> Inr c)"

definition skip_bits :: "slice \<Rightarrow> nat \<Rightarrow> slice result" where
  "skip_bits s n =
     (if remaining_bits s < n then Inl (SliceErr SkipBitsTooMany)
      else Inr (s\<lparr>bit_pos := bit_pos s + n\<rparr>))"

definition skip_refs :: "slice \<Rightarrow> nat \<Rightarrow> slice result" where
  "skip_refs s n =
     (if remaining_refs s < n then Inl (SliceErr SkipRefsTooMany)
      else Inr (s\<lparr>ref_pos := ref_pos s + n\<rparr>))"

definition slice_reset :: "slice \<Rightarrow> slice" where
  "slice_reset s = s\<lparr>bit_pos := 0, ref_pos := 0\<rparr>"

definition clone_from_current :: "slice \<Rightarrow> slice" where
  "clone_from_current s = \<lparr>sl_cell = sl_cell s, bit_pos = bit_pos s, ref_pos = ref_pos s\<rparr>"

definition load_remaining_bits :: "slice \<Rightarrow> (bytes \<times> slice) result" where
  "load_remaining_bits s = load_bits s (remaining_bits s)"

text \<open>The \<open>while self.remaining_refs() > 0\<close> loop; the count of remaining references decreases.\<close>

function load_remaining_refs_loop :: "slice \<Rightarrow> cell list \<Rightarrow> (cell list \<times> slice) result" where
  "load_remaining_refs_loop s acc =
     (if 0 < remaining_refs s
      then case load_reference s of
          Inl e \<Rightarrow> Inl e
        | Inr (c, s') \<Rightarrow> load_remaining_refs_loop s' (acc @ [c])
      else Inr (acc, s))"
  by pat_completeness auto
termination
  by (relation "measure (\<lambda>(s, acc). remaining_refs s)")
     (auto simp: load_reference_def remaining_refs_def split: option.splits if_splits)

declare load_remaining_refs_loop.simps [simp del]

definition load_remaining_refs :: "slice \<Rightarrow> (cell list \<times> slice) result" where
  "load_remaining_refs s = load_remaining_refs_loop s []"

definition can_read_bits :: "slice \<Rightarrow> nat \<Rightarrow> bool" where
  "can_read_bits s n \<longleftrightarrow> n \<le> remaining_bits s"

definition can_read_refs :: "slice \<Rightarrow> nat \<Rightarrow> bool" where
  "can_read_refs s n \<longleftrightarrow> n \<le> remaining_refs s"

text \<open>\<open>usize\<close> has 64 bits, so \<open>usize::try_from\<close> of a \<open>u64\<close> succeeds and \<open>checked_mul\<close> bounds by \<open>2\<^sup>6\<^sup>4\<close>.\<close>

definition load_var_big_uint :: "crates \<Rightarrow> slice \<Rightarrow> nat \<Rightarrow> (nat \<times> slice) result" where
  "load_var_big_uint X s length_bits =
     and_then (load_uint_custom X s length_bits) (\<lambda>(w :: u64, s').
       let byte_len = unat w in
       if 2 ^ length_bits \<le> byte_len then Inl (BuilderErr VarByteLengthDoesNotFit)
       else if 2 ^ 64 \<le> byte_len * 8 then Inl (SliceErr VarLengthOverflow)
       else if remaining_bits s' < byte_len * 8 then Inl (SliceErr NotEnoughBits)
       else if byte_len = 0 then Inr (0, s')
       else and_then (load_bytes s' byte_len) (\<lambda>(bs, s'').
         Inr (biguint_from_bytes_be X bs, s'')))"

definition load_var_uint :: "crates \<Rightarrow> slice \<Rightarrow> nat \<Rightarrow> (u64 \<times> slice) result" where
  "load_var_uint X s length_bits =
     and_then (load_var_big_uint X s length_bits) (\<lambda>(v, s').
       let digits = biguint_to_u64_digits X v
       in if 1 < length digits then Inl (SliceErr LoadedDoesNotFit)
          else Inr (case digits of [] \<Rightarrow> 0 | d # _ \<Rightarrow> d, s'))"

definition load_coins :: "crates \<Rightarrow> slice \<Rightarrow> (u128 \<times> slice) result" where
  "load_coins X s =
     and_then (load_uint_custom X s 4) (\<lambda>(w :: u8, s').
       let len = unat w in
       if 15 < len then Inl (SliceErr CoinsLengthTooLong)
       else if len = 0 then Inr (0, s')
       else and_then (load_bytes s' len) (\<lambda>(bs, s'').
         Inr (fold (\<lambda>byte acc. push_bit 8 acc OR ucast byte) bs 0, s'')))"

section \<open>What is left to read\<close>

definition slice_bits :: "slice \<Rightarrow> bool list" where
  "slice_bits s = drop (bit_pos s) (cell_bits (sl_cell s))"

definition slice_refs :: "slice \<Rightarrow> cell list" where
  "slice_refs s = drop (ref_pos s) (cell_references (sl_cell s))"

definition wf_slice :: "slice \<Rightarrow> bool" where
  "wf_slice s \<longleftrightarrow> wf_cell (sl_cell s) \<and> bit_pos s \<le> cell_bit_len (sl_cell s)
     \<and> ref_pos s \<le> reference_count (sl_cell s)"

definition adv :: "slice \<Rightarrow> nat \<Rightarrow> nat \<Rightarrow> slice" where
  "adv s n m = s\<lparr>bit_pos := bit_pos s + n, ref_pos := ref_pos s + m\<rparr>"

section \<open>Lemmas\<close>

lemma adv_simps [simp]:
  "adv s 0 0 = s"
  "adv (adv s n m) n' m' = adv s (n + n') (m + m')"
  "slice_bits (adv s n m) = drop n (slice_bits s)"
  "slice_refs (adv s n m) = drop m (slice_refs s)"
  "sl_cell (adv s n m) = sl_cell s"
  by (simp_all add: adv_def slice_bits_def slice_refs_def ac_simps)

lemma wf_slice_new [simp]: "wf_slice (slice_new c) \<longleftrightarrow> wf_cell c"
  by (simp add: wf_slice_def slice_new_def)

lemma slice_new_view [simp]:
  "slice_bits (slice_new c) = cell_bits c"
  "slice_refs (slice_new c) = cell_references c"
  by (simp_all add: slice_bits_def slice_refs_def slice_new_def)

lemma remaining_bits_eq: "wf_slice s \<Longrightarrow> remaining_bits s = length (slice_bits s)"
  by (simp add: remaining_bits_def slice_bits_def wf_slice_def wf_cell_bounds)

lemma remaining_refs_eq: "remaining_refs s = length (slice_refs s)"
  by (simp add: remaining_refs_def slice_refs_def reference_count_def)

lemma wf_adv:
  "wf_slice s \<Longrightarrow> n \<le> length (slice_bits s) \<Longrightarrow> m \<le> length (slice_refs s) \<Longrightarrow> wf_slice (adv s n m)"
  by (auto simp: wf_slice_def adv_def slice_bits_def slice_refs_def wf_cell_bounds reference_count_def)

lemma slice_is_empty_eq:
  "wf_slice s \<Longrightarrow> slice_is_empty s \<longleftrightarrow> slice_bits s = [] \<and> slice_refs s = []"
  by (simp add: slice_is_empty_def remaining_bits_eq remaining_refs_eq)

lemma load_bit_eq:
  assumes "wf_slice s"
  shows "load_bit s = (case slice_bits s of
      [] \<Rightarrow> Inl (SliceErr NoMoreBits) | v # _ \<Rightarrow> Inr (v, adv s 1 0))"
proof (cases "slice_bits s")
  case Nil
  then show ?thesis using assms by (simp add: load_bit_def remaining_bits_eq)
next
  case (Cons v vs)
  let ?c = "sl_cell s"
  have wf: "wf_cell ?c" using assms by (simp add: wf_slice_def)
  have pos: "bit_pos s < cell_bit_len ?c"
    using Cons wf_cell_bounds(5)[OF wf] by (auto simp: slice_bits_def intro: ccontr)
  then have "bit_pos s < 8 * length (cell_data ?c)"
    using wf_cell_bounds(3)[OF wf] div_ceil_bounds(1)[of "cell_bit_len ?c"] by linarith
  then have idx: "\<not> length (cell_data ?c) \<le> bit_pos s div 8"
    and "get_bit_at (cell_data ?c) (bit_pos s) = cell_bits ?c ! bit_pos s"
    using pos by (auto simp: get_bit_at_nth cell_bits_def)
  moreover have "cell_bits ?c ! bit_pos s = v"
    using Cons pos wf_cell_bounds(5)[OF wf] by (metis nth_via_drop slice_bits_def)
  ultimately show ?thesis
    using assms Cons by (simp add: load_bit_def remaining_bits_eq adv_def)
qed

lemma load_bits_loop_eq:
  "wf_slice s \<Longrightarrow> k \<le> length (slice_bits s) \<Longrightarrow>
    load_bits_loop s i k acc = Inr (set_bits_from acc i (take k (slice_bits s)), adv s k 0)"
proof (induction k arbitrary: s i acc)
  case (Suc k)
  then obtain v vs where sb: "slice_bits s = v # vs" by (cases "slice_bits s") auto
  have "wf_slice (adv s 1 0)" using Suc.prems by (intro wf_adv) auto
  then have "load_bits_loop (adv s 1 0) (Suc i) k (set_bit_at acc i v) =
      Inr (set_bits_from (set_bit_at acc i v) (Suc i) (take k vs), adv s (Suc k) 0)"
    using Suc.IH[of "adv s 1 0"] Suc.prems(2) sb by simp
  then show ?case using Suc.prems(1) sb by (simp add: load_bit_eq)
qed simp

lemma load_bits_eq:
  assumes "wf_slice s"
  shows "load_bits s n =
    (if length (slice_bits s) < n then Inl (SliceErr NotEnoughBits)
     else Inr (pack (take n (slice_bits s)), adv s n 0))"
proof (cases "length (slice_bits s) < n")
  case False
  then have "length (take n (slice_bits s)) = n" by simp
  then have "set_bits_from (replicate (div_ceil n 8) 0) 0 (take n (slice_bits s))
      = pack (take n (slice_bits s))"
    using set_bits_from_zeros[of "take n (slice_bits s)"] by metis
  with False assms show ?thesis by (simp add: load_bits_def remaining_bits_eq load_bits_loop_eq)
qed (use assms in \<open>simp add: load_bits_def remaining_bits_eq\<close>)

lemma load_bytes_eq:
  assumes "wf_slice s"
  shows "load_bytes s n =
    (if length (slice_bits s) < 8 * n then Inl (SliceErr NotEnoughBits)
     else Inr (pack (take (8 * n) (slice_bits s)), adv s (8 * n) 0))"
  using assms by (simp add: load_bytes_def load_bits_eq mult.commute)

lemma load_reference_eq:
  "load_reference s = (case slice_refs s of
      [] \<Rightarrow> Inl (SliceErr NoMoreReferences) | c # _ \<Rightarrow> Inr (c, adv s 0 1))"
proof (cases "slice_refs s")
  case (Cons c cs)
  then have "ref_pos s < length (cell_references (sl_cell s))"
    by (auto simp: slice_refs_def intro: ccontr)
  moreover from this Cons have "cell_references (sl_cell s) ! ref_pos s = c"
    by (metis nth_via_drop slice_refs_def)
  ultimately show ?thesis using Cons
    by (simp add: load_reference_def remaining_refs_eq reference_def adv_def)
qed (simp add: load_reference_def remaining_refs_eq)

lemma load_remaining_refs_eq:
  "load_remaining_refs s = Inr (slice_refs s, adv s 0 (length (slice_refs s)))"
proof -
  have "load_remaining_refs_loop s acc = Inr (acc @ slice_refs s, adv s 0 (length (slice_refs s)))" for acc
  proof (induction s acc rule: load_remaining_refs_loop.induct)
    case (1 s acc)
    show ?case
    proof (cases "slice_refs s")
      case (Cons c cs)
      then have "load_remaining_refs_loop s acc = load_remaining_refs_loop (adv s 0 1) (acc @ [c])"
        by (simp add: load_remaining_refs_loop.simps[of s] remaining_refs_eq load_reference_eq)
      with Cons 1 show ?thesis by (simp add: remaining_refs_eq load_reference_eq)
    qed (simp add: load_remaining_refs_loop.simps remaining_refs_eq)
  qed
  then show ?thesis by (simp add: load_remaining_refs_def)
qed

lemma and_sign_bit_iff: "0 < n \<Longrightarrow> v < 2 ^ n \<Longrightarrow>
    v AND push_bit (n - 1) 1 \<noteq> 0 \<longleftrightarrow> 2 ^ (n - 1) \<le> (v :: nat)"
proof -
  assume n: "0 < n" and v: "v < 2 ^ n"
  have "v AND push_bit (n - 1) 1 \<noteq> 0 \<longleftrightarrow> bit v (n - 1)"
    by (simp add: and_exp_eq_0_iff_not_bit)
  also have "\<dots> \<longleftrightarrow> odd (v div 2 ^ (n - 1))" by (simp add: bit_iff_odd)
  also have "\<dots> \<longleftrightarrow> 2 ^ (n - 1) \<le> v"
  proof (cases "2 ^ (n - 1) \<le> v")
    case True
    have "v < 2 * 2 ^ (n - 1)" using v n by (metis power_eq_if less_not_refl2)
    then have "v div 2 ^ (n - 1) < 2" by (simp add: less_mult_imp_div_less)
    moreover have "1 \<le> v div 2 ^ (n - 1)" using True by (simp add: Suc_le_eq div_greater_zero_iff)
    ultimately have "v div 2 ^ (n - 1) = 1" by linarith
    then show ?thesis using True by simp
  qed simp
  finally show ?thesis .
qed

text \<open>Reading back \<open>n\<close> bits of a two's-complement number.\<close>

definition signed_val :: "bool list \<Rightarrow> int" where
  "signed_val bs = (if 2 * bits_val bs < 2 ^ length bs then int (bits_val bs)
     else int (bits_val bs) - 2 ^ length bs)"

lemma signed_val_nat_bits:
  assumes "0 < n" "- (2 ^ (n - 1)) \<le> v" "v < 2 ^ (n - 1)"
  shows "signed_val (nat_bits n (nat (v mod 2 ^ n))) = v"
proof -
  define h :: int where "h = 2 ^ (n - 1)"
  have full: "2 ^ n = 2 * h" using assms(1) power_Suc[of "2::int" "n - 1"] by (simp add: h_def)
  have b: "- h \<le> v" "v < h" using assms by (simp_all add: h_def)
  define m where "m = v mod 2 ^ n"
  have m0: "0 \<le> m" "m < 2 ^ n" by (simp_all add: m_def)
  have "nat m < 2 ^ n" using m0 by (metis nat_less_eq_zless nat_numeral nat_power_eq zero_le_numeral)
  then have bv: "int (bits_val (nat_bits n (nat m))) = m" using m0 by simp
  then have c: "2 * bits_val (nat_bits n (nat m)) < 2 ^ n \<longleftrightarrow> m < h"
    using full by (metis mult_less_cancel_left_pos of_nat_less_iff of_nat_mult of_nat_numeral of_nat_power zero_less_numeral)
  have "m = (if 0 \<le> v then v else v + 2 * h)"
  proof (cases "0 \<le> v")
    case True
    then show ?thesis using b by (simp add: m_def full)
  next
    case False
    have "m = (v + 2 * h) mod (2 * h)" by (simp add: m_def full)
    also have "\<dots> = v + 2 * h" using False b by (intro mod_pos_pos_trivial) auto
    finally show ?thesis using False by simp
  qed
  moreover have "signed_val (nat_bits n (nat m)) = (if m < h then m else m - 2 ^ n)"
    unfolding signed_val_def length_nat_bits c bv ..
  ultimately have "signed_val (nat_bits n (nat m)) = v" using b full by (simp split: if_splits)
  then show ?thesis unfolding m_def .
qed

lemma unat_word_of_nat: "n < 2 ^ LENGTH('a) \<Longrightarrow> unat (word_of_nat n :: 'a::len word) = n"
  by (simp add: unat_of_nat)

lemma ucast_word_of_nat:
  "n < 2 ^ LENGTH('a) \<Longrightarrow> ucast (word_of_nat n :: 'a::len word) = (word_of_nat n :: 'b::len word)"
  by (metis of_nat_unat unat_word_of_nat)

context bignum
begin

lemma load_big_uint_eq:
  assumes "wf_slice s"
  shows "load_big_uint X s n =
    (if 1023 < n then Inl (SliceErr LoadExceedsMax)
     else if length (slice_bits s) < n then Inl (SliceErr NotEnoughBits)
     else Inr (bits_val (take n (slice_bits s)), adv s n 0))"
proof -
  have "drop_bit (div_ceil n 8 * 8 - n) (be_val (pack (take n (slice_bits s)))) = bits_val (take n (slice_bits s))"
    if "n \<le> length (slice_bits s)"
    using that by (simp add: be_val_pack drop_bit_eq_div mult.commute)
  moreover have "be_val (pack (take n (slice_bits s))) = bits_val (take n (slice_bits s))"
    if "n \<le> length (slice_bits s)" "\<not> n < div_ceil n 8 * 8"
    using that by (simp add: be_val_pack mult.commute)
  ultimately show ?thesis using assms
    by (auto simp: load_big_uint_def load_bits_eq biguint_from_bytes_be Let_def)
qed

lemma from_big_uint_small:
  assumes "v < 2 ^ LENGTH('a)" "LENGTH('a::len) \<le> 64"
  shows "from_big_uint_small X v = Inr (word_of_nat v :: 'a word)"
proof (cases "v = 0")
  case False
  have "(2::nat) ^ LENGTH('a) \<le> 2 ^ 64" using assms(2) by (rule power_increasing) simp
  with assms(1) have v: "v < 2 ^ 64" by linarith
  then have "u64_digits v = [word_of_nat v]" and "unat (word_of_nat v :: u64) = v"
    using False by (simp_all add: u64_digits_simps unat_of_nat)
  moreover from v have "ucast (word_of_nat v :: u64) = (word_of_nat v :: 'a word)"
    by (intro ucast_word_of_nat) simp
  moreover have "\<not> 2 ^ LENGTH('a) - 1 < v" using assms(1) by linarith
  ultimately show ?thesis
    by (simp add: from_big_uint_small_def biguint_to_u64_digits Let_def)
qed (simp add: from_big_uint_small_def biguint_to_u64_digits u64_digits_simps Let_def)

lemma from_big_uint_u128:
  assumes "v < 2 ^ 128"
  shows "from_big_uint_u128 X v = Inr (word_of_nat v)"
proof -
  define lo where "lo = v mod 2 ^ 64"
  define hi where "hi = v div 2 ^ 64"
  have hi: "hi < 2 ^ 64" using assms by (simp add: hi_def less_mult_imp_div_less)
  have lo: "lo < 2 ^ 64" by (simp add: lo_def)
  have v: "v = lo + hi * 2 ^ 64" by (simp add: lo_def hi_def)
  have digits: "u64_digits v = (if v = 0 then [] else if hi = 0 then [word_of_nat lo]
      else [word_of_nat lo, word_of_nat hi])"
  proof -
    have "(word_of_nat v :: u64) = word_of_nat lo"
      by (simp add: word_of_nat_eq_iff take_bit_eq_mod lo_def)
    moreover have "u64_digits hi = (if hi = 0 then [] else [word_of_nat hi])"
      using hi by (simp add: u64_digits_simps)
    ultimately show ?thesis using u64_digits.simps[of v] unfolding hi_def[symmetric]
      by (auto simp: v)
  qed
  have ulo: "ucast (word_of_nat lo :: u64) = (word_of_nat lo :: u128)"
    and uhi: "ucast (word_of_nat hi :: u64) = (word_of_nat hi :: u128)"
    using lo hi by (simp_all add: ucast_word_of_nat)
  have "(word_of_nat lo :: u128) AND push_bit 64 (word_of_nat hi) = 0"
  proof (rule bit_eqI)
    fix i
    have "\<not> bit lo i" if "64 \<le> i"
    proof -
      have "lo < 2 ^ i" using lo that by (meson less_le_trans one_le_numeral power_increasing)
      then show ?thesis by (simp add: bit_iff_odd)
    qed
    then show "bit ((word_of_nat lo :: u128) AND push_bit 64 (word_of_nat hi)) i = bit (0 :: u128) i"
      by (auto simp: bit_simps)
  qed
  then have "(word_of_nat lo :: u128) OR push_bit 64 (word_of_nat hi)
      = word_of_nat lo + word_of_nat hi * 2 ^ 64"
    by (simp flip: disjunctive_add_eq_or) (simp add: push_bit_eq_mult)
  also have "\<dots> = word_of_nat v" unfolding v by simp
  finally have or: "(word_of_nat lo :: u128) OR push_bit 64 (word_of_nat hi) = word_of_nat v" .
  show ?thesis
  proof (cases "v = 0")
    case False
    show ?thesis
    proof (cases "hi = 0")
      case True
      then have "u64_digits v = [word_of_nat lo]" "lo = v" using digits False v by simp_all
      then show ?thesis using ulo
        by (simp add: from_big_uint_u128_def biguint_to_u64_digits Let_def)
    next
      case hi: False
      then show ?thesis using False or
        by (simp add: from_big_uint_u128_def biguint_to_u64_digits digits ulo uhi Let_def)
    qed
  qed (simp add: from_big_uint_u128_def biguint_to_u64_digits u64_digits_simps Let_def)
qed

text \<open>The widths of the sealed trait: 8, 16, 32, 64 and 128.\<close>

lemma load_uint_custom_eq:
  assumes "wf_slice s" "LENGTH('a::len) \<le> 64 \<or> LENGTH('a) = 128"
  shows "load_uint_custom X s n =
    (if LENGTH('a) < n then Inl (SliceErr LoadWiderThanType)
     else if length (slice_bits s) < n then Inl (SliceErr NotEnoughBits)
     else Inr (word_of_nat (bits_val (take n (slice_bits s))) :: 'a word, adv s n 0))"
proof -
  have "from_big_uint X (bits_val (take n (slice_bits s)))
      = Inr (word_of_nat (bits_val (take n (slice_bits s))) :: 'a word)"
    if "n \<le> LENGTH('a)" "n \<le> length (slice_bits s)"
  proof -
    have "bits_val (take n (slice_bits s)) < 2 ^ n"
      using bits_val_less[of "take n (slice_bits s)"] that by simp
    also have "\<dots> \<le> 2 ^ LENGTH('a)" using that(1) by (rule power_increasing) simp
    finally have lt: "bits_val (take n (slice_bits s)) < 2 ^ LENGTH('a)" .
    show ?thesis
    proof (cases "LENGTH('a) = 128")
      case True
      with lt have "from_big_uint_u128 X (bits_val (take n (slice_bits s)))
          = Inr (word_of_nat (bits_val (take n (slice_bits s))))"
        by (intro from_big_uint_u128) simp
      moreover have "ucast (word_of_nat (bits_val (take n (slice_bits s))) :: u128)
          = (word_of_nat (bits_val (take n (slice_bits s))) :: 'a word)"
        using True lt by (intro ucast_word_of_nat) simp
      ultimately show ?thesis using True by (simp add: from_big_uint_def)
    qed (use assms lt in \<open>simp add: from_big_uint_def from_big_uint_small\<close>)
  qed
  moreover have "LENGTH('a) \<le> 1023" using assms(2) by auto
  ultimately show ?thesis using assms(1)
    by (auto simp: load_uint_custom_def load_big_uint_eq)
qed

lemma load_big_int_eq:
  assumes "wf_slice s"
  shows "load_big_int X s n =
    (if 1023 < n then Inl (SliceErr LoadExceedsMax)
     else if length (slice_bits s) < n then Inl (SliceErr NotEnoughBits)
     else Inr (signed_val (take n (slice_bits s)), adv s n 0))"
proof (cases "1023 < n \<or> length (slice_bits s) < n \<or> n = 0")
  case False
  let ?v = "bits_val (take n (slice_bits s))"
  have v: "?v < 2 ^ n" using bits_val_less[of "take n (slice_bits s)"] False by simp
  have "2 ^ n = 2 * (2::nat) ^ (n - 1)" using False by (metis power_eq_if)
  then have "?v AND push_bit (n - 1) 1 \<noteq> 0 \<longleftrightarrow> \<not> 2 * ?v < 2 ^ n"
    using and_sign_bit_iff[OF _ v] False by auto
  then show ?thesis using False assms
    by (simp add: load_big_int_def load_big_uint_eq signed_val_def Let_def min_absorb2)
qed (use assms in \<open>auto simp: load_big_int_def load_big_uint_eq signed_val_def\<close>)

end

end
