(* ===== verification/TextCodecs.thy ===== *)
theory TextCodecs
  imports Ton_Prelude
begin

text \<open>
  The \<open>hex\<close> and \<open>base64\<close> crates, as a record of functions \<open>T\<close> with the documented laws as the
  locale \<open>text_laws\<close>, interpreted on an executable reference implementation of both
  encodings (RFC 4648, the four engines the source uses).
\<close>

datatype b64_engine = STANDARD | STANDARD_NO_PAD | URL_SAFE | URL_SAFE_NO_PAD

record text_codecs =
  hex_encode :: "bytes \<Rightarrow> string"
  hex_decode :: "string \<Rightarrow> bytes option"
  base64_encode :: "b64_engine \<Rightarrow> bytes \<Rightarrow> string"
  base64_decode :: "b64_engine \<Rightarrow> string \<Rightarrow> bytes option"

locale text_laws =
  fixes T :: text_codecs
  assumes hex_decode_encode: "hex_decode T (hex_encode T bs) = Some bs"
    and length_hex_encode: "length (hex_encode T bs) = 2 * length bs"
    and hex_decode_length: "hex_decode T s = Some bs \<Longrightarrow> length s = 2 * length bs"
    and hex_encode_no_colon: "CHR '':'' \<notin> set (hex_encode T bs)"
    and base64_encode_no_colon: "CHR '':'' \<notin> set (base64_encode T e bs)"
    and base64_decode_encode: "base64_decode T e (base64_encode T e bs) = Some bs"
    and base64_engines_agree:
      "base64_decode T e s = Some xs \<Longrightarrow> base64_decode T e' s = Some ys \<Longrightarrow> xs = ys"

section \<open>A reference implementation\<close>

definition hex_digit :: "nat \<Rightarrow> char" where
  "hex_digit n = ''0123456789abcdef'' ! n"

definition hex_value :: "char \<Rightarrow> nat option" where
  "hex_value c = (let n = of_char c :: nat in
     if 48 \<le> n \<and> n \<le> 57 then Some (n - 48)
     else if 97 \<le> n \<and> n \<le> 102 then Some (n - 87)
     else if 65 \<le> n \<and> n \<le> 70 then Some (n - 55)
     else None)"

definition ref_hex_encode :: "bytes \<Rightarrow> string" where
  "ref_hex_encode bs = concat (map (\<lambda>b. [hex_digit (unat b div 16), hex_digit (unat b mod 16)]) bs)"

fun ref_hex_decode :: "string \<Rightarrow> bytes option" where
  "ref_hex_decode [] = Some []"
| "ref_hex_decode [_] = None"
| "ref_hex_decode (a # b # s) =
     (case (hex_value a, hex_value b, ref_hex_decode s) of
        (Some h, Some l, Some bs) \<Rightarrow> Some (word_of_nat (16 * h + l) # bs)
      | _ \<Rightarrow> None)"

definition b64_url :: "b64_engine \<Rightarrow> bool" where
  "b64_url e \<longleftrightarrow> e = URL_SAFE \<or> e = URL_SAFE_NO_PAD"

definition b64_pad :: "b64_engine \<Rightarrow> bool" where
  "b64_pad e \<longleftrightarrow> e = URL_SAFE \<or> e = STANDARD"

definition b64_char :: "bool \<Rightarrow> nat \<Rightarrow> char" where
  "b64_char url i =
     (if i < 26 then char_of (65 + i) else if i < 52 then char_of (71 + i)
      else if i < 62 then char_of (i - 4)
      else if i = 62 then (if url then CHR ''-'' else CHR ''+'')
      else (if url then CHR ''_'' else CHR ''/''))"

definition b64_value :: "bool \<Rightarrow> char \<Rightarrow> nat option" where
  "b64_value url c = (let n = of_char c :: nat in
     if 65 \<le> n \<and> n \<le> 90 then Some (n - 65)
     else if 97 \<le> n \<and> n \<le> 122 then Some (n - 71)
     else if 48 \<le> n \<and> n \<le> 57 then Some (n + 4)
     else if c = (if url then CHR ''-'' else CHR ''+'') then Some 62
     else if c = (if url then CHR ''_'' else CHR ''/'') then Some 63
     else None)"

fun sextets :: "bool list \<Rightarrow> nat list" where
  "sextets [] = []"
| "sextets (b # bs) = bits_val (take 6 (b # bs @ replicate 5 False)) # sextets (drop 5 bs)"

definition ref_base64_encode :: "b64_engine \<Rightarrow> bytes \<Rightarrow> string" where
  "ref_base64_encode e bs =
     map (b64_char (b64_url e)) (sextets (bytes_bits bs))
     @ (if b64_pad e then replicate ((3 - length bs mod 3) mod 3) CHR ''='' else [])"

fun b64_values :: "bool \<Rightarrow> string \<Rightarrow> nat list option" where
  "b64_values url [] = Some []"
| "b64_values url (c # s) =
     (case (b64_value url c, b64_values url s) of
        (Some i, Some is) \<Rightarrow> Some (i # is)
      | _ \<Rightarrow> None)"

definition b64_unpack :: "nat list \<Rightarrow> bytes option" where
  "b64_unpack is =
     (let bits = concat (map (nat_bits 6) is); n = 8 * (length bits div 8)
      in if length is mod 4 = 1 \<or> bits_val (drop n bits) \<noteq> 0 then None
         else Some (pack (take n bits)))"

definition b64_strip :: "string \<Rightarrow> string" where
  "b64_strip s = rev (dropWhile (\<lambda>c. c = CHR ''='') (rev s))"

definition ref_base64_decode :: "b64_engine \<Rightarrow> string \<Rightarrow> bytes option" where
  "ref_base64_decode e s =
     (let body = (if b64_pad e then b64_strip s else s)
      in if b64_pad e \<and> (length s mod 4 \<noteq> 0 \<or> 2 < length s - length body) then None
         else case b64_values (b64_url e) body of
             None \<Rightarrow> None
           | Some is \<Rightarrow> b64_unpack is)"

definition ref_text :: text_codecs where
  "ref_text = \<lparr>hex_encode = ref_hex_encode, hex_decode = ref_hex_decode,
     base64_encode = ref_base64_encode, base64_decode = ref_base64_decode\<rparr>"

lemma ref_text_sel [simp]:
  "hex_encode ref_text = ref_hex_encode"
  "hex_decode ref_text = ref_hex_decode"
  "base64_encode ref_text = ref_base64_encode"
  "base64_decode ref_text = ref_base64_decode"
  by (simp_all add: ref_text_def)

section \<open>The reference satisfies the laws\<close>

lemma hex_value_digit: "n < 16 \<Longrightarrow> hex_value (hex_digit n) = Some n"
proof -
  have "\<forall>n \<in> set [0..<16]. hex_value (hex_digit n) = Some n" by code_simp
  then show "n < 16 \<Longrightarrow> ?thesis" by simp
qed

lemma hex_digit_no_colon: "n < 16 \<Longrightarrow> hex_digit n \<noteq> CHR '':''"
proof -
  have "\<forall>n \<in> set [0..<16]. hex_digit n \<noteq> CHR '':''" by code_simp
  then show "n < 16 \<Longrightarrow> ?thesis" by simp
qed

lemma ref_hex_decode_encode: "ref_hex_decode (ref_hex_encode bs) = Some bs"
proof (induction bs)
  case (Cons b bs)
  have "unat b < 256" using unsigned_less[of b, where ?'a = nat] by simp
  then have "unat b div 16 < 16" "unat b mod 16 < 16" by simp_all
  with Cons show ?case
    by (simp add: ref_hex_encode_def hex_value_digit)
qed (simp add: ref_hex_encode_def)

lemma ref_hex_decode_length: "ref_hex_decode s = Some bs \<Longrightarrow> length s = 2 * length bs"
  by (induction s arbitrary: bs rule: ref_hex_decode.induct) (auto split: option.splits)

lemma b64_value_char: "i < 64 \<Longrightarrow> b64_value url (b64_char url i) = Some i"
  by (auto simp: b64_value_def b64_char_def Let_def)

lemma b64_char_not_pad: "i < 64 \<Longrightarrow> b64_char url i \<noteq> CHR ''=''"
proof
  assume "i < 64" "b64_char url i = CHR ''=''"
  then have "b64_value url CHR ''='' = Some i" using b64_value_char[of i url] by simp
  then show False by (simp add: b64_value_def split: if_splits)
qed

lemma b64_char_no_colon: "i < 64 \<Longrightarrow> b64_char url i \<noteq> CHR '':''"
proof
  assume "i < 64" "b64_char url i = CHR '':''"
  then have "b64_value url CHR '':'' = Some i" using b64_value_char[of i url] by simp
  then show False by (simp add: b64_value_def split: if_splits)
qed

lemma b64_value_agree: "b64_value u c = Some i \<Longrightarrow> b64_value u' c = Some j \<Longrightarrow> i = j"
  by (auto simp: b64_value_def Let_def split: if_splits)

lemma b64_values_agree: "b64_values u s = Some is \<Longrightarrow> b64_values u' s = Some js \<Longrightarrow> is = js"
  by (induction s arbitrary: "is" js) (auto split: option.splits dest: b64_value_agree)

lemma b64_values_no_pad: "b64_values u s = Some is \<Longrightarrow> CHR ''='' \<notin> set s"
  by (induction s arbitrary: "is") (auto simp: b64_value_def split: option.splits if_splits)

lemma b64_strip_no_pad: "CHR ''='' \<notin> set s \<Longrightarrow> b64_strip (s @ replicate n CHR ''='') = s"
proof -
  assume a: "CHR ''='' \<notin> set s"
  have "dropWhile (\<lambda>c. c = CHR ''='') (replicate n CHR ''='' @ xs) = dropWhile (\<lambda>c. c = CHR ''='') xs" for xs
    by (induction n) auto
  moreover have "dropWhile (\<lambda>c. c = CHR ''='') (rev s) = rev s"
    using a by (cases "rev s") (auto simp: rev_swap)
  ultimately show ?thesis by (simp add: b64_strip_def)
qed

lemma sextets_less: "i \<in> set (sextets bs) \<Longrightarrow> i < 64"
proof (induction bs rule: sextets.induct)
  case (2 b bs)
  have len: "length (take 6 (b # bs @ replicate 5 False)) = 6" by simp
  have "bits_val (take 6 (b # bs @ replicate 5 False)) < 64"
    using bits_val_less[of "take 6 (b # bs @ replicate 5 False)"] unfolding len by simp
  with 2 show ?case by (auto simp del: take_Suc_Cons take_append)
qed simp

lemma length_sextets: "length (sextets bs) = (length bs + 5) div 6"
proof (induction bs rule: sextets.induct)
  case (2 b bs)
  have "Suc ((n - 5 + 5) div 6) = (Suc n + 5) div 6" for n :: nat
    by (cases "n < 5") (simp_all add: div_eq_dividend_iff flip: add_2_eq_Suc div_add_self2)
  with 2 show ?case by simp
qed simp

lemma unpack_sextets:
  "concat (map (nat_bits 6) (sextets bs)) = bs @ replicate (6 * ((length bs + 5) div 6) - length bs) False"
proof (induction bs rule: sextets.induct)
  case (2 b bs)
  let ?t = "take 6 (b # bs @ replicate 5 False)"
  have "length ?t = 6" by simp
  then have t: "nat_bits 6 (bits_val ?t) = ?t" by (metis nat_bits_bits_val)
  show ?case
  proof (cases "length bs < 5")
    case True
    then have "(length (b # bs) + 5) div 6 = 1" by simp
    with True t 2 show ?thesis by simp
  next
    case False
    then have "6 * ((length (b # bs) + 5) div 6) - length (b # bs)
        = 6 * ((length (drop 5 bs) + 5) div 6) - length (drop 5 bs)"
      by simp presburger
    with False t 2 show ?thesis
      by simp
  qed
qed simp

lemma b64_values_map: "(\<And>i. i \<in> set is \<Longrightarrow> i < 64) \<Longrightarrow> b64_values u (map (b64_char u) is) = Some is"
  by (induction "is") (auto simp: b64_value_char)

lemma sextet_count:
  "(8 * (3 * q) + 5) div 6 = 4 * (q :: nat)"
  "(8 * (3 * q + 1) + 5) div 6 = 4 * q + 2"
  "(8 * (3 * q + 2) + 5) div 6 = 4 * q + 3"
  by presburger+

lemma mod_3_cases:
  obtains q where "n = 3 * q" | q where "n = 3 * q + 1" | q where "n = 3 * q + (2 :: nat)"
proof -
  have "n = 3 * (n div 3) + n mod 3" "n mod 3 < 3" by simp_all
  moreover from this(2) have "n mod 3 = 0 \<or> n mod 3 = 1 \<or> n mod 3 = 2" by linarith
  ultimately show thesis using that by (metis add.right_neutral)
qed

lemma b64_unpack_sextets: "b64_unpack (sextets (bytes_bits bs)) = Some bs"
proof -
  define n k where "n = length bs" and "k = 6 * ((8 * n + 5) div 6) - 8 * n"
  have bits: "concat (map (nat_bits 6) (sextets (bytes_bits bs))) = bytes_bits bs @ replicate k False"
    by (simp add: unpack_sextets k_def n_def)
  have "k < 6 \<and> (8 * n + 5) div 6 mod 4 \<noteq> 1"
    unfolding k_def
  proof (cases n rule: mod_3_cases)
    case (1 q) then show "6 * ((8 * n + 5) div 6) - 8 * n < 6 \<and> (8 * n + 5) div 6 mod 4 \<noteq> 1"
      by (simp only: sextet_count) simp
  next
    case (2 q) then show "6 * ((8 * n + 5) div 6) - 8 * n < 6 \<and> (8 * n + 5) div 6 mod 4 \<noteq> 1"
      by (simp only: sextet_count) presburger
  next
    case (3 q) then show "6 * ((8 * n + 5) div 6) - 8 * n < 6 \<and> (8 * n + 5) div 6 mod 4 \<noteq> 1"
      by (simp only: sextet_count) simp
  qed
  moreover from this have "8 * ((8 * n + k) div 8) = 8 * n" by simp
  ultimately show ?thesis
    by (simp add: b64_unpack_def bits length_sextets Let_def n_def)
qed

lemma ref_base64_decode_encode: "ref_base64_decode e (ref_base64_encode e bs) = Some bs"
proof -
  let ?body = "map (b64_char (b64_url e)) (sextets (bytes_bits bs))"
  let ?k = "(3 - length bs mod 3) mod 3"
  have np: "CHR ''='' \<notin> set ?body" using b64_char_not_pad sextets_less by (auto dest: sym)
  have len: "((8 * length bs + 5) div 6 + ?k) mod 4 = 0 \<and> ?k < 3"
  proof (cases "length bs" rule: mod_3_cases)
    case (1 q) then show ?thesis by (simp only: sextet_count) simp
  next
    case (2 q) then show ?thesis by (simp only: sextet_count) simp
  next
    case (3 q)
    have "(3 * q + 2) mod 3 = 2" "(4 * q + 3 + 1) mod 4 = 0" by presburger+
    with 3 show ?thesis by (simp only: sextet_count) simp
  qed
  have "b64_values (b64_url e) ?body = Some (sextets (bytes_bits bs))"
    by (rule b64_values_map) (rule sextets_less)
  then show ?thesis using b64_strip_no_pad[OF np, of ?k] len
    by (auto simp: ref_base64_decode_def ref_base64_encode_def b64_unpack_sextets length_sextets)
qed

lemma b64_strip_decomp: "\<exists>n. s = b64_strip s @ replicate n CHR ''=''"
proof -
  have "rev s = takeWhile (\<lambda>c. c = CHR ''='') (rev s) @ dropWhile (\<lambda>c. c = CHR ''='') (rev s)" by simp
  moreover have "takeWhile (\<lambda>c. c = CHR ''='') (rev s)
      = replicate (length (takeWhile (\<lambda>c. c = CHR ''='') (rev s))) CHR ''=''"
    by (rule replicate_eqI) (auto dest: set_takeWhileD)
  ultimately have "s = b64_strip s @ replicate (length (takeWhile (\<lambda>c. c = CHR ''='') (rev s))) CHR ''=''"
    unfolding b64_strip_def by (metis rev_append rev_replicate rev_rev_ident)
  then show ?thesis ..
qed

lemma ref_base64_engines_agree:
  assumes "ref_base64_decode e s = Some xs" "ref_base64_decode e' s = Some ys"
  shows "xs = ys"
proof -
  have body: "\<exists>is. b64_values (b64_url f) (b64_strip s) = Some is \<and> b64_unpack is = Some zs"
    if dec: "ref_base64_decode f s = Some zs" for f zs
  proof -
    have "\<exists>is. b64_values (b64_url f) (if b64_pad f then b64_strip s else s) = Some is \<and> b64_unpack is = Some zs"
      using dec by (auto simp: ref_base64_decode_def Let_def split: option.splits if_splits)
    then obtain "is" where "is": "b64_values (b64_url f) (if b64_pad f then b64_strip s else s) = Some is"
        "b64_unpack is = Some zs" by blast
    moreover have "b64_strip s = s" if "\<not> b64_pad f"
      using "is"(1) that b64_values_no_pad[of "b64_url f" s] b64_strip_no_pad[of s 0] by simp
    ultimately show ?thesis by (cases "b64_pad f") auto
  qed
  from body[OF assms(1)] body[OF assms(2)] show ?thesis
    by (metis b64_values_agree option.inject)
qed

interpretation ref_text_laws: text_laws ref_text
proof unfold_locales
  fix bs :: bytes and e e' :: b64_engine and s :: string and xs ys :: bytes
  show "hex_decode ref_text (hex_encode ref_text bs) = Some bs"
    by (simp add: ref_hex_decode_encode)
  show "length (hex_encode ref_text bs) = 2 * length bs"
    using ref_hex_decode_length[OF ref_hex_decode_encode] by simp
  show "hex_decode ref_text s = Some bs \<Longrightarrow> length s = 2 * length bs"
    by (simp add: ref_hex_decode_length)
  have "unat b div 16 < 16" for b :: u8
    using unsigned_less[of b, where ?'a = nat] by simp
  then show "CHR '':'' \<notin> set (hex_encode ref_text bs)"
    using hex_digit_no_colon by (auto simp: ref_hex_encode_def dest: sym)
  show "CHR '':'' \<notin> set (base64_encode ref_text e bs)"
    using b64_char_no_colon sextets_less by (auto simp: ref_base64_encode_def dest: sym)
  show "base64_decode ref_text e (base64_encode ref_text e bs) = Some bs"
    by (simp add: ref_base64_decode_encode)
  show "base64_decode ref_text e s = Some xs \<Longrightarrow> base64_decode ref_text e' s = Some ys \<Longrightarrow> xs = ys"
    by (simp add: ref_base64_engines_agree)
qed

end
