(* ===== verification/Address.thy ===== *)
theory Address
  imports TextCodecs
begin

text \<open>
  \<open>src/tvm/address.rs\<close>: internal addresses with their raw form \<open>workchain:hash\<close> and their
  user-friendly form (36 bytes with a CRC16, in base64), and external addresses.

  The workchain is the \<open>i8\<close> of the source, an 8-bit word read with \<open>sint\<close>.  Strings are
  byte strings, so \<open>length\<close> is \<open>str::len\<close>.  \<open>hex\<close> and \<open>base64\<close> are the parameter \<open>T\<close>.
\<close>

section \<open>CRC16\<close>

definition crc16_bit :: "u16 \<Rightarrow> u16" where
  "crc16_bit crc = (if crc AND 0x8000 \<noteq> 0 then push_bit 1 crc XOR 0x1021 else push_bit 1 crc)"

definition crc16_byte :: "u16 \<Rightarrow> u8 \<Rightarrow> u16" where
  "crc16_byte crc byte = (crc16_bit ^^ 8) (crc XOR push_bit 8 (ucast byte))"

definition crc16 :: "bytes \<Rightarrow> bytes" where
  "crc16 data = (let crc = foldl crc16_byte 0 data in [ucast (drop_bit 8 crc), ucast crc])"

section \<open>Standard library: \<open>i8\<close> as decimal text, \<open>split_once\<close>\<close>

type_synonym i8 = "8 word"

fun show_nat :: "nat \<Rightarrow> string" where
  "show_nat n = (if n < 10 then [char_of (48 + n)] else show_nat (n div 10) @ [char_of (48 + n mod 10)])"

declare show_nat.simps [simp del]

definition show_i8 :: "i8 \<Rightarrow> string" where
  "show_i8 w = (if sint w < 0 then CHR ''-'' # show_nat (nat (- sint w)) else show_nat (nat (sint w)))"

fun parse_digits :: "bool \<Rightarrow> int \<Rightarrow> string \<Rightarrow> int option" where
  "parse_digits neg acc [] = Some acc"
| "parse_digits neg acc (c # s) =
     (let n = of_char c :: nat in
      if n < 48 \<or> 57 < n then None
      else let acc' = acc * 10 + (if neg then - int (n - 48) else int (n - 48)) in
        if acc' < -128 \<or> 127 < acc' then None else parse_digits neg acc' s)"

definition parse_i8 :: "string \<Rightarrow> i8 option" where
  "parse_i8 s = (case s of
      [] \<Rightarrow> None
    | c # cs \<Rightarrow>
        if (c = CHR ''+'' \<or> c = CHR ''-'') \<and> cs = [] then None
        else map_option word_of_int
          (if c = CHR ''-'' then parse_digits True 0 cs
           else if c = CHR ''+'' then parse_digits False 0 cs
           else parse_digits False 0 s))"

fun split_once :: "char \<Rightarrow> string \<Rightarrow> (string \<times> string) option" where
  "split_once d [] = None"
| "split_once d (c # s) =
     (if c = d then Some ([], s) else map_option (\<lambda>(a, b). (c # a, b)) (split_once d s))"

section \<open>Internal addresses\<close>

record address =
  workchain :: i8
  hash_part :: bytes
  is_bounceable :: bool
  is_test_only :: bool

definition BOUNCEABLE_TAG :: u8 where "BOUNCEABLE_TAG = 0x11"
definition NON_BOUNCEABLE_TAG :: u8 where "NON_BOUNCEABLE_TAG = 0x51"
definition TEST_ONLY_FLAG :: u8 where "TEST_ONLY_FLAG = 0x80"
definition USER_FRIENDLY_ADDRESS_LEN :: nat where "USER_FRIENDLY_ADDRESS_LEN = 36"
definition RAW_HASH_HEX_LEN :: nat where "RAW_HASH_HEX_LEN = 64"

lemmas address_consts = BOUNCEABLE_TAG_def NON_BOUNCEABLE_TAG_def TEST_ONLY_FLAG_def
  USER_FRIENDLY_ADDRESS_LEN_def RAW_HASH_HEX_LEN_def

definition new_address :: "i8 \<Rightarrow> bytes \<Rightarrow> address" where
  "new_address wc h = \<lparr>workchain = wc, hash_part = h, is_bounceable = True, is_test_only = False\<rparr>"

definition validate_workchain :: "i8 \<Rightarrow> unit result" where
  "validate_workchain wc = (if sint wc < -1 then Inl (AddressErr AddressBadWorkchain) else Inr ())"

text \<open>\<open>hash_part.copy_from_slice\<close> panics when the lengths differ.\<close>

definition address_from_hex :: "text_codecs \<Rightarrow> string \<Rightarrow> address result" where
  "address_from_hex T address = (case split_once CHR '':'' address of
      None \<Rightarrow> Inl (AddressErr AddressMissingSeparator)
    | Some (wc_str, hash_hex) \<Rightarrow>
        if CHR '':'' \<in> set hash_hex then Inl (AddressErr AddressTooManySeparators)
        else case parse_i8 wc_str of
            None \<Rightarrow> Inl (AddressErr AddressBadWorkchain)
          | Some wc \<Rightarrow> and_then (validate_workchain wc) (\<lambda>_.
              if length hash_hex \<noteq> RAW_HASH_HEX_LEN then Inl (AddressErr AddressBadHashLength)
              else case hex_decode T hash_hex of
                  None \<Rightarrow> Inl (AddressErr AddressBadHex)
                | Some hash_bytes \<Rightarrow>
                    if length hash_bytes \<noteq> 32 then Inl Panic
                    else Inr (new_address wc hash_bytes)))"

definition decode_user_friendly :: "text_codecs \<Rightarrow> string \<Rightarrow> bytes result" where
  "decode_user_friendly T address = (case base64_decode T URL_SAFE_NO_PAD address of
      Some decoded \<Rightarrow> Inr decoded
    | None \<Rightarrow> (case base64_decode T URL_SAFE address of
        Some decoded \<Rightarrow> Inr decoded
      | None \<Rightarrow> (case base64_decode T STANDARD_NO_PAD address of
          Some decoded \<Rightarrow> Inr decoded
        | None \<Rightarrow> (case base64_decode T STANDARD address of
            Some decoded \<Rightarrow> Inr decoded
          | None \<Rightarrow> Inl (AddressErr AddressBadBase64)))))"

definition address_from_base64 :: "text_codecs \<Rightarrow> string \<Rightarrow> address result" where
  "address_from_base64 T address = and_then (decode_user_friendly T address) (\<lambda>decoded.
     if length decoded \<noteq> USER_FRIENDLY_ADDRESS_LEN then Inl (AddressErr AddressBadBase64Length)
     else let test_only = decoded ! 0 AND TEST_ONLY_FLAG \<noteq> 0;
              tag = (if test_only then decoded ! 0 XOR TEST_ONLY_FLAG else decoded ! 0)
          in and_then (if tag = BOUNCEABLE_TAG then Inr True
                       else if tag = NON_BOUNCEABLE_TAG then Inr False
                       else Inl (AddressErr AddressBadTag)) (\<lambda>bounceable.
             let wc = decoded ! 1 in
             and_then (validate_workchain wc) (\<lambda>_.
             if take 2 (drop 34 decoded) \<noteq> crc16 (take 34 decoded) then Inl (AddressErr AddressBadCrc)
             else Inr \<lparr>workchain = wc, hash_part = take 32 (drop 2 decoded),
                       is_bounceable = bounceable, is_test_only = test_only\<rparr>)))"

definition address_from_str :: "text_codecs \<Rightarrow> string \<Rightarrow> address result" where
  "address_from_str T address = (case address_from_hex T address of
      Inr addr \<Rightarrow> Inr addr
    | Inl Panic \<Rightarrow> Inl Panic
    | Inl _ \<Rightarrow> (case address_from_base64 T address of
        Inr addr \<Rightarrow> Inr addr
      | Inl Panic \<Rightarrow> Inl Panic
      | Inl _ \<Rightarrow> Inl (AddressErr AddressBadFormat)))"

definition to_raw :: "text_codecs \<Rightarrow> address \<Rightarrow> string" where
  "to_raw T a = show_i8 (workchain a) @ '':'' @ hex_encode T (hash_part a)"

text \<open>The 36 bytes of the user-friendly form, built by the first part of \<open>to_string\<close>.\<close>

definition user_friendly_bytes :: "address \<Rightarrow> bool \<Rightarrow> bool \<Rightarrow> bytes" where
  "user_friendly_bytes a bounceable test_only =
     (let tag = (if bounceable then BOUNCEABLE_TAG else NON_BOUNCEABLE_TAG);
          tag = (if test_only then tag OR TEST_ONLY_FLAG else tag);
          data = tag # workchain a # hash_part a
      in data @ crc16 data)"

definition address_to_string :: "text_codecs \<Rightarrow> address \<Rightarrow> bool \<Rightarrow> bool \<Rightarrow> bool \<Rightarrow> bool \<Rightarrow> string" where
  "address_to_string T a user_friendly url_safe bounceable test_only =
     (if \<not> user_friendly then to_raw T a
      else base64_encode T (if url_safe then URL_SAFE_NO_PAD else STANDARD)
             (user_friendly_bytes a bounceable test_only))"

definition to_hex :: "text_codecs \<Rightarrow> address \<Rightarrow> string" where
  "to_hex T a = to_raw T a"

definition to_user_friendly_url_safe :: "text_codecs \<Rightarrow> address \<Rightarrow> string" where
  "to_user_friendly_url_safe T a = address_to_string T a True True (is_bounceable a) (is_test_only a)"

definition to_base64 :: "text_codecs \<Rightarrow> address \<Rightarrow> string" where
  "to_base64 T a = to_user_friendly_url_safe T a"

definition to_user_friendly_base64 :: "text_codecs \<Rightarrow> address \<Rightarrow> string" where
  "to_user_friendly_base64 T a = address_to_string T a True False (is_bounceable a) (is_test_only a)"

definition to_bounceable :: "text_codecs \<Rightarrow> address \<Rightarrow> bool \<Rightarrow> string" where
  "to_bounceable T a url_safe = address_to_string T a True url_safe True (is_test_only a)"

definition to_non_bounceable :: "text_codecs \<Rightarrow> address \<Rightarrow> bool \<Rightarrow> string" where
  "to_non_bounceable T a url_safe = address_to_string T a True url_safe False (is_test_only a)"

definition to_test_only :: "text_codecs \<Rightarrow> address \<Rightarrow> bool \<Rightarrow> string" where
  "to_test_only T a url_safe = address_to_string T a True url_safe (is_bounceable a) True"

definition to_non_test_only :: "text_codecs \<Rightarrow> address \<Rightarrow> bool \<Rightarrow> string" where
  "to_non_test_only T a url_safe = address_to_string T a True url_safe (is_bounceable a) False"

definition set_bounceable :: "address \<Rightarrow> bool \<Rightarrow> address" where
  "set_bounceable a b = a\<lparr>is_bounceable := b\<rparr>"

definition set_test_only :: "address \<Rightarrow> bool \<Rightarrow> address" where
  "set_test_only a b = a\<lparr>is_test_only := b\<rparr>"

record account_id =
  account_workchain :: "32 word"
  account_hash :: bytes

definition to_account_id :: "address \<Rightarrow> account_id" where
  "to_account_id a = \<lparr>account_workchain = scast (workchain a), account_hash = hash_part a\<rparr>"

section \<open>External addresses\<close>

record external_address =
  ext_value :: "u64 option"
  ext_bit_len :: nat

definition new_external :: "u64 option \<Rightarrow> nat option \<Rightarrow> external_address" where
  "new_external value bit_len =
     \<lparr>ext_value = value,
      ext_bit_len = (case bit_len of
          Some n \<Rightarrow> n
        | None \<Rightarrow> (case value of Some v \<Rightarrow> bit_length (unat v) | None \<Rightarrow> 0))\<rparr>"

text \<open>The shift amount is reduced modulo the width, as release builds do.\<close>

definition external_from_bytes :: "bytes \<Rightarrow> external_address" where
  "external_from_bytes bs =
     (if bs = [] then new_external None (Some 0)
      else new_external
        (Some (foldl (\<lambda>value i. value OR push_bit (((length bs - 1 - i) * 8) mod 64) (ucast (bs ! i)))
           0 [0..<min 8 (length bs)]))
        (Some (length bs * 8)))"

definition external_from_hex :: "text_codecs \<Rightarrow> string \<Rightarrow> external_address result" where
  "external_from_hex T s = (case hex_decode T s of
      None \<Rightarrow> Inl (AddressErr AddressBadHex)
    | Some bs \<Rightarrow> Inr (external_from_bytes bs))"

section \<open>Well-formed addresses\<close>

text \<open>
  The array type of \<open>hash_part\<close> fixes its length; the workchain is the one both parsers accept.
\<close>

definition wf_address :: "address \<Rightarrow> bool" where
  "wf_address a \<longleftrightarrow> length (hash_part a) = 32 \<and> -1 \<le> sint (workchain a)"

section \<open>CRC16 is linear and injective\<close>

lemma crc16_bit_top: "(x :: u16) AND 0x8000 \<noteq> 0 \<longleftrightarrow> bit x 15"
proof -
  have "bit (0x8000 :: u16) n \<longleftrightarrow> n = 15" for n
  proof -
    have "bit (push_bit 15 1 :: u16) n \<longleftrightarrow> n = 15" by (auto simp: bit_simps simp del: push_bit_of_1)
    then show ?thesis by simp
  qed
  then have "bit (x AND 0x8000) n \<longleftrightarrow> n = 15 \<and> bit x 15" for n
    by (metis bit_and_iff)
  then have "x AND 0x8000 = 0 \<longleftrightarrow> \<not> bit x 15"
    by (metis bit_0_eq bit_word_eqI bot_apply bot_bool_def)
  then show ?thesis by simp
qed

lemma crc16_bit_xor: "crc16_bit (x XOR y) = crc16_bit x XOR crc16_bit y"
proof -
  have flip: "c XOR (c XOR a) = a" for a c :: u16
    by (metis xor.assoc xor.left_neutral xor_self_eq)
  show ?thesis
    unfolding crc16_bit_def crc16_bit_top bit_xor_iff push_bit_xor
    by (cases "bit x 15"; cases "bit y 15"; simp only: simp_thms if_True if_False)
      (simp_all add: flip xor.assoc xor.left_commute xor.commute)
qed

lemma crc16_bit_eq_0: "crc16_bit x = 0 \<longleftrightarrow> x = 0"
proof
  assume a: "crc16_bit x = 0"
  have low: "\<not> bit (push_bit 1 x) 0" "bit (0x1021 :: u16) 0"
    by (simp_all only: bit_push_bit_iff) simp_all
  have "\<not> bit x 15"
  proof
    assume "bit x 15"
    then have "push_bit 1 x XOR 0x1021 = 0" using a by (simp add: crc16_bit_def crc16_bit_top)
    then have "\<not> bit (push_bit 1 x XOR 0x1021) 0" by simp
    with low show False by (simp add: bit_xor_iff)
  qed
  then have "push_bit 1 x = 0" "\<not> bit x 15" using a by (simp_all add: crc16_bit_def crc16_bit_top)
  have "\<not> bit x n" if "n < 16" for n
  proof (cases "n = 15")
    case False
    then have "bit (push_bit 1 x) (Suc n) \<longleftrightarrow> bit x n"
      using that by (simp only: bit_push_bit_iff possible_bit_word) simp
    then show ?thesis by (simp only: \<open>push_bit 1 x = 0\<close>) simp
  qed (use \<open>\<not> bit x 15\<close> in simp)
  then show "x = 0" by (intro bit_word_eqI) simp
qed (simp add: crc16_bit_def)

lemma funpow_crc16_bit_xor: "(crc16_bit ^^ n) (x XOR y) = (crc16_bit ^^ n) x XOR (crc16_bit ^^ n) y"
  by (induction n) (simp_all add: crc16_bit_xor)

lemma xor_eq_0_iff_eq: "(x :: 'a :: len word) XOR y = 0 \<longleftrightarrow> x = y"
  by (metis xor.assoc xor.left_neutral xor_self_eq)

lemma xor_cancel:
  "(s :: 'a :: len word) XOR x = s XOR y \<longleftrightarrow> x = y"
  "(x :: 'a :: len word) XOR s = y XOR s \<longleftrightarrow> x = y"
  by (auto simp: bit_eq_iff bit_xor_iff)

lemma funpow_crc16_bit_eq_0: "(crc16_bit ^^ n) x = 0 \<longleftrightarrow> x = 0"
  by (induction n) (simp_all add: crc16_bit_eq_0)

lemma funpow_crc16_bit_inj: "(crc16_bit ^^ n) x = (crc16_bit ^^ n) y \<longleftrightarrow> x = y"
  by (metis funpow_crc16_bit_eq_0 funpow_crc16_bit_xor xor_eq_0_iff_eq)

lemma funpow_crc16_bit_low:
  "n \<le> 8 \<Longrightarrow> (crc16_bit ^^ n) (ucast (b :: u8)) = push_bit n (ucast b)"
proof (induction n)
  case (Suc n)
  then have "\<not> bit (push_bit n (ucast b) :: u16) 15"
    by (auto simp: bit_push_bit_iff bit_ucast_iff dest: bit_imp_le_length)
  with Suc show ?case by (simp add: crc16_bit_def crc16_bit_top)
qed simp

text \<open>Two bytes read as one 16-bit word.\<close>

definition word_of_bytes :: "u8 \<Rightarrow> u8 \<Rightarrow> u16" where
  "word_of_bytes a b = push_bit 8 (ucast a) XOR ucast b"

lemma word_of_bytes_parts:
  "ucast (drop_bit 8 (word_of_bytes a b)) = a" "ucast (word_of_bytes a b) = b"
  by (intro bit_word_eqI;
      auto simp: word_of_bytes_def bit_simps dest: bit_imp_le_length)+

lemma word_of_bytes_split: "word_of_bytes (ucast (drop_bit 8 c)) (ucast c) = c"
  by (intro bit_word_eqI) (auto simp: word_of_bytes_def bit_simps)

lemma word_of_bytes_inj: "word_of_bytes a b = word_of_bytes a' b' \<longleftrightarrow> a = a' \<and> b = b'"
  by (metis word_of_bytes_parts)

lemma crc16_two_bytes: "crc16_byte (crc16_byte s a) b = (crc16_bit ^^ 16) (s XOR word_of_bytes a b)"
proof -
  have "crc16_byte (crc16_byte s a) b
      = (crc16_bit ^^ 8) ((crc16_bit ^^ 8) (s XOR push_bit 8 (ucast a)) XOR (crc16_bit ^^ 8) (ucast b))"
    by (simp only: crc16_byte_def funpow_crc16_bit_low)
  also have "\<dots> = (crc16_bit ^^ (8 + 8)) ((s XOR push_bit 8 (ucast a)) XOR ucast b)"
    by (simp only: funpow_crc16_bit_xor[symmetric] funpow_add comp_def)
  finally show ?thesis by (simp add: word_of_bytes_def xor.assoc)
qed

lemma foldl_crc16_inj: "foldl crc16_byte s xs = foldl crc16_byte s' xs \<longleftrightarrow> s = s'"
proof (induction xs arbitrary: s s')
  case (Cons x xs)
  have "crc16_byte s x = crc16_byte s' x \<longleftrightarrow> s = s'"
    by (simp add: crc16_byte_def funpow_crc16_bit_inj xor_cancel)
  with Cons show ?case by simp
qed simp

text \<open>A byte string followed by its CRC16 is a codeword: its own CRC16 is zero.\<close>

lemma crc16_codeword: "foldl crc16_byte 0 (data @ [a, b]) = 0 \<longleftrightarrow> [a, b] = crc16 data"
proof -
  let ?c = "foldl crc16_byte 0 data"
  have "foldl crc16_byte 0 (data @ [a, b]) = 0 \<longleftrightarrow> ?c = word_of_bytes a b"
    by (simp add: crc16_two_bytes funpow_crc16_bit_eq_0 xor_eq_0_iff_eq)
  also have "\<dots> \<longleftrightarrow> [a, b] = crc16 data"
    unfolding crc16_def Let_def by (metis list.inject word_of_bytes_parts word_of_bytes_split)
  finally show ?thesis .
qed

text \<open>The same checksum one bit at a time, so that a window of bits need not start at a byte.\<close>

definition crc16_feed :: "u16 \<Rightarrow> bool \<Rightarrow> u16" where
  "crc16_feed crc b = crc16_bit (crc XOR (if b then 0x8000 else 0))"

primrec window_word :: "bool list \<Rightarrow> u16" where
  "window_word [] = 0"
| "window_word (b # bs) = (if b then 0x8000 else 0) XOR drop_bit 1 (window_word bs)"

lemma bit_top_word: "bit (0x8000 :: u16) n \<longleftrightarrow> n = 15"
proof -
  have "bit (push_bit 15 1 :: u16) n \<longleftrightarrow> n = 15" by (auto simp: bit_simps simp del: push_bit_of_1)
  then show ?thesis by simp
qed

lemma bit_window_word: "bit (window_word bs) n \<longleftrightarrow> n \<le> 15 \<and> 15 - n < length bs \<and> bs ! (15 - n)"
proof (induction bs arbitrary: n)
  case (Cons b bs)
  have "bit (window_word (b # bs)) n \<longleftrightarrow> (b \<and> n = 15) \<noteq> bit (window_word bs) (Suc n)"
    by (cases b) (simp_all only: window_word.simps if_True if_False bit_xor_iff bit_drop_bit_eq bit_top_word comp_def, simp_all)
  moreover have "15 - n = Suc (15 - Suc n)" if "n < 15" using that by simp
  ultimately show ?case by (cases "n < 15") (auto simp: Cons.IH)
qed simp

lemma window_word_inj: "length bs = length cs \<Longrightarrow> length bs \<le> 16 \<Longrightarrow> window_word bs = window_word cs \<longleftrightarrow> bs = cs"
proof
  assume len: "length bs = length cs" "length bs \<le> 16" and eq: "window_word bs = window_word cs"
  have "bs ! i = cs ! i" if "i < length bs" for i
    using bit_window_word[of bs "15 - i"] bit_window_word[of cs "15 - i"] eq len that by simp
  then show "bs = cs" using len(1) by (simp add: list_eq_iff_nth_eq)
qed simp

lemma crc16_feed_window: "length bs \<le> 16 \<Longrightarrow> foldl crc16_feed s bs = (crc16_bit ^^ length bs) (s XOR window_word bs)"
proof (induction bs arbitrary: s)
  case (Cons b bs)
  let ?w = "window_word bs"
  have "push_bit 1 (drop_bit 1 ?w) = ?w"
  proof (rule bit_word_eqI)
    fix n assume "n < LENGTH(16)"
    then show "bit (push_bit 1 (drop_bit 1 ?w)) n \<longleftrightarrow> bit ?w n"
      using Cons.prems by (cases n) (simp_all only: bit_push_bit_iff bit_drop_bit_eq possible_bit_word comp_def, auto simp: bit_window_word)
  qed
  moreover have "\<not> bit (drop_bit 1 ?w) 15" by (simp add: bit_drop_bit_eq bit_window_word)
  ultimately have "crc16_bit (drop_bit 1 ?w) = ?w" by (simp add: crc16_bit_def crc16_bit_top)
  then have "crc16_bit (s XOR window_word (b # bs)) = crc16_feed s b XOR ?w"
    by (simp add: crc16_feed_def crc16_bit_xor flip: xor.assoc)
  then show ?case using Cons by (simp add: funpow_swap1)
qed simp

lemma crc16_byte_feed: "crc16_byte s b = foldl crc16_feed s (byte_bits b)"
proof -
  have "push_bit 8 (ucast b) = window_word (byte_bits b)"
  proof (rule bit_word_eqI)
    fix n assume "n < LENGTH(16)"
    then have "7 - (15 - n) = n - 8" by simp
    then show "bit (push_bit 8 (ucast b) :: u16) n \<longleftrightarrow> bit (window_word (byte_bits b)) n"
      using \<open>n < LENGTH(16)\<close> by (auto simp: bit_simps bit_window_word byte_bits_def)
  qed
  then show ?thesis by (simp add: crc16_byte_def crc16_feed_window)
qed

lemma foldl_crc16_byte: "foldl crc16_byte s bs = foldl crc16_feed s (bytes_bits bs)"
  by (induction bs arbitrary: s) (simp_all add: crc16_byte_feed)

lemma foldl_feed_inj: "foldl crc16_feed s bs = foldl crc16_feed s' bs \<longleftrightarrow> s = s'"
  by (induction bs arbitrary: s s')
    (simp_all add: crc16_feed_def funpow_crc16_bit_inj[of 1, simplified] xor_cancel)

lemma crc16_burst:
  assumes "length w' = length w" "length w \<le> 16"
  shows "foldl crc16_feed s (pre @ w @ post) = foldl crc16_feed s (pre @ w' @ post) \<longleftrightarrow> w = w'"
  using assms by (simp add: foldl_feed_inj crc16_feed_window funpow_crc16_bit_inj xor_cancel window_word_inj)

lemma length_crc16 [simp]: "length (crc16 xs) = 2"
  by (simp add: crc16_def Let_def)

section \<open>Decimal text of an \<open>i8\<close>\<close>

lemma parse_digits_append:
  "parse_digits neg acc (xs @ ys) = Option.bind (parse_digits neg acc xs) (\<lambda>a. parse_digits neg a ys)"
  by (induction xs arbitrary: acc) (simp_all add: Let_def)

lemma parse_digits_show_nat:
  "n \<le> 127 \<Longrightarrow> parse_digits False 0 (show_nat n) = Some (int n)"
  "n \<le> 128 \<Longrightarrow> parse_digits True 0 (show_nat n) = Some (- int n)"
proof (induction n rule: show_nat.induct)
  case (1 n)
  have digit: "(48 + d) mod 256 = 48 + d" if "d < 10" for d :: nat using that by simp
  have split: "int (n div 10) * 10 + int (n mod 10) = int n"
    by (metis div_mod_decomp of_nat_add of_nat_mult of_nat_numeral)
  { case 1
    with "1.IH"(1) split show ?case
      by (cases "n < 10") (simp_all add: show_nat.simps[of n] Let_def parse_digits_append digit)
  next
    case 2
    with "1.IH"(2) split show ?case
      by (cases "n < 10") (simp_all add: show_nat.simps[of n] Let_def parse_digits_append digit)
  }
qed

lemma show_nat_hd: "\<exists>c cs. show_nat n = c # cs \<and> c \<noteq> CHR ''+'' \<and> c \<noteq> CHR ''-'' \<and> c \<noteq> CHR '':''"
proof (induction n rule: show_nat.induct)
  case (1 n)
  show ?case
  proof (cases "n < 10")
    case True
    have "of_char (char_of (48 + n) :: char) = 48 + n" using True by simp
    then have "char_of (48 + n) \<noteq> CHR ''+''" "char_of (48 + n) \<noteq> CHR ''-''"
      "char_of (48 + n) \<noteq> CHR '':''"
      using True by (auto dest!: arg_cong[where f = "of_char :: char \<Rightarrow> nat"])
    with True show ?thesis by (subst show_nat.simps) simp
  next
    case False
    with 1 show ?thesis by (subst show_nat.simps) auto
  qed
qed

lemma show_nat_no_colon: "CHR '':'' \<notin> set (show_nat n)"
proof (induction n rule: show_nat.induct)
  case (1 n)
  have "char_of (48 + d) \<noteq> CHR '':''" if "d < 10" for d :: nat
    using that by (auto dest!: arg_cong[where f = "of_char :: char \<Rightarrow> nat"])
  with 1 show ?case by (subst show_nat.simps) (auto dest: sym)
qed

lemma parse_i8_show: "parse_i8 (show_i8 w) = Some w"
proof (cases "sint w < 0")
  case True
  have "- sint w \<le> 128" using sint_greater_eq[of w] by simp
  with True show ?thesis using show_nat_hd[of "nat (- sint w)"]
    by (auto simp: parse_i8_def show_i8_def parse_digits_show_nat)
next
  case False
  have "sint w \<le> 127" using sint_less[of w] by simp
  with False show ?thesis
    using show_nat_hd[of "nat (sint w)"] parse_digits_show_nat(1)[of "nat (sint w)"]
    by (auto simp: parse_i8_def show_i8_def)
qed

lemma split_once_append: "d \<notin> set a \<Longrightarrow> split_once d (a @ d # b) = Some (a, b)"
  by (induction a) auto

lemma show_i8_no_colon: "CHR '':'' \<notin> set (show_i8 w)"
  using show_nat_no_colon by (auto simp: show_i8_def)

section \<open>Parsing and printing\<close>

lemma length_user_friendly_bytes: "length (hash_part a) = 32 \<Longrightarrow> length (user_friendly_bytes a b t) = 36"
  by (simp add: user_friendly_bytes_def Let_def)

text \<open>What \<open>from_base64\<close> does with the decoded bytes.\<close>

definition parse_user_friendly :: "bytes \<Rightarrow> address result" where
  "parse_user_friendly decoded = (if length decoded \<noteq> USER_FRIENDLY_ADDRESS_LEN then Inl (AddressErr AddressBadBase64Length)
     else let test_only = decoded ! 0 AND TEST_ONLY_FLAG \<noteq> 0;
              tag = (if test_only then decoded ! 0 XOR TEST_ONLY_FLAG else decoded ! 0)
          in and_then (if tag = BOUNCEABLE_TAG then Inr True
                       else if tag = NON_BOUNCEABLE_TAG then Inr False
                       else Inl (AddressErr AddressBadTag)) (\<lambda>bounceable.
             let wc = decoded ! 1 in
             and_then (validate_workchain wc) (\<lambda>_.
             if take 2 (drop 34 decoded) \<noteq> crc16 (take 34 decoded) then Inl (AddressErr AddressBadCrc)
             else Inr \<lparr>workchain = wc, hash_part = take 32 (drop 2 decoded),
                       is_bounceable = bounceable, is_test_only = test_only\<rparr>)))"

lemma address_from_base64_eq:
  "address_from_base64 T s = and_then (decode_user_friendly T s) parse_user_friendly"
  by (simp add: address_from_base64_def parse_user_friendly_def[abs_def])

lemma parse_user_friendly_bytes:
  assumes "wf_address a"
  shows "parse_user_friendly (user_friendly_bytes a b t) = Inr (a\<lparr>is_bounceable := b, is_test_only := t\<rparr>)"
  using assms
  by (cases b; cases t) (simp_all add: parse_user_friendly_def user_friendly_bytes_def Let_def
      address_consts wf_address_def validate_workchain_def)

lemma list_36_split:
  assumes "length xs = 36"
  shows "xs = xs ! 0 # xs ! 1 # take 32 (drop 2 xs) @ take 2 (drop 34 xs)"
    "take 34 xs = xs ! 0 # xs ! 1 # take 32 (drop 2 xs)"
proof -
  have "take 34 xs = take 2 xs @ take 32 (drop 2 xs)"
    using take_add[of 2 32 xs] by simp
  moreover have "take 2 xs = [xs ! 0, xs ! 1]"
    using assms by (intro nth_equalityI) (auto simp: less_Suc_eq numeral_2_eq_2)
  ultimately show b: "take 34 xs = xs ! 0 # xs ! 1 # take 32 (drop 2 xs)" by simp
  have "drop 34 xs = take 2 (drop 34 xs)" using assms by simp
  then show "xs = xs ! 0 # xs ! 1 # take 32 (drop 2 xs) @ take 2 (drop 34 xs)"
    using b by (metis append_Cons append_take_drop_id)
qed

lemma friendly_tag_cases:
  assumes "(if w AND TEST_ONLY_FLAG \<noteq> 0 then w XOR TEST_ONLY_FLAG else w) = tag"
    "tag AND TEST_ONLY_FLAG = 0"
  shows "w = (if w AND TEST_ONLY_FLAG \<noteq> 0 then tag OR TEST_ONLY_FLAG else tag)"
proof (cases "w AND TEST_ONLY_FLAG = 0")
  case False
  then have "tag = w XOR TEST_ONLY_FLAG" using assms(1) by simp
  then have w: "w = tag XOR TEST_ONLY_FLAG" by (metis xor.assoc xor.right_neutral xor_self_eq)
  have "tag XOR TEST_ONLY_FLAG = tag OR TEST_ONLY_FLAG"
  proof (rule bit_word_eqI)
    fix n
    have "bit (tag AND TEST_ONLY_FLAG) n = bit (0 :: u8) n" by (simp add: assms(2))
    then show "bit (tag XOR TEST_ONLY_FLAG) n = bit (tag OR TEST_ONLY_FLAG) n"
      by (auto simp: bit_simps)
  qed
  with w False show ?thesis by simp
qed (use assms in simp)

lemma parse_user_friendly_canonical:
  assumes "parse_user_friendly bs = Inr a"
  shows "wf_address a \<and> bs = user_friendly_bytes a (is_bounceable a) (is_test_only a)"
proof -
  let ?t = "bs ! 0 AND TEST_ONLY_FLAG \<noteq> 0"
  let ?tag = "if ?t then bs ! 0 XOR TEST_ONLY_FLAG else bs ! 0"
  have len: "length bs = 36"
    using assms by (simp add: parse_user_friendly_def address_consts split: if_splits)
  have tag: "?tag = (if is_bounceable a then BOUNCEABLE_TAG else NON_BOUNCEABLE_TAG)"
    and a: "a = \<lparr>workchain = bs ! 1, hash_part = take 32 (drop 2 bs), is_bounceable = is_bounceable a,
        is_test_only = ?t\<rparr>"
    and wc: "-1 \<le> sint (bs ! 1)" and crc: "take 2 (drop 34 bs) = crc16 (take 34 bs)"
    using assms len
    by (auto simp: parse_user_friendly_def USER_FRIENDLY_ADDRESS_LEN_def Let_def and_then_eq_Inr
        validate_workchain_def split: if_splits)
  have h: "hash_part a = take 32 (drop 2 bs)" "workchain a = bs ! 1" "is_test_only a = ?t"
    using a by (metis address.select_convs)+
  have "bs ! 0 = (if ?t then (if is_bounceable a then BOUNCEABLE_TAG else NON_BOUNCEABLE_TAG) OR TEST_ONLY_FLAG
      else (if is_bounceable a then BOUNCEABLE_TAG else NON_BOUNCEABLE_TAG))"
    by (rule friendly_tag_cases[OF tag]) (simp add: address_consts)
  with h have "bs = user_friendly_bytes a (is_bounceable a) (is_test_only a)"
    using list_36_split[OF len] crc by (simp add: user_friendly_bytes_def Let_def)
  moreover have "wf_address a" using h wc len by (simp add: wf_address_def)
  ultimately show ?thesis by blast
qed

lemma user_friendly_bytes_codeword: "foldl crc16_byte 0 (user_friendly_bytes a b t) = 0"
proof -
  have "foldl crc16_byte 0 (d @ crc16 d) = 0" for d
    using crc16_codeword[of d "crc16 d ! 0" "crc16 d ! 1"] by (simp add: crc16_def Let_def)
  then show ?thesis by (simp only: user_friendly_bytes_def Let_def)
qed

context text_laws
begin

lemma decode_user_friendly_eq:
  assumes "base64_decode T e s = Some bs"
  shows "decode_user_friendly T s = Inr bs"
proof -
  have "base64_decode T e' s = None \<or> base64_decode T e' s = Some bs" for e'
    using base64_engines_agree[OF _ assms] by (cases "base64_decode T e' s") auto
  from this[of URL_SAFE_NO_PAD] this[of URL_SAFE] this[of STANDARD_NO_PAD] this[of STANDARD] assms
  show ?thesis by (cases e) (auto simp: decode_user_friendly_def)
qed

lemma decode_user_friendly_Inr:
  "decode_user_friendly T s = Inr bs \<Longrightarrow> \<exists>e. base64_decode T e s = Some bs"
  by (auto simp: decode_user_friendly_def split: option.splits)

lemma from_base64_to_string:
  assumes "wf_address a"
  shows "address_from_base64 T (address_to_string T a True u b t) = Inr (a\<lparr>is_bounceable := b, is_test_only := t\<rparr>)"
  using assms decode_user_friendly_eq[OF base64_decode_encode]
  by (simp add: address_from_base64_eq address_to_string_def parse_user_friendly_bytes)

lemma from_hex_to_raw:
  assumes "wf_address a"
  shows "address_from_hex T (to_raw T a) = Inr (new_address (workchain a) (hash_part a))"
  using assms split_once_append[OF show_i8_no_colon] hex_encode_no_colon
  by (simp add: address_from_hex_def to_raw_def parse_i8_show wf_address_def validate_workchain_def
      RAW_HASH_HEX_LEN_def length_hex_encode hex_decode_encode)

lemma from_hex_no_colon:
  "CHR '':'' \<notin> set s \<Longrightarrow> address_from_hex T s = Inl (AddressErr AddressMissingSeparator)"
proof -
  assume "CHR '':'' \<notin> set s"
  then have "split_once CHR '':'' s = None" by (induction s) auto
  then show ?thesis by (simp add: address_from_hex_def)
qed

lemma from_hex_no_panic: "address_from_hex T s \<noteq> Inl Panic"
  using hex_decode_length
  by (auto simp: address_from_hex_def validate_workchain_def RAW_HASH_HEX_LEN_def
      split: option.splits prod.splits if_splits)

end

section \<open>Properties\<close>

text \<open>
  C37: every text form of a well-formed address parses back: the raw form to the address with
  the default flags, each user-friendly form (URL-safe or standard base64) to the address
  with the flags it was printed with.
\<close>

theorem address_text_roundtrip:
  assumes "text_laws T" "wf_address a"
  shows "address_from_str T (to_raw T a) = Inr (new_address (workchain a) (hash_part a)) \<and>
    address_from_str T (address_to_string T a True u b t) = Inr (a\<lparr>is_bounceable := b, is_test_only := t\<rparr>)"
proof -
  have "CHR '':'' \<notin> set (address_to_string T a True u b t)"
    using text_laws.base64_encode_no_colon[OF assms(1)] by (simp add: address_to_string_def)
  then show ?thesis
    using text_laws.from_hex_no_colon[OF assms(1)] text_laws.from_base64_to_string[OF assms]
      text_laws.from_hex_to_raw[OF assms]
    by (simp add: address_from_str_def)
qed

text \<open>A concrete address: the masterchain and a hash of 32 equal bytes.\<close>

definition sample_address :: address where
  "sample_address = new_address (-1) (replicate 32 7)"

lemma wf_sample_address: "wf_address sample_address"
  by (simp add: wf_address_def sample_address_def new_address_def)

theorem address_text_roundtrip_witness:
  "address_from_str ref_text (address_to_string ref_text sample_address True False True True)
     = Inr (sample_address\<lparr>is_bounceable := True, is_test_only := True\<rparr>)"
  using address_text_roundtrip[OF ref_text_laws.text_laws_axioms wf_sample_address] by blast

text \<open>
  \<open>from_base64\<close> accepts only canonical encodings: the decoded bytes of an accepted string
  are exactly the 36 bytes that \<open>to_string\<close> writes for the address it returns, which is
  well-formed.
\<close>

theorem from_base64_canonical:
  assumes "text_laws T" "address_from_base64 T s = Inr a"
  shows "wf_address a \<and> (\<exists>e. base64_decode T e s
     = Some (user_friendly_bytes a (is_bounceable a) (is_test_only a)))"
proof -
  obtain bs where "decode_user_friendly T s = Inr bs" "parse_user_friendly bs = Inr a"
    using assms(2) by (auto simp: address_from_base64_eq and_then_eq_Inr)
  then show ?thesis
    using text_laws.decode_user_friendly_Inr[OF assms(1)] parse_user_friendly_canonical by metis
qed

theorem from_base64_canonical_witness:
  "\<exists>e. base64_decode ref_text e (address_to_string ref_text sample_address True True False False)
     = Some (user_friendly_bytes (sample_address\<lparr>is_bounceable := False\<rparr>) False False)"
  using from_base64_canonical[OF ref_text_laws.text_laws_axioms
      ref_text_laws.from_base64_to_string[OF wf_sample_address, of True False False]]
  by (simp add: sample_address_def new_address_def)

text \<open>
  C38: the checksum of a user-friendly address detects every change of bits within a window of 16, wherever it starts and the
  checksum bits included: no such edit of an accepted address is accepted.
\<close>

theorem address_burst_rejected:
  assumes "text_laws T"
    and "base64_decode T e s = Some bs" "address_from_base64 T s = Inr a" "base64_decode T e' s' = Some bs'"
    and "bytes_bits bs = pre @ w @ post" "bytes_bits bs' = pre @ w' @ post" "length w' = length w" "length w \<le> 16" "w \<noteq> w'"
  shows "\<not> is_ok (address_from_base64 T s')"
proof
  assume "is_ok (address_from_base64 T s')"
  then obtain a' where a': "address_from_base64 T s' = Inr a'"
    by (auto simp: is_ok_def split: sum.splits)
  have "foldl crc16_byte 0 bs = 0" "foldl crc16_byte 0 bs' = 0"
    using assms(3) a' text_laws.decode_user_friendly_eq[OF assms(1) assms(2)]
      text_laws.decode_user_friendly_eq[OF assms(1) assms(4)] parse_user_friendly_canonical
      user_friendly_bytes_codeword
    by (metis address_from_base64_eq and_then_simps(2))+
  then have "foldl crc16_feed 0 (pre @ w @ post) = foldl crc16_feed 0 (pre @ w' @ post)"
    unfolding foldl_crc16_byte assms(5,6) by simp
  with crc16_burst[OF assms(7,8)] assms(9) show False by blast
qed

text \<open>Sixteen flipped bits that reach into three bytes.\<close>

theorem address_burst_rejected_witness:
  "\<not> is_ok (address_from_base64 ref_text (ref_base64_encode STANDARD
      ([0x1E, 0, 0xF7] @ drop 3 (user_friendly_bytes sample_address True False))))"
proof -
  let ?r = "drop 3 (user_friendly_bytes sample_address True False)"
  have "user_friendly_bytes sample_address True False = [0x11, -1, 7] @ ?r"
    by (simp add: user_friendly_bytes_def sample_address_def new_address_def Let_def address_consts numeral_eq_Suc)
  then have d: "base64_decode ref_text STANDARD (address_to_string ref_text sample_address True False True False) = Some ([0x11, -1, 7] @ ?r)"
    by (simp add: address_to_string_def ref_base64_decode_encode)
  have bits: "byte_bits 0x11 = [False, False, False, True] @ [False, False, False, True]" "byte_bits 7 = [False, False, False, False] @ [False, True, True, True]"
    "byte_bits 0x1E = [False, False, False, True] @ [True, True, True, False]" "byte_bits 0xF7 = [True, True, True, True] @ [False, True, True, True]"
    by (simp_all add: byte_bits_def upt_rec)
  let ?pre = "[False, False, False, True]" and ?post = "[False, True, True, True] @ bytes_bits ?r"
  let ?w = "[False, False, False, True] @ byte_bits (-1) @ [False, False, False, False]"
  let ?w' = "[True, True, True, False] @ byte_bits 0 @ [True, True, True, True]"
  show ?thesis
    by (rule address_burst_rejected[OF ref_text_laws.text_laws_axioms d ref_text_laws.from_base64_to_string[OF wf_sample_address],
          of STANDARD _ "[0x1E, 0, 0xF7] @ ?r" ?pre ?w ?post ?w'])
      (simp_all add: ref_base64_decode_encode bits)
qed

end
