(* ===== verification/Builder.thy ===== *)
theory Builder
  imports Slice Address
begin

unbundle bit_operations_syntax

text \<open>
  The high-level builder of \<open>src/tvm/builder.rs\<close>, a wrapper around \<open>CellBuilder\<close>: integers
  of any width, references, whole cells and slices, variable-length integers, coins, text
  in the snake format, addresses and dictionaries.  A builder is consumed by \<open>build\<close>; on an
  error the source drops or abandons the builder, so the model returns the error alone.

  \<open>mk_b xs rs\<close> is the builder holding the bits \<open>xs\<close> and the references \<open>rs\<close>.  The locale
  \<open>value_codec\<close> is the contract between a store operation and the load operation that
  reads it back; the integers, coins and references of the library are its instances.
\<close>

record builder =
  inner :: cell_builder

type_synonym i64 = "64 word"

definition builder_new :: builder where
  "builder_new = \<lparr>inner = cb_new\<rparr>"

definition builder_bit_len :: "builder \<Rightarrow> nat" where
  "builder_bit_len b = cb_bit_len (inner b)"

definition available_bits :: "builder \<Rightarrow> nat" where
  "available_bits b = MAX_CELL_BITS - builder_bit_len b"

definition available_bytes :: "builder \<Rightarrow> nat" where
  "available_bytes b = available_bits b div 8"

definition ref_count :: "builder \<Rightarrow> nat" where
  "ref_count b = cb_ref_count (inner b)"

definition available_refs :: "builder \<Rightarrow> nat" where
  "available_refs b = MAX_CELL_REFS - ref_count b"

text \<open>\<open>self.inner.op(..)?; Ok(self)\<close>.\<close>

definition on_inner :: "builder \<Rightarrow> (cell_builder \<Rightarrow> cell_builder result) \<Rightarrow> builder result" where
  "on_inner b f = and_then (f (inner b)) (\<lambda>c. Inr (b\<lparr>inner := c\<rparr>))"

definition store_bit :: "builder \<Rightarrow> bool \<Rightarrow> builder result" where
  "store_bit b v = on_inner b (\<lambda>i. cb_store_bit i v)"

definition store_bits :: "builder \<Rightarrow> bytes \<Rightarrow> nat \<Rightarrow> builder result" where
  "store_bits b bits n = on_inner b (\<lambda>i. cb_store_bits i bits n)"

definition store_byte :: "builder \<Rightarrow> u8 \<Rightarrow> builder result" where
  "store_byte b v = on_inner b (\<lambda>i. cb_store_byte i v)"

definition store_u8 :: "crates \<Rightarrow> builder \<Rightarrow> u8 \<Rightarrow> builder result" where
  "store_u8 X b v = on_inner b (\<lambda>i. cb_store_u8 X i v)"

definition store_bytes :: "builder \<Rightarrow> bytes \<Rightarrow> builder result" where
  "store_bytes b bs = on_inner b (\<lambda>i. cb_store_bytes i bs)"

definition store_u16 :: "crates \<Rightarrow> builder \<Rightarrow> u16 \<Rightarrow> builder result" where
  "store_u16 X b v = on_inner b (\<lambda>i. cb_store_u16 X i v)"

definition store_u32 :: "crates \<Rightarrow> builder \<Rightarrow> u32 \<Rightarrow> builder result" where
  "store_u32 X b v = on_inner b (\<lambda>i. cb_store_u32 X i v)"

definition store_u64 :: "crates \<Rightarrow> builder \<Rightarrow> u64 \<Rightarrow> builder result" where
  "store_u64 X b v = on_inner b (\<lambda>i. cb_store_u64 X i v)"

definition store_uint :: "crates \<Rightarrow> builder \<Rightarrow> 'a::len word \<Rightarrow> builder result" where
  "store_uint X b v = on_inner b (\<lambda>i. cb_store_uint X i v)"

definition store_uint_custom :: "crates \<Rightarrow> builder \<Rightarrow> 'a::len word \<Rightarrow> nat \<Rightarrow> builder result" where
  "store_uint_custom X b v n = on_inner b (\<lambda>i. cb_store_uint_custom X i v n)"

definition store_big_uint :: "crates \<Rightarrow> builder \<Rightarrow> nat \<Rightarrow> nat \<Rightarrow> builder result" where
  "store_big_uint X b v n = on_inner b (\<lambda>i. cb_store_big_uint X i v n)"

definition store_int :: "crates \<Rightarrow> builder \<Rightarrow> i64 \<Rightarrow> nat \<Rightarrow> builder result" where
  "store_int X b v n = on_inner b (\<lambda>i. cb_store_big_int X i (sint v) n)"

definition store_big_int :: "crates \<Rightarrow> builder \<Rightarrow> int \<Rightarrow> nat \<Rightarrow> builder result" where
  "store_big_int X b v n = on_inner b (\<lambda>i. cb_store_big_int X i v n)"

definition store_bool :: "builder \<Rightarrow> bool \<Rightarrow> builder result" where
  "store_bool b v = store_bit b v"

definition store_ref :: "builder \<Rightarrow> cell \<Rightarrow> builder result" where
  "store_ref b c = on_inner b (\<lambda>i. cb_store_reference i c)"

definition store_maybe_ref :: "builder \<Rightarrow> cell option \<Rightarrow> builder result" where
  "store_maybe_ref b c = (case c of
      Some r \<Rightarrow> and_then (store_bit b True) (\<lambda>b. store_ref b r)
    | None \<Rightarrow> store_bit b False)"

definition store_cell :: "builder \<Rightarrow> cell \<Rightarrow> builder result" where
  "store_cell b c =
     (if MAX_CELL_REFS < ref_count b + reference_count c then Inl (BuilderErr BuilderRefsOverflow)
      else and_then (store_bits b (cell_data c) (cell_bit_len c)) (\<lambda>b.
        try_fold store_ref b (cell_references c)))"

text \<open>The \<open>while\<close> loop that moves the remaining references.\<close>

function store_slice_refs :: "builder \<Rightarrow> slice \<Rightarrow> builder result" where
  "store_slice_refs b s =
     (if 0 < remaining_refs s
      then case load_reference s of
          Inl e \<Rightarrow> Inl e
        | Inr (c, s') \<Rightarrow> and_then (store_ref b c) (\<lambda>b. store_slice_refs b s')
      else Inr b)"
  by pat_completeness auto
termination
  by (relation "measure (\<lambda>(b, s). remaining_refs s)")
     (auto simp: load_reference_def remaining_refs_def split: option.splits if_splits)

declare store_slice_refs.simps [simp del]

definition store_slice :: "builder \<Rightarrow> slice \<Rightarrow> builder result" where
  "store_slice b s =
     and_then
       (if 0 < remaining_bits s
        then and_then (load_bits (clone_from_current s) (remaining_bits s)) (\<lambda>(data, _).
               store_bits b data (remaining_bits s))
        else Inr b)
       (\<lambda>b. store_slice_refs b (clone_from_current s))"

definition store_var_big_uint :: "crates \<Rightarrow> builder \<Rightarrow> nat \<Rightarrow> nat \<Rightarrow> builder result" where
  "store_var_big_uint X b v length_bits =
     (if MAX_CELL_BITS < length_bits then Inl (BuilderErr VarLengthFieldExceeds)
      else let byte_len = (if v = 0 then 0 else length (biguint_to_bytes_be X v))
        in if 2 ^ length_bits \<le> byte_len then Inl (BuilderErr VarByteLengthDoesNotFit)
           else and_then (store_uint_custom X b (word_of_nat byte_len :: u64) length_bits) (\<lambda>b.
             if 0 < byte_len then store_bytes b (biguint_to_bytes_be X v) else Inr b))"

definition store_var_uint :: "crates \<Rightarrow> builder \<Rightarrow> u64 \<Rightarrow> nat \<Rightarrow> builder result" where
  "store_var_uint X b v length_bits = store_var_big_uint X b (unat v) length_bits"

text \<open>\<open>64 - (value as u64).leading_zeros()\<close> is the bit length of the word.\<close>

definition store_var_int :: "crates \<Rightarrow> builder \<Rightarrow> i64 \<Rightarrow> nat \<Rightarrow> builder result" where
  "store_var_int X b v length_bits =
     (if v = 0 then store_uint_custom X b (0 :: u64) length_bits
      else let byte_len = div_ceil (bit_length (unat v)) 8
        in and_then (store_uint_custom X b (word_of_nat byte_len :: u64) length_bits) (\<lambda>b.
             store_int X b v (byte_len * 8)))"

definition store_coins :: "crates \<Rightarrow> builder \<Rightarrow> u128 \<Rightarrow> builder result" where
  "store_coins X b amount =
     (let byte_len = div_ceil (bit_length (unat amount)) 8 in
      if 15 < byte_len then Inl (BuilderErr CoinsTooLarge)
      else if amount = 0 then store_uint_custom X b (0 :: u8) 4
      else and_then (store_uint_custom X b (word_of_nat byte_len :: u8) 4) (\<lambda>b.
        store_bytes b (drop (16 - byte_len) (be_bytes 16 (unat amount)))))"

definition store_string :: "builder \<Rightarrow> bytes \<Rightarrow> builder result" where
  "store_string b s = (if 127 < length s then Inl (BuilderErr StringTooLong) else store_bytes b s)"

definition builder_build :: "builder \<Rightarrow> cell result" where
  "builder_build b = cb_build (inner b)"

text \<open>
  The recursion of the snake format: a fresh builder has room for 127 bytes, so only the
  first call can make no progress.
\<close>

function store_snake_bytes :: "builder \<Rightarrow> bytes \<Rightarrow> builder result" where
  "store_snake_bytes b bs =
     (if bs = [] then Inr b
      else let available = available_bytes b in
        if length bs \<le> available then store_bytes b bs
        else and_then (store_bytes b (take available bs)) (\<lambda>b.
          and_then (store_snake_bytes builder_new (drop available bs)) (\<lambda>next_builder.
          and_then (builder_build next_builder) (\<lambda>c. store_ref b c))))"
  by pat_completeness auto
termination
  by (relation "measure (\<lambda>(b, bs). 2 * length bs + (if available_bytes b = 0 then 1 else 0))")
     (auto simp: available_bytes_def available_bits_def builder_bit_len_def builder_new_def cb_new_def)

declare store_snake_bytes.simps [simp del]

definition store_snake_string :: "builder \<Rightarrow> bytes \<Rightarrow> bool \<Rightarrow> builder result" where
  "store_snake_string b s with_prefix =
     store_snake_bytes b (if with_prefix then 0 # s else s)"

definition store_address :: "crates \<Rightarrow> builder \<Rightarrow> address option \<Rightarrow> builder result" where
  "store_address X b a = (case a of
      None \<Rightarrow> store_bits b [0] 2
    | Some addr \<Rightarrow>
        and_then (store_bits b [0b10] 2) (\<lambda>b.
        and_then (store_bit b False) (\<lambda>b.
        and_then (store_int X b (scast (workchain addr)) 8) (\<lambda>b.
        store_bytes b (hash_part addr)))))"

definition store_external_address :: "crates \<Rightarrow> builder \<Rightarrow> external_address \<Rightarrow> builder result" where
  "store_external_address X b a =
     and_then (store_bits b [0b01] 2) (\<lambda>b.
     and_then (store_uint_custom X b (word_of_nat (ext_bit_len a) :: u16) 9) (\<lambda>b.
     case ext_value a of
       Some v \<Rightarrow> store_uint_custom X b v (ext_bit_len a)
     | None \<Rightarrow> Inr b))"

definition store_dict :: "builder \<Rightarrow> cell option \<Rightarrow> builder result" where
  "store_dict b d = store_maybe_ref b d"

definition end_cell :: "builder \<Rightarrow> cell result" where
  "end_cell b = builder_build b"

definition to_slice :: "builder \<Rightarrow> slice result" where
  "to_slice b = and_then (builder_build b) (\<lambda>c. Inr (slice_new c))"

section \<open>Canonical builders\<close>

definition mk_b :: "bool list \<Rightarrow> cell list \<Rightarrow> builder" where
  "mk_b xs rs = \<lparr>inner = mk_cb xs rs\<rparr>"

lemma mk_b_sel [simp]: "inner (mk_b xs rs) = mk_cb xs rs"
  by (simp add: mk_b_def)

lemma mk_b_inject [simp]: "mk_b xs rs = mk_b ys ss \<longleftrightarrow> xs = ys \<and> rs = ss"
  by (metis mk_b_sel mk_cb_sel(3,4))

lemma builder_new_eq: "builder_new = mk_b [] []"
  by (simp add: builder_new_def mk_b_def cb_new_eq)

lemma mk_b_fold: "\<lparr>inner = mk_cb xs rs\<rparr> = mk_b xs rs"
  by (simp add: mk_b_def)

lemma on_inner_mk:
  "on_inner (mk_b xs rs) f = (case f (mk_cb xs rs) of Inl e \<Rightarrow> Inl e | Inr c \<Rightarrow> Inr \<lparr>inner = c\<rparr>)"
  by (simp add: on_inner_def mk_b_def and_then_def)

lemma builder_view_mk [simp]:
  "builder_bit_len (mk_b xs rs) = length xs"
  "available_bits (mk_b xs rs) = 1023 - length xs"
  "ref_count (mk_b xs rs) = length rs"
  by (simp_all add: builder_bit_len_def available_bits_def ref_count_def cb_ref_count_def)

lemma store_bits_mk:
  "store_bits (mk_b xs rs) bs n =
    (if 1023 < length xs + n then Inl (BuilderErr StoreExceedsCell)
     else if 8 * length bs < n then Inl (BuilderErr StoreInsufficientData)
     else Inr (mk_b (xs @ take n (bytes_bits bs)) rs))"
  by (simp add: store_bits_def on_inner_mk cb_store_bits_mk mk_b_fold)

lemma store_bit_mk:
  "store_bit (mk_b xs rs) v =
    (if length xs < 1023 then Inr (mk_b (xs @ [v]) rs) else Inl (BuilderErr StoreExceedsCell))"
  by (simp add: store_bit_def on_inner_mk cb_store_bit_mk mk_b_fold)

lemma store_ref_mk:
  "store_ref (mk_b xs rs) c =
    (if length rs < 4 then Inr (mk_b xs (rs @ [c])) else Inl (BuilderErr BuilderTooManyRefs))"
  by (simp add: store_ref_def on_inner_mk cb_store_reference_mk mk_b_fold)

interpretation b_sink: bit_sink mk_b store_bits store_bit store_ref
  by unfold_locales (rule store_bits_mk store_bit_mk store_ref_mk)+

lemma store_bytes_mk:
  "store_bytes (mk_b xs rs) bs =
    (if length xs + 8 * length bs \<le> 1023 then Inr (mk_b (xs @ bytes_bits bs) rs)
     else Inl (BuilderErr StoreExceedsCell))"
  by (simp add: store_bytes_def on_inner_mk cb_store_bytes_def cb_sink.put_bytes mk_b_fold)

lemma builder_build_mk:
  "length xs \<le> 1023 \<Longrightarrow> length rs \<le> 4 \<Longrightarrow> builder_build (mk_b xs rs) = Inr (mk_cell xs rs)"
  by (simp add: builder_build_def cb_build_mk)

lemma store_maybe_ref_mk:
  "length xs < 1023 \<Longrightarrow> length rs < 4 \<Longrightarrow>
    store_maybe_ref (mk_b xs rs) c = Inr (mk_b (xs @ [c \<noteq> None]) (rs @ (case c of Some r \<Rightarrow> [r] | None \<Rightarrow> [])))"
  by (simp add: store_maybe_ref_def store_bit_mk store_ref_mk split: option.split)

lemma store_cell_mk:
  assumes "wf_cell c" "length rs \<le> 4"
  shows "store_cell (mk_b xs rs) c =
    (if 4 < length rs + length (cell_references c) then Inl (BuilderErr BuilderRefsOverflow)
     else if 1023 < length xs + length (cell_bits c) then Inl (BuilderErr StoreExceedsCell)
     else Inr (mk_b (xs @ cell_bits c) (rs @ cell_references c)))"
proof -
  have "\<not> 8 * length (cell_data c) < cell_bit_len c"
    using wf_cell_bounds(3)[OF assms(1)] div_ceil_bounds(1)[of "cell_bit_len c"] by simp
  then show ?thesis using assms wf_cell_bounds(5)[OF assms(1)]
    by (simp add: store_cell_def store_bits_mk b_sink.put_ref_loop cell_bits_def reference_count_def)
qed

lemma store_slice_refs_mk:
  "length rs \<le> 4 \<Longrightarrow> store_slice_refs (mk_b xs rs) s =
    (if length rs + length (slice_refs s) \<le> 4 then Inr (mk_b xs (rs @ slice_refs s))
     else Inl (BuilderErr BuilderTooManyRefs))"
proof (induction "slice_refs s" arbitrary: rs s)
  case Nil
  then have "remaining_refs s = 0" by (simp add: remaining_refs_eq)
  with Nil show ?case by (simp add: store_slice_refs.simps[of _ s])
next
  case (Cons c cs)
  then have sr: "slice_refs s = c # cs" by simp
  have "store_slice_refs (mk_b xs rs) s
      = and_then (store_ref (mk_b xs rs) c) (\<lambda>b. store_slice_refs b (adv s 0 1))"
    by (simp add: store_slice_refs.simps[of _ s] remaining_refs_eq sr load_reference_eq)
  moreover have "store_slice_refs (mk_b xs (rs @ [c])) (adv s 0 1) =
    (if length (rs @ [c]) + length cs \<le> 4 then Inr (mk_b xs (rs @ [c] @ cs))
     else Inl (BuilderErr BuilderTooManyRefs))" if "length rs < 4"
    using Cons.hyps(1)[of "adv s 0 1" "rs @ [c]"] sr that by simp
  ultimately show ?case using Cons.prems sr by (simp add: store_ref_mk)
qed

text \<open>Storing a slice appends exactly what is left to read in it.\<close>

lemma store_slice_mk:
  assumes "wf_slice s" "length xs \<le> 1023" "length rs \<le> 4"
  shows "store_slice (mk_b xs rs) s =
    (if 1023 < length xs + length (slice_bits s) then Inl (BuilderErr StoreExceedsCell)
     else if 4 < length rs + length (slice_refs s) then Inl (BuilderErr BuilderTooManyRefs)
     else Inr (mk_b (xs @ slice_bits s) (rs @ slice_refs s)))"
proof -
  have clone: "clone_from_current s = s" by (simp add: clone_from_current_def)
  have full: "take (length (slice_bits s)) (bytes_bits (pack (slice_bits s))) = slice_bits s"
    by simp
  have "length (slice_bits s) \<le> 8 * div_ceil (length (slice_bits s)) 8"
    by (rule div_ceil_bounds)
  then show ?thesis using assms full
    by (cases "slice_bits s = []")
      (simp_all add: store_slice_def clone remaining_bits_eq load_bits_eq store_bits_mk
        store_slice_refs_mk)
qed

section \<open>Integers\<close>

lemma bit_length_eq_0 [simp]: "bit_length v = 0 \<longleftrightarrow> v = 0"
  by (simp add: bit_length.simps[of v])

context bignum
begin

lemma store_big_uint_mk:
  "length xs \<le> 1023 \<Longrightarrow> store_big_uint X (mk_b xs rs) v n =
    (if 1023 < n then Inl (BuilderErr BitsExceedMax)
     else if 1023 < length xs + n then Inl (BuilderErr BitsNotAvailable)
     else if n = 0 \<and> v \<noteq> 0 then Inl (BuilderErr NonZeroInZeroBits)
     else if 2 ^ n \<le> v then Inl (BuilderErr UnsignedDoesNotFit)
     else Inr (mk_b (xs @ nat_bits n v) rs))"
  by (simp add: store_big_uint_def on_inner_mk cb_store_big_uint_mk mk_b_fold)

lemma store_uint_custom_mk:
  fixes v :: "'a::len word"
  assumes "length xs \<le> 1023" "LENGTH('a) \<le> 1023"
  shows "store_uint_custom X (mk_b xs rs) v n =
    (if LENGTH('a) < n then Inl (BuilderErr UintWiderThanType)
     else if 1023 < length xs + n then Inl (BuilderErr BitsNotAvailable)
     else if n = 0 \<and> v \<noteq> 0 then Inl (BuilderErr NonZeroInZeroBits)
     else if 2 ^ n \<le> unat v then Inl (BuilderErr UnsignedDoesNotFit)
     else Inr (mk_b (xs @ nat_bits n (unat v)) rs))"
  using assms by (simp add: store_uint_custom_def on_inner_mk cb_store_uint_custom_mk mk_b_fold)

lemma store_uint_mk:
  fixes v :: "'a::len word"
  assumes "length xs \<le> 1023" "LENGTH('a) \<le> 1023"
  shows "store_uint X (mk_b xs rs) v =
    (if 1023 < length xs + LENGTH('a) then Inl (BuilderErr BitsNotAvailable)
     else Inr (mk_b (xs @ nat_bits LENGTH('a) (unat v)) rs))"
  using assms by (simp add: store_uint_def on_inner_mk cb_store_uint_mk mk_b_fold)

lemma store_big_int_mk:
  "length xs \<le> 1023 \<Longrightarrow> store_big_int X (mk_b xs rs) v n =
    (if 1023 < n then Inl (BuilderErr BitsExceedMax)
     else if n = 0 then (if v = 0 then Inr (mk_b xs rs) else Inl (BuilderErr NonZeroInZeroBits))
     else if v < - (2 ^ (n - 1)) \<or> 2 ^ (n - 1) \<le> v then Inl (BuilderErr SignedDoesNotFit)
     else if 1023 < length xs + n then Inl (BuilderErr BitsNotAvailable)
     else Inr (mk_b (xs @ nat_bits n (nat (v mod 2 ^ n))) rs))"
  by (simp add: store_big_int_def on_inner_mk cb_store_big_int_mk mk_b_fold)

lemma store_int_eq: "store_int X b v n = store_big_int X b (sint v) n"
  by (simp add: store_int_def store_big_int_def)

end

section \<open>The contract between a store and a load\<close>

text \<open>
  \<open>good\<close> are the values the format has, \<open>encb\<close> and \<open>encr\<close> the bits and references of a
  value.  The store appends them to any builder that has room; the load, on any slice
  that starts with them, returns the value and moves past them.
\<close>

fun load_many :: "(slice \<Rightarrow> ('v \<times> slice) result) \<Rightarrow> nat \<Rightarrow> slice \<Rightarrow> ('v list \<times> slice) result" where
  "load_many ld 0 s = Inr ([], s)"
| "load_many ld (Suc n) s =
     and_then (ld s) (\<lambda>(x, s). and_then (load_many ld n s) (\<lambda>(xs, s). Inr (x # xs, s)))"

locale value_codec =
  fixes store :: "builder \<Rightarrow> 'v \<Rightarrow> builder result"
    and load :: "slice \<Rightarrow> ('v \<times> slice) result"
    and good :: "'v \<Rightarrow> bool"
    and encb :: "'v \<Rightarrow> bool list"
    and encr :: "'v \<Rightarrow> cell list"
  assumes store_appends: "good x \<Longrightarrow> length xs + length (encb x) \<le> 1023 \<Longrightarrow>
      length rs + length (encr x) \<le> 4 \<Longrightarrow>
      store (mk_b xs rs) x = Inr (mk_b (xs @ encb x) (rs @ encr x))"
    and load_reads: "good x \<Longrightarrow> wf_slice s \<Longrightarrow> slice_bits s = encb x @ ys \<Longrightarrow>
      slice_refs s = encr x @ qs \<Longrightarrow>
      load s = Inr (x, adv s (length (encb x)) (length (encr x)))"
begin

lemma roundtrip:
  assumes "good x" "length (encb x) \<le> 1023" "length (encr x) \<le> 4" "list_all wf_cell (encr x)"
  shows "and_then (store builder_new x) (\<lambda>b. and_then (to_slice b) load)
    = Inr (x, adv (slice_new (mk_cell (encb x) (encr x))) (length (encb x)) (length (encr x)))"
proof -
  have "store builder_new x = Inr (mk_b (encb x) (encr x))"
    using store_appends[of x "[]" "[]"] assms by (simp add: builder_new_eq)
  moreover have "load (slice_new (mk_cell (encb x) (encr x)))
      = Inr (x, adv (slice_new (mk_cell (encb x) (encr x))) (length (encb x)) (length (encr x)))"
    using load_reads[of x _ "[]" "[]"] assms by (simp add: wf_mk_cell)
  ultimately show ?thesis using assms by (simp add: to_slice_def builder_build_mk)
qed

text \<open>Consecutive stores are read back by consecutive loads, in the same order.\<close>

lemma store_many:
  "list_all good vs \<Longrightarrow> length xs + length (concat (map encb vs)) \<le> 1023 \<Longrightarrow>
    length rs + length (concat (map encr vs)) \<le> 4 \<Longrightarrow>
    try_fold store (mk_b xs rs) vs = Inr (mk_b (xs @ concat (map encb vs)) (rs @ concat (map encr vs)))"
  by (induction vs arbitrary: xs rs) (simp_all add: store_appends)

lemma load_many_reads:
  "list_all good vs \<Longrightarrow> wf_slice s \<Longrightarrow> slice_bits s = concat (map encb vs) @ ys \<Longrightarrow>
    slice_refs s = concat (map encr vs) @ qs \<Longrightarrow>
    load_many load (length vs) s
      = Inr (vs, adv s (length (concat (map encb vs))) (length (concat (map encr vs))))"
proof (induction vs arbitrary: s)
  case (Cons v vs)
  have "load s = Inr (v, adv s (length (encb v)) (length (encr v)))"
    using load_reads[of v s "concat (map encb vs) @ ys" "concat (map encr vs) @ qs"] Cons.prems
    by simp
  moreover have "wf_slice (adv s (length (encb v)) (length (encr v)))"
    using Cons.prems by (intro wf_adv) auto
  ultimately show ?case
    using Cons.IH[of "adv s (length (encb v)) (length (encr v))"] Cons.prems by simp
qed simp

end

interpretation bit_codec: value_codec store_bit load_bit "\<lambda>_. True" "\<lambda>v. [v]" "\<lambda>_. []"
  by unfold_locales (simp_all add: store_bit_mk load_bit_eq)

interpretation ref_codec: value_codec store_ref load_reference "\<lambda>_. True" "\<lambda>_. []" "\<lambda>c. [c]"
  by unfold_locales (simp_all add: store_ref_mk load_reference_eq)

interpretation bytes_codec: value_codec store_bytes "\<lambda>s. load_bytes s n" "\<lambda>bs. length bs = n"
    bytes_bits "\<lambda>_. []" for n
  by unfold_locales (simp_all add: store_bytes_mk load_bytes_eq)

text \<open>The number of bytes of a variable-length integer; zero takes none.\<close>

definition var_len :: "nat \<Rightarrow> nat" where
  "var_len v = div_ceil (bit_length v) 8"

definition var_enc :: "nat \<Rightarrow> nat \<Rightarrow> bool list" where
  "var_enc n v = nat_bits n (var_len v) @ bytes_bits (be_bytes (var_len v) v)"

lemma var_len_le_iff: "var_len v \<le> k \<longleftrightarrow> v < 256 ^ k"
  by (simp add: var_len_def div_ceil_le_iff bit_length_le_iff power_mult)

lemma var_len_eq_0 [simp]: "var_len v = 0 \<longleftrightarrow> v = 0"
  using var_len_le_iff[of v 0] by simp

lemma var_len_0 [simp]: "var_len 0 = 0"
  by simp

lemma be_val_var_bytes [simp]: "be_val (be_bytes (var_len v) v) = v"
  using var_len_le_iff[of v "var_len v"] by (simp add: be_val_be_bytes)

lemma min_be_bytes_var: "0 < v \<Longrightarrow> min_be_bytes v = be_bytes (var_len v) v"
proof -
  assume "0 < v"
  then have "max 1 (var_len v) = var_len v" using var_len_eq_0[of v] by linarith
  then show ?thesis by (simp add: min_be_bytes_def flip: var_len_def)
qed

lemma length_var_enc [simp]: "length (var_enc n v) = n + 8 * var_len v"
  by (simp add: var_enc_def)

text \<open>\<open>value = (value << 8) | byte\<close> accumulates the big-endian number, modulo \<open>2\<^sup>1\<^sup>2\<^sup>8\<close>.\<close>

lemma shift_or_byte: "push_bit 8 acc OR ucast (b :: u8) = (acc :: u128) * 256 + ucast b"
proof -
  have "push_bit 8 acc AND ucast b = 0"
    by (rule bit_eqI) (auto simp: bit_simps dest: bit_imp_le_length)
  then have "push_bit 8 acc OR ucast b = push_bit 8 acc + ucast b"
    by (simp add: disjunctive_add_eq_or)
  then show ?thesis by (simp add: push_bit_eq_mult)
qed

lemma fold_shift_or:
  "fold (\<lambda>byte acc. push_bit 8 acc OR ucast byte) bs (0 :: u128) = word_of_nat (be_val bs)"
proof (induction bs rule: rev_induct)
  case (snoc b bs)
  then show ?case by (simp add: shift_or_byte be_val_append)
qed simp

lemma drop_be_bytes: "k \<le> n \<Longrightarrow> drop (n - k) (be_bytes n v) = be_bytes k v"
proof (induction n)
  case (Suc n)
  then show ?case by (cases "k = Suc n") (simp_all add: Suc_diff_le)
qed simp

context bignum
begin

lemma store_coins_mk:
  assumes "length xs \<le> 1023"
  shows "store_coins X (mk_b xs rs) w =
    (if 2 ^ 120 \<le> unat w then Inl (BuilderErr CoinsTooLarge)
     else if 1023 < length xs + 4 then Inl (BuilderErr BitsNotAvailable)
     else if 1023 < length xs + length (var_enc 4 (unat w)) then Inl (BuilderErr StoreExceedsCell)
     else Inr (mk_b (xs @ var_enc 4 (unat w)) rs))"
proof -
  have big: "15 < var_len (unat w) \<longleftrightarrow> 2 ^ 120 \<le> unat w"
    using var_len_le_iff[of "unat w" 15] by auto
  show ?thesis
  proof (cases "15 < var_len (unat w)")
    case False
    then have len: "unat (word_of_nat (var_len (unat w)) :: u8) = var_len (unat w)"
      by (simp add: unat_word_of_nat)
    have "drop (16 - var_len (unat w)) (be_bytes 16 (unat w)) = be_bytes (var_len (unat w)) (unat w)"
      using False by (intro drop_be_bytes) simp
    then show ?thesis using False big assms len
      by (cases "w = 0") (simp_all add: store_coins_def Let_def store_uint_custom_mk store_bytes_mk
          var_enc_def flip: var_len_def)
  qed (use big in \<open>simp add: store_coins_def Let_def flip: var_len_def\<close>)
qed

lemma load_coins_reads:
  assumes "unat w < 2 ^ 120" "wf_slice s" "slice_bits s = var_enc 4 (unat w) @ ys"
  shows "load_coins X s = Inr (w, adv s (length (var_enc 4 (unat w))) 0)"
proof -
  let ?n = "var_len (unat w)"
  have n: "?n \<le> 15" using assms(1) var_len_le_iff[of "unat w" 15] by (simp flip: power_mult)
  then have bv: "bits_val (nat_bits 4 ?n) = ?n" by simp
  have sb: "slice_bits s = nat_bits 4 ?n @ bytes_bits (be_bytes ?n (unat w)) @ ys"
    using assms(3) by (simp add: var_enc_def)
  have l1: "load_uint_custom X s 4 = Inr (word_of_nat ?n :: u8, adv s 4 0)"
    using assms(2) bv by (simp add: load_uint_custom_eq sb)
  have u: "unat (word_of_nat ?n :: u8) = ?n" using n by (simp add: unat_word_of_nat)
  have wf: "wf_slice (adv s 4 0)" using assms(2) sb by (intro wf_adv) simp_all
  have "load_bytes (adv s 4 0) ?n = Inr (be_bytes ?n (unat w), adv s (4 + 8 * ?n) 0)"
    using wf by (simp add: load_bytes_eq sb)
  then show ?thesis using n u
    by (cases "w = 0") (simp_all add: load_coins_def l1 Let_def fold_shift_or unat_gt_0)
qed

lemma store_var_big_uint_mk:
  assumes "length xs \<le> 1023" "n \<le> 64"
  shows "store_var_big_uint X (mk_b xs rs) v n =
    (if 2 ^ n \<le> var_len v then Inl (BuilderErr VarByteLengthDoesNotFit)
     else if 1023 < length xs + n then Inl (BuilderErr BitsNotAvailable)
     else if 1023 < length xs + length (var_enc n v) then Inl (BuilderErr StoreExceedsCell)
     else Inr (mk_b (xs @ var_enc n v) rs))"
proof -
  have bl: "(if v = 0 then 0 else length (biguint_to_bytes_be X v)) = var_len v"
    by (auto simp: biguint_to_bytes_be min_be_bytes_var)
  show ?thesis
  proof (cases "2 ^ n \<le> var_len v")
    case True
    then show ?thesis using assms(2) by (simp add: store_var_big_uint_def bl Let_def)
  next
    case False
    have "(2::nat) ^ n \<le> 2 ^ 64" using assms(2) by (rule power_increasing) simp
    with False have lt: "var_len v < 2 ^ 64" by linarith
    then have u: "unat (word_of_nat (var_len v) :: u64) = var_len v" by (simp add: unat_word_of_nat)
    moreover have "(word_of_nat (var_len v) :: u64) = 0 \<longleftrightarrow> var_len v = 0"
      using u unat_eq_zero[of "word_of_nat (var_len v) :: u64"] by simp
    moreover have "n = 0 \<longrightarrow> v = 0"
    proof
      assume "n = 0"
      with False have "\<not> 1 \<le> var_len v" by simp
      then have "var_len v = 0" by linarith
      then show "v = 0" by simp
    qed
    ultimately show ?thesis using False assms
      by (cases "v = 0") (simp_all add: store_var_big_uint_def bl Let_def store_uint_custom_mk
          store_bytes_mk var_enc_def biguint_to_bytes_be min_be_bytes_var)
  qed
qed

lemma load_var_big_uint_reads:
  assumes "n \<le> 64" "var_len v < 2 ^ n" "wf_slice s" "slice_bits s = var_enc n v @ ys"
  shows "load_var_big_uint X s n = Inr (v, adv s (length (var_enc n v)) 0)"
proof -
  let ?n = "var_len v"
  have bv: "bits_val (nat_bits n ?n) = ?n" using assms(2) by simp
  have sb: "slice_bits s = nat_bits n ?n @ bytes_bits (be_bytes ?n v) @ ys"
    using assms(4) by (simp add: var_enc_def)
  have "length (slice_bits s) \<le> 1023"
    using assms(3) by (simp add: slice_bits_def wf_slice_def wf_cell_bounds(1) wf_cell_bounds(5) le_diff_conv trans_le_add1)
  then have n: "8 * ?n \<le> 1023" using sb by simp
  have l1: "load_uint_custom X s n = Inr (word_of_nat ?n :: u64, adv s n 0)"
    using assms bv by (simp add: load_uint_custom_eq sb)
  have u: "unat (word_of_nat ?n :: u64) = ?n" using n by (simp add: unat_word_of_nat)
  have wf: "wf_slice (adv s n 0)" using assms(3) sb by (intro wf_adv) simp_all
  have "load_bytes (adv s n 0) ?n = Inr (be_bytes ?n v, adv s (n + 8 * ?n) 0)"
    using wf by (simp add: load_bytes_eq sb)
  then show ?thesis using n u assms(2) wf
    by (cases "v = 0") (simp_all add: load_var_big_uint_def l1 Let_def remaining_bits_eq sb
        biguint_from_bytes_be)
qed

end

sublocale bignum \<subseteq> coins: value_codec "store_coins X" "load_coins X"
  "\<lambda>w. unat w < 2 ^ 120" "\<lambda>w. var_enc 4 (unat w)" "\<lambda>_. []"
proof unfold_locales
  show "unat w < 2 ^ 120 \<Longrightarrow> length xs + length (var_enc 4 (unat w)) \<le> 1023 \<Longrightarrow>
      store_coins X (mk_b xs rs) w = Inr (mk_b (xs @ var_enc 4 (unat w)) (rs @ []))" for w xs rs
    by (simp add: store_coins_mk)
qed (simp add: load_coins_reads)

sublocale bignum \<subseteq> var_uint: value_codec "\<lambda>b v. store_var_big_uint X b v n" "\<lambda>s. load_var_big_uint X s n"
  "\<lambda>v. n \<le> 64 \<and> var_len v < 2 ^ n" "var_enc n" "\<lambda>_. []" for n
  by unfold_locales (auto simp: store_var_big_uint_mk load_var_big_uint_reads)

sublocale bignum \<subseteq> big_uint: value_codec "\<lambda>b v. store_big_uint X b v n" "\<lambda>s. load_big_uint X s n"
  "\<lambda>v. n \<le> 1023 \<and> v < 2 ^ n" "nat_bits n" "\<lambda>_. []" for n
  by unfold_locales (auto simp: store_big_uint_mk load_big_uint_eq intro: gr0I)

sublocale bignum \<subseteq> big_int: value_codec "\<lambda>b v. store_big_int X b v n" "\<lambda>s. load_big_int X s n"
  "\<lambda>v. 0 < n \<and> n \<le> 1023 \<and> - (2 ^ (n - 1)) \<le> v \<and> v < 2 ^ (n - 1)" "\<lambda>v. nat_bits n (nat (v mod 2 ^ n))"
  "\<lambda>_. []" for n
  by unfold_locales (auto simp: store_big_int_mk load_big_int_eq signed_val_nat_bits)

context bignum
begin

lemma store_address_some:
  assumes "wf_address a" "length xs + 267 \<le> 1023"
  shows "store_address X (mk_b xs rs) (Some a) = Inr (mk_b (xs @ [False, False, False]
     @ nat_bits 8 (unat (workchain a)) @ bytes_bits (hash_part a)) rs)"
proof -
  have tag: "take 2 (bytes_bits [0b10 :: u8]) = [False, False]" by code_simp
  have si: "sint (scast (workchain a) :: i64) = sint (workchain a)"
    using sint_greater_eq[of "workchain a"] sint_less[of "workchain a"]
    by (simp add: signed_scast_eq signed_take_bit_int_eq_self)
  have range: "- (2 ^ 7) \<le> sint (workchain a)" "sint (workchain a) < 2 ^ 7"
    using sint_greater_eq[of "workchain a"] sint_less[of "workchain a"] by simp_all
  have "nat (sint (workchain a) mod 2 ^ 8) = unat (workchain a)"
    using uint_sint[of "workchain a"] by (simp add: take_bit_eq_mod unat_eq_nat_uint)
  then show ?thesis using assms tag range
    by (simp add: store_address_def store_bits_mk store_bit_mk store_int_eq
        store_big_int_mk si store_bytes_mk wf_address_def)
qed

lemmas coins_roundtrip_law = coins.roundtrip
lemmas var_uint_roundtrip_law = var_uint.roundtrip
lemmas big_int_sequence_laws = big_int.store_many big_int.load_many_reads

end

section \<open>The snake format\<close>

text \<open>Reading a chain of cells: the bits of each, followed by those of its first reference.\<close>

fun snake_bits :: "cell \<Rightarrow> bool list" where
  "snake_bits (Cell d n rs ex lv hc dc) =
     take n (bytes_bits d) @ (case rs of [] \<Rightarrow> [] | r # _ \<Rightarrow> snake_bits r)"

lemma snake_bits_mk_cell:
  "snake_bits (mk_cell xs rs) = xs @ (case rs of [] \<Rightarrow> [] | r # _ \<Rightarrow> snake_bits r)"
  by (simp add: mk_cell_def)

lemma store_snake_bytes_mk:
  assumes "length xs \<le> 1023" "length rs < 4"
  shows "\<exists>ys qs. store_snake_bytes (mk_b xs rs) bs = Inr (mk_b (xs @ ys) (rs @ qs))
    \<and> length xs + length ys \<le> 1023 \<and> length qs \<le> 1 \<and> list_all wf_cell qs
    \<and> bytes_bits bs = ys @ (case qs of [] \<Rightarrow> [] | r # _ \<Rightarrow> snake_bits r)"
  using assms
proof (induction "mk_b xs rs" bs arbitrary: xs rs rule: store_snake_bytes.induct)
  case (1 bs)
  define av where "av = (1023 - length xs) div 8"
  have av: "available_bytes (mk_b xs rs) = av" by (simp add: available_bytes_def av_def)
  have room: "length xs + 8 * av \<le> 1023" using 1(2) by (simp add: av_def)
  show ?case
  proof (cases "length bs \<le> av")
    case True
    with room have fits: "length xs + 8 * length bs \<le> 1023" by linarith
    with True have "store_snake_bytes (mk_b xs rs) bs = Inr (mk_b (xs @ bytes_bits bs) (rs @ []))"
      by (subst store_snake_bytes.simps) (simp add: store_bytes_mk av)
    with fits show ?thesis by (intro exI[of _ "bytes_bits bs"] exI[of _ "[]"]) simp
  next
    case False
    then have ne: "bs \<noteq> []" and tk: "length (take av bs) = av" by auto
    have "store_bytes (mk_b xs rs) (take av bs) = Inr (mk_b (xs @ bytes_bits (take av bs)) rs)"
      using room tk by (simp add: store_bytes_mk)
    moreover obtain ys qs where nxt: "store_snake_bytes builder_new (drop av bs) = Inr (mk_b ys qs)"
        "length ys \<le> 1023" "length qs \<le> 1" "list_all wf_cell qs"
        "bytes_bits (drop av bs) = ys @ (case qs of [] \<Rightarrow> [] | r # _ \<Rightarrow> snake_bits r)"
      using 1(1)[OF ne refl _ _ builder_new_eq] False calculation by (auto simp: av builder_new_eq)
    ultimately have "store_snake_bytes (mk_b xs rs) bs
        = Inr (mk_b (xs @ bytes_bits (take av bs)) (rs @ [mk_cell ys qs]))"
      using ne False 1(3) by (subst store_snake_bytes.simps)
        (simp add: av Let_def builder_build_mk store_ref_mk)
    moreover have "bytes_bits bs = bytes_bits (take av bs) @ snake_bits (mk_cell ys qs)"
      using nxt(5) append_take_drop_id[of av bs] bytes_bits_simps(3)[of "take av bs" "drop av bs"]
      by (simp add: snake_bits_mk_cell)
    ultimately show ?thesis using room tk nxt
      by (intro exI[of _ "bytes_bits (take av bs)"] exI[of _ "[mk_cell ys qs]"]) (simp add: wf_mk_cell)
  qed
qed

section \<open>Properties\<close>

text \<open>
  a coin amount below \<open>2\<^sup>1\<^sup>2\<^sup>0\<close> stored with \<open>store_coins\<close> is read back by \<open>load_coins\<close>, and a
  larger one is refused without touching the builder.
\<close>

theorem coins_roundtrip:
  assumes "bignum X"
  shows "if unat w < 2 ^ 120
    then map_sum id fst (and_then (store_coins X builder_new w) (\<lambda>b. and_then (to_slice b) (load_coins X))) = Inr w
    else store_coins X builder_new w = Inl (BuilderErr CoinsTooLarge)"
proof (cases "unat w < 2 ^ 120")
  case True
  then have "var_len (unat w) \<le> 15" using var_len_le_iff[of "unat w" 15] by simp
  with True show ?thesis using bignum.coins_roundtrip_law[OF assms True] by simp
qed (use bignum.store_coins_mk[OF assms, of "[]" "[]" w] in \<open>simp add: builder_new_eq\<close>)

theorem coins_roundtrip_witness:
  "map_sum id fst (and_then (store_coins ref_crates builder_new 1000000000)
     (\<lambda>b. and_then (to_slice b) (load_coins ref_crates))) = Inr 1000000000"
  using coins_roundtrip[OF ref_bignum.bignum_axioms, of 1000000000] by simp

text \<open>
  Any sequence of signed integers, each within the range of its width, stored one after
  another is read back in order; the references and bits around them are untouched.
\<close>

theorem int_sequence_roundtrip:
  assumes "bignum X" "0 < n" "\<forall>v \<in> set vs. - (2 ^ (n - 1)) \<le> v \<and> v < 2 ^ (n - 1)"
    and "n * length vs \<le> 1023"
  shows "\<exists>c s. and_then (try_fold (\<lambda>b v. store_big_int X b v n) builder_new vs) builder_build = Inr c
    \<and> load_many (\<lambda>s. load_big_int X s n) (length vs) (slice_new c) = Inr (vs, s)
    \<and> slice_is_empty s"
proof -
  define bits where "bits = concat (map (\<lambda>v. nat_bits n (nat (v mod 2 ^ n))) vs)"
  have len: "length (concat (map (\<lambda>v. nat_bits n (f v)) us)) = n * length us" for f :: "int \<Rightarrow> nat" and us
    by (induction us) simp_all
  have n: "n \<le> 1023" if "v \<in> set vs" for v using assms(4) that by (cases vs) auto
  have good: "list_all (\<lambda>v. 0 < n \<and> n \<le> 1023 \<and> - (2 ^ (n - 1)) \<le> v \<and> v < 2 ^ (n - 1)) vs"
    using assms(2,3) n by (simp add: list_all_iff)
  have nil: "concat (map (\<lambda>v :: int. [] :: cell list) us) = []" for us by (induction us) simp_all
  have "try_fold (\<lambda>b v. store_big_int X b v n) builder_new vs = Inr (mk_b bits [])"
    using bignum.big_int_sequence_laws(1)[OF assms(1) good, of "[]" "[]"] assms(4)
    by (simp add: builder_new_eq bits_def len nil)
  moreover have "wf_cell (mk_cell bits [])" using assms(4) by (simp add: wf_mk_cell bits_def len)
  moreover from this have "load_many (\<lambda>s. load_big_int X s n) (length vs) (slice_new (mk_cell bits []))
      = Inr (vs, adv (slice_new (mk_cell bits [])) (length bits) 0)"
    using bignum.big_int_sequence_laws(2)[OF assms(1) good, of "slice_new (mk_cell bits [])" "[]" "[]"]
    by (simp add: bits_def nil)
  moreover from calculation(2) have "slice_is_empty (adv (slice_new (mk_cell bits [])) (length bits) 0)"
    by (subst slice_is_empty_eq) (auto intro!: wf_adv)
  ultimately show ?thesis using assms(4) by (simp add: builder_build_mk bits_def len)
qed

theorem int_sequence_roundtrip_witness:
  "\<exists>c s. and_then (try_fold (\<lambda>b v. store_big_int ref_crates b v 9) builder_new [-256, 255, -1]) builder_build = Inr c
    \<and> load_many (\<lambda>s. load_big_int ref_crates s 9) 3 (slice_new c) = Inr ([-256, 255, -1], s)
    \<and> slice_is_empty s"
  using int_sequence_roundtrip[OF ref_bignum.bignum_axioms, of 9 "[-256, 255, -1]"]
  by (simp add: numeral_3_eq_3)

text \<open>
  the snake format loses nothing: from a fresh builder every byte string of any length is
  stored, and the bits of the chain of cells are the bits of the byte string.
\<close>

theorem snake_roundtrip:
  "\<exists>c. and_then (store_snake_bytes builder_new bs) builder_build = Inr c \<and> wf_cell c
     \<and> snake_bits c = bytes_bits bs"
proof -
  obtain ys qs where "store_snake_bytes builder_new bs = Inr (mk_b ys qs)" "length ys \<le> 1023"
      "length qs \<le> 1" "list_all wf_cell qs" "bytes_bits bs = ys @ (case qs of [] \<Rightarrow> [] | r # _ \<Rightarrow> snake_bits r)"
    using store_snake_bytes_mk[of "[]" "[]" bs] by (auto simp: builder_new_eq)
  then show ?thesis by (simp add: builder_build_mk wf_mk_cell snake_bits_mk_cell)
qed

text \<open>
  \<open>store_slice\<close> of a fresh slice over an ordinary cell rebuilds that very cell.
\<close>

theorem store_slice_rebuilds:
  assumes "wf_cell c" "cell_exotic c = None"
  shows "and_then (store_slice builder_new (slice_new c)) builder_build = Inr c"
proof -
  have "length (cell_bits c) \<le> 1023" "length (cell_references c) \<le> 4"
    using wf_cell_bounds[OF assms(1)] by simp_all
  then have "and_then (store_slice builder_new (slice_new c)) builder_build
      = Inr (mk_cell (cell_bits c) (cell_references c))"
    using assms(1) by (simp add: builder_new_eq store_slice_mk builder_build_mk)
  then show ?thesis using wf_ordinary_eq[OF assms] by simp
qed

theorem store_slice_rebuilds_witness:
  "and_then (store_slice builder_new (slice_new (mk_cell [True, False, True] [mk_cell [True] []]))) builder_build
     = Inr (mk_cell [True, False, True] [mk_cell [True] []])"
  by (rule store_slice_rebuilds) (simp_all add: wf_mk_cell)

text \<open>
  C39: the layout \<open>store_address\<close> writes for an internal address.  The first two bits are 00, the
  tag of \<open>addr_none\<close>, since \<open>store_bits\<close> takes the bits of its argument from the top.
\<close>

theorem store_address_layout:
  assumes "bignum X" "wf_address a" "length xs + 267 \<le> 1023"
  shows "store_address X (mk_b xs rs) (Some a) = Inr (mk_b (xs @ [False, False, False]
     @ nat_bits 8 (unat (workchain a)) @ bytes_bits (hash_part a)) rs)"
  using assms by (rule bignum.store_address_some)

theorem store_address_layout_witness:
  "store_address ref_crates (mk_b [] []) (Some sample_address) = Inr (mk_b ([False, False, False]
     @ nat_bits 8 255 @ bytes_bits (replicate 32 7)) [])"
proof -
  have "unat (-1 :: u8) = 255" by code_simp
  then show ?thesis
    using store_address_layout[OF ref_bignum.bignum_axioms wf_sample_address, of "[]" "[]"]
    by (simp add: sample_address_def new_address_def)
qed

text \<open>
  C40: \<open>store_var_int\<close> counts the bits of the magnitude only, so it refuses every positive value
  whose bit length is a multiple of eight.
\<close>

theorem store_var_int_refuses:
  assumes "bignum X" "0 < sint v" "bit_length (unat v) mod 8 = 0" "4 \<le> n" "n \<le> 64"
  shows "store_var_int X builder_new v n = Inl (BuilderErr SignedDoesNotFit)"
proof -
  define k where "k = div_ceil (bit_length (unat v)) 8"
  have "uint v = sint v"
    using uint_sint[of v] assms(2) sint_less[of v] by (simp add: take_bit_eq_mod)
  then have sv: "sint v = int (unat v)" and pos: "0 < unat v"
    using assms(2) by (simp_all add: unat_eq_nat_uint)
  have k: "bit_length (unat v) = 8 * k"
    using assms(3) by (auto simp: k_def div_ceil_8)
  have "unat v < 2 ^ 64" using unsigned_less[of v, where ?'a = nat] by simp
  then have "bit_length (unat v) \<le> 64" by (simp only: bit_length_le_iff)
  then have k8: "k \<le> 8" "0 < k" using k pos by (auto intro: gr0I)
  have "\<not> bit_length (unat v) \<le> 8 * k - 1" using k k8 by simp
  then have "2 ^ (8 * k - 1) \<le> unat v" by (simp add: bit_length_le_iff)
  then have big: "2 ^ (k * 8 - 1) \<le> sint v"
    unfolding sv by (metis mult.commute of_nat_le_iff of_nat_numeral of_nat_power)
  have "(2::nat) ^ 4 \<le> 2 ^ n" using assms(4) by (rule power_increasing) simp
  then have fits: "\<not> 2 ^ n \<le> k" using k8 by simp
  have u: "unat (word_of_nat k :: u64) = k" using k8 by (simp add: unat_word_of_nat)
  have "v \<noteq> 0" using pos by auto
  then show ?thesis using assms big fits u k8
    by (simp add: store_var_int_def Let_def builder_new_eq bignum.store_uint_custom_mk
        bignum.store_int_eq bignum.store_big_int_mk flip: k_def)
qed

theorem store_var_int_refuses_witness:
  "store_var_int ref_crates builder_new 128 4 = Inl (BuilderErr SignedDoesNotFit)"
  using store_var_int_refuses[OF ref_bignum.bignum_axioms, of 128 4]
  by (simp add: bit_length.simps)

end
