(* ===== verification/CellFields.thy ===== *)
theory CellFields
  imports Builder
begin

text \<open>
  Reading and writing the fields of a cell.  A writer appends the bits and references of a
  field to a builder \<open>mk_b xs rs\<close>; a reader on a slice whose bits start with the same field
  returns it and moves on.  The equations are collected in \<open>stores\<close> and \<open>loads\<close>, so that
  the writer and the reader of a record of fields evaluate by simplification.
\<close>

named_theorems stores
named_theorems loads

lemma bits_val_byte_bits [simp]: "bits_val (byte_bits w) = unat w"
  using unsigned_less[of w, where ?'a = nat] by (simp add: byte_bits_nat_bits bits_val_nat_bits)

lemma store_byte_mk [stores]:
  "store_byte (mk_b xs rs) w =
    (if 1023 < length xs + 8 then Inl (BuilderErr StoreExceedsCell) else Inr (mk_b (xs @ byte_bits w) rs))"
  by (simp add: store_byte_def on_inner_mk cb_store_byte_def cb_store_bits_mk mk_b_fold)

lemma store_bit_append [stores]:
  "store_bit (mk_b xs rs) v =
    (if 1023 < length xs + 1 then Inl (BuilderErr StoreExceedsCell) else Inr (mk_b (xs @ [v]) rs))"
  by (simp add: store_bit_mk)

lemma load_bit_append [loads]:
  "wf_slice s \<Longrightarrow> slice_bits s = v # ys \<Longrightarrow> load_bit s = Inr (v, adv s 1 0)"
  by (simp add: load_bit_eq)

lemma load_reference_append [loads]:
  "slice_refs s = c # qs \<Longrightarrow> load_reference s = Inr (c, adv s 0 1)"
  by (simp add: load_reference_eq)

lemma wf_slice_adv [loads]:
  "wf_slice s \<Longrightarrow> n \<le> length (slice_bits s) \<Longrightarrow> m \<le> length (slice_refs s) \<Longrightarrow> wf_slice (adv s n m)"
  by (rule wf_adv)

declare builder_new_eq [stores] store_ref_mk [stores] store_bytes_mk [stores] builder_build_mk [stores]
declare load_bytes_eq [loads]

context bignum
begin

lemma load_uint_custom_append:
  fixes v :: "'a::len word"
  assumes "wf_slice s" "slice_bits s = nat_bits n (unat v) @ ys" "unat v < 2 ^ n"
    "n \<le> LENGTH('a)" "LENGTH('a) \<le> 64 \<or> LENGTH('a) = 128"
  shows "load_uint_custom X s n = Inr (v, adv s n 0)"
  using assms by (simp add: load_uint_custom_eq bits_val_nat_bits)

lemma load_uint_append:
  fixes v :: "'a::len word"
  assumes "wf_slice s" "slice_bits s = nat_bits LENGTH('a) (unat v) @ ys" "LENGTH('a) \<le> 64 \<or> LENGTH('a) = 128"
  shows "load_uint X s = Inr (v, adv s LENGTH('a) 0)"
  unfolding load_uint_def using assms by (intro load_uint_custom_append) auto

lemma load_byte_append:
  assumes "wf_slice s" "slice_bits s = byte_bits v @ ys"
  shows "load_byte X s = Inr (v, adv s 8 0)"
  using load_uint_append[of s v ys] assms by (simp add: load_byte_def byte_bits_nat_bits)

declare store_uint_mk [stores] store_uint_custom_mk [stores] store_big_uint_mk [stores]
declare load_uint_custom_append [loads] load_uint_append [loads] load_byte_append [loads]

end

end
