(* ===== verification/BTreeMap.thy ===== *)
theory BTreeMap
  imports Ton_Prelude
begin

text \<open>
  The part of \<open>std::collections::BTreeMap\<close> the dictionaries use, as association lists in
  ascending key order.  \<open>ordered_map\<close> is its contract as a finite map; the interpretation
  \<open>btree\<close> shows that the list operations meet it.  \<open>btree_insert_above\<close> is the case the
  dictionary parser is in: keys arrive in ascending order and go to the end.
\<close>

type_synonym ('k, 'v) btree_map = "('k \<times> 'v) list"

fun btree_insert :: "'k::linorder \<Rightarrow> 'v \<Rightarrow> ('k, 'v) btree_map \<Rightarrow> ('k, 'v) btree_map" where
  "btree_insert k v [] = [(k, v)]"
| "btree_insert k v ((k', v') # m) =
     (if k < k' then (k, v) # (k', v') # m
      else if k = k' then (k, v) # m
      else (k', v') # btree_insert k v m)"

definition btree_get :: "'k \<Rightarrow> ('k, 'v) btree_map \<Rightarrow> 'v option" where
  "btree_get k m = map_of m k"

definition btree_remove :: "'k \<Rightarrow> ('k, 'v) btree_map \<Rightarrow> ('k, 'v) btree_map" where
  "btree_remove k m = filter (\<lambda>(k', _). k' \<noteq> k) m"

definition btree_ordered :: "('k::linorder, 'v) btree_map \<Rightarrow> bool" where
  "btree_ordered m \<longleftrightarrow> sorted_wrt (<) (map fst m)"

locale ordered_map =
  fixes insert :: "'k \<Rightarrow> 'v \<Rightarrow> 'm \<Rightarrow> 'm"
    and get :: "'k \<Rightarrow> 'm \<Rightarrow> 'v option"
    and remove :: "'k \<Rightarrow> 'm \<Rightarrow> 'm"
    and ordered :: "'m \<Rightarrow> bool"
  assumes get_insert: "ordered m \<Longrightarrow> get k (insert k' v m) = (if k = k' then Some v else get k m)"
    and get_remove: "ordered m \<Longrightarrow> get k (remove k' m) = (if k = k' then None else get k m)"
    and ordered_insert: "ordered m \<Longrightarrow> ordered (insert k v m)"
    and ordered_remove: "ordered m \<Longrightarrow> ordered (remove k m)"
    and get_ext: "ordered m \<Longrightarrow> ordered m' \<Longrightarrow> (\<And>k. get k m = get k m') \<Longrightarrow> m = m'"
begin

lemma insert_idem: "ordered m \<Longrightarrow> insert k v (insert k w m) = insert k v m"
  by (rule get_ext) (simp_all add: ordered_insert get_insert)

lemma insert_commute:
  "ordered m \<Longrightarrow> k \<noteq> k' \<Longrightarrow> insert k v (insert k' v' m) = insert k' v' (insert k v m)"
  by (rule get_ext) (auto simp: ordered_insert get_insert)

lemma remove_insert: "ordered m \<Longrightarrow> get k m = None \<Longrightarrow> remove k (insert k v m) = m"
  by (rule get_ext) (auto simp: ordered_insert ordered_remove get_insert get_remove)

lemma insert_same: "ordered m \<Longrightarrow> get k m = Some v \<Longrightarrow> insert k v m = m"
  by (rule get_ext) (auto simp: ordered_insert get_insert)

end

lemma btree_ordered_simps [simp]:
  "btree_ordered []"
  "btree_ordered ((k, v) # m) \<longleftrightarrow> (\<forall>k' \<in> fst ` set m. k < k') \<and> btree_ordered m"
  by (auto simp: btree_ordered_def)

lemma fst_set_btree_insert: "fst ` set (btree_insert k v m) = insert k (fst ` set m)"
  by (induction m rule: btree_insert.induct) auto

lemma btree_get_insert: "btree_get k (btree_insert k' v m) = (if k = k' then Some v else btree_get k m)"
  by (induction m) (auto simp: btree_get_def)

lemma btree_ordered_insert: "btree_ordered m \<Longrightarrow> btree_ordered (btree_insert k v m)"
proof (induction m)
  case (Cons p m)
  obtain k' v' where p: "p = (k', v')" by (cases p)
  consider "k < k'" | "k = k'" | "k' < k" by (rule linorder_cases)
  then show ?case
    by cases (use Cons p in \<open>fastforce simp: fst_set_btree_insert intro: less_trans\<close>)+
qed simp

lemma btree_get_ext:
  assumes "btree_ordered m" "btree_ordered m'" "\<And>k. btree_get k m = btree_get k m'"
  shows "m = m'"
proof -
  have d: "distinct (map fst n)" if "btree_ordered n" for n :: "('a \<times> 'b) list"
    using that unfolding btree_ordered_def by (simp add: strict_sorted_iff)
  have eq: "set m = set m'" using assms(3) d[OF assms(1)] d[OF assms(2)]
    by (intro map_of_inject_set[THEN iffD1]) (auto simp: btree_get_def)
  have "sorted (map fst m)" "sorted (map fst m')"
    using assms(1,2) unfolding btree_ordered_def by (simp_all add: strict_sorted_iff)
  moreover have "inj_on fst (set m \<union> set m')"
    using eq d[OF assms(1)] by (simp add: distinct_map)
  ultimately show ?thesis using d[OF assms(1)] d[OF assms(2)]
    by (intro map_sorted_distinct_set_unique[of fst] eq)
qed

lemma btree_get_remove: "btree_get k (btree_remove k' m) = (if k = k' then None else btree_get k m)"
  by (induction m) (auto simp: btree_get_def btree_remove_def)

lemma btree_ordered_remove: "btree_ordered m \<Longrightarrow> btree_ordered (btree_remove k m)"
  by (induction m) (auto simp: btree_remove_def)

interpretation btree: ordered_map btree_insert btree_get btree_remove btree_ordered
  by unfold_locales (blast intro: btree_ordered_insert btree_ordered_remove btree_get_ext
      | simp add: btree_get_insert btree_get_remove)+

lemma btree_insert_above:
  "\<forall>k' \<in> fst ` set m. k' < k \<Longrightarrow> btree_insert k v m = m @ [(k, v)]"
  by (induction m) auto

lemma btree_get_above: "\<forall>k' \<in> fst ` set m. k' < (k :: 'k::linorder) \<Longrightarrow> btree_get k m = None"
  by (auto simp: btree_get_def map_of_eq_None_iff)

lemma btree_ordered_append:
  "btree_ordered (m @ m') \<longleftrightarrow> btree_ordered m \<and> btree_ordered m'
     \<and> (\<forall>k \<in> fst ` set m. \<forall>k' \<in> fst ` set m'. k < k')"
  by (auto simp: btree_ordered_def sorted_wrt_append)

end
