(* ===== verification/BitKey.thy ===== *)
theory BitKey
  imports Builder BTreeMap "HOL-Library.List_Lexorder" "HOL-Library.Product_Lexorder"
begin

unbundle bit_operations_syntax

text \<open>
  Fixed-width dictionary keys (\<open>BitKey\<close> of \<open>src/tvm/dict/hashmap.rs\<close> with the bit helpers of
  \<open>src/tvm/dict/labels.rs\<close>).  The fields are private and every constructor makes the byte
  buffer exactly as long as the key, so a bit index below \<open>bit_len\<close> is in range.

  \<open>mk_key xs\<close> is the key of the bits \<open>xs\<close>.  The derived order of the source compares the
  byte buffers; \<open>mk_key_less\<close> shows that on keys of one width this is the order of the keys
  as binary numbers, which is what the dictionary builder needs to split its entries.
\<close>

datatype bit_key = BitKey (bk_data: bytes) (bk_bit_len: nat)

instantiation bit_key :: linorder
begin

definition less_bit_key :: "bit_key \<Rightarrow> bit_key \<Rightarrow> bool" where
  "less_bit_key a b \<longleftrightarrow> (bk_data a, bk_bit_len a) < (bk_data b, bk_bit_len b)"

definition less_eq_bit_key :: "bit_key \<Rightarrow> bit_key \<Rightarrow> bool" where
  "less_eq_bit_key a b \<longleftrightarrow> (bk_data a, bk_bit_len a) \<le> (bk_data b, bk_bit_len b)"

instance
proof
  fix a b c :: bit_key
  show "(a < b) = (a \<le> b \<and> \<not> b \<le> a)"
    unfolding less_bit_key_def less_eq_bit_key_def by (rule less_le_not_le)
  show "a \<le> a" unfolding less_eq_bit_key_def by simp
  show "a \<le> b \<Longrightarrow> b \<le> c \<Longrightarrow> a \<le> c" unfolding less_eq_bit_key_def by (rule order_trans)
  show "a \<le> b \<Longrightarrow> b \<le> a \<Longrightarrow> a = b"
    unfolding less_eq_bit_key_def by (metis bit_key.expand order_antisym prod.inject)
  show "a \<le> b \<or> b \<le> a" unfolding less_eq_bit_key_def by (rule linear)
qed

end

definition bits_to_bytes :: "nat \<Rightarrow> nat" where
  "bits_to_bytes bits = div_ceil bits 8"

text \<open>\<open>data[len - 1] &= !((1u8 << unused) - 1)\<close>.\<close>

definition clear_unused_bits :: "bytes \<Rightarrow> nat \<Rightarrow> bytes" where
  "clear_unused_bits data bit_len =
     (if data = [] then data
      else let unused = length data * 8 - bit_len in
        if 0 < unused
        then data[length data - 1 := last data AND NOT (push_bit unused 1 - 1)]
        else data)"

definition bit_key_new :: "bytes \<Rightarrow> nat \<Rightarrow> bit_key result" where
  "bit_key_new data bit_len =
     (if length data \<noteq> bits_to_bytes bit_len then Inl (DictErr KeyLengthMismatch)
      else if bit_len = 0 then Inr (BitKey data bit_len)
      else let unused = length data * 8 - bit_len in
        if 0 < unused \<and> last data AND (push_bit unused 1 - 1) \<noteq> 0
        then Inl (DictErr KeyUnusedBits)
        else Inr (BitKey data bit_len))"

definition bit_key_from_bits :: "bytes \<Rightarrow> nat \<Rightarrow> bit_key result" where
  "bit_key_from_bits data bit_len =
     (if length data < bits_to_bytes bit_len then Inl (DictErr KeyInsufficientData)
      else Inr (BitKey (clear_unused_bits (take (bits_to_bytes bit_len) data) bit_len) bit_len))"

definition bit_key_from_u64 :: "u64 \<Rightarrow> nat \<Rightarrow> bit_key result" where
  "bit_key_from_u64 value bit_len =
     (if 64 < bit_len then Inl (DictErr KeyU64TooWide)
      else if bit_len < 64 \<and> push_bit bit_len 1 \<le> value then Inl (DictErr KeyU64DoesNotFit)
      else Inr (BitKey
        (foldl (\<lambda>data bit_index. set_bit_at data bit_index (drop_bit (bit_len - bit_index - 1) value AND 1 \<noteq> 0))
           (replicate (bits_to_bytes bit_len) 0) [0..<bit_len]) bit_len))"

definition key_bit :: "bit_key \<Rightarrow> nat \<Rightarrow> bool result" where
  "key_bit k index =
     (if bk_bit_len k \<le> index then Inl (DictErr KeyBitOutOfBounds)
      else Inr (get_bit_at (bk_data k) index))"

definition bit_key_to_u64 :: "bit_key \<Rightarrow> u64 result" where
  "bit_key_to_u64 k =
     (if 64 < bk_bit_len k then Inl (DictErr KeyNotU64)
      else try_fold (\<lambda>value index. and_then (key_bit k index) (\<lambda>b.
             Inr (if b then push_bit 1 value OR 1 else push_bit 1 value))) 0 [0..<bk_bit_len k])"

definition bit_key_from_address :: "crates \<Rightarrow> address \<Rightarrow> bit_key result" where
  "bit_key_from_address X a =
     and_then (store_address X builder_new (Some a)) (\<lambda>b.
     and_then (builder_build b) (\<lambda>c. bit_key_from_bits (cell_data c) (cell_bit_len c)))"

definition bit_key_prefix :: "bit_key \<Rightarrow> nat \<Rightarrow> bit_key result" where
  "bit_key_prefix k bit_len =
     (if bk_bit_len k < bit_len then Inl (DictErr KeyPrefixTooLong)
      else and_then (try_fold (\<lambda>data index. and_then (key_bit k index) (\<lambda>b. Inr (set_bit_at data index b)))
             (replicate (bits_to_bytes bit_len) 0) [0..<bit_len]) (\<lambda>data. Inr (BitKey data bit_len)))"

definition collect_key_bits :: "bit_key \<Rightarrow> nat \<Rightarrow> nat \<Rightarrow> bool list result" where
  "collect_key_bits k offset len =
     try_fold (\<lambda>bits index. and_then (key_bit k index) (\<lambda>b. Inr (bits @ [b]))) [] [offset..<offset + len]"

definition bit_vec_to_key :: "bool list \<Rightarrow> nat \<Rightarrow> bit_key result" where
  "bit_vec_to_key bits bit_len =
     (if length bits \<noteq> bit_len then Inl (DictErr DecodedKeyLength)
      else bit_key_new (set_bits_from (replicate (bits_to_bytes bit_len) 0) 0 bits) bit_len)"

section \<open>Keys as bit lists\<close>

definition mk_key :: "bool list \<Rightarrow> bit_key" where
  "mk_key xs = BitKey (pack xs) (length xs)"

definition key_bits_of :: "bit_key \<Rightarrow> bool list" where
  "key_bits_of k = take (bk_bit_len k) (bytes_bits (bk_data k))"

text \<open>The invariant of a key: it is the canonical one of its bits.\<close>

definition wf_key :: "bit_key \<Rightarrow> bool" where
  "wf_key k \<longleftrightarrow> k = mk_key (key_bits_of k)"

lemma mk_key_sel [simp]:
  "bk_bit_len (mk_key xs) = length xs"
  "bk_data (mk_key xs) = pack xs"
  "key_bits_of (mk_key xs) = xs"
  "wf_key (mk_key xs)"
  by (simp_all add: mk_key_def key_bits_of_def wf_key_def)

lemma mk_key_inject [simp]: "mk_key xs = mk_key ys \<longleftrightarrow> xs = ys"
  by (metis mk_key_sel(3))

lemma wf_keyE:
  assumes "wf_key k"
  obtains xs where "k = mk_key xs" "length xs = bk_bit_len k"
proof
  show "k = mk_key (key_bits_of k)" using assms by (simp add: wf_key_def)
  then show "length (key_bits_of k) = bk_bit_len k" by (metis mk_key_sel(1))
qed

lemma key_bit_mk:
  "key_bit (mk_key xs) i = (if i < length xs then Inr (xs ! i) else Inl (DictErr KeyBitOutOfBounds))"
proof (cases "i < length xs")
  case True
  then have "i < 8 * length (pack xs)" using div_ceil_bounds(1)[of "length xs"] by simp
  then have "get_bit_at (pack xs) i = bytes_bits (pack xs) ! i" by (simp add: get_bit_at_nth)
  also have "\<dots> = xs ! i" using True by (simp add: bytes_bits_pack nth_append)
  finally show ?thesis using True by (simp add: key_bit_def)
qed (simp add: key_bit_def)

section \<open>Every constructor makes a canonical key\<close>

lemma not_low_mask: "NOT (push_bit u 1 - 1) = push_bit u (0xFF :: u8)"
proof -
  have e: "(0xFF :: u8) = - 1" by simp
  show ?thesis unfolding e push_bit_minus_one_eq_not_mask mask_eq_exp_minus_1 by simp
qed

lemma clear_unused_bits_truncate:
  assumes "n \<le> 8 * length data"
  shows "clear_unused_bits (take (div_ceil n 8) data) n = truncate_data data n"
proof -
  let ?d = "take (div_ceil n 8) data"
  have len: "length ?d = div_ceil n 8" using assms by (simp add: div_ceil_le_iff)
  show ?thesis
  proof (cases "n mod 8 = 0")
    case True
    then have "\<not> 0 < length ?d * 8 - n" unfolding len by (simp add: div_ceil_8)
    with True show ?thesis by (simp add: clear_unused_bits_def truncate_data_def Let_def)
  next
    case False
    then have u: "length ?d * 8 - n = 8 - n mod 8" unfolding len
      by (simp add: div_ceil_8) (use div_mult_mod_eq[of n 8] in linarith)
    have ne: "?d \<noteq> []" using False len by (auto simp flip: length_0_conv)
    have "8 - n mod 8 < 8" using False by simp
    with False show ?thesis
      using ne u not_low_mask[of "8 - n mod 8"] len
      by (simp add: clear_unused_bits_def truncate_data_def Let_def last_conv_nth)
  qed
qed

lemma bit_key_from_bits_eq:
  "bit_key_from_bits data n = (if 8 * length data < n then Inl (DictErr KeyInsufficientData)
     else Inr (mk_key (take n (bytes_bits data))))"
  by (auto simp: bit_key_from_bits_def bits_to_bytes_def less_div_ceil_iff clear_unused_bits_truncate
      truncate_data_pack mk_key_def)

lemma and_low_mask_eq_0_iff: "(w :: u8) AND m = 0 \<longleftrightarrow> w AND NOT m = w"
  by (auto simp: bit_eq_iff bit_simps)

lemma bit_key_new_eq:
  "bit_key_new data n = (if length data \<noteq> div_ceil n 8 then Inl (DictErr KeyLengthMismatch)
     else if data = pack (take n (bytes_bits data)) then Inr (mk_key (take n (bytes_bits data)))
     else Inl (DictErr KeyUnusedBits))"
proof (cases "length data = div_ceil n 8 \<and> 0 < n")
  case True
  then have len: "length data = div_ceil n 8" and ne: "data \<noteq> []" and n: "n \<le> 8 * length data"
    using div_ceil_bounds(1)[of n] by (auto simp flip: length_0_conv)
  let ?u = "length data * 8 - n"
  have clear: "clear_unused_bits data n = pack (take n (bytes_bits data))"
    using clear_unused_bits_truncate[OF n] truncate_data_pack[OF n] len by simp
  have "0 < ?u \<and> last data AND (push_bit ?u 1 - 1) \<noteq> 0 \<longleftrightarrow> clear_unused_bits data n \<noteq> data"
    using ne unfolding and_low_mask_eq_0_iff
    by (auto simp: clear_unused_bits_def Let_def last_conv_nth list_update_same_conv)
  then have "0 < ?u \<and> last data AND (push_bit ?u 1 - 1) \<noteq> 0 \<longleftrightarrow> data \<noteq> pack (take n (bytes_bits data))"
    unfolding clear by metis
  with True show ?thesis using n
    by (auto simp: bit_key_new_def bits_to_bytes_def Let_def mk_key_def simp del: One_nat_def)
qed (auto simp: bit_key_new_def bits_to_bytes_def mk_key_def)

lemma bit_vec_to_key_eq [simp]:
  "bit_vec_to_key xs n = (if length xs = n then Inr (mk_key xs) else Inl (DictErr DecodedKeyLength))"
  by (auto simp: bit_vec_to_key_def bits_to_bytes_def bit_key_new_eq)

lemma foldl_set_bit_at:
  "foldl (\<lambda>data i. set_bit_at data i (f i)) d [a..<a + k] = set_bits_from d a (map f [a..<a + k])"
proof (induction k arbitrary: a d)
  case (Suc k)
  have "[a..<a + Suc k] = a # [Suc a..<Suc a + k]" by (simp add: upt_conv_Cons)
  with Suc.IH[of "set_bit_at d a (f a)" "Suc a"] show ?case by (simp del: upt_Suc)
qed simp

lemma unat_push_bit_1: "n < 64 \<Longrightarrow> unat (push_bit n 1 :: u64) = 2 ^ n"
  using power_strict_increasing[of n 64 "2::nat"]
  by (simp only: unsigned_push_bit_eq) (simp add: take_bit_eq_mod push_bit_eq_mult)

lemma bit_key_from_u64_eq:
  "bit_key_from_u64 v n = (if 64 < n then Inl (DictErr KeyU64TooWide)
     else if 2 ^ n \<le> unat v then Inl (DictErr KeyU64DoesNotFit)
     else Inr (mk_key (nat_bits n (unat v))))"
proof (cases "64 < n")
  case False
  have "unat v < 2 ^ 64" using unsigned_less[of v, where ?'a = nat] by simp
  then have fit: "n < 64 \<and> push_bit n 1 \<le> v \<longleftrightarrow> 2 ^ n \<le> unat v"
    using False unat_push_bit_1[of n]
    by (cases "n = 64") (simp_all add: word_le_nat_alt[of "push_bit n 1"] del: push_bit_of_1)
  have "map (\<lambda>i. drop_bit (n - i - 1) v AND 1 \<noteq> 0) [0..<n] = nat_bits n (unat v)"
    by (intro nth_equalityI) (simp_all add: nth_nat_bits and_one_eq mod_2_eq_odd bit_unsigned_iff
        flip: bit_iff_odd_drop_bit)
  then have "foldl (\<lambda>data i. set_bit_at data i (drop_bit (n - i - 1) v AND 1 \<noteq> 0))
      (replicate (div_ceil n 8) 0) [0..<n] = pack (nat_bits n (unat v))"
    using foldl_set_bit_at[of "\<lambda>i. drop_bit (n - i - 1) v AND 1 \<noteq> 0" _ 0 n]
      set_bits_from_zeros[of "nat_bits n (unat v)"] by simp
  with False fit show ?thesis
    by (simp add: bit_key_from_u64_def bits_to_bytes_def mk_key_def)
qed (simp add: bit_key_from_u64_def)

section \<open>Reading keys\<close>

lemma try_fold_key_bits:
  assumes "offset + len \<le> length xs"
  shows "try_fold (\<lambda>a i. and_then (key_bit (mk_key xs) i) (\<lambda>b. Inr (f a i b))) a [offset..<offset + len]
    = Inr (foldl (\<lambda>a i. f a i (xs ! i)) a [offset..<offset + len])"
  using assms by (induction len) (simp_all add: try_fold_append key_bit_mk)

lemma collect_key_bits_eq:
  assumes "offset + len \<le> length xs"
  shows "collect_key_bits (mk_key xs) offset len = Inr (take len (drop offset xs))"
proof -
  have "foldl (\<lambda>bits i. bits @ [xs ! i]) ys js = ys @ map ((!) xs) js" for ys js
    by (induction js arbitrary: ys) simp_all
  moreover have "map ((!) xs) [offset..<offset + len] = take len (drop offset xs)"
    using assms by (intro nth_equalityI) simp_all
  ultimately show ?thesis
    by (simp add: collect_key_bits_def try_fold_key_bits[OF assms])
qed

lemma bit_key_prefix_eq:
  "bit_key_prefix (mk_key xs) n =
    (if length xs < n then Inl (DictErr KeyPrefixTooLong) else Inr (mk_key (take n xs)))"
proof (cases "length xs < n")
  case False
  then have len: "length (take n xs) = n" by simp
  have "map ((!) xs) [0..<n] = take n xs" using False by (intro nth_equalityI) simp_all
  then have "foldl (\<lambda>d i. set_bit_at d i (xs ! i)) (replicate (div_ceil n 8) 0) [0..<n] = pack (take n xs)"
    using foldl_set_bit_at[of "(!) xs" _ 0 n] set_bits_from_zeros[of "take n xs"] len by simp
  with False show ?thesis
    using try_fold_key_bits[of 0 n xs set_bit_at "replicate (div_ceil n 8) 0"]
    by (simp add: bit_key_prefix_def bits_to_bytes_def) (simp add: mk_key_def)
qed (simp add: bit_key_prefix_def)

lemma bit_key_to_u64_eq:
  assumes "length xs \<le> 64"
  shows "bit_key_to_u64 (mk_key xs) = Inr (word_of_nat (bits_val xs))"
proof -
  have "foldl (\<lambda>v i. if xs ! i then push_bit 1 v OR 1 else push_bit 1 v) (0 :: u64) [0..<n]
      = word_of_nat (bits_val (take n xs))" if "n \<le> length xs" for n
    using that
  proof (induction n)
    case (Suc n)
    have or: "push_bit 1 v OR 1 = 2 * v + 1" for v :: u64
      by (simp add: or_one_eq)
    show ?case using Suc by (simp add: take_Suc_conv_app_nth bits_val_append or one_or_eq ac_simps)
  qed simp
  then show ?thesis
    using try_fold_key_bits[of 0 "length xs" xs "\<lambda>v i b. if b then push_bit 1 v OR 1 else push_bit 1 v" "0 :: u64"] assms
    by (simp add: bit_key_to_u64_def)
qed

section \<open>The order of keys\<close>

lemma be_val_order: "length bs = length cs \<Longrightarrow> bs < cs \<longleftrightarrow> be_val bs < be_val cs"
proof (induction bs cs rule: list_induct2)
  case (Cons b bs c cs)
  have lt: "be_val bs < 256 ^ length cs" "be_val cs < 256 ^ length cs"
    using be_val_less[of bs] be_val_less[of cs] Cons.hyps by simp_all
  have step: "x * k + r < y * k + t" if "x < y" "r < k" for x y r t k :: nat
  proof -
    have "x * k + r < Suc x * k" using that(2) by simp
    also have "\<dots> \<le> y * k + t" using mult_le_mono1[of "Suc x" y k] that(1) by simp
    finally show ?thesis .
  qed
  show ?case
  proof (cases b c rule: linorder_cases)
    case less
    then have "unat b < unat c" by (simp add: word_less_nat_alt)
    with step[OF this lt(1)] less Cons.hyps show ?thesis by simp
  next
    case greater
    then have "unat c < unat b" by (simp add: word_less_nat_alt)
    with step[OF this lt(2), of "be_val bs"] greater Cons.hyps show ?thesis by auto
  qed (use Cons in simp)
qed simp

lemma mk_key_less:
  assumes "length xs = length ys"
  shows "mk_key xs < mk_key ys \<longleftrightarrow> bits_val xs < bits_val ys"
  using assms by (auto simp: less_bit_key_def be_val_order be_val_pack)

text \<open>A key with the bit after a common prefix cleared comes before every one with it set.\<close>

lemma mk_key_branch_less:
  assumes "length r = length r'"
  shows "mk_key (p @ False # r) < mk_key (p @ True # r')"
  using assms bits_val_less[of r] by (simp add: mk_key_less bits_val_append)

end
