(* ===== verification/Labels.thy ===== *)
theory Labels
  imports BitKey
begin

unbundle bit_operations_syntax

text \<open>
  The labels of Patricia edges (\<open>src/tvm/dict/labels.rs\<close>): the three encodings \<open>hml_short\<close>,
  \<open>hml_long\<close> and \<open>hml_same\<close>, the choice of the shortest one, and the decoder.
  \<open>load_label_reads\<close> is the round trip; \<open>load_label_consumes\<close> relates what the decoder
  consumed to the three encodings, which gives the minimality of the chosen one.
\<close>

function label_len_width_loop :: "nat \<Rightarrow> nat \<Rightarrow> nat" where
  "label_len_width_loop width value =
     (if 0 < value then label_len_width_loop (width + 1) (drop_bit 1 value) else width)"
  by pat_completeness auto
termination
  by (relation "measure snd") (auto simp: drop_bit_eq_div)

declare label_len_width_loop.simps [simp del]

definition label_len_width :: "nat \<Rightarrow> nat" where
  "label_len_width max_len = label_len_width_loop 0 max_len"

definition push_uint_bits :: "bool list \<Rightarrow> nat \<Rightarrow> nat \<Rightarrow> bool list result" where
  "push_uint_bits bits value width =
     (if width < 64 \<and> 2 ^ width \<le> value then Inl (DictErr LabelValueDoesNotFit)
      else Inr (foldl (\<lambda>bits shift. bits @ [drop_bit shift value AND 1 \<noteq> 0]) bits (rev [0..<width])))"

definition encode_short_label :: "bool list \<Rightarrow> bool list" where
  "encode_short_label bits = [False] @ replicate (length bits) True @ [False] @ bits"

definition encode_long_label :: "bool list \<Rightarrow> nat \<Rightarrow> bool list result" where
  "encode_long_label bits max_len =
     and_then (push_uint_bits [True, False] (length bits) (label_len_width max_len)) (\<lambda>encoded.
       Inr (encoded @ bits))"

definition encode_same_label :: "bool list \<Rightarrow> nat \<Rightarrow> bool list result" where
  "encode_same_label bits max_len =
     push_uint_bits [True, True, (case bits of [] \<Rightarrow> False | b # _ \<Rightarrow> b)] (length bits) (label_len_width max_len)"

text \<open>\<open>sort_by\<close> on the length first and the bits second, then the first candidate.\<close>

definition canonical_label :: "bool list \<Rightarrow> nat \<Rightarrow> bool list result" where
  "canonical_label bits max_len =
     (if max_len < length bits then Inl (DictErr LabelTooLong)
      else and_then (encode_long_label bits max_len) (\<lambda>long.
        and_then (if list_all Not bits \<or> list_all id bits
                  then and_then (encode_same_label bits max_len) (\<lambda>same. Inr [same])
                  else Inr []) (\<lambda>same.
          Inr (hd (sort_key (\<lambda>c. (length c, c)) ([encode_short_label bits, long] @ same))))))"

definition store_label :: "builder \<Rightarrow> bool list \<Rightarrow> nat \<Rightarrow> builder result" where
  "store_label b bits max_len =
     and_then (canonical_label bits max_len) (\<lambda>encoded. try_fold store_bit b encoded)"

text \<open>The unary length ends at a cleared bit, at the bound, or at the end of the slice.\<close>

function load_unary_loop :: "slice \<Rightarrow> nat \<Rightarrow> nat \<Rightarrow> (nat \<times> slice) result" where
  "load_unary_loop s max_len len =
     and_then (load_bit s) (\<lambda>(b, s).
       if \<not> b then Inr (len, s)
       else if max_len < len + 1 then Inl (DictErr ShortLabelTooLong)
       else load_unary_loop s max_len (len + 1))"
  by pat_completeness auto
termination
  by (relation "measure (\<lambda>(s, m, l). m + 1 - l)") auto

declare load_unary_loop.simps [simp del]

definition load_unary :: "slice \<Rightarrow> nat \<Rightarrow> (nat \<times> slice) result" where
  "load_unary s max_len = load_unary_loop s max_len 0"

fun load_label_len_loop :: "slice \<Rightarrow> nat \<Rightarrow> nat \<Rightarrow> (nat \<times> slice) result" where
  "load_label_len_loop s 0 value = Inr (value, s)"
| "load_label_len_loop s (Suc k) value =
     and_then (load_bit s) (\<lambda>(b, s). load_label_len_loop s k (push_bit 1 value OR (if b then 1 else 0)))"

definition load_label_len :: "slice \<Rightarrow> nat \<Rightarrow> (nat \<times> slice) result" where
  "load_label_len s width = load_label_len_loop s width 0"

fun load_bool_bits :: "slice \<Rightarrow> nat \<Rightarrow> (bool list \<times> slice) result" where
  "load_bool_bits s 0 = Inr ([], s)"
| "load_bool_bits s (Suc k) =
     and_then (load_bit s) (\<lambda>(b, s). and_then (load_bool_bits s k) (\<lambda>(bs, s). Inr (b # bs, s)))"

definition load_label :: "slice \<Rightarrow> nat \<Rightarrow> (bool list \<times> slice) result" where
  "load_label s max_len =
     and_then (load_bit s) (\<lambda>(first, s).
       if \<not> first
       then and_then (load_unary s max_len) (\<lambda>(len, s). load_bool_bits s len)
       else and_then (load_bit s) (\<lambda>(second, s).
         let width = label_len_width max_len in
         if \<not> second
         then and_then (load_label_len s width) (\<lambda>(len, s).
           if max_len < len then Inl (DictErr LongLabelTooLong) else load_bool_bits s len)
         else and_then (load_bit s) (\<lambda>(v, s).
           and_then (load_label_len s width) (\<lambda>(len, s).
             if max_len < len then Inl (DictErr SameLabelTooLong) else Inr (replicate len v, s)))))"

section \<open>Encoders\<close>

lemma label_len_width_eq: "label_len_width n = bit_length n"
proof -
  have "label_len_width_loop w n = w + bit_length n" for w
  proof (induction w n rule: label_len_width_loop.induct)
    case (1 w n)
    then show ?case
      by (subst label_len_width_loop.simps, subst bit_length.simps) (simp add: drop_bit_eq_div)
  qed
  then show ?thesis by (simp add: label_len_width_def)
qed

lemma push_uint_bits_eq:
  "v < 2 ^ w \<Longrightarrow> push_uint_bits bits v w = Inr (bits @ nat_bits w v)"
proof -
  assume "v < 2 ^ w"
  have "foldl (\<lambda>bits i. bits @ [drop_bit i v AND 1 \<noteq> 0]) bits (rev [0..<w]) = bits @ nat_bits w v" for bits
    by (induction w arbitrary: bits) (simp_all add: and_one_eq mod_2_eq_odd drop_bit_eq_div)
  with \<open>v < 2 ^ w\<close> show ?thesis by (simp add: push_uint_bits_def)
qed

text \<open>The three encodings of a label, as bits.\<close>

definition long_bits :: "bool list \<Rightarrow> nat \<Rightarrow> bool list" where
  "long_bits xs n = [True, False] @ nat_bits (bit_length n) (length xs) @ xs"

definition same_bits :: "bool list \<Rightarrow> nat \<Rightarrow> bool list" where
  "same_bits xs n = [True, True, hd (xs @ [False])] @ nat_bits (bit_length n) (length xs)"

lemma length_less_width: "length xs \<le> n \<Longrightarrow> length xs < 2 ^ bit_length n"
  using bit_length_less[of n] by linarith

lemma encode_long_label_eq: "length xs \<le> n \<Longrightarrow> encode_long_label xs n = Inr (long_bits xs n)"
  by (simp add: encode_long_label_def label_len_width_eq push_uint_bits_eq length_less_width long_bits_def)

lemma encode_same_label_eq: "length xs \<le> n \<Longrightarrow> encode_same_label xs n = Inr (same_bits xs n)"
  using length_less_width[of xs n]
  by (cases xs) (simp_all add: encode_same_label_def label_len_width_eq push_uint_bits_eq same_bits_def)

definition label_candidates :: "bool list \<Rightarrow> nat \<Rightarrow> bool list list" where
  "label_candidates xs n = [encode_short_label xs, long_bits xs n]
     @ (if list_all Not xs \<or> list_all id xs then [same_bits xs n] else [])"

lemma hd_sort_key:
  assumes "cs \<noteq> []"
  shows "hd (sort_key f cs) \<in> set cs" "c \<in> set cs \<Longrightarrow> f (hd (sort_key f cs)) \<le> f c"
proof -
  have ne: "sort_key f cs \<noteq> []" using assms by (metis length_0_conv length_sort)
  then show "hd (sort_key f cs) \<in> set cs" by (metis list.set_sel(1) set_sort)
  show "f (hd (sort_key f cs)) \<le> f c" if "c \<in> set cs"
  proof -
    have "sorted (map f (sort_key f cs))" by simp
    moreover have "c \<in> set (sort_key f cs)" using that by simp
    ultimately show ?thesis using ne by (cases "sort_key f cs") auto
  qed
qed

text \<open>The canonical label: the best candidate by length, then by the bits.\<close>

definition label_enc :: "bool list \<Rightarrow> nat \<Rightarrow> bool list" where
  "label_enc xs n = hd (sort_key (\<lambda>c. (length c, c)) (label_candidates xs n))"

lemma canonical_label_eq:
  "canonical_label xs n = (if n < length xs then Inl (DictErr LabelTooLong) else Inr (label_enc xs n))"
  by (simp add: canonical_label_def encode_long_label_eq encode_same_label_eq label_enc_def label_candidates_def)

lemma label_enc_candidate: "label_enc xs n \<in> set (label_candidates xs n)"
  unfolding label_enc_def by (rule hd_sort_key) (simp add: label_candidates_def)

lemma label_enc_shortest: "c \<in> set (label_candidates xs n) \<Longrightarrow> length (label_enc xs n) \<le> length c"
proof -
  assume "c \<in> set (label_candidates xs n)"
  moreover have "label_candidates xs n \<noteq> []" by (simp add: label_candidates_def)
  ultimately have "(length (label_enc xs n), label_enc xs n) \<le> (length c, c)"
    using hd_sort_key(2)[of "label_candidates xs n" c "\<lambda>c. (length c, c)"] by (simp add: label_enc_def)
  then show ?thesis by (auto simp: less_eq_prod_def)
qed

lemma length_label_enc_le: "length (label_enc xs n) \<le> 2 + bit_length n + length xs"
  using label_enc_shortest[of "long_bits xs n" xs n] by (simp add: label_candidates_def long_bits_def)

lemma store_label_mk:
  assumes "length xs \<le> n" "length zs + length (label_enc xs n) \<le> 1023"
  shows "store_label (mk_b zs rs) xs n = Inr (mk_b (zs @ label_enc xs n) rs)"
  using assms by (simp add: store_label_def canonical_label_eq b_sink.put_bit_loop)

section \<open>The decoder\<close>

lemma load_unary_loop_reads:
  "wf_slice s \<Longrightarrow> slice_bits s = replicate k True @ False # ys \<Longrightarrow> len + k \<le> n \<Longrightarrow>
    load_unary_loop s n len = Inr (len + k, adv s (k + 1) 0)"
proof (induction k arbitrary: s len)
  case 0
  then show ?case by (subst load_unary_loop.simps) (simp add: load_bit_eq)
next
  case (Suc k)
  then have "wf_slice (adv s 1 0)" by (intro wf_adv) simp_all
  with Suc show ?case by (subst load_unary_loop.simps) (simp add: load_bit_eq)
qed

lemma load_label_len_loop_reads:
  "wf_slice s \<Longrightarrow> slice_bits s = xs @ ys \<Longrightarrow>
    load_label_len_loop s (length xs) v = Inr (v * 2 ^ length xs + bits_val xs, adv s (length xs) 0)"
proof (induction xs arbitrary: s v)
  case (Cons x xs)
  have "wf_slice (adv s 1 0)" using Cons.prems by (intro wf_adv) simp_all
  moreover have "push_bit 1 v OR (if x then 1 else 0) = 2 * v + of_bool x"
    using or_one_eq[of "v * 2"] by simp
  ultimately show ?case using Cons.IH[of "adv s 1 0" "2 * v + of_bool x"] Cons.prems
    by (simp add: load_bit_eq algebra_simps)
qed simp

lemma load_bool_bits_reads:
  "wf_slice s \<Longrightarrow> slice_bits s = xs @ ys \<Longrightarrow>
    load_bool_bits s (length xs) = Inr (xs, adv s (length xs) 0)"
proof (induction xs arbitrary: s)
  case (Cons x xs)
  have "wf_slice (adv s 1 0)" using Cons.prems by (intro wf_adv) simp_all
  with Cons.IH[of "adv s 1 0"] Cons.prems show ?case by (simp add: load_bit_eq)
qed simp

lemma load_label_len_reads:
  assumes "wf_slice s" "slice_bits s = nat_bits w v @ ys" "v < 2 ^ w"
  shows "load_label_len s w = Inr (v, adv s w 0)"
  using load_label_len_loop_reads[OF assms(1,2), of 0] assms(3) by (simp add: load_label_len_def)

lemma load_label_short:
  assumes "wf_slice s" "slice_bits s = encode_short_label xs @ ys" "length xs \<le> n"
  shows "load_label s n = Inr (xs, adv s (length (encode_short_label xs)) 0)"
proof -
  let ?k = "length xs"
  have sb: "slice_bits s = False # replicate ?k True @ False # xs @ ys"
    using assms(2) by (simp add: encode_short_label_def)
  have w1: "wf_slice (adv s 1 0)" using assms(1) sb by (intro wf_adv) simp_all
  have w2: "wf_slice (adv s (?k + 2) 0)" using assms(1) sb by (intro wf_adv) simp_all
  have "load_unary (adv s 1 0) n = Inr (?k, adv s (?k + 2) 0)"
    using load_unary_loop_reads[OF w1, of ?k "xs @ ys" 0 n] sb assms(3) by (simp add: load_unary_def)
  moreover have "load_bool_bits (adv s (?k + 2) 0) ?k = Inr (xs, adv s (?k + 2 + ?k) 0)"
    using load_bool_bits_reads[OF w2, of xs ys] sb by simp
  ultimately show ?thesis using assms(1) sb
    by (simp add: load_label_def load_bit_eq encode_short_label_def)
qed

lemma load_label_long:
  assumes "wf_slice s" "slice_bits s = long_bits xs n @ ys" "length xs \<le> n"
  shows "load_label s n = Inr (xs, adv s (length (long_bits xs n)) 0)"
proof -
  let ?w = "bit_length n"
  have sb: "slice_bits s = True # False # nat_bits ?w (length xs) @ xs @ ys"
    using assms(2) by (simp add: long_bits_def)
  have w1: "wf_slice (adv s 1 0)" and w2: "wf_slice (adv s 2 0)"
    and w3: "wf_slice (adv s (2 + ?w) 0)"
    using assms(1) sb by (auto intro!: wf_adv)
  have "load_label_len (adv s 2 0) ?w = Inr (length xs, adv s (2 + ?w) 0)"
    using load_label_len_reads[OF w2 _ length_less_width[OF assms(3)]] sb by simp
  moreover have "load_bool_bits (adv s (2 + ?w) 0) (length xs) = Inr (xs, adv s (2 + ?w + length xs) 0)"
    using load_bool_bits_reads[OF w3, of xs ys] sb by simp
  ultimately show ?thesis using assms(1,3) sb w1
    by (simp add: load_label_def load_bit_eq long_bits_def label_len_width_eq numeral_2_eq_2)
qed

lemma load_label_same:
  assumes "wf_slice s" "slice_bits s = same_bits xs n @ ys" "length xs \<le> n"
    "list_all Not xs \<or> list_all id xs"
  shows "load_label s n = Inr (xs, adv s (length (same_bits xs n)) 0)"
proof -
  let ?w = "bit_length n" let ?v = "hd (xs @ [False])"
  have sb: "slice_bits s = True # True # ?v # nat_bits ?w (length xs) @ ys"
    using assms(2) by (simp add: same_bits_def)
  have w: "wf_slice (adv s 1 0)" "wf_slice (adv s 2 0)" "wf_slice (adv s 3 0)"
    using assms(1) sb by (auto intro!: wf_adv)
  have "load_label_len (adv s 3 0) ?w = Inr (length xs, adv s (3 + ?w) 0)"
    using load_label_len_reads[OF w(3) _ length_less_width[OF assms(3)]] sb by simp
  moreover have "replicate (length xs) ?v = xs"
    using assms(4) by (cases xs) (auto simp: list_all_iff intro!: replicate_eqI[symmetric])
  ultimately show ?thesis using assms(1,3) sb w
    by (simp add: load_label_def load_bit_eq same_bits_def label_len_width_eq numeral_2_eq_2 numeral_3_eq_3)
qed

lemma load_label_reads:
  assumes "wf_slice s" "slice_bits s = label_enc xs n @ ys" "length xs \<le> n"
  shows "load_label s n = Inr (xs, adv s (length (label_enc xs n)) 0)"
  using label_enc_candidate[of xs n] assms load_label_short load_label_long load_label_same
  by (auto simp: label_candidates_def split: if_splits)

subsection \<open>What the decoder consumes\<close>

lemma load_bit_Inr:
  "wf_slice s \<Longrightarrow> load_bit s = Inr (v, s') \<Longrightarrow> s' = adv s 1 0 \<and> wf_slice s'"
  by (auto simp: load_bit_eq intro!: wf_adv split: list.splits)

lemma load_unary_loop_Inr:
  "wf_slice s \<Longrightarrow> load_unary_loop s n len = Inr (l, s') \<Longrightarrow> len \<le> n \<Longrightarrow>
    len \<le> l \<and> l \<le> n \<and> s' = adv s (l - len + 1) 0 \<and> wf_slice s'"
proof (induction s n len rule: load_unary_loop.induct)
  case (1 s n len)
  then obtain b s1 where b: "load_bit s = Inr (b, s1)"
    by (auto simp: load_unary_loop.simps[of s] and_then_eq_Inr)
  with 1(2) have s1: "s1 = adv s 1 0" "wf_slice s1" by (auto dest: load_bit_Inr)
  show ?case
  proof (cases b)
    case True
    then have r: "load_unary_loop s1 n (len + 1) = Inr (l, s')" and le: "len + 1 \<le> n"
      using 1(3) b by (auto simp: load_unary_loop.simps[of s] split: if_splits)
    have "len + 1 \<le> l \<and> l \<le> n \<and> s' = adv s1 (l - (len + 1) + 1) 0 \<and> wf_slice s'"
      by (rule 1(1)[OF b refl _ _ s1(2) r le]) (use True le in simp_all)
    moreover from this have "1 + (l - (len + 1) + 1) = l - len + 1" by linarith
    ultimately show ?thesis using s1(1) by auto
  next
    case False
    then show ?thesis using 1(3,4) b s1 by (auto simp: load_unary_loop.simps[of s])
  qed
qed

lemma load_label_len_loop_Inr:
  "wf_slice s \<Longrightarrow> load_label_len_loop s k v = Inr (l, s') \<Longrightarrow> s' = adv s k 0 \<and> wf_slice s'"
  by (induction s k v rule: load_label_len_loop.induct)
     (fastforce simp: and_then_eq_Inr dest: load_bit_Inr)+

lemma load_bool_bits_Inr:
  "wf_slice s \<Longrightarrow> load_bool_bits s k = Inr (bs, s') \<Longrightarrow> length bs = k \<and> s' = adv s k 0 \<and> wf_slice s'"
  by (induction k arbitrary: s bs) (fastforce simp: and_then_eq_Inr dest: load_bit_Inr)+

lemma load_label_Inr:
  assumes "wf_slice s" "load_label s n = Inr (xs, s')"
  shows "\<exists>c \<in> set (label_candidates xs n). s' = adv s (length c) 0 \<and> length xs \<le> n \<and> wf_slice s'"
proof -
  obtain f s1 where f: "load_bit s = Inr (f, s1)" using assms(2) by (auto simp: load_label_def and_then_eq_Inr)
  then have s1: "s1 = adv s 1 0" "wf_slice s1" using load_bit_Inr[OF assms(1)] by auto
  show ?thesis
  proof (cases f)
    case False
    then obtain l s2 where l: "load_unary s1 n = Inr (l, s2)" "load_bool_bits s2 l = Inr (xs, s')"
      using assms(2) f by (auto simp: load_label_def and_then_eq_Inr)
    then have s2: "l \<le> n" "s2 = adv s1 (l + 1) 0" "wf_slice s2"
      using load_unary_loop_Inr[OF s1(2), of n 0 l s2] by (auto simp: load_unary_def)
    then have "length xs = l" "s' = adv s2 l 0" "wf_slice s'" using load_bool_bits_Inr[OF _ l(2)] by auto
    then show ?thesis using s1 s2
      by (intro bexI[of _ "encode_short_label xs"]) (auto simp: encode_short_label_def label_candidates_def)
  next
    case True
    then obtain g s2 where g: "load_bit s1 = Inr (g, s2)"
      using assms(2) f by (auto simp: load_label_def and_then_eq_Inr)
    then have s2: "s2 = adv s 2 0" "wf_slice s2" using load_bit_Inr[OF s1(2)] s1(1) by (auto simp: numeral_2_eq_2)
    show ?thesis
    proof (cases g)
      case False
      then obtain l s3 where l: "load_label_len s2 (bit_length n) = Inr (l, s3)" "l \<le> n"
          "load_bool_bits s3 l = Inr (xs, s')"
        using assms(2) f g True
        by (auto simp: load_label_def label_len_width_eq and_then_eq_Inr split: if_splits)
      then have s3: "s3 = adv s2 (bit_length n) 0" "wf_slice s3"
        using load_label_len_loop_Inr[OF s2(2)] by (auto simp: load_label_len_def)
      then have "length xs = l" "s' = adv s3 l 0" "wf_slice s'" using load_bool_bits_Inr[OF _ l(3)] by auto
      then show ?thesis using s2 s3 l
        by (intro bexI[of _ "long_bits xs n"]) (auto simp: long_bits_def label_candidates_def)
    next
      case g': True
      then obtain v s3 where v: "load_bit s2 = Inr (v, s3)"
        using assms(2) f g True by (auto simp: load_label_def and_then_eq_Inr Let_def)
      then have s3: "s3 = adv s2 1 0" "wf_slice s3" using load_bit_Inr[OF s2(2)] by auto
      obtain l where l: "load_label_len s3 (bit_length n) = Inr (l, s')" "l \<le> n" "xs = replicate l v"
        using assms(2) f g g' True v
        by (auto simp: load_label_def label_len_width_eq and_then_eq_Inr split: if_splits)
      then have "s' = adv s3 (bit_length n) 0" "wf_slice s'"
        using load_label_len_loop_Inr[OF s3(2)] by (auto simp: load_label_len_def)
      moreover have "list_all Not xs \<or> list_all id xs" using l(3) by (cases v) (auto simp: list_all_iff)
      ultimately show ?thesis using s2 s3 l
        by (intro bexI[of _ "same_bits xs n"]) (auto simp: same_bits_def label_candidates_def numeral_3_eq_3)
    qed
  qed
qed

section \<open>Properties\<close>

text \<open>
  A stored label is read back: \<open>load_label\<close> on the cell that \<open>store_label\<close> wrote returns the
  label and stands right after it.
\<close>

theorem label_roundtrip:
  assumes "length xs \<le> n" "length xs + bit_length n \<le> 1021"
  shows "\<exists>c k. and_then (store_label builder_new xs n) builder_build = Inr c
    \<and> load_label (slice_new c) n = Inr (xs, adv (slice_new c) k 0) \<and> k = length (cell_bits c)"
proof -
  have fits: "length (label_enc xs n) \<le> 1023" using length_label_enc_le[of xs n] assms(2) by simp
  then have "and_then (store_label builder_new xs n) builder_build = Inr (mk_cell (label_enc xs n) [])"
    using store_label_mk[OF assms(1), of "[]" "[]"] by (simp add: builder_new_eq builder_build_mk)
  moreover have "load_label (slice_new (mk_cell (label_enc xs n) [])) n
      = Inr (xs, adv (slice_new (mk_cell (label_enc xs n) [])) (length (label_enc xs n)) 0)"
    using fits assms(1) by (intro load_label_reads) (simp_all add: wf_mk_cell)
  ultimately show ?thesis by simp
qed

theorem label_roundtrip_witness:
  "\<exists>c k. and_then (store_label builder_new [True, True, False] 8) builder_build = Inr c
    \<and> load_label (slice_new c) 8 = Inr ([True, True, False], adv (slice_new c) k 0) \<and> k = length (cell_bits c)"
  by (rule label_roundtrip) (simp_all add: bit_length.simps)

text \<open>
  the canonical label is the shortest one: no encoding that \<open>load_label\<close> decodes to the same
  bits consumes fewer bits than the label \<open>canonical_label\<close> chooses.
\<close>

theorem canonical_label_minimal:
  assumes "wf_slice s" "load_label s n = Inr (xs, s')"
  shows "\<exists>e. canonical_label xs n = Inr e \<and> length e \<le> bit_pos s' - bit_pos s"
proof -
  obtain c where "c \<in> set (label_candidates xs n)" "s' = adv s (length c) 0" "length xs \<le> n"
    using load_label_Inr[OF assms] by blast
  then show ?thesis using label_enc_shortest[of c xs n] by (simp add: canonical_label_eq adv_def)
qed

theorem canonical_label_minimal_witness:
  "\<exists>e. canonical_label [True] 3 = Inr e \<and> length e \<le> 5"
proof -
  have w: "bit_length 3 = 2" by (simp add: bit_length.simps)
  let ?s = "slice_new (mk_cell (long_bits [True] 3) [])"
  have wf: "wf_slice ?s" by (simp add: wf_mk_cell long_bits_def w)
  have "load_label ?s 3 = Inr ([True], adv ?s (length (long_bits [True] 3)) 0)"
    by (rule load_label_long[OF wf, of _ _ "[]"]) simp_all
  from canonical_label_minimal[OF wf this] show ?thesis
    by (simp add: long_bits_def w adv_def)
qed

end
