(* ===== verification/Hashmap.thy ===== *)
theory Hashmap
  imports Labels
begin

unbundle bit_operations_syntax

text \<open>
  \<open>HashmapE n X\<close> dictionaries (\<open>src/tvm/dict/hashmap.rs\<close>, \<open>src/tvm/dict/labels.rs\<close>) and the
  \<open>Dict\<close> wrapper.  A dictionary is a \<open>BTreeMap\<close> from keys to values; it is written as a
  Patricia tree of cells and read back from one.  The value encoder and decoder are
  arguments, as in the source; \<open>dict_codec\<close> is what the round trip needs of them.

  \<open>parse_edge\<close> restores its \<open>prefix\<close> buffer before every successful return, so the buffer is
  an argument here; its slice is returned.
\<close>

record 'v hashmap_e =
  he_key_bits :: nat
  he_map :: "(bit_key, 'v) btree_map"

definition hashmap_e_new :: "nat \<Rightarrow> 'v hashmap_e" where
  "hashmap_e_new key_bits = \<lparr>he_key_bits = key_bits, he_map = []\<rparr>"

definition insert_bit_key :: "'v hashmap_e \<Rightarrow> bit_key \<Rightarrow> 'v \<Rightarrow> ('v option \<times> 'v hashmap_e) result" where
  "insert_bit_key d key v =
     (if bk_bit_len key \<noteq> he_key_bits d then Inl (DictErr DictKeyLength)
      else Inr (btree_get key (he_map d), d\<lparr>he_map := btree_insert key v (he_map d)\<rparr>))"

definition get_bit_key :: "'v hashmap_e \<Rightarrow> bit_key \<Rightarrow> 'v option result" where
  "get_bit_key d key =
     (if bk_bit_len key \<noteq> he_key_bits d then Inl (DictErr DictKeyLength)
      else Inr (btree_get key (he_map d)))"

definition remove_bit_key :: "'v hashmap_e \<Rightarrow> bit_key \<Rightarrow> ('v option \<times> 'v hashmap_e) result" where
  "remove_bit_key d key =
     (if bk_bit_len key \<noteq> he_key_bits d then Inl (DictErr DictKeyLength)
      else Inr (btree_get key (he_map d), d\<lparr>he_map := btree_remove key (he_map d)\<rparr>))"

definition hashmap_e_len :: "'v hashmap_e \<Rightarrow> nat" where
  "hashmap_e_len d = length (he_map d)"

definition hashmap_e_is_empty :: "'v hashmap_e \<Rightarrow> bool" where
  "hashmap_e_is_empty d \<longleftrightarrow> he_map d = []"

section \<open>Writing the tree\<close>

text \<open>The inner \<open>for\<close> loop of \<open>common_prefix_len\<close>: \<open>False\<close> is its \<open>break 'outer\<close>.\<close>

fun keys_share_bit :: "bit_key list \<Rightarrow> nat \<Rightarrow> bool \<Rightarrow> bool result" where
  "keys_share_bit [] index b = Inr True"
| "keys_share_bit (k # ks) index b =
     and_then (key_bit k index) (\<lambda>b'. if b' \<noteq> b then Inr False else keys_share_bit ks index b)"

function prefix_len_loop :: "bit_key list \<Rightarrow> nat \<Rightarrow> nat \<Rightarrow> nat \<Rightarrow> nat result" where
  "prefix_len_loop keys depth max_len len =
     (if len < max_len
      then and_then (key_bit (hd keys) (depth + len)) (\<lambda>b.
           and_then (keys_share_bit (tl keys) (depth + len) b) (\<lambda>same.
             if same then prefix_len_loop keys depth max_len (len + 1) else Inr len))
      else Inr len)"
  by pat_completeness auto
termination
  by (relation "measure (\<lambda>(_, _, m, l). m - l)") auto

declare prefix_len_loop.simps [simp del]

definition common_prefix_len :: "(bit_key \<times> 'v) list \<Rightarrow> nat \<Rightarrow> nat \<Rightarrow> nat result" where
  "common_prefix_len entries depth max_len = prefix_len_loop (map fst entries) depth max_len 0"

text \<open>\<open>key.bit(index).unwrap_or(false)\<close>, and the position of the first key with the bit set.\<close>

definition bit_or_false :: "bit_key \<Rightarrow> nat \<Rightarrow> bool" where
  "bit_or_false k index = (case key_bit k index of Inr b \<Rightarrow> b | Inl _ \<Rightarrow> False)"

definition split_position :: "bit_key list \<Rightarrow> nat \<Rightarrow> nat" where
  "split_position keys index = length (takeWhile (\<lambda>k. \<not> bit_or_false k index) keys)"

function build_edge ::
    "(builder \<Rightarrow> 'v \<Rightarrow> builder result) \<Rightarrow> (bit_key \<times> 'v) list \<Rightarrow> nat \<Rightarrow> nat \<Rightarrow> cell result" where
  "build_edge store_value entries depth remaining =
     (if entries = [] then Inl (DictErr EmptyEdge)
      else and_then (common_prefix_len entries depth remaining) (\<lambda>label_len.
        and_then (collect_key_bits (fst (hd entries)) depth label_len) (\<lambda>label_bits.
        let node_remaining = remaining - label_len in
        and_then (store_label builder_new label_bits remaining) (\<lambda>b.
        if node_remaining = 0
        then (if length entries \<noteq> 1 then Inl (DictErr DuplicateKey)
              else and_then (store_value b (snd (hd entries))) builder_build)
        else let split_depth = depth + label_len;
                 split = split_position (map fst entries) split_depth in
          if split = 0 \<or> split = length entries then Inl (DictErr ForkWithoutBranches)
          else and_then (build_edge store_value (take split entries) (split_depth + 1) (node_remaining - 1)) (\<lambda>left.
            and_then (build_edge store_value (drop split entries) (split_depth + 1) (node_remaining - 1)) (\<lambda>right.
            and_then (store_ref b left) (\<lambda>b. and_then (store_ref b right) builder_build)))))))"
  by pat_completeness auto
termination
  by (relation "measure (\<lambda>(_, _, _, r). r)") auto

declare build_edge.simps [simp del]

definition serialize_hashmap_root ::
    "'v hashmap_e \<Rightarrow> (builder \<Rightarrow> 'v \<Rightarrow> builder result) \<Rightarrow> cell option result" where
  "serialize_hashmap_root d store_value =
     (if hashmap_e_is_empty d then Inr None
      else and_then (build_edge store_value (he_map d) 0 (he_key_bits d)) (\<lambda>c. Inr (Some c)))"

definition store_hashmap_e_with ::
    "builder \<Rightarrow> 'v hashmap_e \<Rightarrow> (builder \<Rightarrow> 'v \<Rightarrow> builder result) \<Rightarrow> builder result" where
  "store_hashmap_e_with b d store_value =
     and_then (serialize_hashmap_root d store_value) (\<lambda>root. case root of
         Some c \<Rightarrow> and_then (store_bit b True) (\<lambda>b. store_ref b c)
       | None \<Rightarrow> store_bit b False)"

section \<open>Reading the tree\<close>

function parse_edge ::
    "(slice \<Rightarrow> ('v \<times> slice) result) \<Rightarrow> slice \<Rightarrow> nat \<Rightarrow> bool list \<Rightarrow> 'v hashmap_e
      \<Rightarrow> ('v hashmap_e \<times> slice) result" where
  "parse_edge load_value s remaining prefix d =
     and_then (load_label s remaining) (\<lambda>(label, s).
       let prefix = prefix @ label; node_remaining = remaining - length label in
       if node_remaining = 0
       then and_then (bit_vec_to_key prefix (he_key_bits d)) (\<lambda>key.
         and_then (load_value s) (\<lambda>(v, s).
         and_then (insert_bit_key d key v) (\<lambda>(old, d).
         case old of Some _ \<Rightarrow> Inl (DictErr DuplicateKey) | None \<Rightarrow> Inr (d, s))))
       else and_then (load_reference s) (\<lambda>(left, s).
         and_then (load_reference s) (\<lambda>(right, s).
         and_then (parse_edge load_value (slice_new left) (node_remaining - 1) (prefix @ [False]) d) (\<lambda>(d, _).
         and_then (parse_edge load_value (slice_new right) (node_remaining - 1) (prefix @ [True]) d) (\<lambda>(d, _).
         Inr (d, s))))))"
  by pat_completeness auto
termination
  by (relation "measure (\<lambda>(_, _, r, _, _). r)") auto

declare parse_edge.simps [simp del]

definition deserialize_hashmap_root ::
    "cell \<Rightarrow> nat \<Rightarrow> (slice \<Rightarrow> ('v \<times> slice) result) \<Rightarrow> 'v hashmap_e result" where
  "deserialize_hashmap_root c key_bits load_value =
     and_then (parse_edge load_value (slice_new c) key_bits [] (hashmap_e_new key_bits)) (\<lambda>(d, _). Inr d)"

definition load_hashmap_e_with ::
    "slice \<Rightarrow> nat \<Rightarrow> (slice \<Rightarrow> ('v \<times> slice) result) \<Rightarrow> ('v hashmap_e \<times> slice) result" where
  "load_hashmap_e_with s key_bits load_value =
     and_then (load_bit s) (\<lambda>(has_root, s).
       if \<not> has_root then Inr (hashmap_e_new key_bits, s)
       else and_then (load_reference s) (\<lambda>(root, s).
         and_then (deserialize_hashmap_root root key_bits load_value) (\<lambda>d. Inr (d, s))))"

section \<open>The compatibility wrapper\<close>

datatype dict_key = KeyInt u64 | KeyBits bytes nat | KeyAddress address

datatype dict_value =
    ValCell cell
  | ValSlice slice
  | ValUint u64 nat
  | ValInt i64 nat
  | ValCoins u128
  | ValAddress address

record dict =
  dict_inner :: "dict_value hashmap_e"
  dict_int_keys :: "(u64, bit_key) btree_map"

definition dict_new :: "nat \<Rightarrow> dict" where
  "dict_new key_size = \<lparr>dict_inner = hashmap_e_new key_size, dict_int_keys = []\<rparr>"

definition dict_key_size :: "dict \<Rightarrow> nat" where
  "dict_key_size d = he_key_bits (dict_inner d)"

definition set_int_key :: "dict \<Rightarrow> u64 \<Rightarrow> dict_value \<Rightarrow> dict result" where
  "set_int_key d key v =
     and_then (bit_key_from_u64 key (dict_key_size d)) (\<lambda>bit_key.
     and_then (insert_bit_key (dict_inner d) bit_key v) (\<lambda>(_, inner).
     Inr (d\<lparr>dict_inner := inner, dict_int_keys := btree_insert key bit_key (dict_int_keys d)\<rparr>)))"

definition dict_key_to_bit_key :: "crates \<Rightarrow> dict \<Rightarrow> dict_key \<Rightarrow> bit_key result" where
  "dict_key_to_bit_key X d key = (case key of
      KeyInt k \<Rightarrow> bit_key_from_u64 k (dict_key_size d)
    | KeyBits data bit_len \<Rightarrow>
        if bit_len \<noteq> dict_key_size d then Inl (DictErr DictBitsKeySize)
        else bit_key_from_bits data bit_len
    | KeyAddress a \<Rightarrow>
        if dict_key_size d \<noteq> 267 then Inl (DictErr DictAddressKeySize)
        else bit_key_from_address X a)"

definition dict_set :: "crates \<Rightarrow> dict \<Rightarrow> dict_key \<Rightarrow> dict_value \<Rightarrow> dict result" where
  "dict_set X d key v =
     and_then (dict_key_to_bit_key X d key) (\<lambda>bit_key.
       let d = (case key of
           KeyInt k \<Rightarrow> d\<lparr>dict_int_keys := btree_insert k bit_key (dict_int_keys d)\<rparr>
         | _ \<Rightarrow> d)
       in and_then (insert_bit_key (dict_inner d) bit_key v) (\<lambda>(_, inner).
            Inr (d\<lparr>dict_inner := inner\<rparr>)))"

definition get_int_key :: "dict \<Rightarrow> u64 \<Rightarrow> dict_value option" where
  "get_int_key d key = (case btree_get key (dict_int_keys d) of
      None \<Rightarrow> None
    | Some bit_key \<Rightarrow> btree_get bit_key (he_map (dict_inner d)))"

definition dict_get :: "crates \<Rightarrow> dict \<Rightarrow> dict_key \<Rightarrow> dict_value option result" where
  "dict_get X d key =
     and_then (dict_key_to_bit_key X d key) (\<lambda>bit_key. Inr (btree_get bit_key (he_map (dict_inner d))))"

definition dict_iter :: "dict \<Rightarrow> (u64 \<times> dict_value) list" where
  "dict_iter d = List.map_filter (\<lambda>(int_key, bit_key).
     map_option (Pair int_key) (btree_get bit_key (he_map (dict_inner d)))) (dict_int_keys d)"

definition store_dict_value :: "crates \<Rightarrow> builder \<Rightarrow> dict_value \<Rightarrow> builder result" where
  "store_dict_value X b v = (case v of
      ValCell c \<Rightarrow> store_ref b c
    | ValSlice s \<Rightarrow> store_slice b s
    | ValUint value bits \<Rightarrow> store_big_uint X b (unat value) bits
    | ValInt value bits \<Rightarrow> store_int X b value bits
    | ValCoins value \<Rightarrow> store_coins X b value
    | ValAddress a \<Rightarrow> store_address X b (Some a))"

definition dict_serialize :: "crates \<Rightarrow> dict \<Rightarrow> cell option result" where
  "dict_serialize X d = serialize_hashmap_root (dict_inner d) (store_dict_value X)"

definition dict_deserialize :: "cell \<Rightarrow> nat \<Rightarrow> dict result" where
  "dict_deserialize c key_size =
     and_then (deserialize_hashmap_root c key_size (\<lambda>s. Inr (ValSlice (clone_from_current s), s))) (\<lambda>inner.
       Inr \<lparr>dict_inner = inner, dict_int_keys = []\<rparr>)"

definition store_dictionary :: "crates \<Rightarrow> builder \<Rightarrow> dict option \<Rightarrow> builder result" where
  "store_dictionary X b d = (case d of
      Some d \<Rightarrow> store_hashmap_e_with b (dict_inner d) (store_dict_value X)
    | None \<Rightarrow> store_bit b False)"

definition load_dict :: "slice \<Rightarrow> nat \<Rightarrow> (dict option \<times> slice) result" where
  "load_dict s key_size =
     and_then (load_bit s) (\<lambda>(has_root, s).
       if \<not> has_root then Inr (None, s)
       else and_then (load_reference s) (\<lambda>(root, s).
         and_then (dict_deserialize root key_size) (\<lambda>d. Inr (Some d, s))))"

section \<open>Invariant\<close>

text \<open>Keys are canonical, of the dictionary's width, and in ascending order.\<close>

definition wf_hashmap :: "'v hashmap_e \<Rightarrow> bool" where
  "wf_hashmap d \<longleftrightarrow> btree_ordered (he_map d)
     \<and> fst ` set (he_map d) \<subseteq> {k. wf_key k \<and> bk_bit_len k = he_key_bits d}"

lemma wf_hashmap_new: "wf_hashmap (hashmap_e_new n)"
  by (simp add: wf_hashmap_def hashmap_e_new_def)

lemma wf_insert_bit_key:
  assumes "wf_hashmap d" "wf_key k" "insert_bit_key d k v = Inr (old, d')"
  shows "wf_hashmap d'"
proof -
  have "d' = d\<lparr>he_map := btree_insert k v (he_map d)\<rparr>" "bk_bit_len k = he_key_bits d"
    using assms(3) by (simp_all add: insert_bit_key_def split: if_splits)
  with assms(1,2) show ?thesis
    by (simp add: wf_hashmap_def fst_set_btree_insert btree_ordered_insert)
qed

lemma wf_remove_bit_key:
  assumes "wf_hashmap d" "remove_bit_key d k = Inr (old, d')"
  shows "wf_hashmap d'"
proof -
  have "d' = d\<lparr>he_map := btree_remove k (he_map d)\<rparr>"
    using assms(2) by (simp add: remove_bit_key_def split: if_splits)
  moreover have "fst ` set (btree_remove k (he_map d)) \<subseteq> fst ` set (he_map d)"
    unfolding btree_remove_def by (intro image_mono) auto
  ultimately show ?thesis using assms(1)
    by (simp add: wf_hashmap_def btree_ordered_remove) (blast dest: subset_trans)
qed

section \<open>The round trip\<close>

text \<open>
  \<open>dict_codec\<close> is what the tree needs of the value encoder and decoder: the encoder appends,
  and the decoder, on a slice that holds exactly the encoding, succeeds with a value related
  to the stored one.  Every \<open>value_codec\<close> is one with equality for the relation.
\<close>

locale dict_codec =
  fixes store :: "builder \<Rightarrow> 'v \<Rightarrow> builder result"
    and load :: "slice \<Rightarrow> ('w \<times> slice) result"
    and good :: "'v \<Rightarrow> bool"
    and encb :: "'v \<Rightarrow> bool list"
    and encr :: "'v \<Rightarrow> cell list"
    and rel :: "'v \<Rightarrow> 'w \<Rightarrow> bool"
  assumes store_ok: "good x \<Longrightarrow> length xs + length (encb x) \<le> 1023 \<Longrightarrow> length (encr x) \<le> 4 \<Longrightarrow>
      store (mk_b xs []) x = Inr (mk_b (xs @ encb x) (encr x))"
    and load_ok: "good x \<Longrightarrow> wf_slice s \<Longrightarrow> slice_bits s = encb x \<Longrightarrow> slice_refs s = encr x \<Longrightarrow>
      \<exists>y s'. load s = Inr (y, s') \<and> rel x y"

sublocale value_codec \<subseteq> dict_codec store load good encb encr "(=)"
proof unfold_locales
  show "good x \<Longrightarrow> length xs + length (encb x) \<le> 1023 \<Longrightarrow> length (encr x) \<le> 4 \<Longrightarrow>
      store (mk_b xs []) x = Inr (mk_b (xs @ encb x) (encr x))" for x xs
    using store_appends[of x xs "[]"] by simp
  show "good x \<Longrightarrow> wf_slice s \<Longrightarrow> slice_bits s = encb x \<Longrightarrow> slice_refs s = encr x \<Longrightarrow>
      \<exists>y s'. load s = Inr (y, s') \<and> x = y" for x s
    using load_reads[of x s "[]" "[]"] by auto
qed

text \<open>The entries below a prefix: \<open>ks\<close> are the rests of the keys.\<close>

definition entries_at :: "bool list \<Rightarrow> (bool list \<times> 'v) list \<Rightarrow> (bit_key \<times> 'v) list" where
  "entries_at p es = map (\<lambda>(k, v). (mk_key (p @ k), v)) es"

definition ascending :: "nat \<Rightarrow> (bool list \<times> 'v) list \<Rightarrow> bool" where
  "ascending n es \<longleftrightarrow> (\<forall>k \<in> fst ` set es. length k = n)
     \<and> sorted_wrt (\<lambda>k k'. bits_val k < bits_val k') (map fst es)"

lemma keys_share_bit_eq:
  "\<forall>k \<in> set ks. i < length k \<Longrightarrow>
    keys_share_bit (map mk_key ks) i b = Inr (\<forall>k \<in> set ks. k ! i = b)"
  by (induction ks) (auto simp: key_bit_mk)

lemma prefix_len_loop_eq:
  assumes "ks \<noteq> []" "\<forall>k \<in> set ks. length k = n" "\<forall>k \<in> set ks. take len k = take len (hd ks)" "len \<le> n"
  shows "\<exists>L. prefix_len_loop (map (\<lambda>k. mk_key (p @ k)) ks) (length p) n len = Inr L \<and> L \<le> n
    \<and> (\<forall>k \<in> set ks. take L k = take L (hd ks)) \<and> (L < n \<longrightarrow> (\<exists>k \<in> set ks. k ! L \<noteq> hd ks ! L))"
  using assms
proof (induction "n - len" arbitrary: len)
  case 0
  then show ?case by (intro exI[of _ len]) (subst prefix_len_loop.simps, simp)
next
  case (Suc m)
  let ?ks = "map (\<lambda>k. mk_key (p @ k)) ks"
  have lt: "len < n" using Suc.hyps(2) by simp
  obtain k ks' where ks: "ks = k # ks'" using Suc.prems(1) by (cases ks) auto
  have all: "keys_share_bit (map mk_key (map ((@) p) ks')) (length p + len) (k ! len)
      = Inr (\<forall>k' \<in> set ks'. k' ! len = k ! len)"
    using Suc.prems(2) lt ks by (subst keys_share_bit_eq) auto
  then have step: "prefix_len_loop ?ks (length p) n len =
      (if \<forall>k' \<in> set ks'. k' ! len = k ! len then prefix_len_loop ?ks (length p) n (len + 1) else Inr len)"
    using lt ks Suc.prems(2) by (simp add: prefix_len_loop.simps[of _ _ n len] key_bit_mk comp_def)
  show ?case
  proof (cases "\<forall>k' \<in> set ks'. k' ! len = k ! len")
    case True
    have "\<forall>k' \<in> set ks. take (len + 1) k' = take (len + 1) (hd ks)"
    proof
      fix k' assume k': "k' \<in> set ks"
      then have "take len k' = take len k" "length k' = n" "length k = n"
        using Suc.prems(2,3) ks by (metis list.sel(1) list.set_intros(1))+
      moreover have "k' ! len = k ! len" using k' ks True by auto
      ultimately show "take (len + 1) k' = take (len + 1) (hd ks)"
        using lt ks by (simp add: take_Suc_conv_app_nth)
    qed
    note IH = Suc.hyps(1)[OF _ Suc.prems(1,2) this]
    show ?thesis unfolding step if_P[OF True]
      by (rule IH) (use Suc.hyps(2) lt in linarith)+
  next
    case False
    then have "prefix_len_loop ?ks (length p) n len = Inr len" by (simp only: step if_not_P not_False_eq_True)
    moreover have "\<exists>k' \<in> set ks. k' ! len \<noteq> hd ks ! len" using False ks by auto
    ultimately show ?thesis using Suc.prems(3,4) by blast
  qed
qed

lemma dropWhile_sorted:
  assumes "sorted_wrt lt xs" "\<forall>x \<in> set xs. \<forall>y \<in> set xs. lt x y \<longrightarrow> P x \<longrightarrow> P y"
    and "z \<in> set (dropWhile (\<lambda>x. \<not> P x) xs)"
  shows "P z"
proof -
  obtain y ys where d: "dropWhile (\<lambda>x. \<not> P x) xs = y # ys"
    using assms(3) by (cases "dropWhile (\<lambda>x. \<not> P x) xs") auto
  have y: "P y" using d dropWhile_eq_Cons_conv[of "\<lambda>x. \<not> P x" xs y ys] by auto
  have xs: "xs = takeWhile (\<lambda>x. \<not> P x) xs @ y # ys" using d by (metis takeWhile_dropWhile_id)
  then have "sorted_wrt lt (y # ys)" "y \<in> set xs" "set ys \<subseteq> set xs"
    using assms(1) by (metis sorted_wrt_append, metis in_set_conv_decomp, metis set_append set_subset_Cons sup.coboundedI2)
  then show "P z" using y assms(2,3) d by (metis set_ConsD sorted_wrt.simps(2) subsetD)
qed

lemma bits_val_prefix_less:
  "length r = length r' \<Longrightarrow> bits_val (q @ r) < bits_val (q @ r') \<longleftrightarrow> bits_val r < bits_val r'"
  by (simp add: bits_val_append)

text \<open>Entries whose keys share their first bits \<open>lab @ [b]\<close>, and the entries of the rests.\<close>

definition prepend :: "bool list \<Rightarrow> (bool list \<times> 'v) list \<Rightarrow> (bool list \<times> 'v) list" where
  "prepend q es = map (\<lambda>(k, v). (q @ k, v)) es"

lemma prepend_entries: "entries_at p (prepend q es) = entries_at (p @ q) es"
  by (simp add: entries_at_def prepend_def split_def)

lemma ascending_strip:
  assumes "ascending n es" "\<forall>k \<in> fst ` set es. take (length q) k = q" "length q \<le> n"
  shows "\<exists>fs. es = prepend q fs \<and> ascending (n - length q) fs"
proof (intro exI conjI)
  let ?fs = "map (\<lambda>(k, v). (drop (length q) k, v)) es"
  have k: "q @ drop (length q) k = k" if "(k, v) \<in> set es" for k v
  proof -
    have "take (length q) k = q" using assms(2) that by force
    then show ?thesis by (metis append_take_drop_id)
  qed
  then show es: "es = prepend q ?fs"
    unfolding prepend_def map_map by (intro map_idI[symmetric]) auto
  have len: "\<forall>k \<in> fst ` set ?fs. length k = n - length q" using assms(1) by (auto simp: ascending_def)
  have "sorted_wrt (\<lambda>k k'. bits_val k < bits_val k') (map fst (prepend q ?fs))"
    using assms(1) es by (simp add: ascending_def)
  then have "sorted_wrt (\<lambda>k k'. bits_val (q @ k) < bits_val (q @ k')) (map fst ?fs)"
    by (simp add: prepend_def sorted_wrt_map split_def comp_def)
  moreover have "sorted_wrt (\<lambda>k k'. bits_val k < bits_val k') (map fst ?fs)"
  proof (rule sorted_wrt_mono_rel[OF _ calculation])
    fix x y assume "x \<in> set (map fst ?fs)" "y \<in> set (map fst ?fs)" "bits_val (q @ x) < bits_val (q @ y)"
    moreover from this(1,2) have "length x = n - length q" "length y = n - length q"
      using len unfolding set_map by blast+
    ultimately show "bits_val x < bits_val y" by (simp add: bits_val_prefix_less)
  qed
  ultimately show "ascending (n - length q) ?fs" using len unfolding ascending_def by blast
qed

lemma ascending_subset:
  assumes "ascending n (es @ es')"
  shows "ascending n es" "ascending n es'"
  using assms by (auto simp: ascending_def sorted_wrt_append)

lemma ascending_split:
  assumes "ascending n es" "L < n" "\<forall>k \<in> fst ` set es. take L k = lab"
    and "\<exists>k \<in> fst ` set es. \<exists>k' \<in> fst ` set es. k ! L \<noteq> k' ! L"
  obtains fs gs where "es = prepend (lab @ [False]) fs @ prepend (lab @ [True]) gs"
    "fs \<noteq> []" "gs \<noteq> []" "ascending (n - L - 1) fs" "ascending (n - L - 1) gs" "length lab = L"
proof -
  let ?P = "\<lambda>e. fst e ! L"
  let ?as = "takeWhile (\<lambda>e. \<not> ?P e) es" and ?bs = "dropWhile (\<lambda>e. \<not> ?P e) es"
  have len: "\<forall>k \<in> fst ` set es. length k = n" using assms(1) by (simp add: ascending_def)
  have lab: "length lab = L" using assms(2,3,4) len by fastforce
  have k: "take (Suc L) k = lab @ [k ! L]" if "k \<in> fst ` set es" for k
    using assms(2) bspec[OF assms(3) that] bspec[OF len that] by (simp add: take_Suc_conv_app_nth)
  have mono: "\<forall>x \<in> set es. \<forall>y \<in> set es. bits_val (fst x) < bits_val (fst y) \<longrightarrow> ?P x \<longrightarrow> ?P y"
  proof (intro ballI impI, rule ccontr)
    fix x y assume xy: "x \<in> set es" "y \<in> set es" "bits_val (fst x) < bits_val (fst y)" "?P x" "\<not> ?P y"
    then have kx: "fst x = lab @ True # drop (Suc L) (fst x)" and ky: "fst y = lab @ False # drop (Suc L) (fst y)"
      using k[of "fst x"] k[of "fst y"] append_take_drop_id[of "Suc L" "fst x"] append_take_drop_id[of "Suc L" "fst y"]
      by auto
    have "length (drop (Suc L) (fst x)) = length (drop (Suc L) (fst y))" using xy len by simp
    then have "bits_val (fst y) < bits_val (fst x)"
      using bits_val_less[of "drop (Suc L) (fst y)"]
      by (subst kx, subst ky) (simp add: bits_val_append)
    with xy(3) show False by simp
  qed
  have sorted: "sorted_wrt (\<lambda>x y. bits_val (fst x) < bits_val (fst y)) es"
    using assms(1) by (simp add: ascending_def sorted_wrt_map)
  have bs: "\<forall>e \<in> set ?bs. ?P e" using dropWhile_sorted[OF sorted mono] by blast
  have as: "\<forall>e \<in> set ?as. \<not> ?P e" by (auto dest: set_takeWhileD)
  have es: "es = ?as @ ?bs" by simp
  have asc: "ascending n ?as" "ascending n ?bs" using ascending_subset[of n ?as ?bs] assms(1) by simp_all
  have sub: "set ?as \<subseteq> set es" "set ?bs \<subseteq> set es" by (auto dest: set_takeWhileD set_dropWhileD)
  have "take (length (lab @ [False])) k = lab @ [False]" if "k \<in> fst ` set ?as" for k
  proof -
    have "\<not> k ! L" "k \<in> fst ` set es" using that as sub(1) by blast+
    then show ?thesis using k[of k] lab by simp
  qed
  then obtain fs where fs: "?as = prepend (lab @ [False]) fs" "ascending (n - Suc L) fs"
    using ascending_strip[OF asc(1), of "lab @ [False]"] assms(2) lab by auto
  have "take (length (lab @ [True])) k = lab @ [True]" if "k \<in> fst ` set ?bs" for k
  proof -
    have "k ! L" "k \<in> fst ` set es" using that bs sub(2) by blast+
    then show ?thesis using k[of k] lab by simp
  qed
  then obtain gs where gs: "?bs = prepend (lab @ [True]) gs" "ascending (n - Suc L) gs"
    using ascending_strip[OF asc(2), of "lab @ [True]"] assms(2) lab by auto
  have "?as \<noteq> []" "?bs \<noteq> []"
    using assms(4) as bs es by (metis append_Nil append_Nil2 imageE)+
  then have "fs \<noteq> []" "gs \<noteq> []" using fs(1) gs(1) by (auto simp: prepend_def)
  then show thesis using that[of fs gs] fs gs es lab by simp
qed

lemma bit_length_mono: "m \<le> n \<Longrightarrow> bit_length m \<le> bit_length n"
  using bit_length_less[of n] by (simp add: bit_length_le_iff)

lemma below_union:
  fixes A :: "'a :: order set"
  assumes "\<And>k k'. k \<in> F \<Longrightarrow> k' \<in> G \<Longrightarrow> k < k'" "D \<subseteq> A \<union> F" "E = F \<union> G" "\<forall>k \<in> A. \<forall>k' \<in> E. k < k'"
  shows "\<forall>k \<in> D. \<forall>k' \<in> G. k < k'"
  using assms by blast

text \<open>An ordered map with canonical keys of one width, as entries with ascending keys.\<close>

lemma ordered_entries:
  assumes "btree_ordered m" "fst ` set m \<subseteq> {k. wf_key k \<and> bk_bit_len k = n}"
  shows "entries_at [] (map (\<lambda>(k, v). (key_bits_of k, v)) m) = m"
    "ascending n (map (\<lambda>(k, v). (key_bits_of k, v)) m)"
proof -
  let ?es = "map (\<lambda>(k, v). (key_bits_of k, v)) m"
  have keys: "wf_key k" "bk_bit_len k = n" if "k \<in> fst ` set m" for k
    using that assms(2) by auto
  have mk: "mk_key (key_bits_of k) = k" "length (key_bits_of k) = n" if "k \<in> fst ` set m" for k
    using keys[OF that] by (metis wf_key_def, metis mk_key_sel(1) wf_key_def)
  show "entries_at [] ?es = m"
    unfolding entries_at_def map_map
  proof (intro map_idI)
    fix x assume "x \<in> set m"
    then have "mk_key (key_bits_of (fst x)) = fst x" by (intro mk(1)) simp
    then show "((\<lambda>(k, v). (mk_key ([] @ k), v)) \<circ> (\<lambda>(k, v). (key_bits_of k, v))) x = x"
      by (cases x) simp
  qed
  have "sorted_wrt (<) (map fst m)" using assms(1) by (simp add: btree_ordered_def)
  then have "sorted_wrt (\<lambda>a b. bits_val (key_bits_of a) < bits_val (key_bits_of b)) (map fst m)"
  proof (rule sorted_wrt_mono_rel[rotated])
    fix a b assume ab: "a \<in> set (map fst m)" "b \<in> set (map fst m)" "a < b"
    have "length (key_bits_of a) = length (key_bits_of b)"
      using ab(1,2) mk(2)[of a] mk(2)[of b] by simp
    then show "bits_val (key_bits_of a) < bits_val (key_bits_of b)"
      using mk_key_less[of "key_bits_of a" "key_bits_of b"] ab mk(1)[of a] mk(1)[of b] by simp
  qed
  then show "ascending n ?es" using mk(2)
    by (auto simp: ascending_def sorted_wrt_map split_def)
qed

text \<open>The label of an edge: the longest common prefix of the keys.\<close>

lemma edge_label:
  assumes "ascending n es" "es \<noteq> []"
  obtains lab where "common_prefix_len (entries_at p es) (length p) n = Inr (length lab)"
    "length lab \<le> n" "\<forall>k \<in> fst ` set es. take (length lab) k = lab"
    "length lab < n \<longrightarrow> (\<exists>k \<in> fst ` set es. \<exists>k' \<in> fst ` set es. k ! length lab \<noteq> k' ! length lab)"
    "collect_key_bits (fst (hd (entries_at p es))) (length p) (length lab) = Inr lab"
proof -
  let ?ks = "map fst es"
  have len: "\<forall>k \<in> set ?ks. length k = n" using assms(1) by (simp add: ascending_def)
  have keys: "map fst (entries_at p es) = map (\<lambda>k. mk_key (p @ k)) ?ks"
    by (simp add: entries_at_def split_def)
  obtain L where L: "prefix_len_loop (map (\<lambda>k. mk_key (p @ k)) ?ks) (length p) n 0 = Inr L" "L \<le> n"
      "\<forall>k \<in> set ?ks. take L k = take L (hd ?ks)" "L < n \<longrightarrow> (\<exists>k \<in> set ?ks. k ! L \<noteq> hd ?ks ! L)"
    using prefix_len_loop_eq[of ?ks n 0 p] assms(2) len by auto
  let ?lab = "take L (hd ?ks)"
  have hd: "hd ?ks \<in> set ?ks" using assms(2) by (cases es) auto
  then have l: "length ?lab = L" using len L(2) by auto
  have "fst (hd (entries_at p es)) = mk_key (p @ hd ?ks)"
    using assms(2) by (cases es) (auto simp: entries_at_def split_def)
  then have "collect_key_bits (fst (hd (entries_at p es))) (length p) L = Inr ?lab"
    using bspec[OF len hd] L(2) by (simp add: collect_key_bits_eq)
  then show thesis using that[of ?lab] L hd unfolding l common_prefix_len_def keys set_map by blast
qed

lemma split_position_fork:
  assumes "fs \<noteq> []" "gs \<noteq> []"
  shows "split_position (map fst (entries_at p (prepend (lab @ [False]) fs @ prepend (lab @ [True]) gs)))
    (length p + length lab) = length fs"
proof -
  have bit: "bit_or_false (mk_key (p @ lab @ b # r)) (length p + length lab) = b" for b r
    by (simp add: bit_or_false_def key_bit_mk nth_append)
  obtain g gs' where "gs = g # gs'" using assms(2) by (cases gs) auto
  then have "map fst (entries_at p (prepend (lab @ [False]) fs @ prepend (lab @ [True]) gs))
      = map (\<lambda>(r, _). mk_key (p @ lab @ False # r)) fs
        @ mk_key (p @ lab @ True # fst g) # map (\<lambda>(r, _). mk_key (p @ lab @ True # r)) gs'"
    by (simp add: entries_at_def prepend_def split_def)
  moreover have "takeWhile (\<lambda>k. \<not> bit_or_false k (length p + length lab))
      (map (\<lambda>(r, _). mk_key (p @ lab @ False # r)) fs
        @ mk_key (p @ lab @ True # fst g) # map (\<lambda>(r, _). mk_key (p @ lab @ True # r)) gs')
      = map (\<lambda>(r, _). mk_key (p @ lab @ False # r)) fs"
    by (subst takeWhile_append2) (auto simp: bit)
  ultimately show ?thesis by (simp add: split_position_def)
qed

context dict_codec
begin

definition value_fits :: "nat \<Rightarrow> 'v \<Rightarrow> bool" where
  "value_fits n v \<longleftrightarrow> good v \<and> 2 + bit_length n + n + length (encb v) \<le> 1023
     \<and> length (encr v) \<le> 4 \<and> list_all wf_cell (encr v)"

definition tree_reads :: "cell \<Rightarrow> nat \<Rightarrow> bool list \<Rightarrow> (bool list \<times> 'v) list \<Rightarrow> bool" where
  "tree_reads c n p es \<longleftrightarrow> (\<forall>d. length p + n = he_key_bits d \<longrightarrow>
     (\<forall>k \<in> fst ` set (he_map d). \<forall>k' \<in> fst ` set (entries_at p es). k < k') \<longrightarrow>
     (\<exists>vs s'. list_all2 rel (map snd es) vs \<and>
        parse_edge load (slice_new c) n p d
          = Inr (d\<lparr>he_map := he_map d @ zip (map fst (entries_at p es)) vs\<rparr>, s')))"

lemma tree_readsD:
  assumes "tree_reads c n p es" "length p + n = he_key_bits d"
    "\<forall>k \<in> fst ` set (he_map d). \<forall>k' \<in> fst ` set (entries_at p es). k < k'"
  obtains vs s' where "list_all2 rel (map snd es) vs"
    "parse_edge load (slice_new c) n p d
      = Inr (d\<lparr>he_map := he_map d @ zip (map fst (entries_at p es)) vs\<rparr>, s')"
  using assms unfolding tree_reads_def by blast

lemma value_fits_mono: "value_fits n v \<Longrightarrow> m \<le> n \<Longrightarrow> value_fits m v"
  using bit_length_mono[of m n] by (auto simp: value_fits_def)

lemma leaf_roundtrip:
  assumes "value_fits n v" "length k = n" "common_prefix_len (entries_at p [(k, v)]) (length p) n = Inr n"
    "collect_key_bits (fst (hd (entries_at p [(k, v)]))) (length p) n = Inr k"
  shows "\<exists>c. build_edge store (entries_at p [(k, v)]) (length p) n = Inr c \<and> wf_cell c \<and> tree_reads c n p [(k, v)]"
proof -
  let ?lb = "label_enc k n"
  let ?c = "mk_cell (?lb @ encb v) (encr v)"
  have fits: "length ?lb + length (encb v) \<le> 1023"
    using assms(1,2) length_label_enc_le[of k n] by (simp add: value_fits_def)
  have v: "good v" "length (encr v) \<le> 4" "list_all wf_cell (encr v)" using assms(1) by (simp_all add: value_fits_def)
  have "build_edge store (entries_at p [(k, v)]) (length p) n = Inr ?c"
    using assms fits v store_label_mk[of k n "[]" "[]"]
    by (subst build_edge.simps)
      (simp add: entries_at_def Let_def builder_new_eq store_ok builder_build_mk)
  moreover have wf: "wf_cell ?c" using fits v by (simp add: wf_mk_cell)
  moreover have "tree_reads ?c n p [(k, v)]"
    unfolding tree_reads_def
  proof (intro allI impI)
    fix d :: "'w hashmap_e"
    assume d: "length p + n = he_key_bits d"
      "\<forall>k' \<in> fst ` set (he_map d). \<forall>k'' \<in> fst ` set (entries_at p [(k, v)]). k' < k''"
    let ?s = "adv (slice_new ?c) (length ?lb) 0"
    have lab: "load_label (slice_new ?c) n = Inr (k, ?s)"
      using load_label_reads[of "slice_new ?c" k n "encb v"] wf assms(2) by simp
    have ws: "wf_slice ?s" using wf by (intro wf_adv) simp_all
    have "slice_bits ?s = encb v" "slice_refs ?s = encr v" by simp_all
    then obtain y s' where y: "load ?s = Inr (y, s')" "rel v y" using load_ok[OF v(1) ws] by blast
    have above: "\<forall>k' \<in> fst ` set (he_map d). k' < mk_key (p @ k)" using d(2) by (simp add: entries_at_def)
    then have "insert_bit_key d (mk_key (p @ k)) y
        = Inr (None, d\<lparr>he_map := he_map d @ [(mk_key (p @ k), y)]\<rparr>)"
      using d(1) assms(2) by (simp add: insert_bit_key_def btree_insert_above btree_get_above)
    then have "parse_edge load (slice_new ?c) n p d = Inr (d\<lparr>he_map := he_map d @ [(mk_key (p @ k), y)]\<rparr>, s')"
      using lab y(1) d(1) assms(2) by (subst parse_edge.simps) (simp add: Let_def)
    then show "\<exists>vs s'. list_all2 rel (map snd [(k, v)]) vs \<and>
        parse_edge load (slice_new ?c) n p d
          = Inr (d\<lparr>he_map := he_map d @ zip (map fst (entries_at p [(k, v)])) vs\<rparr>, s')"
      using y(2) by (intro exI[of _ "[y]"] exI[of _ s']) (simp add: entries_at_def)
  qed
  ultimately show ?thesis by blast
qed

lemma fork_roundtrip:
  assumes es: "es = prepend (lab @ [False]) fs @ prepend (lab @ [True]) gs" "fs \<noteq> []" "gs \<noteq> []"
    and n: "length lab < n" "length (label_enc lab n) \<le> 1023"
    and len: "\<forall>k \<in> fst ` set fs. length k = n - length lab - 1" "\<forall>k \<in> fst ` set gs. length k = n - length lab - 1"
    and label: "common_prefix_len (entries_at p es) (length p) n = Inr (length lab)"
      "collect_key_bits (fst (hd (entries_at p es))) (length p) (length lab) = Inr lab"
    and left: "build_edge store (entries_at (p @ lab @ [False]) fs) (length p + length lab + 1) (n - length lab - 1) = Inr cl"
      "wf_cell cl" "tree_reads cl (n - length lab - 1) (p @ lab @ [False]) fs"
    and right: "build_edge store (entries_at (p @ lab @ [True]) gs) (length p + length lab + 1) (n - length lab - 1) = Inr cr"
      "wf_cell cr" "tree_reads cr (n - length lab - 1) (p @ lab @ [True]) gs"
  shows "\<exists>c. build_edge store (entries_at p es) (length p) n = Inr c \<and> wf_cell c \<and> tree_reads c n p es"
proof -
  let ?lb = "label_enc lab n" and ?m = "n - length lab - 1"
  let ?c = "mk_cell ?lb [cl, cr]"
  let ?E = "entries_at p es" and ?F = "entries_at (p @ lab @ [False]) fs" and ?G = "entries_at (p @ lab @ [True]) gs"
  have E: "?E = ?F @ ?G" "?E \<noteq> []" "length ?F = length fs" "?G \<noteq> []"
    using es by (simp_all add: entries_at_def prepend_def split_def)
  have split: "split_position (map fst ?E) (length p + length lab) = length fs"
    using split_position_fork[OF es(2,3), of p lab] es(1) by simp
  have "build_edge store ?E (length p) n = Inr ?c"
    using E n label left(1) right(1) split es(2,3) store_label_mk[of lab n "[]" "[]"]
    by (subst build_edge.simps)
      (simp add: Let_def builder_new_eq store_ref_mk builder_build_mk)
  moreover have wf: "wf_cell ?c" using n(2) left(2) right(2) by (simp add: wf_mk_cell)
  moreover have "tree_reads ?c n p es"
    unfolding tree_reads_def
  proof (intro allI impI)
    fix d :: "'w hashmap_e"
    assume d: "length p + n = he_key_bits d" "\<forall>k \<in> fst ` set (he_map d). \<forall>k' \<in> fst ` set ?E. k < k'"
    let ?s = "adv (slice_new ?c) (length ?lb) 0"
    have lab: "load_label (slice_new ?c) n = Inr (lab, ?s)"
      using load_label_reads[of "slice_new ?c" lab n "[]"] wf n(1) by simp
    obtain vs s1 where vs: "list_all2 rel (map snd fs) vs"
        "parse_edge load (slice_new cl) ?m (p @ lab @ [False]) d
          = Inr (d\<lparr>he_map := he_map d @ zip (map fst ?F) vs\<rparr>, s1)"
    proof (rule tree_readsD[OF left(3)])
      show "length (p @ lab @ [False]) + ?m = he_key_bits d" using d(1) n(1) by simp
      show "\<forall>k \<in> fst ` set (he_map d). \<forall>k' \<in> fst ` set ?F. k < k'" using d(2) E(1) by (simp add: image_Un)
    qed
    let ?d = "d\<lparr>he_map := he_map d @ zip (map fst ?F) vs\<rparr>"
    have lv: "length vs = length fs" using vs(1) by (simp add: list_all2_lengthD[symmetric])
    have below: "\<forall>k \<in> fst ` set (he_map ?d). \<forall>k' \<in> fst ` set ?G. k < k'"
    proof -
      have fg: "k < k'" if "k \<in> fst ` set ?F" "k' \<in> fst ` set ?G" for k k'
        using that len mk_key_branch_less[of _ _ "p @ lab"] by (fastforce simp: entries_at_def)
      have sub: "fst ` set (he_map ?d) \<subseteq> fst ` set (he_map d) \<union> fst ` set ?F"
        by (auto dest: set_zip_leftD)
      have un: "fst ` set ?E = fst ` set ?F \<union> fst ` set ?G" using E(1) by (simp add: image_Un)
      show ?thesis by (rule below_union[OF fg sub un d(2)])
    qed
    obtain ws s2 where ws: "list_all2 rel (map snd gs) ws"
        "parse_edge load (slice_new cr) ?m (p @ lab @ [True]) ?d
          = Inr (?d\<lparr>he_map := he_map ?d @ zip (map fst ?G) ws\<rparr>, s2)"
      by (rule tree_readsD[OF right(3) _ below]) (use d(1) n(1) in simp)
    have "parse_edge load (slice_new ?c) n p d
        = Inr (d\<lparr>he_map := he_map d @ zip (map fst ?E) (vs @ ws)\<rparr>, adv (slice_new ?c) (length ?lb) 2)"
      using lab n(1) vs(2) ws(2) lv E
      by (subst parse_edge.simps) (simp add: Let_def load_reference_eq numeral_2_eq_2)
    moreover have "list_all2 rel (map snd es) (vs @ ws)"
      using vs(1) ws(1) es(1) by (simp add: prepend_def split_def comp_def list_all2_appendI)
    ultimately show "\<exists>vs s'. list_all2 rel (map snd es) vs \<and>
        parse_edge load (slice_new ?c) n p d = Inr (d\<lparr>he_map := he_map d @ zip (map fst ?E) vs\<rparr>, s')"
      by blast
  qed
  ultimately show ?thesis by blast
qed

lemma tree_roundtrip:
  assumes "ascending n es" "es \<noteq> []" "\<forall>v \<in> snd ` set es. value_fits n v"
  shows "\<exists>c. build_edge store (entries_at p es) (length p) n = Inr c \<and> wf_cell c \<and> tree_reads c n p es"
  using assms
proof (induction n arbitrary: p es rule: less_induct)
  case (less n)
  obtain lab where lab: "common_prefix_len (entries_at p es) (length p) n = Inr (length lab)"
      "length lab \<le> n" "\<forall>k \<in> fst ` set es. take (length lab) k = lab"
      "length lab < n \<longrightarrow> (\<exists>k \<in> fst ` set es. \<exists>k' \<in> fst ` set es. k ! length lab \<noteq> k' ! length lab)"
      "collect_key_bits (fst (hd (entries_at p es))) (length p) (length lab) = Inr lab"
    using edge_label[OF less.prems(1,2)] by metis
  have len: "\<forall>k \<in> fst ` set es. length k = n" using less.prems(1) by (simp add: ascending_def)
  show ?case
  proof (cases "length lab = n")
    case True
    then have keys: "\<forall>k \<in> fst ` set es. k = lab" using lab(3) len by force
    obtain v where es: "es = [(lab, v)]"
    proof -
      obtain e es' where e: "es = e # es'" using less.prems(2) by (cases es) auto
      then have "es' = []" using keys less.prems(1) by (cases es') (auto simp: ascending_def)
      with e keys that show thesis by (cases e) auto
    qed
    then show ?thesis using leaf_roundtrip[of n v lab p] less.prems(3) lab True by simp
  next
    case False
    with lab(2) have lt: "length lab < n" by simp
    obtain fs gs where es: "es = prepend (lab @ [False]) fs @ prepend (lab @ [True]) gs" "fs \<noteq> []" "gs \<noteq> []"
        "ascending (n - length lab - 1) fs" "ascending (n - length lab - 1) gs"
      using ascending_split[OF less.prems(1) lt lab(3)] lab(4) lt by metis
    have vals: "\<forall>v \<in> snd ` set fs. value_fits (n - length lab - 1) v" "\<forall>v \<in> snd ` set gs. value_fits (n - length lab - 1) v"
    proof -
      have mono: "value_fits n v \<Longrightarrow> value_fits (n - length lab - 1) v" for v
        by (rule value_fits_mono, assumption, linarith)
      have "snd ` set es = snd ` set fs \<union> snd ` set gs"
        by (simp add: es(1) prepend_def image_Un image_image split_def)
      then show "\<forall>v \<in> snd ` set fs. value_fits (n - length lab - 1) v"
        "\<forall>v \<in> snd ` set gs. value_fits (n - length lab - 1) v"
        using less.prems(3) mono by blast+
    qed
    have m: "n - length lab - 1 < n" using lt by simp
    obtain cl where cl: "build_edge store (entries_at (p @ lab @ [False]) fs) (length (p @ lab @ [False])) (n - length lab - 1) = Inr cl"
        "wf_cell cl" "tree_reads cl (n - length lab - 1) (p @ lab @ [False]) fs"
      using less.IH[OF m es(4,2) vals(1)] by blast
    obtain cr where cr: "build_edge store (entries_at (p @ lab @ [True]) gs) (length (p @ lab @ [True])) (n - length lab - 1) = Inr cr"
        "wf_cell cr" "tree_reads cr (n - length lab - 1) (p @ lab @ [True]) gs"
      using less.IH[OF m es(5,3) vals(2)] by blast
    obtain v where "value_fits n v" using less.prems(2,3) by (cases es) auto
    then have fits: "length (label_enc lab n) \<le> 1023"
      using length_label_enc_le[of lab n] lt by (simp add: value_fits_def)
    have len': "\<forall>k \<in> fst ` set fs. length k = n - length lab - 1" "\<forall>k \<in> fst ` set gs. length k = n - length lab - 1"
      using es(4,5) unfolding ascending_def by blast+
    have depth: "length (p @ lab @ [b]) = length p + length lab + 1" for b by simp
    show ?thesis
      by (rule fork_roundtrip[OF es(1,2,3) lt fits len' lab(1,5) cl[unfolded depth] cr[unfolded depth]])
  qed
qed

text \<open>From a dictionary to its entries.\<close>

lemma hashmap_root_roundtrip:
  assumes "wf_hashmap d" "he_map d \<noteq> []" "\<forall>v \<in> snd ` set (he_map d). value_fits (he_key_bits d) v"
  shows "\<exists>c d'. serialize_hashmap_root d store = Inr (Some c) \<and> wf_cell c
    \<and> deserialize_hashmap_root c (he_key_bits d) load = Inr d' \<and> he_key_bits d' = he_key_bits d
    \<and> list_all2 (\<lambda>(k, v) (k', w). k = k' \<and> rel v w) (he_map d) (he_map d')"
proof -
  let ?n = "he_key_bits d" and ?m = "he_map d"
  define es where "es = map (\<lambda>(k, v). (key_bits_of k, v)) ?m"
  have "btree_ordered ?m" "fst ` set ?m \<subseteq> {k. wf_key k \<and> bk_bit_len k = ?n}"
    using assms(1) by (simp_all add: wf_hashmap_def)
  note E = ordered_entries[OF this, folded es_def]
  have "es \<noteq> []" "\<forall>v \<in> snd ` set es. value_fits ?n v" using assms(2,3) by (auto simp: es_def)
  then obtain c where c: "build_edge store ?m 0 ?n = Inr c" "wf_cell c" "tree_reads c ?n [] es"
    using tree_roundtrip[OF E(2), of "[]"] E(1) by auto
  obtain vs s' where vs: "list_all2 rel (map snd es) vs"
      "parse_edge load (slice_new c) ?n [] (hashmap_e_new ?n)
        = Inr ((hashmap_e_new ?n)\<lparr>he_map := zip (map fst ?m) vs\<rparr>, s')"
    by (rule tree_readsD[OF c(3), of "hashmap_e_new ?n"]) (auto simp: E(1) hashmap_e_new_def)
  have "map snd es = map snd ?m" by (simp add: es_def split_def)
  with vs(1) have "list_all2 (\<lambda>(k, v) (k', w). k = k' \<and> rel v w) ?m (zip (map fst ?m) vs)"
    by (auto simp: list_all2_conv_all_nth split_def)
  then show ?thesis using c vs(2) assms(2)
    by (simp add: serialize_hashmap_root_def hashmap_e_is_empty_def deserialize_hashmap_root_def hashmap_e_new_def)
qed

end

lemma pair_rel_eq: "(\<lambda>(k, v) (k', w). k = k' \<and> v = w) = (=)"
  by auto

context value_codec
begin

lemma hashmap_root_law:
  assumes "wf_hashmap d" "he_map d \<noteq> []"
    and "\<forall>v \<in> snd ` set (he_map d). good v \<and> list_all wf_cell (encr v) \<and> length (encr v) \<le> 4
      \<and> 2 + bit_length (he_key_bits d) + he_key_bits d + length (encb v) \<le> 1023"
  shows "\<exists>c d'. serialize_hashmap_root d store = Inr (Some c) \<and> wf_cell c
    \<and> deserialize_hashmap_root c (he_key_bits d) load = Inr d' \<and> he_key_bits d' = he_key_bits d
    \<and> list_all2 (\<lambda>(k, v) (k', w). k = k' \<and> v = w) (he_map d) (he_map d')"
  using assms(3) by (intro hashmap_root_roundtrip assms(1,2)) (simp add: value_fits_def)

end

section \<open>The values of the compatibility wrapper\<close>

definition dict_value_bits :: "dict_value \<Rightarrow> bool list" where
  "dict_value_bits v = (case v of
      ValCell c \<Rightarrow> []
    | ValSlice s \<Rightarrow> slice_bits s
    | ValUint value bits \<Rightarrow> nat_bits bits (unat value)
    | ValInt value bits \<Rightarrow> nat_bits bits (nat (sint value mod 2 ^ bits))
    | ValCoins value \<Rightarrow> var_enc 4 (unat value)
    | ValAddress a \<Rightarrow> [False, False, False] @ nat_bits 8 (unat (workchain a)) @ bytes_bits (hash_part a))"

definition dict_value_refs :: "dict_value \<Rightarrow> cell list" where
  "dict_value_refs v = (case v of ValCell c \<Rightarrow> [c] | ValSlice s \<Rightarrow> slice_refs s | _ \<Rightarrow> [])"

definition dict_value_ok :: "dict_value \<Rightarrow> bool" where
  "dict_value_ok v \<longleftrightarrow> (case v of
      ValCell c \<Rightarrow> True
    | ValSlice s \<Rightarrow> wf_slice s
    | ValUint value bits \<Rightarrow> bits \<le> 1023 \<and> unat value < 2 ^ bits
    | ValInt value bits \<Rightarrow> 0 < bits \<and> bits \<le> 1023 \<and> - (2 ^ (bits - 1)) \<le> sint value \<and> sint value < 2 ^ (bits - 1)
    | ValCoins value \<Rightarrow> unat value < 2 ^ 120
    | ValAddress a \<Rightarrow> wf_address a)"

text \<open>A decoded value is the slice that holds exactly the encoding of the stored one.\<close>

definition dict_value_read :: "dict_value \<Rightarrow> dict_value \<Rightarrow> bool" where
  "dict_value_read v w \<longleftrightarrow> (\<exists>s. w = ValSlice s \<and> wf_slice s
     \<and> slice_bits s = dict_value_bits v \<and> slice_refs s = dict_value_refs v)"

context bignum
begin

lemma store_address_mk:
  assumes "wf_address a" "length xs + 267 \<le> 1023"
  shows "store_address X (mk_b xs rs) (Some a) = Inr (mk_b (xs @ dict_value_bits (ValAddress a)) rs)"
  using store_address_some[OF assms] by (simp add: dict_value_bits_def)

lemma store_dict_value_mk:
  assumes "dict_value_ok v" "length xs + length (dict_value_bits v) \<le> 1023" "length (dict_value_refs v) \<le> 4"
  shows "store_dict_value X (mk_b xs []) v = Inr (mk_b (xs @ dict_value_bits v) (dict_value_refs v))"
proof (cases v)
  case (ValUint w n)
  then show ?thesis using assms big_uint.store_appends[of n "unat w" xs "[]"]
    by (simp add: store_dict_value_def dict_value_bits_def dict_value_refs_def dict_value_ok_def)
next
  case (ValInt w n)
  then show ?thesis using assms big_int.store_appends[of n "sint w" xs "[]"]
    by (simp add: store_dict_value_def dict_value_bits_def dict_value_refs_def dict_value_ok_def store_int_eq)
next
  case (ValCoins w)
  then show ?thesis using assms coins.store_appends[of w xs "[]"]
    by (simp add: store_dict_value_def dict_value_bits_def dict_value_refs_def dict_value_ok_def)
next
  case (ValAddress a)
  then show ?thesis using assms store_address_mk[of a xs "[]"]
    by (simp add: store_dict_value_def dict_value_refs_def dict_value_ok_def dict_value_bits_def wf_address_def)
qed (use assms in \<open>simp_all add: store_dict_value_def dict_value_bits_def dict_value_refs_def
      dict_value_ok_def store_ref_mk store_slice_mk\<close>)

end

lemma clone_from_current_eq: "clone_from_current s = s"
  by (simp add: clone_from_current_def)

sublocale bignum \<subseteq> dict_values: dict_codec "store_dict_value X"
  "\<lambda>s. Inr (ValSlice (clone_from_current s), s)" dict_value_ok dict_value_bits dict_value_refs dict_value_read
  by unfold_locales (simp_all add: store_dict_value_mk dict_value_read_def clone_from_current_eq)

context bignum
begin

lemmas dict_values_root_roundtrip = dict_values.hashmap_root_roundtrip
lemmas dict_values_fits_def = dict_values.value_fits_def

end

section \<open>Properties\<close>

text \<open>
  C35: any dictionary, written with \<open>store_hashmap_e_with\<close> and read with \<open>load_hashmap_e_with\<close>, comes
  back as it was, for every value encoder and decoder that fit together.  The entries need
  only fit a cell beside a label of the full key.
\<close>

theorem hashmap_e_roundtrip:
  assumes "value_codec store load good encb encr" "wf_hashmap d"
    and "\<forall>v \<in> snd ` set (he_map d). good v \<and> list_all wf_cell (encr v) \<and> length (encr v) \<le> 4
      \<and> 2 + bit_length (he_key_bits d) + he_key_bits d + length (encb v) \<le> 1023"
  shows "\<exists>s'. and_then (store_hashmap_e_with builder_new d store) (\<lambda>b. and_then (to_slice b) (\<lambda>s.
      load_hashmap_e_with s (he_key_bits d) load)) = Inr (d, s')"
proof (cases "he_map d = []")
  case True
  then have "d = hashmap_e_new (he_key_bits d)" by (simp add: hashmap_e_new_def)
  then show ?thesis using True
    by (simp add: store_hashmap_e_with_def serialize_hashmap_root_def hashmap_e_is_empty_def
        builder_new_eq store_bit_mk to_slice_def builder_build_mk load_hashmap_e_with_def
        load_bit_eq wf_mk_cell)
next
  case False
  obtain c d' where c: "serialize_hashmap_root d store = Inr (Some c)" "wf_cell c"
      "deserialize_hashmap_root c (he_key_bits d) load = Inr d'" "he_key_bits d' = he_key_bits d"
      "list_all2 (\<lambda>(k, v) (k', w). k = k' \<and> v = w) (he_map d) (he_map d')"
    using value_codec.hashmap_root_law[OF assms(1,2) False] assms(3) by blast
  have "d' = d" using c(4,5) unfolding pair_rel_eq list.rel_eq by simp
  with c show ?thesis
    by (simp add: store_hashmap_e_with_def builder_new_eq store_bit_mk store_ref_mk to_slice_def
        builder_build_mk load_hashmap_e_with_def load_bit_eq wf_mk_cell load_reference_eq)
qed

text \<open>A dictionary with two coin amounts under 8-bit keys.\<close>

definition sample_dict :: "u128 hashmap_e" where
  "sample_dict = \<lparr>he_key_bits = 8, he_map = [(mk_key (nat_bits 8 5), 7), (mk_key (nat_bits 8 200), 1000)]\<rparr>"

lemma wf_sample_dict: "wf_hashmap sample_dict"
  by (simp add: wf_hashmap_def sample_dict_def mk_key_less)

lemma sample_dict_fits:
  "\<forall>v \<in> snd ` set (he_map sample_dict). unat v < 2 ^ 120 \<and> list_all wf_cell [] \<and> length ([] :: cell list) \<le> 4
      \<and> 2 + bit_length (he_key_bits sample_dict) + he_key_bits sample_dict + length (var_enc 4 (unat v)) \<le> 1023"
proof -
  have "bit_length 8 = 4" by (simp add: bit_length.simps)
  moreover have "var_len 7 \<le> 2" "var_len 1000 \<le> 2" by (simp_all add: var_len_le_iff)
  ultimately show ?thesis by (simp add: sample_dict_def)
qed

theorem hashmap_e_roundtrip_witness:
  "\<exists>s'. and_then (store_hashmap_e_with builder_new sample_dict (store_coins ref_crates))
      (\<lambda>b. and_then (to_slice b) (\<lambda>s. load_hashmap_e_with s 8 (load_coins ref_crates)))
    = Inr (sample_dict, s')"
  using hashmap_e_roundtrip[OF ref_bignum.coins.value_codec_axioms wf_sample_dict sample_dict_fits]
  by (simp add: sample_dict_def)

text \<open>
  the compatibility wrapper: \<open>Dict::serialize\<close> succeeds on a non-empty dictionary whose
  values are in range, and \<open>Dict::deserialize\<close> of the root has the same keys in the same order,
  each with a slice holding exactly the encoding of the stored value.
\<close>

theorem dict_serialize_deserialize:
  assumes "bignum X" "wf_hashmap (dict_inner d)" "he_map (dict_inner d) \<noteq> []"
    and "\<forall>v \<in> snd ` set (he_map (dict_inner d)). dict_value_ok v
      \<and> 2 + bit_length (dict_key_size d) + dict_key_size d + length (dict_value_bits v) \<le> 1023
      \<and> length (dict_value_refs v) \<le> 4 \<and> list_all wf_cell (dict_value_refs v)"
  shows "\<exists>c d'. dict_serialize X d = Inr (Some c) \<and> dict_deserialize c (dict_key_size d) = Inr d'
    \<and> dict_key_size d' = dict_key_size d
    \<and> list_all2 (\<lambda>(k, v) (k', w). k = k' \<and> dict_value_read v w)
        (he_map (dict_inner d)) (he_map (dict_inner d'))"
proof -
  obtain c d' where c: "serialize_hashmap_root (dict_inner d) (store_dict_value X) = Inr (Some c)"
      "deserialize_hashmap_root c (dict_key_size d) (\<lambda>s. Inr (ValSlice (clone_from_current s), s)) = Inr d'"
      "he_key_bits d' = dict_key_size d"
      "list_all2 (\<lambda>(k, v) (k', w). k = k' \<and> dict_value_read v w) (he_map (dict_inner d)) (he_map d')"
    using bignum.dict_values_root_roundtrip[OF assms(1-3)] assms(4)
    unfolding bignum.dict_values_fits_def[OF assms(1)] dict_key_size_def by blast
  then have "dict_deserialize c (dict_key_size d) = Inr \<lparr>dict_inner = d', dict_int_keys = []\<rparr>"
    by (simp add: dict_deserialize_def)
  with c show ?thesis
    by (intro exI[of _ c] exI[of _ "\<lparr>dict_inner = d', dict_int_keys = []\<rparr>"])
      (simp add: dict_serialize_def dict_key_size_def)
qed

theorem dict_serialize_deserialize_witness:
  "\<exists>c d'. dict_serialize ref_crates \<lparr>dict_inner = \<lparr>he_key_bits = 8, he_map = [(mk_key (nat_bits 8 5), ValCoins 7)]\<rparr>,
      dict_int_keys = []\<rparr> = Inr (Some c) \<and> dict_deserialize c 8 = Inr d' \<and> dict_key_size d' = 8
    \<and> list_all2 (\<lambda>(k, v) (k', w). k = k' \<and> dict_value_read v w)
        [(mk_key (nat_bits 8 5), ValCoins 7)] (he_map (dict_inner d'))"
proof -
  have "bit_length 8 = 4" by (simp add: bit_length.simps)
  moreover have "var_len 7 \<le> 2" by (simp add: var_len_le_iff)
  ultimately show ?thesis
    using dict_serialize_deserialize[OF ref_bignum.bignum_axioms, of "\<lparr>dict_inner = \<lparr>he_key_bits = 8,
        he_map = [(mk_key (nat_bits 8 5), ValCoins 7)]\<rparr>, dict_int_keys = []\<rparr>"]
    by (simp add: wf_hashmap_def dict_value_ok_def dict_value_bits_def dict_value_refs_def dict_key_size_def)
qed

text \<open>
  The root cell determines the dictionary: two dictionaries of one width, written with one
  value encoder that has a decoder, have the same root exactly when they are equal.
\<close>

theorem hashmap_root_injective:
  assumes "value_codec store load good encb encr" "wf_hashmap d" "wf_hashmap d'" "he_key_bits d = he_key_bits d'"
    and "\<forall>v \<in> snd ` set (he_map d) \<union> snd ` set (he_map d'). good v \<and> list_all wf_cell (encr v) \<and> length (encr v) \<le> 4
      \<and> 2 + bit_length (he_key_bits d) + he_key_bits d + length (encb v) \<le> 1023"
  shows "serialize_hashmap_root d store = serialize_hashmap_root d' store \<longleftrightarrow> d = d'"
proof -
  have law: "\<exists>c. serialize_hashmap_root e store = Inr (Some c) \<and> deserialize_hashmap_root c (he_key_bits e) load = Inr e"
    if e: "wf_hashmap e" "he_map e \<noteq> []" "\<forall>v \<in> snd ` set (he_map e). good v \<and> list_all wf_cell (encr v)
      \<and> length (encr v) \<le> 4 \<and> 2 + bit_length (he_key_bits e) + he_key_bits e + length (encb v) \<le> 1023" for e
  proof -
    obtain c e' where "serialize_hashmap_root e store = Inr (Some c)"
        "deserialize_hashmap_root c (he_key_bits e) load = Inr e'"
        "he_key_bits e' = he_key_bits e" "he_map e = he_map e'"
      using value_codec.hashmap_root_law[OF assms(1) e] unfolding pair_rel_eq list.rel_eq by blast
    then show ?thesis by simp
  qed
  have vals: "\<forall>v \<in> snd ` set (he_map d'). good v \<and> list_all wf_cell (encr v)
      \<and> length (encr v) \<le> 4 \<and> 2 + bit_length (he_key_bits d') + he_key_bits d' + length (encb v) \<le> 1023"
    using assms(4,5) by simp
  have eq: "d = d'" if "he_map d = []" "he_map d' = []" using that assms(4) by simp
  have none: "serialize_hashmap_root e store = Inr None" if "he_map e = []" for e :: "'a hashmap_e"
    using that by (simp add: serialize_hashmap_root_def hashmap_e_is_empty_def)
  show ?thesis
    using law[OF assms(2)] law[OF assms(3) _ vals] none[of d] none[of d'] eq assms(4,5)
    by (cases "he_map d = []"; cases "he_map d' = []") auto
qed

theorem hashmap_root_injective_witness:
  "serialize_hashmap_root sample_dict (store_coins ref_crates)
     \<noteq> serialize_hashmap_root (sample_dict\<lparr>he_map := []\<rparr>) (store_coins ref_crates)"
  using hashmap_root_injective[OF ref_bignum.coins.value_codec_axioms wf_sample_dict, of "sample_dict\<lparr>he_map := []\<rparr>"]
    sample_dict_fits
  by (simp add: sample_dict_def wf_hashmap_def)

section \<open>Histories\<close>

text \<open>
  A client's calls on one dictionary and on the finite map it stands for, with the reply to each call.  A call that fails leaves
  the dictionary as it was.
\<close>

datatype 'v dict_op = OpInsert bit_key 'v | OpRemove bit_key | OpGet bit_key

fun op_key :: "'v dict_op \<Rightarrow> bit_key" where
  "op_key (OpInsert k v) = k" | "op_key (OpRemove k) = k" | "op_key (OpGet k) = k"

definition op_values :: "'v dict_op list \<Rightarrow> 'v set" where
  "op_values ops = {v. \<exists>k. OpInsert k v \<in> set ops}"

definition reply :: "'v hashmap_e \<Rightarrow> ('v option \<times> 'v hashmap_e) result \<Rightarrow> 'v option result \<times> 'v hashmap_e" where
  "reply d r = (case r of Inl e \<Rightarrow> (Inl e, d) | Inr (old, d') \<Rightarrow> (Inr old, d'))"

fun exec_op :: "'v hashmap_e \<Rightarrow> 'v dict_op \<Rightarrow> 'v option result \<times> 'v hashmap_e" where
  "exec_op d (OpInsert k v) = reply d (insert_bit_key d k v)"
| "exec_op d (OpRemove k) = reply d (remove_bit_key d k)"
| "exec_op d (OpGet k) = (get_bit_key d k, d)"

fun map_op :: "nat \<Rightarrow> (bit_key \<rightharpoonup> 'v) \<Rightarrow> 'v dict_op \<Rightarrow> 'v option result \<times> (bit_key \<rightharpoonup> 'v)" where
  "map_op n m op =
     (if bk_bit_len (op_key op) \<noteq> n then (Inl (DictErr DictKeyLength), m)
      else (Inr (m (op_key op)), case op of OpInsert k v \<Rightarrow> m(k \<mapsto> v) | OpRemove k \<Rightarrow> m(k := None) | OpGet k \<Rightarrow> m))"

fun history :: "('s \<Rightarrow> 'o \<Rightarrow> 'r \<times> 's) \<Rightarrow> 's \<Rightarrow> 'o list \<Rightarrow> 'r list \<times> 's" where
  "history step s [] = ([], s)"
| "history step s (op # ops) = (let (r, s) = step s op; (rs, s) = history step s ops in (r # rs, s))"

lemma exec_op_refines:
  assumes "wf_hashmap d" "wf_key (op_key op)" "exec_op d op = (r, d')"
  shows "wf_hashmap d'" "he_key_bits d' = he_key_bits d" "map_op (he_key_bits d) (map_of (he_map d)) op = (r, map_of (he_map d'))"
proof -
  have step: "wf_hashmap d' \<and> he_key_bits d' = he_key_bits d \<and> map_op (he_key_bits d) (map_of (he_map d)) op = (r, map_of (he_map d'))"
  proof (cases op)
    case (OpInsert k v)
    have "map_of (btree_insert k v (he_map d)) = (map_of (he_map d))(k \<mapsto> v)"
      using btree_get_insert[of _ k v "he_map d"] by (auto simp: fun_eq_iff btree_get_def)
    then show ?thesis using assms OpInsert wf_insert_bit_key[of d k v]
      by (auto simp: reply_def insert_bit_key_def btree_get_def split: if_splits)
  next
    case (OpRemove k)
    have "map_of (btree_remove k (he_map d)) = (map_of (he_map d))(k := None)"
      using btree_get_remove[of _ k "he_map d"] by (auto simp: fun_eq_iff btree_get_def)
    then show ?thesis using assms OpRemove wf_remove_bit_key[of d k]
      by (auto simp: reply_def remove_bit_key_def btree_get_def split: if_splits)
  next
    case (OpGet k)
    then show ?thesis using assms by (auto simp: get_bit_key_def btree_get_def)
  qed
  then show "wf_hashmap d'" "he_key_bits d' = he_key_bits d" "map_op (he_key_bits d) (map_of (he_map d)) op = (r, map_of (he_map d'))" by blast+
qed

lemma history_refines:
  assumes "wf_hashmap d" "\<forall>op \<in> set ops. wf_key (op_key op)" "history exec_op d ops = (rs, d')"
  shows "wf_hashmap d' \<and> he_key_bits d' = he_key_bits d
    \<and> history (map_op (he_key_bits d)) (map_of (he_map d)) ops = (rs, map_of (he_map d'))"
  using assms
proof (induction ops arbitrary: d rs)
  case (Cons op ops)
  obtain r d1 rs1 where x: "exec_op d op = (r, d1)" "history exec_op d1 ops = (rs1, d')" "rs = r # rs1"
    using Cons.prems(3) by (auto split: prod.splits)
  note e = exec_op_refines[OF Cons.prems(1) _ x(1)]
  show ?case using Cons.IH[OF e(1) _ x(2)] Cons.prems(2) e(2,3) x(3) by (simp del: map_op.simps)
qed simp

lemma ran_map_op: "map_op n m op = (r, m') \<Longrightarrow> ran m' \<subseteq> ran m \<union> op_values [op]"
  by (cases op) (auto simp: op_values_def ran_def split: if_splits)

lemma ran_history: "history (map_op n) m ops = (rs, m') \<Longrightarrow> ran m' \<subseteq> ran m \<union> op_values ops"
proof (induction ops arbitrary: m rs)
  case (Cons op ops)
  obtain r m1 rs1 where x: "map_op n m op = (r, m1)" "history (map_op n) m1 ops = (rs1, m')"
    using Cons.prems by (auto split: prod.splits simp del: map_op.simps)
  have "op_values (op # ops) = op_values [op] \<union> op_values ops" by (auto simp: op_values_def)
  then show ?case using Cons.IH[OF x(2)] ran_map_op[OF x(1)] by auto
qed (simp add: op_values_def)

text \<open>
  C36: a dictionary implements a finite map under any history of calls on a new dictionary: every reply is that of the map, the
  previous or current value, or the key-length error for a key of another width, which changes nothing.  The root cell written
  at the end depends on the map alone: two histories give the same cell exactly when they give the same map, whatever
  the order of their calls.
\<close>

theorem hashmap_refines_map:
  assumes "value_codec store load good encb encr" "\<forall>op \<in> set ops \<union> set ops'. wf_key (op_key op)"
    "\<forall>v \<in> op_values (ops @ ops'). good v \<and> list_all wf_cell (encr v) \<and> length (encr v) \<le> 4
      \<and> 2 + bit_length n + n + length (encb v) \<le> 1023"
  shows "fst (history exec_op (hashmap_e_new n) ops) = fst (history (map_op n) Map.empty ops)
    \<and> (serialize_hashmap_root (snd (history exec_op (hashmap_e_new n) ops)) store
        = serialize_hashmap_root (snd (history exec_op (hashmap_e_new n) ops')) store
      \<longleftrightarrow> snd (history (map_op n) Map.empty ops) = snd (history (map_op n) Map.empty ops'))"
proof -
  obtain rs d where d: "history exec_op (hashmap_e_new n) ops = (rs, d)" by fastforce
  obtain rs' d' where d': "history exec_op (hashmap_e_new n) ops' = (rs', d')" by fastforce
  have new: "he_key_bits (hashmap_e_new n) = n" "map_of (he_map (hashmap_e_new n)) = Map.empty" by (simp_all add: hashmap_e_new_def)
  note h = history_refines[OF wf_hashmap_new _ d, unfolded new] and h' = history_refines[OF wf_hashmap_new _ d', unfolded new]
  have ok: "wf_hashmap d" "wf_hashmap d'" "he_key_bits d = n" "he_key_bits d' = n"
    and m: "history (map_op n) Map.empty ops = (rs, map_of (he_map d))" "history (map_op n) Map.empty ops' = (rs', map_of (he_map d'))"
    using h h' assms(2) by auto
  have vals: "snd ` set (he_map e) \<subseteq> ran (map_of (he_map e))" if "wf_hashmap e" for e :: "'a hashmap_e"
    using that by (auto simp: wf_hashmap_def btree_ordered_def strict_sorted_iff ran_def intro: map_of_is_SomeI)
  have "op_values (ops @ ops') = op_values ops \<union> op_values ops'" by (auto simp: op_values_def)
  then have "\<forall>v \<in> snd ` set (he_map d) \<union> snd ` set (he_map d'). good v \<and> list_all wf_cell (encr v) \<and> length (encr v) \<le> 4
      \<and> 2 + bit_length (he_key_bits d) + he_key_bits d + length (encb v) \<le> 1023"
    using assms(3) vals[OF ok(1)] vals[OF ok(2)] ran_history[OF m(1)] ran_history[OF m(2)] by (simp add: ok(3)) blast
  then have "serialize_hashmap_root d store = serialize_hashmap_root d' store \<longleftrightarrow> d = d'"
    using hashmap_root_injective[OF assms(1) ok(1,2)] ok(3,4) by simp
  also have "\<dots> \<longleftrightarrow> map_of (he_map d) = map_of (he_map d')"
    using btree_get_ext[of "he_map d" "he_map d'"] ok by (auto simp: wf_hashmap_def btree_get_def)
  finally show ?thesis using d d' m by simp
qed

theorem hashmap_refines_map_witness:
  "serialize_hashmap_root (snd (history exec_op (hashmap_e_new 8) [OpInsert (mk_key (nat_bits 8 5)) 7, OpInsert (mk_key (nat_bits 8 200)) 9])) (store_coins ref_crates)
    = serialize_hashmap_root (snd (history exec_op (hashmap_e_new 8) [OpInsert (mk_key (nat_bits 8 200)) 9, OpInsert (mk_key (nat_bits 9 1)) 7,
        OpInsert (mk_key (nat_bits 8 6)) 7, OpInsert (mk_key (nat_bits 8 5)) 7, OpRemove (mk_key (nat_bits 8 6))])) (store_coins ref_crates)"
  (is "?l = ?r")
proof -
  let ?a = "[OpInsert (mk_key (nat_bits 8 5)) 7, OpInsert (mk_key (nat_bits 8 200)) 9] :: u128 dict_op list"
  let ?b = "[OpInsert (mk_key (nat_bits 8 200)) 9, OpInsert (mk_key (nat_bits 9 1)) 7, OpInsert (mk_key (nat_bits 8 6)) 7,
    OpInsert (mk_key (nat_bits 8 5)) 7, OpRemove (mk_key (nat_bits 8 6))] :: u128 dict_op list"
  have keys: "\<forall>op \<in> set ?a \<union> set ?b. wf_key (op_key op)" by simp
  have "bit_length 8 = 4" "var_len 7 \<le> 2" "var_len 9 \<le> 2" by (simp_all add: bit_length.simps var_len_le_iff)
  moreover have "op_values (?a @ ?b) = {7, 9}" by (auto simp: op_values_def)
  ultimately have vals: "\<forall>v \<in> op_values (?a @ ?b). unat v < 2 ^ 120 \<and> list_all wf_cell [] \<and> length ([] :: cell list) \<le> 4
      \<and> 2 + bit_length 8 + 8 + length (var_enc 4 (unat v)) \<le> 1023" by simp
  show ?thesis
    by (rule iffD2[OF hashmap_refines_map[OF ref_bignum.coins.value_codec_axioms keys vals, THEN conjunct2]])
      (auto simp: fun_eq_iff nat_bits_eq_iff)
qed

end
