(* ===== verification/HashmapAug.thy ===== *)
theory HashmapAug
  imports Hashmap "HOL-Library.Multiset"
begin

text \<open>
  Augmented dictionaries (\<open>HashmapAug\<close> and \<open>HashmapAugE\<close> of \<open>src/tvm/dict/hashmap.rs\<close>, with the
  tree routines of \<open>src/tvm/dict/labels.rs\<close>): every leaf and every fork carries an extra value.
  A dictionary keeps its decoded tree, its leaves as an ordered map and its forks as a list.

  The main result is that storing a dictionary made by \<open>from_entries\<close> and loading it gives
  the same tree, the same leaves and the same forks up to their order: the builder lists
  the forks before their branches, the parser after them.
\<close>

datatype ('v, 'e) aug_node =
    AugLeaf (al_label: "bool list") (al_extra: 'e) (al_value: 'v)
  | AugFork (af_label: "bool list") (af_left: "('v, 'e) aug_node") (af_right: "('v, 'e) aug_node") (af_extra: 'e)

record 'e aug_fork =
  fork_prefix :: bit_key
  fork_extra :: 'e

record ('v, 'e) aug_entry =
  entry_key :: bit_key
  entry_value :: 'v
  entry_extra :: 'e

record ('v, 'e) hashmap_aug =
  ha_key_bits :: nat
  ha_root :: "('v, 'e) aug_node"
  ha_leaves :: "(bit_key, 'v \<times> 'e) btree_map"
  ha_forks :: "'e aug_fork list"

record ('v, 'e) hashmap_aug_e =
  hae_key_bits :: nat
  hae_root :: "('v, 'e) hashmap_aug option"
  hae_extra :: 'e

section \<open>Building\<close>

text \<open>The slice of entries \<open>(key, value, extra)\<close> is a list of pairs of a key and a value with its extra.\<close>

definition common_aug_prefix_len :: "(bit_key \<times> 'v \<times> 'e) list \<Rightarrow> nat \<Rightarrow> nat \<Rightarrow> nat result" where
  "common_aug_prefix_len entries depth max_len = prefix_len_loop (map fst entries) depth max_len 0"

function build_aug_node ::
    "(bit_key \<times> 'v \<times> 'e) list \<Rightarrow> nat \<Rightarrow> nat \<Rightarrow> 'e \<Rightarrow> 'e aug_fork list
      \<Rightarrow> (('v, 'e) aug_node \<times> 'e aug_fork list) result" where
  "build_aug_node entries depth remaining fe forks =
     (if entries = [] then Inl (DictErr EmptyEdge)
      else and_then (common_aug_prefix_len entries depth remaining) (\<lambda>label_len.
        and_then (collect_key_bits (fst (hd entries)) depth label_len) (\<lambda>label.
        let node_remaining = remaining - label_len in
        if node_remaining = 0
        then (if length entries \<noteq> 1 then Inl (DictErr DuplicateKey)
              else Inr (AugLeaf label (snd (snd (hd entries))) (fst (snd (hd entries))), forks))
        else let split_depth = depth + label_len;
                 split = split_position (map fst entries) split_depth in
          if split = 0 \<or> split = length entries then Inl (DictErr ForkWithoutBranches)
          else and_then (collect_key_bits (fst (hd entries)) 0 split_depth) (\<lambda>prefix.
            and_then (bit_vec_to_key prefix split_depth) (\<lambda>fork_key.
            let forks = forks @ [\<lparr>fork_prefix = fork_key, fork_extra = fe\<rparr>] in
            and_then (build_aug_node (take split entries) (split_depth + 1) (node_remaining - 1) fe forks) (\<lambda>(left, forks).
            and_then (build_aug_node (drop split entries) (split_depth + 1) (node_remaining - 1) fe forks) (\<lambda>(right, forks).
            Inr (AugFork label left right fe, forks))))))))"
  by pat_completeness auto
termination
  by (relation "measure (\<lambda>(_, _, r, _, _). r)") auto

declare build_aug_node.simps [simp del]

text \<open>The loop of \<open>from_entries\<close> that fills the map of leaves.\<close>

definition collect_leaves ::
    "nat \<Rightarrow> ('v, 'e) aug_entry list \<Rightarrow> (bit_key, 'v \<times> 'e) btree_map result" where
  "collect_leaves key_bits entries =
     try_fold (\<lambda>leaves entry.
       if bk_bit_len (entry_key entry) \<noteq> key_bits then Inl (DictErr DictKeyLength)
       else if btree_get (entry_key entry) leaves \<noteq> None then Inl (DictErr DuplicateKey)
       else Inr (btree_insert (entry_key entry) (entry_value entry, entry_extra entry) leaves)) [] entries"

definition from_entries :: "nat \<Rightarrow> ('v, 'e) aug_entry list \<Rightarrow> 'e \<Rightarrow> ('v, 'e) hashmap_aug result" where
  "from_entries key_bits entries fe =
     (if entries = [] then Inl (DictErr AugEmpty)
      else and_then (collect_leaves key_bits entries) (\<lambda>leaves.
        and_then (build_aug_node leaves 0 key_bits fe []) (\<lambda>(root, forks).
        Inr \<lparr>ha_key_bits = key_bits, ha_root = root, ha_leaves = leaves, ha_forks = forks\<rparr>)))"

definition aug_len :: "('v, 'e) hashmap_aug \<Rightarrow> nat" where
  "aug_len d = length (ha_leaves d)"

definition aug_iter :: "('v, 'e) hashmap_aug \<Rightarrow> (bit_key \<times> 'v \<times> 'e) list" where
  "aug_iter d = ha_leaves d"

definition aug_get_bit_key :: "('v, 'e) hashmap_aug \<Rightarrow> bit_key \<Rightarrow> ('v \<times> 'e) option result" where
  "aug_get_bit_key d k =
     (if bk_bit_len k \<noteq> ha_key_bits d then Inl (DictErr DictKeyLength) else Inr (btree_get k (ha_leaves d)))"

definition aug_e_empty :: "nat \<Rightarrow> 'e \<Rightarrow> ('v, 'e) hashmap_aug_e" where
  "aug_e_empty key_bits extra = \<lparr>hae_key_bits = key_bits, hae_root = None, hae_extra = extra\<rparr>"

definition aug_e_with_root :: "nat \<Rightarrow> ('v, 'e) hashmap_aug \<Rightarrow> 'e \<Rightarrow> ('v, 'e) hashmap_aug_e result" where
  "aug_e_with_root key_bits root extra =
     (if ha_key_bits root \<noteq> key_bits then Inl (DictErr DictKeyLength)
      else Inr \<lparr>hae_key_bits = key_bits, hae_root = Some root, hae_extra = extra\<rparr>)"

definition aug_e_len :: "('v, 'e) hashmap_aug_e \<Rightarrow> nat" where
  "aug_e_len d = (case hae_root d of Some r \<Rightarrow> aug_len r | None \<Rightarrow> 0)"

definition aug_e_is_empty :: "('v, 'e) hashmap_aug_e \<Rightarrow> bool" where
  "aug_e_is_empty d \<longleftrightarrow> hae_root d = None"

section \<open>Storing\<close>

fun total_aug_edge_bits :: "('v, 'e) aug_node \<Rightarrow> nat" where
  "total_aug_edge_bits (AugLeaf label _ _) = length label"
| "total_aug_edge_bits (AugFork label left _ _) = length label + 1 + total_aug_edge_bits left"

fun node_remaining_after_label :: "('v, 'e) aug_node \<Rightarrow> nat" where
  "node_remaining_after_label (AugLeaf _ _ _) = 0"
| "node_remaining_after_label (AugFork _ left right _) =
     1 + max (total_aug_edge_bits left) (total_aug_edge_bits right)"

fun store_aug_node ::
    "(builder \<Rightarrow> 'v \<Rightarrow> builder result) \<Rightarrow> (builder \<Rightarrow> 'e \<Rightarrow> builder result) \<Rightarrow> builder \<Rightarrow> ('v, 'e) aug_node \<Rightarrow> builder result" where
  "store_aug_node store_value store_extra b (AugLeaf label extra val) =
     and_then (store_label b label (length label)) (\<lambda>b.
     and_then (store_extra b extra) (\<lambda>b. store_value b val))"
| "store_aug_node store_value store_extra b (AugFork label left right extra) =
     and_then (store_label b label (node_remaining_after_label (AugFork label left right extra) + length label)) (\<lambda>b.
     and_then (store_aug_node store_value store_extra builder_new left) (\<lambda>lb.
     and_then (builder_build lb) (\<lambda>lc.
     and_then (store_ref b lc) (\<lambda>b.
     and_then (store_aug_node store_value store_extra builder_new right) (\<lambda>rb.
     and_then (builder_build rb) (\<lambda>rc.
     and_then (store_ref b rc) (\<lambda>b. store_extra b extra)))))))"

definition store_hashmap_aug_with ::
    "(builder \<Rightarrow> 'v \<Rightarrow> builder result) \<Rightarrow> (builder \<Rightarrow> 'e \<Rightarrow> builder result) \<Rightarrow> builder \<Rightarrow> ('v, 'e) hashmap_aug \<Rightarrow> builder result" where
  "store_hashmap_aug_with store_value store_extra b d = store_aug_node store_value store_extra b (ha_root d)"

definition store_hashmap_aug_e_with ::
    "(builder \<Rightarrow> 'v \<Rightarrow> builder result) \<Rightarrow> (builder \<Rightarrow> 'e \<Rightarrow> builder result) \<Rightarrow> builder \<Rightarrow> ('v, 'e) hashmap_aug_e \<Rightarrow> builder result" where
  "store_hashmap_aug_e_with store_value store_extra b d =
     and_then (case hae_root d of
         Some root \<Rightarrow> and_then (store_bit b True) (\<lambda>b.
           and_then (store_hashmap_aug_with store_value store_extra builder_new root) (\<lambda>rb.
           and_then (builder_build rb) (\<lambda>c. store_ref b c)))
       | None \<Rightarrow> store_bit b False)
     (\<lambda>b. store_extra b (hae_extra d))"

section \<open>Loading\<close>

definition ensure_aug_ref_consumed :: "slice \<Rightarrow> unit result" where
  "ensure_aug_ref_consumed s = (if slice_is_empty s then Inr () else Inl (DictErr AugTrailingData))"

type_synonym ('v, 'e) aug_acc = "(bit_key, 'v \<times> 'e) btree_map \<times> 'e aug_fork list"

function parse_aug_node ::
    "(slice \<Rightarrow> ('v \<times> slice) result) \<Rightarrow> (slice \<Rightarrow> ('e \<times> slice) result) \<Rightarrow> slice \<Rightarrow> nat \<Rightarrow> bool list \<Rightarrow> nat
      \<Rightarrow> ('v, 'e) aug_acc \<Rightarrow> (('v, 'e) aug_node \<times> slice \<times> ('v, 'e) aug_acc) result" where
  "parse_aug_node load_value load_extra s remaining prefix key_bits acc =
     and_then (load_label s remaining) (\<lambda>(label, s).
       let prefix = prefix @ label; node_remaining = remaining - length label in
       if node_remaining = 0
       then and_then (bit_vec_to_key prefix key_bits) (\<lambda>key.
         and_then (load_extra s) (\<lambda>(extra, s).
         and_then (load_value s) (\<lambda>(val, s).
         if btree_get key (fst acc) \<noteq> None then Inl (DictErr DuplicateKey)
         else Inr (AugLeaf label extra val, s, (btree_insert key (val, extra) (fst acc), snd acc)))))
       else and_then (bit_vec_to_key prefix (length prefix)) (\<lambda>fork_key.
         and_then (load_reference s) (\<lambda>(left, s).
         and_then (load_reference s) (\<lambda>(right, s).
         and_then (parse_aug_node load_value load_extra (slice_new left) (node_remaining - 1) (prefix @ [False]) key_bits acc)
           (\<lambda>(left_node, left_slice, acc).
         and_then (ensure_aug_ref_consumed left_slice) (\<lambda>_.
         and_then (parse_aug_node load_value load_extra (slice_new right) (node_remaining - 1) (prefix @ [True]) key_bits acc)
           (\<lambda>(right_node, right_slice, acc).
         and_then (ensure_aug_ref_consumed right_slice) (\<lambda>_.
         and_then (load_extra s) (\<lambda>(extra, s).
         Inr (AugFork label left_node right_node extra, s,
              (fst acc, snd acc @ [\<lparr>fork_prefix = fork_key, fork_extra = extra\<rparr>])))))))))))"
  by pat_completeness auto
termination
  by (relation "measure (\<lambda>(_, _, _, r, _, _, _). r)") auto

declare parse_aug_node.simps [simp del]

definition deserialize_hashmap_aug_from_slice ::
    "(slice \<Rightarrow> ('v \<times> slice) result) \<Rightarrow> (slice \<Rightarrow> ('e \<times> slice) result) \<Rightarrow> slice \<Rightarrow> nat
      \<Rightarrow> (('v, 'e) hashmap_aug \<times> slice) result" where
  "deserialize_hashmap_aug_from_slice load_value load_extra s key_bits =
     and_then (parse_aug_node load_value load_extra s key_bits [] key_bits ([], [])) (\<lambda>(root, s, leaves, forks).
       Inr (\<lparr>ha_key_bits = key_bits, ha_root = root, ha_leaves = leaves, ha_forks = forks\<rparr>, s))"

definition load_hashmap_aug_with ::
    "(slice \<Rightarrow> ('v \<times> slice) result) \<Rightarrow> (slice \<Rightarrow> ('e \<times> slice) result) \<Rightarrow> slice \<Rightarrow> nat
      \<Rightarrow> (('v, 'e) hashmap_aug \<times> slice) result" where
  "load_hashmap_aug_with load_value load_extra s key_bits =
     deserialize_hashmap_aug_from_slice load_value load_extra s key_bits"

definition load_hashmap_aug_e_with ::
    "(slice \<Rightarrow> ('v \<times> slice) result) \<Rightarrow> (slice \<Rightarrow> ('e \<times> slice) result) \<Rightarrow> slice \<Rightarrow> nat
      \<Rightarrow> (('v, 'e) hashmap_aug_e \<times> slice) result" where
  "load_hashmap_aug_e_with load_value load_extra s key_bits =
     and_then (load_bit s) (\<lambda>(has_root, s).
       if has_root
       then and_then (load_reference s) (\<lambda>(root_cell, s).
         and_then (deserialize_hashmap_aug_from_slice load_value load_extra (slice_new root_cell) key_bits) (\<lambda>(root, root_slice).
         and_then (ensure_aug_ref_consumed root_slice) (\<lambda>_.
         and_then (load_extra s) (\<lambda>(extra, s).
         and_then (aug_e_with_root key_bits root extra) (\<lambda>d. Inr (d, s))))))
       else and_then (load_extra s) (\<lambda>(extra, s). Inr (aug_e_empty key_bits extra, s)))"

section \<open>Trees\<close>

text \<open>The leaves and forks below a prefix, the forks in the order of the parser and of the builder.\<close>

fun node_leaves :: "bool list \<Rightarrow> ('v, 'e) aug_node \<Rightarrow> (bit_key, 'v \<times> 'e) btree_map" where
  "node_leaves p (AugLeaf label extra val) = [(mk_key (p @ label), (val, extra))]"
| "node_leaves p (AugFork label left right extra) =
     node_leaves (p @ label @ [False]) left @ node_leaves (p @ label @ [True]) right"

fun parser_forks :: "bool list \<Rightarrow> ('v, 'e) aug_node \<Rightarrow> 'e aug_fork list" where
  "parser_forks p (AugLeaf label extra val) = []"
| "parser_forks p (AugFork label left right extra) =
     parser_forks (p @ label @ [False]) left @ parser_forks (p @ label @ [True]) right
     @ [\<lparr>fork_prefix = mk_key (p @ label), fork_extra = extra\<rparr>]"

fun builder_forks :: "bool list \<Rightarrow> ('v, 'e) aug_node \<Rightarrow> 'e aug_fork list" where
  "builder_forks p (AugLeaf label extra val) = []"
| "builder_forks p (AugFork label left right extra) =
     \<lparr>fork_prefix = mk_key (p @ label), fork_extra = extra\<rparr>
     # builder_forks (p @ label @ [False]) left @ builder_forks (p @ label @ [True]) right"

lemma forks_permuted: "mset (parser_forks p t) = mset (builder_forks p t)"
  by (induction p t rule: parser_forks.induct) simp_all

text \<open>Labels that add up to keys of \<open>n\<close> bits.\<close>

fun aug_shape :: "nat \<Rightarrow> ('v, 'e) aug_node \<Rightarrow> bool" where
  "aug_shape n (AugLeaf label extra val) \<longleftrightarrow> length label = n"
| "aug_shape n (AugFork label left right extra) \<longleftrightarrow> length label < n
     \<and> aug_shape (n - length label - 1) left \<and> aug_shape (n - length label - 1) right"

lemma total_aug_edge_bits_shape: "aug_shape n t \<Longrightarrow> total_aug_edge_bits t = n"
  by (induction n t rule: aug_shape.induct) auto

lemma node_leaves_keys:
  "aug_shape n t \<Longrightarrow> (k, w) \<in> set (node_leaves p t) \<Longrightarrow> \<exists>r. k = mk_key (p @ r) \<and> length r = n"
proof (induction n t arbitrary: p rule: aug_shape.induct)
  case (2 n label left right extra)
  have "\<exists>b r. k = mk_key ((p @ label @ [b]) @ r) \<and> length r = n - length label - 1"
  proof (cases "(k, w) \<in> set (node_leaves (p @ label @ [False]) left)")
    case True
    have "aug_shape (n - length label - 1) left" using "2.prems"(1) by simp
    from "2.IH"(1)[OF this True] show ?thesis by (elim exE conjE) (intro exI conjI)
  next
    case False
    then have "(k, w) \<in> set (node_leaves (p @ label @ [True]) right)" using "2.prems"(2) by simp
    moreover have "aug_shape (n - length label - 1) right" using "2.prems"(1) by simp
    ultimately show ?thesis using "2.IH"(2) by (metis (no_types))
  qed
  then obtain b r where "k = mk_key ((p @ label @ [b]) @ r)" "length r = n - length label - 1" by blast
  then show ?case using "2.prems"(1) by (intro exI[of _ "label @ b # r"]) simp
qed auto

lemma node_leaves_branches:
  assumes "aug_shape m left" "aug_shape m right"
    "k \<in> fst ` set (node_leaves (p @ [False]) left)" "k' \<in> fst ` set (node_leaves (p @ [True]) right)"
  shows "k < k'"
proof -
  from assms(3) obtain x where x: "x \<in> set (node_leaves (p @ [False]) left)" "k = fst x" by blast
  from assms(4) obtain y where y: "y \<in> set (node_leaves (p @ [True]) right)" "k' = fst y" by blast
  have w: "(k, snd x) \<in> set (node_leaves (p @ [False]) left)"
      "(k', snd y) \<in> set (node_leaves (p @ [True]) right)" using x y by simp_all
  obtain r where r: "k = mk_key ((p @ [False]) @ r)" "length r = m"
    using node_leaves_keys[OF assms(1) w(1)] by blast
  obtain r' where r': "k' = mk_key ((p @ [True]) @ r')" "length r' = m"
    using node_leaves_keys[OF assms(2) w(2)] by blast
  show ?thesis using mk_key_branch_less[of r r' p] r r' by simp
qed

section \<open>What a tree writes\<close>

locale aug_codec = val: value_codec sv lv gv vb vr + ext: value_codec se le ge eb er
  for sv :: "builder \<Rightarrow> 'v \<Rightarrow> builder result" and lv gv vb vr
    and se :: "builder \<Rightarrow> 'e \<Rightarrow> builder result" and le ge eb er
begin

fun node_bits :: "nat \<Rightarrow> ('v, 'e) aug_node \<Rightarrow> bool list" where
  "node_bits n (AugLeaf label extra v) = label_enc label n @ eb extra @ vb v"
| "node_bits n (AugFork label left right extra) = label_enc label n @ eb extra"

fun node_refs :: "nat \<Rightarrow> ('v, 'e) aug_node \<Rightarrow> cell list" where
  "node_refs n (AugLeaf label extra v) = er extra @ vr v"
| "node_refs n (AugFork label left right extra) =
     [mk_cell (node_bits (n - length label - 1) left) (node_refs (n - length label - 1) left),
      mk_cell (node_bits (n - length label - 1) right) (node_refs (n - length label - 1) right)] @ er extra"

fun node_ok :: "nat \<Rightarrow> ('v, 'e) aug_node \<Rightarrow> bool" where
  "node_ok n (AugLeaf label extra v) \<longleftrightarrow> length label = n \<and> ge extra \<and> gv v
     \<and> length (label_enc label n) + length (eb extra) + length (vb v) \<le> 1023
     \<and> length (er extra) + length (vr v) \<le> 4 \<and> list_all wf_cell (er extra @ vr v)"
| "node_ok n (AugFork label left right extra) \<longleftrightarrow> length label < n \<and> ge extra
     \<and> length (label_enc label n) + length (eb extra) \<le> 1023
     \<and> 2 + length (er extra) \<le> 4 \<and> list_all wf_cell (er extra)
     \<and> node_ok (n - length label - 1) left \<and> node_ok (n - length label - 1) right"

lemma node_ok_shape: "node_ok n t \<Longrightarrow> aug_shape n t"
  by (induction n t rule: node_ok.induct) auto

lemma node_ok_bounds: "node_ok n t \<Longrightarrow> length (node_bits n t) \<le> 1023 \<and> length (node_refs n t) \<le> 4"
  by (cases t) auto

lemma wf_node_cell: "node_ok n t \<Longrightarrow> wf_cell (mk_cell (node_bits n t) (node_refs n t))"
  by (induction n t rule: node_ok.induct) (auto simp: wf_mk_cell)

lemma store_aug_node_appends:
  "node_ok n t \<Longrightarrow> length xs + length (node_bits n t) \<le> 1023 \<Longrightarrow> length rs + length (node_refs n t) \<le> 4 \<Longrightarrow>
    store_aug_node sv se (mk_b xs rs) t = Inr (mk_b (xs @ node_bits n t) (rs @ node_refs n t))"
proof (induction n t arbitrary: xs rs rule: node_ok.induct)
  case (1 n label extra v)
  then show ?case by (simp add: store_label_mk ext.store_appends val.store_appends)
next
  case (2 n label left right extra)
  let ?m = "n - length label - 1"
  have ok: "node_ok ?m left" "node_ok ?m right" "length label < n" using "2.prems"(1) by simp_all
  have rem: "node_remaining_after_label (AugFork label left right extra) + length label = n"
    using ok(3) total_aug_edge_bits_shape[OF node_ok_shape[OF ok(1)]]
      total_aug_edge_bits_shape[OF node_ok_shape[OF ok(2)]] by simp
  have build: "store_aug_node sv se builder_new left = Inr (mk_b (node_bits ?m left) (node_refs ?m left))"
    "store_aug_node sv se builder_new right = Inr (mk_b (node_bits ?m right) (node_refs ?m right))"
    using "2.IH"(1)[OF ok(1), of "[]" "[]"] "2.IH"(2)[OF ok(2), of "[]" "[]"]
      node_ok_bounds[OF ok(1)] node_ok_bounds[OF ok(2)] by (simp_all add: builder_new_eq)
  have lab: "store_label (mk_b xs rs) label n = Inr (mk_b (xs @ label_enc label n) rs)"
    by (rule store_label_mk) (use "2.prems" ok(3) in simp_all)
  show ?case
    unfolding store_aug_node.simps rem lab and_then_simps build
    using "2.prems" node_ok_bounds[OF ok(1)] node_ok_bounds[OF ok(2)]
    by (simp add: builder_build_mk store_ref_mk ext.store_appends)
qed

lemma parse_aug_node_reads:
  "node_ok n t \<Longrightarrow> wf_slice s \<Longrightarrow> slice_bits s = node_bits n t @ ys \<Longrightarrow> slice_refs s = node_refs n t @ qs \<Longrightarrow>
    length p + n = key_bits \<Longrightarrow>
    (\<And>k k'. k \<in> fst ` set leaves \<Longrightarrow> k' \<in> fst ` set (node_leaves p t) \<Longrightarrow> k < k') \<Longrightarrow>
    parse_aug_node lv le s n p key_bits (leaves, forks)
      = Inr (t, adv s (length (node_bits n t)) (length (node_refs n t)),
             (leaves @ node_leaves p t, forks @ parser_forks p t))"
proof (induction n t arbitrary: p s ys qs leaves forks rule: node_ok.induct)
  case (1 n label extra v)
  let ?lb = "label_enc label n"
  have lab: "load_label s n = Inr (label, adv s (length ?lb) 0)"
    by (rule load_label_reads[OF 1(2), of label n "eb extra @ vb v @ ys"]) (use 1 in simp_all)
  have w1: "wf_slice (adv s (length ?lb) 0)" using 1 by (intro wf_adv) simp_all
  have e: "le (adv s (length ?lb) 0) = Inr (extra, adv s (length ?lb + length (eb extra)) (length (er extra)))"
    using ext.load_reads[OF _ w1, of extra "vb v @ ys" "vr v @ qs"] 1 by simp
  have w2: "wf_slice (adv s (length ?lb + length (eb extra)) (length (er extra)))"
    using 1 by (intro wf_adv) simp_all
  have v: "lv (adv s (length ?lb + length (eb extra)) (length (er extra)))
      = Inr (v, adv s (length ?lb + length (eb extra) + length (vb v)) (length (er extra) + length (vr v)))"
    using val.load_reads[OF _ w2, of v ys qs] 1 by simp
  have above: "\<forall>k' \<in> fst ` set leaves. k' < mk_key (p @ label)" using 1(6) by simp
  show ?case
    using lab e v 1(1,5) btree_get_above[OF above] btree_insert_above[OF above]
    by (subst parse_aug_node.simps) (simp add: Let_def add.assoc)
next
  case (2 n label left right extra)
  let ?lb = "label_enc label n" and ?m = "n - length label - 1"
  let ?lc = "mk_cell (node_bits ?m left) (node_refs ?m left)" and ?rc = "mk_cell (node_bits ?m right) (node_refs ?m right)"
  have ok: "node_ok ?m left" "node_ok ?m right" "length label < n" using "2.prems"(1) by simp_all
  have lab: "load_label s n = Inr (label, adv s (length ?lb) 0)"
    by (rule load_label_reads[OF "2.prems"(2), of label n "eb extra @ ys"]) (use "2.prems" ok in simp_all)
  have sl: "wf_slice (slice_new ?lc)" "wf_slice (slice_new ?rc)" using wf_node_cell ok by simp_all
  have keys: "k < k'" if "k \<in> fst ` set leaves"
      "k' \<in> fst ` set (node_leaves (p @ label @ [False]) left) \<or> k' \<in> fst ` set (node_leaves (p @ label @ [True]) right)" for k k'
    using that "2.prems"(6) by (simp add: image_Un)
  have L: "parse_aug_node lv le (slice_new ?lc) ?m (p @ label @ [False]) key_bits (leaves, forks)
      = Inr (left, adv (slice_new ?lc) (length (node_bits ?m left)) (length (node_refs ?m left)),
          (leaves @ node_leaves (p @ label @ [False]) left, forks @ parser_forks (p @ label @ [False]) left))"
    by (rule "2.IH"(1)[OF ok(1) sl(1)]) (use "2.prems"(5) ok(3) keys in auto)
  have R: "parse_aug_node lv le (slice_new ?rc) ?m (p @ label @ [True]) key_bits
        (leaves @ node_leaves (p @ label @ [False]) left, forks @ parser_forks (p @ label @ [False]) left)
      = Inr (right, adv (slice_new ?rc) (length (node_bits ?m right)) (length (node_refs ?m right)),
          ((leaves @ node_leaves (p @ label @ [False]) left) @ node_leaves (p @ label @ [True]) right,
           (forks @ parser_forks (p @ label @ [False]) left) @ parser_forks (p @ label @ [True]) right))"
  proof (rule "2.IH"(2)[OF ok(2) sl(2)])
    fix k k' assume k: "k \<in> fst ` set (leaves @ node_leaves (p @ label @ [False]) left)"
      "k' \<in> fst ` set (node_leaves (p @ label @ [True]) right)"
    show "k < k'"
    proof (cases "k \<in> fst ` set leaves")
      case False
      then have "k \<in> fst ` set (node_leaves ((p @ label) @ [False]) left)" using k(1) by (simp add: image_Un)
      then show ?thesis
        using node_leaves_branches[OF node_ok_shape[OF ok(1)] node_ok_shape[OF ok(2)]] k(2) by fastforce
    qed (use keys k(2) in blast)
  qed (use "2.prems"(5) ok(3) in simp_all)
  have fin: "ensure_aug_ref_consumed (adv (slice_new ?lc) (length (node_bits ?m left)) (length (node_refs ?m left))) = Inr ()"
    "ensure_aug_ref_consumed (adv (slice_new ?rc) (length (node_bits ?m right)) (length (node_refs ?m right))) = Inr ()"
    using sl by (simp_all add: ensure_aug_ref_consumed_def slice_is_empty_eq wf_adv)
  have w2: "wf_slice (adv s (length ?lb) 2)" using "2.prems" by (intro wf_adv) simp_all
  have e: "le (adv s (length ?lb) 2) = Inr (extra, adv s (length ?lb + length (eb extra)) (2 + length (er extra)))"
    using ext.load_reads[OF _ w2, of extra ys qs] "2.prems" by simp
  have refs: "slice_refs s = ?lc # ?rc # er extra @ qs" using "2.prems"(4) by simp
  show ?case
    using lab L R fin e ok(3) refs
    by (subst parse_aug_node.simps) (simp add: Let_def load_reference_eq numeral_2_eq_2)
qed

end

sublocale bignum \<subseteq> coins_aug: aug_codec "store_coins X" "load_coins X"
  "\<lambda>w. unat w < 2 ^ 120" "\<lambda>w. var_enc 4 (unat w)" "\<lambda>_. []"
  "store_coins X" "load_coins X" "\<lambda>w. unat w < 2 ^ 120" "\<lambda>w. var_enc 4 (unat w)" "\<lambda>_. []"
  by unfold_locales

section \<open>What the builder makes\<close>

lemma collect_fork_prefix:
  assumes "es \<noteq> []" "\<forall>k \<in> fst ` set es. length lab \<le> length k \<and> take (length lab) k = lab"
  shows "collect_key_bits (fst (hd (entries_at p es))) 0 (length p + length lab) = Inr (p @ lab)"
proof -
  obtain k v es' where es: "es = (k, v) # es'" using assms(1) by (metis neq_Nil_conv surj_pair)
  with assms(2) have k: "length lab \<le> length k" "take (length lab) k = lab" by simp_all
  then show ?thesis
    using collect_key_bits_eq[of 0 "length p + length lab" "p @ k"] by (simp add: es entries_at_def)
qed

text \<open>The tree built from ascending entries has them as its leaves.\<close>

lemma build_aug_node_ok:
  assumes "ascending n es" "es \<noteq> []"
  shows "\<exists>t. build_aug_node (entries_at p es) (length p) n fe forks = Inr (t, forks @ builder_forks p t)
    \<and> aug_shape n t \<and> node_leaves p t = entries_at p es
    \<and> (\<forall>f \<in> set (builder_forks p t). fork_extra f = fe)"
  using assms
proof (induction n arbitrary: p es forks rule: less_induct)
  case (less n)
  obtain lab where lab: "common_prefix_len (entries_at p es) (length p) n = Inr (length lab)"
      "length lab \<le> n" "\<forall>k \<in> fst ` set es. take (length lab) k = lab"
      "length lab < n \<longrightarrow> (\<exists>k \<in> fst ` set es. \<exists>k' \<in> fst ` set es. k ! length lab \<noteq> k' ! length lab)"
      "collect_key_bits (fst (hd (entries_at p es))) (length p) (length lab) = Inr lab"
    using edge_label[OF less.prems] by metis
  have len: "\<forall>k \<in> fst ` set es. length k = n" using less.prems(1) by (simp add: ascending_def)
  have pre: "common_aug_prefix_len (entries_at p es) (length p) n = Inr (length lab)"
    using lab(1) by (simp add: common_aug_prefix_len_def common_prefix_len_def)
  have ne: "entries_at p es \<noteq> []" using less.prems(2) by (simp add: entries_at_def)
  show ?case
  proof (cases "length lab = n")
    case True
    then have keys: "\<forall>k \<in> fst ` set es. k = lab" using lab(3) len by force
    obtain v x where es: "es = [(lab, (v, x))]"
    proof -
      obtain e es' where e: "es = e # es'" using less.prems(2) by (cases es) auto
      then have "es' = []" using keys less.prems(1) by (cases es') (auto simp: ascending_def)
      with e keys that show thesis by (cases e) auto
    qed
    have "build_aug_node (entries_at p es) (length p) n fe forks = Inr (AugLeaf lab x v, forks)"
      using True pre lab(5) by (subst build_aug_node.simps) (simp add: es entries_at_def)
    then show ?thesis by (intro exI[of _ "AugLeaf lab x v"]) (use True in \<open>simp add: es entries_at_def\<close>)
  next
    case False
    with lab(2) have lt: "length lab < n" by simp
    let ?m = "n - length lab - 1"
    obtain fs gs where es: "es = prepend (lab @ [False]) fs @ prepend (lab @ [True]) gs" "fs \<noteq> []" "gs \<noteq> []"
        "ascending ?m fs" "ascending ?m gs"
      using ascending_split[OF less.prems(1) lt lab(3)] lab(4) lt by metis
    have m: "?m < n" using lt by simp
    let ?f = "\<lparr>fork_prefix = mk_key (p @ lab), fork_extra = fe\<rparr>"
    let ?E = "entries_at p es" and ?F = "entries_at (p @ lab @ [False]) fs" and ?G = "entries_at (p @ lab @ [True]) gs"
    obtain l where l: "build_aug_node ?F (length (p @ lab @ [False])) ?m fe (forks @ [?f])
          = Inr (l, (forks @ [?f]) @ builder_forks (p @ lab @ [False]) l)" "aug_shape ?m l"
        "node_leaves (p @ lab @ [False]) l = ?F" "\<forall>f \<in> set (builder_forks (p @ lab @ [False]) l). fork_extra f = fe"
      using less.IH[OF m es(4,2)] by blast
    obtain r where r: "build_aug_node ?G (length (p @ lab @ [True])) ?m fe ((forks @ [?f]) @ builder_forks (p @ lab @ [False]) l)
          = Inr (r, ((forks @ [?f]) @ builder_forks (p @ lab @ [False]) l) @ builder_forks (p @ lab @ [True]) r)" "aug_shape ?m r"
        "node_leaves (p @ lab @ [True]) r = ?G" "\<forall>f \<in> set (builder_forks (p @ lab @ [True]) r). fork_extra f = fe"
      using less.IH[OF m es(5,3)] by blast
    have E: "?E = ?F @ ?G" "length ?F = length fs" using es(1) by (simp_all add: entries_at_def prepend_def split_def)
    have split: "split_position (map fst ?E) (length p + length lab) = length fs"
      using split_position_fork[OF es(2,3), of p lab] es(1) by simp
    have fork: "collect_key_bits (fst (hd ?E)) 0 (length p + length lab) = Inr (p @ lab)"
      by (rule collect_fork_prefix[OF less.prems(2)]) (use lab(2,3) len in auto)
    have sides: "length fs \<noteq> 0" "length fs \<noteq> length ?E" "take (length fs) ?E = ?F" "drop (length fs) ?E = ?G"
      using es(2,3) E by (simp_all add: entries_at_def)
    have depth: "length (p @ lab @ [b]) = length p + length lab + 1" for b by simp
    have "build_aug_node ?E (length p) n fe forks
        = Inr (AugFork lab l r fe, forks @ builder_forks p (AugFork lab l r fe))"
      unfolding build_aug_node.simps[of ?E] pre lab(5) and_then_simps Let_def split fork
      using ne lt sides l(1)[unfolded depth] r(1)[unfolded depth] by simp
    then show ?thesis using l r lt E(1)
      by (intro exI[of _ "AugFork lab l r fe"]) auto
  qed
qed

lemma mset_btree_insert: "btree_get k m = None \<Longrightarrow> mset (btree_insert k v m) = add_mset (k, v) (mset m)"
  by (induction m) (auto simp: btree_get_def split: if_splits)

definition leaf_of :: "('v, 'e) aug_entry \<Rightarrow> bit_key \<times> 'v \<times> 'e" where
  "leaf_of e = (entry_key e, (entry_value e, entry_extra e))"

abbreviation leaf_loop :: "nat \<Rightarrow> (bit_key, 'v \<times> 'e) btree_map \<Rightarrow> ('v, 'e) aug_entry list \<Rightarrow> (bit_key, 'v \<times> 'e) btree_map result" where
  "leaf_loop n m entries \<equiv> try_fold (\<lambda>leaves entry.
       if bk_bit_len (entry_key entry) \<noteq> n then Inl (DictErr DictKeyLength)
       else if btree_get (entry_key entry) leaves \<noteq> None then Inl (DictErr DuplicateKey)
       else Inr (btree_insert (entry_key entry) (entry_value entry, entry_extra entry) leaves)) m entries"

lemma leaf_loop_spec:
  "leaf_loop n m entries = Inr leaves \<Longrightarrow> btree_ordered m \<Longrightarrow>
    btree_ordered leaves \<and> mset leaves = mset m + mset (map leaf_of entries)
    \<and> (\<forall>e \<in> set entries. bk_bit_len (entry_key e) = n)"
proof (induction entries arbitrary: m)
  case (Cons e entries)
  from Cons.prems(1) have e: "bk_bit_len (entry_key e) = n" "btree_get (entry_key e) m = None"
      "leaf_loop n (btree_insert (entry_key e) (entry_value e, entry_extra e) m) entries = Inr leaves"
    by (cases "btree_get (entry_key e) m"; simp split: if_splits)+
  have "btree_ordered leaves" "mset leaves = mset (btree_insert (entry_key e) (entry_value e, entry_extra e) m)
      + mset (map leaf_of entries)" "\<forall>e \<in> set entries. bk_bit_len (entry_key e) = n"
    using Cons.IH[OF e(3) btree_ordered_insert[OF Cons.prems(2)]] by blast+
  with e(1,2) show ?case by (simp add: mset_btree_insert leaf_of_def[of e])
qed simp

lemma leaf_loop_total:
  "\<forall>e \<in> set entries. bk_bit_len (entry_key e) = n \<Longrightarrow> distinct (map entry_key entries) \<Longrightarrow>
    (\<forall>e \<in> set entries. btree_get (entry_key e) m = None) \<Longrightarrow> \<exists>leaves. leaf_loop n m entries = Inr leaves"
proof (induction entries arbitrary: m)
  case (Cons e entries)
  have "\<forall>e' \<in> set entries. btree_get (entry_key e') (btree_insert (entry_key e) (entry_value e, entry_extra e) m) = None"
    using Cons.prems(2,3) unfolding btree_get_insert by (metis distinct.simps(2) image_eqI list.set_map list.set_intros(2) list.simps(9))
  then obtain leaves where "leaf_loop n (btree_insert (entry_key e) (entry_value e, entry_extra e) m) entries = Inr leaves"
    using Cons.IH Cons.prems(1,2) by fastforce
  then show ?case using Cons.prems by simp
qed simp

lemma from_entries_Inr:
  assumes "from_entries n entries fe = Inr d" "\<forall>e \<in> set entries. wf_key (entry_key e)"
  shows "ha_key_bits d = n" "mset (ha_leaves d) = mset (map leaf_of entries)" "btree_ordered (ha_leaves d)"
    "aug_shape n (ha_root d)" "node_leaves [] (ha_root d) = ha_leaves d" "ha_forks d = builder_forks [] (ha_root d)"
    "\<forall>f \<in> set (ha_forks d). fork_extra f = fe"
proof -
  from assms(1) obtain leaves root forks where e: "entries \<noteq> []" "collect_leaves n entries = Inr leaves"
      "build_aug_node leaves 0 n fe [] = Inr (root, forks)"
      "d = \<lparr>ha_key_bits = n, ha_root = root, ha_leaves = leaves, ha_forks = forks\<rparr>"
    by (auto simp: from_entries_def and_then_eq_Inr split: if_splits)
  from leaf_loop_spec[of n "[]" entries leaves] e(2)
  have l: "btree_ordered leaves" "mset leaves = mset (map leaf_of entries)" "\<forall>e \<in> set entries. bk_bit_len (entry_key e) = n"
    by (simp_all add: collect_leaves_def)
  have "set leaves = leaf_of ` set entries" using arg_cong[OF l(2), of set_mset] by simp
  then have "fst ` set leaves \<subseteq> {k. wf_key k \<and> bk_bit_len k = n}"
    using l(3) assms(2) by (auto simp: leaf_of_def)
  note E = ordered_entries[OF l(1) this]
  have "leaves \<noteq> []" using l(2) e(1) by auto
  then obtain t where t: "build_aug_node leaves 0 n fe [] = Inr (t, builder_forks [] t)" "aug_shape n t"
      "node_leaves [] t = leaves" "\<forall>f \<in> set (builder_forks [] t). fork_extra f = fe"
    using build_aug_node_ok[OF E(2), of "[]" fe "[]"] unfolding E(1) by auto
  then have "root = t" "forks = builder_forks [] t" using e(3) by simp_all
  with t e l show "ha_key_bits d = n" "mset (ha_leaves d) = mset (map leaf_of entries)" "btree_ordered (ha_leaves d)"
    "aug_shape n (ha_root d)" "node_leaves [] (ha_root d) = ha_leaves d" "ha_forks d = builder_forks [] (ha_root d)"
    "\<forall>f \<in> set (ha_forks d). fork_extra f = fe" by simp_all
qed

context aug_codec
begin

text \<open>Leaves and fork extras that fit a node of a tree of \<open>n\<close>-bit keys.\<close>

definition leaf_fits :: "nat \<Rightarrow> 'v \<times> 'e \<Rightarrow> bool" where
  "leaf_fits n w \<longleftrightarrow> gv (fst w) \<and> ge (snd w)
     \<and> 2 + bit_length n + n + length (eb (snd w)) + length (vb (fst w)) \<le> 1023
     \<and> length (er (snd w)) + length (vr (fst w)) \<le> 4 \<and> list_all wf_cell (er (snd w) @ vr (fst w))"

definition fork_fits :: "nat \<Rightarrow> 'e \<Rightarrow> bool" where
  "fork_fits n x \<longleftrightarrow> ge x \<and> 2 + bit_length n + n + length (eb x) \<le> 1023
     \<and> length (er x) \<le> 2 \<and> list_all wf_cell (er x)"

lemma node_ok_fits:
  "aug_shape n t \<Longrightarrow> n \<le> N \<Longrightarrow> \<forall>w \<in> snd ` set (node_leaves p t). leaf_fits N w \<Longrightarrow>
    \<forall>f \<in> set (builder_forks p t). fork_fits N (fork_extra f) \<Longrightarrow> node_ok n t"
proof (induction n t arbitrary: p rule: aug_shape.induct)
  case (1 n label extra v)
  then show ?case using length_label_enc_le[of label n] bit_length_mono[of n N]
    by (simp add: leaf_fits_def)
next
  case (2 n label left right extra)
  have "\<forall>w \<in> snd ` set (node_leaves (p @ label @ [False]) left). leaf_fits N w"
    "\<forall>w \<in> snd ` set (node_leaves (p @ label @ [True]) right). leaf_fits N w"
    using "2.prems"(3) by (simp_all add: image_Un)
  moreover have "n - length label - 1 \<le> N" using "2.prems"(2) by simp
  ultimately have "node_ok (n - length label - 1) left" "node_ok (n - length label - 1) right"
    using "2.IH"(1)[of "p @ label @ [False]"] "2.IH"(2)[of "p @ label @ [True]"] "2.prems"(1,4) by simp_all
  moreover have "fork_fits N extra" using "2.prems"(4) by simp
  ultimately show ?case using length_label_enc_le[of label n] bit_length_mono[OF "2.prems"(2)] "2.prems"(1,2)
    by (simp add: fork_fits_def)
qed

lemma hashmap_aug_e_law:
  assumes "from_entries n entries fe = Inr d"
    "\<forall>e \<in> set entries. wf_key (entry_key e) \<and> leaf_fits n (entry_value e, entry_extra e)" "fork_fits n fe"
    "ge tx" "length (eb tx) \<le> 1022" "length (er tx) \<le> 3" "list_all wf_cell (er tx)"
  shows "\<exists>d' s. and_then (store_hashmap_aug_e_with sv se builder_new
        \<lparr>hae_key_bits = n, hae_root = Some d, hae_extra = tx\<rparr>) (\<lambda>b.
      and_then (to_slice b) (\<lambda>s. load_hashmap_aug_e_with lv le s n))
      = Inr (\<lparr>hae_key_bits = n, hae_root = Some d', hae_extra = tx\<rparr>, s)
    \<and> slice_is_empty s \<and> ha_key_bits d' = n \<and> ha_root d' = ha_root d \<and> ha_leaves d' = ha_leaves d
    \<and> mset (ha_forks d') = mset (ha_forks d)"
proof -
  have "\<forall>e \<in> set entries. wf_key (entry_key e)" using assms(2) by blast
  note f = from_entries_Inr[OF assms(1) this]
  let ?t = "ha_root d"
  have "snd ` set (ha_leaves d) = (\<lambda>e. (entry_value e, entry_extra e)) ` set entries"
    using arg_cong[OF f(2), of set_mset] by (simp add: image_image leaf_of_def)
  then have "\<forall>w \<in> snd ` set (node_leaves [] ?t). leaf_fits n w" using assms(2) f(5) by simp
  moreover have "\<forall>f \<in> set (builder_forks [] ?t). fork_fits n (fork_extra f)" using f(6,7) assms(3) by simp
  ultimately have ok: "node_ok n ?t" using node_ok_fits[OF f(4) order_refl] by blast
  let ?c = "mk_cell (node_bits n ?t) (node_refs n ?t)" and ?top = "mk_cell (True # eb tx) (mk_cell (node_bits n ?t) (node_refs n ?t) # er tx)"
  note b = node_ok_bounds[OF ok]
  have st: "store_aug_node sv se builder_new ?t = Inr (mk_b (node_bits n ?t) (node_refs n ?t))"
    using store_aug_node_appends[OF ok, of "[]" "[]"] b by (simp add: builder_new_eq)
  have store: "store_hashmap_aug_e_with sv se builder_new \<lparr>hae_key_bits = n, hae_root = Some d, hae_extra = tx\<rparr>
      = Inr (mk_b (True # eb tx) (?c # er tx))"
    using b st ext.store_appends[OF assms(4), of "[True]" "[?c]"] assms(5,6)
    by (simp add: store_hashmap_aug_e_with_def store_hashmap_aug_with_def store_bit_mk builder_build_mk store_ref_mk builder_new_eq)
  have wf: "wf_cell ?c" "wf_cell ?top" using wf_node_cell[OF ok] assms(5-7) by (simp_all add: wf_mk_cell)
  have parse: "parse_aug_node lv le (slice_new ?c) n [] n ([], [])
      = Inr (?t, adv (slice_new ?c) (length (node_bits n ?t)) (length (node_refs n ?t)), (node_leaves [] ?t, parser_forks [] ?t))"
    using parse_aug_node_reads[OF ok, of "slice_new ?c" "[]" "[]" "[]" n "[]" "[]"] wf by simp
  have consumed: "ensure_aug_ref_consumed (adv (slice_new ?c) (length (node_bits n ?t)) (length (node_refs n ?t))) = Inr ()"
    using wf by (simp add: ensure_aug_ref_consumed_def slice_is_empty_eq wf_adv)
  let ?s = "adv (slice_new ?top) 1 1"
  have ws: "wf_slice ?s" using wf by (intro wf_adv) simp_all
  have top: "le ?s = Inr (tx, adv ?s (length (eb tx)) (length (er tx)))"
    by (rule ext.load_reads[OF assms(4) ws, of "[]" "[]"]) simp_all
  let ?d = "\<lparr>ha_key_bits = n, ha_root = ?t, ha_leaves = node_leaves [] ?t, ha_forks = parser_forks [] ?t\<rparr>"
  have load: "load_hashmap_aug_e_with lv le (slice_new ?top) n
      = Inr (\<lparr>hae_key_bits = n, hae_root = Some ?d, hae_extra = tx\<rparr>, adv ?s (length (eb tx)) (length (er tx)))"
    using parse consumed top wf
    by (simp add: load_hashmap_aug_e_with_def load_bit_eq load_reference_eq deserialize_hashmap_aug_from_slice_def
        aug_e_with_root_def)
  have emp: "slice_is_empty (adv ?s (length (eb tx)) (length (er tx)))"
    using ws wf by (simp add: slice_is_empty_eq wf_adv)
  have run: "and_then (store_hashmap_aug_e_with sv se builder_new \<lparr>hae_key_bits = n, hae_root = Some d, hae_extra = tx\<rparr>)
      (\<lambda>b. and_then (to_slice b) (\<lambda>s. load_hashmap_aug_e_with lv le s n))
      = Inr (\<lparr>hae_key_bits = n, hae_root = Some ?d, hae_extra = tx\<rparr>, adv ?s (length (eb tx)) (length (er tx)))"
    unfolding store using load assms(5,6) by (simp add: to_slice_def builder_build_mk)
  show ?thesis
    by (intro exI[of _ ?d] exI[of _ "adv ?s (length (eb tx)) (length (er tx))"] conjI run emp)
      (simp_all add: f forks_permuted)
qed

end

lemma aug_codec_of: "value_codec sv lv gv vb vr \<Longrightarrow> value_codec se le ge eb er \<Longrightarrow> aug_codec sv lv gv vb vr se le ge eb er"
  by (rule aug_codec.intro)

section \<open>Properties\<close>

text \<open>
  C17: An augmented dictionary made by \<open>from_entries\<close>, stored with \<open>store_hashmap_aug_e_with\<close> and
  loaded with \<open>load_hashmap_aug_e_with\<close>, comes back with the same key width, tree, leaves and
  top-level extra, for every pair of value and extra encoders and decoders that fit
  together; its list of forks is the same up to order.
\<close>

theorem hashmap_aug_e_roundtrip:
  assumes "value_codec sv lv gv vb vr" "value_codec se le ge eb er" "from_entries n entries fe = Inr d"
    and "\<forall>e \<in> set entries. wf_key (entry_key e) \<and> gv (entry_value e) \<and> ge (entry_extra e)
      \<and> 2 + bit_length n + n + length (eb (entry_extra e)) + length (vb (entry_value e)) \<le> 1023
      \<and> length (er (entry_extra e)) + length (vr (entry_value e)) \<le> 4
      \<and> list_all wf_cell (er (entry_extra e) @ vr (entry_value e))"
    and "ge fe \<and> 2 + bit_length n + n + length (eb fe) \<le> 1023 \<and> length (er fe) \<le> 2 \<and> list_all wf_cell (er fe)"
    and "ge tx" "length (eb tx) \<le> 1022" "length (er tx) \<le> 3" "list_all wf_cell (er tx)"
  shows "\<exists>d' s. and_then (store_hashmap_aug_e_with sv se builder_new
        \<lparr>hae_key_bits = n, hae_root = Some d, hae_extra = tx\<rparr>) (\<lambda>b.
      and_then (to_slice b) (\<lambda>s. load_hashmap_aug_e_with lv le s n))
      = Inr (\<lparr>hae_key_bits = n, hae_root = Some d', hae_extra = tx\<rparr>, s)
    \<and> slice_is_empty s \<and> ha_key_bits d' = n \<and> ha_root d' = ha_root d \<and> ha_leaves d' = ha_leaves d
    \<and> mset (ha_forks d') = mset (ha_forks d)"
proof -
  note A = aug_codec_of[OF assms(1,2)]
  show ?thesis
  proof (rule aug_codec.hashmap_aug_e_law[OF A assms(3)])
    show "\<forall>e \<in> set entries. wf_key (entry_key e) \<and> aug_codec.leaf_fits gv vb vr ge eb er n (entry_value e, entry_extra e)"
      using assms(4) by (simp add: aug_codec.leaf_fits_def[OF A])
    show "aug_codec.fork_fits ge eb er n fe" using assms(5) by (simp add: aug_codec.fork_fits_def[OF A])
  qed (use assms in simp_all)
qed

text \<open>Two amounts under 8-bit keys, each with an amount as its extra.\<close>

definition sample_entries :: "(u128, u128) aug_entry list" where
  "sample_entries = [\<lparr>entry_key = mk_key (nat_bits 8 200), entry_value = 1000, entry_extra = 7\<rparr>,
     \<lparr>entry_key = mk_key (nat_bits 8 5), entry_value = 7, entry_extra = 1000\<rparr>]"

lemma sample_amounts: "var_len 7 \<le> 2" "var_len 1000 \<le> 2" "bit_length 8 = 4"
  by (simp_all add: var_len_le_iff bit_length.simps)

lemma from_entries_total_ok:
  assumes "entries \<noteq> []" "\<forall>e \<in> set entries. wf_key (entry_key e) \<and> bk_bit_len (entry_key e) = n"
    "distinct (map entry_key entries)"
  shows "\<exists>d. from_entries n entries fe = Inr d"
proof -
  obtain leaves where l: "leaf_loop n [] entries = Inr leaves"
    using leaf_loop_total[of entries n "[]"] assms(2,3) by (auto simp: btree_get_def)
  note s = leaf_loop_spec[OF l, simplified]
  have "set_mset (mset leaves) = leaf_of ` set entries" unfolding s[THEN conjunct2, THEN conjunct1] by simp
  then have "set leaves = leaf_of ` set entries" by simp
  then have "fst ` set leaves \<subseteq> {k. wf_key k \<and> bk_bit_len k = n}" using assms(2) by (auto simp: leaf_of_def)
  note E = ordered_entries[OF _ this]
  have "leaves \<noteq> []" using s assms(1) by auto
  then have "\<exists>t. build_aug_node leaves 0 n fe [] = Inr (t, builder_forks [] t)"
    using build_aug_node_ok[OF E(2), of "[]" fe "[]"] s unfolding E(1)[OF s[THEN conjunct1]] by auto
  then show ?thesis using assms(1) l by (auto simp: from_entries_def collect_leaves_def)
qed

theorem hashmap_aug_e_roundtrip_witness:
  "\<exists>d d' s. from_entries 8 sample_entries 7 = Inr d
    \<and> and_then (store_hashmap_aug_e_with (store_coins ref_crates) (store_coins ref_crates) builder_new
        \<lparr>hae_key_bits = 8, hae_root = Some d, hae_extra = 1000\<rparr>) (\<lambda>b.
      and_then (to_slice b) (\<lambda>s. load_hashmap_aug_e_with (load_coins ref_crates) (load_coins ref_crates) s 8))
      = Inr (\<lparr>hae_key_bits = 8, hae_root = Some d', hae_extra = 1000\<rparr>, s)
    \<and> ha_root d' = ha_root d \<and> ha_leaves d' = ha_leaves d \<and> mset (ha_forks d') = mset (ha_forks d)"
proof -
  have "nat_bits 8 200 \<noteq> nat_bits 8 5" by (simp add: nat_bits_eq_iff)
  then have "mk_key (nat_bits 8 200) \<noteq> mk_key (nat_bits 8 5)" by (simp add: mk_key_def pack_eq_iff)
  then obtain d where d: "from_entries 8 sample_entries 7 = Inr d"
    using from_entries_total_ok[of sample_entries 8 7] by (auto simp: sample_entries_def)
  note c = ref_bignum.coins.value_codec_axioms
  show ?thesis
    using hashmap_aug_e_roundtrip[OF c c d, of 1000] sample_amounts d by (simp add: sample_entries_def) blast
qed

text \<open>
  \<open>from_entries\<close> succeeds on every non-empty list of entries with distinct canonical keys
  of the right width, and the dictionary it makes has exactly these entries: looking up a
  key gives the value and extra stored under it.
\<close>

theorem from_entries_total:
  assumes "entries \<noteq> []" "\<forall>e \<in> set entries. wf_key (entry_key e) \<and> bk_bit_len (entry_key e) = n"
    "distinct (map entry_key entries)"
  shows "\<exists>d. from_entries n entries fe = Inr d \<and> aug_len d = length entries
    \<and> (\<forall>e \<in> set entries. aug_get_bit_key d (entry_key e) = Inr (Some (entry_value e, entry_extra e)))"
proof -
  obtain d where d: "from_entries n entries fe = Inr d" using from_entries_total_ok[OF assms] by blast
  note f = from_entries_Inr[OF d]
  have wf: "\<forall>e \<in> set entries. wf_key (entry_key e)" using assms(2) by blast
  have len: "aug_len d = length entries" using f(2)[OF wf] by (metis aug_len_def length_map size_mset)
  have dist: "distinct (map fst (ha_leaves d))"
    using f(3)[OF wf] unfolding btree_ordered_def by (simp add: strict_sorted_iff)
  have "aug_get_bit_key d (entry_key e) = Inr (Some (entry_value e, entry_extra e))" if e: "e \<in> set entries" for e
  proof -
    have "leaf_of e \<in># mset (ha_leaves d)" unfolding f(2)[OF wf] using e by simp
    then have "(entry_key e, (entry_value e, entry_extra e)) \<in> set (ha_leaves d)" by (simp add: leaf_of_def)
    with dist e assms(2) f(1)[OF wf] show ?thesis by (simp add: aug_get_bit_key_def btree_get_def)
  qed
  with d len show ?thesis by blast
qed

theorem from_entries_total_witness:
  "\<exists>d. from_entries 8 sample_entries 7 = Inr d \<and> aug_len d = 2
    \<and> aug_get_bit_key d (mk_key (nat_bits 8 5)) = Inr (Some (7, 1000))"
proof -
  have "nat_bits 8 200 \<noteq> nat_bits 8 5" by (simp add: nat_bits_eq_iff)
  then have "mk_key (nat_bits 8 200) \<noteq> mk_key (nat_bits 8 5)" by (simp add: mk_key_def pack_eq_iff)
  then show ?thesis
    using from_entries_total[of sample_entries 8 7] by (auto simp: sample_entries_def numeral_2_eq_2)
qed

end
