(* ===== verification/BocCodec.thy ===== *)
theory BocCodec
  imports Builder
begin

unbundle bit_operations_syntax

text \<open>
  The Bag of Cells format (\<open>src/tvm/boc/api.rs\<close>): the writer, the reader, the structural
  inspection and the text conversions.  A cursor is a position in the byte string; offsets
  and counts are \<open>usize\<close> values, so \<open>read_uint\<close> accumulates in a 64-bit word.

  The reader keeps its per-cell vectors in step, so they are one list of records here.
  \<open>build_parsed_cell\<close> and \<open>compute_raw_cell_hash\<close> recurse along reference indices taken from
  the input; the model bounds them by fuel, one more than the number of cells, and
  \<open>BocSafety\<close> proves that the bound is never reached.
\<close>

definition BOC_GENERIC_MAGIC :: u32 where "BOC_GENERIC_MAGIC = 0xb5ee9c72"
definition BOC_INDEXED_MAGIC :: u32 where "BOC_INDEXED_MAGIC = 0x68ff65f3"
definition BOC_INDEXED_CRC32C_MAGIC :: u32 where "BOC_INDEXED_CRC32C_MAGIC = 0xacc3a728"

section \<open>Numbers\<close>

definition bytes_needed :: "nat \<Rightarrow> nat" where
  "bytes_needed v = (if v = 0 then 1 else div_ceil (bit_length v) 8)"

definition write_uint :: "bytes \<Rightarrow> nat \<Rightarrow> nat \<Rightarrow> bytes" where
  "write_uint buf v sz = buf @ drop (8 - sz) (be_bytes 8 v)"

definition read_uint :: "bytes \<Rightarrow> nat \<Rightarrow> nat \<Rightarrow> (nat \<times> nat) result" where
  "read_uint data pos sz =
     (if length data < pos + sz then Inl (BocErr BocNotEnoughData)
      else Inr (unat (foldl (\<lambda>r i. push_bit 8 r OR ucast (data ! (pos + i))) (0 :: u64) [0..<sz]),
                pos + sz))"

definition u32_be_bytes :: "u32 \<Rightarrow> bytes" where
  "u32_be_bytes w = be_bytes 4 (unat w)"

definition u32_le_bytes :: "u32 \<Rightarrow> bytes" where
  "u32_le_bytes w = rev (be_bytes 4 (unat w))"

definition u32_from_be :: "bytes \<Rightarrow> u32" where
  "u32_from_be bs = word_of_nat (be_val bs)"

definition u32_from_le :: "bytes \<Rightarrow> u32" where
  "u32_from_le bs = word_of_nat (be_val (rev bs))"

section \<open>The writer\<close>

text \<open>\<open>HashMap<[u8; 32], usize>\<close> as a map.\<close>

type_synonym cell_index = "bytes \<rightharpoonup> nat"

fun collect_cells_recursive :: "crates \<Rightarrow> cell \<Rightarrow> cell list \<times> cell_index \<Rightarrow> cell list \<times> cell_index" where
  "collect_cells_recursive X (Cell d n rs ex lv hc dc) (cells, visited) =
     (let hash = cell_hash X (Cell d n rs ex lv hc dc) in
      if visited hash \<noteq> None then (cells, visited)
      else let (cells, visited) = fold (collect_cells_recursive X) rs (cells, visited)
           in (cells @ [Cell d n rs ex lv hc dc], visited(hash \<mapsto> length cells)))"

definition collect_cells :: "crates \<Rightarrow> cell \<Rightarrow> cell list" where
  "collect_cells X root = fst (collect_cells_recursive X root ([], Map.empty))"

definition serialize_cell :: "crates \<Rightarrow> cell \<Rightarrow> cell_index \<Rightarrow> nat \<Rightarrow> bytes result" where
  "serialize_cell X c cell_map ref_index_size =
     try_fold (\<lambda>res r. case cell_map (cell_hash X r) of
         None \<Rightarrow> Inl (BocErr BocReferenceNotInMap)
       | Some ref_idx \<Rightarrow> Inr (write_uint res ref_idx ref_index_size))
       (descriptors c @ serialize_data c) (cell_references c)"

text \<open>The loop that numbers and serializes the collected cells.\<close>

definition serialize_cells :: "crates \<Rightarrow> nat \<Rightarrow> cell list \<Rightarrow> (bytes list \<times> cell_index \<times> nat) result" where
  "serialize_cells X size_bytes cells =
     try_fold (\<lambda>(sers, cell_map, idx) c.
         let cell_map = cell_map(cell_hash X c \<mapsto> idx) in
         and_then (serialize_cell X c cell_map size_bytes) (\<lambda>ser. Inr (sers @ [ser], cell_map, idx + 1)))
       ([], Map.empty, 0) cells"

definition serialize_boc :: "crates \<Rightarrow> cell \<Rightarrow> bool \<Rightarrow> bytes result" where
  "serialize_boc X root has_crc32 =
     (let cells = collect_cells X root;
          root_index = length (takeWhile (\<lambda>c. cell_hash X c \<noteq> cell_hash X root) cells)
      in if root_index = length cells then Inl (BocErr BocRootNotCollected)
         else let size_bytes = bytes_needed (length cells) in
         and_then (serialize_cells X size_bytes cells) (\<lambda>(serialized_cells, _, _).
         let cells_size = sum_list (map length serialized_cells);
             offset_bytes = bytes_needed cells_size;
             flags = push_bit 6 (if has_crc32 then 1 else 0 :: u8);
             res = u32_be_bytes BOC_GENERIC_MAGIC @ [flags OR word_of_nat size_bytes] @ [word_of_nat offset_bytes];
             res = write_uint res (length cells) size_bytes;
             res = write_uint res 1 size_bytes;
             res = write_uint res 0 size_bytes;
             res = write_uint res cells_size offset_bytes;
             res = write_uint res root_index size_bytes;
             res = res @ concat serialized_cells
         in Inr (if has_crc32 then res @ u32_le_bytes (crc32_iso_hdlc X res) else res)))"

section \<open>The header\<close>

record boc_layout =
  lay_cells_count :: nat
  lay_size_bytes :: nat
  lay_root_indices :: "nat list"
  lay_cells_data :: bytes

fun read_root_indices :: "bytes \<Rightarrow> nat \<Rightarrow> nat \<Rightarrow> nat \<Rightarrow> nat \<Rightarrow> (nat list \<times> nat) result" where
  "read_root_indices data pos size_bytes cells_count 0 = Inr ([], pos)"
| "read_root_indices data pos size_bytes cells_count (Suc k) =
     and_then (read_uint data pos size_bytes) (\<lambda>(root_idx, pos).
       if cells_count \<le> root_idx then Inl (BocErr BocBadRootIndex)
       else and_then (read_root_indices data pos size_bytes cells_count k) (\<lambda>(rest, pos).
         Inr (root_idx # rest, pos)))"

text \<open>The offset table of an indexed bag: ascending, and ending at the size of the cells.\<close>

fun check_index_table :: "bytes \<Rightarrow> nat \<Rightarrow> nat \<Rightarrow> nat \<Rightarrow> nat \<Rightarrow> nat \<Rightarrow> nat result" where
  "check_index_table data pos offset_bytes cells_size previous_offset 0 = Inr pos"
| "check_index_table data pos offset_bytes cells_size previous_offset (Suc k) =
     and_then (map_err (\<lambda>_. BocErr BocMalformedIndex) (read_uint data pos offset_bytes)) (\<lambda>(offset, pos).
       if offset < previous_offset \<or> cells_size < offset then Inl (BocErr BocMalformedIndex)
       else if k = 0 \<and> offset \<noteq> cells_size then Inl (BocErr BocMalformedIndex)
       else check_index_table data pos offset_bytes cells_size offset k)"

definition parse_boc_generic_layout :: "crates \<Rightarrow> bytes \<Rightarrow> boc_layout result" where
  "parse_boc_generic_layout X data =
     (if length data \<le> 4 then Inl (BocErr BocUnexpectedEnd)
      else let flags_and_size = data ! 4;
               has_idx = flags_and_size AND 0x80 \<noteq> 0;
               has_crc32 = flags_and_size AND 0x40 \<noteq> 0;
               has_cache_bits = flags_and_size AND 0x20 \<noteq> 0;
               size_bytes = unat (flags_and_size AND 0x07) in
      if has_cache_bits then Inl (BocErr BocCacheBits)
      else if size_bytes = 0 \<or> 8 < size_bytes then Inl (BocErr BocBadSizeBytes)
      else if length data \<le> 5 then Inl (BocErr BocUnexpectedEnd)
      else let offset_bytes = unat (data ! 5) in
      if offset_bytes = 0 \<or> 8 < offset_bytes then Inl (BocErr BocBadOffsetBytes)
      else
      and_then (read_uint data 6 size_bytes) (\<lambda>(cells_count, pos).
      and_then (read_uint data pos size_bytes) (\<lambda>(roots_count, pos).
      if roots_count = 0 then Inl (BocErr BocNoRoots)
      else
      and_then (read_uint data pos size_bytes) (\<lambda>(absent_count, pos).
      and_then (read_uint data pos offset_bytes) (\<lambda>(cells_size, pos).
      and_then (read_root_indices data pos size_bytes cells_count roots_count) (\<lambda>(root_indices, pos).
      and_then (if has_idx then check_index_table data pos offset_bytes cells_size 0 cells_count else Inr pos)
        (\<lambda>cells_start.
      if 2 ^ 64 \<le> cells_start + cells_size then Inl (BocErr BocBadCellsSize)
      else let cells_end = cells_start + cells_size;
               checksum_size = (if has_crc32 then 4 else 0) in
      if length data < checksum_size then Inl (BocErr BocMissingCrc)
      else if length data - checksum_size < cells_end then Inl (BocErr BocBadCellsSize)
      else if length data \<noteq> cells_end + checksum_size then Inl (BocErr BocTrailingBytes)
      else if has_crc32 \<and> u32_from_le (take 4 (drop cells_end data)) \<noteq> crc32_iso_hdlc X (take cells_end data)
      then Inl (BocErr BocCrcMismatch)
      else Inr \<lparr>lay_cells_count = cells_count, lay_size_bytes = size_bytes,
                lay_root_indices = root_indices,
                lay_cells_data = take cells_size (drop cells_start data)\<rparr>)))))))"

section \<open>Cell records\<close>

definition trailing_zeros :: "u8 \<Rightarrow> nat" where
  "trailing_zeros w = length (takeWhile Not (rev (byte_bits w)))"

definition decode_cell_data :: "bytes \<Rightarrow> u8 \<Rightarrow> (bytes \<times> nat) result" where
  "decode_cell_data data d2 =
     (if length data \<noteq> div_ceil (unat d2) 2 then Inl (BocErr BocDataSizeMismatch)
      else if d2 = 0 then Inr ([], 0)
      else if unat d2 mod 2 = 0 then Inr (data, unat d2 div 2 * 8)
      else if data = [] then Inl (BocErr BocMissingTopUpByte)
      else if last data = 0 then Inl (BocErr BocMissingTopUpBit)
      else let zero_padding_bits = trailing_zeros (last data) in
      if 7 < zero_padding_bits then Inl (BocErr BocInvalidTopUpBit)
      else let data_bits_in_last_byte = 7 - zero_padding_bits in
      if data_bits_in_last_byte = 0 then Inl (BocErr BocTopUpWithoutData)
      else let last_idx = length data - 1 in
      Inr (data[last_idx := (data ! last_idx) AND push_bit (8 - data_bits_in_last_byte) 0xFF],
           last_idx * 8 + data_bits_in_last_byte))"

fun read_refs :: "bytes \<Rightarrow> nat \<Rightarrow> nat \<Rightarrow> nat \<Rightarrow> (nat list \<times> nat) result" where
  "read_refs data pos ref_index_size 0 = Inr ([], pos)"
| "read_refs data pos ref_index_size (Suc k) =
     and_then (map_err (\<lambda>_. BocErr BocEndOfRefs) (read_uint data pos ref_index_size)) (\<lambda>(r, pos).
       and_then (read_refs data pos ref_index_size k) (\<lambda>(rest, pos). Inr (r # rest, pos)))"

record parsed_cell =
  pc_refs :: "nat list"
  pc_is_exotic :: bool
  pc_level :: u8
  pc_raw_data :: bytes
  pc_bit_len :: nat

text \<open>One iteration of the first pass of \<open>parse_cells\<close>.\<close>

definition parse_cell_record :: "bytes \<Rightarrow> nat \<Rightarrow> nat \<Rightarrow> (parsed_cell \<times> nat) result" where
  "parse_cell_record data pos ref_index_size =
     (if length data \<le> pos then Inl (BocErr BocEndOfCells)
      else if length data \<le> pos + 1 then Inl (BocErr BocEndOfCells)
      else let d1 = data ! pos; d2 = data ! (pos + 1); pos = pos + 2;
               ref_count = unat (d1 AND 0x07);
               exotic = d1 AND 0x08 \<noteq> 0;
               level = drop_bit 5 d1 AND 0x03 in
      if d1 AND 0x10 \<noteq> 0 \<or> d1 AND 0x80 \<noteq> 0 then Inl (BocErr BocReservedBits)
      else let data_size = div_ceil (unat d2) 2 in
      if length data < pos + data_size then Inl (BocErr BocCellDataExceeds)
      else let serialized = take data_size (drop pos data) in
      and_then (read_refs data (pos + data_size) ref_index_size ref_count) (\<lambda>(refs, pos).
      and_then (decode_cell_data serialized d2) (\<lambda>(cell_data, bit_len).
      Inr (\<lparr>pc_refs = refs, pc_is_exotic = exotic, pc_level = level,
            pc_raw_data = cell_data, pc_bit_len = bit_len\<rparr>, pos))))"

fun parse_cell_records :: "bytes \<Rightarrow> nat \<Rightarrow> nat \<Rightarrow> nat \<Rightarrow> (parsed_cell list \<times> nat) result" where
  "parse_cell_records data pos ref_index_size 0 = Inr ([], pos)"
| "parse_cell_records data pos ref_index_size (Suc k) =
     and_then (parse_cell_record data pos ref_index_size) (\<lambda>(pc, pos).
     and_then (parse_cell_records data pos ref_index_size k) (\<lambda>(rest, pos). Inr (pc # rest, pos)))"

section \<open>Resolving references\<close>

datatype visit_state = Unvisited | Visiting | Done

type_synonym parse_state = "visit_state list \<times> cell option list"

definition finish_parsed_cell :: "parsed_cell \<Rightarrow> cell list \<Rightarrow> cell result" where
  "finish_parsed_cell pc references =
     and_then (if pc_is_exotic pc
               then map_err (\<lambda>_. BocErr BocInvalidExotic)
                 (with_exotic_data (pc_raw_data pc) (pc_bit_len pc) references)
               else and_then (with_data (pc_raw_data pc) (pc_bit_len pc)) (\<lambda>c.
                 add_references c references)) (\<lambda>c.
     if cell_level c \<noteq> pc_level pc then Inl (BocErr BocBadLevel) else Inr c)"

fun build_parsed_cell :: "nat \<Rightarrow> parsed_cell list \<Rightarrow> nat \<Rightarrow> parse_state \<Rightarrow> (cell \<times> parse_state) result" where
  "build_parsed_cell 0 pcs index st = Inl OutOfFuel"
| "build_parsed_cell (Suc fuel) pcs index (states, cells) =
     and_then (index_or_panic states index) (\<lambda>state.
     case state of
       Done \<Rightarrow> and_then (index_or_panic cells index) (\<lambda>c. case c of
           Some c \<Rightarrow> Inr (c, (states, cells))
         | None \<Rightarrow> Inl (BocErr BocNotResolved))
     | Visiting \<Rightarrow> Inl (BocErr BocCycle)
     | Unvisited \<Rightarrow>
         and_then (index_or_panic pcs index) (\<lambda>pc.
         and_then (try_fold (\<lambda>(references, st) ref_idx.
             if length pcs \<le> ref_idx then Inl (BocErr BocBadReference)
             else and_then (build_parsed_cell fuel pcs ref_idx st) (\<lambda>(c, st). Inr (references @ [c], st)))
           ([], (states[index := Visiting], cells)) (pc_refs pc)) (\<lambda>(references, (states, cells)).
         and_then (finish_parsed_cell pc references) (\<lambda>c.
         Inr (c, (states[index := Done], cells[index := Some c]))))))"

definition parse_cells :: "bytes \<Rightarrow> nat \<Rightarrow> nat \<Rightarrow> cell list result" where
  "parse_cells data count ref_index_size =
     and_then (parse_cell_records data 0 ref_index_size count) (\<lambda>(pcs, pos).
     if pos \<noteq> length data then Inl (BocErr BocTrailingCells)
     else and_then (try_fold (\<lambda>st index.
           and_then (build_parsed_cell (count + 1) pcs index st) (\<lambda>(_, st). Inr st))
         (replicate count Unvisited, replicate count None) [0..<count]) (\<lambda>(_, cells).
       try_fold (\<lambda>acc c. case c of Some c \<Rightarrow> Inr (acc @ [c]) | None \<Rightarrow> Inl (BocErr BocNotResolved))
         [] cells))"

definition deserialize_boc_generic_roots :: "crates \<Rightarrow> bytes \<Rightarrow> cell list result" where
  "deserialize_boc_generic_roots X data =
     and_then (parse_boc_generic_layout X data) (\<lambda>layout.
     and_then (parse_cells (lay_cells_data layout) (lay_cells_count layout) (lay_size_bytes layout)) (\<lambda>cells.
     try_fold (\<lambda>acc root_idx. and_then (index_or_panic cells root_idx) (\<lambda>c. Inr (acc @ [c])))
       [] (lay_root_indices layout)))"

definition deserialize_boc_roots :: "crates \<Rightarrow> bytes \<Rightarrow> cell list result" where
  "deserialize_boc_roots X data =
     (if length data < 4 then Inl (BocErr BocTooShort)
      else let magic = u32_from_be (take 4 data) in
        if magic = BOC_GENERIC_MAGIC then deserialize_boc_generic_roots X data
        else if magic = BOC_INDEXED_MAGIC \<or> magic = BOC_INDEXED_CRC32C_MAGIC
        then Inl (BocErr BocIndexedUnsupported)
        else Inl (BocErr BocBadMagic))"

definition deserialize_boc :: "crates \<Rightarrow> bytes \<Rightarrow> cell result" where
  "deserialize_boc X data =
     and_then (deserialize_boc_roots X data) (\<lambda>roots.
       case roots of [root] \<Rightarrow> Inr root | _ \<Rightarrow> Inl (BocErr BocNotSingleRoot))"

section \<open>Structural inspection\<close>

record raw_cell_record =
  raw_descriptors :: bytes
  raw_serialized_data :: bytes
  raw_refs :: "nat list"

definition parse_raw_cell :: "bytes \<Rightarrow> nat \<Rightarrow> nat \<Rightarrow> (raw_cell_record \<times> nat) result" where
  "parse_raw_cell data pos ref_index_size =
     (if length data \<le> pos then Inl (BocErr BocEndOfCells)
      else if length data \<le> pos + 1 then Inl (BocErr BocEndOfCells)
      else let d1 = data ! pos; d2 = data ! (pos + 1); pos = pos + 2;
               ref_count = unat (d1 AND 0x07) in
      if d1 AND 0x10 \<noteq> 0 \<or> d1 AND 0x80 \<noteq> 0 then Inl (BocErr BocReservedBits)
      else if 4 < ref_count then Inl (BocErr BocTooManyRefs)
      else let data_size = div_ceil (unat d2) 2 in
      if length data < pos + data_size then Inl (BocErr BocCellDataExceeds)
      else and_then (read_refs data (pos + data_size) ref_index_size ref_count) (\<lambda>(refs, pos').
      Inr (\<lparr>raw_descriptors = [d1, d2], raw_serialized_data = take data_size (drop pos data),
            raw_refs = refs\<rparr>, pos')))"

fun parse_raw_cells_loop :: "bytes \<Rightarrow> nat \<Rightarrow> nat \<Rightarrow> nat \<Rightarrow> (raw_cell_record list \<times> nat) result" where
  "parse_raw_cells_loop data pos ref_index_size 0 = Inr ([], pos)"
| "parse_raw_cells_loop data pos ref_index_size (Suc k) =
     and_then (parse_raw_cell data pos ref_index_size) (\<lambda>(rc, pos).
     and_then (parse_raw_cells_loop data pos ref_index_size k) (\<lambda>(rest, pos). Inr (rc # rest, pos)))"

definition parse_raw_cells :: "bytes \<Rightarrow> nat \<Rightarrow> nat \<Rightarrow> raw_cell_record list result" where
  "parse_raw_cells data count ref_index_size =
     and_then (parse_raw_cells_loop data 0 ref_index_size count) (\<lambda>(cells, pos).
     if pos \<noteq> length data then Inl (BocErr BocTrailingCells)
     else if list_all (\<lambda>rc. list_all (\<lambda>r. r < length cells) (raw_refs rc)) cells then Inr cells
     else Inl (BocErr BocBadReference))"

type_synonym hash_state = "visit_state list \<times> bytes list \<times> u16 list"

definition saturating_succ :: "u16 \<Rightarrow> u16" where
  "saturating_succ w = (if w = 0xFFFF then w else w + 1)"

fun compute_raw_cell_hash ::
    "crates \<Rightarrow> nat \<Rightarrow> raw_cell_record list \<Rightarrow> nat \<Rightarrow> hash_state \<Rightarrow> hash_state result" where
  "compute_raw_cell_hash X 0 cells index st = Inl OutOfFuel"
| "compute_raw_cell_hash X (Suc fuel) cells index (states, hash_of, depth_of) =
     and_then (index_or_panic states index) (\<lambda>state.
     case state of
       Done \<Rightarrow> Inr (states, hash_of, depth_of)
     | Visiting \<Rightarrow> Inl (BocErr BocCycle)
     | Unvisited \<Rightarrow>
         and_then (index_or_panic cells index) (\<lambda>rc.
         and_then (try_fold (\<lambda>st ref_idx. compute_raw_cell_hash X fuel cells ref_idx st)
           (states[index := Visiting], hash_of, depth_of) (raw_refs rc)) (\<lambda>(states, hash_of, depth_of).
         and_then (try_fold (\<lambda>acc r. and_then (index_or_panic depth_of r) (\<lambda>d. Inr (acc @ [d]))) [] (raw_refs rc)) (\<lambda>ds.
         and_then (try_fold (\<lambda>acc r. and_then (index_or_panic hash_of r) (\<lambda>h. Inr (acc @ [h]))) [] (raw_refs rc)) (\<lambda>hs.
         let depth = (if ds = [] then 0 else saturating_succ (fold max ds 0));
             hash = sha256 X (raw_descriptors rc @ raw_serialized_data rc
               @ concat (map u16_be ds) @ concat hs)
         in Inr (states[index := Done], hash_of[index := hash], depth_of[index := depth]))))))"

definition compute_raw_cell_hashes :: "crates \<Rightarrow> raw_cell_record list \<Rightarrow> bytes list result" where
  "compute_raw_cell_hashes X cells =
     and_then (try_fold (\<lambda>st index. compute_raw_cell_hash X (length cells + 1) cells index st)
       (replicate (length cells) Unvisited, replicate (length cells) (replicate 32 0),
        replicate (length cells) 0) [0..<length cells]) (\<lambda>(_, hash_of, _). Inr hash_of)"

definition inspect_boc_generic :: "crates \<Rightarrow> bytes \<Rightarrow> bytes list result" where
  "inspect_boc_generic X data =
     and_then (parse_boc_generic_layout X data) (\<lambda>layout.
     and_then (parse_raw_cells (lay_cells_data layout) (lay_cells_count layout) (lay_size_bytes layout)) (\<lambda>cells.
     and_then (compute_raw_cell_hashes X cells) (\<lambda>hash_of.
     try_fold (\<lambda>acc root_idx. and_then (index_or_panic hash_of root_idx) (\<lambda>h. Inr (acc @ [h])))
       [] (lay_root_indices layout))))"

definition inspect_boc :: "crates \<Rightarrow> bytes \<Rightarrow> bytes list result" where
  "inspect_boc X data =
     (if length data < 4 then Inl (BocErr BocTooShort)
      else let magic = u32_from_be (take 4 data) in
        if magic = BOC_GENERIC_MAGIC then inspect_boc_generic X data
        else if magic = BOC_INDEXED_MAGIC \<or> magic = BOC_INDEXED_CRC32C_MAGIC
        then Inl (BocErr BocIndexedUnsupported)
        else Inl (BocErr BocBadMagic))"

section \<open>Text\<close>

text \<open>
  \<open>hex.trim().replace(" ", "").replace("\n", "")\<close>: \<open>trim\<close> removes white space at both ends,
  of which the ASCII part is modelled.
\<close>

definition is_whitespace :: "char \<Rightarrow> bool" where
  "is_whitespace c \<longleftrightarrow> (of_char c :: nat) \<in> {9, 10, 11, 12, 13, 32}"

definition trim :: "string \<Rightarrow> string" where
  "trim s = rev (dropWhile is_whitespace (rev (dropWhile is_whitespace s)))"

definition hex_to_boc :: "crates \<Rightarrow> text_codecs \<Rightarrow> string \<Rightarrow> cell result" where
  "hex_to_boc X T s = (case hex_decode T (filter (\<lambda>c. c \<noteq> CHR '' '' \<and> c \<noteq> CHR 0x0A) (trim s)) of
      None \<Rightarrow> Inl (BocErr BocBadHex)
    | Some bs \<Rightarrow> deserialize_boc X bs)"

definition boc_to_hex :: "crates \<Rightarrow> text_codecs \<Rightarrow> cell \<Rightarrow> bool \<Rightarrow> string result" where
  "boc_to_hex X T c has_crc32 = and_then (serialize_boc X c has_crc32) (\<lambda>bs. Inr (hex_encode T bs))"

definition boc_to_base64 :: "crates \<Rightarrow> text_codecs \<Rightarrow> cell \<Rightarrow> bool \<Rightarrow> string result" where
  "boc_to_base64 X T c has_crc32 =
     and_then (serialize_boc X c has_crc32) (\<lambda>bs. Inr (base64_encode T STANDARD bs))"

definition base64_to_boc :: "crates \<Rightarrow> text_codecs \<Rightarrow> string \<Rightarrow> cell result" where
  "base64_to_boc X T s = (case base64_decode T STANDARD s of
      None \<Rightarrow> Inl (BocErr BocBadBase64)
    | Some bs \<Rightarrow> deserialize_boc X bs)"

end
