(* ===== verification/BocRecords.thy ===== *)
theory BocRecords
  imports BocCodec
begin

unbundle bit_operations_syntax

text \<open>
  Byte-level facts on the Bag of Cells format: the fixed-width numbers, the two descriptor
  bytes and the top-up bit of a cell record, in both directions.  What \<open>serialize_cell\<close>
  writes, \<open>parse_cell_record\<close> reads; what \<open>decode_cell_data\<close> accepts, \<open>serialize_data\<close> writes
  back byte for byte.
\<close>

section \<open>Fixed-width numbers\<close>

lemma write_uint_eq: "sz \<le> 8 \<Longrightarrow> write_uint buf v sz = buf @ be_bytes sz v"
  by (simp add: write_uint_def drop_be_bytes)

lemma shift_or_byte_u64: "push_bit 8 r OR ucast (b :: u8) = r * 256 + (ucast b :: u64)"
proof -
  have "push_bit 8 r AND (ucast b :: u64) = 0"
    by (rule bit_word_eqI) (auto simp: bit_simps dest: bit_imp_le_length)
  then have "push_bit 8 r OR ucast b = push_bit 8 r + (ucast b :: u64)"
    by (simp add: disjunctive_add_eq_or)
  then show ?thesis by (simp add: push_bit_eq_mult mult.commute)
qed

lemma foldl_shift_bytes:
  "foldl (\<lambda>r b. push_bit 8 r OR ucast b) (word_of_nat a :: u64) bs
     = word_of_nat (a * 256 ^ length bs + be_val bs)"
proof (induction bs arbitrary: a)
  case (Cons b bs)
  have "(push_bit 8 (word_of_nat a) OR ucast b :: u64) = word_of_nat (a * 256 + unat b)"
    unfolding shift_or_byte_u64 by (simp add: unsigned_ucast_eq)
  then show ?case by (simp only: foldl_Cons Cons.IH) (simp add: algebra_simps)
qed simp

lemma read_uint_eq:
  assumes "sz \<le> 8"
  shows "read_uint data pos sz =
    (if length data < pos + sz then Inl (BocErr BocNotEnoughData)
     else Inr (be_val (take sz (drop pos data)), pos + sz))"
proof (cases "length data < pos + sz")
  case False
  let ?bs = "take sz (drop pos data)"
  have "map (\<lambda>i. data ! (pos + i)) [0..<sz] = ?bs"
    using False by (intro nth_equalityI) auto
  then have "foldl (\<lambda>r i. push_bit 8 r OR ucast (data ! (pos + i))) (0 :: u64) [0..<sz]
      = foldl (\<lambda>r b. push_bit 8 r OR ucast b) (word_of_nat 0) ?bs"
    using foldl_map[of "\<lambda>r b. push_bit 8 r OR ucast b" "0::u64" "\<lambda>i. data ! (pos + i)" "[0..<sz]"]
    by simp
  also have "\<dots> = word_of_nat (be_val ?bs)" unfolding foldl_shift_bytes by simp
  finally have eq: "foldl (\<lambda>r i. push_bit 8 r OR ucast (data ! (pos + i))) (0 :: u64) [0..<sz]
      = word_of_nat (be_val ?bs)" .
  have "be_val ?bs < 256 ^ sz" using be_val_less[of ?bs] False by simp
  also have "\<dots> \<le> 256 ^ 8" using assms by (intro power_increasing) simp_all
  finally have "be_val ?bs < 2 ^ 64" by simp
  with False eq show ?thesis by (simp add: read_uint_def unat_of_nat)
qed (simp add: read_uint_def)

lemma read_uint_be_bytes:
  assumes "sz \<le> 8" "v < 256 ^ sz"
  shows "read_uint (pre @ be_bytes sz v @ post) (length pre) sz = Inr (v, length pre + sz)"
  using assms by (simp add: read_uint_eq be_val_be_bytes)

lemma bytes_needed_bounds: "v < 256 ^ bytes_needed v" "0 < bytes_needed v"
  "v < 256 ^ k \<Longrightarrow> 0 < k \<Longrightarrow> bytes_needed v \<le> k"
proof -
  have "bit_length v \<le> 8 * div_ceil (bit_length v) 8" by (rule div_ceil_bounds)
  then have "v < 2 ^ (8 * div_ceil (bit_length v) 8)" by (simp only: bit_length_le_iff)
  then show "v < 256 ^ bytes_needed v"
    by (auto simp: bytes_needed_def power_mult)
  show "0 < bytes_needed v"
    by (simp add: bytes_needed_def) (metis bit_length_pos_iff div_ceil_eq_0 neq0_conv)
  assume "v < 256 ^ k" "0 < k"
  then have "bit_length v \<le> 8 * k" by (simp add: bit_length_le_iff power_mult)
  with \<open>0 < k\<close> show "bytes_needed v \<le> k" by (simp add: bytes_needed_def div_ceil_le_iff)
qed

section \<open>Descriptors\<close>

lemma unat_d2:
  assumes "n \<le> 1023"
  shows "unat (word_of_nat (n div 8 + div_ceil n 8) :: u8) = n div 8 + div_ceil n 8"
proof -
  have "n div 8 + div_ceil n 8 \<le> 255"
    using assms unfolding div_ceil_8 by (auto split: if_splits) presburger+
  then show ?thesis by (simp only: unat_of_nat) simp
qed

lemma div_ceil_d2: "div_ceil (n div 8 + div_ceil n 8) 2 = div_ceil n 8"
  by (auto simp: div_ceil_8) (auto simp: div_ceil_def)

lemma if_not_swap: "(if \<not> b then x else y) = (if b then y else x)"
  by simp

lemma d1_reads:
  fixes d :: u8
  shows "unat (d AND 7) = unat d mod 8" "unat (drop_bit 5 d AND 3) = unat d div 32 mod 4"
    "d AND 8 = 0 \<longleftrightarrow> even (unat d div 8)" "d AND 16 = 0 \<longleftrightarrow> even (unat d div 16)"
    "d AND 128 = 0 \<longleftrightarrow> even (unat d div 128)"
proof -
  have m: "unat (w AND (2 ^ k - 1)) = unat w mod 2 ^ k" for w :: u8 and k
    by (simp only: mask_eq_exp_minus_1[symmetric] take_bit_eq_mask[symmetric] unsigned_take_bit_eq)
      (simp only: take_bit_eq_mod)
  show "unat (d AND 7) = unat d mod 8" using m[of d 3] by simp
  show "unat (drop_bit 5 d AND 3) = unat d div 32 mod 4"
  proof -
    have "unat (drop_bit 5 d) = unat d div 32" unfolding unat_drop_bit_eq by (simp add: drop_bit_eq_div)
    then show ?thesis using m[of "drop_bit 5 d" 2] by simp
  qed
  have b: "d AND 2 ^ k = 0 \<longleftrightarrow> even (unat d div 2 ^ k)" for k
  proof -
    have "bit (unat d) k = bit d k" by (simp add: bit_unsigned_iff)
    then show ?thesis unfolding and_exp_eq_0_iff_not_bit by (simp add: bit_iff_odd)
  qed
  show "d AND 8 = 0 \<longleftrightarrow> even (unat d div 8)" using b[of 3] by simp
  show "d AND 16 = 0 \<longleftrightarrow> even (unat d div 16)" using b[of 4] by simp
  show "d AND 128 = 0 \<longleftrightarrow> even (unat d div 128)" using b[of 7] by simp
qed

lemma unat_d1:
  fixes e :: bool
  assumes "r \<le> 4" "l \<le> 3"
  shows "unat (word_of_nat r + (if e then 8 else 0) + l * 32 :: u8)
    = r + (if e then 8 else 0) + unat l * 32"
proof -
  have l: "unat l \<le> 3" using assms(2) by (simp add: word_le_nat_alt)
  have "word_of_nat r + (if e then 8 else 0) + l * 32
      = (word_of_nat (r + (if e then 8 else 0) + unat l * 32) :: u8)" by simp
  then show ?thesis using l assms(1) by (simp only: unat_of_nat) simp
qed

lemma d1_fields:
  fixes e :: bool
  assumes "r \<le> 4" "l \<le> 3"
  defines "d1 \<equiv> word_of_nat r + (if e then 8 else 0) + l * 32 :: u8"
  shows "unat (d1 AND 7) = r" "d1 AND 8 = 0 \<longleftrightarrow> \<not> e" "drop_bit 5 d1 AND 3 = l"
    "d1 AND 16 = 0" "d1 AND 128 = 0"
proof -
  have l: "unat l \<le> 3" using assms(2) by (simp add: word_le_nat_alt)
  have u: "unat d1 = r + (if e then 8 else 0) + unat l * 32" unfolding d1_def by (rule unat_d1[OF assms(1,2)])
  from l assms(1) show "unat (d1 AND 7) = r" "d1 AND 8 = 0 \<longleftrightarrow> \<not> e" "d1 AND 16 = 0" "d1 AND 128 = 0"
    unfolding d1_reads u by (cases e; simp; presburger)+
  have "unat (drop_bit 5 d1 AND 3) = unat l"
    using l assms(1) unfolding d1_reads u by (cases e; simp)
  then show "drop_bit 5 d1 AND 3 = l" by (simp only: word_unat_eq_iff)
qed

lemma byte_fields:
  assumes "(u::nat) < 256" "even (u div 16)" "even (u div 128)"
  shows "u = u mod 8 + (if even (u div 8) then 0 else 8) + u div 32 mod 4 * 32"
proof -
  have "u div 128 < 2" using assms(1) by linarith
  with assms(3) have "u div 128 = 0" by (metis even_iff_mod_2_eq_zero mod_less)
  then have c: "u div 32 mod 4 = u div 32" by (simp add: div_eq_0_iff)
  have d: "u div 16 = u div 8 div 2" "u div 32 = u div 16 div 2" by (simp_all flip: div_mult2_eq)
  have b: "u div 16 = 2 * (u div 32)" using assms(2) d(2) by (metis dvd_mult_div_cancel)
  have a: "u div 8 = 2 * (u div 16) + u div 8 mod 2" unfolding d(1) by simp
  have "u = 8 * (u div 8) + u mod 8" by simp
  moreover have "8 * (u div 8) = 32 * (u div 32) + 8 * (u div 8 mod 2)" using a b by linarith
  ultimately have "u = u mod 8 + 8 * (u div 8 mod 2) + 32 * (u div 32)" by linarith
  moreover have "8 * (u div 8 mod 2) = (if even (u div 8) then 0 else 8)"
    by (simp add: even_iff_mod_2_eq_zero)
  ultimately show ?thesis unfolding c by linarith
qed

lemma d1_unique:
  assumes "unat (d1 AND 7) \<le> 4" "d1 AND 16 = 0" "d1 AND 128 = 0"
  shows "d1 = word_of_nat (unat (d1 AND 7)) + (if d1 AND 8 \<noteq> 0 then 8 else 0)
    + (drop_bit 5 d1 AND 3 :: u8) * 32"
proof -
  have l: "drop_bit 5 d1 AND 3 \<le> (3 :: u8)" by (simp add: word_le_nat_alt d1_reads)
  have "unat d1 < 256" using unsigned_less[of d1, where ?'a=nat] by simp
  with assms(2,3) have "unat d1 = unat d1 mod 8 + (if even (unat d1 div 8) then 0 else 8)
      + unat d1 div 32 mod 4 * 32"
    unfolding d1_reads by (intro byte_fields)
  then have "unat d1 = unat (word_of_nat (unat (d1 AND 7)) + (if d1 AND 8 \<noteq> 0 then 8 else 0)
      + (drop_bit 5 d1 AND 3 :: u8) * 32)"
    unfolding unat_d1[OF assms(1) l, of "d1 AND 8 \<noteq> 0"] unfolding d1_reads by (simp only: if_not_swap)
  then show ?thesis by (simp only: word_unat_eq_iff)
qed

section \<open>The top-up bit\<close>

lemma decode_odd:
  assumes "length data = div_ceil (unat d2) 2" "odd (unat d2)" "last data \<noteq> 0"
    "trailing_zeros (last data) < 7"
  shows "decode_cell_data data d2 =
    (let n = (length data - 1) * 8 + (7 - trailing_zeros (last data))
     in Inr (truncate_data data n, n))"
proof -
  have ne: "data \<noteq> []" using assms(1,2) by (auto simp: div_ceil_def elim!: oddE)
  define k where "k = 7 - trailing_zeros (last data)"
  define n where "n = (length data - 1) * 8 + k"
  have k: "0 < k" "k < 8" using assms(4) by (auto simp: k_def)
  have n: "n mod 8 = k" "div_ceil n 8 = length data"
    using k ne by (auto simp: n_def div_ceil_8)
  have d2: "d2 \<noteq> 0" "unat d2 mod 2 \<noteq> 0" using assms(2) by (auto simp: even_iff_mod_2_eq_zero)
  show ?thesis
    using assms(1,3,4) ne d2 k n
    unfolding decode_cell_data_def truncate_data_def Let_def k_def[symmetric] n_def[symmetric] n
    by (simp add: n_def)
qed

lemma last_byte_bits:
  assumes "bytes_bits data = xs @ ys" "length ys = 8"
  shows "byte_bits (last data) = ys"
proof -
  have "data \<noteq> []" using assms by auto
  then have "bytes_bits data = bytes_bits (butlast data) @ byte_bits (last data)"
    by (metis append_butlast_last_id bytes_bits_simps append_Nil2)
  with assms show ?thesis by (simp add: append_eq_append_conv)
qed

lemma top_up_last:
  assumes "bytes_bits data = xs @ True # replicate m False" "m < 8"
  shows "last data \<noteq> 0" "trailing_zeros (last data) = m"
proof -
  have "8 * length data = length xs + Suc m" using arg_cong[OF assms(1), of length] by simp
  then have l: "7 - m \<le> length xs" by presburger
  define zs where "zs = drop (length xs - (7 - m)) xs"
  have "bytes_bits data = take (length xs - (7 - m)) xs @ zs @ True # replicate m False"
    using assms(1) by (simp add: zs_def)
  then have b: "byte_bits (last data) = zs @ True # replicate m False"
    by (rule last_byte_bits) (use assms(2) l in \<open>simp add: zs_def\<close>)
  have "byte_bits 0 = replicate 8 False" by (simp add: byte_bits_def numeral_eq_Suc)
  with b show "last data \<noteq> 0" by (metis in_set_conv_decomp in_set_replicate)
  show "trailing_zeros (last data) = m" by (simp add: trailing_zeros_def b takeWhile_append)
qed

lemma serialize_data_bits:
  assumes "cell_data c = pack xs" "cell_bit_len c = length xs" "length xs mod 8 \<noteq> 0"
  shows "bytes_bits (serialize_data c) = xs @ True # replicate (7 - length xs mod 8) False"
proof -
  let ?n = "length xs"
  have pad: "8 * div_ceil ?n 8 - ?n = Suc (7 - ?n mod 8)"
    using assms(3) by (simp add: div_ceil_8) presburger
  have "?n \<noteq> 8 * div_ceil ?n 8" using assms(3) by (metis mod_mult_self1_is_0)
  then have len: "?n < 8 * length (pack xs)" using div_ceil_bounds(1)[of ?n] by simp
  then have "?n div 8 < length (pack xs)" by (simp add: div_less_iff_less_mult)
  then have "serialize_data c = set_bit_at (pack xs) ?n True"
    using assms by (simp add: serialize_data_def set_bit_at_def Let_def)
  then show ?thesis using len by (simp add: bytes_bits_set_bit_at bytes_bits_pack pad list_update_append)
qed

lemma serialize_data_full:
  "cell_bit_len c mod 8 = 0 \<Longrightarrow> serialize_data c = cell_data c"
  by (simp add: serialize_data_def)

lemma length_serialize_data [simp]: "length (serialize_data c) = length (cell_data c)"
  by (simp add: serialize_data_def Let_def)

lemma decode_serialize_data:
  assumes "cell_data c = pack xs" "cell_bit_len c = length xs" "length xs \<le> 1023"
  shows "decode_cell_data (serialize_data c) (word_of_nat (length xs div 8 + div_ceil (length xs) 8))
    = Inr (cell_data c, cell_bit_len c)"
proof -
  let ?n = "length xs" and ?d2 = "word_of_nat (length xs div 8 + div_ceil (length xs) 8) :: u8"
  note d2 = unat_d2[OF assms(3)]
  have len: "length (serialize_data c) = div_ceil (unat ?d2) 2"
    unfolding d2 div_ceil_d2 by (simp add: assms)
  show ?thesis
  proof (cases "?n mod 8 = 0")
    case True
    have "?n div 8 + div_ceil ?n 8 = 2 * (?n div 8)" using True by (simp add: div_ceil_8)
    then have u: "unat ?d2 = 2 * (?n div 8)" using d2 by simp
    show ?thesis
    proof (cases "?n = 0")
      case False
      then have "?d2 \<noteq> 0" using u True by (metis div_eq_0_iff mod_less mult_eq_0_iff unsigned_0 zero_neq_numeral)
      moreover have "?n div 8 * 8 = ?n" using True by auto
      ultimately show ?thesis using len u True assms
        by (simp only: decode_cell_data_def) (simp add: serialize_data_full)
    qed (use assms in \<open>simp add: decode_cell_data_def serialize_data_def div_ceil_def\<close>)
  next
    case False
    have u: "unat ?d2 = 2 * (?n div 8) + 1" unfolding d2 using False by (simp add: div_ceil_8)
    note bits = serialize_data_bits[OF assms(1,2) False]
    have "?n mod 8 < 8" by simp
    then have lt: "7 - ?n mod 8 < 7" using False by auto
    note last = top_up_last[OF bits]
    have n: "(length (serialize_data c) - 1) * 8 + (7 - trailing_zeros (last (serialize_data c))) = ?n"
      using lt False last(2) assms(1) by (simp add: div_ceil_8)
    have "decode_cell_data (serialize_data c) ?d2 = Inr (truncate_data (serialize_data c) ?n, ?n)"
      using decode_odd[OF len] lt last u unfolding n Let_def by simp
    moreover have "truncate_data (serialize_data c) ?n = pack xs"
      using div_ceil_bounds(1)[of ?n] assms(1) by (subst truncate_data_pack) (simp_all add: bits)
    ultimately show ?thesis using assms by simp
  qed
qed

lemma byte_top_up:
  assumes "w \<noteq> 0"
  obtains zs where "byte_bits w = zs @ True # replicate (trailing_zeros w) False"
proof -
  have "\<exists>b \<in> set (rev (byte_bits w)). \<not> Not b"
  proof (rule ccontr)
    assume "\<not> ?thesis"
    then have "byte_bits w = replicate 8 False"
      using replicate_length_same[of "byte_bits w" False] by auto
    also have "\<dots> = byte_bits 0" by (simp add: byte_bits_def numeral_eq_Suc)
    finally show False using assms by simp
  qed
  then have "dropWhile Not (rev (byte_bits w)) \<noteq> []" by (simp add: dropWhile_eq_Nil_conv)
  then obtain b ys where d: "dropWhile Not (rev (byte_bits w)) = b # ys" by (meson neq_Nil_conv)
  then have b: "b" using hd_dropWhile[of Not "rev (byte_bits w)"] by simp
  have t: "takeWhile Not (rev (byte_bits w)) = replicate (trailing_zeros w) False"
    unfolding trailing_zeros_def by (rule replicate_length_same[symmetric]) (auto dest: set_takeWhileD)
  have "rev (byte_bits w) = replicate (trailing_zeros w) False @ b # ys"
    by (metis d t takeWhile_dropWhile_id)
  then have "byte_bits w = rev (replicate (trailing_zeros w) False @ b # ys)"
    by (metis rev_rev_ident)
  with b that[of "rev ys"] show thesis by simp
qed

lemma decode_cell_data_Inr:
  assumes "decode_cell_data data d2 = Inr (d, n)"
  shows "n \<le> 1023" "d = pack (take n (bytes_bits data))" "n \<le> 8 * length data"
    "d2 = word_of_nat (n div 8 + div_ceil n 8)"
    "cell_data c = d \<Longrightarrow> cell_bit_len c = n \<Longrightarrow> serialize_data c = data"
proof -
  have u: "unat d2 \<le> 255" using unsigned_less[of d2, where ?'a=nat] by simp
  have len: "length data = div_ceil (unat d2) 2"
    using assms by (auto simp: decode_cell_data_def split: if_splits)
  have *: "n \<le> 1023 \<and> d = pack (take n (bytes_bits data)) \<and> n \<le> 8 * length data
    \<and> unat d2 = n div 8 + div_ceil n 8
    \<and> (cell_data c = d \<longrightarrow> cell_bit_len c = n \<longrightarrow> serialize_data c = data)"
  proof (cases "even (unat d2)")
    case True
    then have "d = data" "n = unat d2 div 2 * 8"
      using assms len by (auto simp: decode_cell_data_def even_iff_mod_2_eq_zero div_ceil_def split: if_splits)
    moreover from True have "length data = unat d2 div 2" using len by (auto simp: div_ceil_def elim!: evenE)
    ultimately show ?thesis using True u by (auto simp: serialize_data_full mult.commute elim!: evenE)
  next
    case False
    then have odd: "unat d2 mod 2 \<noteq> 0" "d2 \<noteq> 0" "data \<noteq> []" using len
      by (auto simp: div_ceil_def elim!: oddE)
    then have tz: "last data \<noteq> 0" "trailing_zeros (last data) < 7"
      using assms len by (auto simp: decode_cell_data_def Let_def split: if_splits)
    define m where "m = trailing_zeros (last data)"
    from decode_odd[OF len] False tz assms
    have n: "n = (length data - 1) * 8 + (7 - m)" and d: "d = truncate_data data n"
      by (simp_all add: m_def Let_def)
    have k: "n mod 8 = 7 - m" "n div 8 = length data - 1" unfolding n by simp_all
    have l: "2 * length data = unat d2 + 1" using len False by (auto simp: div_ceil_def elim!: oddE)
    have "n < 8 * length data" using odd(3) by (cases data) (auto simp: n)
    obtain zs where zs: "byte_bits (last data) = zs @ True # replicate m False"
      using byte_top_up[OF tz(1)] unfolding m_def by blast
    have lz: "length zs = 7 - m" using arg_cong[OF zs, of length] by simp
    have bb: "bytes_bits data = bytes_bits (butlast data) @ zs @ True # replicate m False"
      using odd(3) zs by (metis append_butlast_last_id bytes_bits_simps append_Nil2)
    define xs where "xs = bytes_bits (butlast data) @ zs"
    have lx: "length xs = n" using lz by (simp add: xs_def n mult.commute)
    have tk: "take n (bytes_bits data) = xs" using bb lx by (simp add: xs_def)
    have "serialize_data c = data" if c: "cell_data c = d" "cell_bit_len c = n"
    proof -
      have "cell_data c = pack xs" using c d tk \<open>n < _\<close> by (simp add: truncate_data_pack)
      then have "bytes_bits (serialize_data c) = xs @ True # replicate (7 - length xs mod 8) False"
        by (rule serialize_data_bits) (use c lx k tz in \<open>simp_all add: m_def\<close>)
      moreover have "7 - n mod 8 = m" using k tz(2) by (simp add: m_def)
      ultimately have "bytes_bits (serialize_data c) = bytes_bits data"
        using bb unfolding lx by (simp add: xs_def)
      then show ?thesis by simp
    qed
    moreover have "unat d2 = n div 8 + div_ceil n 8"
      using l k tz(2) odd(3) by (cases data) (auto simp: div_ceil_8 m_def)
    moreover have "n \<le> 1023" using l u odd(3) by (simp add: n)
    ultimately show ?thesis using d \<open>n < _\<close> by (simp add: truncate_data_pack)
  qed
  then have "unat d2 = n div 8 + div_ceil n 8" by blast
  then show "d2 = word_of_nat (n div 8 + div_ceil n 8)" 
    by (metis of_nat_unat ucast_id)
  from * show "n \<le> 1023" "d = pack (take n (bytes_bits data))" "n \<le> 8 * length data"
    "cell_data c = d \<Longrightarrow> cell_bit_len c = n \<Longrightarrow> serialize_data c = data" by blast+
qed

section \<open>Cell records\<close>

definition record_bytes :: "nat \<Rightarrow> cell \<Rightarrow> nat list \<Rightarrow> bytes" where
  "record_bytes sz c idxs = descriptors c @ serialize_data c @ concat (map (be_bytes sz) idxs)"

definition parsed_of :: "cell \<Rightarrow> nat list \<Rightarrow> parsed_cell" where
  "parsed_of c idxs = \<lparr>pc_refs = idxs, pc_is_exotic = is_exotic c, pc_level = cell_level c,
     pc_raw_data = cell_data c, pc_bit_len = cell_bit_len c\<rparr>"

lemma length_record_bytes:
  "length (record_bytes sz c idxs) = 2 + length (cell_data c) + sz * length idxs"
  by (induction idxs) (simp_all add: record_bytes_def descriptors_def)

lemma length_record_bytes_le:
  assumes "wf_cell c" "length idxs = length (cell_references c)" "sz \<le> 8"
  shows "length (record_bytes sz c idxs) \<le> 256"
proof -
  have "sz * length idxs \<le> 8 * 4" using assms wf_cell_bounds(2)[OF assms(1)] by (intro mult_mono) auto
  moreover have "length (cell_data c) \<le> 128"
    using wf_cell_bounds(1,3)[OF assms(1)] by (simp add: div_ceil_le_iff)
  ultimately show ?thesis by (simp add: length_record_bytes)
qed

lemma read_refs_be_bytes:
  assumes "sz \<le> 8" "\<forall>i \<in> set idxs. i < 256 ^ sz"
  shows "read_refs (pre @ concat (map (be_bytes sz) idxs) @ post) (length pre) sz (length idxs)
    = Inr (idxs, length pre + sz * length idxs)"
  using assms(2)
proof (induction idxs arbitrary: pre)
  case (Cons i idxs)
  have "read_uint (pre @ be_bytes sz i @ concat (map (be_bytes sz) idxs) @ post) (length pre) sz
      = Inr (i, length (pre @ be_bytes sz i))"
    using read_uint_be_bytes[OF assms(1), of i pre "concat (map (be_bytes sz) idxs) @ post"] Cons.prems
    by simp
  then show ?case using Cons.IH[of "pre @ be_bytes sz i"] Cons.prems by simp
qed simp

lemma parse_cell_record_reads:
  assumes "wf_cell c" "length idxs = length (cell_references c)" "sz \<le> 8" "\<forall>i \<in> set idxs. i < 256 ^ sz"
  shows "parse_cell_record (pre @ record_bytes sz c idxs @ post) (length pre) sz
    = Inr (parsed_of c idxs, length pre + length (record_bytes sz c idxs))"
proof -
  let ?data = "pre @ record_bytes sz c idxs @ post"
  obtain d1 d2 where ds: "descriptors c = [d1, d2]" by (simp add: descriptors_def)
  have d1: "d1 = word_of_nat (length (cell_references c)) + (if is_exotic c then 8 else 0) + cell_level c * 32"
    and d2: "d2 = word_of_nat (cell_bit_len c div 8 + div_ceil (cell_bit_len c) 8)"
    using ds by (simp_all add: descriptors_def)
  note w = wf_cell_bounds[OF assms(1)]
  note f = d1_fields[OF w(2) wf_cell_level_le[OF assms(1)], of "is_exotic c", folded d1]
  have size: "div_ceil (unat d2) 2 = length (serialize_data c)"
    unfolding d2 unat_d2[OF w(1)] div_ceil_d2 using w(3) by simp
  have dec: "decode_cell_data (serialize_data c) d2 = Inr (cell_data c, cell_bit_len c)"
    using decode_serialize_data[of c "cell_bits c"] w by (simp add: d2)
  have nth: "?data ! length pre = d1" "?data ! (length pre + 1) = d2"
    by (simp_all add: record_bytes_def ds nth_append)
  have tk: "take (div_ceil (unat d2) 2) (drop (length pre + 2) ?data) = serialize_data c"
    unfolding size by (simp add: record_bytes_def ds)
  have "read_refs ?data (length pre + 2 + div_ceil (unat d2) 2) sz (length (cell_references c))
      = Inr (idxs, length pre + length (record_bytes sz c idxs))"
    using read_refs_be_bytes[OF assms(3,4), of "pre @ descriptors c @ serialize_data c" post] assms(2)
    unfolding size by (simp add: record_bytes_def ds length_concat comp_def sum_list_triv)
  moreover have "length (serialize_data c) + 2 + length pre \<le> length ?data" "length pre + 1 < length ?data"
      "record_bytes sz c idxs \<noteq> []"
    by (simp_all add: record_bytes_def ds)
  ultimately show ?thesis
    unfolding parse_cell_record_def Let_def nth tk f
    using dec f(4,5) by (simp add: parsed_of_def size f)
qed

lemma finish_parsed_of:
  assumes "wf_cell c"
  shows "finish_parsed_cell (parsed_of c idxs) (cell_references c) = Inr c"
proof (cases "cell_exotic c")
  case None
  note w = wf_cell_bounds[OF assms]
  have "with_data (cell_data c) (cell_bit_len c) = Inr (mk_cell (cell_bits c) [])"
    unfolding cell_bits_def
    by (rule with_data_eq) (use w(1,3) div_ceil_bounds(1)[of "cell_bit_len c"] in simp_all)
  moreover have "add_references (mk_cell (cell_bits c) []) (cell_references c) = Inr c"
    using add_references_mk_cell[of "[]" "cell_bits c" "cell_references c"] w(2)
      wf_ordinary_eq[OF assms None] by (metis append_Nil add_0 le0 list.size(3))
  ultimately show ?thesis using None by (simp add: finish_parsed_cell_def parsed_of_def is_exotic_def)
next
  case (Some k)
  then show ?thesis using wf_exotic_eq[OF assms Some]
    by (simp add: finish_parsed_cell_def parsed_of_def is_exotic_def)
qed

lemma finish_parsed_cell_Inr:
  assumes "finish_parsed_cell pc refs = Inr c" "list_all wf_cell refs"
    "pc_raw_data pc = pack xs" "pc_bit_len pc = length xs" "length xs \<le> 1023"
  shows "wf_cell c" "cell_references c = refs" "is_exotic c = pc_is_exotic pc"
    "cell_level c = pc_level pc" "cell_data c = pc_raw_data pc" "cell_bit_len c = pc_bit_len pc"
proof -
  have "wf_cell c \<and> cell_references c = refs \<and> is_exotic c = pc_is_exotic pc
      \<and> cell_data c = pc_raw_data pc \<and> cell_bit_len c = pc_bit_len pc"
  proof (cases "pc_is_exotic pc")
    case True
    with assms(1) have e: "with_exotic_data (pc_raw_data pc) (pc_bit_len pc) refs = Inr c"
      by (auto simp: finish_parsed_cell_def and_then_eq_Inr split: if_splits)
    then have "cell_data c = pack (take (length xs) (bytes_bits (pack xs)))" "cell_bit_len c = length xs"
      by (auto simp: with_exotic_data_def and_then_eq_Inr validate_cell_data_eq_Inr_iff assms(3,4) split: if_splits)
    with wf_with_exotic_data[OF e assms(2)] True assms(3,4) show ?thesis by (simp add: is_exotic_def)
  next
    case False
    with assms have "add_references (mk_cell xs []) refs = Inr c"
      by (auto simp: finish_parsed_cell_def and_then_eq_Inr with_data_eq_Inr_iff split: if_splits)
    then have "c = mk_cell xs refs" "length refs \<le> 4"
      by (simp_all add: add_references_mk_cell split: if_splits)
    with assms False show ?thesis by (simp add: wf_mk_cell)
  qed
  then show "wf_cell c" "cell_references c = refs" "is_exotic c = pc_is_exotic pc"
    "cell_data c = pc_raw_data pc" "cell_bit_len c = pc_bit_len pc" by blast+
  show "cell_level c = pc_level pc"
    using assms(1) by (auto simp: finish_parsed_cell_def and_then_eq_Inr split: if_splits)
qed

end
