(* ===== verification/BocWriter.thy ===== *)
theory BocWriter
  imports BocRecords
begin

unbundle bit_operations_syntax

text \<open>
  The writer of bags of cells.  \<open>collect_cells\<close> lists the cells of a tree once per hash,
  every reference before its parent; \<open>serialize_cells\<close> then writes one record per cell,
  whose reference indices are positions in that list.  Representation hashes identify
  cells as long as SHA-256 has no collision among the representations at hand.
\<close>

section \<open>Representation hashes\<close>

definition cell_repr :: "crates \<Rightarrow> cell \<Rightarrow> bytes" where
  "cell_repr X c = descriptors c @ serialize_data c
     @ concat (map (\<lambda>r. u16_be (cell_depth r)) (cell_references c))
     @ concat (map (cell_hash X) (cell_references c))"

definition collision_free :: "crates \<Rightarrow> cell set \<Rightarrow> bool" where
  "collision_free X C \<longleftrightarrow> inj_on (sha256 X) (cell_repr X ` C)"

lemma cell_hash_repr: "wf_cell c \<Longrightarrow> cell_hash X c = sha256 X (cell_repr X c)"
  by (simp add: wf_cell_hash_eq cell_repr_def)

lemma length_u16_be [simp]: "length (u16_be w) = 2"
  by (simp add: u16_be_def)

lemma descriptors_eqD:
  assumes "wf_cell c" "wf_cell d" "descriptors c = descriptors d"
  shows "length (cell_references c) = length (cell_references d)" "is_exotic c = is_exotic d"
    "cell_level c = cell_level d" "length (cell_data c) = length (cell_data d)"
proof -
  note fc = d1_fields[OF wf_cell_bounds(2)[OF assms(1)] wf_cell_level_le[OF assms(1)], of "is_exotic c"]
  note fd = d1_fields[OF wf_cell_bounds(2)[OF assms(2)] wf_cell_level_le[OF assms(2)], of "is_exotic d"]
  from assms(3) have d1: "word_of_nat (length (cell_references c)) + (if is_exotic c then 8 else 0) + cell_level c * 32
      = word_of_nat (length (cell_references d)) + (if is_exotic d then 8 else 0) + cell_level d * 32"
    and d2: "(word_of_nat (cell_bit_len c div 8 + div_ceil (cell_bit_len c) 8) :: u8)
      = word_of_nat (cell_bit_len d div 8 + div_ceil (cell_bit_len d) 8)"
    by (simp_all add: descriptors_def)
  show "length (cell_references c) = length (cell_references d)" "cell_level c = cell_level d"
      "is_exotic c = is_exotic d"
    using fc(1-3) fd(1-3) unfolding d1 by simp_all
  have "cell_bit_len c div 8 + div_ceil (cell_bit_len c) 8 = cell_bit_len d div 8 + div_ceil (cell_bit_len d) 8"
    using d2 unat_d2[OF wf_cell_bounds(1)[OF assms(1)]] unat_d2[OF wf_cell_bounds(1)[OF assms(2)]] by simp
  then have "div_ceil (cell_bit_len c) 8 = div_ceil (cell_bit_len d) 8" by (metis div_ceil_d2)
  then show "length (cell_data c) = length (cell_data d)"
    using wf_cell_bounds(3)[OF assms(1)] wf_cell_bounds(3)[OF assms(2)] by simp
qed

text \<open>A representation determines everything but the identity of the references.\<close>

lemma decode_wf_cell:
  assumes "wf_cell c"
  shows "decode_cell_data (serialize_data c) (descriptors c ! 1) = Inr (cell_data c, cell_bit_len c)"
  using decode_serialize_data[of c "cell_bits c"] wf_cell_bounds[OF assms] by (simp add: descriptors_def)

lemma wf_cell_eqI:
  assumes "wf_cell c" "wf_cell d" "cell_data c = cell_data d" "cell_bit_len c = cell_bit_len d"
    "cell_references c = cell_references d" "is_exotic c = is_exotic d"
  shows "c = d"
proof (cases "cell_exotic c")
  case None
  then have "cell_exotic d = None" using assms(6) by (simp add: is_exotic_def)
  then show ?thesis using wf_ordinary_eq[OF assms(1) None] wf_ordinary_eq[OF assms(2)] assms
    by (metis cell_bits_def)
next
  case (Some k)
  then obtain k' where "cell_exotic d = Some k'" using assms(6) by (auto simp: is_exotic_def)
  with wf_exotic_eq[OF assms(1) Some] wf_exotic_eq[OF assms(2)] assms show ?thesis
    by (metis sum.inject(2))
qed

lemma concat_map_equal_length:
  assumes "concat (map f xs) @ us = concat (map g ys) @ vs" "length xs = length ys"
    "\<And>x. x \<in> set xs \<Longrightarrow> length (f x) = k" "\<And>y. y \<in> set ys \<Longrightarrow> length (g y) = k"
  shows "map f xs = map g ys" "us = vs"
proof -
  have "map f xs = map g ys \<and> us = vs"
    using assms(2,1,3,4) by (induction xs ys rule: list_induct2) (auto simp: append_eq_append_conv)
  then show "map f xs = map g ys" "us = vs" by blast+
qed

context hashing
begin

lemma length_cell_hash: "wf_cell c \<Longrightarrow> length (cell_hash X c) = 32"
  by (simp add: cell_hash_repr length_sha256)

lemma cell_repr_eqD:
  assumes "wf_cell c" "wf_cell d" "cell_repr X c = cell_repr X d"
  shows "cell_data c = cell_data d" "cell_bit_len c = cell_bit_len d" "is_exotic c = is_exotic d"
    "map (cell_hash X) (cell_references c) = map (cell_hash X) (cell_references d)"
proof -
  let ?tail = "\<lambda>c. concat (map (\<lambda>r. u16_be (cell_depth r)) (cell_references c))
     @ concat (map (cell_hash X) (cell_references c)) @ []"
  have len: "length (descriptors c) = length (descriptors d)" by (simp add: descriptors_def)
  from assms(3) have ds: "descriptors c = descriptors d"
      and rest: "serialize_data c @ ?tail c = serialize_data d @ ?tail d"
    unfolding cell_repr_def using len by (simp_all add: append_eq_append_conv)
  note f = descriptors_eqD[OF assms(1,2) ds]
  from rest f(4) have sd: "serialize_data c = serialize_data d" and tl: "?tail c = ?tail d"
    by (simp_all add: append_eq_append_conv)
  show "is_exotic c = is_exotic d" by (rule f)
  have "(cell_data c, cell_bit_len c) = (cell_data d, cell_bit_len d)"
    using decode_wf_cell[OF assms(1)] decode_wf_cell[OF assms(2)] sd ds by simp
  then show "cell_data c = cell_data d" "cell_bit_len c = cell_bit_len d" by simp_all
  have h: "concat (map (cell_hash X) (cell_references c)) @ []
      = concat (map (cell_hash X) (cell_references d)) @ []"
    by (rule concat_map_equal_length(2)[OF tl f(1), of 2]) simp_all
  have w: "wf_cell r" if "r \<in> set (cell_references c) \<or> r \<in> set (cell_references d)" for r
    using that wf_cell_bounds(4)[OF assms(1)] wf_cell_bounds(4)[OF assms(2)] by (auto simp: list_all_iff)
  show "map (cell_hash X) (cell_references c) = map (cell_hash X) (cell_references d)"
    by (rule concat_map_equal_length(1)[OF h f(1), of 32]) (simp_all add: w length_cell_hash)
qed

lemma cell_hash_injective:
  assumes "collision_free X S" "wf_cell c" "wf_cell d" "subcells c \<subseteq> S" "subcells d \<subseteq> S"
    "cell_hash X c = cell_hash X d"
  shows "c = d"
  using assms(2-6)
proof (induction c arbitrary: d)
  case (Cell dt n rs ex lv hc dc)
  let ?c = "Cell dt n rs ex lv hc dc"
  have "sha256 X (cell_repr X ?c) = sha256 X (cell_repr X d)"
    using Cell.prems(5) cell_hash_repr[OF Cell.prems(1)] cell_hash_repr[OF Cell.prems(2)] by simp
  moreover have "?c \<in> S" "d \<in> S" using Cell.prems(3,4) self_subcell by blast+
  ultimately have "cell_repr X ?c = cell_repr X d"
    using assms(1) unfolding collision_free_def inj_on_def by blast
  note r = cell_repr_eqD[OF Cell.prems(1,2) this]
  have "rs = cell_references d"
  proof (rule nth_equalityI)
    show len: "length rs = length (cell_references d)" using arg_cong[OF r(4), of length] by simp
    fix i assume i: "i < length rs"
    let ?e = "cell_references d ! i"
    have e: "?e \<in> set (cell_references d)" "rs ! i \<in> set rs" using i len by simp_all
    have "wf_cell (rs ! i)" "wf_cell ?e"
      using wf_cell_bounds(4)[OF Cell.prems(1)] wf_cell_bounds(4)[OF Cell.prems(2)] e
      by (simp_all add: list_all_iff)
    moreover have "subcells (rs ! i) \<subseteq> S" "subcells ?e \<subseteq> S"
      using subcells_ref[OF e(1)] e(2) Cell.prems(3,4) by auto
    moreover have "cell_hash X (rs ! i) = cell_hash X ?e"
      using arg_cong[OF r(4), of "\<lambda>l. l ! i"] i len by simp
    ultimately show "rs ! i = ?e" by (rule Cell.IH[OF e(2)])
  qed
  then show ?case by (intro wf_cell_eqI[OF Cell.prems(1,2) r(1,2) _ r(3)]) simp
qed

end


section \<open>Collecting\<close>

definition collected :: "crates \<Rightarrow> cell list \<times> cell_index \<Rightarrow> bool" where
  "collected X st \<longleftrightarrow>
     (\<forall>h i. snd st h = Some i \<longleftrightarrow> i < length (fst st) \<and> cell_hash X (fst st ! i) = h)
     \<and> (\<forall>i < length (fst st). \<forall>r \<in> set (cell_references (fst st ! i)).
          \<exists>j < i. cell_hash X (fst st ! j) = cell_hash X r)"

definition extends :: "cell set \<Rightarrow> cell list \<times> cell_index \<Rightarrow> cell list \<times> cell_index \<Rightarrow> bool" where
  "extends S st st' \<longleftrightarrow> (\<exists>new. fst st' = fst st @ new \<and> set new \<subseteq> S)"

lemma extends_refl [simp]: "extends S st st"
  by (simp add: extends_def)

lemma extends_trans: "extends S st st' \<Longrightarrow> extends T st' st'' \<Longrightarrow> S \<union> T \<subseteq> U \<Longrightarrow> extends U st st''"
  unfolding extends_def by force

lemma collected_seen_mono:
  assumes "collected X st" "collected X st'" "extends S st st'" "snd st h \<noteq> None"
  shows "snd st' h \<noteq> None"
proof -
  from assms(4) obtain i where "snd st h = Some i" by blast
  with assms(1) have "i < length (fst st)" "cell_hash X (fst st ! i) = h" by (simp_all add: collected_def)
  moreover obtain new where "fst st' = fst st @ new" using assms(3) by (auto simp: extends_def)
  ultimately have "snd st' h = Some i" using assms(2) by (simp add: collected_def nth_append)
  then show ?thesis by simp
qed

lemma collected_unseen:
  "collected X st \<Longrightarrow> snd st h = None \<Longrightarrow> i < length (fst st) \<Longrightarrow> cell_hash X (fst st ! i) \<noteq> h"
  unfolding collected_def by (metis option.distinct(1))

lemma collect_fold:
  assumes "\<And>r st. r \<in> set rs \<Longrightarrow> collected X st \<Longrightarrow>
      collected X (collect_cells_recursive X r st) \<and> extends (subcells r) st (collect_cells_recursive X r st)
      \<and> snd (collect_cells_recursive X r st) (cell_hash X r) \<noteq> None"
    and "collected X st"
  shows "collected X (fold (collect_cells_recursive X) rs st)
    \<and> extends (\<Union>r \<in> set rs. subcells r) st (fold (collect_cells_recursive X) rs st)
    \<and> (\<forall>r \<in> set rs. snd (fold (collect_cells_recursive X) rs st) (cell_hash X r) \<noteq> None)"
  using assms
proof (induction rs arbitrary: st)
  case (Cons r rs)
  let ?st = "collect_cells_recursive X r st"
  have r: "collected X ?st" "extends (subcells r) st ?st" "snd ?st (cell_hash X r) \<noteq> None"
    using Cons.prems by auto
  have rs: "collected X (fold (collect_cells_recursive X) rs ?st)"
    "extends (\<Union>r \<in> set rs. subcells r) ?st (fold (collect_cells_recursive X) rs ?st)"
    "\<forall>r \<in> set rs. snd (fold (collect_cells_recursive X) rs ?st) (cell_hash X r) \<noteq> None"
    using Cons.IH[OF Cons.prems(1) r(1)] by auto
  have "extends (\<Union>r \<in> set (r # rs). subcells r) st (fold (collect_cells_recursive X) (r # rs) st)"
    using extends_trans[OF r(2) rs(2)] by simp
  moreover have "snd (fold (collect_cells_recursive X) rs ?st) (cell_hash X r) \<noteq> None"
    by (rule collected_seen_mono[OF r(1) rs(1) rs(2) r(3)])
  ultimately show ?case using rs by simp
qed simp

lemma collected_snoc:
  assumes "collected X (cells, visited)" "visited (cell_hash X c) = None"
    "\<forall>r \<in> set (cell_references c). visited (cell_hash X r) \<noteq> None"
  shows "collected X (cells @ [c], visited(cell_hash X c \<mapsto> length cells))"
proof -
  from assms(1) have v: "visited h = Some i \<longleftrightarrow> i < length cells \<and> cell_hash X (cells ! i) = h" for h i
    by (simp add: collected_def)
  have t: "\<exists>j < i. cell_hash X (cells ! j) = cell_hash X r"
    if "i < length cells" "r \<in> set (cell_references (cells ! i))" for i r
    using assms(1) that by (simp add: collected_def)
  have fresh: "cell_hash X (cells ! i) \<noteq> cell_hash X c" if "i < length cells" for i
    using v[of "cell_hash X c" i] assms(2) that by auto
  have "(visited(cell_hash X c \<mapsto> length cells)) h = Some i
      \<longleftrightarrow> i < length (cells @ [c]) \<and> cell_hash X ((cells @ [c]) ! i) = h" for h i
    using fresh[of i] by (cases "i < length cells") (auto simp: nth_append v)
  moreover have "\<exists>j < i. cell_hash X ((cells @ [c]) ! j) = cell_hash X r"
    if "i < length (cells @ [c])" "r \<in> set (cell_references ((cells @ [c]) ! i))" for i r
  proof (cases "i < length cells")
    case True
    with t[of i r] that obtain j where "j < i" "cell_hash X (cells ! j) = cell_hash X r"
      by (auto simp: nth_append)
    with True show ?thesis by (intro exI[of _ j]) (simp add: nth_append)
  next
    case False
    with that have "i = length cells" "r \<in> set (cell_references c)" by (simp_all add: nth_append)
    with assms(3) obtain j where "visited (cell_hash X r) = Some j" by blast
    with v \<open>i = _\<close> show ?thesis by (intro exI[of _ j]) (simp add: nth_append)
  qed
  ultimately show ?thesis by (simp add: collected_def)
qed

lemma subcells_size: "d \<in> subcells c \<Longrightarrow> size d \<le> size c"
proof (induction c)
  case (Cell dt n rs ex lv hc dc)
  show ?case
  proof (cases "d = Cell dt n rs ex lv hc dc")
    case False
    then obtain r where r: "r \<in> set rs" "d \<in> subcells r" using Cell.prems by auto
    then have "size d \<le> size r" by (rule Cell.IH)
    also have "\<dots> \<le> size_list size rs" using r(1) by (rule size_list_estimation'[OF _ order_refl])
    finally show ?thesis by simp
  qed simp
qed

lemma subcells_trans: "d \<in> subcells c \<Longrightarrow> subcells d \<subseteq> subcells c"
  by (induction c) auto

lemma not_own_subcell:
  assumes "r \<in> set (cell_references c)" shows "c \<notin> subcells r"
proof
  assume "c \<in> subcells r"
  then have "size c \<le> size r" by (rule subcells_size)
  moreover have "size r \<le> size_list size (cell_references c)"
    using assms by (rule size_list_estimation'[OF _ order_refl])
  ultimately show False by (cases c) simp
qed

lemma collect_recursive:
  assumes "hashing X" "collision_free X S" "wf_cell c" "subcells c \<subseteq> S" "collected X st"
  shows "collected X (collect_cells_recursive X c st)
    \<and> extends (subcells c) st (collect_cells_recursive X c st)
    \<and> snd (collect_cells_recursive X c st) (cell_hash X c) \<noteq> None"
  using assms(3-5)
proof (induction c arbitrary: st)
  case (Cell dt n rs ex lv hc dc)
  let ?c = "Cell dt n rs ex lv hc dc"
  obtain cells visited where st: "st = (cells, visited)" by (cases st)
  show ?case
  proof (cases "visited (cell_hash X ?c)")
    case (Some i)
    then have "collect_cells_recursive X ?c st = st" by (simp add: st Let_def)
    with Some Cell.prems(3) show ?thesis by (simp add: st)
  next
    case None
    obtain cells' visited' where f: "fold (collect_cells_recursive X) rs st = (cells', visited')"
      by (cases "fold (collect_cells_recursive X) rs st")
    have "wf_cell r" "subcells r \<subseteq> S" if "r \<in> set rs" for r
      using that Cell.prems(1,2) by (auto simp: list_all_iff)
    then have F: "collected X (cells', visited')" "extends (\<Union>r \<in> set rs. subcells r) st (cells', visited')"
        "\<forall>r \<in> set rs. visited' (cell_hash X r) \<noteq> None"
      using collect_fold[OF _ Cell.prems(3), of rs] Cell.IH unfolding f by auto
    then obtain new where new: "cells' = cells @ new" "set new \<subseteq> (\<Union>r \<in> set rs. subcells r)"
      by (auto simp: extends_def st)
    have fresh: "visited' (cell_hash X ?c) = None"
    proof (rule ccontr)
      assume "visited' (cell_hash X ?c) \<noteq> None"
      then obtain i where i: "i < length cells'" "cell_hash X (cells' ! i) = cell_hash X ?c"
        using F(1) by (auto simp: collected_def)
      have "\<not> i < length cells"
        using collected_unseen[of X st "cell_hash X ?c" i] i(2) None Cell.prems(3) new(1)
        by (auto simp: nth_append st simp del: cell_hash.simps)
      then have "cells' ! i \<in> set new" using i(1) new(1) by (simp add: nth_append)
      then obtain r where r: "r \<in> set rs" "cells' ! i \<in> subcells r" using new(2) by blast
      have "subcells (cells' ! i) \<subseteq> S" "wf_cell (cells' ! i)"
        using subcells_trans[OF r(2)] wf_subcells[OF _ r(2)] r(1) Cell.prems(1,2)
        by (auto simp: list_all_iff)
      then have "cells' ! i = ?c"
        using hashing.cell_hash_injective[OF assms(1,2)] Cell.prems(1,2) i(2) by blast
      then show False using not_own_subcell[of r ?c] r by simp
    qed
    have c: "collect_cells_recursive X ?c st
        = (cells' @ [?c], visited'(cell_hash X ?c \<mapsto> length cells'))"
      using None f by (simp add: st Let_def)
    have "collected X (cells' @ [?c], visited'(cell_hash X ?c \<mapsto> length cells'))"
      by (rule collected_snoc[OF F(1) fresh]) (use F(3) in simp)
    moreover have "extends (subcells ?c) st (cells' @ [?c], visited'(cell_hash X ?c \<mapsto> length cells'))"
      unfolding extends_def using new by (intro exI[of _ "new @ [?c]"]) (auto simp: st)
    ultimately show ?thesis unfolding c by simp
  qed
qed


text \<open>The list \<open>collect_cells\<close> returns: one cell per hash, references first, the root last.\<close>

definition topological :: "crates \<Rightarrow> cell list \<Rightarrow> bool" where
  "topological X cells \<longleftrightarrow> distinct (map (cell_hash X) cells)
     \<and> (\<forall>i < length cells. \<forall>r \<in> set (cell_references (cells ! i)).
          \<exists>j < i. cell_hash X (cells ! j) = cell_hash X r)"

lemma collected_topological: "collected X st \<Longrightarrow> topological X (fst st)"
  unfolding collected_def topological_def distinct_conv_nth
  by (metis (no_types, lifting) length_map nth_map option.inject)

lemma collect_cells_topological:
  assumes "hashing X" "collision_free X (subcells root)" "wf_cell root"
  shows "topological X (collect_cells X root)" "set (collect_cells X root) \<subseteq> subcells root"
    "collect_cells X root \<noteq> []" "last (collect_cells X root) = root"
proof -
  let ?st = "collect_cells_recursive X root ([], Map.empty)"
  have e: "collected X ([], Map.empty)" by (simp add: collected_def)
  note c = collect_recursive[OF assms(1,2,3) order_refl e]
  show "topological X (collect_cells X root)" using c collected_topological
    by (simp add: collect_cells_def)
  show "set (collect_cells X root) \<subseteq> subcells root"
    using c by (auto simp: extends_def collect_cells_def)
  obtain d n rs ex lv hc dc where root: "root = Cell d n rs ex lv hc dc" by (cases root)
  have "\<exists>xs. collect_cells X root = xs @ [root]"
    unfolding root collect_cells_def by (simp add: Let_def split: prod.splits)
  then show "collect_cells X root \<noteq> []" "last (collect_cells X root) = root" by auto
qed

section \<open>Serializing the collected cells\<close>

definition hash_pos :: "crates \<Rightarrow> cell list \<Rightarrow> bytes \<Rightarrow> nat" where
  "hash_pos X cells h = length (takeWhile (\<lambda>c. cell_hash X c \<noteq> h) cells)"

definition ref_indices :: "crates \<Rightarrow> cell list \<Rightarrow> cell \<Rightarrow> nat list" where
  "ref_indices X cells c = map (\<lambda>r. hash_pos X cells (cell_hash X r)) (cell_references c)"

lemma hash_pos_nth:
  assumes "distinct (map (cell_hash X) cells)" "i < length cells"
  shows "hash_pos X cells (cell_hash X (cells ! i)) = i"
proof -
  have "takeWhile (\<lambda>c. cell_hash X c \<noteq> cell_hash X (cells ! i)) cells = take i cells"
    by (rule takeWhile_eq_take_P_nth) (use assms in \<open>auto simp: distinct_conv_nth\<close>)
  then show ?thesis using assms(2) by (simp add: hash_pos_def)
qed

lemma topological_ref:
  assumes "topological X cells" "i < length cells" "r \<in> set (cell_references (cells ! i))"
  shows "hash_pos X cells (cell_hash X r) < i"
    "cell_hash X (cells ! hash_pos X cells (cell_hash X r)) = cell_hash X r"
proof -
  from assms obtain j where "j < i" "cell_hash X (cells ! j) = cell_hash X r"
    unfolding topological_def by blast
  moreover from this have "hash_pos X cells (cell_hash X r) = j"
    using hash_pos_nth[of X cells j] assms(1,2) by (auto simp: topological_def)
  ultimately show "hash_pos X cells (cell_hash X r) < i"
    "cell_hash X (cells ! hash_pos X cells (cell_hash X r)) = cell_hash X r" by simp_all
qed

lemma write_refs:
  assumes "sz \<le> 8" "\<forall>r \<in> set rs. m (cell_hash X r) = Some (pos r)"
  shows "try_fold (\<lambda>res r. case m (cell_hash X r) of
         None \<Rightarrow> Inl (BocErr BocReferenceNotInMap)
       | Some ref_idx \<Rightarrow> Inr (write_uint res ref_idx sz)) res rs
    = Inr (res @ concat (map (be_bytes sz) (map pos rs)))"
  using assms(2) by (induction rs arbitrary: res) (simp_all add: write_uint_eq[OF assms(1)])

lemma serialize_cell_eq:
  assumes "sz \<le> 8" "\<forall>r \<in> set (cell_references c). m (cell_hash X r) = Some (hash_pos X cells (cell_hash X r))"
  shows "serialize_cell X c m sz = Inr (record_bytes sz c (ref_indices X cells c))"
  unfolding serialize_cell_def write_refs[OF assms] by (simp add: record_bytes_def ref_indices_def)

lemma serialize_cells_prefix:
  assumes "topological X cells" "sz \<le> 8" "k \<le> length cells"
  shows "\<exists>m. serialize_cells X sz (take k cells)
      = Inr (map (\<lambda>c. record_bytes sz c (ref_indices X cells c)) (take k cells), m, k)
    \<and> (\<forall>i < k. m (cell_hash X (cells ! i)) = Some i)"
  using assms(3)
proof (induction k)
  case 0
  then show ?case by (simp add: serialize_cells_def)
next
  case (Suc k)
  then obtain m where m: "serialize_cells X sz (take k cells)
      = Inr (map (\<lambda>c. record_bytes sz c (ref_indices X cells c)) (take k cells), m, k)"
      "\<forall>i < k. m (cell_hash X (cells ! i)) = Some i" by auto
  let ?c = "cells ! k" and ?m = "m(cell_hash X (cells ! k) \<mapsto> k)"
  have dist: "distinct (map (cell_hash X) cells)" using assms(1) by (simp add: topological_def)
  have m': "?m (cell_hash X (cells ! i)) = Some i" if "i < Suc k" for i
    using m(2) that dist Suc.prems by (cases "i = k") (auto simp: distinct_conv_nth)
  have "?m (cell_hash X r) = Some (hash_pos X cells (cell_hash X r))" if "r \<in> set (cell_references ?c)" for r
    using topological_ref[OF assms(1) _ that] m'[of "hash_pos X cells (cell_hash X r)"] Suc.prems by simp
  then have s: "serialize_cell X ?c ?m sz = Inr (record_bytes sz ?c (ref_indices X cells ?c))"
    by (intro serialize_cell_eq[OF assms(2)]) blast
  have tk: "take (Suc k) cells = take k cells @ [?c]" using Suc.prems by (simp add: take_Suc_conv_app_nth)
  have "serialize_cells X sz (take (Suc k) cells)
      = Inr (map (\<lambda>c. record_bytes sz c (ref_indices X cells c)) (take (Suc k) cells), ?m, Suc k)"
    using m(1) s unfolding serialize_cells_def tk try_fold_append by simp
  then show ?case using m' by blast
qed

lemma serialize_cells_eq:
  assumes "topological X cells" "sz \<le> 8"
  obtains m where "serialize_cells X sz cells
    = Inr (map (\<lambda>c. record_bytes sz c (ref_indices X cells c)) cells, m, length cells)"
  using serialize_cells_prefix[OF assms order_refl] by auto

end
