(* ===== verification/BocReader.thy ===== *)
theory BocReader
  imports BocWriter
begin

unbundle bit_operations_syntax

text \<open>
  The reader of bags of cells on what the writer produces: the header, the records, and
  the resolution of reference indices, ending in the round trips of \<open>serialize_boc\<close> and
  \<open>deserialize_boc\<close> and of the hexadecimal and base64 text forms.
\<close>

section \<open>Records\<close>

lemma parse_cell_records_reads:
  assumes "list_all wf_cell cs" "sz \<le> 8"
    "\<forall>c \<in> set cs. length (f c) = length (cell_references c) \<and> (\<forall>i \<in> set (f c). i < 256 ^ sz)"
  shows "parse_cell_records (pre @ concat (map (\<lambda>c. record_bytes sz c (f c)) cs) @ post) (length pre) sz (length cs)
    = Inr (map (\<lambda>c. parsed_of c (f c)) cs, length pre + length (concat (map (\<lambda>c. record_bytes sz c (f c)) cs)))"
  using assms(1,3)
proof (induction cs arbitrary: pre)
  case (Cons c cs)
  let ?rest = "concat (map (\<lambda>c. record_bytes sz c (f c)) cs)"
  have "parse_cell_record (pre @ record_bytes sz c (f c) @ ?rest @ post) (length pre) sz
      = Inr (parsed_of c (f c), length (pre @ record_bytes sz c (f c)))"
    using parse_cell_record_reads[OF _ _ assms(2), of c "f c" pre "?rest @ post"] Cons.prems by simp
  then show ?case using Cons.IH[of "pre @ record_bytes sz c (f c)"] Cons.prems by simp
qed simp

section \<open>Resolving reference indices\<close>

lemma build_done:
  assumes "0 < fuel" "j < length states" "states ! j = Done" "j < length cs" "cs ! j = Some c"
  shows "build_parsed_cell fuel pcs j (states, cs) = Inr (c, (states, cs))"
  using assms by (cases fuel) simp_all

lemma build_done_refs:
  assumes "0 < fuel" "\<forall>j \<in> set idxs. j < length pcs \<and> j < length states \<and> j < length cs
      \<and> states ! j = Done \<and> cs ! j = Some (g j)"
  shows "try_fold (\<lambda>(references, st) ref_idx.
             if length pcs \<le> ref_idx then Inl (BocErr BocBadReference)
             else and_then (build_parsed_cell fuel pcs ref_idx st) (\<lambda>(c, st). Inr (references @ [c], st)))
           (acc, (states, cs)) idxs = Inr (acc @ map g idxs, (states, cs))"
  using assms(2)
proof (induction idxs arbitrary: acc)
  case (Cons j idxs)
  then have "build_parsed_cell fuel pcs j (states, cs) = Inr (g j, (states, cs))"
    by (intro build_done[OF assms(1)]) simp_all
  then show ?case using Cons by (simp add: not_le)
qed simp

text \<open>The state of the loop before index \<open>k\<close>: everything below is resolved.\<close>

definition resolved :: "cell list \<Rightarrow> nat \<Rightarrow> parse_state" where
  "resolved cells k =
     (replicate k Done @ replicate (length cells - k) Unvisited,
      map Some (take k cells) @ replicate (length cells - k) None)"

lemma resolved_step:
  assumes "k < length cells"
  shows "((fst (resolved cells k))[k := Visiting])[k := Done] = fst (resolved cells (Suc k))"
    "(snd (resolved cells k))[k := Some (cells ! k)] = snd (resolved cells (Suc k))"
proof -
  obtain m where m: "length cells - k = Suc m" "length cells - Suc k = m" using assms
    by (metis Suc_diff_Suc)
  show "((fst (resolved cells k))[k := Visiting])[k := Done] = fst (resolved cells (Suc k))"
    using m by (simp add: resolved_def list_update_append replicate_app_Cons_same)
  show "(snd (resolved cells k))[k := Some (cells ! k)] = snd (resolved cells (Suc k))"
    using m assms by (simp add: resolved_def list_update_append take_Suc_conv_app_nth)
qed

lemma ref_indices_resolve:
  assumes "hashing X" "collision_free X S" "topological X cells" "set cells \<subseteq> S"
    "\<And>c. c \<in> S \<Longrightarrow> wf_cell c \<and> subcells c \<subseteq> S" "i < length cells"
  shows "map (\<lambda>j. cells ! j) (ref_indices X cells (cells ! i)) = cell_references (cells ! i)"
proof -
  have "cells ! hash_pos X cells (cell_hash X r) = r" if r: "r \<in> set (cell_references (cells ! i))" for r
  proof -
    let ?d = "cells ! hash_pos X cells (cell_hash X r)"
    note t = topological_ref[OF assms(3,6) r]
    have c: "cells ! i \<in> S" "?d \<in> S" using assms(4,6) t(1) nth_mem by fastforce+
    then have "r \<in> S" using assms(5)[OF c(1)] subcells_ref[OF r] self_subcell by blast
    then show ?thesis
      using hashing.cell_hash_injective[OF assms(1,2) _ _ _ _ t(2)] assms(5) c(2) by blast
  qed
  then show ?thesis by (simp add: ref_indices_def map_idI)
qed

lemma build_next:
  assumes "k < length cells" "list_all wf_cell cells" "1 < fuel"
    "\<forall>j \<in> set (f (cells ! k)). j < k"
    "map (\<lambda>j. cells ! j) (f (cells ! k)) = cell_references (cells ! k)"
  shows "build_parsed_cell fuel (map (\<lambda>c. parsed_of c (f c)) cells) k (resolved cells k)
    = Inr (cells ! k, resolved cells (Suc k))"
proof -
  obtain fuel' where fuel: "fuel = Suc fuel'" "0 < fuel'" using assms(3) by (cases fuel) auto
  let ?pcs = "map (\<lambda>c. parsed_of c (f c)) cells" and ?c = "cells ! k"
  obtain states cs where st: "resolved cells k = (states, cs)" by fastforce
  have len: "length states = length cells" "length cs = length cells"
    using st assms(1) by (auto simp: resolved_def)
  have un: "states ! k = Unvisited" using st assms(1) by (auto simp: resolved_def nth_append)
  have below: "states ! j = Done" "cs ! j = Some (cells ! j)" if "j < k" for j
    using st that assms(1) by (auto simp: resolved_def nth_append)
  have refs: "try_fold (\<lambda>(references, st) ref_idx.
             if length ?pcs \<le> ref_idx then Inl (BocErr BocBadReference)
             else and_then (build_parsed_cell fuel' ?pcs ref_idx st) (\<lambda>(c, st). Inr (references @ [c], st)))
           ([], (states[k := Visiting], cs)) (f ?c) = Inr ([] @ map (\<lambda>j. cells ! j) (f ?c), (states[k := Visiting], cs))"
    by (rule build_done_refs[OF fuel(2)]) (use assms(1,4) below len in auto)
  have pc: "?pcs ! k = parsed_of ?c (f ?c)" "pc_refs (parsed_of ?c (f ?c)) = f ?c"
    using assms(1) by (simp_all add: parsed_of_def)
  have fin: "finish_parsed_cell (parsed_of ?c (f ?c)) (cell_references ?c) = Inr ?c"
    by (rule finish_parsed_of) (use assms(1,2) in \<open>simp add: list_all_length\<close>)
  have "build_parsed_cell fuel ?pcs k (states, cs)
      = Inr (?c, ((states[k := Visiting])[k := Done], cs[k := Some ?c]))"
    unfolding fuel(1) build_parsed_cell.simps
    using refs fin by (simp add: len assms(1) un pc[simplified] assms(5))
  moreover have "(states[k := Visiting])[k := Done] = fst (resolved cells (Suc k))" "cs[k := Some ?c] = snd (resolved cells (Suc k))"
    using resolved_step[OF assms(1)] st by simp_all
  ultimately show ?thesis unfolding st by simp
qed

lemma build_all:
  assumes "list_all wf_cell cells" "0 < length cells"
    "\<And>k. k < length cells \<Longrightarrow> (\<forall>j \<in> set (f (cells ! k)). j < k)
      \<and> map (\<lambda>j. cells ! j) (f (cells ! k)) = cell_references (cells ! k)" "k \<le> length cells"
  shows "try_fold (\<lambda>st index.
           and_then (build_parsed_cell (length cells + 1) (map (\<lambda>c. parsed_of c (f c)) cells) index st) (\<lambda>(_, st). Inr st))
         (replicate (length cells) Unvisited, replicate (length cells) None) [0..<k] = Inr (resolved cells k)"
  using assms(4)
proof (induction k)
  case 0
  then show ?case by (simp add: resolved_def)
next
  case (Suc k)
  have "build_parsed_cell (length cells + 1) (map (\<lambda>c. parsed_of c (f c)) cells) k (resolved cells k)
    = Inr (cells ! k, resolved cells (Suc k))"
    by (rule build_next) (use Suc.prems assms(1,2) assms(3)[of k] in auto)
  with Suc show ?case by (simp add: try_fold_append)
qed

lemma unwrap_all:
  "try_fold (\<lambda>acc c. case c of Some c \<Rightarrow> Inr (acc @ [c]) | None \<Rightarrow> Inl e) acc (map Some cs) = Inr (acc @ cs)"
  by (induction cs arbitrary: acc) simp_all

lemma parse_cells_reads:
  assumes "list_all wf_cell cells" "cells \<noteq> []" "sz \<le> 8" "length cells \<le> 256 ^ sz"
    "\<And>k. k < length cells \<Longrightarrow> (\<forall>j \<in> set (f (cells ! k)). j < k)
      \<and> map (\<lambda>j. cells ! j) (f (cells ! k)) = cell_references (cells ! k)"
  shows "parse_cells (concat (map (\<lambda>c. record_bytes sz c (f c)) cells)) (length cells) sz = Inr cells"
proof -
  have "length (f c) = length (cell_references c) \<and> (\<forall>i \<in> set (f c). i < 256 ^ sz)" if "c \<in> set cells" for c
  proof -
    from that obtain k where k: "k < length cells" "c = cells ! k" by (metis in_set_conv_nth)
    show ?thesis using assms(5)[OF k(1)] assms(4) k by (metis length_map less_trans order_less_le_trans)
  qed
  then have r: "parse_cell_records (concat (map (\<lambda>c. record_bytes sz c (f c)) cells)) 0 sz (length cells)
      = Inr (map (\<lambda>c. parsed_of c (f c)) cells, length (concat (map (\<lambda>c. record_bytes sz c (f c)) cells)))"
    using parse_cell_records_reads[OF assms(1,3), of f "[]" "[]"] by simp
  have b: "try_fold (\<lambda>st index.
           and_then (build_parsed_cell (length cells + 1) (map (\<lambda>c. parsed_of c (f c)) cells) index st) (\<lambda>(_, st). Inr st))
         (replicate (length cells) Unvisited, replicate (length cells) None) [0..<length cells]
      = Inr (resolved cells (length cells))"
    by (rule build_all) (use assms in auto)
  have "resolved cells (length cells) = (replicate (length cells) Done, map Some cells)"
    by (simp add: resolved_def)
  then show ?thesis unfolding parse_cells_def r using b by (simp add: unwrap_all)
qed

section \<open>The header\<close>

lemma flag_fields:
  fixes crc :: bool
  assumes "sz \<in> {1, 2, 3, 4, 5, 6 :: nat}"
  defines "w \<equiv> push_bit 6 (if crc then 1 else 0 :: u8) OR word_of_nat sz"
  shows "w AND 0x80 = 0" "w AND 0x40 = 0 \<longleftrightarrow> \<not> crc" "w AND 0x20 = 0" "unat (w AND 7) = sz"
  using assms by (auto split: if_splits)

definition boc_prefix :: "bool \<Rightarrow> nat \<Rightarrow> nat \<Rightarrow> nat \<Rightarrow> nat \<Rightarrow> nat \<Rightarrow> bytes" where
  "boc_prefix crc sz off n csize ridx =
     u32_be_bytes BOC_GENERIC_MAGIC
     @ [push_bit 6 (if crc then 1 else 0) OR word_of_nat sz, word_of_nat off]
     @ be_bytes sz n @ be_bytes sz 1 @ be_bytes sz 0 @ be_bytes off csize @ be_bytes sz ridx"

definition boc_bytes :: "crates \<Rightarrow> bool \<Rightarrow> nat \<Rightarrow> nat \<Rightarrow> nat \<Rightarrow> nat \<Rightarrow> bytes \<Rightarrow> bytes" where
  "boc_bytes X crc sz off n ridx body =
     (let res = boc_prefix crc sz off n (length body) ridx @ body
      in if crc then res @ u32_le_bytes (crc32_iso_hdlc X res) else res)"

lemma length_boc_prefix: "length (boc_prefix crc sz off n csize ridx) = 6 + 4 * sz + off"
  by (simp add: boc_prefix_def u32_be_bytes_def)

lemma u32_from_le_bytes [simp]: "u32_from_le (u32_le_bytes w) = w"
proof -
  have "unat w < 2 ^ 32" using unsigned_less[of w, where ?'a=nat] by simp
  then show ?thesis by (simp add: u32_from_le_def u32_le_bytes_def be_val_be_bytes)
qed

lemma u32_from_be_bytes [simp]: "u32_from_be (u32_be_bytes w) = w"
proof -
  have "unat w < 2 ^ 32" using unsigned_less[of w, where ?'a=nat] by simp
  then show ?thesis by (simp add: u32_from_be_def u32_be_bytes_def be_val_be_bytes)
qed

lemma length_u32_bytes [simp]: "length (u32_be_bytes w) = 4" "length (u32_le_bytes w) = 4"
  by (simp_all add: u32_be_bytes_def u32_le_bytes_def)

lemma prefix_reads:
  fixes crc :: bool and post :: bytes
  assumes "0 < sz" "sz \<le> 8" "off \<le> 8" "n < 256 ^ sz" "csize < 256 ^ off" "ridx < n"
  defines "data \<equiv> boc_prefix crc sz off n csize ridx @ post"
  shows "read_uint data 6 sz = Inr (n, 6 + sz)"
    "read_uint data (6 + sz) sz = Inr (1, 6 + sz + sz)"
    "read_uint data (6 + sz + sz) sz = Inr (0, 6 + sz + sz + sz)"
    "read_uint data (6 + sz + sz + sz) off = Inr (csize, 6 + sz + sz + sz + off)"
    "read_uint data (6 + sz + sz + sz + off) sz = Inr (ridx, 6 + sz + sz + sz + off + sz)"
proof -
  let ?h = "u32_be_bytes BOC_GENERIC_MAGIC @ [push_bit 6 (if crc then 1 else 0) OR word_of_nat sz, word_of_nat off]"
  have "1 < (256::nat) ^ sz" using assms(1) by (intro one_less_power) simp_all
  note r = read_uint_be_bytes[OF assms(2)] read_uint_be_bytes[OF assms(3)]
  show "read_uint data 6 sz = Inr (n, 6 + sz)"
    using r(1)[OF assms(4), of ?h "be_bytes sz 1 @ be_bytes sz 0 @ be_bytes off csize @ be_bytes sz ridx @ post"]
    by (simp add: data_def boc_prefix_def)
  show "read_uint data (6 + sz) sz = Inr (1, 6 + sz + sz)"
    using r(1)[OF \<open>1 < _\<close>, of "?h @ be_bytes sz n" "be_bytes sz 0 @ be_bytes off csize @ be_bytes sz ridx @ post"]
    by (simp add: data_def boc_prefix_def)
  show "read_uint data (6 + sz + sz) sz = Inr (0, 6 + sz + sz + sz)"
    using r(1)[of 0 "?h @ be_bytes sz n @ be_bytes sz 1" "be_bytes off csize @ be_bytes sz ridx @ post"]
    by (simp add: data_def boc_prefix_def algebra_simps)
  show "read_uint data (6 + sz + sz + sz) off = Inr (csize, 6 + sz + sz + sz + off)"
    using r(2)[OF assms(5), of "?h @ be_bytes sz n @ be_bytes sz 1 @ be_bytes sz 0" "be_bytes sz ridx @ post"]
    by (simp add: data_def boc_prefix_def algebra_simps)
  show "read_uint data (6 + sz + sz + sz + off) sz = Inr (ridx, 6 + sz + sz + sz + off + sz)"
    using r(1)[of ridx "?h @ be_bytes sz n @ be_bytes sz 1 @ be_bytes sz 0 @ be_bytes off csize" post] assms(4,6)
    by (simp add: data_def boc_prefix_def algebra_simps)
qed

lemma layout_reads:
  fixes crc :: bool and X :: crates
  assumes "sz \<in> {1, 2, 3, 4, 5, 6}" "0 < off" "off \<le> 8" "n < 256 ^ sz" "length body < 256 ^ off"
    "length body < 2 ^ 60" "ridx < n"
  defines "data \<equiv> boc_bytes X crc sz off n ridx body"
  shows "parse_boc_generic_layout X data = Inr \<lparr>lay_cells_count = n, lay_size_bytes = sz,
      lay_root_indices = [ridx], lay_cells_data = body\<rparr>"
    "4 \<le> length data" "u32_from_be (take 4 data) = BOC_GENERIC_MAGIC"
proof -
  define res where "res = boc_prefix crc sz off n (length body) ridx @ body"
  define sum where "sum = (if crc then u32_le_bytes (crc32_iso_hdlc X res) else [])"
  have d: "data = boc_prefix crc sz off n (length body) ridx @ body @ sum"
    by (simp add: data_def boc_bytes_def res_def sum_def Let_def)
  have sz: "0 < sz" "sz \<le> 8" using assms(1) by auto
  define p1 where "p1 = 6 + sz"
  define p2 where "p2 = p1 + sz"
  define p3 where "p3 = p2 + sz"
  define p4 where "p4 = p3 + off"
  define p5 where "p5 = p4 + sz"
  note pos = p1_def p2_def p3_def p4_def p5_def
  note r = prefix_reads[OF sz assms(3,4,5,7), of crc "body @ sum", folded d, folded pos]
  have len: "length data = 6 + 4 * sz + off + length body + (if crc then 4 else 0)"
    by (simp add: d length_boc_prefix sum_def)
  have nth: "data ! 4 = push_bit 6 (if crc then 1 else 0) OR word_of_nat sz" "data ! 5 = word_of_nat off"
    by (simp_all add: d boc_prefix_def nth_append)
  have off: "unat (word_of_nat off :: u8) = off" using assms(3) by (simp add: unat_of_nat)
  note f = flag_fields[OF assms(1), of crc]
  have start: "p5 = length (boc_prefix crc sz off n (length body) ridx)"
    by (simp add: length_boc_prefix pos)
  have tk: "take (length body) (drop (p5) data) = body"
      "take (p5 + length body) data = res"
      "take 4 (drop (p5 + length body) data) = sum"
    unfolding start d by (simp_all add: res_def sum_def)
  have p5: "6 \<le> p5" by (simp add: pos)
  have len': "length data = p5 + length body + (if crc then 4 else 0)" by (simp add: len pos)
  have crc: "\<not> (crc \<and> u32_from_le sum \<noteq> crc32_iso_hdlc X res)" by (simp add: sum_def)
  have ri: "read_root_indices data (p4) sz n 1
      = Inr ([ridx], p5)"
    using r(5) assms(7) by simp
  have big: "\<not> 2 ^ 64 \<le> p5 + length body" using assms(3,6) sz by (simp add: pos)
  show "parse_boc_generic_layout X data = Inr \<lparr>lay_cells_count = n, lay_size_bytes = sz,
      lay_root_indices = [ridx], lay_cells_data = body\<rparr>"
    unfolding parse_boc_generic_layout_def Let_def nth f off
    using f(2) sz assms(2,3) crc big len' p5 by (simp add: r ri tk del: One_nat_def read_root_indices.simps)
  show "4 \<le> length data" by (simp add: len)
  show "u32_from_be (take 4 data) = BOC_GENERIC_MAGIC" by (simp add: d boc_prefix_def)
qed

section \<open>What the writer produces\<close>

lemma wf_subcells_closed:
  "wf_cell root \<Longrightarrow> c \<in> subcells root \<Longrightarrow> wf_cell c \<and> subcells c \<subseteq> subcells root"
  using wf_subcells subcells_trans by blast

lemma length_collect_cells:
  assumes "hashing X" "collision_free X (subcells root)" "wf_cell root"
  shows "length (collect_cells X root) \<le> card (subcells root)"
proof -
  note c = collect_cells_topological[OF assms]
  have "distinct (collect_cells X root)" using c(1) by (auto simp: topological_def distinct_map)
  then have "length (collect_cells X root) = card (set (collect_cells X root))"
    by (simp add: distinct_card)
  also have "\<dots> \<le> card (subcells root)" using c(2) by (intro card_mono) simp_all
  finally show ?thesis .
qed

definition boc_body :: "crates \<Rightarrow> cell \<Rightarrow> bytes" where
  "boc_body X root = (let cells = collect_cells X root; sz = bytes_needed (length cells)
     in concat (map (\<lambda>c. record_bytes sz c (ref_indices X cells c)) cells))"

lemma length_boc_body:
  assumes "hashing X" "collision_free X (subcells root)" "wf_cell root" "card (subcells root) < 2 ^ 48"
  shows "length (boc_body X root) \<le> 256 * length (collect_cells X root)"
    "bytes_needed (length (collect_cells X root)) \<in> {1, 2, 3, 4, 5, 6}"
proof -
  let ?cells = "collect_cells X root"
  have "length ?cells < 256 ^ 6" using length_collect_cells[OF assms(1-3)] assms(4) by simp
  then have sz: "bytes_needed (length ?cells) \<le> 6" by (rule bytes_needed_bounds) simp
  with bytes_needed_bounds(2)[of "length ?cells"]
  show "bytes_needed (length ?cells) \<in> {1, 2, 3, 4, 5, 6}" by auto
  have "length (record_bytes (bytes_needed (length ?cells)) c (ref_indices X ?cells c)) \<le> 256"
    if "c \<in> set ?cells" for c
    using that collect_cells_topological(2)[OF assms(1-3)] wf_subcells[OF assms(3)] sz
    by (intro length_record_bytes_le) (auto simp: ref_indices_def)
  then have "sum_list (map (\<lambda>c. length (record_bytes (bytes_needed (length ?cells)) c (ref_indices X ?cells c))) ?cells)
      \<le> sum_list (map (\<lambda>c. 256) ?cells)" by (intro sum_list_mono)
  then show "length (boc_body X root) \<le> 256 * length ?cells"
    by (simp add: boc_body_def Let_def length_concat comp_def sum_list_triv mult.commute)
qed

lemma serialize_boc_eq:
  assumes "hashing X" "collision_free X (subcells root)" "wf_cell root" "card (subcells root) < 2 ^ 48"
  defines "n \<equiv> length (collect_cells X root)"
  shows "serialize_boc X root crc = Inr (boc_bytes X crc (bytes_needed n)
    (bytes_needed (length (boc_body X root))) n (n - 1) (boc_body X root))"
proof -
  let ?cells = "collect_cells X root" and ?sz = "bytes_needed n"
  note c = collect_cells_topological[OF assms(1-3)]
  have n: "0 < n" "root = ?cells ! (n - 1)" using c(3,4) by (simp_all add: n_def last_conv_nth)
  have pos: "length (takeWhile (\<lambda>c. cell_hash X c \<noteq> cell_hash X root) ?cells) = n - 1"
    using hash_pos_nth[of X ?cells "n - 1"] c(1) n unfolding hash_pos_def topological_def n_def by simp
  have sz: "?sz \<le> 8" using length_boc_body(2)[OF assms(1-4)] by (auto simp: n_def)
  have "length (boc_body X root) < 256 ^ 8"
    using length_boc_body(1)[OF assms(1-4)] length_collect_cells[OF assms(1-3)] assms(4) by simp
  then have off: "bytes_needed (length (boc_body X root)) \<le> 8" by (rule bytes_needed_bounds) simp
  obtain m where m: "serialize_cells X ?sz ?cells
      = Inr (map (\<lambda>c. record_bytes ?sz c (ref_indices X ?cells c)) ?cells, m, length ?cells)"
    by (rule serialize_cells_eq[OF c(1) sz])
  have body: "concat (map (\<lambda>c. record_bytes ?sz c (ref_indices X ?cells c)) ?cells) = boc_body X root"
    by (simp add: boc_body_def Let_def n_def)
  then have sum: "sum_list (map length (map (\<lambda>c. record_bytes ?sz c (ref_indices X ?cells c)) ?cells))
      = length (boc_body X root)" by (metis length_concat)
  show ?thesis
    unfolding serialize_boc_def Let_def pos n_def[symmetric] m and_then_simps prod.case sum
      write_uint_eq[OF sz] write_uint_eq[OF off] body
    using n(1) by (simp add: boc_bytes_def boc_prefix_def Let_def)
qed

lemma boc_reads:
  fixes crc :: bool
  assumes "hashing X" "collision_free X (subcells root)" "wf_cell root" "card (subcells root) < 2 ^ 48"
  defines "n \<equiv> length (collect_cells X root)"
  defines "data \<equiv> boc_bytes X crc (bytes_needed n) (bytes_needed (length (boc_body X root))) n (n - 1)
    (boc_body X root)"
  shows "deserialize_boc X data = Inr root"
proof -
  let ?cells = "collect_cells X root" and ?sz = "bytes_needed n"
  note c = collect_cells_topological[OF assms(1-3)]
  have n: "0 < n" "root = ?cells ! (n - 1)" using c(3,4) by (simp_all add: n_def last_conv_nth)
  note b = length_boc_body[OF assms(1-4), folded n_def]
  have le: "length (boc_body X root) < 2 ^ 60" "length (boc_body X root) < 256 ^ 8"
    using b(1) length_collect_cells[OF assms(1-3)] assms(4) by (simp_all add: n_def)
  have off: "bytes_needed (length (boc_body X root)) \<le> 8" by (rule bytes_needed_bounds(3)[OF le(2)]) simp
  note lay = layout_reads[OF b(2) bytes_needed_bounds(2) off bytes_needed_bounds(1) bytes_needed_bounds(1) le(1),
      of "n - 1" X crc, folded data_def]
  have wf: "list_all wf_cell ?cells" using c(2) wf_subcells[OF assms(3)] by (auto simp: list_all_iff)
  have "parse_cells (boc_body X root) n ?sz = Inr ?cells"
    unfolding boc_body_def Let_def n_def
  proof (rule parse_cells_reads[OF wf c(3)])
    show "bytes_needed (length ?cells) \<le> 8" using b(2) by (auto simp: n_def)
    show "length ?cells \<le> 256 ^ bytes_needed (length ?cells)"
      using bytes_needed_bounds(1)[of "length ?cells"] by simp
    fix k assume k: "k < length ?cells"
    have "\<forall>j \<in> set (ref_indices X ?cells (?cells ! k)). j < k"
      using topological_ref(1)[OF c(1) k] by (auto simp: ref_indices_def)
    moreover have "map (\<lambda>j. ?cells ! j) (ref_indices X ?cells (?cells ! k)) = cell_references (?cells ! k)"
      by (rule ref_indices_resolve[OF assms(1,2) c(1,2) wf_subcells_closed[OF assms(3)] k])
    ultimately show "(\<forall>j \<in> set (ref_indices X ?cells (?cells ! k)). j < k)
      \<and> map (\<lambda>j. ?cells ! j) (ref_indices X ?cells (?cells ! k)) = cell_references (?cells ! k)" by blast
  qed
  then have "deserialize_boc_generic_roots X data = Inr [root]"
    using lay(1) n by (simp add: deserialize_boc_generic_roots_def n_def)
  then show ?thesis using lay n(1) by (simp add: deserialize_boc_def deserialize_boc_roots_def Let_def)
qed

lemma collect_cells_complete:
  assumes "hashing X" "collision_free X (subcells root)" "wf_cell root"
  shows "set (collect_cells X root) = subcells root"
proof -
  let ?cells = "collect_cells X root"
  note c = collect_cells_topological[OF assms]
  have step: "r \<in> set ?cells" if d: "d \<in> set ?cells" and r: "r \<in> set (cell_references d)" for d r
  proof -
    from d obtain i where i: "i < length ?cells" "d = ?cells ! i" by (metis in_set_conv_nth)
    have "map (\<lambda>j. ?cells ! j) (ref_indices X ?cells d) = cell_references d"
      using ref_indices_resolve[OF assms(1,2) c(1,2) wf_subcells_closed[OF assms(3)] i(1)] i(2) by blast
    then obtain j where j: "j \<in> set (ref_indices X ?cells d)" "r = ?cells ! j"
      using r by (metis imageE list.set_map)
    have "j < i" using j(1) topological_ref(1)[OF c(1) i(1)] i(2) by (auto simp: ref_indices_def)
    then show ?thesis using j(2) i(1) by simp
  qed
  have "subcells d \<subseteq> set ?cells" if "d \<in> set ?cells" for d
    using that
  proof (induction d)
    case (Cell dt n rs ex lv hc dc)
    then have "subcells r \<subseteq> set ?cells" if "r \<in> set rs" for r
      using that step[OF Cell.prems, of r] by auto
    with Cell.prems show ?case by auto
  qed
  moreover have "root \<in> set ?cells" using c(3,4) last_in_set by metis
  ultimately show ?thesis using c(2) by blast
qed

section \<open>Text forms\<close>

text \<open>The \<open>hex\<close> crate writes lower-case digits only, so trimming leaves its output alone.\<close>

locale hex_text = text_laws +
  assumes hex_encode_digits: "set (hex_encode T bs) \<subseteq> set ''0123456789abcdef''"
begin

lemma no_whitespace: "c \<in> set (hex_encode T bs) \<Longrightarrow> \<not> is_whitespace c \<and> c \<noteq> CHR '' '' \<and> c \<noteq> CHR 0x0A"
  using hex_encode_digits[of bs] by (auto simp: is_whitespace_def)

lemma trim_hex_encode:
  "filter (\<lambda>c. c \<noteq> CHR '' '' \<and> c \<noteq> CHR 0x0A) (trim (hex_encode T bs)) = hex_encode T bs"
proof -
  have "dropWhile is_whitespace (hex_encode T bs) = hex_encode T bs"
    "dropWhile is_whitespace (rev (hex_encode T bs)) = rev (hex_encode T bs)"
    using no_whitespace[OF hd_in_set] no_whitespace[OF last_in_set]
    by (auto simp: dropWhile_eq_self_iff hd_rev)
  then show ?thesis using no_whitespace by (simp add: trim_def filter_id_conv)
qed

lemma hex_to_boc_encode: "hex_to_boc X T (hex_encode T bs) = deserialize_boc X bs"
  unfolding hex_to_boc_def trim_hex_encode by (simp add: hex_decode_encode)

end

lemma hex_digit_range: "n < 16 \<Longrightarrow> hex_digit n \<in> set ''0123456789abcdef''"
  unfolding hex_digit_def by (rule nth_mem) simp

interpretation ref_hex_text: hex_text ref_text
proof
  fix bs
  have "\<forall>c \<in> set (ref_hex_encode bs). c \<in> set ''0123456789abcdef''"
  proof (induction bs)
    case (Cons b bs)
    have n: "unat b div 16 < 16" "unat b mod 16 < 16" using unsigned_less[of b, where ?'a = nat] by simp_all
    note hex_digit_range[OF n(1)] hex_digit_range[OF n(2)]
    moreover have "ref_hex_encode (b # bs)
        = hex_digit (unat b div 16) # hex_digit (unat b mod 16) # ref_hex_encode bs"
      by (simp add: ref_hex_encode_def)
    ultimately show ?case using Cons.IH by (metis set_ConsD)
  qed (simp add: ref_hex_encode_def)
  then show "set (hex_encode ref_text bs) \<subseteq> set ''0123456789abcdef''"
    unfolding ref_text_def text_codecs.simps subset_iff Ball_def .
qed

section \<open>Properties\<close>

text \<open>A bag with a shared leaf, and a digest that tells its two cells apart.\<close>

definition sample_leaf :: cell where
  "sample_leaf = mk_cell [True, False, True] []"

definition sample_root :: cell where
  "sample_root = mk_cell [False, True] [sample_leaf, sample_leaf]"

definition length_digest :: crates where
  "length_digest = ref_crates\<lparr>sha256 := \<lambda>bs. be_bytes 32 (length bs)\<rparr>"

lemma length_digest_hashing [simp]: "hashing length_digest"
  by unfold_locales (simp add: length_digest_def)

lemma length_digest_bignum: "bignum length_digest"
  by unfold_locales (simp_all add: length_digest_def ref_signed_bytes)

lemma sample_subcells: "subcells sample_root = {sample_root, sample_leaf}"
  by (auto simp: sample_root_def sample_leaf_def mk_cell_def)

lemma wf_sample_root [simp]: "wf_cell sample_root" "wf_cell sample_leaf"
  by (simp_all add: sample_root_def sample_leaf_def wf_mk_cell)

lemma length_repr_sample:
  "length (cell_repr length_digest sample_root) = 71" "length (cell_repr length_digest sample_leaf) = 3"
proof -
  have l: "length (cell_hash length_digest sample_leaf) = 32"
    by (rule hashing.length_cell_hash) simp_all
  show "length (cell_repr length_digest sample_root) = 71"
    by (simp add: cell_repr_def sample_root_def descriptors_def div_ceil_def l)
  show "length (cell_repr length_digest sample_leaf) = 3"
    by (simp add: cell_repr_def sample_leaf_def descriptors_def div_ceil_def)
qed

lemma sample_collision_free [simp]: "collision_free length_digest (subcells sample_root)"
proof -
  have "be_val (be_bytes 32 71) \<noteq> be_val (be_bytes 32 3)" unfolding be_val_be_bytes by simp
  then have "be_bytes 32 71 \<noteq> be_bytes 32 3" by metis
  then show ?thesis
    unfolding collision_free_def sample_subcells inj_on_def
    by (auto simp: length_digest_def length_repr_sample[unfolded length_digest_def])
qed

lemma card_sample: "card (subcells sample_root) < 2 ^ 48"
proof -
  have "card (subcells sample_root) \<le> 2" unfolding sample_subcells by (simp add: card_insert_if)
  then show ?thesis by simp
qed

text \<open>
  C1: Writing a tree of cells as a bag and reading the bag gives the tree back, with or
  without a checksum: \<open>deserialize_boc\<close> inverts \<open>serialize_boc\<close> on every well-formed cell of
  fewer than \<open>2\<^sup>4\<^sup>8\<close> distinct subcells on whose representations SHA-256 has no collision.
\<close>

theorem boc_roundtrip:
  assumes "hashing X" "wf_cell root" "collision_free X (subcells root)" "card (subcells root) < 2 ^ 48"
  shows "and_then (serialize_boc X root has_crc32) (deserialize_boc X) = Inr root"
  using serialize_boc_eq[OF assms(1,3,2,4)] boc_reads[OF assms(1,3,2,4)] by simp

theorem boc_roundtrip_witness:
  "and_then (serialize_boc length_digest sample_root True) (deserialize_boc length_digest) = Inr sample_root"
  by (rule boc_roundtrip[OF length_digest_hashing wf_sample_root(1) sample_collision_free card_sample])

text \<open>
  The hexadecimal and base64 text forms of a bag read back as the tree of cells they
  were made from.
\<close>

theorem boc_text_roundtrip:
  assumes "hashing X" "hex_text T" "wf_cell root" "collision_free X (subcells root)"
    "card (subcells root) < 2 ^ 48"
  shows "and_then (boc_to_hex X T root has_crc32) (hex_to_boc X T) = Inr root
    \<and> and_then (boc_to_base64 X T root has_crc32) (base64_to_boc X T) = Inr root"
proof
  let ?bs = "boc_bytes X has_crc32 (bytes_needed (length (collect_cells X root)))
    (bytes_needed (length (boc_body X root))) (length (collect_cells X root))
    (length (collect_cells X root) - 1) (boc_body X root)"
  note w = serialize_boc_eq[OF assms(1,4,3,5), of has_crc32]
  note r = boc_reads[OF assms(1,4,3,5), of has_crc32]
  show "and_then (boc_to_hex X T root has_crc32) (hex_to_boc X T) = Inr root"
    using w r by (simp add: boc_to_hex_def hex_text.hex_to_boc_encode[OF assms(2)])
  have "base64_decode T STANDARD (base64_encode T STANDARD ?bs) = Some ?bs"
    using assms(2) text_laws.base64_decode_encode unfolding hex_text_def by blast
  then show "and_then (boc_to_base64 X T root has_crc32) (base64_to_boc X T) = Inr root"
    using w r by (simp add: boc_to_base64_def base64_to_boc_def)
qed

theorem boc_text_roundtrip_witness:
  "and_then (boc_to_hex length_digest ref_text sample_root True) (hex_to_boc length_digest ref_text) = Inr sample_root
   \<and> and_then (boc_to_base64 length_digest ref_text sample_root False) (base64_to_boc length_digest ref_text) = Inr sample_root"
  using boc_text_roundtrip[OF length_digest_hashing ref_hex_text.hex_text_axioms wf_sample_root(1)
      sample_collision_free card_sample] by blast

text \<open>
  C13: A representation hash identifies its cell: two well-formed cells have the same hash
  exactly when they are the same cell, unless SHA-256 collides on two of the
  representations below them.
\<close>

theorem cell_hash_identifies:
  assumes "hashing X" "wf_cell c" "wf_cell d" "collision_free X (subcells c \<union> subcells d)"
  shows "cell_hash X c = cell_hash X d \<longleftrightarrow> c = d"
  using hashing.cell_hash_injective[OF assms(1,4,2,3)] by blast

theorem cell_hash_identifies_witness:
  "cell_hash length_digest sample_root \<noteq> cell_hash length_digest sample_leaf"
proof -
  have "subcells sample_root \<union> subcells sample_leaf = subcells sample_root"
    by (auto simp: sample_subcells sample_leaf_def mk_cell_def)
  then have "cell_hash length_digest sample_root = cell_hash length_digest sample_leaf
      \<longleftrightarrow> sample_root = sample_leaf"
    by (intro cell_hash_identifies) simp_all
  then show ?thesis by (simp add: sample_root_def sample_leaf_def)
qed

text \<open>
  The writer lists every distinct cell of the tree exactly once, every reference
  before the cells that use it and the root last.
\<close>

theorem collect_cells_order:
  assumes "hashing X" "wf_cell root" "collision_free X (subcells root)"
  shows "set (collect_cells X root) = subcells root \<and> distinct (collect_cells X root)
    \<and> last (collect_cells X root) = root
    \<and> (\<forall>i < length (collect_cells X root). \<forall>r \<in> set (cell_references (collect_cells X root ! i)).
         \<exists>j < i. collect_cells X root ! j = r)"
proof -
  let ?cells = "collect_cells X root"
  note c = collect_cells_topological[OF assms(1,3,2)]
  have "\<exists>j < i. ?cells ! j = r" if i: "i < length ?cells" "r \<in> set (cell_references (?cells ! i))" for i r
  proof -
    have "map (\<lambda>j. ?cells ! j) (ref_indices X ?cells (?cells ! i)) = cell_references (?cells ! i)"
      by (rule ref_indices_resolve[OF assms(1,3) c(1,2) wf_subcells_closed[OF assms(2)] i(1)])
    then obtain j where "j \<in> set (ref_indices X ?cells (?cells ! i))" "r = ?cells ! j"
      using i(2) by (metis imageE list.set_map)
    moreover from this(1) have "j < i" using topological_ref(1)[OF c(1) i(1)] by (auto simp: ref_indices_def)
    ultimately show ?thesis by blast
  qed
  moreover have "distinct ?cells" using c(1) by (auto simp: topological_def distinct_map)
  ultimately show ?thesis using collect_cells_complete[OF assms(1,3,2)] c(4) by blast
qed

theorem collect_cells_order_witness:
  "set (collect_cells length_digest sample_root) = {sample_root, sample_leaf}
   \<and> last (collect_cells length_digest sample_root) = sample_root"
  using collect_cells_order[OF length_digest_hashing wf_sample_root(1) sample_collision_free]
  by (simp add: sample_subcells)

end
