(* ===== verification/BocSafety.thy ===== *)
theory BocSafety
  imports BocReader
begin

unbundle bit_operations_syntax

text \<open>
  The reader of bags of cells on arbitrary input: it never panics, its recursion along
  untrusted reference indices ends within the model's bound, and what it returns are
  well-formed cells that resolve the indices of the records.
\<close>

section \<open>Faults\<close>

definition no_fault :: "'a result \<Rightarrow> bool" where
  "no_fault r \<longleftrightarrow> r \<noteq> Inl Panic \<and> r \<noteq> Inl OutOfFuel"

named_theorems no_fault_intros

lemma no_fault_simps [simp]: "no_fault (Inr x)" "no_fault (Inl e) \<longleftrightarrow> e \<noteq> Panic \<and> e \<noteq> OutOfFuel"
  by (simp_all add: no_fault_def)

lemma no_fault_and_then [no_fault_intros]:
  "no_fault r \<Longrightarrow> (\<And>x. r = Inr x \<Longrightarrow> no_fault (f x)) \<Longrightarrow> no_fault (and_then r f)"
  by (cases r) simp_all

lemma no_fault_if [no_fault_intros]:
  "(b \<Longrightarrow> no_fault r) \<Longrightarrow> (\<not> b \<Longrightarrow> no_fault s) \<Longrightarrow> no_fault (if b then r else s)"
  by simp

lemma no_fault_case_prod [no_fault_intros]:
  "(\<And>a b. p = (a, b) \<Longrightarrow> no_fault (f a b)) \<Longrightarrow> no_fault (case p of (a, b) \<Rightarrow> f a b)"
  by (cases p) simp

lemma no_fault_map_err [no_fault_intros]:
  "no_fault r \<Longrightarrow> (\<And>e. f e \<noteq> Panic \<and> f e \<noteq> OutOfFuel) \<Longrightarrow> no_fault (map_err f r)"
  by (cases r) (simp_all add: map_err_Inl)

lemma no_fault_try_fold [no_fault_intros]:
  "(\<And>s x. x \<in> set xs \<Longrightarrow> no_fault (f s x)) \<Longrightarrow> no_fault (try_fold f s xs)"
  by (induction xs arbitrary: s) (auto intro!: no_fault_intros)

lemma no_fault_read_uint [simp]: "no_fault (read_uint data pos sz)"
  by (simp add: read_uint_def)

lemma no_fault_read_refs [simp]: "no_fault (read_refs data pos sz k)"
  by (induction k arbitrary: pos) (auto intro!: no_fault_intros)

lemma no_fault_read_root_indices [simp]: "no_fault (read_root_indices data pos sz n k)"
  by (induction k arbitrary: pos) (auto intro!: no_fault_intros)

lemma no_fault_check_index_table [simp]: "no_fault (check_index_table data pos off csize prev k)"
  by (induction k arbitrary: pos prev) (auto intro!: no_fault_intros)

lemma no_fault_layout [simp]: "no_fault (parse_boc_generic_layout X data)"
  unfolding parse_boc_generic_layout_def Let_def by (intro no_fault_intros) simp_all

lemma no_fault_decode_cell_data [simp]: "no_fault (decode_cell_data data d2)"
  by (simp add: decode_cell_data_def Let_def)

lemma no_fault_parse_cell_record [simp]: "no_fault (parse_cell_record data pos sz)"
  unfolding parse_cell_record_def Let_def by (intro no_fault_intros) simp_all

lemma no_fault_parse_cell_records [simp]: "no_fault (parse_cell_records data pos sz k)"
  by (induction k arbitrary: pos) (auto intro!: no_fault_intros)

lemma no_fault_cell_constructors [simp]:
  "no_fault (with_data bs n)" "no_fault (add_reference c r)" "no_fault (add_references c rs)"
  "no_fault (validate_cell_data bs n)"
  by (simp_all add: with_data_def add_reference_def add_references_def validate_cell_data_def
      no_fault_try_fold)

lemma no_fault_parse_exotic [simp]: "no_fault (parse_exotic_kind bs n rs)"
  by (simp add: parse_exotic_kind_def parse_pruned_branch_def parse_library_reference_def
      parse_merkle_proof_def parse_merkle_update_def Let_def)

lemma no_fault_exotic_level: "parse_exotic_kind bs n rs = Inr k \<Longrightarrow> no_fault (exotic_level k rs)"
  by (cases k) (auto simp: parse_exotic_kind_def parse_pruned_branch_def parse_library_reference_def
      parse_merkle_proof_def parse_merkle_update_def exotic_level_def Let_def
      intro!: no_fault_intros split: if_splits)

lemma no_fault_finish [simp]: "no_fault (finish_parsed_cell pc rs)"
  unfolding finish_parsed_cell_def with_exotic_data_def
  by (intro no_fault_intros) (auto dest: no_fault_exotic_level)

section \<open>Resolving reference indices\<close>

definition unvisited :: "visit_state list \<Rightarrow> nat set" where
  "unvisited states = {i. i < length states \<and> states ! i = Unvisited}"

lemma finite_unvisited [simp]: "finite (unvisited states)"
  by (simp add: unvisited_def)

text \<open>A finished index: its references are finished, and its cell is made of theirs.\<close>

definition finished :: "parsed_cell list \<Rightarrow> parse_state \<Rightarrow> nat \<Rightarrow> bool" where
  "finished pcs st i \<longleftrightarrow>
     (\<forall>r \<in> set (pc_refs (pcs ! i)). r < length pcs \<and> fst st ! r = Done)
     \<and> (\<exists>c. snd st ! i = Some c
          \<and> finish_parsed_cell (pcs ! i) (map (\<lambda>r. the (snd st ! r)) (pc_refs (pcs ! i))) = Inr c)"

definition parse_inv :: "parsed_cell list \<Rightarrow> parse_state \<Rightarrow> bool" where
  "parse_inv pcs st \<longleftrightarrow> length (fst st) = length pcs \<and> length (snd st) = length pcs
     \<and> (\<forall>i < length pcs. fst st ! i = Done \<longrightarrow> finished pcs st i)"

text \<open>How a call changes the state: finished cells stay, the pending ones are the same.\<close>

definition progress :: "parse_state \<Rightarrow> parse_state \<Rightarrow> bool" where
  "progress st st' \<longleftrightarrow> length (fst st') = length (fst st)
     \<and> (\<forall>i < length (fst st). (fst st ! i = Done \<longrightarrow> fst st' ! i = Done \<and> snd st' ! i = snd st ! i)
          \<and> (fst st' ! i = Visiting \<longleftrightarrow> fst st ! i = Visiting))"

lemma progress_refl [simp]: "progress st st"
  by (simp add: progress_def)

lemma progress_trans: "progress st st' \<Longrightarrow> progress st' st'' \<Longrightarrow> progress st st''"
  by (simp add: progress_def)

lemma progress_unvisited: "progress st st' \<Longrightarrow> unvisited (fst st') \<subseteq> unvisited (fst st)"
proof
  fix i assume p: "progress st st'" and i: "i \<in> unvisited (fst st')"
  then have "i < length (fst st)" "fst st ! i \<noteq> Done" "fst st ! i \<noteq> Visiting"
    by (auto simp: progress_def unvisited_def)
  then show "i \<in> unvisited (fst st)" by (cases "fst st ! i") (simp_all add: unvisited_def)
qed

definition build_spec :: "nat \<Rightarrow> parsed_cell list \<Rightarrow> bool" where
  "build_spec fuel pcs \<longleftrightarrow> (\<forall>index st. parse_inv pcs st \<longrightarrow> index < length pcs
     \<longrightarrow> card (unvisited (fst st)) < fuel \<longrightarrow>
     no_fault (build_parsed_cell fuel pcs index st)
     \<and> (\<forall>c st'. build_parsed_cell fuel pcs index st = Inr (c, st') \<longrightarrow>
          parse_inv pcs st' \<and> progress st st' \<and> fst st' ! index = Done \<and> snd st' ! index = Some c))"

abbreviation ref_loop :: "nat \<Rightarrow> parsed_cell list \<Rightarrow> cell list \<Rightarrow> parse_state \<Rightarrow> nat list \<Rightarrow> (cell list \<times> parse_state) result" where
  "ref_loop fuel pcs acc st idxs \<equiv> try_fold (\<lambda>(references, st) ref_idx.
       if length pcs \<le> ref_idx then Inl (BocErr BocBadReference)
       else and_then (build_parsed_cell fuel pcs ref_idx st) (\<lambda>(c, st). Inr (references @ [c], st)))
     (acc, st) idxs"

lemma build_refs:
  assumes "build_spec fuel pcs" "parse_inv pcs st" "card (unvisited (fst st)) < fuel"
  shows "no_fault (ref_loop fuel pcs acc st idxs) \<and> (\<forall>refs st'. ref_loop fuel pcs acc st idxs = Inr (refs, st') \<longrightarrow>
    parse_inv pcs st' \<and> progress st st'
    \<and> (\<forall>j \<in> set idxs. j < length pcs \<and> fst st' ! j = Done)
    \<and> refs = acc @ map (\<lambda>j. the (snd st' ! j)) idxs)"
  using assms(2,3)
proof (induction idxs arbitrary: acc st)
  case (Cons j idxs)
  show ?case
  proof (cases "length pcs \<le> j")
    case False
    then have j: "j < length pcs" by simp
    note b = assms(1)[unfolded build_spec_def, rule_format, OF Cons.prems(1) j Cons.prems(2)]
    show ?thesis
    proof (cases "build_parsed_cell fuel pcs j st")
      case (Inl e)
      with b False show ?thesis by simp
    next
      case (Inr p)
      obtain c st1 where p: "p = (c, st1)" by (cases p)
      have s1: "parse_inv pcs st1" "progress st st1" "fst st1 ! j = Done" "snd st1 ! j = Some c"
        using b Inr unfolding p by blast+
      have "card (unvisited (fst st1)) \<le> card (unvisited (fst st))"
        using progress_unvisited[OF s1(2)] by (intro card_mono) simp_all
      then have u: "card (unvisited (fst st1)) < fuel" using Cons.prems(2) by simp
      note ih = Cons.IH[OF s1(1) u, of "acc @ [c]"]
      have len: "length (fst st1) = length pcs" using s1(1) by (simp add: parse_inv_def)
      have j1: "fst st' ! j = Done \<and> the (snd st' ! j) = c" if "progress st1 st'" for st'
        using that s1(3,4) j len by (simp add: progress_def)
      show ?thesis using ih False Inr p j1 progress_trans[OF s1(2)] j by fastforce
    qed
  qed simp
qed auto

lemma finished_cong:
  assumes "finished pcs st i" "\<And>r. r < length pcs \<Longrightarrow> fst st ! r = Done \<Longrightarrow> fst st' ! r = Done \<and> snd st' ! r = snd st ! r"
    "snd st' ! i = snd st ! i"
  shows "finished pcs st' i"
proof -
  have "map (\<lambda>r. the (snd st' ! r)) (pc_refs (pcs ! i)) = map (\<lambda>r. the (snd st ! r)) (pc_refs (pcs ! i))"
    using assms(1,2) by (simp add: finished_def)
  with assms show ?thesis unfolding finished_def by metis
qed

lemma build_visit:
  assumes "parse_inv pcs (states, cs)" "i < length pcs" "states ! i = Unvisited"
  shows "parse_inv pcs (states[i := Visiting], cs)" "unvisited (states[i := Visiting]) = unvisited states - {i}"
    "i \<in> unvisited states"
proof -
  have len: "length states = length pcs" using assms(1) by (simp add: parse_inv_def)
  have "finished pcs (states[i := Visiting], cs) k"
    if k: "k < length pcs" "states[i := Visiting] ! k = Done" for k
  proof -
    have ki: "k \<noteq> i" using k assms(2) len by auto
    then have "states ! k = Done" using k by simp
    then have "finished pcs (states, cs) k" using assms(1) k(1) by (simp add: parse_inv_def)
    then show ?thesis
      by (rule finished_cong) (use assms(2,3) len in \<open>auto simp: nth_list_update\<close>)
  qed
  then show "parse_inv pcs (states[i := Visiting], cs)" using assms(1) by (simp add: parse_inv_def)
  show "unvisited (states[i := Visiting]) = unvisited states - {i}"
    using assms(2) len by (auto simp: unvisited_def nth_list_update)
  show "i \<in> unvisited states" using assms(2,3) len by (simp add: unvisited_def)
qed

lemma build_finish:
  assumes "parse_inv pcs (states, cs)" "i < length pcs" "states ! i = Unvisited"
    "parse_inv pcs (states', cs')" "progress (states[i := Visiting], cs) (states', cs')"
    "\<forall>r \<in> set (pc_refs (pcs ! i)). r < length pcs \<and> states' ! r = Done"
    "finish_parsed_cell (pcs ! i) (map (\<lambda>r. the (cs' ! r)) (pc_refs (pcs ! i))) = Inr c"
  shows "parse_inv pcs (states'[i := Done], cs'[i := Some c])"
    "progress (states, cs) (states'[i := Done], cs'[i := Some c])"
proof -
  let ?st = "(states'[i := Done], cs'[i := Some c])"
  have len: "length states = length pcs" "length states' = length pcs" "length cs' = length pcs"
    using assms(1,4) by (simp_all add: parse_inv_def)
  have vi: "states' ! i = Visiting" using assms(2,5) len by (simp add: progress_def)
  have keep: "fst ?st ! r = Done \<and> snd ?st ! r = snd (states', cs') ! r"
    if "r < length pcs" "fst (states', cs') ! r = Done" for r
    using that vi len by (cases "r = i") simp_all
  have ci: "finished pcs ?st i"
  proof -
    have "map (\<lambda>r. the (snd ?st ! r)) (pc_refs (pcs ! i)) = map (\<lambda>r. the (cs' ! r)) (pc_refs (pcs ! i))"
      using assms(6) keep by simp
    then show ?thesis unfolding finished_def using assms(2,6,7) len keep by (metis fst_conv nth_list_update_eq snd_conv)
  qed
  have "finished pcs ?st k" if k: "k < length pcs" "fst ?st ! k = Done" for k
  proof (cases "k = i")
    case False
    then have d: "states' ! k = Done" using k by simp
    then have "finished pcs (states', cs') k" using assms(4) k(1) by (simp add: parse_inv_def)
    then show ?thesis using finished_cong[of pcs "(states', cs')" k ?st] keep k(1) d by fastforce
  qed (use ci in simp)
  then show "parse_inv pcs ?st" using len by (simp add: parse_inv_def)
  show "progress (states, cs) ?st"
    using assms(2,3,5) len by (auto simp: progress_def nth_list_update)
qed

lemma build_spec: "build_spec fuel pcs"
proof (induction fuel)
  case (Suc fuel)
  show ?case unfolding build_spec_def
  proof (intro allI impI)
    fix i st assume inv: "parse_inv pcs st" and i: "i < length pcs" and u: "card (unvisited (fst st)) < Suc fuel"
    obtain states cs where st: "st = (states, cs)" by (cases st)
    have len: "length states = length pcs" "length cs = length pcs" using inv by (simp_all add: parse_inv_def st)
    show "no_fault (build_parsed_cell (Suc fuel) pcs i st)
     \<and> (\<forall>c st'. build_parsed_cell (Suc fuel) pcs i st = Inr (c, st') \<longrightarrow>
          parse_inv pcs st' \<and> progress st st' \<and> fst st' ! i = Done \<and> snd st' ! i = Some c)"
    proof (cases "states ! i")
      case Done
      then have "finished pcs st i" using inv i by (simp add: parse_inv_def st)
      with Done inv i len show ?thesis by (auto simp: st finished_def)
    next
      case Visiting
      with i len show ?thesis by (simp add: st)
    next
      case Unvisited
      note v = build_visit[OF inv[unfolded st] i Unvisited]
      have "card (unvisited (states[i := Visiting])) < fuel"
        using u card_Diff1_less[OF finite_unvisited v(3)] unfolding v(2) st by simp
      note r = build_refs[OF Suc.IH v(1), unfolded fst_conv, OF this, of "[]" "pc_refs (pcs ! i)"]
      show ?thesis
      proof (cases "ref_loop fuel pcs [] (states[i := Visiting], cs) (pc_refs (pcs ! i))")
        case (Inl e)
        then show ?thesis using r i len Unvisited by (simp add: st)
      next
        case (Inr p)
        obtain refs states' cs' where p: "p = (refs, (states', cs'))" by (cases p) auto
        have q: "parse_inv pcs (states', cs')" "progress (states[i := Visiting], cs) (states', cs')"
          "\<forall>r \<in> set (pc_refs (pcs ! i)). r < length pcs \<and> states' ! r = Done"
          "refs = map (\<lambda>j. the (cs' ! j)) (pc_refs (pcs ! i))"
          using r Inr unfolding p by auto
        have len': "length states' = length pcs" "length cs' = length pcs" using q(1) by (simp_all add: parse_inv_def)
        show ?thesis
        proof (cases "finish_parsed_cell (pcs ! i) refs")
          case f: (Inl e)
          have "no_fault (finish_parsed_cell (pcs ! i) refs)" by simp
          with f Inr show ?thesis using i len Unvisited by (simp add: st p)
        next
          case f: (Inr c)
          have "build_parsed_cell (Suc fuel) pcs i st = Inr (c, (states'[i := Done], cs'[i := Some c]))"
            using f Inr i len Unvisited by (simp add: st p)
          with build_finish[OF inv[unfolded st] i Unvisited q(1,2,3) f[unfolded q(4)]] i len'
          show ?thesis by (simp add: st)
        qed
      qed
    qed
  qed
qed (auto simp: build_spec_def)

text \<open>The bag a successful run describes: every cell is made of the cells its record names.\<close>

definition resolves :: "parsed_cell list \<Rightarrow> cell list \<Rightarrow> bool" where
  "resolves pcs cells \<longleftrightarrow> length cells = length pcs
     \<and> (\<forall>i < length pcs. (\<forall>r \<in> set (pc_refs (pcs ! i)). r < length pcs)
          \<and> finish_parsed_cell (pcs ! i) (map (\<lambda>r. cells ! r) (pc_refs (pcs ! i))) = Inr (cells ! i))"

lemma card_unvisited_le: "card (unvisited states) \<le> length states"
proof -
  have "unvisited states \<subseteq> {..<length states}" by (auto simp: unvisited_def)
  then have "card (unvisited states) \<le> card {..<length states}" by (intro card_mono) simp_all
  then show ?thesis by simp
qed

abbreviation build_loop :: "parsed_cell list \<Rightarrow> nat list \<Rightarrow> parse_state result" where
  "build_loop pcs idxs \<equiv> try_fold (\<lambda>st index.
       and_then (build_parsed_cell (length pcs + 1) pcs index st) (\<lambda>(_, st). Inr st))
     (replicate (length pcs) Unvisited, replicate (length pcs) None) idxs"

lemma build_loop_spec:
  assumes "k \<le> length pcs"
  shows "no_fault (build_loop pcs [0..<k]) \<and> (\<forall>st. build_loop pcs [0..<k] = Inr st \<longrightarrow>
    parse_inv pcs st \<and> (\<forall>i < k. fst st ! i = Done))"
  using assms
proof (induction k)
  case (Suc k)
  then have k: "k < length pcs" by simp
  show ?case
  proof (cases "build_loop pcs [0..<k]")
    case (Inl e)
    with Suc k show ?thesis by (simp add: try_fold_append)
  next
    case (Inr st)
    then have st: "parse_inv pcs st" "\<forall>i < k. fst st ! i = Done" using Suc k by auto
    have "card (unvisited (fst st)) < length pcs + 1"
      using card_unvisited_le[of "fst st"] st(1) by (simp add: parse_inv_def)
    note b = build_spec[of "length pcs + 1" pcs, unfolded build_spec_def, rule_format, OF st(1) k this]
    show ?thesis
    proof (cases "build_parsed_cell (length pcs + 1) pcs k st")
      case b': (Inl e)
      with b Inr show ?thesis by (simp add: try_fold_append)
    next
      case b': (Inr p)
      obtain c st' where p: "p = (c, st')" by (cases p)
      have q: "parse_inv pcs st'" "progress st st'" "fst st' ! k = Done" using b b' unfolding p by blast+
      have "fst st' ! i = Done" if "i < Suc k" for i
        using that q(2,3) st k by (cases "i = k") (auto simp: progress_def parse_inv_def)
      with q(1) Inr b' show ?thesis by (simp add: try_fold_append p)
    qed
  qed
qed (simp add: parse_inv_def)

lemma parse_inv_resolves:
  assumes "parse_inv pcs st" "\<forall>i < length pcs. fst st ! i = Done"
  shows "resolves pcs (map the (snd st))" "snd st = map Some (map the (snd st))"
proof -
  have len: "length (snd st) = length pcs" using assms(1) by (simp add: parse_inv_def)
  have f: "finished pcs st i" if "i < length pcs" for i using assms that by (simp add: parse_inv_def)
  show "snd st = map Some (map the (snd st))"
  proof (rule nth_equalityI)
    fix i assume "i < length (snd st)"
    then show "snd st ! i = map Some (map the (snd st)) ! i" using f[of i] len by (auto simp: finished_def)
  qed simp
  have "finish_parsed_cell (pcs ! i) (map (\<lambda>r. map the (snd st) ! r) (pc_refs (pcs ! i))) = Inr (map the (snd st) ! i)"
    if i: "i < length pcs" for i
  proof -
    from f[OF i] have r: "\<forall>r \<in> set (pc_refs (pcs ! i)). r < length pcs" by (simp add: finished_def)
    then have m: "map (\<lambda>r. map the (snd st) ! r) (pc_refs (pcs ! i)) = map (\<lambda>r. the (snd st ! r)) (pc_refs (pcs ! i))"
      using len by simp
    show ?thesis unfolding m using f[OF i] i len by (auto simp: finished_def)
  qed
  then show "resolves pcs (map the (snd st))" using f len by (simp add: resolves_def finished_def)
qed

lemma length_parse_cell_records:
  "parse_cell_records data pos sz k = Inr (pcs, pos') \<Longrightarrow> length pcs = k"
  by (induction k arbitrary: pos pcs) (auto simp: and_then_eq_Inr split: prod.splits)

lemma parse_cells_spec:
  "no_fault (parse_cells data count sz)"
  "parse_cells data count sz = Inr cells \<Longrightarrow>
     \<exists>pcs. parse_cell_records data 0 sz count = Inr (pcs, length data) \<and> resolves pcs cells"
proof -
  have "no_fault (parse_cells data count sz) \<and> (\<forall>cells. parse_cells data count sz = Inr cells \<longrightarrow>
     (\<exists>pcs. parse_cell_records data 0 sz count = Inr (pcs, length data) \<and> resolves pcs cells))"
  proof (cases "parse_cell_records data 0 sz count")
    case (Inl e)
    have "no_fault (parse_cell_records data 0 sz count)" by simp
    with Inl show ?thesis by (simp add: parse_cells_def)
  next
    case (Inr p)
    obtain pcs pos where p: "p = (pcs, pos)" by (cases p)
    have len: "length pcs = count" using length_parse_cell_records Inr p by blast
    note b = build_loop_spec[of "length pcs" pcs]
    show ?thesis
    proof (cases "pos = length data")
      case pos: True
      show ?thesis
      proof (cases "build_loop pcs [0..<length pcs]")
        case b': (Inl e)
        with b pos Inr len show ?thesis by (simp add: parse_cells_def p)
      next
        case b': (Inr st)
        then have st: "parse_inv pcs st" "\<forall>i < length pcs. fst st ! i = Done" using b by auto
        obtain states cs where [simp]: "st = (states, cs)" by (cases st)
        note r = parse_inv_resolves[OF st]
        have u: "try_fold (\<lambda>acc c. case c of Some c \<Rightarrow> Inr (acc @ [c]) | None \<Rightarrow> Inl (BocErr BocNotResolved)) [] cs
            = Inr (map the cs)"
          using unwrap_all[of "BocErr BocNotResolved" "[]" "map the cs"] r(2) by simp
        have "parse_cells data count sz = Inr (map the cs)"
          using b' pos Inr len u by (simp add: parse_cells_def p)
        with r(1) Inr p pos show ?thesis by simp
      qed
    qed (use Inr p in \<open>simp add: parse_cells_def\<close>)
  qed
  then show "no_fault (parse_cells data count sz)"
    "parse_cells data count sz = Inr cells \<Longrightarrow>
     \<exists>pcs. parse_cell_records data 0 sz count = Inr (pcs, length data) \<and> resolves pcs cells" by blast+
qed

section \<open>Well-formed results\<close>

definition parsed_ok :: "parsed_cell \<Rightarrow> bool" where
  "parsed_ok pc \<longleftrightarrow> (\<exists>xs. pc_raw_data pc = pack xs \<and> pc_bit_len pc = length xs \<and> length xs \<le> 1023)"

lemma parse_cell_record_ok:
  assumes "parse_cell_record data pos sz = Inr (pc, pos')"
  shows "parsed_ok pc"
proof -
  from assms obtain ser d2 where "decode_cell_data ser d2 = Inr (pc_raw_data pc, pc_bit_len pc)"
    by (auto simp: parse_cell_record_def Let_def and_then_eq_Inr split: if_splits)
  note d = decode_cell_data_Inr[OF this]
  show ?thesis unfolding parsed_ok_def
    by (rule exI[of _ "take (pc_bit_len pc) (bytes_bits ser)"]) (use d in simp)
qed

lemma parse_cell_records_ok:
  "parse_cell_records data pos sz k = Inr (pcs, pos') \<Longrightarrow> list_all parsed_ok pcs"
  by (induction k arbitrary: pos pcs) (auto simp: and_then_eq_Inr parse_cell_record_ok split: prod.splits)

lemma finish_parsed_cell_refs:
  assumes "finish_parsed_cell pc refs = Inr c"
  shows "cell_references c = refs"
proof (cases "pc_is_exotic pc")
  case True
  with assms show ?thesis
    by (auto simp: finish_parsed_cell_def with_exotic_data_def and_then_eq_Inr split: if_splits)
next
  case False
  with assms obtain xs where "add_references (mk_cell xs []) refs = Inr c"
    by (auto simp: finish_parsed_cell_def and_then_eq_Inr with_data_eq_Inr_iff split: if_splits)
  then show ?thesis by (auto simp: add_references_mk_cell split: if_splits)
qed

lemma resolves_refs:
  assumes "resolves pcs cells" "i < length pcs"
  shows "cell_references (cells ! i) = map (\<lambda>r. cells ! r) (pc_refs (pcs ! i))"
    "r \<in> set (pc_refs (pcs ! i)) \<Longrightarrow> r < length pcs \<and> size (cells ! r) < size (cells ! i)"
proof -
  have f: "finish_parsed_cell (pcs ! i) (map (\<lambda>r. cells ! r) (pc_refs (pcs ! i))) = Inr (cells ! i)"
    using assms by (simp add: resolves_def)
  then show refs: "cell_references (cells ! i) = map (\<lambda>r. cells ! r) (pc_refs (pcs ! i))"
    by (rule finish_parsed_cell_refs)
  assume r: "r \<in> set (pc_refs (pcs ! i))"
  then have "cells ! r \<in> set (cell_references (cells ! i))" using refs by simp
  then have "size (cells ! r) \<le> size_list size (cell_references (cells ! i))"
    by (rule size_list_estimation'[OF _ order_refl])
  then have "size (cells ! r) < size (cells ! i)" by (cases "cells ! i") simp
  then show "r < length pcs \<and> size (cells ! r) < size (cells ! i)" using r assms by (simp add: resolves_def)
qed

lemma resolves_wf:
  assumes "resolves pcs cells" "list_all parsed_ok pcs" "i < length pcs"
  shows "wf_cell (cells ! i)"
  using assms(3)
proof (induction "size (cells ! i)" arbitrary: i rule: less_induct)
  case less
  have "list_all wf_cell (map (\<lambda>r. cells ! r) (pc_refs (pcs ! i)))"
    using less.hyps resolves_refs(2)[OF assms(1) less.prems] by (simp add: list_all_iff)
  moreover have "finish_parsed_cell (pcs ! i) (map (\<lambda>r. cells ! r) (pc_refs (pcs ! i))) = Inr (cells ! i)"
    using assms(1) less.prems by (simp add: resolves_def)
  moreover obtain xs where "pc_raw_data (pcs ! i) = pack xs" "pc_bit_len (pcs ! i) = length xs" "length xs \<le> 1023"
    using assms(2) less.prems by (auto simp: parsed_ok_def list_all_length)
  ultimately show ?case by (intro finish_parsed_cell_Inr(1))
qed

lemma parse_cells_wf:
  assumes "parse_cells data count sz = Inr cells"
  shows "list_all wf_cell cells" "length cells = count"
proof -
  obtain pcs where p: "parse_cell_records data 0 sz count = Inr (pcs, length data)" "resolves pcs cells"
    using parse_cells_spec(2)[OF assms] by blast
  show "length cells = count" using p length_parse_cell_records by (auto simp: resolves_def)
  show "list_all wf_cell cells"
    using resolves_wf[OF p(2) parse_cell_records_ok[OF p(1)]] p(2) by (simp add: list_all_length resolves_def)
qed

lemma read_root_indices_bound:
  "read_root_indices data pos sz n k = Inr (idxs, pos') \<Longrightarrow> (\<forall>i \<in> set idxs. i < n) \<and> length idxs = k"
  by (induction k arbitrary: pos idxs) (auto simp: and_then_eq_Inr split: prod.splits if_splits)

lemma layout_roots:
  assumes "parse_boc_generic_layout X data = Inr lay"
  shows "\<forall>i \<in> set (lay_root_indices lay). i < lay_cells_count lay" "lay_root_indices lay \<noteq> []"
proof -
  from assms obtain p sz k pos' where "read_root_indices data p sz (lay_cells_count lay) k = Inr (lay_root_indices lay, pos')" "k \<noteq> 0"
    by (auto simp: parse_boc_generic_layout_def Let_def and_then_eq_Inr split: if_splits prod.splits)
  from read_root_indices_bound[OF this(1)] this(2)
  show "\<forall>i \<in> set (lay_root_indices lay). i < lay_cells_count lay" "lay_root_indices lay \<noteq> []" by auto
qed

lemma select_all:
  "(\<forall>i \<in> set idxs. i < length xs) \<Longrightarrow>
    try_fold (\<lambda>acc i. and_then (index_or_panic xs i) (\<lambda>x. Inr (acc @ [x]))) acc idxs = Inr (acc @ map (\<lambda>i. xs ! i) idxs)"
  by (induction idxs arbitrary: acc) simp_all

lemma generic_roots_spec:
  "no_fault (deserialize_boc_generic_roots X data)"
  "deserialize_boc_generic_roots X data = Inr roots \<longleftrightarrow>
     (\<exists>lay cells. parse_boc_generic_layout X data = Inr lay
       \<and> parse_cells (lay_cells_data lay) (lay_cells_count lay) (lay_size_bytes lay) = Inr cells
       \<and> roots = map (\<lambda>i. cells ! i) (lay_root_indices lay))"
proof -
  have s: "try_fold (\<lambda>acc root_idx. and_then (index_or_panic cells root_idx) (\<lambda>c. Inr (acc @ [c])))
       [] (lay_root_indices lay) = Inr (map (\<lambda>i. cells ! i) (lay_root_indices lay))"
    if "parse_boc_generic_layout X data = Inr lay"
      "parse_cells (lay_cells_data lay) (lay_cells_count lay) (lay_size_bytes lay) = Inr cells" for lay cells
    using layout_roots(1)[OF that(1)] parse_cells_wf(2)[OF that(2)] by (simp add: select_all)
  show "no_fault (deserialize_boc_generic_roots X data)"
    unfolding deserialize_boc_generic_roots_def
    by (intro no_fault_and_then) (simp_all add: parse_cells_spec(1) s)
  show "deserialize_boc_generic_roots X data = Inr roots \<longleftrightarrow>
     (\<exists>lay cells. parse_boc_generic_layout X data = Inr lay
       \<and> parse_cells (lay_cells_data lay) (lay_cells_count lay) (lay_size_bytes lay) = Inr cells
       \<and> roots = map (\<lambda>i. cells ! i) (lay_root_indices lay))"
    unfolding deserialize_boc_generic_roots_def by (auto simp: and_then_eq_Inr s)
qed

section \<open>Trailing bytes\<close>

lemma read_uint_append:
  "read_uint data pos sz = Inr r \<Longrightarrow> read_uint (data @ ext) pos sz = Inr r"
proof -
  assume r: "read_uint data pos sz = Inr r"
  then have len: "\<not> length data < pos + sz" by (auto simp: read_uint_def)
  then have "foldl (\<lambda>r i. push_bit 8 r OR ucast ((data @ ext) ! (pos + i))) (0 :: u64) [0..<sz]
      = foldl (\<lambda>r i. push_bit 8 r OR ucast (data ! (pos + i))) 0 [0..<sz]"
    by (intro foldl_cong) (simp_all add: nth_append)
  with r len show ?thesis by (simp add: read_uint_def)
qed

lemma read_root_indices_append:
  "read_root_indices data pos sz n k = Inr r \<Longrightarrow> read_root_indices (data @ ext) pos sz n k = Inr r"
proof (induction k arbitrary: pos r)
  case (Suc k)
  then obtain i p rest q where r: "read_uint data pos sz = Inr (i, p)" "\<not> n \<le> i"
      "read_root_indices data p sz n k = Inr (rest, q)" "r = (i # rest, q)"
    by (auto simp: and_then_eq_Inr split: if_splits)
  show ?case using read_uint_append[OF r(1)] Suc.IH[OF r(3)] r(2,4) by simp
qed simp

lemma check_index_table_append:
  "check_index_table data pos off csize prev k = Inr r \<Longrightarrow> check_index_table (data @ ext) pos off csize prev k = Inr r"
proof (induction k arbitrary: pos prev)
  case (Suc k)
  then obtain i p where r: "read_uint data pos off = Inr (i, p)" "\<not> (i < prev \<or> csize < i)" "\<not> (k = 0 \<and> i \<noteq> csize)"
      "check_index_table data p off csize i k = Inr r"
    by (auto simp: and_then_eq_Inr split: if_splits)
  show ?case using read_uint_append[OF r(1)] Suc.IH[OF r(4)] r(2,3) by simp
qed simp

lemma index_table_if_append:
  "(if b then check_index_table data pos off csize prev k else Inr pos) = Inr r \<Longrightarrow>
   (if b then check_index_table (data @ ext) pos off csize prev k else Inr pos) = Inr r"
  by (auto dest: check_index_table_append split: if_splits)

lemma guard_eq_Inr: "(if b then Inl e else r) = Inr y \<longleftrightarrow> \<not> b \<and> r = Inr y"
  by simp

lemma layout_cases:
  assumes "parse_boc_generic_layout X data = Inr lay"
  obtains off n rc ab sz csize p1 p2 p3 p4 p5 p6 idxs where
    "6 \<le> length data" "data ! 4 AND 0x20 = 0" "sz = unat (data ! 4 AND 7)" "sz \<noteq> 0" "sz \<le> 8"
    "off = unat (data ! 5)" "off \<noteq> 0" "off \<le> 8"
    "read_uint data 6 sz = Inr (n, p1)" "read_uint data p1 sz = Inr (rc, p2)" "rc \<noteq> 0"
    "read_uint data p2 sz = Inr (ab, p3)" "read_uint data p3 off = Inr (csize, p4)"
    "read_root_indices data p4 sz n rc = Inr (idxs, p5)"
    "(if data ! 4 AND 0x80 \<noteq> 0 then check_index_table data p5 off csize 0 n else Inr p5) = Inr p6"
    "p6 + csize < 2 ^ 64"
    "length data = p6 + csize + (if data ! 4 AND 0x40 \<noteq> 0 then 4 else 0)"
    "data ! 4 AND 0x40 \<noteq> 0 \<Longrightarrow> u32_from_le (drop (p6 + csize) data) = crc32_iso_hdlc X (take (p6 + csize) data)"
proof -
  note a = assms[unfolded parse_boc_generic_layout_def Let_def,
      simplified guard_eq_Inr and_then_eq_Inr split_paired_Ex prod.case]
  show thesis
    using a by (elim exE conjE) (rule that; (assumption | rule refl | simp)?)
qed

lemma deserialize_boc_Inr:
  assumes "deserialize_boc X data = Inr root"
  shows "deserialize_boc_roots X data = Inr [root]"
proof -
  from assms obtain roots where r: "deserialize_boc_roots X data = Inr roots"
      "(case roots of [root] \<Rightarrow> Inr root | _ \<Rightarrow> Inl (BocErr BocNotSingleRoot)) = Inr root"
    by (auto simp: deserialize_boc_def and_then_eq_Inr)
  from r(2) have "roots = [root]" by (cases roots rule: list.exhaust; cases "tl roots") auto
  with r(1) show ?thesis by simp
qed

section \<open>Properties\<close>

lemma deserialize_boc_roots_wf:
  assumes "deserialize_boc_roots X data = Inr roots"
  shows "roots \<noteq> []" "list_all wf_cell roots"
proof -
  have "deserialize_boc_generic_roots X data = Inr roots"
    using assms by (auto simp: deserialize_boc_roots_def Let_def split: if_splits)
  then obtain lay cells where l: "parse_boc_generic_layout X data = Inr lay"
      "parse_cells (lay_cells_data lay) (lay_cells_count lay) (lay_size_bytes lay) = Inr cells"
      "roots = map (\<lambda>i. cells ! i) (lay_root_indices lay)"
    unfolding generic_roots_spec(2) by blast
  show "roots \<noteq> []" using layout_roots(2)[OF l(1)] l(3) by simp
  show "list_all wf_cell roots"
    using parse_cells_wf[OF l(2)] layout_roots(1)[OF l(1)] by (simp add: l(3) list_all_iff)
qed

lemma deserialize_boc_wf:
  assumes "deserialize_boc X data = Inr c"
  shows "wf_cell c"
proof -
  obtain roots where r: "deserialize_boc_roots X data = Inr roots"
      "(case roots of [root] \<Rightarrow> Inr root | _ \<Rightarrow> Inl (BocErr BocNotSingleRoot)) = Inr c"
    using assms unfolding deserialize_boc_def and_then_eq_Inr by blast
  have "roots = [c]" using r(2) by (cases roots rule: remdups_adj.cases) simp_all
  with deserialize_boc_roots_wf(2)[OF r(1)] show ?thesis by simp
qed

text \<open>
  C2: Reading an arbitrary byte string as a bag of cells never panics and never recurses
  without end: either an error is returned, or a non-empty list of well-formed cells.
\<close>

theorem deserialize_boc_roots_safe:
  "(\<exists>e. deserialize_boc_roots X data = Inl e \<and> e \<noteq> Panic \<and> e \<noteq> OutOfFuel)
   \<or> (\<exists>roots. deserialize_boc_roots X data = Inr roots \<and> roots \<noteq> [] \<and> list_all wf_cell roots)"
proof (cases "deserialize_boc_roots X data")
  case (Inl e)
  have "no_fault (deserialize_boc_roots X data)"
    by (simp add: deserialize_boc_roots_def generic_roots_spec(1) Let_def)
  with Inl show ?thesis by simp
qed (simp add: deserialize_boc_roots_wf)

text \<open>
  C14: A bag that announces a checksum is accepted only when its last four bytes are the
  little-endian CRC-32 of all bytes before them.
\<close>

theorem boc_checksum_checked:
  assumes "deserialize_boc_roots X data = Inr roots" "data ! 4 AND 0x40 \<noteq> 0"
  shows "u32_from_le (drop (length data - 4) data) = crc32_iso_hdlc X (take (length data - 4) data)"
proof -
  from assms(1) obtain lay where "parse_boc_generic_layout X data = Inr lay"
    by (auto simp: deserialize_boc_roots_def deserialize_boc_generic_roots_def Let_def and_then_eq_Inr
        split: if_splits)
  then show ?thesis by (rule layout_cases) (use assms(2) in simp)
qed

theorem boc_checksum_checked_witness:
  "\<exists>data. deserialize_boc_roots length_digest data = Inr [sample_root]
     \<and> u32_from_le (drop (length data - 4) data) = crc32_iso_hdlc length_digest (take (length data - 4) data)"
proof -
  define sz where "sz = bytes_needed (length (collect_cells length_digest sample_root))"
  define bs where "bs = boc_bytes length_digest True sz
    (bytes_needed (length (boc_body length_digest sample_root))) (length (collect_cells length_digest sample_root))
    (length (collect_cells length_digest sample_root) - 1) (boc_body length_digest sample_root)"
  have "deserialize_boc length_digest bs = Inr sample_root" unfolding bs_def sz_def
    by (rule boc_reads[OF length_digest_hashing sample_collision_free wf_sample_root(1) card_sample])
  then have d: "deserialize_boc_roots length_digest bs = Inr [sample_root]" by (rule deserialize_boc_Inr)
  have "sz \<in> {1, 2, 3, 4, 5, 6}" unfolding sz_def
    by (rule length_boc_body(2)[OF length_digest_hashing sample_collision_free wf_sample_root(1) card_sample])
  note f = flag_fields(2)[OF this, of True]
  have "bs ! 4 = push_bit 6 (if True then 1 else 0) OR word_of_nat sz"
    by (simp add: bs_def boc_bytes_def boc_prefix_def nth_append Let_def)
  with f have "bs ! 4 AND 0x40 \<noteq> 0" by metis
  from boc_checksum_checked[OF d this] d show ?thesis by blast
qed

text \<open>
  C15: No proper extension of an accepted bag is accepted: bytes after the payload and its
  checksum are reported as trailing.
\<close>

theorem boc_trailing_rejected:
  assumes "deserialize_boc_roots X data = Inr roots" "ext \<noteq> []"
  shows "deserialize_boc_roots X (data @ ext) = Inl (BocErr BocTrailingBytes)"
proof -
  from assms(1) obtain lay where l: "parse_boc_generic_layout X data = Inr lay"
    and m: "4 \<le> length data" "u32_from_be (take 4 data) = BOC_GENERIC_MAGIC"
    by (auto simp: deserialize_boc_roots_def deserialize_boc_generic_roots_def Let_def and_then_eq_Inr
        split: if_splits)
  have "parse_boc_generic_layout X (data @ ext) = Inl (BocErr BocTrailingBytes)"
    using l
  proof (rule layout_cases)
    fix off n rc ab sz csize p1 p2 p3 p4 p5 p6 idxs
    assume h: "6 \<le> length data" "data ! 4 AND 0x20 = 0" "sz = unat (data ! 4 AND 7)" "sz \<noteq> 0" "sz \<le> 8"
        "off = unat (data ! 5)" "off \<noteq> 0" "off \<le> 8"
      and r: "read_uint data 6 sz = Inr (n, p1)" "read_uint data p1 sz = Inr (rc, p2)" "rc \<noteq> 0"
        "read_uint data p2 sz = Inr (ab, p3)" "read_uint data p3 off = Inr (csize, p4)"
      and i: "read_root_indices data p4 sz n rc = Inr (idxs, p5)"
        "(if data ! 4 AND 0x80 \<noteq> 0 then check_index_table data p5 off csize 0 n else Inr p5) = Inr p6"
      and len: "p6 + csize < 2 ^ 64" "length data = p6 + csize + (if data ! 4 AND 0x40 \<noteq> 0 then 4 else 0)"
    have nth: "(data @ ext) ! 4 = data ! 4" "(data @ ext) ! 5 = data ! 5" using h(1) by (simp_all add: nth_append)
    have ext: "0 < length ext" using assms(2) by simp
    note r' = r(1,2,4,5)[THEN read_uint_append, of ext] read_root_indices_append[OF i(1), of ext]
      index_table_if_append[OF i(2), of ext]
    show ?thesis
      unfolding parse_boc_generic_layout_def Let_def nth h(3)[symmetric] h(6)[symmetric] r' and_then_simps prod.case
      using h r(3) len ext by (simp add: not_le)
  qed
  then show ?thesis using m by (simp add: deserialize_boc_roots_def deserialize_boc_generic_roots_def Let_def)
qed

theorem boc_trailing_rejected_witness:
  "and_then (serialize_boc length_digest sample_root False) (\<lambda>bs. deserialize_boc_roots length_digest (bs @ [0]))
    = Inl (BocErr BocTrailingBytes)"
proof -
  let ?bs = "boc_bytes length_digest False (bytes_needed (length (collect_cells length_digest sample_root)))
    (bytes_needed (length (boc_body length_digest sample_root))) (length (collect_cells length_digest sample_root))
    (length (collect_cells length_digest sample_root) - 1) (boc_body length_digest sample_root)"
  have "deserialize_boc length_digest ?bs = Inr sample_root"
    by (rule boc_reads[OF length_digest_hashing sample_collision_free wf_sample_root(1) card_sample])
  then have "deserialize_boc_roots length_digest ?bs = Inr [sample_root]" by (rule deserialize_boc_Inr)
  then have "deserialize_boc_roots length_digest (?bs @ [0]) = Inl (BocErr BocTrailingBytes)"
    by (rule boc_trailing_rejected) simp
  then show ?thesis
    using serialize_boc_eq[OF length_digest_hashing sample_collision_free wf_sample_root(1) card_sample] by simp
qed

end
