(* ===== verification/BocInspect.thy ===== *)
theory BocInspect
  imports BocSafety
begin

unbundle bit_operations_syntax

text \<open>
  The structural inspection of bags of cells, which hashes raw records without building
  cells.  It is safe on arbitrary input, and it agrees with the reader: on every bag the
  reader accepts it returns the representation hashes of the roots, as long as these are
  less than 65536 levels deep, where the inspection's saturating depth and the wrapping
  depth of \<open>Cell::depth\<close> part ways.
\<close>

section \<open>Safety\<close>

definition hash_shape :: "nat \<Rightarrow> hash_state \<Rightarrow> bool" where
  "hash_shape n st \<longleftrightarrow> length (fst st) = n \<and> length (fst (snd st)) = n \<and> length (snd (snd st)) = n"

definition valid_refs :: "raw_cell_record list \<Rightarrow> bool" where
  "valid_refs cells \<longleftrightarrow> (\<forall>rc \<in> set cells. \<forall>r \<in> set (raw_refs rc). r < length cells)"

definition hash_safe :: "crates \<Rightarrow> nat \<Rightarrow> raw_cell_record list \<Rightarrow> bool" where
  "hash_safe X fuel cells \<longleftrightarrow> (\<forall>index st. hash_shape (length cells) st \<longrightarrow> index < length cells
     \<longrightarrow> card (unvisited (fst st)) < fuel \<longrightarrow>
     no_fault (compute_raw_cell_hash X fuel cells index st)
     \<and> (\<forall>st'. compute_raw_cell_hash X fuel cells index st = Inr st' \<longrightarrow>
          hash_shape (length cells) st' \<and> unvisited (fst st') \<subseteq> unvisited (fst st)))"

lemma hash_refs_safe:
  assumes "hash_safe X fuel cells" "hash_shape (length cells) st" "card (unvisited (fst st)) < fuel"
    "\<forall>r \<in> set idxs. r < length cells"
  shows "no_fault (try_fold (\<lambda>st r. compute_raw_cell_hash X fuel cells r st) st idxs)
    \<and> (\<forall>st'. try_fold (\<lambda>st r. compute_raw_cell_hash X fuel cells r st) st idxs = Inr st' \<longrightarrow>
         hash_shape (length cells) st' \<and> unvisited (fst st') \<subseteq> unvisited (fst st))"
  using assms(2-4)
proof (induction idxs arbitrary: st)
  case (Cons r idxs)
  have r: "r < length cells" using Cons.prems by simp
  note b = assms(1)[unfolded hash_safe_def, rule_format, OF Cons.prems(1) r Cons.prems(2)]
  show ?case
  proof (cases "compute_raw_cell_hash X fuel cells r st")
    case (Inl e)
    with b show ?thesis by simp
  next
    case (Inr st1)
    then have s1: "hash_shape (length cells) st1" "unvisited (fst st1) \<subseteq> unvisited (fst st)" using b by blast+
    then have "card (unvisited (fst st1)) < fuel"
      using card_mono[OF finite_unvisited s1(2)] Cons.prems(2) by simp
    with Cons.IH[OF s1(1)] Cons.prems(3) Inr s1(2) show ?thesis by (simp only: try_fold.simps and_then_simps) fastforce
  qed
qed simp

lemma unvisited_update:
  "v \<noteq> Unvisited \<Longrightarrow> unvisited (states[i := v]) = unvisited states - {i}"
  by (cases "i < length states") (auto simp: unvisited_def nth_list_update)

lemma hash_safe:
  assumes "valid_refs cells"
  shows "hash_safe X fuel cells"
proof (induction fuel)
  case (Suc fuel)
  show ?case unfolding hash_safe_def
  proof (intro allI impI)
    fix i and st :: hash_state
    assume sh: "hash_shape (length cells) st" and i: "i < length cells" and u: "card (unvisited (fst st)) < Suc fuel"
    obtain states hs ds where st: "st = (states, hs, ds)" by (cases st)
    have len: "length states = length cells" using sh by (simp add: hash_shape_def st)
    show "no_fault (compute_raw_cell_hash X (Suc fuel) cells i st)
     \<and> (\<forall>st'. compute_raw_cell_hash X (Suc fuel) cells i st = Inr st' \<longrightarrow>
          hash_shape (length cells) st' \<and> unvisited (fst st') \<subseteq> unvisited (fst st))"
    proof (cases "states ! i")
      case Unvisited
      let ?st = "(states[i := Visiting], hs, ds)" and ?refs = "raw_refs (cells ! i)"
      have i_un: "i \<in> unvisited states" using Unvisited i len by (simp add: unvisited_def)
      have sh1: "hash_shape (length cells) ?st" using sh by (simp add: hash_shape_def st)
      have "card (unvisited (fst ?st)) < fuel"
        using u card_Diff1_less[OF finite_unvisited i_un] by (simp add: unvisited_update st)
      moreover have refs: "\<forall>r \<in> set ?refs. r < length cells"
        using assms nth_mem[OF i] unfolding valid_refs_def by blast
      ultimately have b: "no_fault (try_fold (\<lambda>st r. compute_raw_cell_hash X fuel cells r st) ?st ?refs)
        \<and> (\<forall>st'. try_fold (\<lambda>st r. compute_raw_cell_hash X fuel cells r st) ?st ?refs = Inr st' \<longrightarrow>
             hash_shape (length cells) st' \<and> unvisited (fst st') \<subseteq> unvisited (fst ?st))"
        by (rule hash_refs_safe[OF Suc.IH sh1])
      show ?thesis
      proof (cases "try_fold (\<lambda>st r. compute_raw_cell_hash X fuel cells r st) ?st ?refs")
        case (Inl e)
        with b Unvisited i len show ?thesis by (simp add: st)
      next
        case (Inr st1)
        obtain states' hs' ds' where st1: "st1 = (states', hs', ds')" by (cases st1)
        have s1: "hash_shape (length cells) st1" "unvisited states' \<subseteq> unvisited states"
          using b Inr by (auto simp: st1 unvisited_update)
        then have l: "length hs' = length cells" "length ds' = length cells" by (simp_all add: hash_shape_def st1)
        show ?thesis
          using Unvisited i len Inr refs s1 l
          by (auto simp: st st1 select_all hash_shape_def unvisited_update Let_def)
      qed
    qed (use i len sh in \<open>simp_all add: st\<close>)
  qed
qed (auto simp: hash_safe_def)

lemma no_fault_parse_raw_cell [simp]: "no_fault (parse_raw_cell data pos sz)"
  unfolding parse_raw_cell_def Let_def by (intro no_fault_intros) simp_all

lemma no_fault_parse_raw_cells [simp]:
  "no_fault (parse_raw_cells_loop data pos sz k)" "no_fault (parse_raw_cells data n sz)"
proof -
  show *: "no_fault (parse_raw_cells_loop data pos sz k)" for pos k
    by (induction k arbitrary: pos) (auto intro!: no_fault_intros)
  show "no_fault (parse_raw_cells data n sz)"
    unfolding parse_raw_cells_def by (intro no_fault_intros) (simp_all add: *)
qed

lemma length_parse_raw_cells_loop:
  "parse_raw_cells_loop data pos sz k = Inr (raws, pos') \<Longrightarrow> length raws = k"
  by (induction k arbitrary: pos raws) (auto simp: and_then_eq_Inr split: prod.splits)

lemma parse_raw_cells_Inr:
  assumes "parse_raw_cells data n sz = Inr raws"
  shows "length raws = n" "valid_refs raws"
  using assms length_parse_raw_cells_loop
  by (auto simp: parse_raw_cells_def and_then_eq_Inr valid_refs_def list_all_iff split: if_splits prod.splits)

abbreviation hash_loop :: "crates \<Rightarrow> raw_cell_record list \<Rightarrow> nat list \<Rightarrow> hash_state result" where
  "hash_loop X cells idxs \<equiv> try_fold (\<lambda>st index. compute_raw_cell_hash X (length cells + 1) cells index st)
     (replicate (length cells) Unvisited, replicate (length cells) (replicate 32 0),
      replicate (length cells) 0) idxs"

lemma compute_raw_cell_hashes_safe:
  assumes "valid_refs cells"
  shows "no_fault (compute_raw_cell_hashes X cells)"
    "compute_raw_cell_hashes X cells = Inr hs \<Longrightarrow> length hs = length cells"
proof -
  let ?st = "(replicate (length cells) Unvisited, replicate (length cells) (replicate 32 0),
        replicate (length cells) 0) :: hash_state"
  have "hash_shape (length cells) ?st" by (simp add: hash_shape_def)
  moreover have "card (unvisited (fst ?st)) < length cells + 1"
    using card_unvisited_le[of "fst ?st"] by simp
  ultimately have b: "no_fault (hash_loop X cells [0..<length cells])
    \<and> (\<forall>st'. hash_loop X cells [0..<length cells] = Inr st' \<longrightarrow> hash_shape (length cells) st'
        \<and> unvisited (fst st') \<subseteq> unvisited (fst ?st))"
    by (rule hash_refs_safe[OF hash_safe[OF assms]]) simp
  then show "no_fault (compute_raw_cell_hashes X cells)"
    unfolding compute_raw_cell_hashes_def by (intro no_fault_and_then no_fault_case_prod) auto
  assume "compute_raw_cell_hashes X cells = Inr hs"
  then obtain states ds where "hash_loop X cells [0..<length cells] = Inr (states, hs, ds)"
    by (auto simp: compute_raw_cell_hashes_def and_then_eq_Inr)
  with b have "hash_shape (length cells) (states, hs, ds)" by blast
  then show "length hs = length cells" by (simp add: hash_shape_def)
qed

section \<open>Records of cells\<close>

definition raw_match :: "parsed_cell \<Rightarrow> raw_cell_record \<Rightarrow> bool" where
  "raw_match pc rc \<longleftrightarrow> raw_refs rc = pc_refs pc
     \<and> (\<forall>c. cell_data c = pc_raw_data pc \<and> cell_bit_len c = pc_bit_len pc \<and> is_exotic c = pc_is_exotic pc
          \<and> cell_level c = pc_level pc \<and> length (cell_references c) = length (pc_refs pc)
          \<longrightarrow> descriptors c = raw_descriptors rc \<and> serialize_data c = raw_serialized_data rc)"

lemma length_read_refs: "read_refs data pos sz k = Inr (refs, pos') \<Longrightarrow> length refs = k"
  by (induction k arbitrary: pos refs) (auto simp: and_then_eq_Inr split: prod.splits)

lemma parse_raw_cell_matches:
  assumes "parse_cell_record data pos sz = Inr (pc, pos')" "length (pc_refs pc) \<le> 4"
  obtains rc where "parse_raw_cell data pos sz = Inr (rc, pos')" "raw_match pc rc"
proof -
  define d1 where "d1 = data ! pos"
  define d2 where "d2 = data ! (pos + 1)"
  define ser where "ser = take (div_ceil (unat d2) 2) (drop (pos + 2) data)"
  define rc where "rc = \<lparr>raw_descriptors = [d1, d2], raw_serialized_data = ser, raw_refs = pc_refs pc\<rparr>"
  from assms(1) have h: "pos + 1 < length data" "d1 AND 16 = 0" "d1 AND 128 = 0"
      "\<not> length data < pos + 2 + div_ceil (unat d2) 2"
      "read_refs data (pos + 2 + div_ceil (unat d2) 2) sz (unat (d1 AND 7)) = Inr (pc_refs pc, pos')"
      "decode_cell_data ser d2 = Inr (pc_raw_data pc, pc_bit_len pc)"
      "pc_is_exotic pc = (d1 AND 8 \<noteq> 0)" "pc_level pc = drop_bit 5 d1 AND 3"
    unfolding parse_cell_record_def Let_def d1_def[symmetric] d2_def[symmetric] ser_def[symmetric]
    by (auto simp: and_then_eq_Inr not_less not_le split: if_splits)
  have n: "length (pc_refs pc) = unat (d1 AND 7)" by (rule length_read_refs[OF h(5)])
  have "descriptors c = [d1, d2] \<and> serialize_data c = ser"
    if c: "cell_data c = pc_raw_data pc" "cell_bit_len c = pc_bit_len pc" "is_exotic c = pc_is_exotic pc"
      "cell_level c = pc_level pc" "length (cell_references c) = length (pc_refs pc)" for c
  proof -
    note d = decode_cell_data_Inr[OF h(6)]
    have "d1 = word_of_nat (unat (d1 AND 7)) + (if d1 AND 8 \<noteq> 0 then 8 else 0) + (drop_bit 5 d1 AND 3) * 32"
      by (rule d1_unique) (use h assms(2) n in simp_all)
    then have "descriptors c ! 0 = d1" unfolding descriptors_def c h(7,8) n by simp
    moreover have "descriptors c ! 1 = d2" unfolding descriptors_def c using d(4) by simp
    moreover have "serialize_data c = ser" by (rule d(5)[OF c(1,2)])
    ultimately show ?thesis by (simp add: descriptors_def)
  qed
  then have "raw_match pc rc" by (simp add: raw_match_def rc_def)
  moreover have "parse_raw_cell data pos sz = Inr (rc, pos')"
    unfolding parse_raw_cell_def Let_def d1_def[symmetric] d2_def[symmetric] ser_def[symmetric]
    using h(1-5) assms(2) n by (simp add: rc_def)
  ultimately show thesis using that by blast
qed

lemma parse_raw_cells_loop_matches:
  assumes "parse_cell_records data pos sz k = Inr (pcs, pos')" "\<forall>pc \<in> set pcs. length (pc_refs pc) \<le> 4"
  shows "\<exists>raws. parse_raw_cells_loop data pos sz k = Inr (raws, pos') \<and> list_all2 raw_match pcs raws"
  using assms
proof (induction k arbitrary: pos pcs)
  case (Suc k)
  then obtain pc p rest where r: "parse_cell_record data pos sz = Inr (pc, p)"
      "parse_cell_records data p sz k = Inr (rest, pos')" "pcs = pc # rest"
    by (auto simp: and_then_eq_Inr split: prod.splits)
  obtain rc where rc: "parse_raw_cell data pos sz = Inr (rc, p)" "raw_match pc rc"
    using parse_raw_cell_matches[OF r(1)] Suc.prems(2) r(3) by auto
  obtain raws where "parse_raw_cells_loop data p sz k = Inr (raws, pos')" "list_all2 raw_match rest raws"
    using Suc.IH[OF r(2)] Suc.prems(2) r(3) by auto
  with rc r(3) show ?case by simp
qed simp

section \<open>Depths\<close>

fun height :: "cell \<Rightarrow> nat" where
  "height (Cell d n rs ex lv hc dc) = (if rs = [] then 0 else fold max (map height rs) 0 + 1)"

lemma height_eq: "height c = (if cell_references c = [] then 0 else fold max (map height (cell_references c)) 0 + 1)"
  by (cases c) simp

lemma fold_max_ge: "(x::nat) \<in> set xs \<Longrightarrow> x \<le> fold max xs a" "a \<le> fold max xs (a::nat)"
  by (induction xs arbitrary: a) (auto intro: order_trans[OF max.cobounded1] order_trans[OF max.cobounded2] simp: max.coboundedI1 max.coboundedI2)

lemma height_ref: "r \<in> set (cell_references c) \<Longrightarrow> height r < height c"
  using fold_max_ge(1)[of "height r" "map height (cell_references c)" 0]
  by (subst (2) height_eq) auto

lemma max_word_of_nat:
  "a < 65536 \<Longrightarrow> b < 65536 \<Longrightarrow> max (word_of_nat a :: u16) (word_of_nat b) = word_of_nat (max a b)"
  by (simp add: max_def word_le_nat_alt unat_of_nat)

lemma fold_max_word:
  "a < 65536 \<Longrightarrow> \<forall>x \<in> set xs. x < 65536 \<Longrightarrow>
    fold max (map word_of_nat xs) (word_of_nat a :: u16) = word_of_nat (fold max xs a)"
  by (induction xs arbitrary: a) (simp_all add: max_word_of_nat)

lemma cell_depth_eq:
  "wf_cell c \<Longrightarrow> cell_depth c =
    (if cell_references c = [] then 0 else fold max (map cell_depth (cell_references c)) 0 + 1)"
  by (cases c) simp

lemma cell_depth_height:
  "wf_cell c \<Longrightarrow> height c < 65536 \<Longrightarrow> cell_depth c = word_of_nat (height c)"
proof (induction "size c" arbitrary: c rule: less_induct)
  case less
  let ?rs = "cell_references c"
  have "cell_depth r = word_of_nat (height r) \<and> height r < 65536" if r: "r \<in> set ?rs" for r
  proof -
    have "size r \<le> size_list size ?rs" using r by (rule size_list_estimation'[OF _ order_refl])
    then have "size r < size c" by (cases c) simp
    moreover have "wf_cell r" using wf_cell_bounds(4)[OF less.prems(1)] r by (simp add: list_all_iff)
    moreover have "height r < 65536" using height_ref[OF r] less.prems(2) by simp
    ultimately show ?thesis using less.hyps by simp
  qed
  then have m: "map cell_depth ?rs = map word_of_nat (map height ?rs)" "\<forall>x \<in> set (map height ?rs). x < 65536"
    by auto
  show ?case unfolding cell_depth_eq[OF less.prems(1)] m(1)
    using fold_max_word[OF _ m(2), of 0] by (subst height_eq) simp
qed

lemma depth_saturates:
  assumes "wf_cell c" "height c < 65536" "cell_references c \<noteq> []"
  shows "saturating_succ (fold max (map cell_depth (cell_references c)) 0) = cell_depth c"
proof -
  let ?m = "fold max (map cell_depth (cell_references c)) 0"
  have d: "cell_depth c = ?m + 1" using assms(3) cell_depth_eq[OF assms(1)] by simp
  have "height c \<noteq> 0" using assms(3) by (subst height_eq) simp
  then have "cell_depth c \<noteq> 0"
    using cell_depth_height[OF assms(1,2)] assms(2) by (simp add: word_of_nat_eq_0_iff nat_dvd_not_less)
  then have "?m \<noteq> 0xFFFF" using d by auto
  then show ?thesis using d by (simp add: saturating_succ_def)
qed

section \<open>Hashes\<close>

definition bag :: "parsed_cell list \<Rightarrow> cell list \<Rightarrow> raw_cell_record list \<Rightarrow> bool" where
  "bag pcs cells raws \<longleftrightarrow> resolves pcs cells \<and> list_all parsed_ok pcs \<and> list_all2 raw_match pcs raws"

lemma bag_cell:
  assumes "bag pcs cells raws" "i < length raws"
  shows "wf_cell (cells ! i)" "cell_references (cells ! i) = map (\<lambda>r. cells ! r) (raw_refs (raws ! i))"
    "descriptors (cells ! i) = raw_descriptors (raws ! i)"
    "serialize_data (cells ! i) = raw_serialized_data (raws ! i)"
    "r \<in> set (raw_refs (raws ! i)) \<Longrightarrow> r < length raws \<and> size (cells ! r) < size (cells ! i)"
proof -
  have b: "resolves pcs cells" "list_all parsed_ok pcs" "list_all2 raw_match pcs raws" "length pcs = length raws"
    using assms(1) by (auto simp: bag_def list_all2_lengthD)
  have i: "i < length pcs" using assms(2) b(4) by simp
  have m: "raw_match (pcs ! i) (raws ! i)" using b(3) i by (rule list_all2_nthD)
  then have refs: "raw_refs (raws ! i) = pc_refs (pcs ! i)" by (simp add: raw_match_def)
  show wf: "wf_cell (cells ! i)" by (rule resolves_wf[OF b(1,2) i])
  note r = resolves_refs[OF b(1) i]
  show cr: "cell_references (cells ! i) = map (\<lambda>r. cells ! r) (raw_refs (raws ! i))" using r(1) refs by simp
  obtain xs where x: "pc_raw_data (pcs ! i) = pack xs" "pc_bit_len (pcs ! i) = length xs" "length xs \<le> 1023"
    using b(2) i by (auto simp: parsed_ok_def list_all_length)
  have "finish_parsed_cell (pcs ! i) (cell_references (cells ! i)) = Inr (cells ! i)"
    using b(1) i r(1) by (simp add: resolves_def)
  note f = finish_parsed_cell_Inr[OF this wf_cell_bounds(4)[OF wf] x]
  have "length (cell_references (cells ! i)) = length (pc_refs (pcs ! i))" using r(1) by simp
  with m f(3-6) show "descriptors (cells ! i) = raw_descriptors (raws ! i)"
    "serialize_data (cells ! i) = raw_serialized_data (raws ! i)"
    by (auto simp: raw_match_def)
  show "r \<in> set (raw_refs (raws ! i)) \<Longrightarrow> r < length raws \<and> size (cells ! r) < size (cells ! i)"
    using r(2) refs b(4) by simp
qed

definition hash_good :: "crates \<Rightarrow> cell list \<Rightarrow> nat \<Rightarrow> hash_state \<Rightarrow> bool" where
  "hash_good X cells n st \<longleftrightarrow> hash_shape n st
     \<and> (\<forall>i < n. fst st ! i = Done \<longrightarrow> height (cells ! i) < 65536 \<longrightarrow>
          fst (snd st) ! i = cell_hash X (cells ! i) \<and> snd (snd st) ! i = cell_depth (cells ! i))"

definition hash_progress :: "hash_state \<Rightarrow> hash_state \<Rightarrow> bool" where
  "hash_progress st st' \<longleftrightarrow> length (fst st') = length (fst st)
     \<and> (\<forall>i < length (fst st). (fst st ! i = Done \<longrightarrow> fst st' ! i = Done)
          \<and> (fst st' ! i = Visiting \<longleftrightarrow> fst st ! i = Visiting))"

lemma hash_progress_refl [simp]: "hash_progress st st"
  by (simp add: hash_progress_def)

lemma hash_progress_trans: "hash_progress st st' \<Longrightarrow> hash_progress st' st'' \<Longrightarrow> hash_progress st st''"
  by (simp add: hash_progress_def)

lemma hash_progress_unvisited: "hash_progress st st' \<Longrightarrow> unvisited (fst st') \<subseteq> unvisited (fst st)"
proof
  fix i assume p: "hash_progress st st'" and i: "i \<in> unvisited (fst st')"
  then have "i < length (fst st)" "fst st ! i \<noteq> Done" "fst st ! i \<noteq> Visiting"
    by (auto simp: hash_progress_def unvisited_def)
  then show "i \<in> unvisited (fst st)" by (cases "fst st ! i") (simp_all add: unvisited_def)
qed

definition hash_runs :: "crates \<Rightarrow> cell list \<Rightarrow> raw_cell_record list \<Rightarrow> nat \<Rightarrow> bool" where
  "hash_runs X cells raws fuel \<longleftrightarrow> (\<forall>i st. hash_good X cells (length raws) st \<longrightarrow> i < length raws
     \<longrightarrow> card (unvisited (fst st)) < fuel
     \<longrightarrow> (\<forall>j < length raws. fst st ! j = Visiting \<longrightarrow> size (cells ! i) < size (cells ! j))
     \<longrightarrow> (\<exists>st'. compute_raw_cell_hash X fuel raws i st = Inr st' \<and> hash_good X cells (length raws) st'
           \<and> hash_progress st st' \<and> fst st' ! i = Done))"

lemma hash_runs_refs:
  assumes "hash_runs X cells raws fuel" "hash_good X cells (length raws) st" "card (unvisited (fst st)) < fuel"
    "\<forall>r \<in> set idxs. r < length raws \<and> (\<forall>j < length raws. fst st ! j = Visiting \<longrightarrow> size (cells ! r) < size (cells ! j))"
  shows "\<exists>st'. try_fold (\<lambda>st r. compute_raw_cell_hash X fuel raws r st) st idxs = Inr st'
    \<and> hash_good X cells (length raws) st' \<and> hash_progress st st' \<and> (\<forall>r \<in> set idxs. fst st' ! r = Done)"
  using assms(2-4)
proof (induction idxs arbitrary: st)
  case (Cons r idxs)
  have r: "r < length raws" "\<forall>j < length raws. fst st ! j = Visiting \<longrightarrow> size (cells ! r) < size (cells ! j)"
    using Cons.prems(3) by simp_all
  obtain st1 where s1: "compute_raw_cell_hash X fuel raws r st = Inr st1" "hash_good X cells (length raws) st1"
      "hash_progress st st1" "fst st1 ! r = Done"
    using assms(1)[unfolded hash_runs_def, rule_format, OF Cons.prems(1) r(1) Cons.prems(2) r(2)[rule_format]] by blast
  have len: "length (fst st) = length raws" "length (fst st1) = length raws"
    using Cons.prems(1) s1(2) by (simp_all add: hash_good_def hash_shape_def)
  have u: "card (unvisited (fst st1)) < fuel"
    using card_mono[OF finite_unvisited hash_progress_unvisited[OF s1(3)]] Cons.prems(2) by simp
  have "\<forall>r \<in> set idxs. r < length raws \<and> (\<forall>j < length raws. fst st1 ! j = Visiting \<longrightarrow> size (cells ! r) < size (cells ! j))"
    using Cons.prems(3) s1(3) len by (simp add: hash_progress_def)
  then obtain st2 where s2: "try_fold (\<lambda>st r. compute_raw_cell_hash X fuel raws r st) st1 idxs = Inr st2"
      "hash_good X cells (length raws) st2" "hash_progress st1 st2" "\<forall>r \<in> set idxs. fst st2 ! r = Done"
    using Cons.IH[OF s1(2) u] by blast
  have "fst st2 ! r = Done" using s2(3) s1(4) r(1) len by (simp add: hash_progress_def)
  with s1 s2 hash_progress_trans[OF s1(3) s2(3)] show ?case by simp
qed simp

lemma hash_value:
  assumes "bag pcs cells raws" "i < length raws" "height (cells ! i) < 65536"
    "\<forall>r \<in> set (raw_refs (raws ! i)). height (cells ! r) < 65536 \<longrightarrow>
       hs ! r = cell_hash X (cells ! r) \<and> ds ! r = cell_depth (cells ! r)"
  shows "sha256 X (raw_descriptors (raws ! i) @ raw_serialized_data (raws ! i)
        @ concat (map u16_be (map (\<lambda>r. ds ! r) (raw_refs (raws ! i))))
        @ concat (map (\<lambda>r. hs ! r) (raw_refs (raws ! i)))) = cell_hash X (cells ! i)"
    "(if map (\<lambda>r. ds ! r) (raw_refs (raws ! i)) = [] then 0
      else saturating_succ (fold max (map (\<lambda>r. ds ! r) (raw_refs (raws ! i))) 0)) = cell_depth (cells ! i)"
proof -
  note b = bag_cell[OF assms(1,2)]
  have "hs ! r = cell_hash X (cells ! r) \<and> ds ! r = cell_depth (cells ! r)" if r: "r \<in> set (raw_refs (raws ! i))" for r
  proof -
    have "cells ! r \<in> set (cell_references (cells ! i))" using r b(2) by simp
    then have "height (cells ! r) < 65536" using height_ref assms(3) by fastforce
    with assms(4) r show ?thesis by blast
  qed
  then have m: "map (\<lambda>r. ds ! r) (raw_refs (raws ! i)) = map cell_depth (cell_references (cells ! i))"
    "map (\<lambda>r. hs ! r) (raw_refs (raws ! i)) = map (cell_hash X) (cell_references (cells ! i))"
    by (simp_all add: b(2))
  show "sha256 X (raw_descriptors (raws ! i) @ raw_serialized_data (raws ! i)
        @ concat (map u16_be (map (\<lambda>r. ds ! r) (raw_refs (raws ! i))))
        @ concat (map (\<lambda>r. hs ! r) (raw_refs (raws ! i)))) = cell_hash X (cells ! i)"
    unfolding m b(3,4)[symmetric] wf_cell_hash_eq[OF b(1)] by (simp add: comp_def)
  show "(if map (\<lambda>r. ds ! r) (raw_refs (raws ! i)) = [] then 0
      else saturating_succ (fold max (map (\<lambda>r. ds ! r) (raw_refs (raws ! i))) 0)) = cell_depth (cells ! i)"
    unfolding m using depth_saturates[OF b(1) assms(3)] cell_depth_eq[OF b(1)] by simp
qed

lemma hash_runs:
  assumes "bag pcs cells raws"
  shows "hash_runs X cells raws fuel"
proof (induction fuel)
  case (Suc fuel)
  show ?case unfolding hash_runs_def
  proof (intro allI impI)
    fix i st
    assume good: "hash_good X cells (length raws) st" and i: "i < length raws" and u: "card (unvisited (fst st)) < Suc fuel"
      and vis: "\<forall>j < length raws. fst st ! j = Visiting \<longrightarrow> size (cells ! i) < size (cells ! j)"
    obtain states hs ds where st: "st = (states, hs, ds)" by (cases st)
    have len: "length states = length raws" "length hs = length raws" "length ds = length raws"
      using good by (simp_all add: hash_good_def hash_shape_def st)
    show "\<exists>st'. compute_raw_cell_hash X (Suc fuel) raws i st = Inr st' \<and> hash_good X cells (length raws) st'
           \<and> hash_progress st st' \<and> fst st' ! i = Done"
    proof (cases "states ! i")
      case Done
      with good i len show ?thesis by (simp add: st)
    next
      case Visiting
      with vis i show ?thesis by (auto simp: st)
    next
      case Unvisited
      let ?st = "(states[i := Visiting], hs, ds)" and ?refs = "raw_refs (raws ! i)"
      have i_un: "i \<in> unvisited states" using Unvisited i len by (simp add: unvisited_def)
      have g1: "hash_good X cells (length raws) ?st"
        using good i len by (auto simp: hash_good_def hash_shape_def st nth_list_update)
      have u1: "card (unvisited (fst ?st)) < fuel"
        using u card_Diff1_less[OF finite_unvisited i_un] by (simp add: unvisited_update st)
      note rb = bag_cell(5)[OF assms i]
      have vis': "size (cells ! i) \<le> size (cells ! j)" if "j < length raws" "fst ?st ! j = Visiting" for j
        using that vis len by (cases "j = i") (auto simp: st intro: less_imp_le)
      have "r < length raws \<and> (\<forall>j < length raws. fst ?st ! j = Visiting \<longrightarrow> size (cells ! r) < size (cells ! j))"
        if "r \<in> set ?refs" for r
        using rb[OF that] vis' less_le_trans by blast
      then obtain st1 where s1: "try_fold (\<lambda>st r. compute_raw_cell_hash X fuel raws r st) ?st ?refs = Inr st1"
          "hash_good X cells (length raws) st1" "hash_progress ?st st1" "\<forall>r \<in> set ?refs. fst st1 ! r = Done"
        using hash_runs_refs[OF Suc.IH g1 u1] by blast
      obtain states' hs' ds' where st1: "st1 = (states', hs', ds')" by (cases st1)
      have len1: "length states' = length raws" "length hs' = length raws" "length ds' = length raws"
        using s1(2) by (simp_all add: hash_good_def hash_shape_def st1)
      define h where "h = sha256 X (raw_descriptors (raws ! i) @ raw_serialized_data (raws ! i)
        @ concat (map u16_be (map (\<lambda>r. ds' ! r) ?refs)) @ concat (map (\<lambda>r. hs' ! r) ?refs))"
      define d where "d = (if map (\<lambda>r. ds' ! r) ?refs = [] then 0
        else saturating_succ (fold max (map (\<lambda>r. ds' ! r) ?refs) 0))"
      let ?st' = "(states'[i := Done], hs'[i := h], ds'[i := d])"
      have "\<forall>r \<in> set ?refs. r < length raws" using rb by blast
      then have run: "compute_raw_cell_hash X (Suc fuel) raws i st = Inr ?st'"
        using Unvisited i len len1 s1(1) by (simp add: st st1 select_all h_def d_def Let_def comp_def)
      have "\<forall>r \<in> set ?refs. height (cells ! r) < 65536 \<longrightarrow> hs' ! r = cell_hash X (cells ! r) \<and> ds' ! r = cell_depth (cells ! r)"
        using s1(2,4) rb by (simp add: hash_good_def st1)
      from hash_value[OF assms i _ this]
      have hd: "h = cell_hash X (cells ! i) \<and> d = cell_depth (cells ! i)" if "height (cells ! i) < 65536"
        using that unfolding h_def d_def by blast
      have "hash_good X cells (length raws) ?st'"
        unfolding hash_good_def
      proof (intro conjI allI impI)
        show "hash_shape (length raws) ?st'" using len1 by (simp add: hash_shape_def)
        fix k assume k: "k < length raws" "fst ?st' ! k = Done" "height (cells ! k) < 65536"
        show "fst (snd ?st') ! k = cell_hash X (cells ! k)" "snd (snd ?st') ! k = cell_depth (cells ! k)"
          using s1(2) hd k len1 by (cases "k = i"; simp add: hash_good_def st1)+
      qed
      moreover have "hash_progress st ?st'"
        using s1(3) Unvisited len len1 i by (auto simp: hash_progress_def st st1 nth_list_update)
      ultimately show ?thesis using run i len1 by simp
    qed
  qed
qed (simp add: hash_runs_def)

lemma compute_raw_cell_hashes_bag:
  assumes "bag pcs cells raws"
  obtains hs where "compute_raw_cell_hashes X raws = Inr hs" "length hs = length raws"
    "\<forall>i < length raws. height (cells ! i) < 65536 \<longrightarrow> hs ! i = cell_hash X (cells ! i)"
proof -
  have "\<exists>st. hash_loop X raws [0..<k] = Inr st \<and> hash_good X cells (length raws) st
      \<and> (\<forall>i < k. fst st ! i = Done) \<and> (\<forall>i < length raws. fst st ! i \<noteq> Visiting)" if "k \<le> length raws" for k
    using that
  proof (induction k)
    case (Suc k)
    then obtain st where st: "hash_loop X raws [0..<k] = Inr st" "hash_good X cells (length raws) st"
      "\<forall>i < k. fst st ! i = Done" "\<forall>i < length raws. fst st ! i \<noteq> Visiting" by auto
    have k: "k < length raws" using Suc.prems by simp
    have len: "length (fst st) = length raws" using st(2) by (simp add: hash_good_def hash_shape_def)
    have "card (unvisited (fst st)) < length raws + 1" using card_unvisited_le[of "fst st"] len by simp
    then obtain st' where st': "compute_raw_cell_hash X (length raws + 1) raws k st = Inr st'"
        "hash_good X cells (length raws) st'" "hash_progress st st'" "fst st' ! k = Done"
      using hash_runs[OF assms, of X "length raws + 1", unfolded hash_runs_def, rule_format, OF st(2) k] st(4) by blast
    have "fst st' ! i = Done" if "i < Suc k" for i
      using that st(3) st'(3,4) k len by (cases "i = k") (auto simp: hash_progress_def)
    moreover have "\<forall>i < length raws. fst st' ! i \<noteq> Visiting" using st(4) st'(3) len by (simp add: hash_progress_def)
    ultimately show ?case using st(1) st'(1,2) by (auto simp: try_fold_append)
  qed (simp add: hash_good_def hash_shape_def)
  from this[OF order_refl] obtain states hs ds where "hash_loop X raws [0..<length raws] = Inr (states, hs, ds)"
      "hash_good X cells (length raws) (states, hs, ds)" "\<forall>i < length raws. states ! i = Done"
    by (metis prod_cases3 fst_conv)
  then have "compute_raw_cell_hashes X raws = Inr hs" "length hs = length raws"
    "\<forall>i < length raws. height (cells ! i) < 65536 \<longrightarrow> hs ! i = cell_hash X (cells ! i)"
    by (simp_all add: compute_raw_cell_hashes_def hash_good_def hash_shape_def)
  then show thesis using that by blast
qed

lemma parse_raw_cells_bag:
  assumes "parse_cells data count sz = Inr cells"
  obtains pcs raws where "parse_raw_cells data count sz = Inr raws" "bag pcs cells raws" "length raws = count"
proof -
  obtain pcs where p: "parse_cell_records data 0 sz count = Inr (pcs, length data)" "resolves pcs cells"
    using parse_cells_spec(2)[OF assms] by blast
  note ok = parse_cell_records_ok[OF p(1)]
  have n: "length pcs = count" by (rule length_parse_cell_records[OF p(1)])
  have "length (pc_refs pc) \<le> 4" if pc: "pc \<in> set pcs" for pc
  proof -
    obtain i where i: "i < length pcs" "pc = pcs ! i" using pc by (metis in_set_conv_nth)
    show ?thesis using wf_cell_bounds(2)[OF resolves_wf[OF p(2) ok i(1)]] resolves_refs(1)[OF p(2) i(1)] i(2) by simp
  qed
  then obtain raws where r: "parse_raw_cells_loop data 0 sz count = Inr (raws, length data)" "list_all2 raw_match pcs raws"
    using parse_raw_cells_loop_matches[OF p(1)] by blast
  have b: "bag pcs cells raws" using p(2) ok r(2) by (simp add: bag_def)
  have "list_all (\<lambda>rc. list_all (\<lambda>r. r < length raws) (raw_refs rc)) raws"
    using bag_cell(5)[OF b] by (auto simp: list_all_length)
  then have "parse_raw_cells data count sz = Inr raws" using r(1) by (simp add: parse_raw_cells_def)
  moreover have "length raws = count" using r(2) n by (metis list_all2_lengthD)
  ultimately show thesis using that b by blast
qed

section \<open>Properties\<close>

text \<open>
  C16: The structural inspection never panics and never recurses without end, whatever
  the input.
\<close>

theorem inspect_boc_safe: "inspect_boc X data \<noteq> Inl Panic \<and> inspect_boc X data \<noteq> Inl OutOfFuel"
proof -
  have "no_fault (inspect_boc_generic X data)"
    unfolding inspect_boc_generic_def
  proof (intro no_fault_and_then)
    fix lay raws hs
    assume l: "parse_boc_generic_layout X data = Inr lay"
      and r: "parse_raw_cells (lay_cells_data lay) (lay_cells_count lay) (lay_size_bytes lay) = Inr raws"
      and h: "compute_raw_cell_hashes X raws = Inr hs"
    have "length hs = lay_cells_count lay"
      using compute_raw_cell_hashes_safe(2)[OF parse_raw_cells_Inr(2)[OF r] h] parse_raw_cells_Inr(1)[OF r] by simp
    then show "no_fault (try_fold (\<lambda>acc root_idx. and_then (index_or_panic hs root_idx) (\<lambda>h. Inr (acc @ [h]))) []
        (lay_root_indices lay))"
      using layout_roots(1)[OF l] by (simp add: select_all)
  qed (simp_all add: compute_raw_cell_hashes_safe(1) parse_raw_cells_Inr(2))
  then have "no_fault (inspect_boc X data)" by (simp add: inspect_boc_def Let_def)
  then show ?thesis by (simp add: no_fault_def)
qed

text \<open>
  C3: Inspection agrees with decoding: on every bag that \<open>deserialize_boc_roots\<close> accepts,
  with roots less than 65536 levels deep, \<open>inspect_boc\<close> returns the representation hashes
  of these roots, in order.
\<close>

theorem inspect_agrees:
  assumes "deserialize_boc_roots X data = Inr roots" "\<forall>c \<in> set roots. height c < 65536"
  shows "inspect_boc X data = Inr (map (cell_hash X) roots)"
proof -
  have m: "4 \<le> length data" "u32_from_be (take 4 data) = BOC_GENERIC_MAGIC"
    and "deserialize_boc_generic_roots X data = Inr roots"
    using assms(1) by (auto simp: deserialize_boc_roots_def Let_def split: if_splits)
  then obtain lay cells where l: "parse_boc_generic_layout X data = Inr lay"
      "parse_cells (lay_cells_data lay) (lay_cells_count lay) (lay_size_bytes lay) = Inr cells"
      "roots = map (\<lambda>i. cells ! i) (lay_root_indices lay)"
    unfolding generic_roots_spec(2) by blast
  obtain pcs raws where r: "parse_raw_cells (lay_cells_data lay) (lay_cells_count lay) (lay_size_bytes lay) = Inr raws"
      "bag pcs cells raws" "length raws = lay_cells_count lay"
    by (rule parse_raw_cells_bag[OF l(2)])
  obtain hs where h: "compute_raw_cell_hashes X raws = Inr hs" "length hs = length raws"
      "\<forall>i < length raws. height (cells ! i) < 65536 \<longrightarrow> hs ! i = cell_hash X (cells ! i)"
    by (rule compute_raw_cell_hashes_bag[OF r(2)])
  note idx = layout_roots(1)[OF l(1)]
  have "map (\<lambda>i. hs ! i) (lay_root_indices lay) = map (cell_hash X) roots"
    using idx h(3) assms(2) r(3) by (simp add: l(3))
  then have "inspect_boc_generic X data = Inr (map (cell_hash X) roots)"
    using l(1) r(1,3) h(1,2) idx by (simp add: inspect_boc_generic_def select_all)
  with m show ?thesis by (simp add: inspect_boc_def Let_def)
qed

theorem inspect_agrees_witness:
  "and_then (serialize_boc length_digest sample_root True) (inspect_boc length_digest)
    = Inr [cell_hash length_digest sample_root]"
proof -
  let ?bs = "boc_bytes length_digest True (bytes_needed (length (collect_cells length_digest sample_root)))
    (bytes_needed (length (boc_body length_digest sample_root))) (length (collect_cells length_digest sample_root))
    (length (collect_cells length_digest sample_root) - 1) (boc_body length_digest sample_root)"
  have "deserialize_boc length_digest ?bs = Inr sample_root"
    by (rule boc_reads[OF length_digest_hashing sample_collision_free wf_sample_root(1) card_sample])
  then have "deserialize_boc_roots length_digest ?bs = Inr [sample_root]"
    by (rule deserialize_boc_Inr)
  moreover have "height sample_root < 65536"
    by (simp add: sample_root_def sample_leaf_def mk_cell_def)
  ultimately have "inspect_boc length_digest ?bs = Inr (map (cell_hash length_digest) [sample_root])"
    by (intro inspect_agrees) simp_all
  then show ?thesis
    using serialize_boc_eq[OF length_digest_hashing sample_collision_free wf_sample_root(1) card_sample] by simp
qed

end
