(* ===== verification/Stack.thy ===== *)
theory Stack
  imports CellFields BocReader
begin

text \<open>
  TVM stacks (\<open>src/tvm/stack.rs\<close>): the encoding of stack entries as cells, nested tuples and
  lists included, and its decoder.  Both recurse; the encoder on the entries, the decoder
  on the references of the cells it reads, so both terminate on every input.
\<close>

datatype stack_entry =
    StackNull
  | StackInt int
  | StackCell cell
  | StackSlice cell
  | StackTuple "stack_entry list"
  | StackList "stack_entry list"
  | StackUnsupported bytes

record tvm_stack =
  stack_entries :: "stack_entry list"

definition TAG_NULL :: u8 where "TAG_NULL = 0"
definition TAG_INT :: u8 where "TAG_INT = 1"
definition TAG_CELL :: u8 where "TAG_CELL = 2"
definition TAG_SLICE :: u8 where "TAG_SLICE = 3"
definition TAG_TUPLE :: u8 where "TAG_TUPLE = 4"
definition TAG_LIST :: u8 where "TAG_LIST = 5"
definition TAG_UNSUPPORTED :: u8 where "TAG_UNSUPPORTED = 255"
definition MAX_STACK_DEPTH :: nat where "MAX_STACK_DEPTH = 0xFFFFFF"

definition stack_new :: "stack_entry list \<Rightarrow> tvm_stack" where
  "stack_new entries = \<lparr>stack_entries = entries\<rparr>"

definition stack_push :: "tvm_stack \<Rightarrow> stack_entry \<Rightarrow> tvm_stack" where
  "stack_push st e = st\<lparr>stack_entries := stack_entries st @ [e]\<rparr>"

section \<open>Encoding\<close>

lemma size_in_take: "e \<in> set (take n es) \<Longrightarrow> size e < size_list size es"
proof -
  have "e \<in> set es \<Longrightarrow> size e < size_list size es" by (induction es) auto
  then show "e \<in> set (take n es) \<Longrightarrow> size e < size_list size es" using in_set_takeD by metis
qed

lemma size_drop_less: "0 < n \<Longrightarrow> n < length es \<Longrightarrow> size_list f (drop n es) < size_list f es"
proof (induction es arbitrary: n)
  case (Cons e es)
  then show ?case
  proof (cases "n = 1")
    case False
    then have "size_list f (drop (n - 1) es) < size_list f es" using Cons by simp
    then show ?thesis using Cons.prems by (simp add: drop_Cons')
  qed simp
qed simp

function encode_entries :: "crates \<Rightarrow> stack_entry list \<Rightarrow> cell result"
  and encode_entry_chain :: "crates \<Rightarrow> stack_entry list \<Rightarrow> cell result"
  and encode_entry :: "crates \<Rightarrow> stack_entry \<Rightarrow> cell result" where
  "encode_entries X entries =
     (if MAX_STACK_DEPTH < length entries then Inl (StackErr StackTooLarge)
      else and_then (store_uint_custom X builder_new (word_of_nat (length entries) :: u32) 24) (\<lambda>b.
        and_then (if entries \<noteq> [] then and_then (encode_entry_chain X entries) (\<lambda>c. store_ref b c) else Inr b)
          builder_build))"
| "encode_entry_chain X entries =
     (let count = min (length entries) 3 in
      and_then (store_uint X builder_new (word_of_nat count :: u8)) (\<lambda>b.
      and_then (store_bit b (count < length entries)) (\<lambda>b.
      and_then (try_fold (\<lambda>b e. and_then (encode_entry X e) (\<lambda>c. store_ref b c)) b (take count entries)) (\<lambda>b.
      and_then (if count < length entries then and_then (encode_entry_chain X (drop count entries)) (\<lambda>c. store_ref b c)
                else Inr b)
        builder_build))))"
| "encode_entry X e =
     (case e of
        StackNull \<Rightarrow> and_then (store_byte builder_new TAG_NULL) builder_build
      | StackInt v \<Rightarrow> and_then (store_byte builder_new TAG_INT) (\<lambda>b.
          let bytes = bigint_to_signed_bytes_be X v in
          if 65535 < length bytes then Inl (StackErr StackIntTooLarge)
          else and_then (store_uint X b (word_of_nat (length bytes) :: u16)) (\<lambda>b.
            and_then (store_bytes b bytes) builder_build))
      | StackCell c \<Rightarrow> and_then (store_byte builder_new TAG_CELL) (\<lambda>b. and_then (store_ref b c) builder_build)
      | StackSlice c \<Rightarrow> and_then (store_byte builder_new TAG_SLICE) (\<lambda>b. and_then (store_ref b c) builder_build)
      | StackTuple es \<Rightarrow> and_then (store_byte builder_new TAG_TUPLE) (\<lambda>b.
          and_then (encode_entries X es) (\<lambda>c. and_then (store_ref b c) builder_build))
      | StackList es \<Rightarrow> and_then (store_byte builder_new TAG_LIST) (\<lambda>b.
          and_then (encode_entries X es) (\<lambda>c. and_then (store_ref b c) builder_build))
      | StackUnsupported bytes \<Rightarrow>
          if 127 < length bytes then Inl (StackErr StackPayloadTooLarge)
          else and_then (store_byte builder_new TAG_UNSUPPORTED) (\<lambda>b.
            and_then (store_uint X b (word_of_nat (length bytes) :: u8)) (\<lambda>b.
            and_then (store_bytes b bytes) builder_build)))"
  by pat_completeness auto
termination
proof (relation "measure (\<lambda>p. case p of Inl (_, es) \<Rightarrow> 3 * size_list size es + 2
      | Inr (Inl (_, es)) \<Rightarrow> 3 * size_list size es + 1
      | Inr (Inr (_, e)) \<Rightarrow> 3 * size e)")
qed (auto dest!: size_in_take simp: size_drop_less)

declare encode_entries.simps [simp del] encode_entry_chain.simps [simp del] encode_entry.simps [simp del]

section \<open>Decoding\<close>

text \<open>Reading from a slice leaves it on the same cell, and a reference is a smaller cell.\<close>

lemma sl_cell_load_bit: "load_bit s = Inr (v, s') \<Longrightarrow> sl_cell s' = sl_cell s"
  by (auto simp: load_bit_def split: if_splits)

lemma sl_cell_load_bits_loop: "load_bits_loop s i k acc = Inr (v, s') \<Longrightarrow> sl_cell s' = sl_cell s"
proof (induction k arbitrary: s i acc)
  case (Suc k)
  then obtain b s1 where "load_bit s = Inr (b, s1)" "load_bits_loop s1 (Suc i) k (set_bit_at acc i b) = Inr (v, s')"
    by (auto simp: and_then_eq_Inr)
  then show ?case using Suc.IH sl_cell_load_bit by metis
qed simp

lemma sl_cell_load_uint: "load_uint_custom X s n = Inr (w, s') \<Longrightarrow> sl_cell s' = sl_cell s"
  "load_uint X s = Inr (w', s') \<Longrightarrow> sl_cell s' = sl_cell s"
  "load_byte X s = Inr (b, s') \<Longrightarrow> sl_cell s' = sl_cell s"
  by (auto simp: load_byte_def load_uint_def load_uint_custom_def load_big_uint_def load_bits_def and_then_eq_Inr Let_def
      dest!: sl_cell_load_bits_loop split: if_splits)

lemma load_reference_size:
  assumes "load_reference s = Inr (c, s')"
  shows "size c < size (sl_cell s) \<and> sl_cell s' = sl_cell s"
proof -
  from assms have "c \<in> set (cell_references (sl_cell s))" and s': "sl_cell s' = sl_cell s"
    by (auto simp: load_reference_def reference_def split: if_splits)
  then have "size c \<le> size_list size (cell_references (sl_cell s))"
    by (metis size_list_estimation' order_refl)
  then have "size c < size (sl_cell s)" by (cases "sl_cell s") simp
  with s' show ?thesis by simp
qed

text \<open>
  \<open>decode_chain_loop\<close> is the loop of \<open>decode_entry_chain\<close> over the remaining \<open>k\<close> entries of the
  node, with what follows it: the rest of the chain when \<open>has_next\<close> is set.
\<close>

function decode_entries :: "crates \<Rightarrow> cell \<Rightarrow> stack_entry list result"
  and decode_entry_chain :: "crates \<Rightarrow> cell \<Rightarrow> nat \<Rightarrow> stack_entry list result"
  and decode_chain_loop :: "crates \<Rightarrow> slice \<Rightarrow> nat \<Rightarrow> bool \<Rightarrow> nat \<Rightarrow> stack_entry list \<Rightarrow> stack_entry list result"
  and decode_entry :: "crates \<Rightarrow> cell \<Rightarrow> stack_entry result" where
  "decode_entries X c =
     and_then (load_uint_custom X (slice_new c) 24) (\<lambda>(w :: u32, s).
       let len = unat w in
       and_then (if len = 0 then Inr []
                 else and_then (load_reference s) (\<lambda>(c, _). decode_entry_chain X c len)) (\<lambda>entries.
       if length entries \<noteq> len then Inl (StackErr StackCountMismatch) else Inr (take len entries)))"
| "decode_entry_chain X c remaining =
     and_then (load_uint X (slice_new c)) (\<lambda>(w :: u8, s).
       let count = unat w in
       and_then (load_bit s) (\<lambda>(has_next, s).
       if 3 < count then Inl (StackErr StackNodeTooLarge)
       else if remaining < count then Inl (StackErr StackChainTooLong)
       else decode_chain_loop X s count has_next (remaining - count) []))"
| "decode_chain_loop X s k has_next rest entries =
     (if k = 0
      then if has_next
           then and_then (load_reference s) (\<lambda>(c, _).
             and_then (decode_entry_chain X c rest) (\<lambda>es. Inr (entries @ es)))
           else Inr entries
      else and_then (load_reference s) (\<lambda>(c, s).
        and_then (decode_entry X c) (\<lambda>e. decode_chain_loop X s (k - 1) has_next rest (entries @ [e]))))"
| "decode_entry X c =
     and_then (load_byte X (slice_new c)) (\<lambda>(tag, s).
       if tag = TAG_NULL then Inr StackNull
       else if tag = TAG_INT
       then and_then (load_uint X s) (\<lambda>(w :: u16, s).
         and_then (load_bytes s (unat w)) (\<lambda>(bs, _). Inr (StackInt (bigint_from_signed_bytes_be X bs))))
       else if tag = TAG_CELL then and_then (load_reference s) (\<lambda>(c, _). Inr (StackCell c))
       else if tag = TAG_SLICE then and_then (load_reference s) (\<lambda>(c, _). Inr (StackSlice c))
       else if tag = TAG_TUPLE
       then and_then (load_reference s) (\<lambda>(c, _). and_then (decode_entries X c) (\<lambda>es. Inr (StackTuple es)))
       else if tag = TAG_LIST
       then and_then (load_reference s) (\<lambda>(c, _). and_then (decode_entries X c) (\<lambda>es. Inr (StackList es)))
       else if tag = TAG_UNSUPPORTED
       then and_then (load_uint X s) (\<lambda>(w :: u8, s).
         and_then (load_bytes s (unat w)) (\<lambda>(bs, _). Inr (StackUnsupported bs)))
       else Inl (StackErr (StackUnknownTag tag)))"
  by pat_completeness auto
termination
proof (relation "measures [\<lambda>p. case p of Inl (Inl (_, c)) \<Rightarrow> size c | Inl (Inr (_, c, _)) \<Rightarrow> size c
      | Inr (Inl (_, s, _)) \<Rightarrow> size (sl_cell s) | Inr (Inr (_, c)) \<Rightarrow> size c,
    \<lambda>p. case p of Inr (Inl (_, s, k, _)) \<Rightarrow> k | _ \<Rightarrow> 4]")
qed (auto dest!: load_reference_size sl_cell_load_uint sl_cell_load_bit simp: slice_new_def)

declare decode_entries.simps [simp del] decode_entry_chain.simps [simp del]
  decode_chain_loop.simps [simp del] decode_entry.simps [simp del]

section \<open>Stacks\<close>

definition to_cell :: "crates \<Rightarrow> tvm_stack \<Rightarrow> cell result" where
  "to_cell X st = encode_entries X (stack_entries st)"

definition from_cell :: "crates \<Rightarrow> cell \<Rightarrow> tvm_stack result" where
  "from_cell X c = and_then (decode_entries X c) (\<lambda>entries. Inr \<lparr>stack_entries = entries\<rparr>)"

definition to_boc :: "crates \<Rightarrow> tvm_stack \<Rightarrow> bytes result" where
  "to_boc X st = and_then (to_cell X st) (\<lambda>c. serialize_boc X c False)"

definition from_boc :: "crates \<Rightarrow> bytes \<Rightarrow> tvm_stack result" where
  "from_boc X bs = and_then (deserialize_boc X bs) (from_cell X)"

section \<open>Entries that fit\<close>

text \<open>
  What the encoder accepts: integers of at most 124 bytes, unsupported payloads of at most
  125 bytes, nested stacks of at most \<open>MAX_STACK_DEPTH\<close> entries, and cells that are themselves
  well formed.
\<close>

fun entry_ok :: "crates \<Rightarrow> stack_entry \<Rightarrow> bool" where
  "entry_ok X StackNull \<longleftrightarrow> True"
| "entry_ok X (StackInt i) \<longleftrightarrow> length (bigint_to_signed_bytes_be X i) \<le> 124"
| "entry_ok X (StackCell c) \<longleftrightarrow> wf_cell c"
| "entry_ok X (StackSlice c) \<longleftrightarrow> wf_cell c"
| "entry_ok X (StackTuple es) \<longleftrightarrow> length es \<le> MAX_STACK_DEPTH \<and> list_all (entry_ok X) es"
| "entry_ok X (StackList es) \<longleftrightarrow> length es \<le> MAX_STACK_DEPTH \<and> list_all (entry_ok X) es"
| "entry_ok X (StackUnsupported bs) \<longleftrightarrow> length bs \<le> 125"

definition encodes :: "('v \<Rightarrow> cell result) \<Rightarrow> (cell \<Rightarrow> 'v result) \<Rightarrow> 'v \<Rightarrow> bool" where
  "encodes enc dec v \<longleftrightarrow> (\<exists>c. enc v = Inr c \<and> wf_cell c \<and> dec c = Inr v)"

lemmas stack_tags = TAG_NULL_def TAG_INT_def TAG_CELL_def TAG_SLICE_def TAG_TUPLE_def TAG_LIST_def
  TAG_UNSUPPORTED_def

text \<open>The references of a chain node are written and read back in order.\<close>

lemma store_entries:
  assumes "\<forall>e \<in> set es. encodes enc dec e" "length rs + length es \<le> 4"
  shows "\<exists>cs. try_fold (\<lambda>b e. and_then (enc e) (\<lambda>c. store_ref b c)) (mk_b xs rs) es = Inr (mk_b xs (rs @ cs))
    \<and> list_all wf_cell cs \<and> list_all2 (\<lambda>c e. dec c = Inr e) cs es"
  using assms
proof (induction es arbitrary: rs)
  case (Cons e es)
  from Cons.prems(1) obtain c where c: "enc e = Inr c" "wf_cell c" "dec c = Inr e" by (auto simp: encodes_def)
  from Cons.IH[of "rs @ [c]"] Cons.prems obtain cs
    where "try_fold (\<lambda>b e. and_then (enc e) (\<lambda>c. store_ref b c)) (mk_b xs (rs @ [c])) es = Inr (mk_b xs ((rs @ [c]) @ cs))"
      "list_all wf_cell cs" "list_all2 (\<lambda>c e. dec c = Inr e) cs es" by auto
  then show ?case using c Cons.prems(2) by (intro exI[of _ "c # cs"]) (simp add: store_ref_mk)
qed simp

lemma decode_chain_loop_reads:
  assumes "list_all2 (\<lambda>c e. decode_entry X c = Inr e) cs es" "slice_refs s = cs @ qs"
  shows "decode_chain_loop X s (length es) has_next rest acc
    = decode_chain_loop X (adv s 0 (length es)) 0 has_next rest (acc @ es)"
  using assms
proof (induction cs es arbitrary: s acc rule: list_all2_induct)
  case (Cons c cs e es)
  then show ?case
    by (subst decode_chain_loop.simps) (simp add: load_reference_append)
qed simp

context bignum
begin

lemma load_stack_tag:
  "wf_cell (mk_cell (byte_bits t @ ys) rs) \<Longrightarrow>
    load_byte X (slice_new (mk_cell (byte_bits t @ ys) rs)) = Inr (t, adv (slice_new (mk_cell (byte_bits t @ ys) rs)) 8 0)"
  by (simp add: load_byte_append)

lemma encode_chain_ok:
  assumes "\<forall>e \<in> set (take 3 es). encodes (encode_entry X) (decode_entry X) e"
    "3 < length es \<Longrightarrow> encodes (encode_entry_chain X) (\<lambda>c. decode_entry_chain X c (length es - 3)) (drop 3 es)"
  shows "encodes (encode_entry_chain X) (\<lambda>c. decode_entry_chain X c (length es)) es"
proof -
  define k where "k = min (length es) 3"
  let ?w = "word_of_nat k :: u8"
  have k: "k \<le> 3" "k \<le> length es" "unat ?w = k" "length (take k es) = k"
    by (auto simp: k_def unat_word_of_nat)
  have ok: "\<forall>e \<in> set (take k es). encodes (encode_entry X) (decode_entry X) e"
    using assms(1) by (auto simp: k_def min_def split: if_splits)
  obtain cs where cs: "list_all wf_cell cs" "list_all2 (\<lambda>c e. decode_entry X c = Inr e) cs (take k es)"
    "try_fold (\<lambda>b e. and_then (encode_entry X e) (\<lambda>c. store_ref b c))
      (mk_b (nat_bits 8 k @ [k < length es]) []) (take k es) = Inr (mk_b (nat_bits 8 k @ [k < length es]) cs)"
    using store_entries[OF ok, of "[]" "nat_bits 8 k @ [k < length es]"] k by auto
  have len: "length cs = k" using cs(2) k(4) by (metis list_all2_lengthD)
  define next_cell where "next_cell = (\<lambda>c. encode_entry_chain X (drop k es) = Inr c \<and> wf_cell c
    \<and> decode_entry_chain X c (length es - k) = Inr (drop k es))"
  obtain ns where ns: "k < length es \<Longrightarrow> (\<exists>c. ns = [c] \<and> next_cell c)" "\<not> k < length es \<Longrightarrow> ns = []"
  proof (cases "k < length es")
    case True
    then have "k = 3" by (simp add: k_def)
    then obtain c where "next_cell c" using assms(2) True by (auto simp: encodes_def next_cell_def)
    then show ?thesis using True by (intro that[of "[c]"]) auto
  qed (use that[of "[]"] in simp)
  let ?c = "mk_cell (nat_bits 8 k @ [k < length es]) (cs @ ns)"
  have wf: "wf_cell ?c" using cs(1) ns len k(1) by (cases "k < length es") (auto simp: wf_mk_cell next_cell_def)
  have "encode_entry_chain X es = Inr ?c"
    using cs(3) k ns len
    by (subst encode_entry_chain.simps, cases "k < length es")
       (auto simp: Let_def stores next_cell_def simp flip: k_def)
  moreover have "decode_entry_chain X ?c (length es) = Inr es"
  proof -
    let ?s = "adv (slice_new ?c) 9 0"
    have "load_uint X (slice_new ?c) = Inr (?w, adv (slice_new ?c) 8 0)"
      using wf k(3) by (intro load_uint_append[where v = ?w, simplified]) auto
    moreover have "load_bit (adv (slice_new ?c) 8 0) = Inr (k < length es, ?s)"
      using wf by (subst load_bit_append) (auto simp: loads)
    ultimately have "decode_entry_chain X ?c (length es)
        = decode_chain_loop X ?s (length (take k es)) (k < length es) (length es - k) []"
      using k by (subst decode_entry_chain.simps) simp
    also have "\<dots> = decode_chain_loop X (adv ?s 0 k) 0 (k < length es) (length es - k) (take k es)"
      using decode_chain_loop_reads[OF cs(2), of ?s ns] k(4) by simp
    also have "\<dots> = Inr es"
      using ns len by (subst decode_chain_loop.simps) (auto simp: loads next_cell_def)
    finally show ?thesis .
  qed
  ultimately show ?thesis using wf by (auto simp: encodes_def)
qed

lemma encode_entries_ok:
  assumes "length es \<le> MAX_STACK_DEPTH"
    "es \<noteq> [] \<Longrightarrow> encodes (encode_entry_chain X) (\<lambda>c. decode_entry_chain X c (length es)) es"
  shows "encodes (encode_entries X) (decode_entries X) es"
proof -
  let ?w = "word_of_nat (length es) :: u32"
  have w: "unat ?w = length es" "length es < 2 ^ 24"
    using assms(1) by (auto simp: MAX_STACK_DEPTH_def unat_word_of_nat)
  obtain ns where ns: "es \<noteq> [] \<Longrightarrow> \<exists>c. ns = [c] \<and> encode_entry_chain X es = Inr c \<and> wf_cell c
      \<and> decode_entry_chain X c (length es) = Inr es" "es = [] \<Longrightarrow> ns = []"
    using assms(2) by (cases "es = []") (auto simp: encodes_def)
  let ?c = "mk_cell (nat_bits 24 (length es)) ns"
  have wf: "wf_cell ?c" using ns by (cases "es = []") (auto simp: wf_mk_cell)
  have "encode_entries X es = Inr ?c"
    using assms(1) ns w by (subst encode_entries.simps, cases "es = []") (auto simp: stores)
  moreover have "load_uint_custom X (slice_new ?c) 24 = Inr (?w, adv (slice_new ?c) 24 0)"
    using wf w by (intro load_uint_custom_append[where ys = "[]"]) auto
  then have "decode_entries X ?c = Inr es"
    using ns w by (subst decode_entries.simps, cases "es = []") (auto simp: loads)
  ultimately show ?thesis using wf by (auto simp: encodes_def)
qed

lemma encode_leaf_entry:
  assumes "entry_ok X e"
    "\<And>es. e = StackTuple es \<or> e = StackList es \<Longrightarrow> encodes (encode_entries X) (decode_entries X) es"
  shows "encodes (encode_entry X) (decode_entry X) e"
proof (cases e)
  case StackNull
  then show ?thesis
    by (auto simp: encodes_def encode_entry.simps decode_entry.simps stores loads wf_mk_cell
        load_stack_tag[where ys = "[]", simplified])
next
  case (StackInt i)
  let ?bs = "bigint_to_signed_bytes_be X i"
  let ?w = "word_of_nat (length ?bs) :: u16"
  let ?c = "mk_cell (byte_bits TAG_INT @ nat_bits 16 (length ?bs) @ bytes_bits ?bs) []"
  have w: "length ?bs \<le> 124" "unat ?w = length ?bs" using assms(1) StackInt by (auto simp: unat_word_of_nat)
  then have wf: "wf_cell ?c" by (simp add: wf_mk_cell)
  have "load_uint X (adv (slice_new ?c) 8 0) = Inr (?w, adv (slice_new ?c) 24 0)"
    using wf w by (subst load_uint_append[where v = ?w]) (auto simp: wf_adv)
  then have "decode_entry X ?c = Inr e"
    using wf w StackInt by (subst decode_entry.simps)
      (simp add: load_stack_tag load_bytes_eq wf_adv bigint_signed_bytes stack_tags)
  moreover have "encode_entry X e = Inr ?c"
    using StackInt w by (subst encode_entry.simps) (simp add: stores Let_def)
  ultimately show ?thesis using wf by (auto simp: encodes_def)
next
  case (StackUnsupported bs)
  let ?w = "word_of_nat (length bs) :: u8"
  let ?c = "mk_cell (byte_bits TAG_UNSUPPORTED @ nat_bits 8 (length bs) @ bytes_bits bs) []"
  have w: "length bs \<le> 125" "unat ?w = length bs" using assms(1) StackUnsupported by (auto simp: unat_word_of_nat)
  then have wf: "wf_cell ?c" by (simp add: wf_mk_cell)
  have "load_uint X (adv (slice_new ?c) 8 0) = Inr (?w, adv (slice_new ?c) 16 0)"
    using wf w by (subst load_uint_append[where v = ?w]) (auto simp: wf_adv)
  then have "decode_entry X ?c = Inr e"
    using wf w StackUnsupported by (subst decode_entry.simps)
      (simp add: load_stack_tag load_bytes_eq wf_adv stack_tags)
  moreover have "encode_entry X e = Inr ?c"
    using StackUnsupported w by (subst encode_entry.simps) (simp add: stores Let_def)
  ultimately show ?thesis using wf by (auto simp: encodes_def)
qed (use assms in \<open>auto simp: encodes_def encode_entry.simps decode_entry.simps stores loads wf_mk_cell
        load_stack_tag[where ys = "[]", simplified] stack_tags\<close>)

lemma chain_encodes:
  "\<forall>e \<in> set es. encodes (encode_entry X) (decode_entry X) e \<Longrightarrow>
    encodes (encode_entry_chain X) (\<lambda>c. decode_entry_chain X c (length es)) es"
proof (induction es rule: length_induct)
  case (1 es)
  have sub: "set (take 3 es) \<subseteq> set es" "set (drop 3 es) \<subseteq> set es" by (rule set_take_subset, rule set_drop_subset)
  have "encodes (encode_entry_chain X) (\<lambda>c. decode_entry_chain X c (length es - 3)) (drop 3 es)" if "3 < length es"
  proof -
    have "\<forall>e \<in> set (drop 3 es). encodes (encode_entry X) (decode_entry X) e" using 1(2) sub(2) by blast
    then show ?thesis using 1(1) that by (metis length_drop diff_less zero_less_numeral gr_implies_not0 neq0_conv)
  qed
  then show ?case using 1(2) sub(1) by (intro encode_chain_ok) auto
qed

lemma entry_encodes: "entry_ok X e \<Longrightarrow> encodes (encode_entry X) (decode_entry X) e"
proof (induction e)
  case (StackTuple es)
  then show ?case by (intro encode_leaf_entry) (auto intro!: encode_entries_ok chain_encodes simp: list_all_iff)
next
  case (StackList es)
  then show ?case by (intro encode_leaf_entry) (auto intro!: encode_entries_ok chain_encodes simp: list_all_iff)
qed (rule encode_leaf_entry; simp)+

lemma stack_encodes:
  "length es \<le> MAX_STACK_DEPTH \<Longrightarrow> list_all (entry_ok X) es \<Longrightarrow> encodes (encode_entries X) (decode_entries X) es"
  by (auto intro!: encode_entries_ok chain_encodes entry_encodes simp: list_all_iff)

end

section \<open>Properties\<close>

text \<open>
  C18: A stack whose entries fit, at most \<open>MAX_STACK_DEPTH\<close> of them at every level of nesting,
  is encoded as a well-formed cell, and decoding that cell gives the stack back.
\<close>

theorem stack_roundtrip:
  assumes "bignum X" "length (stack_entries st) \<le> MAX_STACK_DEPTH" "list_all (entry_ok X) (stack_entries st)"
  shows "\<exists>c. to_cell X st = Inr c \<and> wf_cell c \<and> from_cell X c = Inr st"
  using bignum.stack_encodes[OF assms] by (auto simp: encodes_def to_cell_def from_cell_def)

theorem stack_roundtrip_witness:
  "\<exists>c. to_cell ref_crates (stack_new [StackTuple [StackInt (- 5), StackNull], StackCell sample_root,
        StackUnsupported [7, 8], StackList []]) = Inr c
      \<and> from_cell ref_crates c = Inr (stack_new [StackTuple [StackInt (- 5), StackNull], StackCell sample_root,
        StackUnsupported [7, 8], StackList []])"
proof -
  have "length (bigint_to_signed_bytes_be ref_crates (- 5)) \<le> 124" unfolding ref_crates_sel by code_simp
  then show ?thesis
    using stack_roundtrip[OF ref_bignum.bignum_axioms, of "stack_new [StackTuple [StackInt (- 5), StackNull],
        StackCell sample_root, StackUnsupported [7, 8], StackList []]"]
    by (auto simp: stack_new_def MAX_STACK_DEPTH_def)
qed

text \<open>
  A stack written as a bag of cells is read back from it, when the bag it needs is not
  larger than the format admits and SHA-256 does not collide on its cells.
\<close>

theorem stack_boc_roundtrip:
  assumes "bignum X" "hashing X" "length (stack_entries st) \<le> MAX_STACK_DEPTH"
    "list_all (entry_ok X) (stack_entries st)" "to_cell X st = Inr c"
    "collision_free X (subcells c)" "card (subcells c) < 2 ^ 48"
  shows "and_then (to_boc X st) (from_boc X) = Inr st"
proof -
  have c: "wf_cell c" "from_cell X c = Inr st"
    using bignum.stack_encodes[OF assms(1,3,4)] assms(5) by (auto simp: encodes_def to_cell_def from_cell_def)
  then show ?thesis
    using serialize_boc_eq[OF assms(2,6) c(1) assms(7), of False] boc_reads[OF assms(2,6) c(1) assms(7), of False] assms(5)
    by (simp add: to_boc_def from_boc_def)
qed

text \<open>The cells of the stack that holds one null entry.\<close>

definition null_entry :: cell where
  "null_entry = mk_cell (byte_bits TAG_NULL) []"

definition null_chain :: cell where
  "null_chain = mk_cell (nat_bits 8 1 @ [False]) [null_entry]"

definition null_stack :: cell where
  "null_stack = mk_cell (nat_bits 24 1) [null_chain]"

lemma wf_null_stack: "wf_cell null_entry" "wf_cell null_chain" "wf_cell null_stack"
  by (simp_all add: null_entry_def null_chain_def null_stack_def wf_mk_cell)

lemma null_stack_encodes: "to_cell length_digest (stack_new [StackNull]) = Inr null_stack"
  by (simp add: to_cell_def stack_new_def encode_entries.simps encode_entry_chain.simps encode_entry.simps
      MAX_STACK_DEPTH_def stores bignum.store_uint_mk[OF length_digest_bignum]
      bignum.store_uint_custom_mk[OF length_digest_bignum] null_stack_def null_chain_def null_entry_def)

lemma null_subcells: "subcells null_stack = {null_stack, null_chain, null_entry}"
  by (auto simp: null_stack_def null_chain_def null_entry_def mk_cell_def)

lemma length_repr_null:
  "length (cell_repr length_digest null_stack) = 39" "length (cell_repr length_digest null_chain) = 38"
  "length (cell_repr length_digest null_entry) = 3"
proof -
  note l = wf_null_stack[THEN hashing.length_cell_hash[OF length_digest_hashing]]
  show "length (cell_repr length_digest null_stack) = 39"
    using l(2) by (simp add: cell_repr_def null_stack_def descriptors_def div_ceil_def)
  show "length (cell_repr length_digest null_chain) = 38"
    using l(1) by (simp add: cell_repr_def null_chain_def descriptors_def div_ceil_def)
  show "length (cell_repr length_digest null_entry) = 3"
    by (simp add: cell_repr_def null_entry_def descriptors_def div_ceil_def)
qed

lemma be_bytes_32_inject: "m < 100 \<Longrightarrow> n < 100 \<Longrightarrow> be_bytes 32 m = be_bytes 32 n \<longleftrightarrow> m = n"
proof -
  assume "m < 100" "n < 100"
  then have "be_val (be_bytes 32 m) = m" "be_val (be_bytes 32 n) = n" unfolding be_val_be_bytes by simp_all
  then show ?thesis by metis
qed

theorem stack_boc_roundtrip_witness:
  "and_then (to_boc length_digest (stack_new [StackNull])) (from_boc length_digest) = Inr (stack_new [StackNull])"
proof (rule stack_boc_roundtrip[OF length_digest_bignum length_digest_hashing _ _ null_stack_encodes])
  show "collision_free length_digest (subcells null_stack)"
    unfolding collision_free_def null_subcells inj_on_def
    by (auto simp: length_digest_def length_repr_null[unfolded length_digest_def] be_bytes_32_inject)
  have "card (subcells null_stack) \<le> 3" unfolding null_subcells by (simp add: card_insert_if)
  then show "card (subcells null_stack) < 2 ^ 48" by simp
qed (simp_all add: stack_new_def MAX_STACK_DEPTH_def)

end
