(* ===== verification/TlbCore.thy ===== *)
theory TlbCore
  imports CellFields Hashmap
begin

text \<open>
  The TL-B combinators of \<open>src/tlb/core.rs\<close>: constructor tags, \<open>Maybe\<close>, \<open>Either\<close>, references to
  typed cells, raw cells, fixed-width integers, \<open>VarUInteger\<close> and typed dictionaries.  A type
  that implements \<open>TlbSerialize\<close> and \<open>TlbDeserialize\<close> is a pair of functions, a writer into a
  builder and a reader from a slice; the generic functions take them as arguments.

  A \<open>value_codec\<close> reads its value and leaves the rest of the slice; a \<open>tail_codec\<close> needs the
  whole of what remains.  Both round-trip through a cell of their own.
\<close>

type_synonym i16 = "16 word"
type_synonym i32 = "32 word"

section \<open>Constructor tags\<close>

definition store_tag :: "builder \<Rightarrow> string \<Rightarrow> builder result" where
  "store_tag b tag_bits =
     try_fold (\<lambda>b c. if c = CHR ''0'' then store_bit b False
       else if c = CHR ''1'' then store_bit b True
       else Inl (TlbErr (TlbCustomSchema ''constructor tag''))) b tag_bits"

fun expect_tag_loop :: "slice \<Rightarrow> string \<Rightarrow> string \<Rightarrow> string \<Rightarrow> slice result" where
  "expect_tag_loop s constructor [] actual = Inr s"
| "expect_tag_loop s constructor (c # cs) actual =
     (if c \<noteq> CHR ''0'' \<and> c \<noteq> CHR ''1'' then Inl (TlbErr (TlbCustomSchema constructor))
      else case load_bit s of
          Inl _ \<Rightarrow> Inl (TlbErr (TlbTagMismatch constructor actual))
        | Inr (v, s) \<Rightarrow>
            let actual = actual @ [if v then CHR ''1'' else CHR ''0''] in
            if v \<noteq> (c = CHR ''1'') then Inl (TlbErr (TlbTagMismatch constructor actual))
            else expect_tag_loop s constructor cs actual)"

definition expect_tag :: "slice \<Rightarrow> string \<Rightarrow> string \<Rightarrow> slice result" where
  "expect_tag s constructor expected_bits = expect_tag_loop s constructor expected_bits []"

definition ensure_empty :: "slice \<Rightarrow> unit result" where
  "ensure_empty s =
     (if slice_is_empty s then Inr ()
      else Inl (TlbErr (TlbTrailingData (remaining_bits s) (remaining_refs s))))"

section \<open>Cells of typed values\<close>

definition tlb_to_cell :: "(builder \<Rightarrow> 'a \<Rightarrow> builder result) \<Rightarrow> 'a \<Rightarrow> cell result" where
  "tlb_to_cell store_tlb v = and_then (store_tlb builder_new v) builder_build"

definition tlb_from_cell :: "(slice \<Rightarrow> ('a \<times> slice) result) \<Rightarrow> cell \<Rightarrow> 'a result" where
  "tlb_from_cell load_tlb c =
     and_then (load_tlb (slice_new c)) (\<lambda>(v, s). and_then (ensure_empty s) (\<lambda>_. Inr v))"

definition store_ref_tlb :: "(builder \<Rightarrow> 'a \<Rightarrow> builder result) \<Rightarrow> builder \<Rightarrow> 'a \<Rightarrow> builder result" where
  "store_ref_tlb store_tlb b v = and_then (tlb_to_cell store_tlb v) (\<lambda>c. store_ref b c)"

definition load_ref_tlb :: "(slice \<Rightarrow> ('a \<times> slice) result) \<Rightarrow> string \<Rightarrow> slice \<Rightarrow> ('a \<times> slice) result" where
  "load_ref_tlb load_tlb schema s =
     and_then (load_reference s) (\<lambda>(c, s).
     and_then (map_err (TlbInvalidReference schema) (tlb_from_cell load_tlb c)) (\<lambda>v. Inr (v, s)))"

definition store_cell_ref :: "(builder \<Rightarrow> 'a \<Rightarrow> builder result) \<Rightarrow> builder \<Rightarrow> 'a \<Rightarrow> builder result" where
  "store_cell_ref store_tlb b v = store_ref_tlb store_tlb b v"

definition load_cell_ref :: "(slice \<Rightarrow> ('a \<times> slice) result) \<Rightarrow> slice \<Rightarrow> ('a \<times> slice) result" where
  "load_cell_ref load_tlb s = load_ref_tlb load_tlb ''CellRef'' s"

section \<open>Maybe and Either\<close>

definition store_maybe :: "(builder \<Rightarrow> 'a \<Rightarrow> builder result) \<Rightarrow> builder \<Rightarrow> 'a option \<Rightarrow> builder result" where
  "store_maybe store_tlb b v = (case v of
      Some v \<Rightarrow> and_then (store_bit b True) (\<lambda>b. store_tlb b v)
    | None \<Rightarrow> store_bit b False)"

definition load_maybe :: "(slice \<Rightarrow> ('a \<times> slice) result) \<Rightarrow> slice \<Rightarrow> ('a option \<times> slice) result" where
  "load_maybe load_tlb s = and_then (load_bit s) (\<lambda>(present, s).
     if present then and_then (load_tlb s) (\<lambda>(v, s). Inr (Some v, s)) else Inr (None, s))"

text \<open>\<open>Either L R\<close> is the sum type, \<open>Left\<close> its first summand.\<close>

definition store_either ::
    "(builder \<Rightarrow> 'l \<Rightarrow> builder result) \<Rightarrow> (builder \<Rightarrow> 'r \<Rightarrow> builder result) \<Rightarrow> builder \<Rightarrow> 'l + 'r \<Rightarrow> builder result" where
  "store_either store_left store_right b v = (case v of
      Inl left \<Rightarrow> and_then (store_bit b False) (\<lambda>b. store_left b left)
    | Inr right \<Rightarrow> and_then (store_bit b True) (\<lambda>b. store_right b right))"

definition load_either ::
    "(slice \<Rightarrow> ('l \<times> slice) result) \<Rightarrow> (slice \<Rightarrow> ('r \<times> slice) result) \<Rightarrow> slice \<Rightarrow> (('l + 'r) \<times> slice) result" where
  "load_either load_left load_right s = and_then (load_bit s) (\<lambda>(right, s).
     if right then and_then (load_right s) (\<lambda>(v, s). Inr (Inr v, s))
     else and_then (load_left s) (\<lambda>(v, s). Inr (Inl v, s)))"

section \<open>Raw cells\<close>

definition store_raw_cell :: "builder \<Rightarrow> cell \<Rightarrow> builder result" where
  "store_raw_cell b c = store_cell b c"

definition load_raw_cell :: "slice \<Rightarrow> (cell \<times> slice) result" where
  "load_raw_cell s =
     and_then (if 0 < remaining_bits s
               then and_then (load_bits s (remaining_bits s)) (\<lambda>(bits, s').
                 and_then (store_bits builder_new bits (remaining_bits s)) (\<lambda>b. Inr (b, s')))
               else Inr (builder_new, s)) (\<lambda>(b, s).
     and_then (load_remaining_refs s) (\<lambda>(refs, s).
     and_then (try_fold store_ref b refs) (\<lambda>b.
     and_then (builder_build b) (\<lambda>c. Inr (c, s)))))"

section \<open>Fixed-width values\<close>

definition store_uint_tlb :: "crates \<Rightarrow> nat \<Rightarrow> builder \<Rightarrow> 'a::len word \<Rightarrow> builder result" where
  "store_uint_tlb X bits b v = store_uint_custom X b v bits"

definition load_uint_tlb :: "crates \<Rightarrow> nat \<Rightarrow> slice \<Rightarrow> ('a::len word \<times> slice) result" where
  "load_uint_tlb X bits s = load_uint_custom X s bits"

text \<open>\<open>i8\<close> to \<open>i64\<close>: the value is extended to 64 bits, and must fit when read.\<close>

definition store_int_tlb :: "crates \<Rightarrow> nat \<Rightarrow> builder \<Rightarrow> 'a::len word \<Rightarrow> builder result" where
  "store_int_tlb X bits b v = store_int X b (scast v) bits"

definition load_int_tlb :: "crates \<Rightarrow> nat \<Rightarrow> slice \<Rightarrow> ('a::len word \<times> slice) result" where
  "load_int_tlb X bits s = and_then (load_int X s bits) (\<lambda>(v, s).
     if - (2 ^ (LENGTH('a) - 1)) \<le> v \<and> v < 2 ^ (LENGTH('a) - 1) then Inr (word_of_int v, s)
     else Inl (TlbErr (TlbCustomSchema ''int'')))"

definition store_i128_tlb :: "crates \<Rightarrow> nat \<Rightarrow> builder \<Rightarrow> 128 word \<Rightarrow> builder result" where
  "store_i128_tlb X bits b v = store_big_int X b (sint v) bits"

definition load_i128_tlb :: "crates \<Rightarrow> nat \<Rightarrow> slice \<Rightarrow> (128 word \<times> slice) result" where
  "load_i128_tlb X bits s = and_then (load_big_int X s bits) (\<lambda>(v, s).
     if - (2 ^ 127) \<le> v \<and> v < 2 ^ 127 then Inr (word_of_int v, s)
     else Inl (TlbErr (TlbCustomSchema ''i128'')))"

text \<open>\<open>store_int(v as i64, n)\<close> and \<open>load_int(n)? as T\<close>, as the message and transaction models use them.\<close>

definition store_int_as :: "crates \<Rightarrow> builder \<Rightarrow> 'a::len word \<Rightarrow> nat \<Rightarrow> builder result" where
  "store_int_as X b v n = store_int X b (scast v) n"

definition load_int_as :: "crates \<Rightarrow> slice \<Rightarrow> nat \<Rightarrow> ('a::len word \<times> slice) result" where
  "load_int_as X s n = and_then (load_int X s n) (\<lambda>(v, s). Inr (word_of_int v, s))"

definition store_bits256_tlb :: "builder \<Rightarrow> bytes \<Rightarrow> builder result" where
  "store_bits256_tlb b v = store_bytes b v"

definition load_bits256_tlb :: "slice \<Rightarrow> (bytes \<times> slice) result" where
  "load_bits256_tlb s = load_bytes s 32"

section \<open>VarUInteger and typed dictionaries\<close>

definition store_var_uint_tlb :: "crates \<Rightarrow> builder \<Rightarrow> nat \<Rightarrow> nat \<Rightarrow> builder result" where
  "store_var_uint_tlb X b v length_bits = store_var_big_uint X b v length_bits"

definition max_var_uint_bytes :: "nat \<Rightarrow> nat result" where
  "max_var_uint_bytes length_bits =
     (if 64 \<le> length_bits then Inl (TlbErr (TlbCustomSchema ''VarUInteger'')) else Inr (2 ^ length_bits - 1))"

definition load_var_uint_tlb :: "crates \<Rightarrow> slice \<Rightarrow> nat \<Rightarrow> (nat \<times> slice) result" where
  "load_var_uint_tlb X s length_bits =
     and_then (load_uint_custom X s length_bits) (\<lambda>(w :: u64, s).
     let byte_len = unat w in
     and_then (max_var_uint_bytes length_bits) (\<lambda>max_len.
     if max_len < byte_len then Inl (TlbErr (TlbNonCanonical ''VarUInteger''))
     else if byte_len = 0 then Inr (0, s)
     else and_then (load_bytes s byte_len) (\<lambda>(bytes, s).
       if bytes \<noteq> [] \<and> hd bytes = 0 then Inl (TlbErr (TlbNonCanonical ''VarUInteger''))
       else Inr (biguint_from_bytes_be X bytes, s))))"

definition store_hashmap_tlb :: "(builder \<Rightarrow> 'a \<Rightarrow> builder result) \<Rightarrow> builder \<Rightarrow> 'a hashmap_e \<Rightarrow> builder result" where
  "store_hashmap_tlb store_tlb b d = store_hashmap_e_with b d store_tlb"

definition load_hashmap_tlb :: "(slice \<Rightarrow> ('a \<times> slice) result) \<Rightarrow> nat \<Rightarrow> slice \<Rightarrow> ('a hashmap_e \<times> slice) result" where
  "load_hashmap_tlb load_tlb key_bits s = load_hashmap_e_with s key_bits load_tlb"

section \<open>Codecs\<close>

locale tail_codec =
  fixes store :: "builder \<Rightarrow> 'v \<Rightarrow> builder result"
    and load :: "slice \<Rightarrow> ('v \<times> slice) result"
    and good :: "'v \<Rightarrow> bool"
    and encb :: "'v \<Rightarrow> bool list"
    and encr :: "'v \<Rightarrow> cell list"
  assumes store_tail: "good x \<Longrightarrow> length xs + length (encb x) \<le> 1023 \<Longrightarrow>
      length rs + length (encr x) \<le> 4 \<Longrightarrow>
      store (mk_b xs rs) x = Inr (mk_b (xs @ encb x) (rs @ encr x))"
    and load_tail: "good x \<Longrightarrow> wf_slice s \<Longrightarrow> slice_bits s = encb x \<Longrightarrow> slice_refs s = encr x \<Longrightarrow>
      load s = Inr (x, adv s (length (encb x)) (length (encr x)))"
begin

lemma to_cell_eq:
  "good x \<Longrightarrow> length (encb x) \<le> 1023 \<Longrightarrow> length (encr x) \<le> 4 \<Longrightarrow>
    tlb_to_cell store x = Inr (mk_cell (encb x) (encr x))"
  using store_tail[of x "[]" "[]"] by (simp add: tlb_to_cell_def builder_new_eq builder_build_mk)

lemma from_cell_eq:
  assumes "good x" "wf_cell (mk_cell (encb x) (encr x))"
  shows "tlb_from_cell load (mk_cell (encb x) (encr x)) = Inr x"
  using load_tail[OF assms(1), of "slice_new (mk_cell (encb x) (encr x))"] assms(2)
  by (simp add: tlb_from_cell_def ensure_empty_def slice_is_empty_eq wf_adv)

lemma cell_roundtrip:
  assumes "good x" "length (encb x) \<le> 1023" "length (encr x) \<le> 4" "list_all wf_cell (encr x)"
  shows "\<exists>c. tlb_to_cell store x = Inr c \<and> wf_cell c \<and> tlb_from_cell load c = Inr x"
  using to_cell_eq[OF assms(1-3)] from_cell_eq[OF assms(1)] assms by (auto simp: wf_mk_cell)

end

sublocale value_codec \<subseteq> tail: tail_codec store load good encb encr
proof unfold_locales
  show "good x \<Longrightarrow> wf_slice s \<Longrightarrow> slice_bits s = encb x \<Longrightarrow> slice_refs s = encr x \<Longrightarrow>
      load s = Inr (x, adv s (length (encb x)) (length (encr x)))" for x s
    using load_reads[of x s "[]" "[]"] by simp
qed (rule store_appends)

lemma wf_slice_refs: "wf_slice s \<Longrightarrow> c \<in> set (slice_refs s) \<Longrightarrow> wf_cell c"
  unfolding wf_slice_def slice_refs_def using wf_cell_bounds(4)[of "sl_cell s"]
  by (auto simp: list_all_iff dest: in_set_dropD)

lemma ref_tlb_codec:
  assumes "tail_codec store load good encb encr"
  shows "value_codec (store_ref_tlb store) (load_ref_tlb load schema)
    (\<lambda>x. good x \<and> length (encb x) \<le> 1023 \<and> length (encr x) \<le> 4) (\<lambda>_. []) (\<lambda>x. [mk_cell (encb x) (encr x)])"
proof unfold_locales
  fix x s ys and qs :: "cell list"
  assume x: "good x \<and> length (encb x) \<le> 1023 \<and> length (encr x) \<le> 4" "wf_slice s"
    "slice_refs s = [mk_cell (encb x) (encr x)] @ qs"
  then have "wf_cell (mk_cell (encb x) (encr x))" by (intro wf_slice_refs[of s]) simp_all
  then show "load_ref_tlb load schema s = Inr (x, adv s (length ([] :: bool list)) (length [mk_cell (encb x) (encr x)]))"
    using x by (simp add: load_ref_tlb_def load_reference_eq tail_codec.from_cell_eq[OF assms])
qed (simp_all add: store_ref_tlb_def tail_codec.to_cell_eq[OF assms] store_ref_mk)

definition maybe_bits :: "('a \<Rightarrow> bool list) \<Rightarrow> 'a option \<Rightarrow> bool list" where
  "maybe_bits encb v = (case v of None \<Rightarrow> [False] | Some v \<Rightarrow> True # encb v)"

definition maybe_refs :: "('a \<Rightarrow> cell list) \<Rightarrow> 'a option \<Rightarrow> cell list" where
  "maybe_refs encr v = (case v of None \<Rightarrow> [] | Some v \<Rightarrow> encr v)"

lemma maybe_codec:
  assumes "value_codec store load good encb encr"
  shows "value_codec (store_maybe store) (load_maybe load) (pred_option good) (maybe_bits encb) (maybe_refs encr)"
proof unfold_locales
  show "store_maybe store (mk_b xs rs) x = Inr (mk_b (xs @ maybe_bits encb x) (rs @ maybe_refs encr x))"
    if "pred_option good x" "length xs + length (maybe_bits encb x) \<le> 1023"
      "length rs + length (maybe_refs encr x) \<le> 4" for x xs rs
    using that value_codec.store_appends[OF assms, of "the x" "xs @ [True]" rs]
    by (cases x) (simp_all add: store_maybe_def maybe_bits_def maybe_refs_def store_bit_mk)
  show "load_maybe load s = Inr (x, adv s (length (maybe_bits encb x)) (length (maybe_refs encr x)))"
    if "pred_option good x" "wf_slice s" "slice_bits s = maybe_bits encb x @ ys"
      "slice_refs s = maybe_refs encr x @ qs" for x s ys qs
    using that value_codec.load_reads[OF assms, of "the x" "adv s 1 0" ys qs]
    by (cases x) (simp_all add: load_maybe_def maybe_bits_def maybe_refs_def load_bit_eq wf_adv)
qed

definition either_bits :: "('l \<Rightarrow> bool list) \<Rightarrow> ('r \<Rightarrow> bool list) \<Rightarrow> 'l + 'r \<Rightarrow> bool list" where
  "either_bits bl br v = (case v of Inl x \<Rightarrow> False # bl x | Inr y \<Rightarrow> True # br y)"

lemma either_codec:
  assumes "value_codec sl ll gl bl rl" "value_codec sr lr gr br rr"
  shows "value_codec (store_either sl sr) (load_either ll lr) (pred_sum gl gr) (either_bits bl br) (case_sum rl rr)"
proof unfold_locales
  show "store_either sl sr (mk_b xs rs) x = Inr (mk_b (xs @ either_bits bl br x) (rs @ case_sum rl rr x))"
    if "pred_sum gl gr x" "length xs + length (either_bits bl br x) \<le> 1023"
      "length rs + length (case_sum rl rr x) \<le> 4" for x xs rs
    using that value_codec.store_appends[OF assms(1), of "projl x" "xs @ [False]" rs]
      value_codec.store_appends[OF assms(2), of "projr x" "xs @ [True]" rs]
    by (cases x) (simp_all add: store_either_def either_bits_def store_bit_mk)
  show "load_either ll lr s = Inr (x, adv s (length (either_bits bl br x)) (length (case_sum rl rr x)))"
    if "pred_sum gl gr x" "wf_slice s" "slice_bits s = either_bits bl br x @ ys"
      "slice_refs s = case_sum rl rr x @ qs" for x s ys qs
    using that value_codec.load_reads[OF assms(1), of "projl x" "adv s 1 0" ys qs]
      value_codec.load_reads[OF assms(2), of "projr x" "adv s 1 0" ys qs]
    by (cases x) (simp_all add: load_either_def either_bits_def load_bit_eq wf_adv)
qed

lemma concat_map_Nil [simp]: "concat (map (\<lambda>_. []) xs) = []"
  by (induction xs) simp_all

interpretation raw_cell: tail_codec store_raw_cell load_raw_cell "\<lambda>c. wf_cell c \<and> cell_exotic c = None"
  cell_bits cell_references
proof unfold_locales
  show "load_raw_cell s = Inr (c, adv s (length (cell_bits c)) (length (cell_references c)))"
    if "wf_cell c \<and> cell_exotic c = None" "wf_slice s" "slice_bits s = cell_bits c" "slice_refs s = cell_references c" for c s
  proof -
    have c: "length (cell_bits c) \<le> 1023" "length (cell_references c) \<le> 4" "mk_cell (cell_bits c) (cell_references c) = c"
      using that(1) wf_cell_bounds[of c] wf_ordinary_eq[of c] by auto
    have "try_fold store_ref (mk_b (cell_bits c) []) (cell_references c) = Inr (mk_b (cell_bits c) (cell_references c))"
      using ref_codec.store_many[of "cell_references c" "cell_bits c" "[]"] c(1,2) by (simp add: list_all_iff)
    then show ?thesis using that c div_ceil_bounds[of "length (cell_bits c)"]
      by (cases "cell_bits c = []") (auto simp: load_raw_cell_def remaining_bits_eq load_bits_eq builder_new_eq store_bits_mk
          load_remaining_refs_eq wf_adv builder_build_mk)
  qed
qed (simp add: store_raw_cell_def store_cell_mk)

text \<open>The root of a typed dictionary, when it has one.\<close>

definition dict_refs :: "(builder \<Rightarrow> 'a \<Rightarrow> builder result) \<Rightarrow> 'a hashmap_e \<Rightarrow> cell list" where
  "dict_refs store d = (case serialize_hashmap_root d store of Inr (Some c) \<Rightarrow> [c] | _ \<Rightarrow> [])"

definition dict_ok ::
    "nat \<Rightarrow> ('a \<Rightarrow> bool) \<Rightarrow> ('a \<Rightarrow> bool list) \<Rightarrow> ('a \<Rightarrow> cell list) \<Rightarrow> 'a hashmap_e \<Rightarrow> bool" where
  "dict_ok n good encb encr d \<longleftrightarrow> wf_hashmap d \<and> he_key_bits d = n
     \<and> (\<forall>v \<in> snd ` set (he_map d). good v \<and> list_all wf_cell (encr v)
          \<and> length (encr v) \<le> 4 \<and> 2 + bit_length n + n + length (encb v) \<le> 1023)"

lemma hashmap_codec:
  assumes "value_codec store load good encb encr"
  shows "value_codec (\<lambda>b d. store_hashmap_e_with b d store) (\<lambda>s. load_hashmap_e_with s n load)
    (dict_ok n good encb encr) (\<lambda>d. [he_map d \<noteq> []]) (dict_refs store)"
proof -
  let ?ok = "dict_ok n good encb encr"
  note ok_def = dict_ok_def
  have law: "\<exists>c. serialize_hashmap_root d store = Inr (Some c) \<and> wf_cell c \<and> deserialize_hashmap_root c n load = Inr d"
    if d: "?ok d" "he_map d \<noteq> []" for d
  proof -
    have n: "he_key_bits d = n" "wf_hashmap d" using d(1) by (simp_all add: ok_def)
    obtain c d' where "serialize_hashmap_root d store = Inr (Some c)" "wf_cell c"
        "deserialize_hashmap_root c n load = Inr d'" "he_key_bits d' = n"
        "list_all2 (\<lambda>(k, v) (k', w). k = k' \<and> v = w) (he_map d) (he_map d')"
      using value_codec.hashmap_root_law[OF assms(1) n(2) d(2), unfolded n(1)] d(1) unfolding ok_def by blast
    then show ?thesis using n unfolding pair_rel_eq list.rel_eq by simp
  qed
  have empty: "serialize_hashmap_root d store = Inr None" "d = hashmap_e_new n" if "?ok d" "he_map d = []" for d
    using that by (simp_all add: serialize_hashmap_root_def hashmap_e_is_empty_def hashmap_e_new_def ok_def)
  show ?thesis
  proof unfold_locales
    show "store_hashmap_e_with (mk_b xs rs) d store = Inr (mk_b (xs @ [he_map d \<noteq> []]) (rs @ dict_refs store d))"
      if "?ok d" "length xs + length [he_map d \<noteq> []] \<le> 1023" "length rs + length (dict_refs store d) \<le> 4" for d xs rs
      using that law[OF that(1)] empty[OF that(1)]
      by (cases "he_map d = []") (auto simp: store_hashmap_e_with_def dict_refs_def store_bit_mk store_ref_mk)
    show "load_hashmap_e_with s n load = Inr (d, adv s (length [he_map d \<noteq> []]) (length (dict_refs store d)))"
      if "?ok d" "wf_slice s" "slice_bits s = [he_map d \<noteq> []] @ ys" "slice_refs s = dict_refs store d @ qs" for d s ys qs
      using that law[OF that(1)] empty[OF that(1)]
      by (cases "he_map d = []") (auto simp: load_hashmap_e_with_def dict_refs_def load_bit_eq load_reference_eq)
  qed
qed

section \<open>Numbers\<close>

lemma sint_scast_i64: "LENGTH('a::len) \<le> 64 \<Longrightarrow> sint (scast (v :: 'a word) :: i64) = sint v"
proof -
  assume "LENGTH('a) \<le> 64"
  then have "(2::int) ^ (LENGTH('a) - 1) \<le> 2 ^ 63" by (intro power_increasing) auto
  then show ?thesis using sint_greater_eq[of v] sint_less[of v]
    by (simp add: signed_scast_eq signed_take_bit_int_eq_self)
qed

lemma nat_sint_mod: "nat (sint (v :: 'a::len word) mod 2 ^ LENGTH('a)) = unat v"
  using uint_sint[of v] by (simp add: take_bit_eq_mod unat_eq_nat_uint)

context bignum
begin

lemma uint_codec:
  assumes "LENGTH('a::len) \<le> 64 \<or> LENGTH('a) = 128"
  shows "value_codec (store_uint X) (load_uint X) (\<lambda>_. True) (\<lambda>v :: 'a word. nat_bits LENGTH('a) (unat v)) (\<lambda>_. [])"
  using assms by unfold_locales (auto simp: store_uint_mk load_uint_append)

lemma uint_custom_codec:
  assumes "LENGTH('a::len) \<le> 64 \<or> LENGTH('a) = 128" "n \<le> LENGTH('a)"
  shows "value_codec (\<lambda>b v. store_uint_custom X b v n) (\<lambda>s. load_uint_custom X s n)
    (\<lambda>v :: 'a word. unat v < 2 ^ n) (\<lambda>v. nat_bits n (unat v)) (\<lambda>_. [])"
  using assms by unfold_locales (auto simp: store_uint_custom_mk load_uint_custom_append unat_eq_zero intro!: gr0I)

lemma store_int_as_mk:
  assumes "LENGTH('a::len) \<le> 64" "length xs + LENGTH('a) \<le> 1023"
  shows "store_int_as X (mk_b xs rs) (v :: 'a word) LENGTH('a) = Inr (mk_b (xs @ nat_bits LENGTH('a) (unat v)) rs)"
  using assms sint_greater_eq[of v] sint_less[of v]
  by (simp add: store_int_as_def store_int_eq store_big_int_mk sint_scast_i64 nat_sint_mod)

lemma load_int_as_reads:
  assumes "LENGTH('a::len) \<le> 64" "wf_slice s" "slice_bits s = nat_bits LENGTH('a) (unat (v :: 'a word)) @ ys"
  shows "load_int_as X s LENGTH('a) = Inr (v, adv s LENGTH('a) 0)"
proof -
  have r: "- (2 ^ (LENGTH('a) - 1)) \<le> sint v" "sint v < 2 ^ (LENGTH('a) - 1)"
    using sint_greater_eq[of v] sint_less[of v] by simp_all
  have "(2::int) ^ (LENGTH('a) - 1) \<le> 2 ^ 63" using assms(1) by (intro power_increasing) auto
  with r have r64: "- (2 ^ 63) \<le> sint v" "sint v < 2 ^ 63" by linarith+
  have "load_big_int X s LENGTH('a) = Inr (sint v, adv s LENGTH('a) 0)"
    using big_int.load_reads[of "LENGTH('a)" "sint v" s ys] assms r by (simp add: nat_sint_mod)
  then show ?thesis using assms(1) r64 by (simp add: load_int_as_def load_int_def)
qed

lemma int_as_codec:
  "LENGTH('a::len) \<le> 64 \<Longrightarrow> value_codec (\<lambda>b v. store_int_as X b v LENGTH('a)) (\<lambda>s. load_int_as X s LENGTH('a))
    (\<lambda>_. True) (\<lambda>v :: 'a word. nat_bits LENGTH('a) (unat v)) (\<lambda>_. [])"
  by unfold_locales (auto simp: store_int_as_mk load_int_as_reads)

lemma load_var_uint_tlb_reads:
  assumes "n < 64" "var_len v < 2 ^ n" "wf_slice s" "slice_bits s = var_enc n v @ ys"
  shows "load_var_uint_tlb X s n = Inr (v, adv s (length (var_enc n v)) 0)"
proof -
  let ?n = "var_len v"
  have sb: "slice_bits s = nat_bits n ?n @ bytes_bits (be_bytes ?n v) @ ys"
    using assms(4) by (simp add: var_enc_def)
  have "(2::nat) ^ n \<le> 2 ^ 64" using assms(1) by (intro power_increasing) simp_all
  with assms(2) have u: "unat (word_of_nat ?n :: u64) = ?n" by (simp add: unat_word_of_nat)
  have l1: "load_uint_custom X s n = Inr (word_of_nat ?n :: u64, adv s n 0)"
    using assms u by (intro load_uint_custom_append[of _ _ _ "bytes_bits (be_bytes ?n v) @ ys"]) (simp_all add: sb)
  have l2: "load_bytes (adv s n 0) ?n = Inr (be_bytes ?n v, adv s (n + 8 * ?n) 0)"
    using assms(3) by (simp add: load_bytes_eq sb wf_adv)
  have "hd (be_bytes ?n v) \<noteq> 0" if "v \<noteq> 0"
  proof
    assume z: "hd (be_bytes ?n v) = 0"
    have "?n \<noteq> 0" using that by simp
    then obtain k where k: "?n = Suc k" using not0_implies_Suc by blast
    then obtain b bs where b: "be_bytes ?n v = b # bs" by (metis length_be_bytes length_Suc_conv)
    then have "v = be_val bs" using be_val_var_bytes[of v] z by simp
    moreover have "length bs = k" using b k length_be_bytes[of ?n v] by simp
    ultimately have "v < 256 ^ k" using be_val_less[of bs] by simp
    then have "?n \<le> k" by (simp add: var_len_le_iff)
    then show False using k by simp
  qed
  then show ?thesis using assms(1,2) u l1 l2
    by (cases "v = 0") (auto simp: load_var_uint_tlb_def max_var_uint_bytes_def biguint_from_bytes_be Let_def)
qed

lemma var_uint_tlb_codec:
  "n < 64 \<Longrightarrow> value_codec (\<lambda>b v. store_var_uint_tlb X b v n) (\<lambda>s. load_var_uint_tlb X s n)
    (\<lambda>v. var_len v < 2 ^ n) (var_enc n) (\<lambda>_. [])"
  by unfold_locales (auto simp: store_var_uint_tlb_def store_var_big_uint_mk load_var_uint_tlb_reads)

end

section \<open>Sequences of fields\<close>

text \<open>
  \<open>emits f ys qs\<close>: the writer \<open>f\<close> appends the bits \<open>ys\<close> and the references \<open>qs\<close>.  \<open>yields f v ys qs\<close>: the
  reader \<open>f\<close> on a slice that starts with \<open>ys\<close> and \<open>qs\<close> returns \<open>v\<close> and stands behind them.  A codec is
  a writer and a reader that agree, and the rules \<open>fields\<close> derive the two sides of a record
  from those of its parts, following the structure of the code.
\<close>

named_theorems fields

definition emits :: "(builder \<Rightarrow> builder result) \<Rightarrow> bool list \<Rightarrow> cell list \<Rightarrow> bool" where
  "emits f ys qs \<longleftrightarrow> (\<forall>xs rs. length xs + length ys \<le> 1023 \<longrightarrow> length rs + length qs \<le> 4 \<longrightarrow>
     f (mk_b xs rs) = Inr (mk_b (xs @ ys) (rs @ qs)))"

definition yields :: "(slice \<Rightarrow> ('a \<times> slice) result) \<Rightarrow> 'a \<Rightarrow> bool list \<Rightarrow> cell list \<Rightarrow> bool" where
  "yields f v ys qs \<longleftrightarrow> (\<forall>s ys' qs'. wf_slice s \<longrightarrow> slice_bits s = ys @ ys' \<longrightarrow> slice_refs s = qs @ qs' \<longrightarrow>
     f s = Inr (v, adv s (length ys) (length qs)))"

lemma emits_eq: "emits f ys qs \<Longrightarrow> ys = ys' \<Longrightarrow> qs = qs' \<Longrightarrow> emits f ys' qs'"
  by simp

lemma yields_eq: "yields f v ys qs \<Longrightarrow> ys = ys' \<Longrightarrow> qs = qs' \<Longrightarrow> yields f v ys' qs'"
  by simp

lemma emits_bind: "emits f ys qs \<Longrightarrow> emits g ys' qs' \<Longrightarrow> emits (\<lambda>b. and_then (f b) g) (ys @ ys') (qs @ qs')"
  by (simp add: emits_def)

lemma emits_guard: "\<not> c \<Longrightarrow> emits f ys qs \<Longrightarrow> emits (\<lambda>b. if c then e else f b) ys qs"
  by simp

lemma emits_check: "r = Inr v \<Longrightarrow> emits (f v) ys qs \<Longrightarrow> emits (\<lambda>b. and_then r (\<lambda>v. f v b)) ys qs"
  by simp

lemma yields_bind:
  assumes "yields f v ys qs" "yields (g v) w ys' qs'" "rs = qs @ qs'"
  shows "yields (\<lambda>s. and_then (f s) (\<lambda>(v, s). g v s)) w (ys @ ys') rs"
  unfolding yields_def
proof (intro allI impI)
  fix s zs ps assume s: "wf_slice s" "slice_bits s = (ys @ ys') @ zs" "slice_refs s = rs @ ps"
  have "f s = Inr (v, adv s (length ys) (length qs))" using assms(1,3) s by (simp add: yields_def)
  moreover have "g v (adv s (length ys) (length qs)) = Inr (w, adv (adv s (length ys) (length qs)) (length ys') (length qs'))"
    using assms(2)[unfolded yields_def, rule_format, of "adv s (length ys) (length qs)" zs ps] assms(3) s by (simp add: wf_adv)
  ultimately show "and_then (f s) (\<lambda>(v, s). g v s) = Inr (w, adv s (length (ys @ ys')) (length rs))"
    using assms(3) by simp
qed

text \<open>The last field of a record.\<close>

lemma yields_last:
  "yields f v ys qs \<Longrightarrow> w = h v \<Longrightarrow> yields (\<lambda>s. and_then (f s) (\<lambda>(v, s). Inr (h v, s))) w ys qs"
  by (simp add: yields_def)

lemma yields_last_eq: "yields f v ys qs \<Longrightarrow> yields (\<lambda>s. and_then (f s) (\<lambda>(v, s). Inr (h v, s))) (h v) ys qs"
  by (simp add: yields_def)

lemma yields_return: "yields (\<lambda>s. Inr (v, s)) v [] []"
  by (simp add: yields_def)

lemma yields_if:
  "c \<Longrightarrow> yields f v ys qs \<Longrightarrow> yields (\<lambda>s. if c then f s else g s) v ys qs"
  "\<not> c \<Longrightarrow> yields g v ys qs \<Longrightarrow> yields (\<lambda>s. if c then f s else g s) v ys qs"
  by simp_all

text \<open>A reader of the whole rest of a slice.\<close>

definition ends :: "(slice \<Rightarrow> ('a \<times> slice) result) \<Rightarrow> 'a \<Rightarrow> bool list \<Rightarrow> cell list \<Rightarrow> bool" where
  "ends f v ys qs \<longleftrightarrow> (\<forall>s. wf_slice s \<longrightarrow> slice_bits s = ys \<longrightarrow> slice_refs s = qs \<longrightarrow>
     f s = Inr (v, adv s (length ys) (length qs)))"

lemma ends_bind:
  assumes "yields f v ys qs" "ends (g v) w ys' qs'" "rs = qs @ qs'"
  shows "ends (\<lambda>s. and_then (f s) (\<lambda>(v, s). g v s)) w (ys @ ys') rs"
  unfolding ends_def
proof (intro allI impI)
  fix s assume s: "wf_slice s" "slice_bits s = ys @ ys'" "slice_refs s = rs"
  have "f s = Inr (v, adv s (length ys) (length qs))" using assms(1,3) s by (simp add: yields_def)
  moreover have "g v (adv s (length ys) (length qs)) = Inr (w, adv (adv s (length ys) (length qs)) (length ys') (length qs'))"
    using assms(2)[unfolded ends_def, rule_format, of "adv s (length ys) (length qs)"] assms(3) s by (simp add: wf_adv)
  ultimately show "and_then (f s) (\<lambda>(v, s). g v s) = Inr (w, adv s (length (ys @ ys')) (length rs))"
    using assms(3) by simp
qed

lemma ends_last: "ends f v ys qs \<Longrightarrow> w = h v \<Longrightarrow> ends (\<lambda>s. and_then (f s) (\<lambda>(v, s). Inr (h v, s))) w ys qs"
  by (simp add: ends_def)

lemma yields_ends: "yields f v ys qs \<Longrightarrow> ends f v ys qs"
  unfolding yields_def ends_def by (metis append_Nil2)

lemma tail_codec_iff:
  "tail_codec st ld good encb encr \<longleftrightarrow>
    (\<forall>x. good x \<longrightarrow> emits (\<lambda>b. st b x) (encb x) (encr x) \<and> ends ld x (encb x) (encr x))"
  unfolding tail_codec_def emits_def ends_def by blast

lemma tail_codec_steps:
  assumes "tail_codec st ld good encb encr" "good x"
  shows "emits (\<lambda>b. st b x) (encb x) (encr x)" "ends ld x (encb x) (encr x)"
  using assms by (simp_all add: tail_codec_iff)

lemma tail_codecI:
  "(\<And>x. good x \<Longrightarrow> emits (\<lambda>b. st b x) (encb x) (encr x)) \<Longrightarrow>
   (\<And>x. good x \<Longrightarrow> ends ld x (encb x) (encr x)) \<Longrightarrow> tail_codec st ld good encb encr"
  by (simp add: tail_codec_iff)

lemma value_codec_iff:
  "value_codec st ld good encb encr \<longleftrightarrow>
    (\<forall>x. good x \<longrightarrow> emits (\<lambda>b. st b x) (encb x) (encr x) \<and> yields ld x (encb x) (encr x))"
  unfolding value_codec_def emits_def yields_def by blast

lemma value_codec_tail: "value_codec st ld good encb encr \<Longrightarrow> tail_codec st ld good encb encr"
  by (simp add: value_codec_iff tail_codec_iff yields_ends)

lemma codecI:
  "(\<And>x. good x \<Longrightarrow> emits (\<lambda>b. st b x) (encb x) (encr x)) \<Longrightarrow>
   (\<And>x. good x \<Longrightarrow> yields ld x (encb x) (encr x)) \<Longrightarrow> value_codec st ld good encb encr"
  by (simp add: value_codec_iff)

lemma codec_emits: "value_codec st ld good encb encr \<Longrightarrow> good x \<Longrightarrow> emits (\<lambda>b. st b x) (encb x) (encr x)"
  by (simp add: value_codec_iff)

lemma codec_yields: "value_codec st ld good encb encr \<Longrightarrow> good x \<Longrightarrow> yields ld x (encb x) (encr x)"
  by (simp add: value_codec_iff)

lemma bit_steps: "emits (\<lambda>b. store_bit b v) [v] []" "yields load_bit v [v] []"
  by (simp_all add: emits_def yields_def store_bit_mk load_bit_eq)

lemma store_tag_emits:
  "list_all (\<lambda>c. c \<in> {CHR ''0'', CHR ''1''}) tag \<Longrightarrow> emits (\<lambda>b. store_tag b tag) (map (\<lambda>c. c = CHR ''1'') tag) []"
proof (induction tag)
  case (Cons c tag)
  then have "emits (\<lambda>b. and_then (store_bit b (c = CHR ''1'')) (\<lambda>b. store_tag b tag)) ([c = CHR ''1''] @ map (\<lambda>c. c = CHR ''1'') tag) ([] @ [])"
    by (intro emits_bind bit_steps) simp
  then show ?case using Cons.prems by (auto simp: store_tag_def emits_def)
qed (simp add: store_tag_def emits_def)

lemma bytes_steps:
  "emits (\<lambda>b. store_bytes b bs) (bytes_bits bs) []"
  "length bs = n \<Longrightarrow> yields (\<lambda>s. load_bytes s n) bs (bytes_bits bs) []"
  by (auto simp: emits_def yields_def store_bytes_mk load_bytes_eq)

lemma ref_steps: "emits (\<lambda>b. store_ref b c) [] [c]" "yields load_reference c [] [c]"
  by (simp_all add: emits_def yields_def store_ref_mk load_reference_eq)

lemma maybe_refs_none [simp]: "maybe_refs (\<lambda>_. []) v = []"
  by (simp add: maybe_refs_def split: option.split)

lemma maybe_ref_steps: "emits (\<lambda>b. store_maybe_ref b c) (maybe_bits (\<lambda>_. []) c) (maybe_refs (\<lambda>c. [c]) c)"
  by (cases c) (simp_all add: emits_def store_maybe_ref_def maybe_bits_def maybe_refs_def store_bit_mk store_ref_mk)

declare emits_bind [fields] yields_bind [fields] yields_last [fields] yields_return [fields] store_tag_emits [fields] bit_steps [fields]
  bytes_steps [fields] ref_steps [fields] maybe_ref_steps [fields]

context bignum
begin

lemma uint_steps:
  fixes v :: "'a::len word"
  assumes "LENGTH('a) \<le> 64 \<or> LENGTH('a) = 128"
  shows "emits (\<lambda>b. store_uint X b v) (nat_bits LENGTH('a) (unat v)) []"
    "yields (load_uint X) v (nat_bits LENGTH('a) (unat v)) []"
  using codec_emits[OF uint_codec[OF assms]] codec_yields[OF uint_codec[OF assms]] by simp_all

lemma sized_uint_yields:
  "yields (load_uint X) v8 (nat_bits 8 (unat (v8 :: u8))) []"
  "yields (load_uint X) v16 (nat_bits 16 (unat (v16 :: u16))) []"
  "yields (load_uint X) v32 (nat_bits 32 (unat (v32 :: u32))) []"
  "yields (load_uint X) v64 (nat_bits 64 (unat (v64 :: u64))) []"
  using uint_steps(2)[of v8] uint_steps(2)[of v16] uint_steps(2)[of v32] uint_steps(2)[of v64] by simp_all

lemma uint_custom_steps:
  fixes v :: "'a::len word"
  assumes "LENGTH('a) \<le> 64 \<or> LENGTH('a) = 128" "n \<le> LENGTH('a)" "unat v < 2 ^ n"
  shows "emits (\<lambda>b. store_uint_custom X b v n) (nat_bits n (unat v)) []"
    "yields (\<lambda>s. load_uint_custom X s n) v (nat_bits n (unat v)) []"
  using codec_emits[OF uint_custom_codec[OF assms(1,2)]] codec_yields[OF uint_custom_codec[OF assms(1,2)]] assms(3)
  by simp_all

lemma int_as_steps:
  fixes v :: "'a::len word"
  assumes "LENGTH('a) \<le> 64" "n = LENGTH('a)"
  shows "emits (\<lambda>b. store_int_as X b v n) (nat_bits n (unat v)) []"
    "yields (\<lambda>s. load_int_as X s n) v (nat_bits n (unat v)) []"
  using codec_emits[OF int_as_codec[OF assms(1)]] codec_yields[OF int_as_codec[OF assms(1)]] assms(2) by simp_all

lemma named_uint_steps:
  "emits (\<lambda>b. store_u8 X b v8) (nat_bits 8 (unat v8)) []" "yields (load_u8 X) v8 (nat_bits 8 (unat v8)) []"
  "emits (\<lambda>b. store_u16 X b v16) (nat_bits 16 (unat v16)) []" "yields (load_u16 X) v16 (nat_bits 16 (unat v16)) []"
  "emits (\<lambda>b. store_u32 X b v32) (nat_bits 32 (unat v32)) []" "yields (load_u32 X) v32 (nat_bits 32 (unat v32)) []"
  "emits (\<lambda>b. store_u64 X b v64) (nat_bits 64 (unat v64)) []" "yields (load_u64 X) v64 (nat_bits 64 (unat v64)) []"
  using uint_steps[of v8] uint_steps[of v16] uint_steps[of v32] uint_steps[of v64]
  by (simp_all add: load_u8_def load_u16_def load_u32_def load_u64_def emits_def yields_def store_u8_def store_u16_def
      store_u32_def store_u64_def cb_store_u8_def cb_store_u16_def cb_store_u32_def cb_store_u64_def store_uint_def)

lemma var_uint_steps:
  assumes "n < 64" "var_len v < 2 ^ n"
  shows "emits (\<lambda>b. store_var_uint_tlb X b v n) (var_enc n v) []"
    "yields (\<lambda>s. load_var_uint_tlb X s n) v (var_enc n v) []"
  using codec_emits[OF var_uint_tlb_codec[OF assms(1)]] codec_yields[OF var_uint_tlb_codec[OF assms(1)]] assms(2) by simp_all

declare uint_steps(1) [fields] sized_uint_yields [fields] uint_custom_steps [fields] int_as_steps [fields] named_uint_steps [fields] var_uint_steps [fields]

end

end
