(* ===== verification/TlbMessage.thy ===== *)
theory TlbMessage
  imports TlbCore
begin

text \<open>
  The TL-B messages of \<open>src/tlb/message/address.rs\<close> and \<open>src/tlb/message/helpers.rs\<close>: addresses,
  amounts, state inits, the common message information and whole messages, each with its
  writer and its reader.  An optional or nested part keeps its placement: a state init or a
  body is inline (\<open>Inl\<close>) or in a referenced cell (\<open>Inr\<close>).
\<close>

definition EXTRA_CURRENCY_KEY_BITS :: nat where "EXTRA_CURRENCY_KEY_BITS = 32"
definition STATE_INIT_LIBRARY_KEY_BITS :: nat where "STATE_INIT_LIBRARY_KEY_BITS = 256"
definition VAR_UINT_16_LEN_BITS :: nat where "VAR_UINT_16_LEN_BITS = 4"
definition VAR_UINT_32_LEN_BITS :: nat where "VAR_UINT_32_LEN_BITS = 5"
definition VAR_UINT_7_LEN_BITS :: nat where "VAR_UINT_7_LEN_BITS = 3"
definition VAR_UINT_7_MAX_BYTES :: nat where "VAR_UINT_7_MAX_BYTES = 6"

section \<open>Helpers\<close>

definition validate_bit_string :: "string \<Rightarrow> bytes \<Rightarrow> nat \<Rightarrow> unit result" where
  "validate_bit_string schema data bit_len =
     (if length data \<noteq> div_ceil bit_len 8 then Inl (TlbErr (TlbCustomSchema schema))
      else if bit_len = 0 \<or> data = [] then Inr ()
      else let unused_bits = length data * 8 - bit_len in
        if 0 < unused_bits \<and> last data AND (push_bit unused_bits 1 - 1) \<noteq> 0
        then Inl (TlbErr (TlbNonCanonical schema)) else Inr ())"

text \<open>The loops of \<open>load_one_bit_tag\<close> and \<open>load_two_bit_tag\<close>.\<close>

fun load_tag_bits :: "slice \<Rightarrow> string \<Rightarrow> nat \<Rightarrow> string \<Rightarrow> (string \<times> slice) result" where
  "load_tag_bits s constructor 0 actual = Inr (actual, s)"
| "load_tag_bits s constructor (Suc k) actual =
     (case load_bit s of
        Inl _ \<Rightarrow> Inl (TlbErr (TlbTagMismatch constructor actual))
      | Inr (v, s) \<Rightarrow> load_tag_bits s constructor k (actual @ [if v then CHR ''1'' else CHR ''0'']))"

definition load_two_bit_tag :: "slice \<Rightarrow> string \<Rightarrow> (string \<times> slice) result" where
  "load_two_bit_tag s constructor = load_tag_bits s constructor 2 []"

definition load_one_bit_tag :: "slice \<Rightarrow> string \<Rightarrow> (string \<times> slice) result" where
  "load_one_bit_tag s constructor = load_tag_bits s constructor 1 []"

definition load_maybe_ref_cell :: "slice \<Rightarrow> (cell option \<times> slice) result" where
  "load_maybe_ref_cell s = and_then (load_bit s) (\<lambda>(present, s).
     if present then and_then (load_reference s) (\<lambda>(c, s). Inr (Some c, s)) else Inr (None, s))"

definition load_remaining_as_cell :: "slice \<Rightarrow> (cell \<times> slice) result" where
  "load_remaining_as_cell s =
     (let bits = remaining_bits s; refs = remaining_refs s; remaining = clone_from_current s in
      and_then (store_slice builder_new remaining) (\<lambda>b.
      and_then (builder_build b) (\<lambda>c.
      and_then (skip_bits s bits) (\<lambda>s.
      and_then (skip_refs s refs) (\<lambda>s. Inr (c, s))))))"

section \<open>Addresses\<close>

record anycast =
  any_depth :: u8
  rewrite_pfx :: bytes

definition store_anycast :: "crates \<Rightarrow> builder \<Rightarrow> anycast \<Rightarrow> builder result" where
  "store_anycast X b a =
     and_then (validate_bit_string ''Anycast.rewrite_pfx'' (rewrite_pfx a) (unat (any_depth a))) (\<lambda>_.
     if any_depth a < 1 \<or> 30 < any_depth a then Inl (TlbErr (TlbCustomSchema ''Anycast''))
     else and_then (store_uint_custom X b (any_depth a) 5) (\<lambda>b.
       store_bits b (rewrite_pfx a) (unat (any_depth a))))"

definition load_anycast :: "crates \<Rightarrow> slice \<Rightarrow> (anycast \<times> slice) result" where
  "load_anycast X s =
     and_then (load_uint_custom X s 5) (\<lambda>(depth :: u8, s).
     if depth < 1 \<or> 30 < depth then Inl (TlbErr (TlbCustomSchema ''Anycast''))
     else and_then (load_bits s (unat depth)) (\<lambda>(pfx, s). Inr (\<lparr>any_depth = depth, rewrite_pfx = pfx\<rparr>, s)))"

definition store_maybe_anycast :: "crates \<Rightarrow> builder \<Rightarrow> anycast option \<Rightarrow> builder result" where
  "store_maybe_anycast X b a = (case a of
      Some a \<Rightarrow> and_then (store_bit b True) (\<lambda>b. store_anycast X b a)
    | None \<Rightarrow> store_bit b False)"

definition load_maybe_anycast :: "crates \<Rightarrow> slice \<Rightarrow> (anycast option \<times> slice) result" where
  "load_maybe_anycast X s = and_then (load_bit s) (\<lambda>(present, s).
     if present then and_then (load_anycast X s) (\<lambda>(a, s). Inr (Some a, s)) else Inr (None, s))"

datatype msg_address_int =
    AddrStd "anycast option" address
  | AddrVar "anycast option" i32 bytes nat

definition msg_address_std :: "address \<Rightarrow> msg_address_int" where
  "msg_address_std a = AddrStd None a"

definition store_msg_address_int :: "crates \<Rightarrow> builder \<Rightarrow> msg_address_int \<Rightarrow> builder result" where
  "store_msg_address_int X b m = (case m of
      AddrStd any a \<Rightarrow>
        and_then (store_tag b ''10'') (\<lambda>b.
        and_then (store_maybe_anycast X b any) (\<lambda>b.
        and_then (store_int_as X b (workchain a) 8) (\<lambda>b.
        store_bytes b (hash_part a))))
    | AddrVar any wc data bit_len \<Rightarrow>
        and_then (validate_bit_string ''MsgAddressInt.addr_var.address'' data bit_len) (\<lambda>_.
        if 511 < bit_len then Inl (TlbErr (TlbCustomSchema ''MsgAddressInt.addr_var''))
        else and_then (store_tag b ''11'') (\<lambda>b.
          and_then (store_maybe_anycast X b any) (\<lambda>b.
          and_then (store_uint_custom X b (word_of_nat bit_len :: u16) 9) (\<lambda>b.
          and_then (store_int_as X b wc 32) (\<lambda>b.
          store_bits b data bit_len))))))"

text \<open>The bodies of the constructors, shared by \<open>MsgAddressInt\<close> and \<open>MsgAddress\<close>.\<close>

definition load_addr_std :: "crates \<Rightarrow> slice \<Rightarrow> (msg_address_int \<times> slice) result" where
  "load_addr_std X s =
     and_then (load_maybe_anycast X s) (\<lambda>(any, s).
     and_then (load_int_as X s 8) (\<lambda>(wc, s).
     and_then (load_bytes s 32) (\<lambda>(h, s). Inr (AddrStd any (new_address wc h), s))))"

definition load_addr_var :: "crates \<Rightarrow> slice \<Rightarrow> (msg_address_int \<times> slice) result" where
  "load_addr_var X s =
     and_then (load_maybe_anycast X s) (\<lambda>(any, s).
     and_then (load_uint_custom X s 9) (\<lambda>(w :: u16, s).
     let bit_len = unat w in
     and_then (load_int_as X s 32) (\<lambda>(wc, s).
     and_then (load_bits s bit_len) (\<lambda>(data, s). Inr (AddrVar any wc data bit_len, s)))))"

definition load_msg_address_int :: "crates \<Rightarrow> slice \<Rightarrow> (msg_address_int \<times> slice) result" where
  "load_msg_address_int X s = and_then (load_two_bit_tag s ''MsgAddressInt'') (\<lambda>(tag, s).
     if tag = ''10'' then load_addr_std X s
     else if tag = ''11'' then load_addr_var X s
     else Inl (TlbErr (TlbTagMismatch ''MsgAddressInt'' tag)))"

datatype msg_address_ext =
    AddrNone
  | AddrExtern bytes nat

definition store_msg_address_ext :: "crates \<Rightarrow> builder \<Rightarrow> msg_address_ext \<Rightarrow> builder result" where
  "store_msg_address_ext X b m = (case m of
      AddrNone \<Rightarrow> store_tag b ''00''
    | AddrExtern data bit_len \<Rightarrow>
        and_then (validate_bit_string ''MsgAddressExt.addr_extern.external_address'' data bit_len) (\<lambda>_.
        if 511 < bit_len then Inl (TlbErr (TlbCustomSchema ''MsgAddressExt.addr_extern''))
        else and_then (store_tag b ''01'') (\<lambda>b.
          and_then (store_uint_custom X b (word_of_nat bit_len :: u16) 9) (\<lambda>b.
          store_bits b data bit_len))))"

definition load_addr_extern :: "crates \<Rightarrow> slice \<Rightarrow> (msg_address_ext \<times> slice) result" where
  "load_addr_extern X s =
     and_then (load_uint_custom X s 9) (\<lambda>(w :: u16, s).
     let bit_len = unat w in
     and_then (load_bits s bit_len) (\<lambda>(data, s). Inr (AddrExtern data bit_len, s)))"

definition load_msg_address_ext :: "crates \<Rightarrow> slice \<Rightarrow> (msg_address_ext \<times> slice) result" where
  "load_msg_address_ext X s = and_then (load_two_bit_tag s ''MsgAddressExt'') (\<lambda>(tag, s).
     if tag = ''00'' then Inr (AddrNone, s)
     else if tag = ''01'' then load_addr_extern X s
     else Inl (TlbErr (TlbTagMismatch ''MsgAddressExt'' tag)))"

datatype msg_address =
    AddrInt msg_address_int
  | AddrExt msg_address_ext

definition store_msg_address :: "crates \<Rightarrow> builder \<Rightarrow> msg_address \<Rightarrow> builder result" where
  "store_msg_address X b m = (case m of
      AddrInt a \<Rightarrow> store_msg_address_int X b a
    | AddrExt a \<Rightarrow> store_msg_address_ext X b a)"

definition load_msg_address :: "crates \<Rightarrow> slice \<Rightarrow> (msg_address \<times> slice) result" where
  "load_msg_address X s = and_then (load_two_bit_tag s ''MsgAddress'') (\<lambda>(tag, s).
     if tag = ''00'' then Inr (AddrExt AddrNone, s)
     else if tag = ''01'' then and_then (load_addr_extern X s) (\<lambda>(a, s). Inr (AddrExt a, s))
     else if tag = ''10'' then and_then (load_addr_std X s) (\<lambda>(a, s). Inr (AddrInt a, s))
     else if tag = ''11'' then and_then (load_addr_var X s) (\<lambda>(a, s). Inr (AddrInt a, s))
     else Inl (TlbErr (TlbTagMismatch ''MsgAddress'' tag)))"

section \<open>Amounts\<close>

type_synonym grams = nat

definition store_grams :: "crates \<Rightarrow> builder \<Rightarrow> grams \<Rightarrow> builder result" where
  "store_grams X b v = store_var_uint_tlb X b v VAR_UINT_16_LEN_BITS"

definition load_grams :: "crates \<Rightarrow> slice \<Rightarrow> (grams \<times> slice) result" where
  "load_grams X s = load_var_uint_tlb X s VAR_UINT_16_LEN_BITS"

record currency_collection =
  cc_grams :: grams
  cc_other :: "nat hashmap_e"

definition currency_of_grams :: "grams \<Rightarrow> currency_collection" where
  "currency_of_grams g = \<lparr>cc_grams = g, cc_other = hashmap_e_new EXTRA_CURRENCY_KEY_BITS\<rparr>"

definition store_currency :: "crates \<Rightarrow> builder \<Rightarrow> currency_collection \<Rightarrow> builder result" where
  "store_currency X b v =
     (if he_key_bits (cc_other v) \<noteq> EXTRA_CURRENCY_KEY_BITS then Inl (TlbErr (TlbCustomSchema ''CurrencyCollection''))
      else and_then (store_grams X b (cc_grams v)) (\<lambda>b.
        store_hashmap_e_with b (cc_other v) (\<lambda>b v. store_var_big_uint X b v VAR_UINT_32_LEN_BITS)))"

definition load_currency :: "crates \<Rightarrow> slice \<Rightarrow> (currency_collection \<times> slice) result" where
  "load_currency X s =
     and_then (load_grams X s) (\<lambda>(grams, s).
     and_then (load_hashmap_e_with s EXTRA_CURRENCY_KEY_BITS (\<lambda>s. load_var_uint_tlb X s VAR_UINT_32_LEN_BITS)) (\<lambda>(other, s).
     Inr (\<lparr>cc_grams = grams, cc_other = other\<rparr>, s)))"

section \<open>State inits\<close>

record tick_tock =
  tick :: bool
  tock :: bool

definition store_tick_tock :: "builder \<Rightarrow> tick_tock \<Rightarrow> builder result" where
  "store_tick_tock b t = and_then (store_bit b (tick t)) (\<lambda>b. store_bit b (tock t))"

definition load_tick_tock :: "slice \<Rightarrow> (tick_tock \<times> slice) result" where
  "load_tick_tock s = and_then (load_bit s) (\<lambda>(t, s). and_then (load_bit s) (\<lambda>(u, s).
     Inr (\<lparr>tick = t, tock = u\<rparr>, s)))"

definition store_maybe_tick_tock :: "builder \<Rightarrow> tick_tock option \<Rightarrow> builder result" where
  "store_maybe_tick_tock b t = (case t of
      Some t \<Rightarrow> and_then (store_bit b True) (\<lambda>b. store_tick_tock b t)
    | None \<Rightarrow> store_bit b False)"

definition load_maybe_tick_tock :: "slice \<Rightarrow> (tick_tock option \<times> slice) result" where
  "load_maybe_tick_tock s = and_then (load_bit s) (\<lambda>(present, s).
     if present then and_then (load_tick_tock s) (\<lambda>(t, s). Inr (Some t, s)) else Inr (None, s))"

record state_init =
  si_fixed_prefix_length :: "u8 option"
  si_special :: "tick_tock option"
  si_code :: "cell option"
  si_data :: "cell option"
  si_library :: "cell option"

definition state_init_empty :: state_init where
  "state_init_empty = \<lparr>si_fixed_prefix_length = None, si_special = None, si_code = None, si_data = None,
     si_library = None\<rparr>"

definition store_fixed_prefix :: "crates \<Rightarrow> string \<Rightarrow> builder \<Rightarrow> u8 option \<Rightarrow> builder result" where
  "store_fixed_prefix X schema b p = (case p of
      Some v \<Rightarrow>
        if 32 \<le> v then Inl (TlbErr (TlbCustomSchema schema))
        else and_then (store_bit b True) (\<lambda>b. store_uint_custom X b v 5)
    | None \<Rightarrow> store_bit b False)"

definition load_fixed_prefix :: "crates \<Rightarrow> slice \<Rightarrow> (u8 option \<times> slice) result" where
  "load_fixed_prefix X s = and_then (load_bit s) (\<lambda>(present, s).
     if present then and_then (load_uint_custom X s 5) (\<lambda>(v, s). Inr (Some v, s)) else Inr (None, s))"

definition store_state_init :: "crates \<Rightarrow> builder \<Rightarrow> state_init \<Rightarrow> builder result" where
  "store_state_init X b i =
     and_then (store_fixed_prefix X ''StateInit.fixed_prefix_length'' b (si_fixed_prefix_length i)) (\<lambda>b.
     and_then (store_maybe_tick_tock b (si_special i)) (\<lambda>b.
     and_then (store_maybe_ref b (si_code i)) (\<lambda>b.
     and_then (store_maybe_ref b (si_data i)) (\<lambda>b.
     store_maybe_ref b (si_library i)))))"

definition load_state_init :: "crates \<Rightarrow> slice \<Rightarrow> (state_init \<times> slice) result" where
  "load_state_init X s =
     and_then (load_fixed_prefix X s) (\<lambda>(p, s).
     and_then (load_maybe_tick_tock s) (\<lambda>(sp, s).
     and_then (load_maybe_ref_cell s) (\<lambda>(code, s).
     and_then (load_maybe_ref_cell s) (\<lambda>(data, s).
     and_then (load_maybe_ref_cell s) (\<lambda>(lib, s).
     Inr (\<lparr>si_fixed_prefix_length = p, si_special = sp, si_code = code, si_data = data, si_library = lib\<rparr>, s))))))"

record simple_lib =
  lib_public :: bool
  lib_root :: cell

definition store_simple_lib :: "builder \<Rightarrow> simple_lib \<Rightarrow> builder result" where
  "store_simple_lib b l = and_then (store_bit b (lib_public l)) (\<lambda>b. store_ref b (lib_root l))"

definition load_simple_lib :: "slice \<Rightarrow> (simple_lib \<times> slice) result" where
  "load_simple_lib s = and_then (load_bit s) (\<lambda>(p, s). and_then (load_reference s) (\<lambda>(r, s).
     Inr (\<lparr>lib_public = p, lib_root = r\<rparr>, s)))"

record state_init_libs =
  sl_fixed_prefix_length :: "u8 option"
  sl_special :: "tick_tock option"
  sl_code :: "cell option"
  sl_data :: "cell option"
  sl_library :: "simple_lib hashmap_e"

definition state_init_libs_empty :: state_init_libs where
  "state_init_libs_empty = \<lparr>sl_fixed_prefix_length = None, sl_special = None, sl_code = None, sl_data = None,
     sl_library = hashmap_e_new STATE_INIT_LIBRARY_KEY_BITS\<rparr>"

definition store_state_init_prefix ::
    "crates \<Rightarrow> builder \<Rightarrow> u8 option \<Rightarrow> tick_tock option \<Rightarrow> cell option \<Rightarrow> cell option \<Rightarrow> string \<Rightarrow> builder result" where
  "store_state_init_prefix X b p sp code data schema =
     and_then (store_fixed_prefix X schema b p) (\<lambda>b.
     and_then (store_maybe_tick_tock b sp) (\<lambda>b.
     and_then (store_maybe_ref b code) (\<lambda>b. store_maybe_ref b data)))"

definition load_state_init_prefix ::
    "crates \<Rightarrow> slice \<Rightarrow> ((u8 option \<times> tick_tock option \<times> cell option \<times> cell option) \<times> slice) result" where
  "load_state_init_prefix X s =
     and_then (load_fixed_prefix X s) (\<lambda>(p, s).
     and_then (load_maybe_tick_tock s) (\<lambda>(sp, s).
     and_then (load_maybe_ref_cell s) (\<lambda>(code, s).
     and_then (load_maybe_ref_cell s) (\<lambda>(data, s). Inr ((p, sp, code, data), s)))))"

definition store_state_init_libs :: "crates \<Rightarrow> builder \<Rightarrow> state_init_libs \<Rightarrow> builder result" where
  "store_state_init_libs X b i =
     and_then (store_state_init_prefix X b (sl_fixed_prefix_length i) (sl_special i) (sl_code i) (sl_data i)
       ''StateInitWithLibs.fixed_prefix_length'') (\<lambda>b.
     if he_key_bits (sl_library i) \<noteq> STATE_INIT_LIBRARY_KEY_BITS
     then Inl (TlbErr (TlbCustomSchema ''StateInitWithLibs.library''))
     else store_hashmap_e_with b (sl_library i) store_simple_lib)"

definition load_state_init_libs :: "crates \<Rightarrow> slice \<Rightarrow> (state_init_libs \<times> slice) result" where
  "load_state_init_libs X s =
     and_then (load_state_init_prefix X s) (\<lambda>((p, sp, code, data), s).
     and_then (load_hashmap_e_with s STATE_INIT_LIBRARY_KEY_BITS load_simple_lib) (\<lambda>(lib, s).
     Inr (\<lparr>sl_fixed_prefix_length = p, sl_special = sp, sl_code = code, sl_data = data, sl_library = lib\<rparr>, s)))"

section \<open>Messages\<close>

datatype common_msg_info =
    MsgInternal (mi_ihr_disabled: bool) (mi_bounce: bool) (mi_bounced: bool) (mi_src: msg_address_int)
      (mi_dest: msg_address_int) (mi_value: currency_collection) (mi_extra_flags: nat) (mi_fwd_fee: grams)
      (mi_created_lt: u64) (mi_created_at: u32)
  | MsgExternalIn (me_src: msg_address_ext) (me_dest: msg_address_int) (me_import_fee: grams)
  | MsgExternalOut (mo_src: msg_address_int) (mo_dest: msg_address_ext) (mo_created_lt: u64) (mo_created_at: u32)

definition store_common_msg_info :: "crates \<Rightarrow> builder \<Rightarrow> common_msg_info \<Rightarrow> builder result" where
  "store_common_msg_info X b m = (case m of
      MsgInternal ihr_disabled bounce bounced src dest val extra_flags fwd_fee created_lt created_at \<Rightarrow>
        and_then (store_tag b ''0'') (\<lambda>b.
        and_then (store_bit b ihr_disabled) (\<lambda>b.
        and_then (store_bit b bounce) (\<lambda>b.
        and_then (store_bit b bounced) (\<lambda>b.
        and_then (store_msg_address_int X b src) (\<lambda>b.
        and_then (store_msg_address_int X b dest) (\<lambda>b.
        and_then (store_currency X b val) (\<lambda>b.
        and_then (store_var_uint_tlb X b extra_flags VAR_UINT_16_LEN_BITS) (\<lambda>b.
        and_then (store_grams X b fwd_fee) (\<lambda>b.
        and_then (store_u64 X b created_lt) (\<lambda>b. store_u32 X b created_at))))))))))
    | MsgExternalIn src dest import_fee \<Rightarrow>
        and_then (store_tag b ''10'') (\<lambda>b.
        and_then (store_msg_address_ext X b src) (\<lambda>b.
        and_then (store_msg_address_int X b dest) (\<lambda>b. store_grams X b import_fee)))
    | MsgExternalOut src dest created_lt created_at \<Rightarrow>
        and_then (store_tag b ''11'') (\<lambda>b.
        and_then (store_msg_address_int X b src) (\<lambda>b.
        and_then (store_msg_address_ext X b dest) (\<lambda>b.
        and_then (store_u64 X b created_lt) (\<lambda>b. store_u32 X b created_at)))))"

definition load_common_msg_info :: "crates \<Rightarrow> slice \<Rightarrow> (common_msg_info \<times> slice) result" where
  "load_common_msg_info X s = and_then (load_bit s) (\<lambda>(first, s).
     if \<not> first
     then and_then (load_bit s) (\<lambda>(ihr_disabled, s).
       and_then (load_bit s) (\<lambda>(bounce, s).
       and_then (load_bit s) (\<lambda>(bounced, s).
       and_then (load_msg_address_int X s) (\<lambda>(src, s).
       and_then (load_msg_address_int X s) (\<lambda>(dest, s).
       and_then (load_currency X s) (\<lambda>(val, s).
       and_then (load_var_uint_tlb X s VAR_UINT_16_LEN_BITS) (\<lambda>(extra_flags, s).
       and_then (load_grams X s) (\<lambda>(fwd_fee, s).
       and_then (load_u64 X s) (\<lambda>(created_lt, s).
       and_then (load_u32 X s) (\<lambda>(created_at, s).
       Inr (MsgInternal ihr_disabled bounce bounced src dest val extra_flags fwd_fee created_lt created_at, s)))))))))))
     else and_then (load_bit s) (\<lambda>(second, s).
       if second
       then and_then (load_msg_address_int X s) (\<lambda>(src, s).
         and_then (load_msg_address_ext X s) (\<lambda>(dest, s).
         and_then (load_u64 X s) (\<lambda>(created_lt, s).
         and_then (load_u32 X s) (\<lambda>(created_at, s). Inr (MsgExternalOut src dest created_lt created_at, s)))))
       else and_then (load_msg_address_ext X s) (\<lambda>(src, s).
         and_then (load_msg_address_int X s) (\<lambda>(dest, s).
         and_then (load_grams X s) (\<lambda>(import_fee, s). Inr (MsgExternalIn src dest import_fee, s))))))"

datatype common_msg_info_relaxed =
    RelaxedInternal bool bool bool msg_address msg_address_int currency_collection nat grams u64 u32
  | RelaxedExternalOut msg_address msg_address_ext u64 u32

definition store_common_msg_info_relaxed :: "crates \<Rightarrow> builder \<Rightarrow> common_msg_info_relaxed \<Rightarrow> builder result" where
  "store_common_msg_info_relaxed X b m = (case m of
      RelaxedInternal ihr_disabled bounce bounced src dest val extra_flags fwd_fee created_lt created_at \<Rightarrow>
        and_then (store_tag b ''0'') (\<lambda>b.
        and_then (store_bit b ihr_disabled) (\<lambda>b.
        and_then (store_bit b bounce) (\<lambda>b.
        and_then (store_bit b bounced) (\<lambda>b.
        and_then (store_msg_address X b src) (\<lambda>b.
        and_then (store_msg_address_int X b dest) (\<lambda>b.
        and_then (store_currency X b val) (\<lambda>b.
        and_then (store_var_uint_tlb X b extra_flags VAR_UINT_16_LEN_BITS) (\<lambda>b.
        and_then (store_grams X b fwd_fee) (\<lambda>b.
        and_then (store_u64 X b created_lt) (\<lambda>b. store_u32 X b created_at))))))))))
    | RelaxedExternalOut src dest created_lt created_at \<Rightarrow>
        and_then (store_tag b ''11'') (\<lambda>b.
        and_then (store_msg_address X b src) (\<lambda>b.
        and_then (store_msg_address_ext X b dest) (\<lambda>b.
        and_then (store_u64 X b created_lt) (\<lambda>b. store_u32 X b created_at)))))"

definition load_common_msg_info_relaxed :: "crates \<Rightarrow> slice \<Rightarrow> (common_msg_info_relaxed \<times> slice) result" where
  "load_common_msg_info_relaxed X s = and_then (load_bit s) (\<lambda>(first, s).
     if \<not> first
     then and_then (load_bit s) (\<lambda>(ihr_disabled, s).
       and_then (load_bit s) (\<lambda>(bounce, s).
       and_then (load_bit s) (\<lambda>(bounced, s).
       and_then (load_msg_address X s) (\<lambda>(src, s).
       and_then (load_msg_address_int X s) (\<lambda>(dest, s).
       and_then (load_currency X s) (\<lambda>(val, s).
       and_then (load_var_uint_tlb X s VAR_UINT_16_LEN_BITS) (\<lambda>(extra_flags, s).
       and_then (load_grams X s) (\<lambda>(fwd_fee, s).
       and_then (load_u64 X s) (\<lambda>(created_lt, s).
       and_then (load_u32 X s) (\<lambda>(created_at, s).
       Inr (RelaxedInternal ihr_disabled bounce bounced src dest val extra_flags fwd_fee created_lt created_at, s)))))))))))
     else and_then (load_bit s) (\<lambda>(second, s).
       if second
       then and_then (load_msg_address X s) (\<lambda>(src, s).
         and_then (load_msg_address_ext X s) (\<lambda>(dest, s).
         and_then (load_u64 X s) (\<lambda>(created_lt, s).
         and_then (load_u32 X s) (\<lambda>(created_at, s). Inr (RelaxedExternalOut src dest created_lt created_at, s)))))
       else Inl (TlbErr (TlbTagMismatch ''CommonMsgInfoRelaxed'' ''10''))))"

type_synonym message_init = "(state_init + state_init) option"
type_synonym message_body = "cell + cell"

definition store_message_init :: "crates \<Rightarrow> builder \<Rightarrow> message_init \<Rightarrow> builder result" where
  "store_message_init X b init = (case init of
      Some (Inl i) \<Rightarrow> and_then (store_bit b True) (\<lambda>b. and_then (store_bit b False) (\<lambda>b. store_state_init X b i))
    | Some (Inr i) \<Rightarrow> and_then (store_bit b True) (\<lambda>b. and_then (store_bit b True) (\<lambda>b.
        store_ref_tlb (store_state_init X) b i))
    | None \<Rightarrow> store_bit b False)"

definition load_message_init :: "crates \<Rightarrow> slice \<Rightarrow> (message_init \<times> slice) result" where
  "load_message_init X s = and_then (load_bit s) (\<lambda>(present, s).
     if present
     then and_then (load_bit s) (\<lambda>(right, s).
       if right then and_then (load_ref_tlb (load_state_init X) ''StateInit'' s) (\<lambda>(i, s). Inr (Some (Inr i), s))
       else and_then (load_state_init X s) (\<lambda>(i, s). Inr (Some (Inl i), s)))
     else Inr (None, s))"

definition store_message_body :: "builder \<Rightarrow> message_body \<Rightarrow> builder result" where
  "store_message_body b body = (case body of
      Inl c \<Rightarrow> and_then (store_bit b False) (\<lambda>b. store_cell b c)
    | Inr c \<Rightarrow> and_then (store_bit b True) (\<lambda>b. store_ref b c))"

definition load_message_body :: "slice \<Rightarrow> (message_body \<times> slice) result" where
  "load_message_body s = and_then (load_bit s) (\<lambda>(right, s).
     if right then and_then (load_reference s) (\<lambda>(c, s). Inr (Inr c, s))
     else and_then (load_remaining_as_cell s) (\<lambda>(c, s). Inr (Inl c, s)))"

record 'i message =
  msg_info :: 'i
  msg_init :: message_init
  msg_body :: message_body

definition store_message :: "crates \<Rightarrow> builder \<Rightarrow> common_msg_info message \<Rightarrow> builder result" where
  "store_message X b m =
     and_then (store_common_msg_info X b (msg_info m)) (\<lambda>b.
     and_then (store_message_init X b (msg_init m)) (\<lambda>b. store_message_body b (msg_body m)))"

definition load_message :: "crates \<Rightarrow> slice \<Rightarrow> (common_msg_info message \<times> slice) result" where
  "load_message X s =
     and_then (load_common_msg_info X s) (\<lambda>(info, s).
     and_then (load_message_init X s) (\<lambda>(init, s).
     and_then (load_message_body s) (\<lambda>(body, s).
     Inr (\<lparr>msg_info = info, msg_init = init, msg_body = body\<rparr>, s))))"

definition store_message_relaxed :: "crates \<Rightarrow> builder \<Rightarrow> common_msg_info_relaxed message \<Rightarrow> builder result" where
  "store_message_relaxed X b m =
     and_then (store_common_msg_info_relaxed X b (msg_info m)) (\<lambda>b.
     and_then (store_message_init X b (msg_init m)) (\<lambda>b. store_message_body b (msg_body m)))"

definition load_message_relaxed :: "crates \<Rightarrow> slice \<Rightarrow> (common_msg_info_relaxed message \<times> slice) result" where
  "load_message_relaxed X s =
     and_then (load_common_msg_info_relaxed X s) (\<lambda>(info, s).
     and_then (load_message_init X s) (\<lambda>(init, s).
     and_then (load_message_body s) (\<lambda>(body, s).
     Inr (\<lparr>msg_info = info, msg_init = init, msg_body = body\<rparr>, s))))"

section \<open>Bit strings\<close>

text \<open>Data that \<open>validate_bit_string\<close> accepts: no byte too many, and the unused bits of the last one zero.\<close>

definition bit_string :: "bytes \<Rightarrow> nat \<Rightarrow> bool" where
  "bit_string data n \<longleftrightarrow> length data = div_ceil n 8 \<and> pack (take n (bytes_bits data)) = data"

lemma validate_bit_string_eq: "validate_bit_string schema data n = Inr () \<longleftrightarrow> bit_string data n"
proof -
  have "validate_bit_string schema data n = Inr () \<longleftrightarrow> is_ok (bit_key_new data n)"
    by (simp add: validate_bit_string_def bit_key_new_def bits_to_bytes_def)
  then show ?thesis by (auto simp: bit_key_new_eq bit_string_def)
qed

lemma validate_bit_string_ok: "bit_string data n \<Longrightarrow> validate_bit_string schema data n = Inr ()"
  by (simp add: validate_bit_string_eq)

lemma bit_string_le: "bit_string data n \<Longrightarrow> n \<le> 8 * length data"
  using div_ceil_bounds(1)[of n] by (simp add: bit_string_def)

lemma store_bit_string:
  "bit_string data n \<Longrightarrow> length xs + n \<le> 1023 \<Longrightarrow>
    store_bits (mk_b xs rs) data n = Inr (mk_b (xs @ take n (bytes_bits data)) rs)"
  using bit_string_le[of data n] by (simp add: store_bits_mk)

lemma load_bit_string:
  "bit_string data n \<Longrightarrow> wf_slice s \<Longrightarrow> slice_bits s = take n (bytes_bits data) @ ys \<Longrightarrow>
    load_bits s n = Inr (data, adv s n 0)"
  using bit_string_le[of data n] by (simp add: load_bits_eq bit_string_def min_absorb2)

lemma length_bit_string: "bit_string data n \<Longrightarrow> length (take n (bytes_bits data)) = n"
  using bit_string_le[of data n] by simp

section \<open>Codecs of addresses\<close>

definition anycast_ok :: "anycast \<Rightarrow> bool" where
  "anycast_ok a \<longleftrightarrow> 1 \<le> any_depth a \<and> any_depth a \<le> 30 \<and> bit_string (rewrite_pfx a) (unat (any_depth a))"

definition anycast_bits :: "anycast \<Rightarrow> bool list" where
  "anycast_bits a = nat_bits 5 (unat (any_depth a)) @ take (unat (any_depth a)) (bytes_bits (rewrite_pfx a))"

context bignum
begin

lemma anycast_codec: "value_codec (store_anycast X) (load_anycast X) anycast_ok anycast_bits (\<lambda>_. [])"
proof unfold_locales
  fix a assume a: "anycast_ok a"
  then have d: "unat (any_depth a) \<le> 30" "bit_string (rewrite_pfx a) (unat (any_depth a))"
    by (simp_all add: anycast_ok_def word_le_nat_alt)
  note l = length_bit_string[OF d(2)]
  show "length xs + length (anycast_bits a) \<le> 1023 \<Longrightarrow>
      store_anycast X (mk_b xs rs) a = Inr (mk_b (xs @ anycast_bits a) (rs @ []))" for xs rs
    using a d l by (simp add: store_anycast_def anycast_bits_def validate_bit_string_ok store_uint_custom_mk
        store_bit_string anycast_ok_def word_less_nat_alt word_le_nat_alt)
  show "wf_slice s \<Longrightarrow> slice_bits s = anycast_bits a @ ys \<Longrightarrow>
      load_anycast X s = Inr (a, adv s (length (anycast_bits a)) (length []))" for s ys
    using a d l load_uint_custom_append[of s 5 "any_depth a"]
    by (simp add: load_anycast_def anycast_bits_def load_bit_string wf_adv anycast_ok_def word_less_nat_alt word_le_nat_alt)
qed

lemmas maybe_anycast_codec = maybe_codec[OF anycast_codec]

end

lemma two_bit_tag_yields [fields]:
  "yields (\<lambda>s. load_two_bit_tag s constructor) [if u then CHR ''1'' else CHR ''0'', if v then CHR ''1'' else CHR ''0''] [u, v] []"
  by (auto simp: yields_def load_two_bit_tag_def numeral_2_eq_2 load_bit_eq wf_adv)

lemma maybe_eqs:
  "store_maybe_anycast X = store_maybe (store_anycast X)" "load_maybe_anycast X = load_maybe (load_anycast X)"
  "store_maybe_tick_tock = store_maybe store_tick_tock" "load_maybe_tick_tock = load_maybe load_tick_tock"
  "load_maybe_ref_cell = load_maybe load_reference"
  by (simp_all add: fun_eq_iff store_maybe_def load_maybe_def store_maybe_anycast_def load_maybe_anycast_def
      store_maybe_tick_tock_def load_maybe_tick_tock_def load_maybe_ref_cell_def)

definition bit_string_bits :: "bytes \<Rightarrow> nat \<Rightarrow> bool list" where
  "bit_string_bits data n = take n (bytes_bits data)"

lemma bit_string_steps [fields]:
  assumes "bit_string data n"
  shows "emits (\<lambda>b. store_bits b data n) (bit_string_bits data n) []"
    "yields (\<lambda>s. load_bits s n) data (bit_string_bits data n) []"
  using assms length_bit_string[OF assms]
  by (simp_all add: emits_def yields_def store_bit_string load_bit_string bit_string_bits_def)

lemma validate_emits:
  "bit_string data n \<Longrightarrow> emits f ys qs \<Longrightarrow> emits (\<lambda>b. and_then (validate_bit_string schema data n) (\<lambda>_. f b)) ys qs"
  by (simp add: validate_bit_string_ok)

fun msg_address_int_ok :: "msg_address_int \<Rightarrow> bool" where
  "msg_address_int_ok (AddrStd any a) \<longleftrightarrow> pred_option anycast_ok any \<and> length (hash_part a) = 32
     \<and> a = new_address (workchain a) (hash_part a)"
| "msg_address_int_ok (AddrVar any wc data n) \<longleftrightarrow> pred_option anycast_ok any \<and> n \<le> 511 \<and> bit_string data n"

fun msg_address_int_bits :: "msg_address_int \<Rightarrow> bool list" where
  "msg_address_int_bits (AddrStd any a) = [True, False] @ maybe_bits anycast_bits any
     @ nat_bits 8 (unat (workchain a)) @ bytes_bits (hash_part a)"
| "msg_address_int_bits (AddrVar any wc data n) = [True, True] @ maybe_bits anycast_bits any
     @ nat_bits 9 n @ nat_bits 32 (unat wc) @ bit_string_bits data n"

fun msg_address_ext_ok :: "msg_address_ext \<Rightarrow> bool" where
  "msg_address_ext_ok AddrNone \<longleftrightarrow> True"
| "msg_address_ext_ok (AddrExtern data n) \<longleftrightarrow> n \<le> 511 \<and> bit_string data n"

fun msg_address_ext_bits :: "msg_address_ext \<Rightarrow> bool list" where
  "msg_address_ext_bits AddrNone = [False, False]"
| "msg_address_ext_bits (AddrExtern data n) = [False, True] @ nat_bits 9 n @ bit_string_bits data n"

fun msg_address_ok :: "msg_address \<Rightarrow> bool" where
  "msg_address_ok (AddrInt a) \<longleftrightarrow> msg_address_int_ok a"
| "msg_address_ok (AddrExt a) \<longleftrightarrow> msg_address_ext_ok a"

fun msg_address_bits :: "msg_address \<Rightarrow> bool list" where
  "msg_address_bits (AddrInt a) = msg_address_int_bits a"
| "msg_address_bits (AddrExt a) = msg_address_ext_bits a"

context bignum
begin

declare maybe_anycast_codec [THEN codec_emits, fields] maybe_anycast_codec [THEN codec_yields, fields]

lemma len9_steps:
  assumes "n \<le> 511"
  shows "emits (\<lambda>b. store_uint_custom X b (word_of_nat n :: u16) 9) (nat_bits 9 n) []"
    "yields (\<lambda>s. load_uint_custom X s 9) (word_of_nat n :: u16) (nat_bits 9 n) []"
  using assms uint_custom_steps[of 9 "word_of_nat n :: u16"] by (simp_all add: unat_word_of_nat)

lemma len9_yields:
  assumes "n \<le> 511" "yields (g n) v ys qs"
  shows "yields (\<lambda>s. and_then (load_uint_custom X s 9) (\<lambda>(w :: u16, s). let bit_len = unat w in g bit_len s)) v (nat_bits 9 n @ ys) qs"
proof (rule yields_bind[OF len9_steps(2)[OF assms(1)]])
  have "unat (word_of_nat n :: u16) = n" using assms(1) by (simp add: unat_word_of_nat)
  then show "yields (\<lambda>s. let bit_len = unat (word_of_nat n :: u16) in g bit_len s) v ys qs" using assms(2) by simp
qed simp

lemma addr_std_yields:
  "msg_address_int_ok (AddrStd any a) \<Longrightarrow> yields (load_addr_std X) (AddrStd any a)
    (maybe_bits anycast_bits any @ nat_bits 8 (unat (workchain a)) @ bytes_bits (hash_part a)) []"
  unfolding load_addr_std_def maybe_eqs by (rule fields | (simp; fail))+

lemma addr_var_yields:
  "msg_address_int_ok (AddrVar any wc data n) \<Longrightarrow> yields (load_addr_var X) (AddrVar any wc data n)
    (maybe_bits anycast_bits any @ nat_bits 9 n @ nat_bits 32 (unat wc) @ bit_string_bits data n) []"
  unfolding load_addr_var_def maybe_eqs by (rule len9_yields fields | (simp; fail))+

lemma addr_extern_yields:
  "msg_address_ext_ok (AddrExtern data n) \<Longrightarrow> yields (load_addr_extern X) (AddrExtern data n)
    (nat_bits 9 n @ bit_string_bits data n) []"
  unfolding load_addr_extern_def by (rule len9_yields fields | (simp; fail))+

lemmas address_steps = addr_std_yields addr_var_yields addr_extern_yields

lemma msg_address_int_codec:
  "value_codec (store_msg_address_int X) (load_msg_address_int X) msg_address_int_ok msg_address_int_bits (\<lambda>_. [])"
proof (rule codecI)
  show "emits (\<lambda>b. store_msg_address_int X b m) (msg_address_int_bits m) []" if "msg_address_int_ok m" for m
  proof (cases m)
    case (AddrStd any a)
    with that show ?thesis unfolding AddrStd store_msg_address_int_def msg_address_int.case maybe_eqs
      by - (rule emits_eq, (rule fields | (simp; fail))+)
  next
    case (AddrVar any wc data n)
    with that show ?thesis unfolding AddrVar store_msg_address_int_def msg_address_int.case maybe_eqs
      by - (rule emits_eq, (rule validate_emits emits_guard len9_steps fields | (simp; fail))+)
  qed
  show "yields (load_msg_address_int X) m (msg_address_int_bits m) []" if "msg_address_int_ok m" for m
    using that unfolding load_msg_address_int_def
    by (cases m) (simp_all only: msg_address_int_bits.simps,
      (rule yields_if(1), (simp; fail) | rule yields_if(2), (simp; fail) | rule address_steps fields | (simp; fail))+)
qed

lemma msg_address_ext_codec:
  "value_codec (store_msg_address_ext X) (load_msg_address_ext X) msg_address_ext_ok msg_address_ext_bits (\<lambda>_. [])"
proof (rule codecI)
  show "emits (\<lambda>b. store_msg_address_ext X b m) (msg_address_ext_bits m) []" if "msg_address_ext_ok m" for m
    using that unfolding store_msg_address_ext_def
    by (cases m) (simp_all only: msg_address_ext.case,
      (rule emits_eq, (rule validate_emits emits_guard len9_steps fields | (simp; fail))+)+)
  show "yields (load_msg_address_ext X) m (msg_address_ext_bits m) []" if "msg_address_ext_ok m" for m
  proof (cases m)
    case AddrNone
    have "yields (load_msg_address_ext X) AddrNone ([False, False] @ []) []"
      unfolding load_msg_address_ext_def by (rule yields_if(1), (simp; fail) | rule fields | (simp; fail))+
    then show ?thesis using AddrNone by simp
  next
    case (AddrExtern data n)
    with that show ?thesis unfolding AddrExtern load_msg_address_ext_def msg_address_ext_bits.simps
      by - (rule yields_if(1), (simp; fail) | rule yields_if(2), (simp; fail) | rule address_steps fields | (simp; fail))+
  qed
qed

lemma msg_address_codec:
  "value_codec (store_msg_address X) (load_msg_address X) msg_address_ok msg_address_bits (\<lambda>_. [])"
proof (rule codecI)
  note e = codec_emits[OF msg_address_int_codec] codec_emits[OF msg_address_ext_codec]
  show "emits (\<lambda>b. store_msg_address X b m) (msg_address_bits m) []" if "msg_address_ok m" for m
    using that e by (cases m) (simp_all add: store_msg_address_def)
  show "yields (load_msg_address X) m (msg_address_bits m) []" if "msg_address_ok m" for m
  proof (cases "m = AddrExt AddrNone")
    case True
    have "yields (load_msg_address X) (AddrExt AddrNone) ([False, False] @ []) []"
      unfolding load_msg_address_def by (rule yields_if(1), (simp; fail) | rule fields | (simp; fail))+
    then show ?thesis using True by simp
  next
    case False
    then consider any a where "m = AddrInt (AddrStd any a)" | any wc data n where "m = AddrInt (AddrVar any wc data n)"
      | data n where "m = AddrExt (AddrExtern data n)"
      by (metis msg_address.exhaust msg_address_int.exhaust msg_address_ext.exhaust)
    then show ?thesis using that unfolding load_msg_address_def
      by cases (simp_all only: msg_address_int_bits.simps msg_address_ext_bits.simps msg_address_bits.simps msg_address_ok.simps,
        (rule yields_if(1), (simp; fail) | rule yields_if(2), (simp; fail)
          | rule yields_last address_steps fields | (simp; fail))+)
  qed
qed

end

section \<open>Codecs of amounts and state inits\<close>

definition grams_ok :: "grams \<Rightarrow> bool" where
  "grams_ok g \<longleftrightarrow> var_len g < 16"

definition currency_ok :: "currency_collection \<Rightarrow> bool" where
  "currency_ok v \<longleftrightarrow> grams_ok (cc_grams v) \<and> dict_ok 32 (\<lambda>v. var_len v < 32) (var_enc 5) (\<lambda>_. []) (cc_other v)"

definition currency_bits :: "currency_collection \<Rightarrow> bool list" where
  "currency_bits v = var_enc 4 (cc_grams v) @ [he_map (cc_other v) \<noteq> []]"

definition currency_refs :: "crates \<Rightarrow> currency_collection \<Rightarrow> cell list" where
  "currency_refs X v = dict_refs (\<lambda>b v. store_var_big_uint X b v 5) (cc_other v)"

definition tick_tock_bits :: "tick_tock \<Rightarrow> bool list" where
  "tick_tock_bits t = [tick t] @ [tock t]"

abbreviation cell_option_bits :: "cell option \<Rightarrow> bool list" where
  "cell_option_bits \<equiv> maybe_bits (\<lambda>_. [])"

abbreviation cell_option_refs :: "cell option \<Rightarrow> cell list" where
  "cell_option_refs \<equiv> maybe_refs (\<lambda>c. [c])"

definition prefix_ok :: "u8 option \<Rightarrow> bool" where
  "prefix_ok p = pred_option (\<lambda>v. v < 32) p"

definition prefix_bits :: "u8 option \<Rightarrow> bool list" where
  "prefix_bits = maybe_bits (\<lambda>v. nat_bits 5 (unat v))"

definition state_init_ok :: "state_init \<Rightarrow> bool" where
  "state_init_ok i \<longleftrightarrow> prefix_ok (si_fixed_prefix_length i)"

definition state_init_bits :: "state_init \<Rightarrow> bool list" where
  "state_init_bits i = prefix_bits (si_fixed_prefix_length i) @ maybe_bits tick_tock_bits (si_special i)
     @ cell_option_bits (si_code i) @ cell_option_bits (si_data i) @ cell_option_bits (si_library i)"

definition state_init_refs :: "state_init \<Rightarrow> cell list" where
  "state_init_refs i = cell_option_refs (si_code i) @ cell_option_refs (si_data i) @ cell_option_refs (si_library i)"

definition simple_lib_bits :: "simple_lib \<Rightarrow> bool list" where
  "simple_lib_bits l = [lib_public l] @ []"

definition simple_lib_refs :: "simple_lib \<Rightarrow> cell list" where
  "simple_lib_refs l = [lib_root l]"

definition state_init_libs_ok :: "state_init_libs \<Rightarrow> bool" where
  "state_init_libs_ok i \<longleftrightarrow> prefix_ok (sl_fixed_prefix_length i)
     \<and> dict_ok 256 (\<lambda>_. True) simple_lib_bits simple_lib_refs (sl_library i)"

definition state_init_libs_bits :: "state_init_libs \<Rightarrow> bool list" where
  "state_init_libs_bits i = prefix_bits (sl_fixed_prefix_length i) @ maybe_bits tick_tock_bits (sl_special i)
     @ cell_option_bits (sl_code i) @ cell_option_bits (sl_data i) @ [he_map (sl_library i) \<noteq> []]"

definition state_init_libs_refs :: "state_init_libs \<Rightarrow> cell list" where
  "state_init_libs_refs i = cell_option_refs (sl_code i) @ cell_option_refs (sl_data i)
     @ dict_refs store_simple_lib (sl_library i)"

lemma tick_tock_codec: "value_codec store_tick_tock load_tick_tock (\<lambda>_. True) tick_tock_bits (\<lambda>_. [])"
proof (rule codecI)
  show "emits (\<lambda>b. store_tick_tock b t) (tick_tock_bits t) []" for t
    unfolding store_tick_tock_def by (rule emits_eq, (rule fields)+) (simp_all add: tick_tock_bits_def)
  show "yields load_tick_tock t (tick_tock_bits t) []" for t
    unfolding load_tick_tock_def tick_tock_bits_def by (rule fields | (simp; fail))+
qed

lemma simple_lib_codec: "value_codec store_simple_lib load_simple_lib (\<lambda>_. True) simple_lib_bits simple_lib_refs"
proof (rule codecI)
  show "emits (\<lambda>b. store_simple_lib b l) (simple_lib_bits l) (simple_lib_refs l)" for l
    unfolding store_simple_lib_def by (rule emits_eq, (rule fields)+) (simp_all add: simple_lib_bits_def simple_lib_refs_def)
  show "yields load_simple_lib l (simple_lib_bits l) (simple_lib_refs l)" for l
    unfolding load_simple_lib_def simple_lib_bits_def simple_lib_refs_def
    by (rule ref_steps(2)[of "lib_root l"] fields | (simp; fail))+
qed

lemmas maybe_cell_codec = maybe_codec[OF ref_codec.value_codec_axioms]
lemmas maybe_tick_tock_codec = maybe_codec[OF tick_tock_codec]

declare maybe_tick_tock_codec [THEN codec_emits, fields] maybe_tick_tock_codec [THEN codec_yields, fields]
  maybe_cell_codec [THEN codec_yields, fields]

context bignum
begin

declare msg_address_int_codec [THEN codec_emits, fields] msg_address_int_codec [THEN codec_yields, fields]
  msg_address_ext_codec [THEN codec_emits, fields] msg_address_ext_codec [THEN codec_yields, fields]
  msg_address_codec [THEN codec_emits, fields] msg_address_codec [THEN codec_yields, fields]

lemma grams_steps [fields]:
  assumes "grams_ok g"
  shows "emits (\<lambda>b. store_grams X b g) (var_enc 4 g) []" "yields (load_grams X) g (var_enc 4 g) []"
  using var_uint_steps[of 4 g] assms unfolding store_grams_def load_grams_def VAR_UINT_16_LEN_BITS_def grams_ok_def
  by (simp_all add: emits_def yields_def)

lemma currency_codec: "value_codec (store_currency X) (load_currency X) currency_ok currency_bits (currency_refs X)"
proof -
  have "value_codec (\<lambda>b v. store_var_big_uint X b v 5) (\<lambda>s. load_var_uint_tlb X s 5)
      (\<lambda>v. var_len v < 32) (var_enc 5) (\<lambda>_. [])"
    using var_uint_tlb_codec[of 5] by (simp add: store_var_uint_tlb_def)
  note d = hashmap_codec[OF this, of 32]
  note steps = codec_emits[OF d] codec_yields[OF d]
  show ?thesis
  proof (rule codecI)
    show "emits (\<lambda>b. store_currency X b v) (currency_bits v) (currency_refs X v)" if "currency_ok v" for v
      using that unfolding store_currency_def EXTRA_CURRENCY_KEY_BITS_def VAR_UINT_32_LEN_BITS_def
      by - (rule emits_eq, (rule emits_guard steps fields
          | (simp add: currency_ok_def currency_bits_def currency_refs_def dict_ok_def; fail))+)
    show "yields (load_currency X) v (currency_bits v) (currency_refs X v)" if "currency_ok v" for v
      using that unfolding load_currency_def EXTRA_CURRENCY_KEY_BITS_def VAR_UINT_32_LEN_BITS_def currency_bits_def currency_refs_def
      by - (rule steps fields | (simp add: currency_ok_def; fail))+
  qed
qed

lemma fixed_prefix_steps [fields]:
  assumes "prefix_ok p"
  shows "emits (\<lambda>b. store_fixed_prefix X schema b p) (prefix_bits p) []" "yields (load_fixed_prefix X) p (prefix_bits p) []"
proof -
  let ?st = "\<lambda>b (v :: u8). store_uint_custom X b v 5" and ?ld = "\<lambda>s. load_uint_custom X s 5 :: (u8 \<times> slice) result"
  have c: "value_codec (store_maybe ?st) (load_maybe ?ld) (pred_option (\<lambda>v. unat v < 2 ^ 5)) prefix_bits (maybe_refs (\<lambda>_. []))"
    unfolding prefix_bits_def by (rule maybe_codec[OF uint_custom_codec]) simp_all
  have ok: "pred_option (\<lambda>v. unat v < 2 ^ 5) p" "\<forall>v. p = Some v \<longrightarrow> \<not> 32 \<le> v"
    using assms by (cases p; simp add: prefix_ok_def word_less_nat_alt word_le_nat_alt)+
  have "store_fixed_prefix X schema b p = store_maybe ?st b p" for b
    using ok(2) by (cases p) (simp_all add: store_fixed_prefix_def store_maybe_def)
  then show "emits (\<lambda>b. store_fixed_prefix X schema b p) (prefix_bits p) []"
    using codec_emits[OF c ok(1)] by simp
  have "load_fixed_prefix X = load_maybe ?ld" by (simp add: fun_eq_iff load_fixed_prefix_def load_maybe_def)
  then show "yields (load_fixed_prefix X) p (prefix_bits p) []" using codec_yields[OF c ok(1)] by simp
qed

lemma state_init_codec: "value_codec (store_state_init X) (load_state_init X) state_init_ok state_init_bits state_init_refs"
proof (rule codecI)
  show "emits (\<lambda>b. store_state_init X b i) (state_init_bits i) (state_init_refs i)" if "state_init_ok i" for i
    using that unfolding store_state_init_def maybe_eqs state_init_ok_def
    by - (rule emits_eq, (rule fields | (simp add: state_init_bits_def state_init_refs_def option.pred_True; fail))+)
  show "yields (load_state_init X) i (state_init_bits i) (state_init_refs i)" if "state_init_ok i" for i
    using that unfolding load_state_init_def maybe_eqs state_init_ok_def state_init_bits_def
    by - (rule fields | (simp add: state_init_refs_def option.pred_True; fail))+
qed

lemma state_init_prefix_steps:
  assumes "prefix_ok p"
  shows "emits (\<lambda>b. store_state_init_prefix X b p sp code data schema)
      (prefix_bits p @ maybe_bits tick_tock_bits sp @ cell_option_bits code @ cell_option_bits data)
      (cell_option_refs code @ cell_option_refs data)" (is ?e)
    "yields (load_state_init_prefix X) (p, sp, code, data)
      (prefix_bits p @ maybe_bits tick_tock_bits sp @ cell_option_bits code @ cell_option_bits data)
      (cell_option_refs code @ cell_option_refs data)" (is ?y)
proof -
  show ?e unfolding store_state_init_prefix_def maybe_eqs using assms
    by - (rule emits_eq, (rule fields | (simp add: option.pred_True; fail))+)
  show ?y unfolding load_state_init_prefix_def maybe_eqs using assms
    by - (rule fields | (simp add: option.pred_True; fail))+
qed

lemma state_init_libs_codec:
  "value_codec (store_state_init_libs X) (load_state_init_libs X) state_init_libs_ok state_init_libs_bits state_init_libs_refs"
proof -
  note d = hashmap_codec[OF simple_lib_codec, of 256]
  note steps = codec_emits[OF d] codec_yields[OF d]
  show ?thesis
  proof (rule codecI)
    show "emits (\<lambda>b. store_state_init_libs X b i) (state_init_libs_bits i) (state_init_libs_refs i)"
      if "state_init_libs_ok i" for i
      using that unfolding store_state_init_libs_def STATE_INIT_LIBRARY_KEY_BITS_def state_init_libs_ok_def
      by - (rule emits_eq, (rule state_init_prefix_steps steps emits_guard fields
          | (simp add: state_init_libs_bits_def state_init_libs_refs_def dict_ok_def; fail))+)
    show "yields (load_state_init_libs X) i (state_init_libs_bits i) (state_init_libs_refs i)"
      if "state_init_libs_ok i" for i
    proof -
      have "yields (load_state_init_libs X) i
          ((prefix_bits (sl_fixed_prefix_length i) @ maybe_bits tick_tock_bits (sl_special i)
            @ cell_option_bits (sl_code i) @ cell_option_bits (sl_data i)) @ [he_map (sl_library i) \<noteq> []])
          (state_init_libs_refs i)"
        using that unfolding load_state_init_libs_def STATE_INIT_LIBRARY_KEY_BITS_def state_init_libs_ok_def
        by - (rule yields_bind state_init_prefix_steps steps fields | simp only: prod.case | (simp add: state_init_libs_refs_def; fail))+
      then show ?thesis by (simp add: state_init_libs_bits_def)
    qed
  qed
qed

end

section \<open>Codecs of messages\<close>

fun common_msg_info_ok :: "common_msg_info \<Rightarrow> bool" where
  "common_msg_info_ok (MsgInternal ihr_disabled bounce bounced src dest val extra_flags fwd_fee created_lt created_at) \<longleftrightarrow>
     msg_address_int_ok src \<and> msg_address_int_ok dest \<and> currency_ok val \<and> grams_ok extra_flags \<and> grams_ok fwd_fee"
| "common_msg_info_ok (MsgExternalIn src dest import_fee) \<longleftrightarrow>
     msg_address_ext_ok src \<and> msg_address_int_ok dest \<and> grams_ok import_fee"
| "common_msg_info_ok (MsgExternalOut src dest created_lt created_at) \<longleftrightarrow> msg_address_int_ok src \<and> msg_address_ext_ok dest"

fun common_msg_info_bits :: "common_msg_info \<Rightarrow> bool list" where
  "common_msg_info_bits (MsgInternal ihr_disabled bounce bounced src dest val extra_flags fwd_fee created_lt created_at) =
     [False] @ [ihr_disabled] @ [bounce] @ [bounced] @ msg_address_int_bits src @ msg_address_int_bits dest
     @ currency_bits val @ var_enc 4 extra_flags @ var_enc 4 fwd_fee @ nat_bits 64 (unat created_lt)
     @ nat_bits 32 (unat created_at)"
| "common_msg_info_bits (MsgExternalIn src dest import_fee) =
     [True] @ [False] @ msg_address_ext_bits src @ msg_address_int_bits dest @ var_enc 4 import_fee"
| "common_msg_info_bits (MsgExternalOut src dest created_lt created_at) =
     [True] @ [True] @ msg_address_int_bits src @ msg_address_ext_bits dest @ nat_bits 64 (unat created_lt)
     @ nat_bits 32 (unat created_at)"

fun common_msg_info_refs :: "crates \<Rightarrow> common_msg_info \<Rightarrow> cell list" where
  "common_msg_info_refs X (MsgInternal _ _ _ _ _ val _ _ _ _) = currency_refs X val"
| "common_msg_info_refs X _ = []"

fun relaxed_info_ok :: "common_msg_info_relaxed \<Rightarrow> bool" where
  "relaxed_info_ok (RelaxedInternal ihr_disabled bounce bounced src dest val extra_flags fwd_fee created_lt created_at) \<longleftrightarrow>
     msg_address_ok src \<and> msg_address_int_ok dest \<and> currency_ok val \<and> grams_ok extra_flags \<and> grams_ok fwd_fee"
| "relaxed_info_ok (RelaxedExternalOut src dest created_lt created_at) \<longleftrightarrow> msg_address_ok src \<and> msg_address_ext_ok dest"

fun relaxed_info_bits :: "common_msg_info_relaxed \<Rightarrow> bool list" where
  "relaxed_info_bits (RelaxedInternal ihr_disabled bounce bounced src dest val extra_flags fwd_fee created_lt created_at) =
     [False] @ [ihr_disabled] @ [bounce] @ [bounced] @ msg_address_bits src @ msg_address_int_bits dest
     @ currency_bits val @ var_enc 4 extra_flags @ var_enc 4 fwd_fee @ nat_bits 64 (unat created_lt)
     @ nat_bits 32 (unat created_at)"
| "relaxed_info_bits (RelaxedExternalOut src dest created_lt created_at) =
     [True] @ [True] @ msg_address_bits src @ msg_address_ext_bits dest @ nat_bits 64 (unat created_lt)
     @ nat_bits 32 (unat created_at)"

fun relaxed_info_refs :: "crates \<Rightarrow> common_msg_info_relaxed \<Rightarrow> cell list" where
  "relaxed_info_refs X (RelaxedInternal _ _ _ _ _ val _ _ _ _) = currency_refs X val"
| "relaxed_info_refs X _ = []"

context bignum
begin

declare currency_codec [THEN codec_emits, fields] currency_codec [THEN codec_yields, fields]
  state_init_codec [THEN codec_emits, fields] state_init_codec [THEN codec_yields, fields]

lemma extra_flags_steps:
  assumes "grams_ok g"
  shows "emits (\<lambda>b. store_var_uint_tlb X b g VAR_UINT_16_LEN_BITS) (var_enc 4 g) []"
    "yields (\<lambda>s. load_var_uint_tlb X s VAR_UINT_16_LEN_BITS) g (var_enc 4 g) []"
  using var_uint_steps[of 4 g] assms by (simp_all add: VAR_UINT_16_LEN_BITS_def grams_ok_def)

lemma common_msg_info_codec:
  "value_codec (store_common_msg_info X) (load_common_msg_info X) common_msg_info_ok common_msg_info_bits (common_msg_info_refs X)"
proof (rule codecI)
  show "emits (\<lambda>b. store_common_msg_info X b m) (common_msg_info_bits m) (common_msg_info_refs X m)"
    if "common_msg_info_ok m" for m
    using that unfolding store_common_msg_info_def
    by (cases m) (simp_all only: common_msg_info.case common_msg_info_ok.simps,
      (rule emits_eq, (rule extra_flags_steps fields | (simp; fail))+)+)
  show "yields (load_common_msg_info X) m (common_msg_info_bits m) (common_msg_info_refs X m)"
    if "common_msg_info_ok m" for m
    using that unfolding load_common_msg_info_def
    by (cases m) (simp_all only: common_msg_info_bits.simps common_msg_info_ok.simps common_msg_info_refs.simps,
      (rule yields_if(1), (simp; fail) | rule yields_if(2), (simp; fail) | rule extra_flags_steps fields | (simp; fail))+)
qed

lemma relaxed_info_codec:
  "value_codec (store_common_msg_info_relaxed X) (load_common_msg_info_relaxed X) relaxed_info_ok relaxed_info_bits
    (relaxed_info_refs X)"
proof (rule codecI)
  show "emits (\<lambda>b. store_common_msg_info_relaxed X b m) (relaxed_info_bits m) (relaxed_info_refs X m)"
    if "relaxed_info_ok m" for m
    using that unfolding store_common_msg_info_relaxed_def
    by (cases m) (simp_all only: common_msg_info_relaxed.case relaxed_info_ok.simps,
      (rule emits_eq, (rule extra_flags_steps fields | (simp; fail))+)+)
  show "yields (load_common_msg_info_relaxed X) m (relaxed_info_bits m) (relaxed_info_refs X m)"
    if "relaxed_info_ok m" for m
    using that unfolding load_common_msg_info_relaxed_def
    by (cases m) (simp_all only: relaxed_info_bits.simps relaxed_info_ok.simps relaxed_info_refs.simps,
      (rule yields_if(1), (simp; fail) | rule yields_if(2), (simp; fail) | rule extra_flags_steps fields | (simp; fail))+)
qed

end

fun message_init_ok :: "message_init \<Rightarrow> bool" where
  "message_init_ok None \<longleftrightarrow> True"
| "message_init_ok (Some (Inl i)) \<longleftrightarrow> state_init_ok i"
| "message_init_ok (Some (Inr i)) \<longleftrightarrow> state_init_ok i"

fun message_init_bits :: "message_init \<Rightarrow> bool list" where
  "message_init_bits None = [False] @ []"
| "message_init_bits (Some (Inl i)) = [True] @ [False] @ state_init_bits i"
| "message_init_bits (Some (Inr i)) = [True] @ [True] @ []"

fun message_init_refs :: "message_init \<Rightarrow> cell list" where
  "message_init_refs None = []"
| "message_init_refs (Some (Inl i)) = state_init_refs i"
| "message_init_refs (Some (Inr i)) = [mk_cell (state_init_bits i) (state_init_refs i)]"

fun message_body_ok :: "message_body \<Rightarrow> bool" where
  "message_body_ok (Inl c) \<longleftrightarrow> wf_cell c \<and> cell_exotic c = None"
| "message_body_ok (Inr c) \<longleftrightarrow> True"

fun message_body_bits :: "message_body \<Rightarrow> bool list" where
  "message_body_bits (Inl c) = [False] @ cell_bits c"
| "message_body_bits (Inr c) = [True] @ []"

fun message_body_refs :: "message_body \<Rightarrow> cell list" where
  "message_body_refs (Inl c) = cell_references c"
| "message_body_refs (Inr c) = [c]"

text \<open>A state init always fits a cell of its own.\<close>

lemma state_init_fits: "length (state_init_bits i) \<le> 1023" "length (state_init_refs i) \<le> 4"
  by (auto simp: state_init_bits_def state_init_refs_def prefix_bits_def maybe_bits_def maybe_refs_def tick_tock_bits_def
      split: option.splits)

lemma skip_eqs:
  "wf_slice s \<Longrightarrow> n \<le> length (slice_bits s) \<Longrightarrow> skip_bits s n = Inr (adv s n 0)"
  "n \<le> length (slice_refs s) \<Longrightarrow> skip_refs s n = Inr (adv s 0 n)"
  by (simp_all add: skip_bits_def skip_refs_def remaining_bits_eq remaining_refs_eq adv_def)

lemma remaining_cell_ends:
  assumes "wf_cell c" "cell_exotic c = None"
  shows "ends load_remaining_as_cell c (cell_bits c) (cell_references c)"
  unfolding ends_def
proof (intro allI impI)
  fix s assume s: "wf_slice s" "slice_bits s = cell_bits c" "slice_refs s = cell_references c"
  have c: "length (cell_bits c) \<le> 1023" "length (cell_references c) \<le> 4" "mk_cell (cell_bits c) (cell_references c) = c"
    using assms wf_cell_bounds[of c] wf_ordinary_eq[of c] by auto
  show "load_remaining_as_cell s = Inr (c, adv s (length (cell_bits c)) (length (cell_references c)))"
    using s c by (simp add: load_remaining_as_cell_def Let_def clone_from_current_eq builder_new_eq store_slice_mk
        builder_build_mk skip_eqs remaining_bits_eq remaining_refs_eq)
qed

lemma message_body_codec: "tail_codec store_message_body load_message_body message_body_ok message_body_bits message_body_refs"
proof (rule tail_codecI)
  have cell: "emits (\<lambda>b. store_cell b c) (cell_bits c) (cell_references c)" if "wf_cell c" for c
    using that by (simp add: emits_def store_cell_mk)
  show "emits (\<lambda>b. store_message_body b m) (message_body_bits m) (message_body_refs m)" if "message_body_ok m" for m
    using that unfolding store_message_body_def
    by (cases m) (simp_all only: sum.case message_body_ok.simps, (rule emits_eq, (rule cell fields | (simp; fail))+)+)
  show "ends load_message_body m (message_body_bits m) (message_body_refs m)" if "message_body_ok m" for m
  proof (cases m)
    case (Inl c)
    with that show ?thesis unfolding Inl load_message_body_def message_body_bits.simps
      by - (rule ends_bind[OF bit_steps(2)[of False]], simp_all add: ends_last[OF remaining_cell_ends])
  next
    case (Inr c)
    have "yields (\<lambda>s. and_then (load_reference s) (\<lambda>(c, s). Inr (Inr c :: message_body, s))) (Inr c) [] [c]"
      by (rule yields_last[OF ref_steps(2)]) simp
    then have "ends (\<lambda>s. and_then (load_reference s) (\<lambda>(c, s). Inr (Inr c :: message_body, s))) (Inr c) [] [c]"
      by (rule yields_ends)
    then show ?thesis unfolding Inr load_message_body_def message_body_bits.simps
      by - (rule ends_bind[OF bit_steps(2)[of True]], simp_all)
  qed
qed

definition message_ok :: "common_msg_info message \<Rightarrow> bool" where
  "message_ok m \<longleftrightarrow> common_msg_info_ok (msg_info m) \<and> message_init_ok (msg_init m) \<and> message_body_ok (msg_body m)"

definition message_bits :: "common_msg_info message \<Rightarrow> bool list" where
  "message_bits m = common_msg_info_bits (msg_info m) @ message_init_bits (msg_init m) @ message_body_bits (msg_body m)"

definition message_refs :: "crates \<Rightarrow> common_msg_info message \<Rightarrow> cell list" where
  "message_refs X m = common_msg_info_refs X (msg_info m) @ message_init_refs (msg_init m) @ message_body_refs (msg_body m)"

definition relaxed_ok :: "common_msg_info_relaxed message \<Rightarrow> bool" where
  "relaxed_ok m \<longleftrightarrow> relaxed_info_ok (msg_info m) \<and> message_init_ok (msg_init m) \<and> message_body_ok (msg_body m)"

definition relaxed_bits :: "common_msg_info_relaxed message \<Rightarrow> bool list" where
  "relaxed_bits m = relaxed_info_bits (msg_info m) @ message_init_bits (msg_init m) @ message_body_bits (msg_body m)"

definition relaxed_refs :: "crates \<Rightarrow> common_msg_info_relaxed message \<Rightarrow> cell list" where
  "relaxed_refs X m = relaxed_info_refs X (msg_info m) @ message_init_refs (msg_init m) @ message_body_refs (msg_body m)"

context bignum
begin

lemma message_init_codec:
  "value_codec (store_message_init X) (load_message_init X) message_init_ok message_init_bits message_init_refs"
proof -
  note steps = codec_emits[OF ref_tlb_codec[OF value_codec_tail[OF state_init_codec]]]
    codec_yields[OF ref_tlb_codec[OF value_codec_tail[OF state_init_codec]]]
  show ?thesis
  proof (rule codecI)
    show "emits (\<lambda>b. store_message_init X b i) (message_init_bits i) (message_init_refs i)" if "message_init_ok i" for i
      using that unfolding store_message_init_def
      by (cases i rule: message_init_ok.cases) (simp_all only: option.case sum.case message_init_ok.simps,
        (rule emits_eq, (rule steps fields | (simp add: state_init_fits; fail))+)+)
    show "yields (load_message_init X) i (message_init_bits i) (message_init_refs i)" if "message_init_ok i" for i
      using that unfolding load_message_init_def
      by (cases i rule: message_init_ok.cases) (simp_all only: message_init_bits.simps message_init_refs.simps message_init_ok.simps,
        (rule yields_if(1), (simp; fail) | rule yields_if(2), (simp; fail)
          | rule yields_last steps fields | (simp add: state_init_fits; fail))+)
  qed
qed

lemma message_codec:
  "tail_codec (store_message X) (load_message X) message_ok message_bits (message_refs X)"
proof (rule tail_codecI)
  fix m assume m: "message_ok m"
  note parts = message_body_codec[THEN tail_codec_steps(1)] message_init_codec[THEN codec_emits] common_msg_info_codec[THEN codec_emits]
    message_body_codec[THEN tail_codec_steps(2)] message_init_codec[THEN codec_yields] common_msg_info_codec[THEN codec_yields]
  show "emits (\<lambda>b. store_message X b m) (message_bits m) (message_refs X m)"
    using m unfolding store_message_def message_bits_def message_refs_def message_ok_def
    by - (rule parts emits_bind | (simp; fail))+
  show "ends (load_message X) m (message_bits m) (message_refs X m)"
    using m unfolding load_message_def message_bits_def message_refs_def message_ok_def
    by - (rule ends_last ends_bind parts | (simp; fail))+
qed

lemma message_relaxed_codec:
  "tail_codec (store_message_relaxed X) (load_message_relaxed X) relaxed_ok relaxed_bits (relaxed_refs X)"
proof (rule tail_codecI)
  fix m assume m: "relaxed_ok m"
  note parts = message_body_codec[THEN tail_codec_steps(1)] message_init_codec[THEN codec_emits] relaxed_info_codec[THEN codec_emits]
    message_body_codec[THEN tail_codec_steps(2)] message_init_codec[THEN codec_yields] relaxed_info_codec[THEN codec_yields]
  show "emits (\<lambda>b. store_message_relaxed X b m) (relaxed_bits m) (relaxed_refs X m)"
    using m unfolding store_message_relaxed_def relaxed_bits_def relaxed_refs_def relaxed_ok_def
    by - (rule parts emits_bind | (simp; fail))+
  show "ends (load_message_relaxed X) m (relaxed_bits m) (relaxed_refs X m)"
    using m unfolding load_message_relaxed_def relaxed_bits_def relaxed_refs_def relaxed_ok_def
    by - (rule ends_last ends_bind parts | (simp; fail))+
qed

end

section \<open>Properties\<close>

text \<open>
  C19: A message whose parts are in range and fit one cell is written as a well-formed cell,
  and reading that cell gives the message back, with the placement of its state init and
  of its body.  In range (\<open>message_ok\<close>) asks for standard addresses with the default flags, which cells do
  not carry, and for an inline body that is an ordinary cell.
\<close>

theorem message_roundtrip:
  assumes "bignum X" "message_ok m" "length (message_bits m) \<le> 1023" "length (message_refs X m) \<le> 4"
    "list_all wf_cell (message_refs X m)"
  shows "\<exists>c. tlb_to_cell (store_message X) m = Inr c \<and> wf_cell c \<and> tlb_from_cell (load_message X) c = Inr m"
  using tail_codec.cell_roundtrip[OF bignum.message_codec[OF assms(1)]] assms(2-5) by blast

definition sample_message :: "common_msg_info message" where
  "sample_message = \<lparr>msg_info = MsgExternalIn AddrNone (msg_address_std (new_address 0 (replicate 32 7))) 0,
     msg_init = Some (Inr (state_init_empty\<lparr>si_code := Some (mk_cell [True] [])\<rparr>)),
     msg_body = Inl (mk_cell [True, False, True] [])\<rparr>"

lemma sample_message_fits:
  "message_ok sample_message" "length (message_bits sample_message) \<le> 1023"
  "length (message_refs ref_crates sample_message) \<le> 4" "list_all wf_cell (message_refs ref_crates sample_message)"
  by (simp_all add: sample_message_def message_ok_def message_bits_def message_refs_def msg_address_std_def new_address_def
      grams_ok_def state_init_empty_def state_init_ok_def prefix_ok_def wf_mk_cell maybe_bits_def state_init_bits_def
      state_init_refs_def maybe_refs_def prefix_bits_def)

theorem message_roundtrip_witness:
  "\<exists>c. tlb_to_cell (store_message ref_crates) sample_message = Inr c
    \<and> tlb_from_cell (load_message ref_crates) c = Inr sample_message"
  using message_roundtrip[OF ref_bignum.bignum_axioms sample_message_fits] by blast

text \<open>
  The same for the relaxed messages of outbound actions, whose source address may be of
  any form.
\<close>

theorem message_relaxed_roundtrip:
  assumes "bignum X" "relaxed_ok m" "length (relaxed_bits m) \<le> 1023" "length (relaxed_refs X m) \<le> 4"
    "list_all wf_cell (relaxed_refs X m)"
  shows "\<exists>c. tlb_to_cell (store_message_relaxed X) m = Inr c \<and> wf_cell c
    \<and> tlb_from_cell (load_message_relaxed X) c = Inr m"
  using tail_codec.cell_roundtrip[OF bignum.message_relaxed_codec[OF assms(1)]] assms(2-5) by blast

definition sample_relaxed :: "common_msg_info_relaxed message" where
  "sample_relaxed = \<lparr>msg_info = RelaxedInternal True True False (AddrExt AddrNone)
       (msg_address_std (new_address 0 (replicate 32 7))) (currency_of_grams 1000) 0 0 5 6,
     msg_init = None, msg_body = Inr (mk_cell [True] [])\<rparr>"

lemma sample_relaxed_fits:
  "relaxed_ok sample_relaxed" "length (relaxed_bits sample_relaxed) \<le> 1023"
  "length (relaxed_refs ref_crates sample_relaxed) \<le> 4" "list_all wf_cell (relaxed_refs ref_crates sample_relaxed)"
proof -
  have v: "var_len 1000 \<le> 2" by (simp add: var_len_le_iff)
  then show "relaxed_ok sample_relaxed"
    by (simp add: sample_relaxed_def relaxed_ok_def msg_address_std_def new_address_def currency_ok_def currency_of_grams_def
        grams_ok_def dict_ok_def wf_hashmap_new EXTRA_CURRENCY_KEY_BITS_def hashmap_e_new_def wf_hashmap_def)
  show "length (relaxed_bits sample_relaxed) \<le> 1023"
    using v by (simp add: sample_relaxed_def relaxed_bits_def msg_address_std_def new_address_def currency_bits_def
        currency_of_grams_def maybe_bits_def)
  show "length (relaxed_refs ref_crates sample_relaxed) \<le> 4" "list_all wf_cell (relaxed_refs ref_crates sample_relaxed)"
    by (simp_all add: sample_relaxed_def relaxed_refs_def currency_refs_def currency_of_grams_def dict_refs_def
        serialize_hashmap_root_def hashmap_e_is_empty_def hashmap_e_new_def wf_mk_cell)
qed

theorem message_relaxed_roundtrip_witness:
  "\<exists>c. tlb_to_cell (store_message_relaxed ref_crates) sample_relaxed = Inr c
    \<and> tlb_from_cell (load_message_relaxed ref_crates) c = Inr sample_relaxed"
  using message_relaxed_roundtrip[OF ref_bignum.bignum_axioms sample_relaxed_fits] by blast

end
