(* ===== verification/TlbActions.thy ===== *)
theory TlbActions
  imports TlbMessage
begin

text \<open>
  Outbound actions and the action phase (\<open>src/tlb/message/helpers.rs\<close>): library references,
  the closed family of \<open>OutAction\<close> constructors, the linked list of actions of at most 255
  entries, and the record of the action phase of a transaction.
\<close>

definition ACTION_SEND_MSG_TAG :: u32 where "ACTION_SEND_MSG_TAG = 0x0ec3c86d"
definition ACTION_SET_CODE_TAG :: u32 where "ACTION_SET_CODE_TAG = 0xad4de08e"
definition ACTION_RESERVE_CURRENCY_TAG :: u32 where "ACTION_RESERVE_CURRENCY_TAG = 0x36e6b809"
definition ACTION_CHANGE_LIBRARY_TAG :: u32 where "ACTION_CHANGE_LIBRARY_TAG = 0x26fa1dd4"
definition MAX_OUT_LIST_ACTIONS :: nat where "MAX_OUT_LIST_ACTIONS = 255"

section \<open>Actions\<close>

datatype lib_ref = LibHash bytes | LibCell cell

definition store_lib_ref :: "builder \<Rightarrow> lib_ref \<Rightarrow> builder result" where
  "store_lib_ref b l = (case l of
      LibHash h \<Rightarrow> and_then (store_bit b False) (\<lambda>b. store_bytes b h)
    | LibCell c \<Rightarrow> and_then (store_bit b True) (\<lambda>b. store_ref b c))"

definition load_lib_ref :: "slice \<Rightarrow> (lib_ref \<times> slice) result" where
  "load_lib_ref s = and_then (load_one_bit_tag s ''LibRef'') (\<lambda>(tag, s).
     if tag = ''0'' then and_then (load_bytes s 32) (\<lambda>(h, s). Inr (LibHash h, s))
     else and_then (load_reference s) (\<lambda>(c, s). Inr (LibCell c, s)))"

datatype out_action =
    SendMsg u8 "common_msg_info_relaxed message"
  | SetCode cell
  | ReserveCurrency u8 currency_collection
  | ChangeLibrary u8 lib_ref

definition store_out_action :: "crates \<Rightarrow> builder \<Rightarrow> out_action \<Rightarrow> builder result" where
  "store_out_action X b a = (case a of
      SendMsg mode out_msg \<Rightarrow>
        and_then (store_uint X b ACTION_SEND_MSG_TAG) (\<lambda>b.
        and_then (store_uint X b mode) (\<lambda>b. store_ref_tlb (store_message_relaxed X) b out_msg))
    | SetCode c \<Rightarrow>
        and_then (store_uint X b ACTION_SET_CODE_TAG) (\<lambda>b. store_ref b c)
    | ReserveCurrency mode currency \<Rightarrow>
        and_then (store_uint X b ACTION_RESERVE_CURRENCY_TAG) (\<lambda>b.
        and_then (store_uint X b mode) (\<lambda>b. store_currency X b currency))
    | ChangeLibrary mode libref \<Rightarrow>
        if 0x7F < mode then Inl (TlbErr (TlbCustomSchema ''OutAction.action_change_library.mode''))
        else and_then (store_uint X b ACTION_CHANGE_LIBRARY_TAG) (\<lambda>b.
          and_then (store_uint_custom X b mode 7) (\<lambda>b. store_lib_ref b libref)))"

text \<open>The loop of \<open>load_u32_tag\<close>: 32 bits, most significant first.\<close>

fun load_tag_loop :: "slice \<Rightarrow> string \<Rightarrow> nat \<Rightarrow> string \<Rightarrow> u32 \<Rightarrow> (u32 \<times> string \<times> slice) result" where
  "load_tag_loop s constructor 0 actual tag = Inr (tag, actual, s)"
| "load_tag_loop s constructor (Suc k) actual tag =
     (case load_bit s of
        Inl _ \<Rightarrow> Inl (TlbErr (TlbTagMismatch constructor actual))
      | Inr (v, s) \<Rightarrow> load_tag_loop s constructor k (actual @ [if v then CHR ''1'' else CHR ''0''])
          (push_bit 1 tag OR (if v then 1 else 0)))"

definition load_u32_tag :: "slice \<Rightarrow> string \<Rightarrow> (u32 \<times> slice) result" where
  "load_u32_tag s constructor =
     and_then (load_tag_loop s constructor 32 [] 0) (\<lambda>(tag, actual, s).
     if tag = ACTION_SEND_MSG_TAG \<or> tag = ACTION_SET_CODE_TAG \<or> tag = ACTION_RESERVE_CURRENCY_TAG
       \<or> tag = ACTION_CHANGE_LIBRARY_TAG
     then Inr (tag, s) else Inl (TlbErr (TlbTagMismatch constructor actual)))"

text \<open>The last arm of the \<open>match\<close> is \<open>unreachable!\<close>, a panic.\<close>

definition load_out_action :: "crates \<Rightarrow> slice \<Rightarrow> (out_action \<times> slice) result" where
  "load_out_action X s = and_then (load_u32_tag s ''OutAction'') (\<lambda>(tag, s).
     if tag = ACTION_SEND_MSG_TAG
     then and_then (load_uint X s) (\<lambda>(mode, s).
       and_then (load_ref_tlb (load_message_relaxed X) ''MessageRelaxed Any'' s) (\<lambda>(m, s). Inr (SendMsg mode m, s)))
     else if tag = ACTION_SET_CODE_TAG
     then and_then (load_reference s) (\<lambda>(c, s). Inr (SetCode c, s))
     else if tag = ACTION_RESERVE_CURRENCY_TAG
     then and_then (load_uint X s) (\<lambda>(mode, s).
       and_then (load_currency X s) (\<lambda>(v, s). Inr (ReserveCurrency mode v, s)))
     else if tag = ACTION_CHANGE_LIBRARY_TAG
     then and_then (load_uint_custom X s 7) (\<lambda>(mode, s).
       and_then (load_lib_ref s) (\<lambda>(l, s). Inr (ChangeLibrary mode l, s)))
     else Inl Panic)"

section \<open>The action list\<close>

type_synonym out_list = "out_action list"

definition out_list_len :: "out_list \<Rightarrow> nat" where
  "out_list_len l = length l"

definition validate_len :: "out_list \<Rightarrow> unit result" where
  "validate_len l = (if MAX_OUT_LIST_ACTIONS < length l then Inl (TlbErr (TlbCustomSchema ''OutList'')) else Inr ())"

text \<open>The first action is stored deepest, in the node next to the empty cell.\<close>

definition store_out_list :: "crates \<Rightarrow> builder \<Rightarrow> out_list \<Rightarrow> builder result" where
  "store_out_list X b l =
     and_then (validate_len l) (\<lambda>_.
     and_then (builder_build builder_new) (\<lambda>current.
     and_then (try_fold (\<lambda>current action.
         and_then (store_ref builder_new current) (\<lambda>node.
         and_then (store_out_action X node action) builder_build)) current l) (\<lambda>current.
     store_cell b current)))"

text \<open>The recursion of \<open>load_with_depth\<close> stops at \<open>MAX_OUT_LIST_ACTIONS\<close>, so it needs no fuel.\<close>

function load_with_depth :: "crates \<Rightarrow> slice \<Rightarrow> nat \<Rightarrow> (out_list \<times> slice) result" where
  "load_with_depth X s depth =
     (if slice_is_empty s then Inr ([], s)
      else if MAX_OUT_LIST_ACTIONS \<le> depth then Inl (TlbErr (TlbCustomSchema ''OutList''))
      else if remaining_refs s = 0 then Inl (TlbErr (TlbCustomSchema ''OutList''))
      else and_then (load_reference s) (\<lambda>(prev, s).
        and_then (map_err (TlbInvalidReference ''OutList'') (load_with_depth X (slice_new prev) (depth + 1)))
          (\<lambda>(l, prev_slice).
        and_then (map_err (TlbInvalidReference ''OutList'') (ensure_empty prev_slice)) (\<lambda>_.
        and_then (load_out_action X s) (\<lambda>(a, s). Inr (l @ [a], s))))))"
  by pat_completeness auto
termination
  by (relation "measure (\<lambda>(_, _, depth). MAX_OUT_LIST_ACTIONS - depth)") auto

declare load_with_depth.simps [simp del]

definition load_out_list :: "crates \<Rightarrow> slice \<Rightarrow> (out_list \<times> slice) result" where
  "load_out_list X s = load_with_depth X s 0"

section \<open>The action phase\<close>

datatype acc_status_change = Unchanged | Frozen | Deleted

definition store_acc_status_change :: "builder \<Rightarrow> acc_status_change \<Rightarrow> builder result" where
  "store_acc_status_change b v = (case v of
      Unchanged \<Rightarrow> store_tag b ''0'' | Frozen \<Rightarrow> store_tag b ''10'' | Deleted \<Rightarrow> store_tag b ''11'')"

definition load_acc_status_change :: "slice \<Rightarrow> (acc_status_change \<times> slice) result" where
  "load_acc_status_change s =
     (case load_bit s of
        Inl _ \<Rightarrow> Inl (TlbErr (TlbTagMismatch ''AccStatusChange'' []))
      | Inr (first, s) \<Rightarrow>
          if \<not> first then Inr (Unchanged, s)
          else case load_bit s of
              Inl _ \<Rightarrow> Inl (TlbErr (TlbTagMismatch ''AccStatusChange'' ''1''))
            | Inr (second, s) \<Rightarrow> Inr (if second then Deleted else Frozen, s))"

definition store_var_uint_7 :: "crates \<Rightarrow> builder \<Rightarrow> nat \<Rightarrow> string \<Rightarrow> builder result" where
  "store_var_uint_7 X b v schema =
     (if VAR_UINT_7_MAX_BYTES < length (biguint_to_bytes_be X v) then Inl (TlbErr (TlbNonCanonical schema))
      else store_var_uint_tlb X b v VAR_UINT_7_LEN_BITS)"

definition load_var_uint_7 :: "crates \<Rightarrow> slice \<Rightarrow> string \<Rightarrow> (nat \<times> slice) result" where
  "load_var_uint_7 X s schema =
     and_then (load_var_uint_tlb X s VAR_UINT_7_LEN_BITS) (\<lambda>(v, s).
     if VAR_UINT_7_MAX_BYTES < length (biguint_to_bytes_be X v) then Inl (TlbErr (TlbNonCanonical schema))
     else Inr (v, s))"

record storage_used =
  su_cells :: nat
  su_bits :: nat

definition store_storage_used :: "crates \<Rightarrow> builder \<Rightarrow> storage_used \<Rightarrow> builder result" where
  "store_storage_used X b u =
     and_then (store_var_uint_7 X b (su_cells u) ''StorageUsed.cells'') (\<lambda>b.
     store_var_uint_7 X b (su_bits u) ''StorageUsed.bits'')"

definition load_storage_used :: "crates \<Rightarrow> slice \<Rightarrow> (storage_used \<times> slice) result" where
  "load_storage_used X s =
     and_then (load_var_uint_7 X s ''StorageUsed.cells'') (\<lambda>(c, s).
     and_then (load_var_uint_7 X s ''StorageUsed.bits'') (\<lambda>(n, s).
     Inr (\<lparr>su_cells = c, su_bits = n\<rparr>, s)))"

definition store_maybe_i32 :: "crates \<Rightarrow> builder \<Rightarrow> i32 option \<Rightarrow> builder result" where
  "store_maybe_i32 X b v = (case v of
      Some v \<Rightarrow> and_then (store_bit b True) (\<lambda>b. store_int_as X b v 32)
    | None \<Rightarrow> store_bit b False)"

definition load_maybe_i32 :: "crates \<Rightarrow> slice \<Rightarrow> (i32 option \<times> slice) result" where
  "load_maybe_i32 X s = and_then (load_bit s) (\<lambda>(present, s).
     if present then and_then (load_int_as X s 32) (\<lambda>(v, s). Inr (Some v, s)) else Inr (None, s))"

record tr_action_phase =
  ap_success :: bool
  ap_valid :: bool
  ap_no_funds :: bool
  ap_status_change :: acc_status_change
  ap_total_fwd_fees :: "grams option"
  ap_total_action_fees :: "grams option"
  ap_result_code :: i32
  ap_result_arg :: "i32 option"
  ap_tot_actions :: u16
  ap_spec_actions :: u16
  ap_skipped_actions :: u16
  ap_msgs_created :: u16
  ap_action_list_hash :: bytes
  ap_tot_msg_size :: storage_used

definition store_tr_action_phase :: "crates \<Rightarrow> builder \<Rightarrow> tr_action_phase \<Rightarrow> builder result" where
  "store_tr_action_phase X b p =
     and_then (store_bit b (ap_success p)) (\<lambda>b.
     and_then (store_bit b (ap_valid p)) (\<lambda>b.
     and_then (store_bit b (ap_no_funds p)) (\<lambda>b.
     and_then (store_acc_status_change b (ap_status_change p)) (\<lambda>b.
     and_then (store_maybe (store_grams X) b (ap_total_fwd_fees p)) (\<lambda>b.
     and_then (store_maybe (store_grams X) b (ap_total_action_fees p)) (\<lambda>b.
     and_then (store_int_as X b (ap_result_code p) 32) (\<lambda>b.
     and_then (store_maybe_i32 X b (ap_result_arg p)) (\<lambda>b.
     and_then (store_uint X b (ap_tot_actions p)) (\<lambda>b.
     and_then (store_uint X b (ap_spec_actions p)) (\<lambda>b.
     and_then (store_uint X b (ap_skipped_actions p)) (\<lambda>b.
     and_then (store_uint X b (ap_msgs_created p)) (\<lambda>b.
     and_then (store_bytes b (ap_action_list_hash p)) (\<lambda>b.
     store_storage_used X b (ap_tot_msg_size p))))))))))))))"

definition load_tr_action_phase :: "crates \<Rightarrow> slice \<Rightarrow> (tr_action_phase \<times> slice) result" where
  "load_tr_action_phase X s =
     and_then (load_bit s) (\<lambda>(ok, s).
     and_then (load_bit s) (\<lambda>(valid, s).
     and_then (load_bit s) (\<lambda>(no_funds, s).
     and_then (load_acc_status_change s) (\<lambda>(status_change, s).
     and_then (load_maybe (load_grams X) s) (\<lambda>(fwd_fees, s).
     and_then (load_maybe (load_grams X) s) (\<lambda>(action_fees, s).
     and_then (load_int_as X s 32) (\<lambda>(result_code, s).
     and_then (load_maybe_i32 X s) (\<lambda>(result_arg, s).
     and_then (load_uint X s) (\<lambda>(tot, s).
     and_then (load_uint X s) (\<lambda>(spec, s).
     and_then (load_uint X s) (\<lambda>(skipped, s).
     and_then (load_uint X s) (\<lambda>(created, s).
     and_then (load_bytes s 32) (\<lambda>(h, s).
     and_then (load_storage_used X s) (\<lambda>(msg_size, s).
     Inr (\<lparr>ap_success = ok, ap_valid = valid, ap_no_funds = no_funds, ap_status_change = status_change,
           ap_total_fwd_fees = fwd_fees, ap_total_action_fees = action_fees, ap_result_code = result_code,
           ap_result_arg = result_arg, ap_tot_actions = tot, ap_spec_actions = spec, ap_skipped_actions = skipped,
           ap_msgs_created = created, ap_action_list_hash = h, ap_tot_msg_size = msg_size\<rparr>, s)))))))))))))))"

section \<open>Codecs of actions\<close>

fun lib_ref_ok :: "lib_ref \<Rightarrow> bool" where
  "lib_ref_ok (LibHash h) \<longleftrightarrow> length h = 32"
| "lib_ref_ok (LibCell c) \<longleftrightarrow> True"

fun lib_ref_bits :: "lib_ref \<Rightarrow> bool list" where
  "lib_ref_bits (LibHash h) = [False] @ bytes_bits h"
| "lib_ref_bits (LibCell c) = [True] @ []"

fun lib_ref_refs :: "lib_ref \<Rightarrow> cell list" where
  "lib_ref_refs (LibHash h) = []"
| "lib_ref_refs (LibCell c) = [c]"

fun out_action_ok :: "crates \<Rightarrow> out_action \<Rightarrow> bool" where
  "out_action_ok X (SendMsg mode m) \<longleftrightarrow> relaxed_ok m \<and> length (relaxed_bits m) \<le> 1023 \<and> length (relaxed_refs X m) \<le> 4"
| "out_action_ok X (SetCode c) \<longleftrightarrow> True"
| "out_action_ok X (ReserveCurrency mode v) \<longleftrightarrow> currency_ok v"
| "out_action_ok X (ChangeLibrary mode l) \<longleftrightarrow> mode \<le> 127 \<and> lib_ref_ok l"

fun out_action_bits :: "out_action \<Rightarrow> bool list" where
  "out_action_bits (SendMsg mode m) = nat_bits 32 (unat ACTION_SEND_MSG_TAG) @ nat_bits 8 (unat mode) @ []"
| "out_action_bits (SetCode c) = nat_bits 32 (unat ACTION_SET_CODE_TAG) @ []"
| "out_action_bits (ReserveCurrency mode v) =
     nat_bits 32 (unat ACTION_RESERVE_CURRENCY_TAG) @ nat_bits 8 (unat mode) @ currency_bits v"
| "out_action_bits (ChangeLibrary mode l) =
     nat_bits 32 (unat ACTION_CHANGE_LIBRARY_TAG) @ nat_bits 7 (unat mode) @ lib_ref_bits l"

fun out_action_refs :: "crates \<Rightarrow> out_action \<Rightarrow> cell list" where
  "out_action_refs X (SendMsg mode m) = [mk_cell (relaxed_bits m) (relaxed_refs X m)]"
| "out_action_refs X (SetCode c) = [c]"
| "out_action_refs X (ReserveCurrency mode v) = currency_refs X v"
| "out_action_refs X (ChangeLibrary mode l) = lib_ref_refs l"

lemma one_bit_tag_yields: "yields (\<lambda>s. load_one_bit_tag s constructor) [if v then CHR ''1'' else CHR ''0''] [v] []"
  by (auto simp: yields_def load_one_bit_tag_def load_bit_eq wf_adv)

lemma lib_ref_codec: "value_codec store_lib_ref load_lib_ref lib_ref_ok lib_ref_bits lib_ref_refs"
proof (rule codecI)
  show "emits (\<lambda>b. store_lib_ref b l) (lib_ref_bits l) (lib_ref_refs l)" if "lib_ref_ok l" for l
    using that unfolding store_lib_ref_def
    by (cases l) (simp_all only: lib_ref.case, (rule emits_eq, (rule fields | (simp; fail))+)+)
  show "yields load_lib_ref l (lib_ref_bits l) (lib_ref_refs l)" if "lib_ref_ok l" for l
    using that unfolding load_lib_ref_def
    by (cases l) (simp_all only: lib_ref_bits.simps lib_ref_refs.simps,
      (rule yields_if(1), (simp; fail) | rule yields_if(2), (simp; fail)
        | rule one_bit_tag_yields yields_last fields | (simp; fail))+)
qed

lemma push_bit_or_bit: "push_bit 1 (t :: 'a::len word) OR (if v then 1 else 0) = 2 * t + of_bool v"
proof -
  have "push_bit 1 t OR of_bool v = push_bit 1 t + of_bool v"
    by (rule disjunctive_add [symmetric]) (auto simp: bit_simps bit_0)
  then show ?thesis by (cases v) (simp_all add: push_bit_eq_mult)
qed

lemma load_tag_loop_reads:
  "wf_slice s \<Longrightarrow> slice_bits s = bs @ ys \<Longrightarrow>
    \<exists>actual'. load_tag_loop s constructor (length bs) actual tag
      = Inr (tag * 2 ^ length bs + word_of_nat (bits_val bs), actual', adv s (length bs) 0)"
proof (induction bs arbitrary: s actual tag)
  case (Cons v bs)
  let ?tag = "push_bit 1 tag OR (if v then 1 else 0)"
  obtain actual' where "load_tag_loop (adv s 1 0) constructor (length bs) (actual @ [if v then CHR ''1'' else CHR ''0'']) ?tag
      = Inr (?tag * 2 ^ length bs + word_of_nat (bits_val bs), actual', adv (adv s 1 0) (length bs) 0)"
    using Cons.IH[of "adv s 1 0" "actual @ [if v then CHR ''1'' else CHR ''0'']" ?tag] Cons.prems by (auto simp: wf_adv)
  moreover have "load_bit s = Inr (v, adv s 1 0)" using Cons.prems by (simp add: load_bit_eq)
  moreover have "?tag * 2 ^ length bs + word_of_nat (bits_val bs) = tag * 2 ^ length (v # bs) + word_of_nat (bits_val (v # bs))"
    unfolding push_bit_or_bit by (cases v) (simp_all add: algebra_simps)
  ultimately show ?case by simp
qed simp

lemma u32_tag_yields:
  assumes "tag \<in> {ACTION_SEND_MSG_TAG, ACTION_SET_CODE_TAG, ACTION_RESERVE_CURRENCY_TAG, ACTION_CHANGE_LIBRARY_TAG}"
  shows "yields (\<lambda>s. load_u32_tag s constructor) tag (nat_bits 32 (unat tag)) []"
  unfolding yields_def
proof (intro allI impI)
  fix s ys qs assume s: "wf_slice s" "slice_bits s = nat_bits 32 (unat tag) @ ys"
  have "bits_val (nat_bits 32 (unat tag)) = unat tag" using unsigned_less[of tag, where ?'a = nat] by simp
  then obtain actual where "load_tag_loop s constructor 32 [] 0 = Inr (tag, actual, adv s 32 0)"
    using load_tag_loop_reads[OF s, of constructor "[]" 0] by auto
  then show "load_u32_tag s constructor = Inr (tag, adv s (length (nat_bits 32 (unat tag))) (length ([] :: cell list)))"
    using assms by (auto simp: load_u32_tag_def)
qed

lemmas action_tags = ACTION_SEND_MSG_TAG_def ACTION_SET_CODE_TAG_def ACTION_RESERVE_CURRENCY_TAG_def
  ACTION_CHANGE_LIBRARY_TAG_def

context bignum
begin

lemma out_action_codec:
  "value_codec (store_out_action X) (load_out_action X) (out_action_ok X) out_action_bits (out_action_refs X)"
proof -
  note m = ref_tlb_codec[OF message_relaxed_codec]
  note parts = lib_ref_codec[THEN codec_emits] lib_ref_codec[THEN codec_yields] m[THEN codec_emits] m[THEN codec_yields]
  show ?thesis
  proof (rule codecI)
    show "emits (\<lambda>b. store_out_action X b a) (out_action_bits a) (out_action_refs X a)" if "out_action_ok X a" for a
      using that unfolding store_out_action_def
      by (cases a) (simp_all only: out_action.case out_action_ok.simps,
        (rule emits_eq, (rule emits_guard parts fields | (simp add: word_le_nat_alt word_less_nat_alt; fail))+)+)
    show "yields (load_out_action X) a (out_action_bits a) (out_action_refs X a)" if "out_action_ok X a" for a
      using that unfolding load_out_action_def
      by (cases a) (simp_all only: out_action_bits.simps out_action_refs.simps out_action_ok.simps,
        (rule yields_if(1), (simp add: action_tags; fail) | rule yields_if(2), (simp add: action_tags; fail)
          | rule u32_tag_yields yields_last_eq parts fields | (simp add: word_le_nat_alt word_less_nat_alt; fail))+)
  qed
qed

end

section \<open>The list as cells\<close>

definition out_list_cell :: "crates \<Rightarrow> out_list \<Rightarrow> cell" where
  "out_list_cell X l = foldl (\<lambda>c a. mk_cell (out_action_bits a) (c # out_action_refs X a)) (mk_cell [] []) l"

definition out_list_ok :: "crates \<Rightarrow> out_list \<Rightarrow> bool" where
  "out_list_ok X l \<longleftrightarrow> length l \<le> 255
     \<and> list_all (\<lambda>a. out_action_ok X a \<and> length (out_action_bits a) \<le> 1023 \<and> length (out_action_refs X a) \<le> 3
          \<and> list_all wf_cell (out_action_refs X a)) l"

lemma out_list_cell_simps [simp]:
  "out_list_cell X [] = mk_cell [] []"
  "out_list_cell X (l @ [a]) = mk_cell (out_action_bits a) (out_list_cell X l # out_action_refs X a)"
  by (simp_all add: out_list_cell_def)

lemma wf_out_list_cell: "out_list_ok X l \<Longrightarrow> wf_cell (out_list_cell X l) \<and> cell_exotic (out_list_cell X l) = None"
proof (induction l rule: rev_induct)
  case (snoc a l)
  then show ?case by (simp add: out_list_ok_def wf_mk_cell)
qed (simp add: wf_mk_cell)

lemma out_action_bits_nonempty: "out_action_bits a \<noteq> []"
  by (cases a) (simp_all flip: length_greater_0_conv)

context bignum
begin

lemma store_out_list_nodes:
  "out_list_ok X l \<Longrightarrow> try_fold (\<lambda>current action. and_then (store_ref builder_new current) (\<lambda>node.
      and_then (store_out_action X node action) builder_build)) (mk_cell [] []) l = Inr (out_list_cell X l)"
proof (induction l rule: rev_induct)
  case (snoc a l)
  then have "out_list_ok X l" by (simp add: out_list_ok_def)
  moreover have "store_out_action X (mk_b [] [out_list_cell X l]) a
      = Inr (mk_b (out_action_bits a) (out_list_cell X l # out_action_refs X a))"
    using value_codec.store_appends[OF out_action_codec, of a "[]" "[out_list_cell X l]"] snoc.prems
    by (simp add: out_list_ok_def)
  ultimately show ?case
    using snoc by (simp add: try_fold_append builder_new_eq store_ref_mk builder_build_mk out_list_ok_def)
qed simp

lemma load_with_depth_reads:
  assumes "out_list_ok X l" "wf_slice s" "slice_bits s = cell_bits (out_list_cell X l)"
    "slice_refs s = cell_references (out_list_cell X l)" "depth + length l \<le> 255"
  shows "load_with_depth X s depth = Inr (l, adv s (length (slice_bits s)) (length (slice_refs s)))"
  using assms
proof (induction l arbitrary: s depth rule: rev_induct)
  case Nil
  then show ?case by (subst load_with_depth.simps) (simp add: slice_is_empty_eq)
next
  case (snoc a l)
  let ?p = "out_list_cell X l"
  have ok: "out_list_ok X l" using snoc.prems(1) by (simp add: out_list_ok_def)
  have bits: "slice_bits s = out_action_bits a" "slice_refs s = ?p # out_action_refs X a" using snoc.prems by simp_all
  have "load_with_depth X (slice_new ?p) (depth + 1)
      = Inr (l, adv (slice_new ?p) (length (cell_bits ?p)) (length (cell_references ?p)))"
    using snoc.IH[OF ok, of "slice_new ?p" "depth + 1"] wf_out_list_cell[OF ok] snoc.prems(5) by simp
  moreover have "ensure_empty (adv (slice_new ?p) (length (cell_bits ?p)) (length (cell_references ?p))) = Inr ()"
    using wf_out_list_cell[OF ok] by (simp add: ensure_empty_def slice_is_empty_eq wf_adv)
  moreover have "load_out_action X (adv s 0 1) = Inr (a, adv (adv s 0 1) (length (out_action_bits a)) (length (out_action_refs X a)))"
    using value_codec.load_reads[OF out_action_codec, of a "adv s 0 1" "[]" "[]"] snoc.prems(1,2) bits
    by (simp add: out_list_ok_def wf_adv)
  moreover have "\<not> slice_is_empty s" using snoc.prems(2) bits out_action_bits_nonempty by (simp add: slice_is_empty_eq)
  ultimately show ?case using snoc.prems(5) bits
    by (subst load_with_depth.simps) (simp add: MAX_OUT_LIST_ACTIONS_def remaining_refs_eq load_reference_eq)
qed

lemma out_list_codec:
  "tail_codec (store_out_list X) (load_out_list X) (out_list_ok X) (\<lambda>l. cell_bits (out_list_cell X l))
    (\<lambda>l. cell_references (out_list_cell X l))"
proof (rule tail_codecI)
  fix l assume l: "out_list_ok X l"
  note wf = wf_out_list_cell[OF l]
  have v: "validate_len l = Inr ()" using l by (simp add: validate_len_def MAX_OUT_LIST_ACTIONS_def out_list_ok_def)
  show "emits (\<lambda>b. store_out_list X b l) (cell_bits (out_list_cell X l)) (cell_references (out_list_cell X l))"
    using wf v store_out_list_nodes[OF l]
    by (simp add: emits_def store_out_list_def builder_new_eq builder_build_mk store_cell_mk)
  show "ends (load_out_list X) l (cell_bits (out_list_cell X l)) (cell_references (out_list_cell X l))"
    using load_with_depth_reads[OF l, of _ 0] l by (simp add: ends_def load_out_list_def out_list_ok_def)
qed

end

text \<open>Whatever it reads, the list reader returns at most as many actions as levels are left.\<close>

lemma load_with_depth_bound:
  "load_with_depth X s depth = Inr (l, s') \<Longrightarrow> depth \<le> 255 \<Longrightarrow> depth + length l \<le> 255"
proof (induction X s depth arbitrary: l s' rule: load_with_depth.induct)
  case (1 X s depth)
  show ?case
  proof (cases "slice_is_empty s")
    case True
    then show ?thesis using 1(2,3) by (subst (asm) load_with_depth.simps) auto
  next
    case False
    note unfolded = 1(2)[unfolded load_with_depth.simps[of X s depth]]
    with False have d: "depth < 255" "remaining_refs s \<noteq> 0"
      by (auto simp: MAX_OUT_LIST_ACTIONS_def split: if_splits)
    from unfolded False d obtain prev s1 l0 ps a where r: "load_reference s = Inr (prev, s1)"
        "load_with_depth X (slice_new prev) (depth + 1) = Inr (l0, ps)" "l = l0 @ [a]"
      by (auto simp: MAX_OUT_LIST_ACTIONS_def and_then_eq_Inr)
    have "depth + 1 + length l0 \<le> 255"
      using 1(1)[OF False _ d(2) r(1) refl r(2)] d(1) by (simp add: MAX_OUT_LIST_ACTIONS_def)
    then show ?thesis using r(3) by simp
  qed
qed

section \<open>Codecs of the action phase\<close>

fun acc_status_bits :: "acc_status_change \<Rightarrow> bool list" where
  "acc_status_bits Unchanged = [False]"
| "acc_status_bits Frozen = [True, False]"
| "acc_status_bits Deleted = [True, True]"

definition storage_used_ok :: "storage_used \<Rightarrow> bool" where
  "storage_used_ok u \<longleftrightarrow> su_cells u < 256 ^ 6 \<and> su_bits u < 256 ^ 6"

definition storage_used_bits :: "storage_used \<Rightarrow> bool list" where
  "storage_used_bits u = var_enc 3 (su_cells u) @ var_enc 3 (su_bits u)"

definition action_phase_ok :: "tr_action_phase \<Rightarrow> bool" where
  "action_phase_ok p \<longleftrightarrow> pred_option grams_ok (ap_total_fwd_fees p) \<and> pred_option grams_ok (ap_total_action_fees p)
     \<and> length (ap_action_list_hash p) = 32 \<and> storage_used_ok (ap_tot_msg_size p)"

definition action_phase_bits :: "tr_action_phase \<Rightarrow> bool list" where
  "action_phase_bits p = [ap_success p] @ [ap_valid p] @ [ap_no_funds p] @ acc_status_bits (ap_status_change p)
     @ maybe_bits (var_enc 4) (ap_total_fwd_fees p) @ maybe_bits (var_enc 4) (ap_total_action_fees p)
     @ nat_bits 32 (unat (ap_result_code p)) @ maybe_bits (\<lambda>v. nat_bits 32 (unat v)) (ap_result_arg p)
     @ nat_bits 16 (unat (ap_tot_actions p)) @ nat_bits 16 (unat (ap_spec_actions p))
     @ nat_bits 16 (unat (ap_skipped_actions p)) @ nat_bits 16 (unat (ap_msgs_created p))
     @ bytes_bits (ap_action_list_hash p) @ storage_used_bits (ap_tot_msg_size p)"

lemma acc_status_codec:
  "value_codec store_acc_status_change load_acc_status_change (\<lambda>_. True) acc_status_bits (\<lambda>_. [])"
proof (rule codecI)
  show "emits (\<lambda>b. store_acc_status_change b v) (acc_status_bits v) []" for v
    unfolding store_acc_status_change_def
    by (cases v) (simp_all only: acc_status_change.case, (rule emits_eq, (rule fields | (simp; fail))+)+)
  show "yields load_acc_status_change v (acc_status_bits v) []" for v
    by (cases v) (auto simp: yields_def load_acc_status_change_def load_bit_eq wf_adv)
qed

context bignum
begin

lemma var_uint_7_steps:
  assumes "v < 256 ^ 6"
  shows "emits (\<lambda>b. store_var_uint_7 X b v schema) (var_enc 3 v) []"
    "yields (\<lambda>s. load_var_uint_7 X s schema) v (var_enc 3 v) []"
proof -
  have v: "var_len v \<le> 6" using assms by (simp add: var_len_le_iff)
  then have "length (biguint_to_bytes_be X v) \<le> 6"
    by (cases "v = 0") (simp_all add: biguint_to_bytes_be length_min_be_bytes min_be_bytes_var)
  then have g: "\<not> VAR_UINT_7_MAX_BYTES < length (biguint_to_bytes_be X v)" by (simp add: VAR_UINT_7_MAX_BYTES_def)
  show "emits (\<lambda>b. store_var_uint_7 X b v schema) (var_enc 3 v) []"
    using g v var_uint_steps(1)[of 3 v] by (simp add: store_var_uint_7_def VAR_UINT_7_LEN_BITS_def)
  show "yields (\<lambda>s. load_var_uint_7 X s schema) v (var_enc 3 v) []"
    using g v var_uint_steps(2)[of 3 v] by (simp add: load_var_uint_7_def VAR_UINT_7_LEN_BITS_def yields_def)
qed

lemma storage_used_codec:
  "value_codec (store_storage_used X) (load_storage_used X) storage_used_ok storage_used_bits (\<lambda>_. [])"
proof (rule codecI)
  show "emits (\<lambda>b. store_storage_used X b u) (storage_used_bits u) []" if "storage_used_ok u" for u
    using that unfolding store_storage_used_def storage_used_ok_def
    by - (rule emits_eq, (rule var_uint_7_steps fields | (simp add: storage_used_bits_def; fail))+)
  show "yields (load_storage_used X) u (storage_used_bits u) []" if "storage_used_ok u" for u
    using that unfolding load_storage_used_def storage_used_ok_def storage_used_bits_def
    by - (rule var_uint_7_steps fields | (simp; fail))+
qed

lemma grams_codec: "value_codec (store_grams X) (load_grams X) grams_ok (var_enc 4) (\<lambda>_. [])"
  by (rule codecI) (rule grams_steps; assumption)+

lemma action_phase_codec:
  "value_codec (store_tr_action_phase X) (load_tr_action_phase X) action_phase_ok action_phase_bits (\<lambda>_. [])"
proof -
  have i32: "store_maybe_i32 X = store_maybe (\<lambda>b v. store_int_as X b v 32)" "load_maybe_i32 X = load_maybe (\<lambda>s. load_int_as X s 32)"
    by (simp_all add: fun_eq_iff store_maybe_i32_def load_maybe_i32_def store_maybe_def load_maybe_def)
  have "value_codec (\<lambda>b v. store_int_as X b v 32) (\<lambda>s. load_int_as X s 32) (\<lambda>_. True) (\<lambda>v :: i32. nat_bits 32 (unat v)) (\<lambda>_. [])"
    using int_as_codec[where ?'a = 32] by simp
  note i = maybe_codec[OF this] and g = maybe_codec[OF grams_codec]
  note parts = i[THEN codec_emits] i[THEN codec_yields] g[THEN codec_emits] g[THEN codec_yields]
    acc_status_codec[THEN codec_emits] acc_status_codec[THEN codec_yields]
    storage_used_codec[THEN codec_emits] storage_used_codec[THEN codec_yields]
  show ?thesis
  proof (rule codecI)
    show "emits (\<lambda>b. store_tr_action_phase X b p) (action_phase_bits p) []" if "action_phase_ok p" for p
      using that unfolding store_tr_action_phase_def action_phase_ok_def i32
      by - (rule emits_eq, (rule parts fields | (simp add: action_phase_bits_def option.pred_True; fail))+)
    show "yields (load_tr_action_phase X) p (action_phase_bits p) []" if "action_phase_ok p" for p
      using that unfolding load_tr_action_phase_def action_phase_ok_def action_phase_bits_def i32
      by - (rule parts fields | (simp add: option.pred_True; fail))+
  qed
qed

end

section \<open>Properties\<close>

text \<open>
  C20: A list of at most 255 actions, each in range, is written as a chain of cells and read
  back in the same order.  In range includes default flags of the addresses in sent messages.
\<close>

theorem out_list_roundtrip:
  assumes "bignum X" "out_list_ok X l"
  shows "\<exists>c. tlb_to_cell (store_out_list X) l = Inr c \<and> wf_cell c \<and> tlb_from_cell (load_out_list X) c = Inr l"
proof (rule tail_codec.cell_roundtrip[OF bignum.out_list_codec[OF assms(1)] assms(2)])
  note wf = wf_cell_bounds[OF conjunct1[OF wf_out_list_cell[OF assms(2)]]]
  show "length (cell_bits (out_list_cell X l)) \<le> 1023" using wf(1,5) by simp
  show "length (cell_references (out_list_cell X l)) \<le> 4" "list_all wf_cell (cell_references (out_list_cell X l))"
    by (rule wf(2), rule wf(4))
qed

definition sample_actions :: out_list where
  "sample_actions = [SetCode (mk_cell [True] []), ChangeLibrary 2 (LibHash (replicate 32 9)),
     ReserveCurrency 1 (currency_of_grams 1000)]"

lemma sample_actions_ok: "out_list_ok ref_crates sample_actions"
proof -
  have "var_len 1000 \<le> 2" by (simp add: var_len_le_iff)
  then show ?thesis
    by (simp add: sample_actions_def out_list_ok_def wf_mk_cell currency_ok_def currency_of_grams_def grams_ok_def dict_ok_def
        wf_hashmap_def EXTRA_CURRENCY_KEY_BITS_def hashmap_e_new_def currency_bits_def currency_refs_def dict_refs_def
        serialize_hashmap_root_def hashmap_e_is_empty_def)
qed

theorem out_list_roundtrip_witness:
  "\<exists>c. tlb_to_cell (store_out_list ref_crates) sample_actions = Inr c
    \<and> tlb_from_cell (load_out_list ref_crates) c = Inr sample_actions"
  using out_list_roundtrip[OF ref_bignum.bignum_axioms sample_actions_ok] by blast

text \<open>
  Whatever cells it is given, the list reader never returns more than 255 actions.
\<close>

theorem out_list_bounded:
  assumes "load_out_list X s = Inr (l, s')"
  shows "out_list_len l \<le> MAX_OUT_LIST_ACTIONS"
  using load_with_depth_bound[of X s 0 l s'] assms by (simp add: load_out_list_def out_list_len_def MAX_OUT_LIST_ACTIONS_def)

theorem out_list_bounded_witness:
  "\<exists>l s'. load_out_list ref_crates (slice_new (out_list_cell ref_crates sample_actions)) = Inr (l, s')
    \<and> out_list_len l \<le> MAX_OUT_LIST_ACTIONS"
proof -
  let ?c = "out_list_cell ref_crates sample_actions"
  have "load_out_list ref_crates (slice_new ?c)
      = Inr (sample_actions, adv (slice_new ?c) (length (cell_bits ?c)) (length (cell_references ?c)))"
    using tail_codec.load_tail[OF bignum.out_list_codec[OF ref_bignum.bignum_axioms] sample_actions_ok, of "slice_new ?c"]
      wf_out_list_cell[OF sample_actions_ok] by simp
  from this out_list_bounded[OF this] show ?thesis by blast
qed

text \<open>
  A record of the action phase is written as a well-formed cell that reads back as the
  same record.
\<close>

theorem action_phase_roundtrip:
  assumes "bignum X" "action_phase_ok p" "length (action_phase_bits p) \<le> 1023"
  shows "\<exists>c. tlb_to_cell (store_tr_action_phase X) p = Inr c \<and> wf_cell c \<and> tlb_from_cell (load_tr_action_phase X) c = Inr p"
  using tail_codec.cell_roundtrip[OF value_codec_tail[OF bignum.action_phase_codec[OF assms(1)]] assms(2,3)] by simp

definition sample_phase :: tr_action_phase where
  "sample_phase = \<lparr>ap_success = True, ap_valid = True, ap_no_funds = False, ap_status_change = Frozen,
     ap_total_fwd_fees = Some 1000, ap_total_action_fees = None, ap_result_code = 0, ap_result_arg = Some (- 5),
     ap_tot_actions = 3, ap_spec_actions = 0, ap_skipped_actions = 1, ap_msgs_created = 2,
     ap_action_list_hash = replicate 32 1, ap_tot_msg_size = \<lparr>su_cells = 3, su_bits = 1000\<rparr>\<rparr>"

lemma sample_phase_ok: "action_phase_ok sample_phase" "length (action_phase_bits sample_phase) \<le> 1023"
proof -
  have v: "var_len 1000 \<le> 2" "var_len 3 \<le> 2" by (simp_all add: var_len_le_iff)
  then show "action_phase_ok sample_phase"
    by (simp add: sample_phase_def action_phase_ok_def storage_used_ok_def grams_ok_def)
  show "length (action_phase_bits sample_phase) \<le> 1023"
    using v by (simp add: sample_phase_def action_phase_bits_def maybe_bits_def storage_used_bits_def)
qed

theorem action_phase_roundtrip_witness:
  "\<exists>c. tlb_to_cell (store_tr_action_phase ref_crates) sample_phase = Inr c
    \<and> tlb_from_cell (load_tr_action_phase ref_crates) c = Inr sample_phase"
  using action_phase_roundtrip[OF ref_bignum.bignum_axioms sample_phase_ok] by blast

end
