(* ===== verification/TlbAccount.thy ===== *)
theory TlbAccount
  imports TlbActions
begin

text \<open>
  Accounts (\<open>src/tlb/transaction/account.rs\<close>): storage statistics, the state and the status
  of an account, the account with its balance, and the entry of an account in the state of its
  shard.  The tag readers are those of \<open>src/tlb/transaction/helpers.rs\<close>.
\<close>

section \<open>Tags\<close>

definition load_tag_bit :: "slice \<Rightarrow> string \<Rightarrow> string \<Rightarrow> (bool \<times> slice) result" where
  "load_tag_bit s constructor actual_prefix = map_err (\<lambda>_. TlbErr (TlbTagMismatch constructor actual_prefix)) (load_bit s)"

definition load_three_bit_tag :: "slice \<Rightarrow> string \<Rightarrow> (string \<times> slice) result" where
  "load_three_bit_tag s constructor = load_tag_bits s constructor 3 []"

fun expect_bits_loop :: "slice \<Rightarrow> string \<Rightarrow> string \<Rightarrow> string \<Rightarrow> (unit \<times> slice) result" where
  "expect_bits_loop s constructor [] actual = Inr ((), s)"
| "expect_bits_loop s constructor (c # cs) actual =
     and_then (map_err (\<lambda>_. TlbErr (TlbTagMismatch constructor actual)) (load_bit s)) (\<lambda>(v, s).
     let actual = actual @ [if v then CHR ''1'' else CHR ''0''] in
     if v \<noteq> (c = CHR ''1'') then Inl (TlbErr (TlbTagMismatch constructor actual))
     else expect_bits_loop s constructor cs actual)"

definition expect_tag_bits :: "slice \<Rightarrow> string \<Rightarrow> string \<Rightarrow> (unit \<times> slice) result" where
  "expect_tag_bits s constructor expected_bits = expect_bits_loop s constructor expected_bits []"

fun load_u8_tag_loop :: "slice \<Rightarrow> string \<Rightarrow> nat \<Rightarrow> string \<Rightarrow> u8 \<Rightarrow> (u8 \<times> string \<times> slice) result" where
  "load_u8_tag_loop s constructor 0 actual tag = Inr (tag, actual, s)"
| "load_u8_tag_loop s constructor (Suc k) actual tag =
     and_then (map_err (\<lambda>_. TlbErr (TlbTagMismatch constructor actual)) (load_bit s)) (\<lambda>(v, s).
     load_u8_tag_loop s constructor k (actual @ [if v then CHR ''1'' else CHR ''0'']) (push_bit 1 tag OR (if v then 1 else 0)))"

definition expect_u8_tag :: "slice \<Rightarrow> string \<Rightarrow> u8 \<Rightarrow> (unit \<times> slice) result" where
  "expect_u8_tag s constructor expected_tag =
     and_then (load_u8_tag_loop s constructor 8 [] 0) (\<lambda>(tag, actual, s).
     if tag = expected_tag then Inr ((), s) else Inl (TlbErr (TlbTagMismatch constructor actual)))"

section \<open>Accounts\<close>

datatype storage_extra_info = ExtraNone | ExtraInfo bytes

definition store_storage_extra :: "builder \<Rightarrow> storage_extra_info \<Rightarrow> builder result" where
  "store_storage_extra b e = (case e of
      ExtraNone \<Rightarrow> store_tag b ''000''
    | ExtraInfo dict_hash \<Rightarrow> and_then (store_tag b ''001'') (\<lambda>b. store_bytes b dict_hash))"

definition load_storage_extra :: "slice \<Rightarrow> (storage_extra_info \<times> slice) result" where
  "load_storage_extra s = and_then (load_three_bit_tag s ''StorageExtraInfo'') (\<lambda>(actual_bits, s).
     if actual_bits = ''000'' then Inr (ExtraNone, s)
     else if actual_bits = ''001'' then and_then (load_bytes s 32) (\<lambda>(dict_hash, s). Inr (ExtraInfo dict_hash, s))
     else Inl (TlbErr (TlbTagMismatch ''StorageExtraInfo'' actual_bits)))"

record storage_info =
  si_used :: storage_used
  si_last_paid :: u32
  si_due_payment :: "grams option"
  si_extra :: storage_extra_info

definition store_storage_info :: "crates \<Rightarrow> builder \<Rightarrow> storage_info \<Rightarrow> builder result" where
  "store_storage_info X b i =
     and_then (store_storage_used X b (si_used i)) (\<lambda>b.
     and_then (store_storage_extra b (si_extra i)) (\<lambda>b.
     and_then (store_u32 X b (si_last_paid i)) (\<lambda>b.
     store_maybe (store_grams X) b (si_due_payment i))))"

definition load_storage_info :: "crates \<Rightarrow> slice \<Rightarrow> (storage_info \<times> slice) result" where
  "load_storage_info X s =
     and_then (load_storage_used X s) (\<lambda>(used, s).
     and_then (load_storage_extra s) (\<lambda>(extra, s).
     and_then (load_u32 X s) (\<lambda>(last_paid, s).
     and_then (load_maybe (load_grams X) s) (\<lambda>(due_payment, s).
     Inr (\<lparr>si_used = used, si_last_paid = last_paid, si_due_payment = due_payment, si_extra = extra\<rparr>, s)))))"

datatype account_state = StateUninit | StateFrozen bytes | StateActive state_init

definition store_account_state :: "crates \<Rightarrow> builder \<Rightarrow> account_state \<Rightarrow> builder result" where
  "store_account_state X b a = (case a of
      StateUninit \<Rightarrow> store_tag b ''00''
    | StateFrozen state_hash \<Rightarrow> and_then (store_tag b ''01'') (\<lambda>b. store_bytes b state_hash)
    | StateActive i \<Rightarrow> and_then (store_tag b ''1'') (\<lambda>b. store_state_init X b i))"

definition load_account_state :: "crates \<Rightarrow> slice \<Rightarrow> (account_state \<times> slice) result" where
  "load_account_state X s =
     and_then (load_tag_bit s ''AccountState'' []) (\<lambda>(first, s).
     if first then and_then (load_state_init X s) (\<lambda>(i, s). Inr (StateActive i, s))
     else and_then (load_tag_bit s ''AccountState'' ''0'') (\<lambda>(second, s).
       if second then and_then (load_bytes s 32) (\<lambda>(h, s). Inr (StateFrozen h, s))
       else Inr (StateUninit, s)))"

record account_storage =
  as_last_trans_lt :: u64
  as_balance :: currency_collection
  as_state :: account_state

definition store_account_storage :: "crates \<Rightarrow> builder \<Rightarrow> account_storage \<Rightarrow> builder result" where
  "store_account_storage X b a =
     and_then (store_u64 X b (as_last_trans_lt a)) (\<lambda>b.
     and_then (store_currency X b (as_balance a)) (\<lambda>b.
     store_account_state X b (as_state a)))"

definition load_account_storage :: "crates \<Rightarrow> slice \<Rightarrow> (account_storage \<times> slice) result" where
  "load_account_storage X s =
     and_then (load_u64 X s) (\<lambda>(lt, s).
     and_then (load_currency X s) (\<lambda>(balance, s).
     and_then (load_account_state X s) (\<lambda>(state, s).
     Inr (\<lparr>as_last_trans_lt = lt, as_balance = balance, as_state = state\<rparr>, s))))"

datatype account_status = StatusUninit | StatusFrozen | StatusActive | StatusNonexist

definition store_account_status :: "builder \<Rightarrow> account_status \<Rightarrow> builder result" where
  "store_account_status b a = (case a of
      StatusUninit \<Rightarrow> store_tag b ''00''
    | StatusFrozen \<Rightarrow> store_tag b ''01''
    | StatusActive \<Rightarrow> store_tag b ''10''
    | StatusNonexist \<Rightarrow> store_tag b ''11'')"

definition load_account_status :: "slice \<Rightarrow> (account_status \<times> slice) result" where
  "load_account_status s = and_then (load_two_bit_tag s ''AccountStatus'') (\<lambda>(bits, s).
     if bits = ''00'' then Inr (StatusUninit, s)
     else if bits = ''01'' then Inr (StatusFrozen, s)
     else if bits = ''10'' then Inr (StatusActive, s)
     else if bits = ''11'' then Inr (StatusNonexist, s)
     else Inl Panic)"

datatype account = AccountNone | AccountFull msg_address_int storage_info account_storage

definition store_account :: "crates \<Rightarrow> builder \<Rightarrow> account \<Rightarrow> builder result" where
  "store_account X b a = (case a of
      AccountNone \<Rightarrow> store_bit b False
    | AccountFull addr storage_stat storage \<Rightarrow>
        and_then (store_bit b True) (\<lambda>b.
        and_then (store_msg_address_int X b addr) (\<lambda>b.
        and_then (store_storage_info X b storage_stat) (\<lambda>b.
        store_account_storage X b storage))))"

definition load_account :: "crates \<Rightarrow> slice \<Rightarrow> (account \<times> slice) result" where
  "load_account X s = and_then (load_bit s) (\<lambda>(full, s).
     if full then
       and_then (load_msg_address_int X s) (\<lambda>(addr, s).
       and_then (load_storage_info X s) (\<lambda>(storage_stat, s).
       and_then (load_account_storage X s) (\<lambda>(storage, s).
       Inr (AccountFull addr storage_stat storage, s))))
     else Inr (AccountNone, s))"

record shard_account =
  sa_account :: account
  sa_last_trans_hash :: bytes
  sa_last_trans_lt :: u64

definition store_shard_account :: "crates \<Rightarrow> builder \<Rightarrow> shard_account \<Rightarrow> builder result" where
  "store_shard_account X b a =
     and_then (store_ref_tlb (store_account X) b (sa_account a)) (\<lambda>b.
     and_then (store_bytes b (sa_last_trans_hash a)) (\<lambda>b.
     store_u64 X b (sa_last_trans_lt a)))"

definition load_shard_account :: "crates \<Rightarrow> slice \<Rightarrow> (shard_account \<times> slice) result" where
  "load_shard_account X s =
     and_then (load_ref_tlb (load_account X) ''Account'' s) (\<lambda>(a, s).
     and_then (load_bytes s 32) (\<lambda>(h, s).
     and_then (load_u64 X s) (\<lambda>(lt, s).
     Inr (\<lparr>sa_account = a, sa_last_trans_hash = h, sa_last_trans_lt = lt\<rparr>, s))))"

record depth_balance_info =
  db_split_depth :: u8
  db_balance :: currency_collection

definition store_depth_balance :: "crates \<Rightarrow> builder \<Rightarrow> depth_balance_info \<Rightarrow> builder result" where
  "store_depth_balance X b d =
     (if 30 < db_split_depth d then Inl (TlbErr (TlbCustomSchema ''DepthBalanceInfo.split_depth''))
      else and_then (store_uint_custom X b (db_split_depth d) 5) (\<lambda>b. store_currency X b (db_balance d)))"

definition load_depth_balance :: "crates \<Rightarrow> slice \<Rightarrow> (depth_balance_info \<times> slice) result" where
  "load_depth_balance X s = and_then (load_uint_custom X s 5) (\<lambda>(split_depth, s).
     if 30 < split_depth then Inl (TlbErr (TlbNonCanonical ''DepthBalanceInfo.split_depth''))
     else and_then (load_currency X s) (\<lambda>(balance, s). Inr (\<lparr>db_split_depth = split_depth, db_balance = balance\<rparr>, s)))"

record hash_update =
  hu_old_hash :: bytes
  hu_new_hash :: bytes

definition store_hash_update :: "crates \<Rightarrow> builder \<Rightarrow> hash_update \<Rightarrow> builder result" where
  "store_hash_update X b u =
     and_then (store_uint X b (0x72 :: u8)) (\<lambda>b.
     and_then (store_bytes b (hu_old_hash u)) (\<lambda>b. store_bytes b (hu_new_hash u)))"

definition load_hash_update :: "slice \<Rightarrow> (hash_update \<times> slice) result" where
  "load_hash_update s =
     and_then (expect_u8_tag s ''HASH_UPDATE Account'' 0x72) (\<lambda>(_, s).
     and_then (load_bytes s 32) (\<lambda>(old_hash, s).
     and_then (load_bytes s 32) (\<lambda>(new_hash, s).
     Inr (\<lparr>hu_old_hash = old_hash, hu_new_hash = new_hash\<rparr>, s))))"

section \<open>Encodings\<close>

fun storage_extra_ok :: "storage_extra_info \<Rightarrow> bool" where
  "storage_extra_ok ExtraNone \<longleftrightarrow> True"
| "storage_extra_ok (ExtraInfo h) \<longleftrightarrow> length h = 32"

fun storage_extra_bits :: "storage_extra_info \<Rightarrow> bool list" where
  "storage_extra_bits ExtraNone = [False, False, False] @ []"
| "storage_extra_bits (ExtraInfo h) = [False, False, True] @ bytes_bits h"

definition storage_info_ok :: "storage_info \<Rightarrow> bool" where
  "storage_info_ok i \<longleftrightarrow> storage_used_ok (si_used i) \<and> storage_extra_ok (si_extra i) \<and> pred_option grams_ok (si_due_payment i)"

definition storage_info_bits :: "storage_info \<Rightarrow> bool list" where
  "storage_info_bits i = storage_used_bits (si_used i) @ storage_extra_bits (si_extra i)
     @ nat_bits 32 (unat (si_last_paid i)) @ maybe_bits (var_enc 4) (si_due_payment i)"

fun account_state_ok :: "account_state \<Rightarrow> bool" where
  "account_state_ok StateUninit \<longleftrightarrow> True"
| "account_state_ok (StateFrozen h) \<longleftrightarrow> length h = 32"
| "account_state_ok (StateActive i) \<longleftrightarrow> state_init_ok i"

fun account_state_bits :: "account_state \<Rightarrow> bool list" where
  "account_state_bits StateUninit = [False] @ [False] @ []"
| "account_state_bits (StateFrozen h) = [False] @ [True] @ bytes_bits h"
| "account_state_bits (StateActive i) = [True] @ state_init_bits i"

fun account_state_refs :: "account_state \<Rightarrow> cell list" where
  "account_state_refs (StateActive i) = state_init_refs i"
| "account_state_refs _ = []"

definition account_storage_ok :: "account_storage \<Rightarrow> bool" where
  "account_storage_ok a \<longleftrightarrow> currency_ok (as_balance a) \<and> account_state_ok (as_state a)"

definition account_storage_bits :: "account_storage \<Rightarrow> bool list" where
  "account_storage_bits a = nat_bits 64 (unat (as_last_trans_lt a)) @ currency_bits (as_balance a) @ account_state_bits (as_state a)"

definition account_storage_refs :: "crates \<Rightarrow> account_storage \<Rightarrow> cell list" where
  "account_storage_refs X a = currency_refs X (as_balance a) @ account_state_refs (as_state a)"

fun account_status_bits :: "account_status \<Rightarrow> bool list" where
  "account_status_bits StatusUninit = [False, False] @ []"
| "account_status_bits StatusFrozen = [False, True] @ []"
| "account_status_bits StatusActive = [True, False] @ []"
| "account_status_bits StatusNonexist = [True, True] @ []"

fun account_ok :: "account \<Rightarrow> bool" where
  "account_ok AccountNone \<longleftrightarrow> True"
| "account_ok (AccountFull addr i a) \<longleftrightarrow> msg_address_int_ok addr \<and> storage_info_ok i \<and> account_storage_ok a"

fun account_bits :: "account \<Rightarrow> bool list" where
  "account_bits AccountNone = [False] @ []"
| "account_bits (AccountFull addr i a) = [True] @ msg_address_int_bits addr @ storage_info_bits i @ account_storage_bits a"

fun account_refs :: "crates \<Rightarrow> account \<Rightarrow> cell list" where
  "account_refs X AccountNone = []"
| "account_refs X (AccountFull addr i a) = account_storage_refs X a"

definition shard_account_ok :: "crates \<Rightarrow> shard_account \<Rightarrow> bool" where
  "shard_account_ok X a \<longleftrightarrow> account_ok (sa_account a) \<and> length (account_bits (sa_account a)) \<le> 1023
     \<and> length (account_refs X (sa_account a)) \<le> 4 \<and> length (sa_last_trans_hash a) = 32"

definition shard_account_bits :: "shard_account \<Rightarrow> bool list" where
  "shard_account_bits a = [] @ bytes_bits (sa_last_trans_hash a) @ nat_bits 64 (unat (sa_last_trans_lt a))"

definition shard_account_refs :: "crates \<Rightarrow> shard_account \<Rightarrow> cell list" where
  "shard_account_refs X a = [mk_cell (account_bits (sa_account a)) (account_refs X (sa_account a))]"

definition depth_balance_ok :: "depth_balance_info \<Rightarrow> bool" where
  "depth_balance_ok d \<longleftrightarrow> db_split_depth d \<le> 30 \<and> currency_ok (db_balance d)"

definition depth_balance_bits :: "depth_balance_info \<Rightarrow> bool list" where
  "depth_balance_bits d = nat_bits 5 (unat (db_split_depth d)) @ currency_bits (db_balance d)"

definition hash_update_ok :: "hash_update \<Rightarrow> bool" where
  "hash_update_ok u \<longleftrightarrow> length (hu_old_hash u) = 32 \<and> length (hu_new_hash u) = 32"

definition hash_update_bits :: "hash_update \<Rightarrow> bool list" where
  "hash_update_bits u = nat_bits 8 0x72 @ bytes_bits (hu_old_hash u) @ bytes_bits (hu_new_hash u)"

section \<open>Codecs\<close>

lemma tag_bit_yields [fields]: "yields (\<lambda>s. load_tag_bit s constructor p) v [v] []"
  by (simp add: yields_def load_tag_bit_def load_bit_eq)

lemma three_bit_tag_yields:
  "yields (\<lambda>s. load_three_bit_tag s constructor) (map (\<lambda>v. if v then CHR ''1'' else CHR ''0'') [u, v, w]) [u, v, w] []"
  by (auto simp: yields_def load_three_bit_tag_def numeral_3_eq_3 load_bit_eq wf_adv)

lemma expect_bits_loop_reads:
  "wf_slice s \<Longrightarrow> slice_bits s = map (\<lambda>c. c = CHR ''1'') tag @ ys \<Longrightarrow>
    expect_bits_loop s constructor tag actual = Inr ((), adv s (length tag) 0)"
  by (induction tag arbitrary: s actual) (simp_all add: load_bit_eq wf_adv)

lemma expect_tag_bits_yields [fields]:
  "ys = map (\<lambda>c. c = CHR ''1'') tag \<Longrightarrow> yields (\<lambda>s. expect_tag_bits s constructor tag) () ys []"
  by (simp add: yields_def expect_tag_bits_def expect_bits_loop_reads)

lemma load_u8_tag_loop_reads:
  "wf_slice s \<Longrightarrow> slice_bits s = bs @ ys \<Longrightarrow>
    \<exists>actual'. load_u8_tag_loop s constructor (length bs) actual tag
      = Inr (tag * 2 ^ length bs + word_of_nat (bits_val bs), actual', adv s (length bs) 0)"
proof (induction bs arbitrary: s actual tag)
  case (Cons v bs)
  let ?tag = "push_bit 1 tag OR (if v then 1 else 0)"
  obtain actual' where "load_u8_tag_loop (adv s 1 0) constructor (length bs) (actual @ [if v then CHR ''1'' else CHR ''0'']) ?tag
      = Inr (?tag * 2 ^ length bs + word_of_nat (bits_val bs), actual', adv (adv s 1 0) (length bs) 0)"
    using Cons.IH[of "adv s 1 0" "actual @ [if v then CHR ''1'' else CHR ''0'']" ?tag] Cons.prems by (auto simp: wf_adv)
  moreover have "?tag * 2 ^ length bs + word_of_nat (bits_val bs) = tag * 2 ^ length (v # bs) + word_of_nat (bits_val (v # bs))"
    unfolding push_bit_or_bit by (cases v) (simp_all add: algebra_simps)
  ultimately show ?case using Cons.prems by (simp add: load_bit_eq)
qed simp

lemma expect_u8_tag_yields [fields]:
  "n = unat tag \<Longrightarrow> yields (\<lambda>s. expect_u8_tag s constructor tag) () (nat_bits 8 n) []"
  unfolding yields_def
proof (intro allI impI)
  fix s ys qs assume s: "n = unat tag" "wf_slice s" "slice_bits s = nat_bits 8 n @ ys"
  have "bits_val (nat_bits 8 n) = unat tag" using unsigned_less[of tag, where ?'a = nat] s(1) by simp
  then obtain actual where "load_u8_tag_loop s constructor 8 [] 0 = Inr (tag, actual, adv s 8 0)"
    using load_u8_tag_loop_reads[OF s(2,3), of constructor "[]" 0] by auto
  then show "expect_u8_tag s constructor tag = Inr ((), adv s (length (nat_bits 8 n)) (length ([] :: cell list)))"
    by (simp add: expect_u8_tag_def)
qed

lemma storage_extra_codec: "value_codec store_storage_extra load_storage_extra storage_extra_ok storage_extra_bits (\<lambda>_. [])"
proof (rule codecI)
  show "emits (\<lambda>b. store_storage_extra b e) (storage_extra_bits e) []" if "storage_extra_ok e" for e
    using that unfolding store_storage_extra_def
    by (cases e) (simp_all only: storage_extra_info.case, (rule emits_eq, (rule fields | (simp; fail))+)+)
  show "yields load_storage_extra e (storage_extra_bits e) []" if "storage_extra_ok e" for e
    using that unfolding load_storage_extra_def
    by (cases e) (simp_all only: storage_extra_bits.simps,
      (rule yields_if(1), (simp; fail) | rule yields_if(2), (simp; fail)
        | rule three_bit_tag_yields yields_last_eq fields | (simp; fail))+)
qed

lemma account_status_codec: "value_codec store_account_status load_account_status (\<lambda>_. True) account_status_bits (\<lambda>_. [])"
proof (rule codecI)
  show "emits (\<lambda>b. store_account_status b e) (account_status_bits e) []" for e
    unfolding store_account_status_def
    by (cases e) (simp_all only: account_status.case, (rule emits_eq, (rule fields | (simp; fail))+)+)
  show "yields load_account_status e (account_status_bits e) []" for e
    unfolding load_account_status_def
    by (cases e) (simp_all only: account_status_bits.simps,
      (rule yields_if(1), (simp; fail) | rule yields_if(2), (simp; fail) | rule fields | (simp; fail))+)
qed

context bignum
begin

lemmas account_parts = storage_used_codec[THEN codec_emits] storage_used_codec[THEN codec_yields]
  storage_extra_codec[THEN codec_emits] storage_extra_codec[THEN codec_yields]
  maybe_codec[OF grams_codec, THEN codec_emits] maybe_codec[OF grams_codec, THEN codec_yields]
  currency_codec[THEN codec_emits] currency_codec[THEN codec_yields]
  state_init_codec[THEN codec_emits] state_init_codec[THEN codec_yields]
  msg_address_int_codec[THEN codec_emits] msg_address_int_codec[THEN codec_yields]
  account_status_codec[THEN codec_emits] account_status_codec[THEN codec_yields]

lemma storage_info_codec: "value_codec (store_storage_info X) (load_storage_info X) storage_info_ok storage_info_bits (\<lambda>_. [])"
proof (rule codecI)
  show "emits (\<lambda>b. store_storage_info X b i) (storage_info_bits i) []" if "storage_info_ok i" for i
    using that unfolding store_storage_info_def storage_info_ok_def
    by - (rule emits_eq, (rule account_parts fields | (simp add: storage_info_bits_def; fail))+)
  show "yields (load_storage_info X) i (storage_info_bits i) []" if "storage_info_ok i" for i
    using that unfolding load_storage_info_def storage_info_ok_def storage_info_bits_def
    by - (rule account_parts fields | (simp; fail))+
qed

lemma account_state_codec:
  "value_codec (store_account_state X) (load_account_state X) account_state_ok account_state_bits account_state_refs"
proof (rule codecI)
  show "emits (\<lambda>b. store_account_state X b a) (account_state_bits a) (account_state_refs a)" if "account_state_ok a" for a
    using that unfolding store_account_state_def
    by (cases a) (simp_all only: account_state.case, (rule emits_eq, (rule account_parts fields | (simp; fail))+)+)
  show "yields (load_account_state X) a (account_state_bits a) (account_state_refs a)" if "account_state_ok a" for a
    using that unfolding load_account_state_def
    by (cases a) (simp_all only: account_state_bits.simps account_state_refs.simps account_state_ok.simps,
      (rule yields_if(1), (simp; fail) | rule yields_if(2), (simp; fail)
        | rule yields_last_eq account_parts fields | (simp; fail))+)
qed

lemma account_storage_codec:
  "value_codec (store_account_storage X) (load_account_storage X) account_storage_ok account_storage_bits (account_storage_refs X)"
proof (rule codecI)
  note parts = account_state_codec[THEN codec_emits] account_state_codec[THEN codec_yields]
  show "emits (\<lambda>b. store_account_storage X b a) (account_storage_bits a) (account_storage_refs X a)" if "account_storage_ok a" for a
    using that unfolding store_account_storage_def account_storage_ok_def
    by - (rule emits_eq, (rule parts account_parts fields | (simp add: account_storage_bits_def account_storage_refs_def; fail))+)
  show "yields (load_account_storage X) a (account_storage_bits a) (account_storage_refs X a)" if "account_storage_ok a" for a
    using that unfolding load_account_storage_def account_storage_ok_def account_storage_bits_def
    by - (rule parts account_parts fields | (simp add: account_storage_refs_def; fail))+
qed

lemma account_codec: "value_codec (store_account X) (load_account X) account_ok account_bits (account_refs X)"
proof (rule codecI)
  note parts = account_storage_codec[THEN codec_emits] account_storage_codec[THEN codec_yields]
    storage_info_codec[THEN codec_emits] storage_info_codec[THEN codec_yields]
  show "emits (\<lambda>b. store_account X b a) (account_bits a) (account_refs X a)" if "account_ok a" for a
    using that unfolding store_account_def
    by (cases a) (simp_all only: account.case account_ok.simps, (rule emits_eq, (rule parts account_parts fields | (simp; fail))+)+)
  show "yields (load_account X) a (account_bits a) (account_refs X a)" if "account_ok a" for a
    using that unfolding load_account_def
    by (cases a) (simp_all only: account_bits.simps account_refs.simps account_ok.simps,
      (rule yields_if(1), (simp; fail) | rule yields_if(2), (simp; fail)
        | rule yields_last_eq parts account_parts fields | (simp; fail))+)
qed

lemma shard_account_codec:
  "value_codec (store_shard_account X) (load_shard_account X) (shard_account_ok X) shard_account_bits (shard_account_refs X)"
proof (rule codecI)
  note r = ref_tlb_codec[OF value_codec_tail[OF account_codec]]
  show "emits (\<lambda>b. store_shard_account X b a) (shard_account_bits a) (shard_account_refs X a)" if "shard_account_ok X a" for a
    using that unfolding store_shard_account_def shard_account_ok_def
    by - (rule emits_eq, (rule codec_emits[OF r] fields | (simp add: shard_account_bits_def shard_account_refs_def; fail))+)
  show "yields (load_shard_account X) a (shard_account_bits a) (shard_account_refs X a)" if "shard_account_ok X a" for a
    using that unfolding load_shard_account_def shard_account_ok_def shard_account_bits_def
    by - (rule codec_yields[OF r, of "sa_account a"] fields | (simp add: shard_account_refs_def; fail))+
qed

lemma depth_balance_codec:
  "value_codec (store_depth_balance X) (load_depth_balance X) depth_balance_ok depth_balance_bits (\<lambda>d. currency_refs X (db_balance d))"
proof (rule codecI)
  show "emits (\<lambda>b. store_depth_balance X b d) (depth_balance_bits d) (currency_refs X (db_balance d))" if "depth_balance_ok d" for d
    using that unfolding store_depth_balance_def depth_balance_ok_def
    by - (rule emits_eq, (rule emits_guard account_parts fields | (simp add: depth_balance_bits_def word_le_nat_alt word_less_nat_alt; fail))+)
  show "yields (load_depth_balance X) d (depth_balance_bits d) (currency_refs X (db_balance d))" if "depth_balance_ok d" for d
    using that unfolding load_depth_balance_def depth_balance_ok_def depth_balance_bits_def
    by - (rule yields_if(2), (simp add: word_le_nat_alt word_less_nat_alt; fail)
      | rule account_parts fields | (simp add: word_le_nat_alt word_less_nat_alt; fail))+
qed

lemma hash_update_codec: "value_codec (store_hash_update X) load_hash_update hash_update_ok hash_update_bits (\<lambda>_. [])"
proof (rule codecI)
  show "emits (\<lambda>b. store_hash_update X b u) (hash_update_bits u) []" if "hash_update_ok u" for u
    using that unfolding store_hash_update_def hash_update_ok_def
    by - (rule emits_eq, (rule fields | (simp add: hash_update_bits_def; fail))+)
  show "yields load_hash_update u (hash_update_bits u) []" if "hash_update_ok u" for u
    using that unfolding load_hash_update_def hash_update_ok_def hash_update_bits_def
    by - (rule fields | (simp; fail))+
qed

end

end
