(* ===== verification/TlbPhases.thy ===== *)
theory TlbPhases
  imports TlbAccount
begin

text \<open>
  The phases of a transaction (\<open>src/tlb/transaction/account.rs\<close>, \<open>src/tlb/transaction/helpers.rs\<close>):
  storage, credit, compute with its child cell, bounce, and the split and merge data.
\<close>

definition VAR_UINT_3_LEN_BITS :: nat where "VAR_UINT_3_LEN_BITS = 2"
definition VAR_UINT_3_MAX_BYTES :: nat where "VAR_UINT_3_MAX_BYTES = 2"

record tr_storage_phase =
  sp_fees_collected :: grams
  sp_fees_due :: "grams option"
  sp_status_change :: acc_status_change

definition store_storage_phase :: "crates \<Rightarrow> builder \<Rightarrow> tr_storage_phase \<Rightarrow> builder result" where
  "store_storage_phase X b p =
     and_then (store_grams X b (sp_fees_collected p)) (\<lambda>b.
     and_then (store_maybe (store_grams X) b (sp_fees_due p)) (\<lambda>b.
     store_acc_status_change b (sp_status_change p)))"

definition load_storage_phase :: "crates \<Rightarrow> slice \<Rightarrow> (tr_storage_phase \<times> slice) result" where
  "load_storage_phase X s =
     and_then (load_grams X s) (\<lambda>(collected, s).
     and_then (load_maybe (load_grams X) s) (\<lambda>(due, s).
     and_then (load_acc_status_change s) (\<lambda>(status_change, s).
     Inr (\<lparr>sp_fees_collected = collected, sp_fees_due = due, sp_status_change = status_change\<rparr>, s))))"

record tr_credit_phase =
  cp_due_fees_collected :: "grams option"
  cp_credit :: currency_collection

definition store_credit_phase :: "crates \<Rightarrow> builder \<Rightarrow> tr_credit_phase \<Rightarrow> builder result" where
  "store_credit_phase X b p =
     and_then (store_maybe (store_grams X) b (cp_due_fees_collected p)) (\<lambda>b. store_currency X b (cp_credit p))"

definition load_credit_phase :: "crates \<Rightarrow> slice \<Rightarrow> (tr_credit_phase \<times> slice) result" where
  "load_credit_phase X s =
     and_then (load_maybe (load_grams X) s) (\<lambda>(due, s).
     and_then (load_currency X s) (\<lambda>(credit, s).
     Inr (\<lparr>cp_due_fees_collected = due, cp_credit = credit\<rparr>, s)))"

datatype compute_skip_reason = NoState | BadState | NoGas | Suspended

definition store_skip_reason :: "builder \<Rightarrow> compute_skip_reason \<Rightarrow> builder result" where
  "store_skip_reason b r = (case r of
      NoState \<Rightarrow> store_tag b ''00''
    | BadState \<Rightarrow> store_tag b ''01''
    | NoGas \<Rightarrow> store_tag b ''10''
    | Suspended \<Rightarrow> store_tag b ''110'')"

definition load_skip_reason :: "slice \<Rightarrow> (compute_skip_reason \<times> slice) result" where
  "load_skip_reason s =
     and_then (load_tag_bit s ''ComputeSkipReason'' []) (\<lambda>(first, s).
     and_then (load_tag_bit s ''ComputeSkipReason'' (if first then ''1'' else ''0'')) (\<lambda>(second, s).
     if \<not> first \<and> \<not> second then Inr (NoState, s)
     else if \<not> first \<and> second then Inr (BadState, s)
     else if first \<and> \<not> second then Inr (NoGas, s)
     else and_then (load_tag_bit s ''ComputeSkipReason'' ''11'') (\<lambda>(third, s).
       if third then Inl (TlbErr (TlbTagMismatch ''ComputeSkipReason'' ''111'')) else Inr (Suspended, s))))"

record compute_vm =
  vm_success :: bool
  vm_msg_state_used :: bool
  vm_account_activated :: bool
  vm_gas_fees :: grams
  vm_gas_used :: nat
  vm_gas_limit :: nat
  vm_gas_credit :: "nat option"
  vm_mode :: i8
  vm_exit_code :: i32
  vm_exit_arg :: "i32 option"
  vm_steps :: u32
  vm_init_state_hash :: bytes
  vm_final_state_hash :: bytes

datatype tr_compute_phase = ComputeSkipped compute_skip_reason | ComputeVm compute_vm

definition store_var_uint_3 :: "crates \<Rightarrow> builder \<Rightarrow> nat \<Rightarrow> string \<Rightarrow> builder result" where
  "store_var_uint_3 X b v schema =
     (if VAR_UINT_3_MAX_BYTES < length (biguint_to_bytes_be X v) then Inl (TlbErr (TlbNonCanonical schema))
      else store_var_uint_tlb X b v VAR_UINT_3_LEN_BITS)"

definition load_var_uint_3 :: "crates \<Rightarrow> slice \<Rightarrow> string \<Rightarrow> (nat \<times> slice) result" where
  "load_var_uint_3 X s schema =
     and_then (load_var_uint_tlb X s VAR_UINT_3_LEN_BITS) (\<lambda>(v, s).
     if VAR_UINT_3_MAX_BYTES < length (biguint_to_bytes_be X v) then Inl (TlbErr (TlbNonCanonical schema))
     else Inr (v, s))"

definition store_maybe_var_uint_3 :: "crates \<Rightarrow> builder \<Rightarrow> nat option \<Rightarrow> builder result" where
  "store_maybe_var_uint_3 X b v = (case v of
      Some v \<Rightarrow> and_then (store_bit b True) (\<lambda>b. store_var_uint_3 X b v ''TrComputePhase.gas_credit'')
    | None \<Rightarrow> store_bit b False)"

definition load_maybe_var_uint_3 :: "crates \<Rightarrow> slice \<Rightarrow> (nat option \<times> slice) result" where
  "load_maybe_var_uint_3 X s = and_then (load_bit s) (\<lambda>(present, s).
     if present then and_then (load_var_uint_3 X s ''TrComputePhase.gas_credit'') (\<lambda>(v, s). Inr (Some v, s)) else Inr (None, s))"

text \<open>The fields of the child cell.\<close>

definition store_vm_child :: "crates \<Rightarrow> builder \<Rightarrow> compute_vm \<Rightarrow> builder result" where
  "store_vm_child X b v =
     and_then (store_var_uint_7 X b (vm_gas_used v) ''TrComputePhase.gas_used'') (\<lambda>b.
     and_then (store_var_uint_7 X b (vm_gas_limit v) ''TrComputePhase.gas_limit'') (\<lambda>b.
     and_then (store_maybe_var_uint_3 X b (vm_gas_credit v)) (\<lambda>b.
     and_then (store_int_as X b (vm_mode v) 8) (\<lambda>b.
     and_then (store_int_as X b (vm_exit_code v) 32) (\<lambda>b.
     and_then (store_maybe_i32 X b (vm_exit_arg v)) (\<lambda>b.
     and_then (store_u32 X b (vm_steps v)) (\<lambda>b.
     and_then (store_bytes b (vm_init_state_hash v)) (\<lambda>b.
     store_bytes b (vm_final_state_hash v)))))))))"

definition store_compute_phase :: "crates \<Rightarrow> builder \<Rightarrow> tr_compute_phase \<Rightarrow> builder result" where
  "store_compute_phase X b p = (case p of
      ComputeSkipped reason \<Rightarrow> and_then (store_tag b ''0'') (\<lambda>b. store_skip_reason b reason)
    | ComputeVm v \<Rightarrow>
        and_then (store_tag b ''1'') (\<lambda>b.
        and_then (store_bit b (vm_success v)) (\<lambda>b.
        and_then (store_bit b (vm_msg_state_used v)) (\<lambda>b.
        and_then (store_bit b (vm_account_activated v)) (\<lambda>b.
        and_then (store_grams X b (vm_gas_fees v)) (\<lambda>b.
        and_then (store_vm_child X builder_new v) (\<lambda>child.
        and_then (builder_build child) (\<lambda>c. store_ref b c))))))))"

definition load_compute_vm_tail :: "crates \<Rightarrow> slice \<Rightarrow> bool \<Rightarrow> bool \<Rightarrow> bool \<Rightarrow> grams \<Rightarrow> (tr_compute_phase \<times> slice) result" where
  "load_compute_vm_tail X s ok msg_state_used account_activated gas_fees =
     and_then (load_var_uint_7 X s ''TrComputePhase.gas_used'') (\<lambda>(gas_used, s).
     and_then (load_var_uint_7 X s ''TrComputePhase.gas_limit'') (\<lambda>(gas_limit, s).
     and_then (load_maybe_var_uint_3 X s) (\<lambda>(gas_credit, s).
     and_then (load_int_as X s 8) (\<lambda>(mode, s).
     and_then (load_int_as X s 32) (\<lambda>(exit_code, s).
     and_then (load_maybe_i32 X s) (\<lambda>(exit_arg, s).
     and_then (load_u32 X s) (\<lambda>(steps, s).
     and_then (load_bytes s 32) (\<lambda>(init_hash, s).
     and_then (load_bytes s 32) (\<lambda>(final_hash, s).
     Inr (ComputeVm \<lparr>vm_success = ok, vm_msg_state_used = msg_state_used, vm_account_activated = account_activated,
       vm_gas_fees = gas_fees, vm_gas_used = gas_used, vm_gas_limit = gas_limit, vm_gas_credit = gas_credit,
       vm_mode = mode, vm_exit_code = exit_code, vm_exit_arg = exit_arg, vm_steps = steps,
       vm_init_state_hash = init_hash, vm_final_state_hash = final_hash\<rparr>, s))))))))))"

definition load_compute_phase :: "crates \<Rightarrow> slice \<Rightarrow> (tr_compute_phase \<times> slice) result" where
  "load_compute_phase X s =
     and_then (load_tag_bit s ''TrComputePhase'' []) (\<lambda>(vm, s).
     if \<not> vm then and_then (load_skip_reason s) (\<lambda>(reason, s). Inr (ComputeSkipped reason, s))
     else
       and_then (load_bit s) (\<lambda>(ok, s).
       and_then (load_bit s) (\<lambda>(msg_state_used, s).
       and_then (load_bit s) (\<lambda>(account_activated, s).
       and_then (load_grams X s) (\<lambda>(gas_fees, s).
       and_then (load_reference s) (\<lambda>(child, s).
       and_then (map_err (TlbInvalidReference ''TrComputePhase.vm'')
           (load_compute_vm_tail X (slice_new child) ok msg_state_used account_activated gas_fees)) (\<lambda>(v, cs).
       and_then (map_err (TlbInvalidReference ''TrComputePhase.vm'') (ensure_empty cs)) (\<lambda>_.
       Inr (v, s)))))))))"

datatype tr_bounce_phase = BounceNegativeFunds | BounceNoFunds storage_used grams | BounceOk storage_used grams grams

definition store_bounce_phase :: "crates \<Rightarrow> builder \<Rightarrow> tr_bounce_phase \<Rightarrow> builder result" where
  "store_bounce_phase X b p = (case p of
      BounceNegativeFunds \<Rightarrow> store_tag b ''00''
    | BounceNoFunds msg_size req_fwd_fees \<Rightarrow>
        and_then (store_tag b ''01'') (\<lambda>b.
        and_then (store_storage_used X b msg_size) (\<lambda>b. store_grams X b req_fwd_fees))
    | BounceOk msg_size msg_fees fwd_fees \<Rightarrow>
        and_then (store_tag b ''1'') (\<lambda>b.
        and_then (store_storage_used X b msg_size) (\<lambda>b.
        and_then (store_grams X b msg_fees) (\<lambda>b. store_grams X b fwd_fees))))"

definition load_bounce_phase :: "crates \<Rightarrow> slice \<Rightarrow> (tr_bounce_phase \<times> slice) result" where
  "load_bounce_phase X s =
     and_then (load_tag_bit s ''TrBouncePhase'' []) (\<lambda>(first, s).
     if first then
       and_then (load_storage_used X s) (\<lambda>(msg_size, s).
       and_then (load_grams X s) (\<lambda>(msg_fees, s).
       and_then (load_grams X s) (\<lambda>(fwd_fees, s). Inr (BounceOk msg_size msg_fees fwd_fees, s))))
     else and_then (load_tag_bit s ''TrBouncePhase'' ''0'') (\<lambda>(second, s).
       if second then
         and_then (load_storage_used X s) (\<lambda>(msg_size, s).
         and_then (load_grams X s) (\<lambda>(req, s). Inr (BounceNoFunds msg_size req, s)))
       else Inr (BounceNegativeFunds, s)))"

record split_merge_info =
  sm_cur_shard_pfx_len :: u8
  sm_acc_split_depth :: u8
  sm_this_addr :: bytes
  sm_sibling_addr :: bytes

definition validate_u6 :: "string \<Rightarrow> u8 \<Rightarrow> unit result" where
  "validate_u6 schema v = (if 63 < v then Inl (TlbErr (TlbCustomSchema schema)) else Inr ())"

definition store_split_merge_info :: "crates \<Rightarrow> builder \<Rightarrow> split_merge_info \<Rightarrow> builder result" where
  "store_split_merge_info X b i =
     and_then (validate_u6 ''SplitMergeInfo.cur_shard_pfx_len'' (sm_cur_shard_pfx_len i)) (\<lambda>_.
     and_then (validate_u6 ''SplitMergeInfo.acc_split_depth'' (sm_acc_split_depth i)) (\<lambda>_.
     and_then (store_uint_custom X b (sm_cur_shard_pfx_len i) 6) (\<lambda>b.
     and_then (store_uint_custom X b (sm_acc_split_depth i) 6) (\<lambda>b.
     and_then (store_bytes b (sm_this_addr i)) (\<lambda>b.
     store_bytes b (sm_sibling_addr i))))))"

definition load_split_merge_info :: "crates \<Rightarrow> slice \<Rightarrow> (split_merge_info \<times> slice) result" where
  "load_split_merge_info X s =
     and_then (load_uint_custom X s 6) (\<lambda>(pfx_len, s).
     and_then (load_uint_custom X s 6) (\<lambda>(depth, s).
     and_then (load_bytes s 32) (\<lambda>(this_addr, s).
     and_then (load_bytes s 32) (\<lambda>(sibling_addr, s).
     Inr (\<lparr>sm_cur_shard_pfx_len = pfx_len, sm_acc_split_depth = depth, sm_this_addr = this_addr,
           sm_sibling_addr = sibling_addr\<rparr>, s)))))"

section \<open>Encodings\<close>

definition storage_phase_ok :: "tr_storage_phase \<Rightarrow> bool" where
  "storage_phase_ok p \<longleftrightarrow> grams_ok (sp_fees_collected p) \<and> pred_option grams_ok (sp_fees_due p)"

definition storage_phase_bits :: "tr_storage_phase \<Rightarrow> bool list" where
  "storage_phase_bits p = var_enc 4 (sp_fees_collected p) @ maybe_bits (var_enc 4) (sp_fees_due p) @ acc_status_bits (sp_status_change p)"

definition credit_phase_ok :: "tr_credit_phase \<Rightarrow> bool" where
  "credit_phase_ok p \<longleftrightarrow> pred_option grams_ok (cp_due_fees_collected p) \<and> currency_ok (cp_credit p)"

definition credit_phase_bits :: "tr_credit_phase \<Rightarrow> bool list" where
  "credit_phase_bits p = maybe_bits (var_enc 4) (cp_due_fees_collected p) @ currency_bits (cp_credit p)"

definition credit_phase_refs :: "crates \<Rightarrow> tr_credit_phase \<Rightarrow> cell list" where
  "credit_phase_refs X p = currency_refs X (cp_credit p)"

fun skip_reason_bits :: "compute_skip_reason \<Rightarrow> bool list" where
  "skip_reason_bits NoState = [False] @ [False] @ []"
| "skip_reason_bits BadState = [False] @ [True] @ []"
| "skip_reason_bits NoGas = [True] @ [False] @ []"
| "skip_reason_bits Suspended = [True] @ [True] @ [False] @ []"

definition vm_child_ok :: "compute_vm \<Rightarrow> bool" where
  "vm_child_ok v \<longleftrightarrow> grams_ok (vm_gas_fees v) \<and> vm_gas_used v < 256 ^ 6 \<and> vm_gas_limit v < 256 ^ 6
     \<and> pred_option (\<lambda>g. g < 256 ^ 2) (vm_gas_credit v) \<and> length (vm_init_state_hash v) = 32 \<and> length (vm_final_state_hash v) = 32"

definition vm_child_bits :: "compute_vm \<Rightarrow> bool list" where
  "vm_child_bits v = var_enc 3 (vm_gas_used v) @ var_enc 3 (vm_gas_limit v) @ maybe_bits (var_enc 2) (vm_gas_credit v)
     @ nat_bits 8 (unat (vm_mode v)) @ nat_bits 32 (unat (vm_exit_code v)) @ maybe_bits (\<lambda>v. nat_bits 32 (unat v)) (vm_exit_arg v)
     @ nat_bits 32 (unat (vm_steps v)) @ bytes_bits (vm_init_state_hash v) @ bytes_bits (vm_final_state_hash v)"

fun compute_phase_ok :: "tr_compute_phase \<Rightarrow> bool" where
  "compute_phase_ok (ComputeSkipped r) \<longleftrightarrow> True"
| "compute_phase_ok (ComputeVm v) \<longleftrightarrow> vm_child_ok v"

fun compute_phase_bits :: "tr_compute_phase \<Rightarrow> bool list" where
  "compute_phase_bits (ComputeSkipped r) = [False] @ skip_reason_bits r"
| "compute_phase_bits (ComputeVm v) = [True] @ [vm_success v] @ [vm_msg_state_used v] @ [vm_account_activated v] @ var_enc 4 (vm_gas_fees v) @ []"

fun compute_phase_refs :: "tr_compute_phase \<Rightarrow> cell list" where
  "compute_phase_refs (ComputeSkipped r) = []"
| "compute_phase_refs (ComputeVm v) = [mk_cell (vm_child_bits v) []]"

fun bounce_phase_ok :: "tr_bounce_phase \<Rightarrow> bool" where
  "bounce_phase_ok BounceNegativeFunds \<longleftrightarrow> True"
| "bounce_phase_ok (BounceNoFunds u g) \<longleftrightarrow> storage_used_ok u \<and> grams_ok g"
| "bounce_phase_ok (BounceOk u g h) \<longleftrightarrow> storage_used_ok u \<and> grams_ok g \<and> grams_ok h"

fun bounce_phase_bits :: "tr_bounce_phase \<Rightarrow> bool list" where
  "bounce_phase_bits BounceNegativeFunds = [False] @ [False] @ []"
| "bounce_phase_bits (BounceNoFunds u g) = [False] @ [True] @ storage_used_bits u @ var_enc 4 g"
| "bounce_phase_bits (BounceOk u g h) = [True] @ storage_used_bits u @ var_enc 4 g @ var_enc 4 h"

definition split_merge_ok :: "split_merge_info \<Rightarrow> bool" where
  "split_merge_ok i \<longleftrightarrow> sm_cur_shard_pfx_len i \<le> 63 \<and> sm_acc_split_depth i \<le> 63
     \<and> length (sm_this_addr i) = 32 \<and> length (sm_sibling_addr i) = 32"

definition split_merge_bits :: "split_merge_info \<Rightarrow> bool list" where
  "split_merge_bits i = nat_bits 6 (unat (sm_cur_shard_pfx_len i)) @ nat_bits 6 (unat (sm_acc_split_depth i))
     @ bytes_bits (sm_this_addr i) @ bytes_bits (sm_sibling_addr i)"

section \<open>Codecs\<close>

text \<open>A child cell built in a builder of its own, and read by a reader of its own.\<close>

lemma emits_child:
  assumes "emits f ys qs" "length ys \<le> 1023" "length qs \<le> 4"
  shows "emits (\<lambda>b. and_then (f builder_new) (\<lambda>m. and_then (builder_build m) (\<lambda>c. store_ref b c))) [] [mk_cell ys qs]"
proof -
  have "f builder_new = Inr (mk_b ys qs)"
    using assms(1)[unfolded emits_def, rule_format, of "[]" "[]"] assms(2,3) by (simp add: builder_new_eq)
  then show ?thesis using assms(2,3) by (simp add: emits_def builder_build_mk store_ref_mk)
qed

lemma child_reads:
  assumes "yields g v ys qs" "wf_cell (mk_cell ys qs)"
  obtains t where "g (slice_new (mk_cell ys qs)) = Inr (v, t)" "ensure_empty t = Inr ()"
proof (rule that)
  let ?s = "slice_new (mk_cell ys qs)"
  show "g ?s = Inr (v, adv ?s (length ys) (length qs))"
    using assms(1)[unfolded yields_def, rule_format, of ?s "[]" "[]"] assms(2) by simp
  show "ensure_empty (adv ?s (length ys) (length qs)) = Inr ()"
    using assms(2) by (simp add: ensure_empty_def slice_is_empty_eq wf_adv)
qed

lemma yields_child:
  assumes "yields g v ys qs" and "\<And>t. ensure_empty t = Inr () \<Longrightarrow> g (slice_new (mk_cell ys qs)) = Inr (v, t) \<Longrightarrow> k (mk_cell ys qs) = Inr w"
  shows "yields (\<lambda>s. and_then (load_reference s) (\<lambda>(c, s). and_then (k c) (\<lambda>v. Inr (v, s)))) w [] [mk_cell ys qs]"
  unfolding yields_def
proof (intro allI impI)
  fix s ys' qs' assume s: "wf_slice s" "slice_bits s = [] @ ys'" "slice_refs s = [mk_cell ys qs] @ qs'"
  then have "wf_cell (mk_cell ys qs)" by (intro wf_slice_refs[of s]) simp_all
  then obtain t where "g (slice_new (mk_cell ys qs)) = Inr (v, t)" "ensure_empty t = Inr ()"
    by (rule child_reads[OF assms(1)])
  then show "and_then (load_reference s) (\<lambda>(c, s). and_then (k c) (\<lambda>v. Inr (v, s)))
      = Inr (w, adv s (length ([] :: bool list)) (length [mk_cell ys qs]))"
    using s assms(2) by (simp add: load_reference_eq)
qed

lemma maybe_refs_empty: "maybe_refs (\<lambda>_. []) = (\<lambda>_. [])"
  by (simp add: fun_eq_iff)

lemma skip_reason_codec: "value_codec store_skip_reason load_skip_reason (\<lambda>_. True) skip_reason_bits (\<lambda>_. [])"
proof (rule codecI)
  show "emits (\<lambda>b. store_skip_reason b r) (skip_reason_bits r) []" for r
    unfolding store_skip_reason_def
    by (cases r) (simp_all only: compute_skip_reason.case, (rule emits_eq, (rule fields | (simp; fail))+)+)
  show "yields load_skip_reason r (skip_reason_bits r) []" for r
    unfolding load_skip_reason_def
    by (cases r) (simp_all only: skip_reason_bits.simps,
      (rule yields_if(1), (simp; fail) | rule yields_if(2), (simp; fail) | rule fields | (simp; fail))+)
qed

context bignum
begin

lemma var_uint_3_steps:
  assumes "v < 256 ^ 2"
  shows "emits (\<lambda>b. store_var_uint_3 X b v schema) (var_enc 2 v) []"
    "yields (\<lambda>s. load_var_uint_3 X s schema) v (var_enc 2 v) []"
proof -
  have v: "var_len v \<le> 2" using assms by (simp add: var_len_le_iff)
  then have "length (biguint_to_bytes_be X v) \<le> 2"
    by (cases "v = 0") (simp_all add: biguint_to_bytes_be length_min_be_bytes min_be_bytes_var)
  then have g: "\<not> VAR_UINT_3_MAX_BYTES < length (biguint_to_bytes_be X v)" by (simp add: VAR_UINT_3_MAX_BYTES_def)
  show "emits (\<lambda>b. store_var_uint_3 X b v schema) (var_enc 2 v) []"
    using g v var_uint_steps(1)[of 2 v] by (simp add: store_var_uint_3_def VAR_UINT_3_LEN_BITS_def)
  show "yields (\<lambda>s. load_var_uint_3 X s schema) v (var_enc 2 v) []"
    using g v var_uint_steps(2)[of 2 v] by (simp add: load_var_uint_3_def VAR_UINT_3_LEN_BITS_def yields_def)
qed

lemma maybe_var_uint_3_codec:
  "value_codec (store_maybe_var_uint_3 X) (load_maybe_var_uint_3 X) (pred_option (\<lambda>v. v < 256 ^ 2)) (maybe_bits (var_enc 2)) (\<lambda>_. [])"
proof -
  have "value_codec (\<lambda>b v. store_var_uint_3 X b v schema) (\<lambda>s. load_var_uint_3 X s schema) (\<lambda>v. v < 256 ^ 2) (var_enc 2) (\<lambda>_. [])" for schema
    by (rule codecI) (rule var_uint_3_steps; assumption)+
  note c = maybe_codec[OF this, of "''TrComputePhase.gas_credit''"]
  have "store_maybe_var_uint_3 X = store_maybe (\<lambda>b v. store_var_uint_3 X b v ''TrComputePhase.gas_credit'')"
    "load_maybe_var_uint_3 X = load_maybe (\<lambda>s. load_var_uint_3 X s ''TrComputePhase.gas_credit'')"
    by (simp_all add: fun_eq_iff store_maybe_def load_maybe_def store_maybe_var_uint_3_def load_maybe_var_uint_3_def)
  with c show ?thesis by (simp only: maybe_refs_empty)
qed

lemma maybe_i32_codec:
  "value_codec (store_maybe_i32 X) (load_maybe_i32 X) (\<lambda>_. True) (maybe_bits (\<lambda>v. nat_bits 32 (unat v))) (\<lambda>_. [])"
proof -
  have "value_codec (\<lambda>b v. store_int_as X b v 32) (\<lambda>s. load_int_as X s 32) (\<lambda>_. True) (\<lambda>v :: i32. nat_bits 32 (unat v)) (\<lambda>_. [])"
    using int_as_codec[where ?'a = 32] by simp
  note c = maybe_codec[OF this]
  have "store_maybe_i32 X = store_maybe (\<lambda>b v. store_int_as X b v 32)" "load_maybe_i32 X = load_maybe (\<lambda>s. load_int_as X s 32)"
    "pred_option (\<lambda>_. True) = (\<lambda>_ :: i32 option. True)"
    by (simp_all add: fun_eq_iff store_maybe_i32_def load_maybe_i32_def store_maybe_def load_maybe_def option.pred_True)
  with c show ?thesis by (simp only: maybe_refs_empty)
qed

lemmas phase_parts = account_parts maybe_i32_codec[THEN codec_emits] maybe_i32_codec[THEN codec_yields]
  maybe_var_uint_3_codec[THEN codec_emits] maybe_var_uint_3_codec[THEN codec_yields]
  acc_status_codec[THEN codec_emits] acc_status_codec[THEN codec_yields]
  skip_reason_codec[THEN codec_emits] skip_reason_codec[THEN codec_yields] var_uint_7_steps

lemma storage_phase_codec: "value_codec (store_storage_phase X) (load_storage_phase X) storage_phase_ok storage_phase_bits (\<lambda>_. [])"
proof (rule codecI)
  show "emits (\<lambda>b. store_storage_phase X b p) (storage_phase_bits p) []" if "storage_phase_ok p" for p
    using that unfolding store_storage_phase_def storage_phase_ok_def
    by - (rule emits_eq, (rule phase_parts fields | (simp add: storage_phase_bits_def; fail))+)
  show "yields (load_storage_phase X) p (storage_phase_bits p) []" if "storage_phase_ok p" for p
    using that unfolding load_storage_phase_def storage_phase_ok_def storage_phase_bits_def
    by - (rule phase_parts fields | (simp; fail))+
qed

lemma credit_phase_codec: "value_codec (store_credit_phase X) (load_credit_phase X) credit_phase_ok credit_phase_bits (credit_phase_refs X)"
proof (rule codecI)
  show "emits (\<lambda>b. store_credit_phase X b p) (credit_phase_bits p) (credit_phase_refs X p)" if "credit_phase_ok p" for p
    using that unfolding store_credit_phase_def credit_phase_ok_def
    by - (rule emits_eq, (rule phase_parts fields | (simp add: credit_phase_bits_def credit_phase_refs_def; fail))+)
  show "yields (load_credit_phase X) p (credit_phase_bits p) (credit_phase_refs X p)" if "credit_phase_ok p" for p
    using that unfolding load_credit_phase_def credit_phase_ok_def credit_phase_bits_def
    by - (rule phase_parts fields | (simp add: credit_phase_refs_def; fail))+
qed

lemma vm_child_steps:
  assumes "vm_child_ok v"
  shows "emits (\<lambda>b. store_vm_child X b v) (vm_child_bits v) []"
    "yields (\<lambda>s. load_compute_vm_tail X s (vm_success v) (vm_msg_state_used v) (vm_account_activated v) (vm_gas_fees v))
       (ComputeVm v) (vm_child_bits v) []"
    "length (vm_child_bits v) \<le> 1023"
proof -
  show "emits (\<lambda>b. store_vm_child X b v) (vm_child_bits v) []"
    using assms unfolding store_vm_child_def vm_child_ok_def
    by - (rule emits_eq, (rule phase_parts fields | (simp add: vm_child_bits_def; fail))+)
  show "yields (\<lambda>s. load_compute_vm_tail X s (vm_success v) (vm_msg_state_used v) (vm_account_activated v) (vm_gas_fees v))
       (ComputeVm v) (vm_child_bits v) []"
    using assms unfolding load_compute_vm_tail_def vm_child_ok_def vm_child_bits_def
    by - (rule phase_parts fields | (simp; fail))+
  have "var_len (vm_gas_used v) \<le> 6" "var_len (vm_gas_limit v) \<le> 6" "pred_option (\<lambda>g. var_len g \<le> 2) (vm_gas_credit v)"
    using assms by (auto simp: vm_child_ok_def var_len_le_iff option.pred_set)
  then show "length (vm_child_bits v) \<le> 1023" using assms
    by (auto simp: vm_child_ok_def vm_child_bits_def maybe_bits_def split: option.splits)
qed

lemma compute_phase_codec:
  "value_codec (store_compute_phase X) (load_compute_phase X) compute_phase_ok compute_phase_bits compute_phase_refs"
proof (rule codecI)
  show "emits (\<lambda>b. store_compute_phase X b p) (compute_phase_bits p) (compute_phase_refs p)" if "compute_phase_ok p" for p
  proof (cases p)
    case (ComputeSkipped r)
    show ?thesis unfolding ComputeSkipped store_compute_phase_def tr_compute_phase.case
      by (rule emits_eq, (rule phase_parts fields | (simp; fail))+)
  next
    case (ComputeVm v)
    then have v: "vm_child_ok v" using that by simp
    note child = emits_child[OF vm_child_steps(1,3)[OF v]]
    show ?thesis using v unfolding ComputeVm store_compute_phase_def tr_compute_phase.case vm_child_ok_def
      by - (rule emits_eq, (rule child phase_parts fields | (simp; fail))+)
  qed
  show "yields (load_compute_phase X) p (compute_phase_bits p) (compute_phase_refs p)" if "compute_phase_ok p" for p
  proof (cases p)
    case (ComputeSkipped r)
    show ?thesis unfolding ComputeSkipped load_compute_phase_def compute_phase_bits.simps compute_phase_refs.simps
      by (rule yields_if(1), (simp; fail) | rule yields_last_eq phase_parts fields | (simp; fail))+
  next
    case (ComputeVm v)
    then have v: "vm_child_ok v" using that by simp
    have child: "yields (\<lambda>s. and_then (load_reference s) (\<lambda>(child, s).
       and_then (map_err (TlbInvalidReference ''TrComputePhase.vm'')
           (load_compute_vm_tail X (slice_new child) (vm_success v) (vm_msg_state_used v) (vm_account_activated v) (vm_gas_fees v))) (\<lambda>(v, cs).
       and_then (map_err (TlbInvalidReference ''TrComputePhase.vm'') (ensure_empty cs)) (\<lambda>_. Inr (v, s)))))
       (ComputeVm v) [] [mk_cell (vm_child_bits v) []]"
      using yields_child[OF vm_child_steps(2)[OF v], of "\<lambda>c. and_then (map_err (TlbInvalidReference ''TrComputePhase.vm'')
           (load_compute_vm_tail X (slice_new c) (vm_success v) (vm_msg_state_used v) (vm_account_activated v) (vm_gas_fees v))) (\<lambda>(v, cs).
       and_then (map_err (TlbInvalidReference ''TrComputePhase.vm'') (ensure_empty cs)) (\<lambda>_. Inr v))" "ComputeVm v"]
      by (simp add: and_then_assoc case_prod_unfold)
    show ?thesis using v unfolding ComputeVm load_compute_phase_def compute_phase_bits.simps compute_phase_refs.simps vm_child_ok_def
      by - (rule yields_if(2), (simp; fail) | rule child phase_parts fields | (simp; fail))+
  qed
qed

lemma bounce_phase_codec: "value_codec (store_bounce_phase X) (load_bounce_phase X) bounce_phase_ok bounce_phase_bits (\<lambda>_. [])"
proof (rule codecI)
  show "emits (\<lambda>b. store_bounce_phase X b p) (bounce_phase_bits p) []" if "bounce_phase_ok p" for p
    using that unfolding store_bounce_phase_def
    by (cases p) (simp_all only: tr_bounce_phase.case bounce_phase_ok.simps, (rule emits_eq, (rule phase_parts fields | (simp; fail))+)+)
  show "yields (load_bounce_phase X) p (bounce_phase_bits p) []" if "bounce_phase_ok p" for p
    using that unfolding load_bounce_phase_def
    by (cases p) (simp_all only: bounce_phase_bits.simps bounce_phase_ok.simps,
      (rule yields_if(1), (simp; fail) | rule yields_if(2), (simp; fail) | rule yields_last_eq phase_parts fields | (simp; fail))+)
qed

lemma split_merge_codec: "value_codec (store_split_merge_info X) (load_split_merge_info X) split_merge_ok split_merge_bits (\<lambda>_. [])"
proof (rule codecI)
  show "emits (\<lambda>b. store_split_merge_info X b i) (split_merge_bits i) []" if "split_merge_ok i" for i
    using that unfolding store_split_merge_info_def split_merge_ok_def
    by - (rule emits_eq, (rule emits_check[where v = "()"] fields
        | (simp add: split_merge_bits_def validate_u6_def word_le_nat_alt word_less_nat_alt; fail))+)
  show "yields (load_split_merge_info X) i (split_merge_bits i) []" if "split_merge_ok i" for i
    using that unfolding load_split_merge_info_def split_merge_ok_def split_merge_bits_def
    by - (rule fields | (simp add: word_le_nat_alt; fail))+
qed

end

end
