(* ===== verification/TlbTransaction.thy ===== *)
theory TlbTransaction
  imports TlbPhases
begin

text \<open>
  Transactions and their descriptions (\<open>src/tlb/transaction/account.rs\<close>,
  \<open>src/tlb/transaction/helpers.rs\<close>).  A description of a split or merge installation holds the
  prepared transaction in a reference, so the two types are recursive through cells: the
  writers recurse on the value, the readers on the cell, and both end.
\<close>

definition OUT_MSG_KEY_BITS :: nat where "OUT_MSG_KEY_BITS = 15"

section \<open>Types\<close>

type_synonym msg = "common_msg_info message"

record tx_fields =
  tx_account_addr :: bytes
  tx_lt :: u64
  tx_prev_trans_hash :: bytes
  tx_prev_trans_lt :: u64
  tx_now :: u32
  tx_outmsg_cnt :: u16
  tx_orig_status :: account_status
  tx_end_status :: account_status
  tx_in_msg :: "msg option"
  tx_out_msgs :: "msg hashmap_e"
  tx_total_fees :: currency_collection
  tx_state_update :: hash_update

text \<open>The fields of \<open>Transaction\<close> but the last are the record; the constructors keep the order of the source.\<close>

datatype transaction_descr =
    TransOrdinary bool "tr_storage_phase option" "tr_credit_phase option" tr_compute_phase "tr_action_phase option"
      bool "tr_bounce_phase option" bool
  | TransStorage tr_storage_phase
  | TransTickTock bool tr_storage_phase tr_compute_phase "tr_action_phase option" bool bool
  | TransSplitPrepare split_merge_info "tr_storage_phase option" tr_compute_phase "tr_action_phase option" bool bool
  | TransSplitInstall split_merge_info transaction bool
  | TransMergePrepare split_merge_info tr_storage_phase bool
  | TransMergeInstall split_merge_info transaction "tr_storage_phase option" "tr_credit_phase option" tr_compute_phase
      "tr_action_phase option" bool bool
and transaction = Transaction tx_fields transaction_descr

section \<open>Writers\<close>

definition store_maybe_ref_action_phase :: "crates \<Rightarrow> builder \<Rightarrow> tr_action_phase option \<Rightarrow> builder result" where
  "store_maybe_ref_action_phase X b a = (case a of
      Some a \<Rightarrow> and_then (store_bit b True) (\<lambda>b. store_ref_tlb (store_tr_action_phase X) b a)
    | None \<Rightarrow> store_bit b False)"

definition store_maybe_ref_message :: "crates \<Rightarrow> builder \<Rightarrow> msg option \<Rightarrow> builder result" where
  "store_maybe_ref_message X b m = (case m of
      Some m \<Rightarrow> and_then (store_bit b True) (\<lambda>b. store_ref_tlb (store_message X) b m)
    | None \<Rightarrow> store_bit b False)"

text \<open>The child cell with the messages.\<close>

definition store_messages :: "crates \<Rightarrow> builder \<Rightarrow> msg option \<times> msg hashmap_e \<Rightarrow> builder result" where
  "store_messages X b m =
     and_then (store_maybe_ref_message X b (fst m)) (\<lambda>b.
     store_hashmap_e_with b (snd m) (store_ref_tlb (store_message X)))"

lemma store_ref_tlb_cong [fundef_cong]:
  "b = b' \<Longrightarrow> v = v' \<Longrightarrow> (\<And>c. f c v' = g c v') \<Longrightarrow> store_ref_tlb f b v = store_ref_tlb g b' v'"
  by (simp add: store_ref_tlb_def tlb_to_cell_def)

fun store_transaction_descr :: "crates \<Rightarrow> builder \<Rightarrow> transaction_descr \<Rightarrow> builder result"
  and store_transaction :: "crates \<Rightarrow> builder \<Rightarrow> transaction \<Rightarrow> builder result"
where
  "store_transaction_descr X b (TransOrdinary credit_first storage_ph credit_ph compute_ph action aborted bounce destroyed) =
     and_then (store_tag b ''0000'') (\<lambda>b.
     and_then (store_bit b credit_first) (\<lambda>b.
     and_then (store_maybe (store_storage_phase X) b storage_ph) (\<lambda>b.
     and_then (store_maybe (store_credit_phase X) b credit_ph) (\<lambda>b.
     and_then (store_compute_phase X b compute_ph) (\<lambda>b.
     and_then (store_maybe_ref_action_phase X b action) (\<lambda>b.
     and_then (store_bit b aborted) (\<lambda>b.
     and_then (store_maybe (store_bounce_phase X) b bounce) (\<lambda>b.
     store_bit b destroyed))))))))"
| "store_transaction_descr X b (TransStorage storage_ph) =
     and_then (store_tag b ''0001'') (\<lambda>b. store_storage_phase X b storage_ph)"
| "store_transaction_descr X b (TransTickTock is_tock storage_ph compute_ph action aborted destroyed) =
     and_then (store_tag b ''001'') (\<lambda>b.
     and_then (store_bit b is_tock) (\<lambda>b.
     and_then (store_storage_phase X b storage_ph) (\<lambda>b.
     and_then (store_compute_phase X b compute_ph) (\<lambda>b.
     and_then (store_maybe_ref_action_phase X b action) (\<lambda>b.
     and_then (store_bit b aborted) (\<lambda>b.
     store_bit b destroyed))))))"
| "store_transaction_descr X b (TransSplitPrepare split_info storage_ph compute_ph action aborted destroyed) =
     and_then (store_tag b ''0100'') (\<lambda>b.
     and_then (store_split_merge_info X b split_info) (\<lambda>b.
     and_then (store_maybe (store_storage_phase X) b storage_ph) (\<lambda>b.
     and_then (store_compute_phase X b compute_ph) (\<lambda>b.
     and_then (store_maybe_ref_action_phase X b action) (\<lambda>b.
     and_then (store_bit b aborted) (\<lambda>b.
     store_bit b destroyed))))))"
| "store_transaction_descr X b (TransSplitInstall split_info prepare_transaction installed) =
     and_then (store_tag b ''0101'') (\<lambda>b.
     and_then (store_split_merge_info X b split_info) (\<lambda>b.
     and_then (store_ref_tlb (store_transaction X) b prepare_transaction) (\<lambda>b.
     store_bit b installed)))"
| "store_transaction_descr X b (TransMergePrepare split_info storage_ph aborted) =
     and_then (store_tag b ''0110'') (\<lambda>b.
     and_then (store_split_merge_info X b split_info) (\<lambda>b.
     and_then (store_storage_phase X b storage_ph) (\<lambda>b.
     store_bit b aborted)))"
| "store_transaction_descr X b (TransMergeInstall split_info prepare_transaction storage_ph credit_ph compute_ph action aborted destroyed) =
     and_then (store_tag b ''0111'') (\<lambda>b.
     and_then (store_split_merge_info X b split_info) (\<lambda>b.
     and_then (store_ref_tlb (store_transaction X) b prepare_transaction) (\<lambda>b.
     and_then (store_maybe (store_storage_phase X) b storage_ph) (\<lambda>b.
     and_then (store_maybe (store_credit_phase X) b credit_ph) (\<lambda>b.
     and_then (store_compute_phase X b compute_ph) (\<lambda>b.
     and_then (store_maybe_ref_action_phase X b action) (\<lambda>b.
     and_then (store_bit b aborted) (\<lambda>b.
     store_bit b destroyed))))))))"
| "store_transaction X b (Transaction t description) =
     (if 0x7fff < tx_outmsg_cnt t then Inl (TlbErr (TlbCustomSchema ''Transaction.outmsg_cnt''))
      else if he_key_bits (tx_out_msgs t) \<noteq> OUT_MSG_KEY_BITS then Inl (TlbErr (TlbCustomSchema ''Transaction.out_msgs''))
      else
        and_then (store_tag b ''0111'') (\<lambda>b.
        and_then (store_bytes b (tx_account_addr t)) (\<lambda>b.
        and_then (store_u64 X b (tx_lt t)) (\<lambda>b.
        and_then (store_bytes b (tx_prev_trans_hash t)) (\<lambda>b.
        and_then (store_u64 X b (tx_prev_trans_lt t)) (\<lambda>b.
        and_then (store_u32 X b (tx_now t)) (\<lambda>b.
        and_then (store_uint_custom X b (tx_outmsg_cnt t) OUT_MSG_KEY_BITS) (\<lambda>b.
        and_then (store_account_status b (tx_orig_status t)) (\<lambda>b.
        and_then (store_account_status b (tx_end_status t)) (\<lambda>b.
        and_then (and_then (store_messages X builder_new (tx_in_msg t, tx_out_msgs t)) (\<lambda>messages.
          and_then (builder_build messages) (\<lambda>c. store_ref b c))) (\<lambda>b.
        and_then (store_currency X b (tx_total_fees t)) (\<lambda>b.
        and_then (store_ref_tlb (store_hash_update X) b (tx_state_update t)) (\<lambda>b.
        store_ref_tlb (store_transaction_descr X) b description)))))))))))))"

section \<open>Readers\<close>

datatype transaction_descr_tag = TagOrdinary | TagStorage | TagTickTock | TagSplitPrepare | TagSplitInstall
  | TagMergePrepare | TagMergeInstall

definition load_descr_tag_bit :: "slice \<Rightarrow> string \<Rightarrow> (bool \<times> slice) result" where
  "load_descr_tag_bit s actual_prefix = load_tag_bit s ''TransactionDescr'' actual_prefix"

definition load_transaction_descr_tag :: "slice \<Rightarrow> (transaction_descr_tag \<times> slice) result" where
  "load_transaction_descr_tag s =
     and_then (load_descr_tag_bit s []) (\<lambda>(b0, s).
     if b0 then Inl (TlbErr (TlbTagMismatch ''TransactionDescr'' ''1''))
     else
       and_then (load_descr_tag_bit s ''0'') (\<lambda>(b1, s).
       and_then (load_descr_tag_bit s (if b1 then ''01'' else ''00'')) (\<lambda>(b2, s).
       if \<not> b1 \<and> \<not> b2 then and_then (load_descr_tag_bit s ''000'') (\<lambda>(b3, s). Inr (if b3 then TagStorage else TagOrdinary, s))
       else if \<not> b1 \<and> b2 then Inr (TagTickTock, s)
       else if b1 \<and> \<not> b2 then and_then (load_descr_tag_bit s ''010'') (\<lambda>(b3, s). Inr (if b3 then TagSplitInstall else TagSplitPrepare, s))
       else and_then (load_descr_tag_bit s ''011'') (\<lambda>(b3, s). Inr (if b3 then TagMergeInstall else TagMergePrepare, s)))))"

definition load_maybe_ref_action_phase :: "crates \<Rightarrow> slice \<Rightarrow> (tr_action_phase option \<times> slice) result" where
  "load_maybe_ref_action_phase X s = and_then (load_bit s) (\<lambda>(present, s).
     if present then and_then (load_ref_tlb (load_tr_action_phase X) ''TrActionPhase'' s) (\<lambda>(a, s). Inr (Some a, s))
     else Inr (None, s))"

definition load_maybe_ref_message :: "crates \<Rightarrow> slice \<Rightarrow> (msg option \<times> slice) result" where
  "load_maybe_ref_message X s = and_then (load_bit s) (\<lambda>(present, s).
     if present then and_then (load_ref_tlb (load_message X) ''Message Any'' s) (\<lambda>(m, s). Inr (Some m, s))
     else Inr (None, s))"

definition load_messages :: "crates \<Rightarrow> slice \<Rightarrow> ((msg option \<times> msg hashmap_e) \<times> slice) result" where
  "load_messages X s =
     and_then (load_maybe_ref_message X s) (\<lambda>(in_msg, s).
     and_then (load_hashmap_e_with s OUT_MSG_KEY_BITS (load_ref_tlb (load_message X) ''Message Any'')) (\<lambda>(out_msgs, s).
     Inr ((in_msg, out_msgs), s)))"

text \<open>The two readers, with the reader of the referenced value as an argument.\<close>

definition load_transaction_descr_with ::
    "crates \<Rightarrow> (slice \<Rightarrow> (transaction \<times> slice) result) \<Rightarrow> slice \<Rightarrow> (transaction_descr \<times> slice) result" where
  "load_transaction_descr_with X load_tx s =
     and_then (load_transaction_descr_tag s) (\<lambda>(tag, s).
     if tag = TagOrdinary then
       and_then (load_bit s) (\<lambda>(credit_first, s).
       and_then (load_maybe (load_storage_phase X) s) (\<lambda>(storage_ph, s).
       and_then (load_maybe (load_credit_phase X) s) (\<lambda>(credit_ph, s).
       and_then (load_compute_phase X s) (\<lambda>(compute_ph, s).
       and_then (load_maybe_ref_action_phase X s) (\<lambda>(action, s).
       and_then (load_bit s) (\<lambda>(aborted, s).
       and_then (load_maybe (load_bounce_phase X) s) (\<lambda>(bounce, s).
       and_then (load_bit s) (\<lambda>(destroyed, s).
       Inr (TransOrdinary credit_first storage_ph credit_ph compute_ph action aborted bounce destroyed, s)))))))))
     else if tag = TagStorage then
       and_then (load_storage_phase X s) (\<lambda>(storage_ph, s). Inr (TransStorage storage_ph, s))
     else if tag = TagTickTock then
       and_then (load_bit s) (\<lambda>(is_tock, s).
       and_then (load_storage_phase X s) (\<lambda>(storage_ph, s).
       and_then (load_compute_phase X s) (\<lambda>(compute_ph, s).
       and_then (load_maybe_ref_action_phase X s) (\<lambda>(action, s).
       and_then (load_bit s) (\<lambda>(aborted, s).
       and_then (load_bit s) (\<lambda>(destroyed, s).
       Inr (TransTickTock is_tock storage_ph compute_ph action aborted destroyed, s)))))))
     else if tag = TagSplitPrepare then
       and_then (load_split_merge_info X s) (\<lambda>(split_info, s).
       and_then (load_maybe (load_storage_phase X) s) (\<lambda>(storage_ph, s).
       and_then (load_compute_phase X s) (\<lambda>(compute_ph, s).
       and_then (load_maybe_ref_action_phase X s) (\<lambda>(action, s).
       and_then (load_bit s) (\<lambda>(aborted, s).
       and_then (load_bit s) (\<lambda>(destroyed, s).
       Inr (TransSplitPrepare split_info storage_ph compute_ph action aborted destroyed, s)))))))
     else if tag = TagSplitInstall then
       and_then (load_split_merge_info X s) (\<lambda>(split_info, s).
       and_then (load_ref_tlb load_tx ''Transaction'' s) (\<lambda>(prepare_transaction, s).
       and_then (load_bit s) (\<lambda>(installed, s).
       Inr (TransSplitInstall split_info prepare_transaction installed, s))))
     else if tag = TagMergePrepare then
       and_then (load_split_merge_info X s) (\<lambda>(split_info, s).
       and_then (load_storage_phase X s) (\<lambda>(storage_ph, s).
       and_then (load_bit s) (\<lambda>(aborted, s).
       Inr (TransMergePrepare split_info storage_ph aborted, s))))
     else
       and_then (load_split_merge_info X s) (\<lambda>(split_info, s).
       and_then (load_ref_tlb load_tx ''Transaction'' s) (\<lambda>(prepare_transaction, s).
       and_then (load_maybe (load_storage_phase X) s) (\<lambda>(storage_ph, s).
       and_then (load_maybe (load_credit_phase X) s) (\<lambda>(credit_ph, s).
       and_then (load_compute_phase X s) (\<lambda>(compute_ph, s).
       and_then (load_maybe_ref_action_phase X s) (\<lambda>(action, s).
       and_then (load_bit s) (\<lambda>(aborted, s).
       and_then (load_bit s) (\<lambda>(destroyed, s).
       Inr (TransMergeInstall split_info prepare_transaction storage_ph credit_ph compute_ph action aborted destroyed, s))))))))))"

definition load_transaction_with ::
    "crates \<Rightarrow> (slice \<Rightarrow> (transaction_descr \<times> slice) result) \<Rightarrow> slice \<Rightarrow> (transaction \<times> slice) result" where
  "load_transaction_with X load_descr s =
     and_then (expect_tag_bits s ''Transaction'' ''0111'') (\<lambda>(_, s).
     and_then (load_bytes s 32) (\<lambda>(account_addr, s).
     and_then (load_u64 X s) (\<lambda>(lt, s).
     and_then (load_bytes s 32) (\<lambda>(prev_trans_hash, s).
     and_then (load_u64 X s) (\<lambda>(prev_trans_lt, s).
     and_then (load_u32 X s) (\<lambda>(now, s).
     and_then (load_uint_custom X s OUT_MSG_KEY_BITS) (\<lambda>(outmsg_cnt, s).
     and_then (load_account_status s) (\<lambda>(orig_status, s).
     and_then (load_account_status s) (\<lambda>(end_status, s).
     and_then (and_then (load_reference s) (\<lambda>(messages_cell, s).
       and_then (and_then (load_messages X (slice_new messages_cell)) (\<lambda>(messages, ms).
         and_then (ensure_empty ms) (\<lambda>_. Inr messages))) (\<lambda>messages. Inr (messages, s)))) (\<lambda>(messages, s).
     and_then (load_currency X s) (\<lambda>(total_fees, s).
     and_then (load_ref_tlb load_hash_update ''HASH_UPDATE Account'' s) (\<lambda>(state_update, s).
     and_then (load_ref_tlb load_descr ''TransactionDescr'' s) (\<lambda>(description, s).
     Inr (Transaction \<lparr>tx_account_addr = account_addr, tx_lt = lt, tx_prev_trans_hash = prev_trans_hash,
       tx_prev_trans_lt = prev_trans_lt, tx_now = now, tx_outmsg_cnt = outmsg_cnt, tx_orig_status = orig_status,
       tx_end_status = end_status, tx_in_msg = fst messages, tx_out_msgs = snd messages, tx_total_fees = total_fees,
       tx_state_update = state_update\<rparr> description, s))))))))))))))"

section \<open>The readers end\<close>

text \<open>A reader that only moves the positions of its slice.\<close>

definition stays :: "(slice \<Rightarrow> ('a \<times> slice) result) \<Rightarrow> bool" where
  "stays f \<longleftrightarrow> (\<forall>s v s'. f s = Inr (v, s') \<longrightarrow> sl_cell s' = sl_cell s)"

named_theorems stay_rules

lemma stays_bind [stay_rules]: "stays f \<Longrightarrow> (\<And>v. stays (g v)) \<Longrightarrow> stays (\<lambda>s. and_then (f s) (\<lambda>(v, s). g v s))"
  by (fastforce simp: stays_def and_then_eq_Inr)

lemma stays_map [stay_rules]: "stays f \<Longrightarrow> stays (\<lambda>s. map_err e (f s))"
  by (auto simp: stays_def map_err_def split: sum.splits)

lemma stays_pure [stay_rules]: "stays (\<lambda>s. Inr (v, s))" "stays (\<lambda>s. Inl e)"
  by (simp_all add: stays_def)

lemma stays_if [stay_rules]: "(c \<Longrightarrow> stays f) \<Longrightarrow> (\<not> c \<Longrightarrow> stays g) \<Longrightarrow> stays (\<lambda>s. if c then f s else g s)"
  by (cases c) simp_all

lemma stays_result [stay_rules]: "stays (\<lambda>s. and_then r (\<lambda>v. Inr (v, s)))"
  by (auto simp: stays_def and_then_eq_Inr)

lemma stays_check [stay_rules]: "(\<And>v. stays (f v)) \<Longrightarrow> stays (\<lambda>s. and_then r (\<lambda>v. f v s))"
  by (auto simp: stays_def and_then_eq_Inr)

lemma stays_bit [stay_rules]: "stays load_bit"
  by (auto simp: stays_def load_bit_def split: if_splits)

lemma stays_reference [stay_rules]: "stays load_reference"
  by (auto simp: stays_def load_reference_def split: if_splits option.splits)

lemma stays_bits_loop: "load_bits_loop s i k acc = Inr (v, s') \<Longrightarrow> sl_cell s' = sl_cell s"
proof (induction k arbitrary: s i acc)
  case (Suc k)
  then obtain u s1 where "load_bit s = Inr (u, s1)" "load_bits_loop s1 (Suc i) k (set_bit_at acc i u) = Inr (v, s')"
    by (auto simp: and_then_eq_Inr)
  then show ?case using Suc.IH stays_bit by (metis stays_def)
qed simp

lemma stays_bits [stay_rules]: "stays (\<lambda>s. load_bits s n)" "stays (\<lambda>s. load_bytes s n)"
  by (auto simp: stays_def load_bits_def load_bytes_def split: if_splits dest: stays_bits_loop)

lemma stays_uint [stay_rules]: "stays (\<lambda>s. load_uint_custom X s n)" "stays (load_uint X)" "stays (load_u32 X)" "stays (load_u64 X)"
proof -
  show c: "stays (\<lambda>s. load_uint_custom X s n)" for n
    using stays_bits(1)[of n] unfolding stays_def load_uint_custom_def load_big_uint_def Let_def
    by (fastforce simp: and_then_eq_Inr split: if_splits)
  then show "stays (load_uint X)" by (simp add: stays_def load_uint_def)
  then show "stays (load_u32 X)" "stays (load_u64 X)" using c by (simp_all add: stays_def load_u32_def load_u64_def load_uint_def)
qed

lemma stays_ref_tlb [stay_rules]: "stays (load_ref_tlb f schema)"
  unfolding load_ref_tlb_def by (intro stay_rules)

lemma stays_hashmap [stay_rules]: "stays (\<lambda>s. load_hashmap_e_with s n f)"
  unfolding load_hashmap_e_with_def by (intro stay_rules)

lemma stays_tags [stay_rules]:
  "stays (\<lambda>s. load_tag_bit s c p)" "stays (\<lambda>s. load_descr_tag_bit s p)"
  unfolding load_descr_tag_bit_def load_tag_bit_def by (intro stay_rules)+

lemma stays_descr_tag [stay_rules]: "stays load_transaction_descr_tag"
  unfolding load_transaction_descr_tag_def by (intro stay_rules)

lemma stays_expect_loop: "stays (\<lambda>s. expect_bits_loop s c tag a)"
  by (induction tag arbitrary: a) (simp_all add: Let_def, (intro stay_rules | assumption)+)

lemma stays_tag_bits: "stays (\<lambda>s. load_tag_bits s c n a)"
  by (induction n arbitrary: a) (auto simp: stays_def load_bit_def split: sum.splits if_splits)

lemma stays_status [stay_rules]: "stays load_account_status" "stays (\<lambda>s. expect_tag_bits s c tag)"
  unfolding load_account_status_def load_two_bit_tag_def expect_tag_bits_def
  by (intro stay_rules stays_tag_bits stays_expect_loop)+

lemma stays_var_uint [stay_rules]: "stays (\<lambda>s. load_var_uint_tlb X s n)" "stays (load_grams X)"
  unfolding load_var_uint_tlb_def load_grams_def Let_def by (intro stay_rules)+

lemma stays_currency [stay_rules]: "stays (load_currency X)" "stays (load_split_merge_info X)"
  unfolding load_currency_def load_split_merge_info_def by (intro stay_rules)+

text \<open>Two readers that agree on the slices of one cell.\<close>

definition agree :: "cell \<Rightarrow> (slice \<Rightarrow> ('a \<times> slice) result) \<Rightarrow> (slice \<Rightarrow> ('a \<times> slice) result) \<Rightarrow> bool" where
  "agree C f g \<longleftrightarrow> (\<forall>s. sl_cell s = C \<longrightarrow> f s = g s)"

lemma agree_refl: "agree C f f"
  by (simp add: agree_def)

lemma agree_bind:
  assumes "stays f" "\<And>v. agree C (g v) (h v)"
  shows "agree C (\<lambda>s. and_then (f s) (\<lambda>(v, s). g v s)) (\<lambda>s. and_then (f s) (\<lambda>(v, s). h v s))"
  unfolding agree_def
proof (intro allI impI)
  fix s :: slice assume s: "sl_cell s = C"
  have "g v s' = h v s'" if "f s = Inr (v, s')" for v s'
    using assms s that by (auto simp: stays_def agree_def)
  then show "and_then (f s) (\<lambda>(v, s). g v s) = and_then (f s) (\<lambda>(v, s). h v s)" by (cases "f s") auto
qed

lemma agree_first: "agree C f g \<Longrightarrow> agree C (\<lambda>s. and_then (f s) k) (\<lambda>s. and_then (g s) k)"
  by (simp add: agree_def)

lemma agree_if: "agree C f g \<Longrightarrow> agree C f' g' \<Longrightarrow> agree C (\<lambda>s. if c then f s else f' s) (\<lambda>s. if c then g s else g' s)"
  by (simp add: agree_def)

lemma load_reference_mem: "load_reference s = Inr (c, s') \<Longrightarrow> c \<in> set (cell_references (sl_cell s))"
  by (auto simp: load_reference_def reference_def split: if_splits option.splits)

lemma agree_ref:
  assumes "\<And>c. c \<in> set (cell_references C) \<Longrightarrow> f (slice_new c) = g (slice_new c)"
  shows "agree C (load_ref_tlb f schema) (load_ref_tlb g schema)"
  using assms load_reference_mem
  by (fastforce simp: agree_def load_ref_tlb_def tlb_from_cell_def intro: and_then_cong)

lemma load_transaction_descr_with_cong [fundef_cong]:
  assumes "X = X'" "s = s'" "\<And>c. c \<in> set (cell_references (sl_cell s')) \<Longrightarrow> f (slice_new c) = g (slice_new c)"
  shows "load_transaction_descr_with X f s = load_transaction_descr_with X' g s'"
proof -
  have "agree (sl_cell s') (load_transaction_descr_with X f) (load_transaction_descr_with X g)"
    unfolding load_transaction_descr_with_def
    by (rule agree_refl agree_if agree_bind stay_rules agree_first agree_ref | (erule assms(3)))+
  then show ?thesis using assms(1,2) by (simp add: agree_def)
qed

lemma load_transaction_with_cong [fundef_cong]:
  assumes "X = X'" "s = s'" "\<And>c. c \<in> set (cell_references (sl_cell s')) \<Longrightarrow> f (slice_new c) = g (slice_new c)"
  shows "load_transaction_with X f s = load_transaction_with X' g s'"
proof -
  have "agree (sl_cell s') (load_transaction_with X f) (load_transaction_with X g)"
    unfolding load_transaction_with_def
    by (rule agree_refl agree_if agree_bind stay_rules agree_first agree_ref | (erule assms(3)))+
  then show ?thesis using assms(1,2) by (simp add: agree_def)
qed

lemma cell_references_size: "c \<in> set (cell_references d) \<Longrightarrow> size c < size d"
  by (cases d) (auto dest!: size_list_estimation'[where f = size, OF _ order_refl])

function load_transaction :: "crates \<Rightarrow> slice \<Rightarrow> (transaction \<times> slice) result" where
  "load_transaction X s = load_transaction_with X (\<lambda>s. load_transaction_descr_with X (load_transaction X) s) s"
  by pat_completeness auto
termination
proof (relation "measure (\<lambda>(X, s). size (sl_cell s))")
  fix X and s :: slice and c d
  assume "c \<in> set (cell_references (sl_cell s))" "d \<in> set (cell_references (sl_cell (slice_new c)))"
  then have "size d < size c" "size c < size (sl_cell s)" by (simp_all add: cell_references_size slice_new_def)
  then show "((X, slice_new d), X, s) \<in> measure (\<lambda>(X, s). size (sl_cell s))" by (simp add: slice_new_def)
qed simp

declare load_transaction.simps [simp del]

definition load_transaction_descr :: "crates \<Rightarrow> slice \<Rightarrow> (transaction_descr \<times> slice) result" where
  "load_transaction_descr X s = load_transaction_descr_with X (load_transaction X) s"

section \<open>Encodings\<close>

definition action_ref_ok :: "tr_action_phase \<Rightarrow> bool" where
  "action_ref_ok a \<longleftrightarrow> action_phase_ok a \<and> length (action_phase_bits a) \<le> 1023"

definition action_ref :: "tr_action_phase option \<Rightarrow> cell list" where
  "action_ref = maybe_refs (\<lambda>a. [mk_cell (action_phase_bits a) []])"

definition msg_ref_ok :: "crates \<Rightarrow> msg \<Rightarrow> bool" where
  "msg_ref_ok X m \<longleftrightarrow> message_ok m \<and> length (message_bits m) \<le> 1023 \<and> length (message_refs X m) \<le> 4"

definition msg_ref :: "crates \<Rightarrow> msg \<Rightarrow> cell list" where
  "msg_ref X m = [mk_cell (message_bits m) (message_refs X m)]"

definition messages_bits :: "msg option \<times> msg hashmap_e \<Rightarrow> bool list" where
  "messages_bits m = maybe_bits (\<lambda>_. []) (fst m) @ [he_map (snd m) \<noteq> []]"

definition messages_refs :: "crates \<Rightarrow> msg option \<times> msg hashmap_e \<Rightarrow> cell list" where
  "messages_refs X m = maybe_refs (msg_ref X) (fst m) @ dict_refs (store_ref_tlb (store_message X)) (snd m)"

definition tx_fields_ok :: "crates \<Rightarrow> tx_fields \<Rightarrow> bool" where
  "tx_fields_ok X t \<longleftrightarrow> length (tx_account_addr t) = 32 \<and> length (tx_prev_trans_hash t) = 32 \<and> tx_outmsg_cnt t \<le> 0x7fff
     \<and> pred_option (msg_ref_ok X) (tx_in_msg t) \<and> dict_ok OUT_MSG_KEY_BITS (msg_ref_ok X) (\<lambda>_. []) (msg_ref X) (tx_out_msgs t)
     \<and> currency_ok (tx_total_fees t) \<and> hash_update_ok (tx_state_update t)"

definition tx_bits :: "tx_fields \<Rightarrow> bool list" where
  "tx_bits t = [False, True, True, True] @ bytes_bits (tx_account_addr t) @ nat_bits 64 (unat (tx_lt t))
     @ bytes_bits (tx_prev_trans_hash t) @ nat_bits 64 (unat (tx_prev_trans_lt t)) @ nat_bits 32 (unat (tx_now t))
     @ nat_bits 15 (unat (tx_outmsg_cnt t)) @ account_status_bits (tx_orig_status t) @ account_status_bits (tx_end_status t)
     @ [] @ currency_bits (tx_total_fees t) @ [] @ []"

definition tx_cells :: "crates \<Rightarrow> tx_fields \<Rightarrow> cell list" where
  "tx_cells X t = [mk_cell (messages_bits (tx_in_msg t, tx_out_msgs t)) (messages_refs X (tx_in_msg t, tx_out_msgs t))]
     @ currency_refs X (tx_total_fees t) @ [mk_cell (hash_update_bits (tx_state_update t)) []]"

fun descr_bits :: "transaction_descr \<Rightarrow> bool list" where
  "descr_bits (TransOrdinary cf sp cr cp act ab bo de) = [False, False, False, False] @ [cf] @ maybe_bits storage_phase_bits sp
     @ maybe_bits credit_phase_bits cr @ compute_phase_bits cp @ maybe_bits (\<lambda>_. []) act @ [ab] @ maybe_bits bounce_phase_bits bo @ [de]"
| "descr_bits (TransStorage sp) = [False, False, False, True] @ storage_phase_bits sp"
| "descr_bits (TransTickTock tt sp cp act ab de) = [False, False, True] @ [tt] @ storage_phase_bits sp @ compute_phase_bits cp
     @ maybe_bits (\<lambda>_. []) act @ [ab] @ [de]"
| "descr_bits (TransSplitPrepare i sp cp act ab de) = [False, True, False, False] @ split_merge_bits i @ maybe_bits storage_phase_bits sp
     @ compute_phase_bits cp @ maybe_bits (\<lambda>_. []) act @ [ab] @ [de]"
| "descr_bits (TransSplitInstall i t ins) = [False, True, False, True] @ split_merge_bits i @ [] @ [ins]"
| "descr_bits (TransMergePrepare i sp ab) = [False, True, True, False] @ split_merge_bits i @ storage_phase_bits sp @ [ab]"
| "descr_bits (TransMergeInstall i t sp cr cp act ab de) = [False, True, True, True] @ split_merge_bits i @ []
     @ maybe_bits storage_phase_bits sp @ maybe_bits credit_phase_bits cr @ compute_phase_bits cp @ maybe_bits (\<lambda>_. []) act @ [ab] @ [de]"

fun tx_data :: "transaction \<Rightarrow> bool list" where
  "tx_data (Transaction t d) = tx_bits t"

primrec descr_refs :: "crates \<Rightarrow> transaction_descr \<Rightarrow> cell list"
  and tx_refs :: "crates \<Rightarrow> transaction \<Rightarrow> cell list" where
  "descr_refs X (TransOrdinary cf sp cr cp act ab bo de) = maybe_refs (credit_phase_refs X) cr @ compute_phase_refs cp @ action_ref act"
| "descr_refs X (TransStorage sp) = []"
| "descr_refs X (TransTickTock tt sp cp act ab de) = compute_phase_refs cp @ action_ref act"
| "descr_refs X (TransSplitPrepare i sp cp act ab de) = compute_phase_refs cp @ action_ref act"
| "descr_refs X (TransSplitInstall i t ins) = [mk_cell (tx_data t) (tx_refs X t)]"
| "descr_refs X (TransMergePrepare i sp ab) = []"
| "descr_refs X (TransMergeInstall i t sp cr cp act ab de) = [mk_cell (tx_data t) (tx_refs X t)]
     @ maybe_refs (credit_phase_refs X) cr @ compute_phase_refs cp @ action_ref act"
| "tx_refs X (Transaction t d) = tx_cells X t @ [mk_cell (descr_bits d) (descr_refs X d)]"

definition fits_cell :: "bool list \<Rightarrow> cell list \<Rightarrow> bool" where
  "fits_cell ys qs \<longleftrightarrow> length ys \<le> 1023 \<and> length qs \<le> 4"

primrec descr_ok :: "crates \<Rightarrow> transaction_descr \<Rightarrow> bool"
  and tx_ok :: "crates \<Rightarrow> transaction \<Rightarrow> bool" where
  "descr_ok X (TransOrdinary cf sp cr cp act ab bo de) \<longleftrightarrow> pred_option storage_phase_ok sp \<and> pred_option credit_phase_ok cr
     \<and> compute_phase_ok cp \<and> pred_option action_ref_ok act \<and> pred_option bounce_phase_ok bo"
| "descr_ok X (TransStorage sp) \<longleftrightarrow> storage_phase_ok sp"
| "descr_ok X (TransTickTock tt sp cp act ab de) \<longleftrightarrow> storage_phase_ok sp \<and> compute_phase_ok cp \<and> pred_option action_ref_ok act"
| "descr_ok X (TransSplitPrepare i sp cp act ab de) \<longleftrightarrow> split_merge_ok i \<and> pred_option storage_phase_ok sp
     \<and> compute_phase_ok cp \<and> pred_option action_ref_ok act"
| "descr_ok X (TransSplitInstall i t ins) \<longleftrightarrow> split_merge_ok i \<and> tx_ok X t \<and> fits_cell (tx_data t) (tx_refs X t)"
| "descr_ok X (TransMergePrepare i sp ab) \<longleftrightarrow> split_merge_ok i \<and> storage_phase_ok sp"
| "descr_ok X (TransMergeInstall i t sp cr cp act ab de) \<longleftrightarrow> split_merge_ok i \<and> tx_ok X t \<and> fits_cell (tx_data t) (tx_refs X t)
     \<and> pred_option storage_phase_ok sp \<and> pred_option credit_phase_ok cr \<and> compute_phase_ok cp \<and> pred_option action_ref_ok act"
| "tx_ok X (Transaction t d) \<longleftrightarrow> tx_fields_ok X t \<and> descr_ok X d \<and> fits_cell (descr_bits d) (descr_refs X d)"

section \<open>Codecs\<close>

lemma descr_tag_yields:
  "yields load_transaction_descr_tag TagOrdinary [False, False, False, False] []"
  "yields load_transaction_descr_tag TagStorage [False, False, False, True] []"
  "yields load_transaction_descr_tag TagTickTock [False, False, True] []"
  "yields load_transaction_descr_tag TagSplitPrepare [False, True, False, False] []"
  "yields load_transaction_descr_tag TagSplitInstall [False, True, False, True] []"
  "yields load_transaction_descr_tag TagMergePrepare [False, True, True, False] []"
  "yields load_transaction_descr_tag TagMergeInstall [False, True, True, True] []"
  by (simp_all add: yields_def load_transaction_descr_tag_def load_descr_tag_bit_def load_tag_bit_def load_bit_eq wf_adv)

text \<open>A reference to one value whose writer and reader are known.\<close>

lemma ref_steps_of:
  assumes "emits (\<lambda>b. st b t) ys qs" "yields ld t ys qs" "fits_cell ys qs"
  shows "emits (\<lambda>b. store_ref_tlb st b t) [] [mk_cell ys qs]" "yields (load_ref_tlb ld schema) t [] [mk_cell ys qs]"
proof -
  have "value_codec st ld (\<lambda>x. x = t) (\<lambda>_. ys) (\<lambda>_. qs)" by (rule codecI) (use assms(1,2) in simp_all)
  note c = ref_tlb_codec[OF value_codec_tail[OF this]]
  show "emits (\<lambda>b. store_ref_tlb st b t) [] [mk_cell ys qs]" "yields (load_ref_tlb ld schema) t [] [mk_cell ys qs]"
    using codec_emits[OF c, of t] codec_yields[OF c, of t] assms(3) by (simp_all add: fits_cell_def)
qed

context bignum
begin

lemma action_ref_codec:
  "value_codec (store_maybe_ref_action_phase X) (load_maybe_ref_action_phase X) (pred_option action_ref_ok) (maybe_bits (\<lambda>_. [])) action_ref"
proof -
  note c = maybe_codec[OF ref_tlb_codec[OF value_codec_tail[OF action_phase_codec]], of "''TrActionPhase''"]
  have "store_maybe_ref_action_phase X = store_maybe (store_ref_tlb (store_tr_action_phase X))"
    "load_maybe_ref_action_phase X = load_maybe (load_ref_tlb (load_tr_action_phase X) ''TrActionPhase'')"
    by (simp_all add: fun_eq_iff store_maybe_def load_maybe_def store_maybe_ref_action_phase_def load_maybe_ref_action_phase_def)
  with c show ?thesis by (simp add: action_ref_ok_def[abs_def] action_ref_def)
qed

lemma msg_ref_codec: "value_codec (store_ref_tlb (store_message X)) (load_ref_tlb (load_message X) schema) (msg_ref_ok X) (\<lambda>_. []) (msg_ref X)"
  using ref_tlb_codec[OF message_codec, of schema] by (simp add: msg_ref_ok_def[abs_def] msg_ref_def[abs_def])

lemma messages_steps:
  assumes "pred_option (msg_ref_ok X) (fst m)" "dict_ok OUT_MSG_KEY_BITS (msg_ref_ok X) (\<lambda>_. []) (msg_ref X) (snd m)"
  shows "emits (\<lambda>b. store_messages X b m) (messages_bits m) (messages_refs X m)"
    "yields (load_messages X) m (messages_bits m) (messages_refs X m)"
    "length (messages_bits m) \<le> 1023" "length (messages_refs X m) \<le> 4"
proof -
  have eqs: "store_maybe_ref_message X = store_maybe (store_ref_tlb (store_message X))"
    "load_maybe_ref_message X = load_maybe (load_ref_tlb (load_message X) ''Message Any'')"
    by (simp_all add: fun_eq_iff store_maybe_def load_maybe_def store_maybe_ref_message_def load_maybe_ref_message_def)
  note mc = maybe_codec[OF msg_ref_codec[of "''Message Any''"]] and dc = hashmap_codec[OF msg_ref_codec[of "''Message Any''"], of OUT_MSG_KEY_BITS]
  show "emits (\<lambda>b. store_messages X b m) (messages_bits m) (messages_refs X m)"
    using assms unfolding store_messages_def eqs
    by - (rule emits_eq, (rule codec_emits[OF mc] codec_emits[OF dc] fields | (simp add: messages_bits_def messages_refs_def; fail))+)
  show "yields (load_messages X) m (messages_bits m) (messages_refs X m)"
    using assms unfolding load_messages_def eqs messages_bits_def
    by - (rule codec_yields[OF mc, of "fst m"] codec_yields[OF dc, of "snd m"] fields | (simp add: messages_refs_def; fail))+
  show "length (messages_bits m) \<le> 1023" "length (messages_refs X m) \<le> 4"
    by (auto simp: messages_bits_def messages_refs_def maybe_bits_def maybe_refs_def msg_ref_def dict_refs_def split: option.split sum.split)
qed

lemma messages_yields:
  assumes "pred_option (msg_ref_ok X) (fst m)" "dict_ok OUT_MSG_KEY_BITS (msg_ref_ok X) (\<lambda>_. []) (msg_ref X) (snd m)"
  shows "yields (\<lambda>s. and_then (load_reference s) (\<lambda>(messages_cell, s).
       and_then (and_then (load_messages X (slice_new messages_cell)) (\<lambda>(messages, ms).
         and_then (ensure_empty ms) (\<lambda>_. Inr messages))) (\<lambda>messages. Inr (messages, s)))) m [] [mk_cell (messages_bits m) (messages_refs X m)]"
  by (rule yields_child[OF messages_steps(2)[OF assms]]) simp

lemmas tx_parts = phase_parts storage_phase_codec[THEN codec_emits] storage_phase_codec[THEN codec_yields]
  maybe_codec[OF storage_phase_codec, THEN codec_emits] maybe_codec[OF storage_phase_codec, THEN codec_yields]
  maybe_codec[OF credit_phase_codec, THEN codec_emits] maybe_codec[OF credit_phase_codec, THEN codec_yields]
  compute_phase_codec[THEN codec_emits] compute_phase_codec[THEN codec_yields]
  maybe_codec[OF bounce_phase_codec, THEN codec_emits] maybe_codec[OF bounce_phase_codec, THEN codec_yields]
  split_merge_codec[THEN codec_emits] split_merge_codec[THEN codec_yields]
  action_ref_codec[THEN codec_emits] action_ref_codec[THEN codec_yields]

lemma tx_steps:
  assumes "tx_fields_ok X t" and d: "emits (\<lambda>b. store_transaction_descr X b d) (descr_bits d) (descr_refs X d)"
      "yields (load_transaction_descr X) d (descr_bits d) (descr_refs X d)" "fits_cell (descr_bits d) (descr_refs X d)"
  shows "emits (\<lambda>b. store_transaction X b (Transaction t d)) (tx_bits t) (tx_refs X (Transaction t d))"
    "yields (load_transaction X) (Transaction t d) (tx_bits t) (tx_refs X (Transaction t d))"
proof -
  let ?m = "(tx_in_msg t, tx_out_msgs t)"
  have m: "pred_option (msg_ref_ok X) (fst ?m)" "dict_ok OUT_MSG_KEY_BITS (msg_ref_ok X) (\<lambda>_. []) (msg_ref X) (snd ?m)"
    using assms(1) by (simp_all add: tx_fields_ok_def)
  have u: "fits_cell (hash_update_bits (tx_state_update t)) []" "hash_update_ok (tx_state_update t)"
    using assms(1) by (simp_all add: tx_fields_ok_def hash_update_ok_def hash_update_bits_def fits_cell_def)
  note up = ref_steps_of[of "store_hash_update X", OF codec_emits[OF hash_update_codec u(2)] codec_yields[OF hash_update_codec u(2)] u(1)]
  note parts = emits_child[OF messages_steps(1,3,4)[OF m]] messages_yields[OF m] up ref_steps_of[of "store_transaction_descr X", OF d]
  have k: "he_key_bits (tx_out_msgs t) = OUT_MSG_KEY_BITS" "\<not> 0x7fff < tx_outmsg_cnt t" "unat (tx_outmsg_cnt t) < 2 ^ 15"
    using assms(1) by (simp_all add: tx_fields_ok_def dict_ok_def word_le_nat_alt not_less)
  show "emits (\<lambda>b. store_transaction X b (Transaction t d)) (tx_bits t) (tx_refs X (Transaction t d))"
    using assms(1) k unfolding store_transaction.simps tx_fields_ok_def
    by - (rule emits_eq, (rule emits_guard parts phase_parts fields
        | (simp add: tx_bits_def tx_cells_def OUT_MSG_KEY_BITS_def; fail))+)
  have "yields (load_transaction_with X (load_transaction_descr X)) (Transaction t d) (tx_bits t) (tx_refs X (Transaction t d))"
    using assms(1) k unfolding load_transaction_with_def tx_fields_ok_def tx_bits_def OUT_MSG_KEY_BITS_def
    by - (rule parts[unfolded OUT_MSG_KEY_BITS_def] phase_parts fields | (simp add: tx_cells_def; fail))+
  then show "yields (load_transaction X) (Transaction t d) (tx_bits t) (tx_refs X (Transaction t d))"
    by (simp add: yields_def load_transaction.simps load_transaction_descr_def[abs_def])
qed

lemma descr_steps:
  assumes "descr_ok X d"
    and t: "\<And>t. tx_ok X t \<Longrightarrow> size t < size d \<Longrightarrow> emits (\<lambda>b. store_transaction X b t) (tx_data t) (tx_refs X t)
      \<and> yields (load_transaction X) t (tx_data t) (tx_refs X t)"
  shows "emits (\<lambda>b. store_transaction_descr X b d) (descr_bits d) (descr_refs X d)"
    "yields (load_transaction_descr X) d (descr_bits d) (descr_refs X d)"
proof -
  have r: "emits (\<lambda>b. store_ref_tlb (store_transaction X) b t) [] [mk_cell (tx_data t) (tx_refs X t)]"
      "yields (load_ref_tlb (load_transaction X) schema) t [] [mk_cell (tx_data t) (tx_refs X t)]"
    if "tx_ok X t" "size t < size d" "fits_cell (tx_data t) (tx_refs X t)" for t schema
    using ref_steps_of[of "store_transaction X" t, OF conjunct1[OF assms(2)[OF that(1,2)]] conjunct2[OF assms(2)[OF that(1,2)]] that(3)]
    by simp_all
  show "emits (\<lambda>b. store_transaction_descr X b d) (descr_bits d) (descr_refs X d)"
    using assms(1) r(1)
    by (cases d) (simp_all only: descr_ok.simps store_transaction_descr.simps,
      (rule emits_eq, (rule r(1) tx_parts fields | (simp; fail))+)+)
  show "yields (load_transaction_descr X) d (descr_bits d) (descr_refs X d)"
  proof (cases d)
    case (TransSplitInstall i t ins)
    have rt: "yields (load_ref_tlb (load_transaction X) ''Transaction'') t [] [mk_cell (tx_data t) (tx_refs X t)]"
      by (rule r(2)) (use assms(1) TransSplitInstall in simp_all)
    show ?thesis using assms(1) unfolding TransSplitInstall load_transaction_descr_def load_transaction_descr_with_def
        descr_bits.simps descr_refs.simps descr_ok.simps
      by - (rule yields_if(1), (simp; fail) | rule yields_if(2), (simp; fail)
        | rule descr_tag_yields yields_last_eq rt tx_parts fields | (simp; fail))+
  next
    case (TransMergeInstall i t sp cr cp act ab de)
    have rt: "yields (load_ref_tlb (load_transaction X) ''Transaction'') t [] [mk_cell (tx_data t) (tx_refs X t)]"
      by (rule r(2)) (use assms(1) TransMergeInstall in simp_all)
    show ?thesis using assms(1) unfolding TransMergeInstall load_transaction_descr_def load_transaction_descr_with_def
        descr_bits.simps descr_refs.simps descr_ok.simps
      by - (rule yields_if(1), (simp; fail) | rule yields_if(2), (simp; fail)
        | rule descr_tag_yields yields_last_eq rt tx_parts fields | (simp; fail))+
  qed (use assms(1) in \<open>simp_all only: load_transaction_descr_def[abs_def] load_transaction_descr_with_def descr_bits.simps descr_refs.simps descr_ok.simps\<close>,
      (rule yields_if(1), (simp; fail) | rule yields_if(2), (simp; fail)
        | rule descr_tag_yields yields_last_eq tx_parts fields | (simp; fail))+)
qed

lemma tx_codec_steps:
  "tx_ok X t \<Longrightarrow> emits (\<lambda>b. store_transaction X b t) (tx_data t) (tx_refs X t) \<and> yields (load_transaction X) t (tx_data t) (tx_refs X t)"
proof (induction t rule: measure_induct_rule[where f = size])
  case (less t)
  obtain f d where t: "t = Transaction f d" by (cases t)
  have ok: "tx_fields_ok X f" "descr_ok X d" "fits_cell (descr_bits d) (descr_refs X d)" using less.prems t by simp_all
  have "emits (\<lambda>b. store_transaction X b u) (tx_data u) (tx_refs X u) \<and> yields (load_transaction X) u (tx_data u) (tx_refs X u)"
    if "tx_ok X u" "size u < size d" for u
    using less.IH[of u] that t by simp
  note d = descr_steps[OF ok(2) this]
  show ?case using tx_steps[OF ok(1) d ok(3)] unfolding t by simp
qed

lemma transaction_codec: "value_codec (store_transaction X) (load_transaction X) (tx_ok X) tx_data (tx_refs X)"
  by (rule codecI) (use tx_codec_steps in blast)+

lemma transaction_descr_codec: "value_codec (store_transaction_descr X) (load_transaction_descr X) (descr_ok X) descr_bits (descr_refs X)"
  by (rule codecI) (rule descr_steps, assumption, rule tx_codec_steps, assumption)+

end

section \<open>Properties\<close>

text \<open>
  C32: A transaction whose fields are in range and whose parts fit their cells is written as a
  well-formed cell that reads back as the same transaction: its messages in their child cell,
  the phases of its description, and the prepared transactions that a split or merge nests.
  In range includes default flags of the addresses in its messages.
\<close>

theorem transaction_roundtrip:
  assumes "bignum X" "tx_ok X t" "fits_cell (tx_data t) (tx_refs X t)" "list_all wf_cell (tx_refs X t)"
  shows "\<exists>c. tlb_to_cell (store_transaction X) t = Inr c \<and> wf_cell c \<and> tlb_from_cell (load_transaction X) c = Inr t"
  using tail_codec.cell_roundtrip[OF value_codec_tail[OF bignum.transaction_codec[OF assms(1)]] assms(2)] assms(3,4)
  by (simp add: fits_cell_def)

definition sample_fields :: tx_fields where
  "sample_fields = \<lparr>tx_account_addr = replicate 32 1, tx_lt = 7, tx_prev_trans_hash = replicate 32 2, tx_prev_trans_lt = 5,
     tx_now = 1700000000, tx_outmsg_cnt = 0, tx_orig_status = StatusActive, tx_end_status = StatusActive,
     tx_in_msg = Some sample_message, tx_out_msgs = hashmap_e_new 15, tx_total_fees = currency_of_grams 1000,
     tx_state_update = \<lparr>hu_old_hash = replicate 32 3, hu_new_hash = replicate 32 4\<rparr>\<rparr>"

definition sample_transaction :: transaction where
  "sample_transaction = Transaction sample_fields (TransSplitInstall
     \<lparr>sm_cur_shard_pfx_len = 1, sm_acc_split_depth = 2, sm_this_addr = replicate 32 5, sm_sibling_addr = replicate 32 6\<rparr>
     (Transaction sample_fields (TransStorage \<lparr>sp_fees_collected = 1000, sp_fees_due = None, sp_status_change = Unchanged\<rparr>)) True)"

lemma sample_transaction_ok:
  "tx_ok ref_crates sample_transaction" "fits_cell (tx_data sample_transaction) (tx_refs ref_crates sample_transaction)"
  "list_all wf_cell (tx_refs ref_crates sample_transaction)"
proof -
  have v: "var_len 1000 \<le> 2" by (simp add: var_len_le_iff)
  have e: "dict_refs st (hashmap_e_new n) = []" for st :: "builder \<Rightarrow> 'a \<Rightarrow> builder result" and n
    by (simp add: dict_refs_def hashmap_e_new_def serialize_hashmap_root_def hashmap_e_is_empty_def)
  have m: "msg_ref_ok ref_crates sample_message" "wf_cell (mk_cell (message_bits sample_message) (message_refs ref_crates sample_message))"
    using sample_message_fits by (simp_all add: msg_ref_ok_def wf_mk_cell)
  have c: "currency_ok (currency_of_grams 1000)" "currency_refs ref_crates (currency_of_grams 1000) = []"
      "length (currency_bits (currency_of_grams 1000)) \<le> 30"
    using v by (simp_all add: currency_ok_def currency_of_grams_def grams_ok_def dict_ok_def wf_hashmap_def
        EXTRA_CURRENCY_KEY_BITS_def currency_bits_def currency_refs_def e) (simp_all add: hashmap_e_new_def)
  have f: "tx_fields_ok ref_crates sample_fields"
    using m c by (simp add: sample_fields_def tx_fields_ok_def hash_update_ok_def dict_ok_def wf_hashmap_def OUT_MSG_KEY_BITS_def)
      (simp add: hashmap_e_new_def)
  have b: "length (tx_bits sample_fields) \<le> 1023" "length (tx_cells ref_crates sample_fields) = 2"
      "list_all wf_cell (tx_cells ref_crates sample_fields)"
    using c m by (simp_all add: sample_fields_def tx_bits_def tx_cells_def messages_bits_def messages_refs_def maybe_bits_def
        maybe_refs_def msg_ref_def e wf_mk_cell hash_update_bits_def)
  show "tx_ok ref_crates sample_transaction" "fits_cell (tx_data sample_transaction) (tx_refs ref_crates sample_transaction)"
    "list_all wf_cell (tx_refs ref_crates sample_transaction)"
    using f b v by (simp_all add: sample_transaction_def fits_cell_def split_merge_ok_def storage_phase_ok_def grams_ok_def
        storage_phase_bits_def maybe_bits_def split_merge_bits_def wf_mk_cell)
qed

theorem transaction_roundtrip_witness:
  "\<exists>c. tlb_to_cell (store_transaction ref_crates) sample_transaction = Inr c
    \<and> tlb_from_cell (load_transaction ref_crates) c = Inr sample_transaction"
  using transaction_roundtrip[OF ref_bignum.bignum_axioms sample_transaction_ok] by blast

end
