(* ===== verification/TlbShard.thy ===== *)
theory TlbShard
  imports TlbTransaction HashmapAug
begin

text \<open>
  The augmented dictionaries of a shard (\<open>src/tlb/transaction/account.rs\<close>): all accounts with
  their balances, and the account blocks with the transactions of each account.
  A dictionary is in the form the parser makes, \<open>aug_parsed\<close>, when its leaves and forks are
  those of its tree in the parser's order; for these the round trip is an identity.
\<close>

section \<open>Records\<close>

type_synonym shard_accounts = "(shard_account, depth_balance_info) hashmap_aug_e"

definition store_shard_accounts :: "crates \<Rightarrow> builder \<Rightarrow> shard_accounts \<Rightarrow> builder result" where
  "store_shard_accounts X b accounts =
     (if hae_key_bits accounts \<noteq> 256 then Inl (TlbErr (TlbCustomSchema ''ShardAccounts''))
      else store_hashmap_aug_e_with (store_shard_account X) (store_depth_balance X) b accounts)"

definition load_shard_accounts :: "crates \<Rightarrow> slice \<Rightarrow> (shard_accounts \<times> slice) result" where
  "load_shard_accounts X s = load_hashmap_aug_e_with (load_shard_account X) (load_depth_balance X) s 256"

record account_block =
  ab_account_addr :: bytes
  ab_transactions :: "(transaction, currency_collection) hashmap_aug"
  ab_state_update :: hash_update

definition store_account_block :: "crates \<Rightarrow> builder \<Rightarrow> account_block \<Rightarrow> builder result" where
  "store_account_block X b a =
     (if ha_key_bits (ab_transactions a) \<noteq> 64 then Inl (TlbErr (TlbCustomSchema ''AccountBlock.transactions''))
      else
        and_then (store_tag b ''0101'') (\<lambda>b.
        and_then (store_bytes b (ab_account_addr a)) (\<lambda>b.
        and_then (store_hashmap_aug_with (store_ref_tlb (store_transaction X)) (store_currency X) b (ab_transactions a)) (\<lambda>b.
        store_ref_tlb (store_hash_update X) b (ab_state_update a)))))"

definition load_account_block :: "crates \<Rightarrow> slice \<Rightarrow> (account_block \<times> slice) result" where
  "load_account_block X s =
     and_then (expect_tag_bits s ''AccountBlock'' ''0101'') (\<lambda>(_, s).
     and_then (load_bytes s 32) (\<lambda>(account_addr, s).
     and_then (load_hashmap_aug_with (load_ref_tlb (load_transaction X) ''Transaction'') (load_currency X) s 64) (\<lambda>(transactions, s).
     and_then (load_ref_tlb load_hash_update ''HASH_UPDATE Account'' s) (\<lambda>(state_update, s).
     Inr (\<lparr>ab_account_addr = account_addr, ab_transactions = transactions, ab_state_update = state_update\<rparr>, s)))))"

type_synonym shard_account_blocks = "(account_block, currency_collection) hashmap_aug_e"

definition store_shard_account_blocks :: "crates \<Rightarrow> builder \<Rightarrow> shard_account_blocks \<Rightarrow> builder result" where
  "store_shard_account_blocks X b blocks =
     (if hae_key_bits blocks \<noteq> 256 then Inl (TlbErr (TlbCustomSchema ''ShardAccountBlocks''))
      else store_hashmap_aug_e_with (store_account_block X) (store_currency X) b blocks)"

definition load_shard_account_blocks :: "crates \<Rightarrow> slice \<Rightarrow> (shard_account_blocks \<times> slice) result" where
  "load_shard_account_blocks X s = load_hashmap_aug_e_with (load_account_block X) (load_currency X) s 256"

section \<open>Dictionaries in parsed form\<close>

definition aug_parsed :: "nat \<Rightarrow> ('v, 'e) hashmap_aug \<Rightarrow> bool" where
  "aug_parsed n d \<longleftrightarrow> ha_key_bits d = n \<and> ha_leaves d = node_leaves [] (ha_root d) \<and> ha_forks d = parser_forks [] (ha_root d)"

context aug_codec
begin

lemma aug_value_codec:
  "value_codec (store_hashmap_aug_with sv se) (\<lambda>s. load_hashmap_aug_with lv le s n)
    (\<lambda>d. aug_parsed n d \<and> node_ok n (ha_root d)) (\<lambda>d. node_bits n (ha_root d)) (\<lambda>d. node_refs n (ha_root d))"
proof unfold_locales
  fix d :: "('v, 'e) hashmap_aug" and s ys qs
  assume d: "aug_parsed n d \<and> node_ok n (ha_root d)" and s: "wf_slice s" "slice_bits s = node_bits n (ha_root d) @ ys"
    "slice_refs s = node_refs n (ha_root d) @ qs"
  have "parse_aug_node lv le s n [] n ([], []) = Inr (ha_root d, adv s (length (node_bits n (ha_root d))) (length (node_refs n (ha_root d))),
      (node_leaves [] (ha_root d), parser_forks [] (ha_root d)))"
    using parse_aug_node_reads[of n "ha_root d" s ys qs "[]" n "[]" "[]"] d s by simp
  then show "load_hashmap_aug_with lv le s n = Inr (d, adv s (length (node_bits n (ha_root d))) (length (node_refs n (ha_root d))))"
    using d by (simp add: load_hashmap_aug_with_def deserialize_hashmap_aug_from_slice_def aug_parsed_def)
qed (simp add: store_hashmap_aug_with_def store_aug_node_appends)

definition aug_e_ok :: "nat \<Rightarrow> ('v, 'e) hashmap_aug_e \<Rightarrow> bool" where
  "aug_e_ok n d \<longleftrightarrow> hae_key_bits d = n \<and> ge (hae_extra d)
     \<and> pred_option (\<lambda>r. aug_parsed n r \<and> node_ok n (ha_root r)) (hae_root d)"

definition aug_e_bits :: "('v, 'e) hashmap_aug_e \<Rightarrow> bool list" where
  "aug_e_bits d = [hae_root d \<noteq> None] @ eb (hae_extra d)"

definition aug_e_refs :: "nat \<Rightarrow> ('v, 'e) hashmap_aug_e \<Rightarrow> cell list" where
  "aug_e_refs n d = maybe_refs (\<lambda>r. [mk_cell (node_bits n (ha_root r)) (node_refs n (ha_root r))]) (hae_root d) @ er (hae_extra d)"

lemma aug_e_value_codec:
  "value_codec (store_hashmap_aug_e_with sv se) (\<lambda>s. load_hashmap_aug_e_with lv le s n) (aug_e_ok n) aug_e_bits (aug_e_refs n)"
proof (rule codecI)
  fix d assume ok: "aug_e_ok n d"
  note v = aug_value_codec[of n] and e = ext.value_codec_axioms
  have ge: "ge (hae_extra d)" using ok by (simp add: aug_e_ok_def)
  note ee = codec_emits[OF e ge] and ey = codec_yields[OF e ge]
  show "emits (\<lambda>b. store_hashmap_aug_e_with sv se b d) (aug_e_bits d) (aug_e_refs n d)"
  proof (cases "hae_root d")
    case None
    show ?thesis unfolding store_hashmap_aug_e_with_def None option.case
      by (rule emits_eq, (rule ee fields | (simp add: aug_e_bits_def aug_e_refs_def maybe_refs_def None; fail))+)
  next
    case (Some r)
    then have r: "aug_parsed n r \<and> node_ok n (ha_root r)" using ok by (simp add: aug_e_ok_def)
    note c = emits_child[OF codec_emits[OF v r]] node_ok_bounds[OF conjunct2[OF r]]
    show ?thesis using c(2) unfolding store_hashmap_aug_e_with_def Some option.case
      by - (rule emits_eq, (rule c(1) ee fields | (simp add: aug_e_bits_def aug_e_refs_def maybe_refs_def Some; fail))+)
  qed
  show "yields (\<lambda>s. load_hashmap_aug_e_with lv le s n) d (aug_e_bits d) (aug_e_refs n d)"
  proof (cases "hae_root d")
    case None
    then have d: "d = aug_e_empty n (hae_extra d)" using ok by (cases d) (simp add: aug_e_empty_def aug_e_ok_def)
    show ?thesis unfolding load_hashmap_aug_e_with_def aug_e_bits_def
      by (rule yields_if(2), (simp add: None; fail) | rule ey fields | (simp add: aug_e_refs_def maybe_refs_def None d[symmetric]; fail))+
  next
    case (Some r)
    then have r: "aug_parsed n r \<and> node_ok n (ha_root r)" using ok by (simp add: aug_e_ok_def)
    have w: "aug_e_with_root n r (hae_extra d) = Inr d" using ok r Some by (cases d) (simp add: aug_e_with_root_def aug_e_ok_def aug_parsed_def)
    let ?c = "mk_cell (node_bits n (ha_root r)) (node_refs n (ha_root r))"
    show ?thesis unfolding yields_def
    proof (intro allI impI)
      fix s ys qs assume s: "wf_slice s" "slice_bits s = aug_e_bits d @ ys" "slice_refs s = aug_e_refs n d @ qs"
      obtain t where t: "load_hashmap_aug_with lv le (slice_new ?c) n = Inr (r, t)" "ensure_empty t = Inr ()"
        by (rule child_reads[OF codec_yields[OF v r] wf_node_cell[OF conjunct2[OF r]]])
      then have t': "deserialize_hashmap_aug_from_slice lv le (slice_new ?c) n = Inr (r, t)" "ensure_aug_ref_consumed t = Inr ()"
        by (simp_all add: load_hashmap_aug_with_def ensure_empty_def ensure_aug_ref_consumed_def split: if_splits)
      have "slice_refs s = ?c # er (hae_extra d) @ qs" "slice_bits s = True # eb (hae_extra d) @ ys"
        using s Some by (simp_all add: aug_e_refs_def aug_e_bits_def maybe_refs_def)
      then show "load_hashmap_aug_e_with lv le s n = Inr (d, adv s (length (aug_e_bits d)) (length (aug_e_refs n d)))"
        using s(1) t' w ext.load_reads[OF ge, of "adv s 1 1" ys qs] Some
        by (simp add: load_hashmap_aug_e_with_def load_bit_eq load_reference_eq wf_adv aug_e_bits_def aug_e_refs_def maybe_refs_def)
    qed
  qed
qed

end

section \<open>Encodings\<close>

definition tx_ref_ok :: "crates \<Rightarrow> transaction \<Rightarrow> bool" where
  "tx_ref_ok X t \<longleftrightarrow> tx_ok X t \<and> length (tx_data t) \<le> 1023 \<and> length (tx_refs X t) \<le> 4"

definition tx_ref :: "crates \<Rightarrow> transaction \<Rightarrow> cell list" where
  "tx_ref X t = [mk_cell (tx_data t) (tx_refs X t)]"

definition account_block_ok :: "crates \<Rightarrow> account_block \<Rightarrow> bool" where
  "account_block_ok X a \<longleftrightarrow> length (ab_account_addr a) = 32 \<and> hash_update_ok (ab_state_update a)
     \<and> aug_parsed 64 (ab_transactions a)
     \<and> aug_codec.node_ok (tx_ref_ok X) (\<lambda>_. []) (tx_ref X) currency_ok currency_bits (currency_refs X) 64 (ha_root (ab_transactions a))"

definition account_block_bits :: "account_block \<Rightarrow> bool list" where
  "account_block_bits a = [False, True, False, True] @ bytes_bits (ab_account_addr a)
     @ aug_codec.node_bits (\<lambda>_. []) currency_bits 64 (ha_root (ab_transactions a)) @ []"

definition account_block_refs :: "crates \<Rightarrow> account_block \<Rightarrow> cell list" where
  "account_block_refs X a = aug_codec.node_refs (\<lambda>_. []) (tx_ref X) currency_bits (currency_refs X) 64 (ha_root (ab_transactions a))
     @ [mk_cell (hash_update_bits (ab_state_update a)) []]"

definition shard_accounts_ok :: "crates \<Rightarrow> shard_accounts \<Rightarrow> bool" where
  "shard_accounts_ok X = aug_codec.aug_e_ok (shard_account_ok X) shard_account_bits (shard_account_refs X)
     depth_balance_ok depth_balance_bits (\<lambda>d. currency_refs X (db_balance d)) 256"

definition shard_accounts_bits :: "shard_accounts \<Rightarrow> bool list" where
  "shard_accounts_bits = aug_codec.aug_e_bits depth_balance_bits"

definition shard_accounts_refs :: "crates \<Rightarrow> shard_accounts \<Rightarrow> cell list" where
  "shard_accounts_refs X = aug_codec.aug_e_refs shard_account_bits (shard_account_refs X) depth_balance_bits
     (\<lambda>d. currency_refs X (db_balance d)) 256"

definition shard_blocks_ok :: "crates \<Rightarrow> shard_account_blocks \<Rightarrow> bool" where
  "shard_blocks_ok X = aug_codec.aug_e_ok (account_block_ok X) account_block_bits (account_block_refs X)
     currency_ok currency_bits (currency_refs X) 256"

definition shard_blocks_bits :: "shard_account_blocks \<Rightarrow> bool list" where
  "shard_blocks_bits = aug_codec.aug_e_bits currency_bits"

definition shard_blocks_refs :: "crates \<Rightarrow> shard_account_blocks \<Rightarrow> cell list" where
  "shard_blocks_refs X = aug_codec.aug_e_refs account_block_bits (account_block_refs X) currency_bits (currency_refs X) 256"

section \<open>Codecs\<close>

context bignum
begin

lemma tx_ref_codec:
  "value_codec (store_ref_tlb (store_transaction X)) (load_ref_tlb (load_transaction X) schema) (tx_ref_ok X) (\<lambda>_. []) (tx_ref X)"
  using ref_tlb_codec[OF value_codec_tail[OF transaction_codec], of schema] by (simp add: tx_ref_ok_def[abs_def] tx_ref_def[abs_def])

lemma account_block_codec:
  "value_codec (store_account_block X) (load_account_block X) (account_block_ok X) account_block_bits (account_block_refs X)"
proof (rule codecI)
  fix a assume a: "account_block_ok X a"
  note A = aug_codec_of[OF tx_ref_codec currency_codec]
  have d: "aug_parsed 64 (ab_transactions a) \<and> aug_codec.node_ok (tx_ref_ok X) (\<lambda>_. []) (tx_ref X) currency_ok currency_bits
      (currency_refs X) 64 (ha_root (ab_transactions a))" using a by (simp add: account_block_ok_def)
  note dict = codec_emits[OF aug_codec.aug_value_codec[OF A] d] codec_yields[OF aug_codec.aug_value_codec[OF A] d]
  have u: "fits_cell (hash_update_bits (ab_state_update a)) []" "hash_update_ok (ab_state_update a)"
    using a by (simp_all add: account_block_ok_def hash_update_ok_def hash_update_bits_def fits_cell_def)
  note up = ref_steps_of[of "store_hash_update X", OF codec_emits[OF hash_update_codec u(2)] codec_yields[OF hash_update_codec u(2)] u(1)]
  have k: "\<not> ha_key_bits (ab_transactions a) \<noteq> 64" using d by (simp add: aug_parsed_def)
  show "emits (\<lambda>b. store_account_block X b a) (account_block_bits a) (account_block_refs X a)"
    using a k unfolding store_account_block_def account_block_ok_def
    by - (rule emits_eq, (rule emits_guard dict up fields | (simp add: account_block_bits_def account_block_refs_def; fail))+)
  show "yields (load_account_block X) a (account_block_bits a) (account_block_refs X a)"
    using a unfolding load_account_block_def account_block_ok_def account_block_bits_def
    by - (rule dict up fields | (simp add: account_block_refs_def; fail))+
qed

lemma shard_accounts_codec:
  "value_codec (store_shard_accounts X) (load_shard_accounts X) (shard_accounts_ok X) shard_accounts_bits (shard_accounts_refs X)"
proof -
  note A = aug_codec_of[OF shard_account_codec depth_balance_codec]
  note c = aug_codec.aug_e_value_codec[OF A, of 256]
  show ?thesis
  proof (rule codecI)
    fix d assume d: "shard_accounts_ok X d"
    then have "hae_key_bits d = 256" by (simp add: shard_accounts_ok_def aug_codec.aug_e_ok_def[OF A])
    then show "emits (\<lambda>b. store_shard_accounts X b d) (shard_accounts_bits d) (shard_accounts_refs X d)"
      using codec_emits[OF c] d by (simp add: store_shard_accounts_def shard_accounts_ok_def shard_accounts_bits_def shard_accounts_refs_def)
    show "yields (load_shard_accounts X) d (shard_accounts_bits d) (shard_accounts_refs X d)"
      using codec_yields[OF c] d
      by (simp add: load_shard_accounts_def[abs_def] shard_accounts_ok_def shard_accounts_bits_def shard_accounts_refs_def)
  qed
qed

lemma shard_blocks_codec:
  "value_codec (store_shard_account_blocks X) (load_shard_account_blocks X) (shard_blocks_ok X) shard_blocks_bits (shard_blocks_refs X)"
proof -
  note A = aug_codec_of[OF account_block_codec currency_codec]
  note c = aug_codec.aug_e_value_codec[OF A, of 256]
  show ?thesis
  proof (rule codecI)
    fix d assume d: "shard_blocks_ok X d"
    then have "hae_key_bits d = 256" by (simp add: shard_blocks_ok_def aug_codec.aug_e_ok_def[OF A])
    then show "emits (\<lambda>b. store_shard_account_blocks X b d) (shard_blocks_bits d) (shard_blocks_refs X d)"
      using codec_emits[OF c] d by (simp add: store_shard_account_blocks_def shard_blocks_ok_def shard_blocks_bits_def shard_blocks_refs_def)
    show "yields (load_shard_account_blocks X) d (shard_blocks_bits d) (shard_blocks_refs X d)"
      using codec_yields[OF c] d
      by (simp add: load_shard_account_blocks_def[abs_def] shard_blocks_ok_def shard_blocks_bits_def shard_blocks_refs_def)
  qed
qed

end

section \<open>Properties\<close>

text \<open>
  The state of the accounts of a shard, accounts with their storage, balances and code under
  256-bit keys with depth and balance at every node, is written and read back unchanged, when
  every node fits its cell.
\<close>

theorem shard_accounts_roundtrip:
  assumes "bignum X" "shard_accounts_ok X d" "fits_cell (shard_accounts_bits d) (shard_accounts_refs X d)"
    "list_all wf_cell (shard_accounts_refs X d)"
  shows "\<exists>c. tlb_to_cell (store_shard_accounts X) d = Inr c \<and> wf_cell c \<and> tlb_from_cell (load_shard_accounts X) c = Inr d"
  using tail_codec.cell_roundtrip[OF value_codec_tail[OF bignum.shard_accounts_codec[OF assms(1)]] assms(2)] assms(3,4)
  by (simp add: fits_cell_def)

definition one_leaf :: "nat \<Rightarrow> 'v \<Rightarrow> 'e \<Rightarrow> ('v, 'e) hashmap_aug" where
  "one_leaf n v e = \<lparr>ha_key_bits = n, ha_root = AugLeaf (replicate n False) e v,
     ha_leaves = [(mk_key (replicate n False), (v, e))], ha_forks = []\<rparr>"

lemma one_leaf_parsed: "aug_parsed n (one_leaf n v e)"
  by (simp add: aug_parsed_def one_leaf_def)

lemma label_enc_256: "length (label_enc (replicate n False) n) \<le> 2 + bit_length n + n"
  using length_label_enc_le[of "replicate n False" n] by simp

lemma small_numbers: "var_len 1000 \<le> 2" "bit_length 256 = 9" "bit_length 64 = 7"
  by (simp_all add: var_len_le_iff bit_length.simps)

lemma sample_currency: "currency_ok (currency_of_grams 1000)" "currency_refs X (currency_of_grams 1000) = []"
  "length (currency_bits (currency_of_grams 1000)) \<le> 30"
  using small_numbers(1)
  by (simp_all add: currency_ok_def currency_of_grams_def grams_ok_def dict_ok_def wf_hashmap_def EXTRA_CURRENCY_KEY_BITS_def
      currency_bits_def currency_refs_def dict_refs_def serialize_hashmap_root_def hashmap_e_is_empty_def hashmap_e_new_def)

definition sample_accounts :: shard_accounts where
  "sample_accounts = \<lparr>hae_key_bits = 256, hae_root = Some (one_leaf 256
       \<lparr>sa_account = AccountNone, sa_last_trans_hash = replicate 32 1, sa_last_trans_lt = 9\<rparr>
       \<lparr>db_split_depth = 0, db_balance = currency_of_grams 1000\<rparr>),
     hae_extra = \<lparr>db_split_depth = 3, db_balance = currency_of_grams 1000\<rparr>\<rparr>"

lemma sample_accounts_ok:
  "shard_accounts_ok ref_crates sample_accounts" "fits_cell (shard_accounts_bits sample_accounts) (shard_accounts_refs ref_crates sample_accounts)"
  "list_all wf_cell (shard_accounts_refs ref_crates sample_accounts)"
proof -
  note A = aug_codec_of[OF ref_bignum.shard_account_codec ref_bignum.depth_balance_codec]
  have node: "aug_codec.node_ok (shard_account_ok ref_crates) shard_account_bits (shard_account_refs ref_crates)
     depth_balance_ok depth_balance_bits (\<lambda>d. currency_refs ref_crates (db_balance d)) 256 (ha_root (the (hae_root sample_accounts)))"
    using label_enc_256[of 256] small_numbers sample_currency
    by (simp add: aug_codec.node_ok.simps[OF A] sample_accounts_def one_leaf_def shard_account_ok_def depth_balance_ok_def
        depth_balance_bits_def shard_account_bits_def shard_account_refs_def wf_mk_cell)
  then show "shard_accounts_ok ref_crates sample_accounts"
    using sample_currency by (simp add: shard_accounts_ok_def aug_codec.aug_e_ok_def[OF A] sample_accounts_def one_leaf_parsed depth_balance_ok_def)
  show "fits_cell (shard_accounts_bits sample_accounts) (shard_accounts_refs ref_crates sample_accounts)"
    using sample_currency by (simp add: shard_accounts_bits_def shard_accounts_refs_def aug_codec.aug_e_bits_def[OF A]
      aug_codec.aug_e_refs_def[OF A] sample_accounts_def maybe_refs_def fits_cell_def depth_balance_bits_def)
  show "list_all wf_cell (shard_accounts_refs ref_crates sample_accounts)"
    using sample_currency aug_codec.wf_node_cell[OF A node]
    by (simp add: shard_accounts_refs_def aug_codec.aug_e_refs_def[OF A] sample_accounts_def maybe_refs_def)
qed

theorem shard_accounts_roundtrip_witness:
  "\<exists>c. tlb_to_cell (store_shard_accounts ref_crates) sample_accounts = Inr c
    \<and> tlb_from_cell (load_shard_accounts ref_crates) c = Inr sample_accounts"
  using shard_accounts_roundtrip[OF ref_bignum.bignum_axioms sample_accounts_ok] by blast

text \<open>
  The account blocks of a shard, each with the dictionary of its transactions by logical time,
  are written and read back unchanged, when every node fits its cell.
\<close>

theorem shard_blocks_roundtrip:
  assumes "bignum X" "shard_blocks_ok X d" "fits_cell (shard_blocks_bits d) (shard_blocks_refs X d)"
    "list_all wf_cell (shard_blocks_refs X d)"
  shows "\<exists>c. tlb_to_cell (store_shard_account_blocks X) d = Inr c \<and> wf_cell c \<and> tlb_from_cell (load_shard_account_blocks X) c = Inr d"
  using tail_codec.cell_roundtrip[OF value_codec_tail[OF bignum.shard_blocks_codec[OF assms(1)]] assms(2)] assms(3,4)
  by (simp add: fits_cell_def)


definition sample_block :: account_block where
  "sample_block = \<lparr>ab_account_addr = replicate 32 1, ab_transactions = one_leaf 64 sample_transaction (currency_of_grams 1000),
     ab_state_update = \<lparr>hu_old_hash = replicate 32 3, hu_new_hash = replicate 32 4\<rparr>\<rparr>"

definition sample_blocks :: shard_account_blocks where
  "sample_blocks = \<lparr>hae_key_bits = 256, hae_root = Some (one_leaf 256 sample_block (currency_of_grams 1000)),
     hae_extra = currency_of_grams 1000\<rparr>"

lemma sample_block_ok: "account_block_ok ref_crates sample_block" "length (account_block_bits sample_block) \<le> 500"
  "length (account_block_refs ref_crates sample_block) \<le> 2" "list_all wf_cell (account_block_refs ref_crates sample_block)"
proof -
  note A = aug_codec_of[OF ref_bignum.tx_ref_codec ref_bignum.currency_codec]
  note t = sample_transaction_ok[unfolded fits_cell_def]
  note defs = aug_codec.node_ok.simps[OF A] aug_codec.node_bits.simps[OF A] aug_codec.node_refs.simps[OF A] sample_block_def one_leaf_def
    tx_ref_ok_def tx_ref_def account_block_ok_def account_block_bits_def account_block_refs_def hash_update_ok_def hash_update_bits_def
  show "account_block_ok ref_crates sample_block"
    using label_enc_256[of 64] small_numbers sample_currency t one_leaf_parsed[of 64] by (simp add: defs wf_mk_cell)
  show "length (account_block_bits sample_block) \<le> 500"
    using label_enc_256[of 64] small_numbers sample_currency by (simp add: defs)
  show "length (account_block_refs ref_crates sample_block) \<le> 2" "list_all wf_cell (account_block_refs ref_crates sample_block)"
    using sample_currency t by (simp_all add: defs wf_mk_cell)
qed

lemma sample_blocks_ok:
  "shard_blocks_ok ref_crates sample_blocks" "fits_cell (shard_blocks_bits sample_blocks) (shard_blocks_refs ref_crates sample_blocks)"
  "list_all wf_cell (shard_blocks_refs ref_crates sample_blocks)"
proof -
  note A = aug_codec_of[OF ref_bignum.account_block_codec ref_bignum.currency_codec]
  have node: "aug_codec.node_ok (account_block_ok ref_crates) account_block_bits (account_block_refs ref_crates)
     currency_ok currency_bits (currency_refs ref_crates) 256 (ha_root (the (hae_root sample_blocks)))"
    using label_enc_256[of 256] small_numbers sample_currency sample_block_ok
    by (simp add: aug_codec.node_ok.simps[OF A] sample_blocks_def one_leaf_def)
  then show "shard_blocks_ok ref_crates sample_blocks"
    using sample_currency by (simp add: shard_blocks_ok_def aug_codec.aug_e_ok_def[OF A] sample_blocks_def one_leaf_parsed)
  show "fits_cell (shard_blocks_bits sample_blocks) (shard_blocks_refs ref_crates sample_blocks)"
    using sample_currency by (simp add: shard_blocks_bits_def shard_blocks_refs_def aug_codec.aug_e_bits_def[OF A]
      aug_codec.aug_e_refs_def[OF A] sample_blocks_def maybe_refs_def fits_cell_def)
  show "list_all wf_cell (shard_blocks_refs ref_crates sample_blocks)"
    using sample_currency aug_codec.wf_node_cell[OF A node]
    by (simp add: shard_blocks_refs_def aug_codec.aug_e_refs_def[OF A] sample_blocks_def maybe_refs_def)
qed

theorem shard_blocks_roundtrip_witness:
  "\<exists>c. tlb_to_cell (store_shard_account_blocks ref_crates) sample_blocks = Inr c
    \<and> tlb_from_cell (load_shard_account_blocks ref_crates) c = Inr sample_blocks"
  using shard_blocks_roundtrip[OF ref_bignum.bignum_axioms sample_blocks_ok] by blast

end
