(* ===== verification/TlbBlock.thy ===== *)
theory TlbBlock
  imports TlbShard
begin

text \<open>
  Blocks, shard states, configuration parameters and Merkle proofs (\<open>src/tlb/block.rs\<close>).  Parts the
  code keeps as raw cells are cells here.  Besides the round trips, the theory shows what
  \<open>config_entries\<close> makes of a real configuration dictionary.
\<close>

definition BLOCK_TAG :: u32 where "BLOCK_TAG = 0x11ef55aa"
definition VALUE_FLOW_TAG :: u32 where "VALUE_FLOW_TAG = 0xb8e48dfb"
definition VALUE_FLOW_V2_TAG :: u32 where "VALUE_FLOW_V2_TAG = 0x3ebf98b7"
definition SHARD_STATE_TAG :: u32 where "SHARD_STATE_TAG = 0x9023afe2"
definition SPLIT_STATE_TAG :: u32 where "SPLIT_STATE_TAG = 0x5f327da5"
definition CONFIG_PARAMS_KEY_BITS :: nat where "CONFIG_PARAMS_KEY_BITS = 32"

section \<open>Helpers\<close>

definition load_hash :: "slice \<Rightarrow> (bytes \<times> slice) result" where
  "load_hash s = load_bytes s 32"

text \<open>The format \<open>{:08x}\<close> of a 32-bit number.\<close>

definition hex08 :: "u32 \<Rightarrow> string" where
  "hex08 w = map (\<lambda>i. hex_digit (unat w div 16 ^ i mod 16)) (rev [0..<8])"

text \<open>\<open>load_u32_tag\<close> of \<open>block.rs\<close>.\<close>

definition expect_u32_tag :: "crates \<Rightarrow> slice \<Rightarrow> string \<Rightarrow> u32 \<Rightarrow> (unit \<times> slice) result" where
  "expect_u32_tag X s constructor expected = and_then (load_u32 X s) (\<lambda>(actual, s).
     if actual = expected then Inr ((), s) else Inl (TlbErr (TlbTagMismatch constructor (hex08 actual))))"

definition store_remaining :: "slice \<Rightarrow> builder \<Rightarrow> (builder \<times> slice) result" where
  "store_remaining s b =
     and_then (if 0 < remaining_bits s
               then and_then (load_bits s (remaining_bits s)) (\<lambda>(bits, s').
                 and_then (store_bits b bits (remaining_bits s)) (\<lambda>b. Inr (b, s')))
               else Inr (b, s)) (\<lambda>(b, s).
     and_then (load_remaining_refs s) (\<lambda>(refs, s).
     and_then (try_fold store_ref b refs) (\<lambda>b. Inr (b, s))))"

definition consume_remaining_cell :: "slice \<Rightarrow> (cell \<times> slice) result" where
  "consume_remaining_cell s =
     and_then (store_remaining s builder_new) (\<lambda>(b, s). and_then (builder_build b) (\<lambda>c. Inr (c, s)))"

section \<open>Identifiers\<close>

record shard_ident =
  id_shard_pfx_bits :: u8
  id_workchain_id :: i32
  id_shard_prefix :: u64

definition store_shard_ident :: "crates \<Rightarrow> builder \<Rightarrow> shard_ident \<Rightarrow> builder result" where
  "store_shard_ident X b i =
     (if 60 < id_shard_pfx_bits i then Inl (TlbErr (TlbCustomSchema ''ShardIdent''))
      else
        and_then (store_tag b ''00'') (\<lambda>b.
        and_then (store_uint_custom X b (id_shard_pfx_bits i) 6) (\<lambda>b.
        and_then (store_int_as X b (id_workchain_id i) 32) (\<lambda>b.
        store_u64 X b (id_shard_prefix i)))))"

definition load_shard_ident :: "crates \<Rightarrow> slice \<Rightarrow> (shard_ident \<times> slice) result" where
  "load_shard_ident X s =
     and_then (expect_tag s ''ShardIdent'' ''00'') (\<lambda>s.
     and_then (load_uint_custom X s 6) (\<lambda>(pfx_bits, s).
     if 60 < pfx_bits then Inl (TlbErr (TlbCustomSchema ''ShardIdent''))
     else
       and_then (load_int_as X s 32) (\<lambda>(workchain_id, s).
       and_then (load_u64 X s) (\<lambda>(shard_prefix, s).
       Inr (\<lparr>id_shard_pfx_bits = pfx_bits, id_workchain_id = workchain_id, id_shard_prefix = shard_prefix\<rparr>, s)))))"

record ext_blk_ref =
  er_end_lt :: u64
  er_seq_no :: u32
  er_root_hash :: bytes
  er_file_hash :: bytes

definition store_ext_blk_ref :: "crates \<Rightarrow> builder \<Rightarrow> ext_blk_ref \<Rightarrow> builder result" where
  "store_ext_blk_ref X b r =
     and_then (store_u64 X b (er_end_lt r)) (\<lambda>b.
     and_then (store_u32 X b (er_seq_no r)) (\<lambda>b.
     and_then (store_bytes b (er_root_hash r)) (\<lambda>b.
     store_bytes b (er_file_hash r))))"

definition load_ext_blk_ref :: "crates \<Rightarrow> slice \<Rightarrow> (ext_blk_ref \<times> slice) result" where
  "load_ext_blk_ref X s =
     and_then (load_u64 X s) (\<lambda>(end_lt, s).
     and_then (load_u32 X s) (\<lambda>(seq_no, s).
     and_then (load_hash s) (\<lambda>(root_hash, s).
     and_then (load_hash s) (\<lambda>(file_hash, s).
     Inr (\<lparr>er_end_lt = end_lt, er_seq_no = seq_no, er_root_hash = root_hash, er_file_hash = file_hash\<rparr>, s)))))"

record block_id_ext =
  bi_shard_id :: shard_ident
  bi_seq_no :: u32
  bi_root_hash :: bytes
  bi_file_hash :: bytes

definition store_block_id_ext :: "crates \<Rightarrow> builder \<Rightarrow> block_id_ext \<Rightarrow> builder result" where
  "store_block_id_ext X b i =
     and_then (store_shard_ident X b (bi_shard_id i)) (\<lambda>b.
     and_then (store_u32 X b (bi_seq_no i)) (\<lambda>b.
     and_then (store_bytes b (bi_root_hash i)) (\<lambda>b.
     store_bytes b (bi_file_hash i))))"

definition load_block_id_ext :: "crates \<Rightarrow> slice \<Rightarrow> (block_id_ext \<times> slice) result" where
  "load_block_id_ext X s =
     and_then (load_shard_ident X s) (\<lambda>(shard_id, s).
     and_then (load_u32 X s) (\<lambda>(seq_no, s).
     and_then (load_hash s) (\<lambda>(root_hash, s).
     and_then (load_hash s) (\<lambda>(file_hash, s).
     Inr (\<lparr>bi_shard_id = shard_id, bi_seq_no = seq_no, bi_root_hash = root_hash, bi_file_hash = file_hash\<rparr>, s)))))"

section \<open>Blocks and shard states\<close>

record block =
  bl_global_id :: i32
  bl_info :: cell
  bl_value_flow :: cell
  bl_state_update :: cell
  bl_extra :: cell

definition store_block :: "crates \<Rightarrow> builder \<Rightarrow> block \<Rightarrow> builder result" where
  "store_block X b k =
     and_then (store_u32 X b BLOCK_TAG) (\<lambda>b.
     and_then (store_int_as X b (bl_global_id k) 32) (\<lambda>b.
     and_then (store_ref b (bl_info k)) (\<lambda>b.
     and_then (store_ref b (bl_value_flow k)) (\<lambda>b.
     and_then (store_ref b (bl_state_update k)) (\<lambda>b.
     store_ref b (bl_extra k))))))"

definition load_block :: "crates \<Rightarrow> slice \<Rightarrow> (block \<times> slice) result" where
  "load_block X s =
     and_then (expect_u32_tag X s ''Block'' BLOCK_TAG) (\<lambda>(_, s).
     and_then (load_int_as X s 32) (\<lambda>(global_id, s).
     and_then (load_reference s) (\<lambda>(info, s).
     and_then (load_reference s) (\<lambda>(value_flow, s).
     and_then (load_reference s) (\<lambda>(state_update, s).
     and_then (load_reference s) (\<lambda>(extra, s).
     Inr (\<lparr>bl_global_id = global_id, bl_info = info, bl_value_flow = value_flow, bl_state_update = state_update,
           bl_extra = extra\<rparr>, s)))))))"

text \<open>\<open>BlockInfo\<close>, \<open>BlockPrevInfo\<close>, \<open>BlockExtra\<close> and \<open>McBlockExtra\<close> wrap one cell.\<close>

definition store_block_info :: "builder \<Rightarrow> cell \<Rightarrow> builder result" where "store_block_info b c = store_cell b c"
definition load_block_info :: "slice \<Rightarrow> (cell \<times> slice) result" where "load_block_info s = consume_remaining_cell s"
definition store_block_prev_info :: "builder \<Rightarrow> cell \<Rightarrow> builder result" where "store_block_prev_info b c = store_cell b c"
definition load_block_prev_info :: "slice \<Rightarrow> (cell \<times> slice) result" where "load_block_prev_info s = consume_remaining_cell s"
definition store_block_extra :: "builder \<Rightarrow> cell \<Rightarrow> builder result" where "store_block_extra b c = store_cell b c"
definition load_block_extra :: "slice \<Rightarrow> (cell \<times> slice) result" where "load_block_extra s = consume_remaining_cell s"
definition store_mc_block_extra :: "builder \<Rightarrow> cell \<Rightarrow> builder result" where "store_mc_block_extra b c = store_cell b c"
definition load_mc_block_extra :: "slice \<Rightarrow> (cell \<times> slice) result" where "load_mc_block_extra s = consume_remaining_cell s"

datatype value_flow = ValueFlowV1 cell | ValueFlowV2 cell

definition store_value_flow :: "builder \<Rightarrow> value_flow \<Rightarrow> builder result" where
  "store_value_flow b v = (case v of ValueFlowV1 payload \<Rightarrow> store_cell b payload | ValueFlowV2 payload \<Rightarrow> store_cell b payload)"

definition load_value_flow :: "crates \<Rightarrow> slice \<Rightarrow> (value_flow \<times> slice) result" where
  "load_value_flow X s =
     and_then (consume_remaining_cell s) (\<lambda>(c, s).
     and_then (load_u32 X (slice_new c)) (\<lambda>(tag, _).
     if tag = VALUE_FLOW_TAG then Inr (ValueFlowV1 c, s)
     else if tag = VALUE_FLOW_V2_TAG then Inr (ValueFlowV2 c, s)
     else Inl (TlbErr (TlbTagMismatch ''ValueFlow'' (hex08 tag)))))"

datatype shard_state = ShardUnsplit cell | ShardSplit cell cell

definition store_shard_state :: "crates \<Rightarrow> builder \<Rightarrow> shard_state \<Rightarrow> builder result" where
  "store_shard_state X b t = (case t of
      ShardUnsplit payload \<Rightarrow> store_cell b payload
    | ShardSplit left right \<Rightarrow>
        and_then (store_u32 X b SPLIT_STATE_TAG) (\<lambda>b.
        and_then (store_ref b left) (\<lambda>b. store_ref b right)))"

definition load_shard_state :: "crates \<Rightarrow> slice \<Rightarrow> (shard_state \<times> slice) result" where
  "load_shard_state X s = and_then (load_u32 X s) (\<lambda>(tag, s).
     if tag = SHARD_STATE_TAG then
       and_then (store_u32 X builder_new SHARD_STATE_TAG) (\<lambda>b.
       and_then (store_remaining s b) (\<lambda>(b, s).
       and_then (builder_build b) (\<lambda>payload. Inr (ShardUnsplit payload, s))))
     else if tag = SPLIT_STATE_TAG then
       and_then (load_reference s) (\<lambda>(left, s).
       and_then (load_reference s) (\<lambda>(right, s). Inr (ShardSplit left right, s)))
     else Inl (TlbErr (TlbTagMismatch ''ShardState'' (hex08 tag))))"

definition store_shard_state_unsplit :: "builder \<Rightarrow> cell \<Rightarrow> builder result" where
  "store_shard_state_unsplit b c = store_cell b c"

definition load_shard_state_unsplit :: "crates \<Rightarrow> slice \<Rightarrow> (cell \<times> slice) result" where
  "load_shard_state_unsplit X s = and_then (load_shard_state X s) (\<lambda>(state, s).
     case state of
       ShardUnsplit payload \<Rightarrow> Inr (payload, s)
     | ShardSplit _ _ \<Rightarrow> Inl (TlbErr (TlbTagMismatch ''ShardStateUnsplit'' ''5f327da5'')))"

definition store_hash_update_any :: "builder \<Rightarrow> hash_update \<Rightarrow> builder result" where
  "store_hash_update_any b u =
     and_then (store_tag b ''01110010'') (\<lambda>b.
     and_then (store_bytes b (hu_old_hash u)) (\<lambda>b. store_bytes b (hu_new_hash u)))"

definition load_hash_update_any :: "slice \<Rightarrow> (hash_update \<times> slice) result" where
  "load_hash_update_any s =
     and_then (expect_tag s ''HASH_UPDATE'' ''01110010'') (\<lambda>s.
     and_then (load_hash s) (\<lambda>(old_hash, s).
     and_then (load_hash s) (\<lambda>(new_hash, s).
     Inr (\<lparr>hu_old_hash = old_hash, hu_new_hash = new_hash\<rparr>, s))))"

section \<open>Configuration\<close>

record config_params =
  cfg_config_addr :: bytes
  cfg_config :: cell

datatype config_param_value =
    Param0 cell | Param1 cell | Param2 cell | Param15 cell | Param17 cell | Param18 cell | Param20 cell | Param21 cell
  | Param24 cell | Param25 cell | Param32 cell | Param34 cell | Param36 cell | UnknownParam u32 cell

record config_param =
  cp_id :: u32
  cp_value :: config_param_value

definition store_config_params :: "builder \<Rightarrow> config_params \<Rightarrow> builder result" where
  "store_config_params b p = and_then (store_bytes b (cfg_config_addr p)) (\<lambda>b. store_ref b (cfg_config p))"

definition load_config_params :: "slice \<Rightarrow> (config_params \<times> slice) result" where
  "load_config_params s =
     and_then (load_hash s) (\<lambda>(config_addr, s).
     and_then (load_reference s) (\<lambda>(config, s).
     Inr (\<lparr>cfg_config_addr = config_addr, cfg_config = config\<rparr>, s)))"

definition config_entries :: "config_params \<Rightarrow> cell hashmap_e result" where
  "config_entries p =
     and_then (map_err (\<lambda>_. TlbErr (TlbCustomSchema ''ConfigParams.config''))
       (load_hashmap_e_with (slice_new (cfg_config p)) CONFIG_PARAMS_KEY_BITS load_reference)) (\<lambda>(d, _). Inr d)"

definition config_param_from_raw :: "u32 \<Rightarrow> cell \<Rightarrow> config_param_value" where
  "config_param_from_raw pid raw =
     (if pid = 0 then Param0 raw else if pid = 1 then Param1 raw else if pid = 2 then Param2 raw
      else if pid = 15 then Param15 raw else if pid = 17 then Param17 raw else if pid = 18 then Param18 raw
      else if pid = 20 then Param20 raw else if pid = 21 then Param21 raw else if pid = 24 then Param24 raw
      else if pid = 25 then Param25 raw else if pid = 32 then Param32 raw else if pid = 34 then Param34 raw
      else if pid = 36 then Param36 raw else UnknownParam pid raw)"

definition typed_params :: "config_params \<Rightarrow> config_param list result" where
  "typed_params p = and_then (config_entries p) (\<lambda>d.
     try_fold (\<lambda>params (key, raw).
       and_then (map_err (\<lambda>_. TlbErr (TlbCustomSchema ''ConfigParams.config.key'')) (bit_key_to_u64 key)) (\<lambda>pid.
       Inr (params @ [\<lparr>cp_id = ucast pid, cp_value = config_param_from_raw (ucast pid) raw\<rparr>]))) [] (he_map d))"

definition raw_param :: "config_params \<Rightarrow> u32 \<Rightarrow> cell option result" where
  "raw_param p pid =
     and_then (map_err (\<lambda>_. TlbErr (TlbCustomSchema ''ConfigParams.config.key''))
       (bit_key_from_u64 (ucast pid) CONFIG_PARAMS_KEY_BITS)) (\<lambda>key.
     and_then (config_entries p) (\<lambda>d.
     map_err (\<lambda>_. TlbErr (TlbCustomSchema ''ConfigParams.config'')) (get_bit_key d key)))"

section \<open>Merkle proofs and updates\<close>

record merkle_proof =
  mp_cell :: cell
  mp_virtual_hash :: bytes
  mp_depth :: u16
  mp_virtual_root :: cell

definition proof_from_exotic_cell :: "cell \<Rightarrow> merkle_proof result" where
  "proof_from_exotic_cell c = (case (cell_exotic c, cell_references c) of
      (Some (MerkleProof proof_hash proof_depth), [root]) \<Rightarrow>
        Inr \<lparr>mp_cell = c, mp_virtual_hash = proof_hash, mp_depth = proof_depth, mp_virtual_root = root\<rparr>
    | _ \<Rightarrow> Inl (TlbErr (TlbCustomSchema ''MERKLE_PROOF'')))"

definition verify_virtual_hash :: "crates \<Rightarrow> merkle_proof \<Rightarrow> bool" where
  "verify_virtual_hash X p \<longleftrightarrow> cell_hash X (mp_virtual_root p) = mp_virtual_hash p"

record merkle_update =
  mu_cell :: cell
  mu_old_hash :: bytes
  mu_new_hash :: bytes
  mu_old_depth :: u16
  mu_new_depth :: u16
  mu_old :: cell
  mu_new :: cell

definition update_from_exotic_cell :: "cell \<Rightarrow> merkle_update result" where
  "update_from_exotic_cell c = (case (cell_exotic c, cell_references c) of
      (Some (MerkleUpdate old_hash new_hash old_depth new_depth), [old, new]) \<Rightarrow>
        Inr \<lparr>mu_cell = c, mu_old_hash = old_hash, mu_new_hash = new_hash, mu_old_depth = old_depth, mu_new_depth = new_depth,
             mu_old = old, mu_new = new\<rparr>
    | _ \<Rightarrow> Inl (TlbErr (TlbCustomSchema ''MERKLE_UPDATE'')))"

definition verify_virtual_hashes :: "crates \<Rightarrow> merkle_update \<Rightarrow> bool" where
  "verify_virtual_hashes X u \<longleftrightarrow> cell_hash X (mu_old u) = mu_old_hash u \<and> cell_hash X (mu_new u) = mu_new_hash u"

section \<open>Encodings\<close>

definition shard_ident_bits :: "shard_ident \<Rightarrow> bool list" where
  "shard_ident_bits i = [False, False] @ nat_bits 6 (unat (id_shard_pfx_bits i)) @ nat_bits 32 (unat (id_workchain_id i))
     @ nat_bits 64 (unat (id_shard_prefix i))"

definition block_id_ok :: "block_id_ext \<Rightarrow> bool" where
  "block_id_ok i \<longleftrightarrow> id_shard_pfx_bits (bi_shard_id i) \<le> 60 \<and> length (bi_root_hash i) = 32 \<and> length (bi_file_hash i) = 32"

definition block_id_bits :: "block_id_ext \<Rightarrow> bool list" where
  "block_id_bits i = shard_ident_bits (bi_shard_id i) @ nat_bits 32 (unat (bi_seq_no i)) @ bytes_bits (bi_root_hash i)
     @ bytes_bits (bi_file_hash i)"

definition ext_blk_ref_ok :: "ext_blk_ref \<Rightarrow> bool" where
  "ext_blk_ref_ok r \<longleftrightarrow> length (er_root_hash r) = 32 \<and> length (er_file_hash r) = 32"

definition ext_blk_ref_bits :: "ext_blk_ref \<Rightarrow> bool list" where
  "ext_blk_ref_bits r = nat_bits 64 (unat (er_end_lt r)) @ nat_bits 32 (unat (er_seq_no r)) @ bytes_bits (er_root_hash r)
     @ bytes_bits (er_file_hash r)"

definition block_bits :: "block \<Rightarrow> bool list" where
  "block_bits k = nat_bits 32 (unat BLOCK_TAG) @ nat_bits 32 (unat (bl_global_id k)) @ []"

definition block_refs :: "block \<Rightarrow> cell list" where
  "block_refs k = [bl_info k, bl_value_flow k, bl_state_update k, bl_extra k]"

text \<open>The payload of a constructor is an ordinary cell that starts with its tag.\<close>

definition tagged :: "u32 \<Rightarrow> cell \<Rightarrow> bool" where
  "tagged tag c \<longleftrightarrow> wf_cell c \<and> cell_exotic c = None \<and> (\<exists>ys. cell_bits c = nat_bits 32 (unat tag) @ ys)"

fun shard_state_ok :: "shard_state \<Rightarrow> bool" where
  "shard_state_ok (ShardUnsplit c) \<longleftrightarrow> tagged SHARD_STATE_TAG c"
| "shard_state_ok (ShardSplit l r) \<longleftrightarrow> True"

fun shard_state_bits :: "shard_state \<Rightarrow> bool list" where
  "shard_state_bits (ShardUnsplit c) = cell_bits c"
| "shard_state_bits (ShardSplit l r) = nat_bits 32 (unat SPLIT_STATE_TAG) @ []"

fun shard_state_refs :: "shard_state \<Rightarrow> cell list" where
  "shard_state_refs (ShardUnsplit c) = cell_references c"
| "shard_state_refs (ShardSplit l r) = [l, r]"

fun value_flow_ok :: "value_flow \<Rightarrow> bool" where
  "value_flow_ok (ValueFlowV1 c) \<longleftrightarrow> tagged VALUE_FLOW_TAG c"
| "value_flow_ok (ValueFlowV2 c) \<longleftrightarrow> tagged VALUE_FLOW_V2_TAG c"

fun value_flow_cell :: "value_flow \<Rightarrow> cell" where
  "value_flow_cell (ValueFlowV1 c) = c"
| "value_flow_cell (ValueFlowV2 c) = c"

section \<open>Codecs\<close>

lemma expect_tag_loop_reads:
  "wf_slice s \<Longrightarrow> slice_bits s = map (\<lambda>c. c = CHR ''1'') tag @ ys \<Longrightarrow> set tag \<subseteq> {CHR ''0'', CHR ''1''} \<Longrightarrow>
    expect_tag_loop s constructor tag actual = Inr (adv s (length tag) 0)"
  by (induction tag arbitrary: s actual) (simp_all add: load_bit_eq wf_adv)

lemma expect_tag_yields:
  assumes "set tag \<subseteq> {CHR ''0'', CHR ''1''}" "ts = map (\<lambda>c. c = CHR ''1'') tag" "yields g w ys qs"
  shows "yields (\<lambda>s. and_then (expect_tag s constructor tag) g) w (ts @ ys) qs"
  using assms by (simp add: yields_def expect_tag_def expect_tag_loop_reads wf_adv)

lemma consume_remaining_cell_eq: "consume_remaining_cell = load_raw_cell"
  by (rule ext) (simp add: consume_remaining_cell_def store_remaining_def load_raw_cell_def and_then_assoc split_def)

lemma cell_emits: "wf_cell c \<Longrightarrow> emits (\<lambda>b. store_cell b c) (cell_bits c) (cell_references c)"
  by (simp add: emits_def store_cell_mk)

lemma consume_ends:
  "wf_cell c \<Longrightarrow> cell_exotic c = None \<Longrightarrow> ends consume_remaining_cell c (cell_bits c) (cell_references c)"
  using tail_codec_steps(2)[OF raw_cell.tail_codec_axioms] by (simp add: consume_remaining_cell_eq)

lemma block_cell_codec:
  "tail_codec store_cell consume_remaining_cell (\<lambda>c. wf_cell c \<and> cell_exotic c = None) cell_bits cell_references"
  by (rule tail_codecI) (simp_all add: cell_emits consume_ends)

interpretation block_info: tail_codec store_block_info load_block_info "\<lambda>c. wf_cell c \<and> cell_exotic c = None" cell_bits cell_references
  using block_cell_codec by (simp add: store_block_info_def[abs_def] load_block_info_def[abs_def])

interpretation block_prev_info: tail_codec store_block_prev_info load_block_prev_info "\<lambda>c. wf_cell c \<and> cell_exotic c = None"
  cell_bits cell_references
  using block_cell_codec by (simp add: store_block_prev_info_def[abs_def] load_block_prev_info_def[abs_def])

interpretation block_extra: tail_codec store_block_extra load_block_extra "\<lambda>c. wf_cell c \<and> cell_exotic c = None" cell_bits cell_references
  using block_cell_codec by (simp add: store_block_extra_def[abs_def] load_block_extra_def[abs_def])

interpretation mc_block_extra: tail_codec store_mc_block_extra load_mc_block_extra "\<lambda>c. wf_cell c \<and> cell_exotic c = None"
  cell_bits cell_references
  using block_cell_codec by (simp add: store_mc_block_extra_def[abs_def] load_mc_block_extra_def[abs_def])

lemma load_hash_yields [fields]: "length h = 32 \<Longrightarrow> yields load_hash h (bytes_bits h) []"
  using bytes_steps(2)[of h 32] by (simp add: load_hash_def[abs_def])

text \<open>Steps for a reader whose references are given as a list.\<close>

lemma yields_no_ref:
  "yields f v ys [] \<Longrightarrow> yields (g v) w ys' qs \<Longrightarrow> yields (\<lambda>s. and_then (f s) (\<lambda>(v, s). g v s)) w (ys @ ys') qs"
  using yields_bind[of f v ys "[]" g w ys' qs] by simp

lemma yields_ref: "yields (g c) w ys qs \<Longrightarrow> yields (\<lambda>s. and_then (load_reference s) (\<lambda>(c, s). g c s)) w ys (c # qs)"
  using yields_bind[OF ref_steps(2)[of c], of g w ys qs] by simp

lemma config_params_codec:
  "value_codec store_config_params load_config_params (\<lambda>p. length (cfg_config_addr p) = 32) (\<lambda>p. bytes_bits (cfg_config_addr p) @ [])
    (\<lambda>p. [cfg_config p])"
proof (rule codecI)
  show "emits (\<lambda>b. store_config_params b p) (bytes_bits (cfg_config_addr p) @ []) [cfg_config p]" for p
    unfolding store_config_params_def by - (rule emits_eq, (rule fields | (simp; fail))+)
  show "yields load_config_params p (bytes_bits (cfg_config_addr p) @ []) [cfg_config p]" if "length (cfg_config_addr p) = 32" for p
    using that unfolding load_config_params_def by - (rule ref_steps(2)[of "cfg_config p"] fields | (simp; fail))+
qed

lemma hash_update_any_codec: "value_codec store_hash_update_any load_hash_update_any hash_update_ok hash_update_bits (\<lambda>_. [])"
proof (rule codecI)
  have tag: "map (\<lambda>c. c = CHR ''1'') ''01110010'' = nat_bits 8 0x72" by code_simp
  show "emits (\<lambda>b. store_hash_update_any b u) (hash_update_bits u) []" for u
    unfolding store_hash_update_any_def by - (rule emits_eq, (rule fields | (simp add: hash_update_bits_def flip: tag; fail))+)
  show "yields load_hash_update_any u (hash_update_bits u) []" if "hash_update_ok u" for u
    using that unfolding load_hash_update_any_def hash_update_ok_def hash_update_bits_def
    by - (rule expect_tag_yields fields | (simp flip: tag; fail))+
qed

context bignum
begin

lemma shard_ident_codec:
  "value_codec (store_shard_ident X) (load_shard_ident X) (\<lambda>i. id_shard_pfx_bits i \<le> 60) shard_ident_bits (\<lambda>_. [])"
proof (rule codecI)
  show "emits (\<lambda>b. store_shard_ident X b i) (shard_ident_bits i) []" if "id_shard_pfx_bits i \<le> 60" for i
    using that unfolding store_shard_ident_def
    by - (rule emits_eq, (rule emits_guard fields | (simp add: shard_ident_bits_def word_le_nat_alt word_less_nat_alt; fail))+)
  show "yields (load_shard_ident X) i (shard_ident_bits i) []" if "id_shard_pfx_bits i \<le> 60" for i
    using that unfolding load_shard_ident_def shard_ident_bits_def
    by - (rule yields_if(2), (simp add: word_le_nat_alt word_less_nat_alt; fail)
      | rule expect_tag_yields fields | (simp add: word_le_nat_alt word_less_nat_alt; fail))+
qed

lemma block_id_codec: "value_codec (store_block_id_ext X) (load_block_id_ext X) block_id_ok block_id_bits (\<lambda>_. [])"
proof (rule codecI)
  note parts = shard_ident_codec[THEN codec_emits] shard_ident_codec[THEN codec_yields]
  show "emits (\<lambda>b. store_block_id_ext X b i) (block_id_bits i) []" if "block_id_ok i" for i
    using that unfolding store_block_id_ext_def block_id_ok_def
    by - (rule emits_eq, (rule parts fields | (simp add: block_id_bits_def; fail))+)
  show "yields (load_block_id_ext X) i (block_id_bits i) []" if "block_id_ok i" for i
    using that unfolding load_block_id_ext_def block_id_ok_def block_id_bits_def
    by - (rule parts fields | (simp; fail))+
qed

lemma ext_blk_ref_codec:
  "value_codec (store_ext_blk_ref X) (load_ext_blk_ref X) ext_blk_ref_ok ext_blk_ref_bits (\<lambda>_. [])"
proof (rule codecI)
  show "emits (\<lambda>b. store_ext_blk_ref X b r) (ext_blk_ref_bits r) []" for r
    unfolding store_ext_blk_ref_def by - (rule emits_eq, (rule fields | (simp add: ext_blk_ref_bits_def; fail))+)
  show "yields (load_ext_blk_ref X) r (ext_blk_ref_bits r) []" if "ext_blk_ref_ok r" for r
    using that unfolding load_ext_blk_ref_def ext_blk_ref_ok_def ext_blk_ref_bits_def by - (rule fields | (simp; fail))+
qed

lemma expect_u32_tag_yields [fields]:
  "n = unat tag \<Longrightarrow> yields (\<lambda>s. expect_u32_tag X s constructor tag) () (nat_bits 32 n) []"
  using named_uint_steps(6)[of tag] by (simp add: expect_u32_tag_def yields_def)

lemma block_codec: "value_codec (store_block X) (load_block X) (\<lambda>_. True) block_bits block_refs"
proof (rule codecI)
  show "emits (\<lambda>b. store_block X b k) (block_bits k) (block_refs k)" for k
    unfolding store_block_def by - (rule emits_eq, (rule fields | (simp add: block_bits_def block_refs_def; fail))+)
  show "yields (load_block X) k (block_bits k) (block_refs k)" for k
    unfolding load_block_def block_bits_def block_refs_def
    by (rule yields_no_ref, rule expect_u32_tag_yields, rule refl, rule yields_no_ref, rule int_as_steps, simp_all)
      ((rule yields_ref)+, simp add: yields_def)
qed

lemma store_remaining_eq:
  assumes "wf_slice s" "length xs + length (slice_bits s) \<le> 1023" "length rs + length (slice_refs s) \<le> 4"
  shows "store_remaining s (mk_b xs rs) = Inr (mk_b (xs @ slice_bits s) (rs @ slice_refs s), adv s (length (slice_bits s)) (length (slice_refs s)))"
proof -
  have "try_fold store_ref (mk_b (xs @ slice_bits s) rs) (slice_refs s) = Inr (mk_b (xs @ slice_bits s) (rs @ slice_refs s))"
    using ref_codec.store_many[of "slice_refs s" "xs @ slice_bits s" rs] assms(2,3) by (simp add: list_all_iff)
  then show ?thesis using assms div_ceil_bounds[of "length (slice_bits s)"]
    by (cases "slice_bits s = []")
      (auto simp: store_remaining_def remaining_bits_eq load_bits_eq store_bits_mk load_remaining_refs_eq wf_adv)
qed

lemma tagged_u32: "tagged tag c \<Longrightarrow> load_u32 X (slice_new c) = Inr (tag, adv (slice_new c) 32 0)"
  using named_uint_steps(6)[of tag] by (auto simp: tagged_def yields_def)

lemma value_flow_codec:
  "tail_codec store_value_flow (load_value_flow X) value_flow_ok (\<lambda>v. cell_bits (value_flow_cell v)) (\<lambda>v. cell_references (value_flow_cell v))"
proof (rule tail_codecI)
  fix v assume v: "value_flow_ok v"
  then have c: "wf_cell (value_flow_cell v)" "cell_exotic (value_flow_cell v) = None" by (cases v; simp add: tagged_def)+
  have "store_value_flow b v = store_cell b (value_flow_cell v)" for b by (cases v) (simp_all add: store_value_flow_def)
  then show "emits (\<lambda>b. store_value_flow b v) (cell_bits (value_flow_cell v)) (cell_references (value_flow_cell v))"
    by (simp add: cell_emits c)
  have "VALUE_FLOW_V2_TAG \<noteq> VALUE_FLOW_TAG" by (simp add: VALUE_FLOW_TAG_def VALUE_FLOW_V2_TAG_def)
  then show "ends (load_value_flow X) v (cell_bits (value_flow_cell v)) (cell_references (value_flow_cell v))"
    using consume_ends[OF c] v by (cases v) (simp_all add: ends_def load_value_flow_def tagged_u32)
qed

lemma shard_state_codec:
  "tail_codec (store_shard_state X) (load_shard_state X) shard_state_ok shard_state_bits shard_state_refs"
proof (rule tail_codecI)
  show "emits (\<lambda>b. store_shard_state X b t) (shard_state_bits t) (shard_state_refs t)" if "shard_state_ok t" for t
    using that unfolding store_shard_state_def
    by (cases t) (simp_all only: shard_state.case shard_state_ok.simps tagged_def,
      (rule emits_eq, (rule cell_emits fields | (simp; fail))+)+)
  show "ends (load_shard_state X) t (shard_state_bits t) (shard_state_refs t)" if "shard_state_ok t" for t
  proof (cases t)
    case (ShardSplit l r)
    have "SPLIT_STATE_TAG \<noteq> SHARD_STATE_TAG" by (simp add: SPLIT_STATE_TAG_def SHARD_STATE_TAG_def)
    then have "yields (load_shard_state X) t (nat_bits 32 (unat SPLIT_STATE_TAG) @ []) [l, r]"
      unfolding load_shard_state_def ShardSplit
      by - (rule yields_no_ref, rule named_uint_steps, simp, (rule yields_ref)+, simp add: yields_def)
    then show ?thesis by (simp add: ShardSplit yields_ends)
  next
    case (ShardUnsplit c)
    have "tagged SHARD_STATE_TAG c" using that ShardUnsplit by simp
    then obtain ys where c: "wf_cell c" "cell_exotic c = None" "cell_bits c = nat_bits 32 (unat SHARD_STATE_TAG) @ ys"
      by (auto simp: tagged_def)
    have fits: "32 + length ys \<le> 1023" "length (cell_references c) \<le> 4"
      using wf_cell_bounds[OF c(1)] c(3) by auto
    show ?thesis unfolding ends_def
    proof (intro allI impI)
      fix s assume s: "wf_slice s" "slice_bits s = shard_state_bits t" "slice_refs s = shard_state_refs t"
      have "load_u32 X s = Inr (SHARD_STATE_TAG, adv s 32 0)"
        using named_uint_steps(6)[of SHARD_STATE_TAG] s c(3) by (simp add: yields_def ShardUnsplit)
      moreover have "store_u32 X builder_new SHARD_STATE_TAG = Inr (mk_b (nat_bits 32 (unat SHARD_STATE_TAG)) [])"
        using named_uint_steps(5)[of SHARD_STATE_TAG] by (simp add: emits_def builder_new_eq)
      ultimately show "load_shard_state X s = Inr (t, adv s (length (shard_state_bits t)) (length (shard_state_refs t)))"
        using s c fits wf_ordinary_eq[OF c(1,2)] store_remaining_eq[of "adv s 32 0" "nat_bits 32 (unat SHARD_STATE_TAG)" "[]"]
        by (simp add: load_shard_state_def ShardUnsplit wf_adv builder_build_mk)
    qed
  qed
qed

end

section \<open>What \<open>config_entries\<close> reads\<close>

lemma label_enc_Nil: "0 < n \<Longrightarrow> label_enc [] n = [False, False]"
  using label_enc_candidate[of "[]" n] label_enc_shortest[of "encode_short_label []" "[]" n] bit_length_less[of n]
  by (cases "bit_length n") (auto simp: label_candidates_def encode_short_label_def long_bits_def same_bits_def)

lemma branching_prefix:
  assumes "wf_hashmap d" "0 < he_key_bits d" "a \<in> fst ` set (he_map d)" "b \<in> fst ` set (he_map d)"
    "key_bit a 0 = Inr False" "key_bit b 0 = Inr True"
  shows "common_prefix_len (he_map d) 0 (he_key_bits d) = Inr 0" "collect_key_bits (fst (hd (he_map d))) 0 0 = Inr []"
proof -
  let ?m = "he_map d" and ?n = "he_key_bits d"
  define es where "es = map (\<lambda>(k, v). (key_bits_of k, v)) ?m"
  have "btree_ordered ?m" and keys: "fst ` set ?m \<subseteq> {k. wf_key k \<and> bk_bit_len k = ?n}"
    using assms(1) by (simp_all add: wf_hashmap_def)
  note E = ordered_entries[OF this, folded es_def]
  have bit: "key_bits_of k \<noteq> [] \<and> key_bit k 0 = Inr (hd (key_bits_of k))" if "k \<in> fst ` set ?m" for k
  proof -
    have k: "wf_key k" "bk_bit_len k = ?n" using that keys by auto
    obtain xs where xs: "k = mk_key xs" "length xs = bk_bit_len k" using wf_keyE[OF k(1)] .
    then have "key_bits_of k = xs" by simp
    then show ?thesis using xs k(2) assms(2) by (cases xs) (auto simp: key_bit_mk)
  qed
  have "es \<noteq> []" using assms(3) by (auto simp: es_def)
  then obtain lab where lab: "common_prefix_len ?m 0 ?n = Inr (length lab)" "\<forall>k \<in> fst ` set es. take (length lab) k = lab"
      "collect_key_bits (fst (hd ?m)) 0 (length lab) = Inr lab"
    using edge_label[OF E(2), of "[]"] E(1) by auto
  have "key_bits_of a \<in> fst ` set es" "key_bits_of b \<in> fst ` set es" using assms(3,4) by (force simp: es_def)+
  then have "take (length lab) (key_bits_of a) = lab" "take (length lab) (key_bits_of b) = lab" using lab(2) by blast+
  then have "lab = []" using bit[OF assms(3)] bit[OF assms(4)] assms(5,6)
    by (cases lab; cases "key_bits_of a"; cases "key_bits_of b") auto
  then show "common_prefix_len ?m 0 ?n = Inr 0" "collect_key_bits (fst (hd ?m)) 0 0 = Inr []" using lab by simp_all
qed

lemma branching_root_bits:
  assumes "common_prefix_len es 0 n = Inr 0" "collect_key_bits (fst (hd es)) 0 0 = Inr []" "0 < n"
    "build_edge store es 0 n = Inr c"
  shows "cell_bits c = [False, False]"
  using assms store_label_mk[of "[]" n "[]" "[]"] label_enc_Nil[OF assms(3)]
  by (subst (asm) build_edge.simps)
    (auto simp: Let_def builder_new_eq and_then_eq_Inr store_ref_mk builder_build_mk split: if_splits)

section \<open>Properties\<close>

text \<open>
  C34: A configuration dictionary with entries on both sides of the first key bit, written as the
  \<open>Hashmap 32 ^Cell\<close> of the schema, is lost by \<open>config_entries\<close>: \<open>deserialize_hashmap_root\<close> gets the dictionary back
  from the root, but \<open>config_entries\<close> reads the root as a \<open>HashmapE\<close>, takes the first bit of its
  label for the presence bit and returns an empty dictionary without an error.
\<close>

theorem config_entries_lost:
  assumes "wf_hashmap d" "he_key_bits d = 32" "list_all wf_cell (map snd (he_map d))"
    "a \<in> fst ` set (he_map d)" "b \<in> fst ` set (he_map d)" "key_bit a 0 = Inr False" "key_bit b 0 = Inr True"
  shows "\<exists>c. serialize_hashmap_root d store_ref = Inr (Some c) \<and> wf_cell c
    \<and> deserialize_hashmap_root c 32 load_reference = Inr d
    \<and> config_entries \<lparr>cfg_config_addr = addr, cfg_config = c\<rparr> = Inr (hashmap_e_new 32)"
proof -
  have ne: "he_map d \<noteq> []" using assms(4) by auto
  have "bit_length 32 = 6" by code_simp
  then obtain c d' where c: "serialize_hashmap_root d store_ref = Inr (Some c)" "wf_cell c"
      "deserialize_hashmap_root c 32 load_reference = Inr d'" "he_key_bits d' = 32"
      "list_all2 (\<lambda>(k, v) (k', w). k = k' \<and> v = w) (he_map d) (he_map d')"
    using ref_codec.hashmap_root_law[OF assms(1) ne] assms(2,3) by (auto simp: list_all_iff)
  then have "d' = d" using assms(2) unfolding pair_rel_eq list.rel_eq by simp
  have "build_edge store_ref (he_map d) 0 32 = Inr c"
    using c(1) ne assms(2) by (auto simp: serialize_hashmap_root_def hashmap_e_is_empty_def and_then_eq_Inr)
  then have "cell_bits c = [False, False]"
    using branching_root_bits[OF branching_prefix[OF assms(1) _ assms(4-7)], of store_ref c] assms(2) by simp
  then have "load_bit (slice_new c) = Inr (False, adv (slice_new c) 1 0)" using c(2) by (simp add: load_bit_eq)
  then show ?thesis using c \<open>d' = d\<close>
    by (auto simp: config_entries_def load_hashmap_e_with_def CONFIG_PARAMS_KEY_BITS_def map_err_def)
qed

definition sample_config :: "cell hashmap_e" where
  "sample_config = \<lparr>he_key_bits = 32, he_map =
     [(BitKey [0, 0, 0, 0] 32, mk_cell [True] []), (BitKey [255, 255, 255, 255] 32, mk_cell [False] [])]\<rparr>"

theorem config_entries_lost_witness:
  "\<exists>c. serialize_hashmap_root sample_config store_ref = Inr (Some c)
    \<and> deserialize_hashmap_root c 32 load_reference = Inr sample_config
    \<and> config_entries \<lparr>cfg_config_addr = replicate 32 0, cfg_config = c\<rparr> = Inr (hashmap_e_new 32)"
proof -
  have "mk_key (key_bits_of k) = k" if "k \<in> {BitKey [0, 0, 0, 0] 32, BitKey [255, 255, 255, 255] 32}" for k
    using that by (elim insertE emptyE) (simp only:, code_simp)+
  then have "wf_hashmap sample_config" by (simp add: wf_hashmap_def sample_config_def wf_key_def less_bit_key_def btree_ordered_def)
  moreover have "key_bit (BitKey [0, 0, 0, 0] 32) 0 = Inr False" "key_bit (BitKey [255, 255, 255, 255] 32) 0 = Inr True"
    by code_simp+
  ultimately show ?thesis
    using config_entries_lost[of sample_config "BitKey [0, 0, 0, 0] 32" "BitKey [255, 255, 255, 255] 32" "replicate 32 0"]
    by (auto simp add: sample_config_def wf_mk_cell)
qed

text \<open>
  A shard state is written and read back unchanged, the unsplit one as its own payload (its
  tag read and put back in front of the rest), the split one as a tag and two references.
\<close>

theorem shard_state_roundtrip:
  assumes "bignum X" "shard_state_ok t" "list_all wf_cell (shard_state_refs t)"
  shows "\<exists>c. tlb_to_cell (store_shard_state X) t = Inr c \<and> wf_cell c \<and> tlb_from_cell (load_shard_state X) c = Inr t"
proof (rule tail_codec.cell_roundtrip[OF bignum.shard_state_codec[OF assms(1)] assms(2) _ _ assms(3)])
  show "length (shard_state_bits t) \<le> 1023" "length (shard_state_refs t) \<le> 4"
    using assms(2) wf_cell_bounds by (cases t; auto simp: tagged_def)+
qed

theorem shard_state_roundtrip_witness:
  "\<exists>c. tlb_to_cell (store_shard_state ref_crates) (ShardUnsplit (mk_cell (nat_bits 32 0x9023afe2 @ [True]) [])) = Inr c
    \<and> tlb_from_cell (load_shard_state ref_crates) c = Inr (ShardUnsplit (mk_cell (nat_bits 32 0x9023afe2 @ [True]) []))"
proof -
  have "shard_state_ok (ShardUnsplit (mk_cell (nat_bits 32 0x9023afe2 @ [True]) []))"
    by (simp add: tagged_def wf_mk_cell SHARD_STATE_TAG_def)
  then show ?thesis using shard_state_roundtrip[OF ref_bignum.bignum_axioms] by fastforce
qed

end
