(* ===== verification/WalletData.thy ===== *)
theory WalletData
  imports TlbMessage
begin

text \<open>
  What a wallet contract stores (\<open>src/wallet/mnemonic.rs\<close>): the packed wallet id of V5R1, the set of
  extensions as a dictionary of address hashes, and the data cells of V4R2 and V5R1.
\<close>

definition WALLET_V4R2_PLUGINS_KEY_BITS :: nat where "WALLET_V4R2_PLUGINS_KEY_BITS = 256"
definition WALLET_V5R1_EXTENSIONS_KEY_BITS :: nat where "WALLET_V5R1_EXTENSIONS_KEY_BITS = 256"
definition WALLET_V5R1_CLIENT_CONTEXT_FLAG :: u32 where "WALLET_V5R1_CLIENT_CONTEXT_FLAG = push_bit 31 1"
definition WALLET_V5R1_CLIENT_SUBWALLET_BITS :: nat where "WALLET_V5R1_CLIENT_SUBWALLET_BITS = 15"
definition WALLET_V5R1_CLIENT_SUBWALLET_MAX :: u16 where
  "WALLET_V5R1_CLIENT_SUBWALLET_MAX = push_bit WALLET_V5R1_CLIENT_SUBWALLET_BITS 1 - 1"
definition MAINNET_GLOBAL_ID :: i32 where "MAINNET_GLOBAL_ID = - 239"
definition TESTNET_GLOBAL_ID :: i32 where "TESTNET_GLOBAL_ID = - 3"

section \<open>The wallet id\<close>

datatype wallet_context = Client i8 u8 u16 | Custom u32

record wallet_id_parts =
  network_global_id :: i32
  id_context :: wallet_context

definition wallet_id_client :: "i32 \<Rightarrow> i8 \<Rightarrow> u8 \<Rightarrow> u16 \<Rightarrow> wallet_id_parts" where
  "wallet_id_client network wc version subwallet = \<lparr>network_global_id = network, id_context = Client wc version subwallet\<rparr>"

definition mainnet_default :: "i8 \<Rightarrow> wallet_id_parts" where
  "mainnet_default wc = wallet_id_client MAINNET_GLOBAL_ID wc 0 0"

definition testnet_default :: "i8 \<Rightarrow> wallet_id_parts" where
  "testnet_default wc = wallet_id_client TESTNET_GLOBAL_ID wc 0 0"

definition wallet_id_unpack :: "u32 \<Rightarrow> i32 \<Rightarrow> wallet_id_parts" where
  "wallet_id_unpack wallet_id network =
     (let context_id = wallet_id XOR network in
      \<lparr>network_global_id = network,
       id_context =
         (if context_id AND WALLET_V5R1_CLIENT_CONTEXT_FLAG \<noteq> 0
          then Client (ucast (drop_bit 23 context_id)) (ucast (drop_bit 15 context_id))
                 (ucast (context_id AND ucast WALLET_V5R1_CLIENT_SUBWALLET_MAX))
          else Custom context_id)\<rparr>)"

definition wallet_id_pack :: "wallet_id_parts \<Rightarrow> u32 result" where
  "wallet_id_pack i =
     and_then (case id_context i of
         Client wc version subwallet \<Rightarrow>
           if WALLET_V5R1_CLIENT_SUBWALLET_MAX < subwallet then Inl (WalletErr (SubwalletNumberTooLarge (unat subwallet)))
           else Inr (WALLET_V5R1_CLIENT_CONTEXT_FLAG OR push_bit 23 (ucast wc) OR push_bit 15 (ucast version) OR ucast subwallet)
       | Custom v \<Rightarrow>
           if v AND WALLET_V5R1_CLIENT_CONTEXT_FLAG \<noteq> 0 then Inl (WalletErr (CustomContextTooLarge (unat v)))
           else Inr v) (\<lambda>context_id.
     Inr (network_global_id i XOR context_id))"

text \<open>\<open>expect\<close> on a result.\<close>

definition expect_ok :: "'a result \<Rightarrow> 'a result" where
  "expect_ok r = (case r of Inl _ \<Rightarrow> Inl Panic | Inr x \<Rightarrow> Inr x)"

section \<open>Extensions\<close>

type_synonym extensions = "bool hashmap_e"

definition extensions_empty :: extensions where
  "extensions_empty = hashmap_e_new WALLET_V5R1_EXTENSIONS_KEY_BITS"

definition from_hashmap :: "bool hashmap_e \<Rightarrow> extensions result" where
  "from_hashmap d =
     (if he_key_bits d \<noteq> WALLET_V5R1_EXTENSIONS_KEY_BITS
      then Inl (WalletErr (InvalidExtensionKeyWidth (he_key_bits d) WALLET_V5R1_EXTENSIONS_KEY_BITS))
      else Inr d)"

definition extension_hash_key :: "bytes \<Rightarrow> bit_key result" where
  "extension_hash_key hash = expect_ok (bit_key_from_bits hash WALLET_V5R1_EXTENSIONS_KEY_BITS)"

definition insert_hash :: "extensions \<Rightarrow> bytes \<Rightarrow> (bool \<times> extensions) result" where
  "insert_hash d hash = and_then (extension_hash_key hash) (\<lambda>key.
     and_then (expect_ok (insert_bit_key d key True)) (\<lambda>(old, d). Inr (old \<noteq> None, d)))"

definition remove_hash :: "extensions \<Rightarrow> bytes \<Rightarrow> (bool \<times> extensions) result" where
  "remove_hash d hash = and_then (extension_hash_key hash) (\<lambda>key.
     and_then (expect_ok (remove_bit_key d key)) (\<lambda>(old, d). Inr (old \<noteq> None, d)))"

definition contains_hash :: "extensions \<Rightarrow> bytes \<Rightarrow> bool result" where
  "contains_hash d hash = and_then (extension_hash_key hash) (\<lambda>key.
     and_then (expect_ok (get_bit_key d key)) (\<lambda>v. Inr (v \<noteq> None)))"

definition iter_hashes :: "extensions \<Rightarrow> bytes list" where
  "iter_hashes d = map (\<lambda>(key, _). bk_data key) (he_map d)"

definition insert_address :: "extensions \<Rightarrow> address \<Rightarrow> (bool \<times> extensions) result" where
  "insert_address d a = insert_hash d (hash_part a)"

definition remove_address :: "extensions \<Rightarrow> address \<Rightarrow> (bool \<times> extensions) result" where
  "remove_address d a = remove_hash d (hash_part a)"

definition contains_address :: "extensions \<Rightarrow> address \<Rightarrow> bool result" where
  "contains_address d a = contains_hash d (hash_part a)"

definition store_extensions :: "builder \<Rightarrow> extensions \<Rightarrow> builder result" where
  "store_extensions b d = store_hashmap_e_with b d store_bit"

definition load_extensions :: "slice \<Rightarrow> (extensions \<times> slice) result" where
  "load_extensions s = and_then (load_hashmap_e_with s WALLET_V5R1_EXTENSIONS_KEY_BITS load_bit) (\<lambda>(d, s).
     and_then (map_err (\<lambda>_. TlbErr (TlbCustomSchema ''WalletV5R1Extensions'')) (from_hashmap d)) (\<lambda>d. Inr (d, s)))"

section \<open>Data cells\<close>

record v5_data =
  d5_is_signature_allowed :: bool
  d5_seqno :: u32
  d5_wallet_id :: u32
  d5_public_key :: bytes
  d5_extensions :: "bool hashmap_e"

definition v5_data_new :: "u32 \<Rightarrow> bytes \<Rightarrow> v5_data" where
  "v5_data_new wallet_id public_key = \<lparr>d5_is_signature_allowed = True, d5_seqno = 0, d5_wallet_id = wallet_id,
     d5_public_key = public_key, d5_extensions = hashmap_e_new WALLET_V5R1_EXTENSIONS_KEY_BITS\<rparr>"

definition store_v5_data :: "crates \<Rightarrow> builder \<Rightarrow> v5_data \<Rightarrow> builder result" where
  "store_v5_data X b d =
     (if he_key_bits (d5_extensions d) \<noteq> WALLET_V5R1_EXTENSIONS_KEY_BITS
      then Inl (TlbErr (TlbCustomSchema ''WalletV5R1Data.extensions''))
      else
        and_then (store_bit b (d5_is_signature_allowed d)) (\<lambda>b.
        and_then (store_u32 X b (d5_seqno d)) (\<lambda>b.
        and_then (store_u32 X b (d5_wallet_id d)) (\<lambda>b.
        and_then (store_bytes b (d5_public_key d)) (\<lambda>b.
        store_hashmap_e_with b (d5_extensions d) store_bit)))))"

definition load_v5_data :: "crates \<Rightarrow> slice \<Rightarrow> (v5_data \<times> slice) result" where
  "load_v5_data X s =
     and_then (load_bit s) (\<lambda>(is_signature_allowed, s).
     and_then (load_u32 X s) (\<lambda>(seqno, s).
     and_then (load_u32 X s) (\<lambda>(wallet_id, s).
     and_then (load_bytes s 32) (\<lambda>(public_key, s).
     and_then (load_hashmap_e_with s WALLET_V5R1_EXTENSIONS_KEY_BITS load_bit) (\<lambda>(extensions, s).
     Inr (\<lparr>d5_is_signature_allowed = is_signature_allowed, d5_seqno = seqno, d5_wallet_id = wallet_id,
           d5_public_key = public_key, d5_extensions = extensions\<rparr>, s))))))"

record v4_data =
  d4_seqno :: u32
  d4_wallet_id :: u32
  d4_public_key :: bytes
  d4_plugins :: "bool hashmap_e"

definition v4_data_new :: "u32 \<Rightarrow> bytes \<Rightarrow> v4_data" where
  "v4_data_new wallet_id public_key = \<lparr>d4_seqno = 0, d4_wallet_id = wallet_id, d4_public_key = public_key,
     d4_plugins = hashmap_e_new WALLET_V4R2_PLUGINS_KEY_BITS\<rparr>"

definition store_v4_data :: "crates \<Rightarrow> builder \<Rightarrow> v4_data \<Rightarrow> builder result" where
  "store_v4_data X b d =
     (if he_key_bits (d4_plugins d) \<noteq> WALLET_V4R2_PLUGINS_KEY_BITS
      then Inl (TlbErr (TlbCustomSchema ''WalletV4R2Data.plugins''))
      else
        and_then (store_u32 X b (d4_seqno d)) (\<lambda>b.
        and_then (store_u32 X b (d4_wallet_id d)) (\<lambda>b.
        and_then (store_bytes b (d4_public_key d)) (\<lambda>b.
        store_hashmap_e_with b (d4_plugins d) store_bit))))"

definition load_v4_data :: "crates \<Rightarrow> slice \<Rightarrow> (v4_data \<times> slice) result" where
  "load_v4_data X s =
     and_then (load_u32 X s) (\<lambda>(seqno, s).
     and_then (load_u32 X s) (\<lambda>(wallet_id, s).
     and_then (load_bytes s 32) (\<lambda>(public_key, s).
     and_then (load_hashmap_e_with s WALLET_V4R2_PLUGINS_KEY_BITS load_bit) (\<lambda>(plugins, s).
     Inr (\<lparr>d4_seqno = seqno, d4_wallet_id = wallet_id, d4_public_key = public_key, d4_plugins = plugins\<rparr>, s)))))"

section \<open>Packing the wallet id\<close>

lemma bit_context_flag: "bit WALLET_V5R1_CLIENT_CONTEXT_FLAG n \<longleftrightarrow> n = 31"
  unfolding WALLET_V5R1_CLIENT_CONTEXT_FLAG_def bit_push_bit_iff by (auto simp: bit_simps)

lemma subwallet_max_mask: "WALLET_V5R1_CLIENT_SUBWALLET_MAX = mask 15"
  by (simp add: WALLET_V5R1_CLIENT_SUBWALLET_MAX_def WALLET_V5R1_CLIENT_SUBWALLET_BITS_def mask_eq_exp_minus_1)

lemma bit_subwallet_max: "bit WALLET_V5R1_CLIENT_SUBWALLET_MAX n \<longleftrightarrow> n < 15"
  unfolding subwallet_max_mask by (auto simp: bit_simps)

lemma flag_and: "c AND WALLET_V5R1_CLIENT_CONTEXT_FLAG \<noteq> 0 \<longleftrightarrow> bit c 31"
proof -
  have "c AND WALLET_V5R1_CLIENT_CONTEXT_FLAG = 0 \<longleftrightarrow> (\<forall>n. \<not> bit (c AND WALLET_V5R1_CLIENT_CONTEXT_FLAG) n)"
    by (auto intro: bit_word_eqI)
  then show ?thesis by (simp add: bit_and_iff bit_context_flag)
qed

lemma subwallet_le: "\<not> WALLET_V5R1_CLIENT_SUBWALLET_MAX < w \<longleftrightarrow> (\<forall>n \<ge> 15. \<not> bit w n)" for w :: u16
proof -
  have "\<not> WALLET_V5R1_CLIENT_SUBWALLET_MAX < w \<longleftrightarrow> take_bit 15 w = w"
    by (simp add: not_less word_le_nat_alt word_unat_eq_iff unsigned_take_bit_eq take_bit_nat_eq_self_iff
        WALLET_V5R1_CLIENT_SUBWALLET_MAX_def WALLET_V5R1_CLIENT_SUBWALLET_BITS_def) linarith
  also have "\<dots> \<longleftrightarrow> (\<forall>n \<ge> 15. \<not> bit w n)"
    by (metis bit_take_bit_iff bit_eqI not_le)
  finally show ?thesis .
qed

lemma context_parts:
  fixes c :: u32
  assumes "bit c 31"
  shows "WALLET_V5R1_CLIENT_CONTEXT_FLAG OR push_bit 23 (ucast (ucast (drop_bit 23 c) :: i8)) OR push_bit 15 (ucast (ucast (drop_bit 15 c) :: u8))
    OR ucast (ucast (c AND ucast WALLET_V5R1_CLIENT_SUBWALLET_MAX) :: u16) = c"
proof (rule bit_word_eqI)
  fix n assume "n < LENGTH(32)"
  then consider "n < 15" | "15 \<le> n" "n < 23" | "23 \<le> n" "n < 31" | "n = 31" by fastforce
  then show "bit (WALLET_V5R1_CLIENT_CONTEXT_FLAG OR push_bit 23 (ucast (ucast (drop_bit 23 c) :: i8))
      OR push_bit 15 (ucast (ucast (drop_bit 15 c) :: u8)) OR ucast (ucast (c AND ucast WALLET_V5R1_CLIENT_SUBWALLET_MAX) :: u16)) n = bit c n"
    using assms by cases (auto simp: bit_simps bit_context_flag bit_subwallet_max)
qed

lemma context_fields:
  fixes wc :: i8 and version :: u8 and sub :: u16
  assumes "\<not> WALLET_V5R1_CLIENT_SUBWALLET_MAX < sub"
  defines "c \<equiv> WALLET_V5R1_CLIENT_CONTEXT_FLAG OR push_bit 23 (ucast wc) OR push_bit 15 (ucast version) OR ucast sub"
  shows "bit c 31" "ucast (drop_bit 23 c) = wc" "ucast (drop_bit 15 c) = version"
    "ucast (c AND ucast WALLET_V5R1_CLIENT_SUBWALLET_MAX) = sub"
proof -
  have sub: "bit sub n \<Longrightarrow> n < 15" for n using assms(1) by (meson subwallet_le not_less)
  show "bit c 31" by (simp add: c_def bit_simps bit_context_flag)
  show "ucast (drop_bit 23 c) = wc"
    by (rule bit_word_eqI) (auto simp: c_def bit_simps bit_context_flag dest: sub bit_imp_le_length)
  show "ucast (drop_bit 15 c) = version"
    by (rule bit_word_eqI) (auto simp: c_def bit_simps bit_context_flag dest: sub bit_imp_le_length)
  show "ucast (c AND ucast WALLET_V5R1_CLIENT_SUBWALLET_MAX) = sub"
    by (rule bit_word_eqI) (auto simp: c_def bit_simps bit_context_flag bit_subwallet_max dest: sub)
qed

section \<open>The extension dictionary as a set\<close>

definition wf_extensions :: "extensions \<Rightarrow> bool" where
  "wf_extensions d \<longleftrightarrow> wf_hashmap d \<and> he_key_bits d = 256"

lemma expect_ok_simps [simp]: "expect_ok (Inr x) = Inr x" "expect_ok (Inl e) = Inl Panic"
  by (simp_all add: expect_ok_def)

lemma hash_key: "length h = 32 \<Longrightarrow> extension_hash_key h = Inr (mk_key (bytes_bits h))"
  by (simp add: extension_hash_key_def bit_key_from_bits_eq WALLET_V5R1_EXTENSIONS_KEY_BITS_def)

lemma wf_hash_key: "wf_key (mk_key (bytes_bits h))" "bk_bit_len (mk_key (bytes_bits h)) = 8 * length h" "bk_data (mk_key (bytes_bits h)) = h"
  by (simp_all add: wf_key_def pack_bytes_bits)

lemma set_iter_hashes: "set (iter_hashes d) = bk_data ` fst ` set (he_map d)"
  by (force simp: iter_hashes_def)

lemma extension_keys_inj:
  assumes "wf_extensions d" "length h = 32"
  shows "inj_on bk_data (insert (mk_key (bytes_bits h)) (fst ` set (he_map d)))"
proof (rule inj_onI)
  fix k k' assume k: "k \<in> insert (mk_key (bytes_bits h)) (fst ` set (he_map d))" "k' \<in> insert (mk_key (bytes_bits h)) (fst ` set (he_map d))"
    "bk_data k = bk_data k'"
  have sub: "fst ` set (he_map d) \<subseteq> {k. wf_key k \<and> bk_bit_len k = 256}" using assms(1) unfolding wf_extensions_def wf_hashmap_def by metis
  have "bk_bit_len j = 256" if "j \<in> insert (mk_key (bytes_bits h)) (fst ` set (he_map d))" for j
  proof (cases "j = mk_key (bytes_bits h)")
    case True then show ?thesis using wf_hash_key(2)[of h] assms(2) by simp
  next
    case False then show ?thesis using that subsetD[OF sub, of j] by simp
  qed
  from this[OF k(1)] this[OF k(2)] k(3) show "k = k'" by (cases k; cases k') simp
qed

lemma iter_hashes_iff:
  assumes "wf_extensions d" "length h = 32"
  shows "h \<in> set (iter_hashes d) \<longleftrightarrow> mk_key (bytes_bits h) \<in> fst ` set (he_map d)"
  using inj_on_image_mem_iff[OF extension_keys_inj[OF assms], of "mk_key (bytes_bits h)" "fst ` set (he_map d)"]
  unfolding set_iter_hashes wf_hash_key(3) by blast

lemma btree_get_mem: "btree_get k m \<noteq> None \<longleftrightarrow> k \<in> fst ` set m"
  by (simp add: btree_get_def map_of_eq_None_iff)

lemma fst_set_btree_remove: "fst ` set (btree_remove k m) = fst ` set m - {k}"
  by (force simp: btree_remove_def)

lemma data_removed:
  assumes "wf_extensions d" "length h = 32"
  shows "bk_data ` (fst ` set (he_map d) - {mk_key (bytes_bits h)}) = set (iter_hashes d) - {h}"
  using inj_on_image_set_diff[OF extension_keys_inj[OF assms], of "fst ` set (he_map d)" "{mk_key (bytes_bits h)}"]
  unfolding set_iter_hashes by (simp add: wf_hash_key(3) subset_insertI subset_insert_iff)

section \<open>Codecs\<close>

definition bools_ok :: "bool hashmap_e \<Rightarrow> bool" where
  "bools_ok d \<longleftrightarrow> wf_hashmap d \<and> he_key_bits d = 256"

lemma bit_value_codec: "value_codec store_bit load_bit (\<lambda>_. True) (\<lambda>v. [v]) (\<lambda>_. [])"
  by (rule codecI) (rule bit_steps)+

lemma bools_codec:
  "value_codec (\<lambda>b d. store_hashmap_e_with b d store_bit) (\<lambda>s. load_hashmap_e_with s 256 load_bit) bools_ok
    (\<lambda>d. [he_map d \<noteq> []]) (dict_refs store_bit)"
proof -
  have "bit_length 256 = 9" by code_simp
  then have "bools_ok = dict_ok 256 (\<lambda>_. True) (\<lambda>v. [v]) (\<lambda>_. [])"
    by (auto simp: fun_eq_iff bools_ok_def dict_ok_def)
  then show ?thesis using hashmap_codec[OF bit_value_codec, of 256] by simp
qed

definition v5_data_ok :: "v5_data \<Rightarrow> bool" where
  "v5_data_ok d \<longleftrightarrow> length (d5_public_key d) = 32 \<and> bools_ok (d5_extensions d)"

definition v5_data_bits :: "v5_data \<Rightarrow> bool list" where
  "v5_data_bits d = [d5_is_signature_allowed d] @ nat_bits 32 (unat (d5_seqno d)) @ nat_bits 32 (unat (d5_wallet_id d))
     @ bytes_bits (d5_public_key d) @ [he_map (d5_extensions d) \<noteq> []]"

definition v4_data_ok :: "v4_data \<Rightarrow> bool" where
  "v4_data_ok d \<longleftrightarrow> length (d4_public_key d) = 32 \<and> bools_ok (d4_plugins d)"

definition v4_data_bits :: "v4_data \<Rightarrow> bool list" where
  "v4_data_bits d = nat_bits 32 (unat (d4_seqno d)) @ nat_bits 32 (unat (d4_wallet_id d))
     @ bytes_bits (d4_public_key d) @ [he_map (d4_plugins d) \<noteq> []]"

context bignum
begin

lemma v5_data_codec:
  "value_codec (store_v5_data X) (load_v5_data X) v5_data_ok v5_data_bits (\<lambda>d. dict_refs store_bit (d5_extensions d))"
proof (rule codecI)
  note parts = bools_codec[THEN codec_emits] bools_codec[THEN codec_yields]
  show "emits (\<lambda>b. store_v5_data X b d) (v5_data_bits d) (dict_refs store_bit (d5_extensions d))" if "v5_data_ok d" for d
    using that unfolding store_v5_data_def v5_data_ok_def WALLET_V5R1_EXTENSIONS_KEY_BITS_def
    by - (rule emits_eq, (rule emits_guard parts fields | (simp add: v5_data_bits_def bools_ok_def; fail))+)
  show "yields (load_v5_data X) d (v5_data_bits d) (dict_refs store_bit (d5_extensions d))" if "v5_data_ok d" for d
    using that unfolding load_v5_data_def v5_data_ok_def v5_data_bits_def WALLET_V5R1_EXTENSIONS_KEY_BITS_def
    by - (rule parts fields | (simp; fail))+
qed

lemma v4_data_codec:
  "value_codec (store_v4_data X) (load_v4_data X) v4_data_ok v4_data_bits (\<lambda>d. dict_refs store_bit (d4_plugins d))"
proof (rule codecI)
  note parts = bools_codec[THEN codec_emits] bools_codec[THEN codec_yields]
  show "emits (\<lambda>b. store_v4_data X b d) (v4_data_bits d) (dict_refs store_bit (d4_plugins d))" if "v4_data_ok d" for d
    using that unfolding store_v4_data_def v4_data_ok_def WALLET_V4R2_PLUGINS_KEY_BITS_def
    by - (rule emits_eq, (rule emits_guard parts fields | (simp add: v4_data_bits_def bools_ok_def; fail))+)
  show "yields (load_v4_data X) d (v4_data_bits d) (dict_refs store_bit (d4_plugins d))" if "v4_data_ok d" for d
    using that unfolding load_v4_data_def v4_data_ok_def v4_data_bits_def WALLET_V4R2_PLUGINS_KEY_BITS_def
    by - (rule parts fields | (simp; fail))+
qed

end

section \<open>Properties\<close>

text \<open>
  C30: Packing and unpacking are inverse: every 32-bit wallet id unpacks, on any network, to parts that
  pack to it again, and parts that pack are recovered from the id and the network.
\<close>

theorem wallet_id_bijective:
  "wallet_id_pack (wallet_id_unpack w n) = Inr w
    \<and> (wallet_id_pack i = Inr w \<longrightarrow> wallet_id_unpack w (network_global_id i) = i)"
proof
  let ?c = "w XOR n"
  have sub: "\<not> WALLET_V5R1_CLIENT_SUBWALLET_MAX < ucast (?c AND ucast WALLET_V5R1_CLIENT_SUBWALLET_MAX)"
    by (auto simp: subwallet_le bit_simps bit_subwallet_max)
  show "wallet_id_pack (wallet_id_unpack w n) = Inr w"
    using sub context_parts[of ?c] flag_and[of ?c]
    by (cases "bit ?c 31") (simp_all add: wallet_id_pack_def wallet_id_unpack_def Let_def xor.left_commute[of n w])
  show "wallet_id_pack i = Inr w \<longrightarrow> wallet_id_unpack w (network_global_id i) = i"
  proof
    assume p: "wallet_id_pack i = Inr w"
    show "wallet_id_unpack w (network_global_id i) = i"
    proof (cases "id_context i")
      case (Client wc version sub)
      then have m: "\<not> WALLET_V5R1_CLIENT_SUBWALLET_MAX < sub" using p by (auto simp: wallet_id_pack_def split: if_splits)
      let ?d = "WALLET_V5R1_CLIENT_CONTEXT_FLAG OR push_bit 23 (ucast wc) OR push_bit 15 (ucast version) OR ucast sub :: u32"
      have "w = network_global_id i XOR ?d" using p m Client by (simp add: wallet_id_pack_def)
      then have "w XOR network_global_id i = ?d" by (simp add: xor.commute xor.left_commute)
      then show ?thesis using context_fields[OF m] flag_and[of ?d] Client by (simp add: wallet_id_unpack_def Let_def)
    next
      case (Custom v)
      then have "\<not> bit v 31" "w = network_global_id i XOR v" using p flag_and[of v] by (auto simp: wallet_id_pack_def split: if_splits)
      then show ?thesis using Custom flag_and[of v] by (simp add: wallet_id_unpack_def Let_def xor.commute xor.left_commute)
    qed
  qed
qed

theorem wallet_id_bijective_witness:
  "wallet_id_pack (mainnet_default 0) = Inr 0x7fffff11 \<and> wallet_id_unpack 0x7fffff11 MAINNET_GLOBAL_ID = mainnet_default 0"
proof -
  have "wallet_id_pack (mainnet_default 0) = Inr 0x7fffff11" by code_simp
  then show ?thesis using wallet_id_bijective[of "0x7fffff11" MAINNET_GLOBAL_ID "mainnet_default 0"]
    by (simp add: mainnet_default_def wallet_id_client_def)
qed

text \<open>
  C31: The extension dictionary is a set of 32-byte hashes: membership, insertion and removal never
  panic, report whether the hash was present, and change the set as they should.
\<close>

theorem extensions_refine_set:
  assumes "wf_extensions d" "length h = 32"
  shows "contains_hash d h = Inr (h \<in> set (iter_hashes d))
    \<and> (\<exists>d'. insert_hash d h = Inr (h \<in> set (iter_hashes d), d') \<and> wf_extensions d' \<and> set (iter_hashes d') = insert h (set (iter_hashes d)))
    \<and> (\<exists>d'. remove_hash d h = Inr (h \<in> set (iter_hashes d), d') \<and> wf_extensions d' \<and> set (iter_hashes d') = set (iter_hashes d) - {h})"
proof -
  let ?k = "mk_key (bytes_bits h)"
  let ?i = "d\<lparr>he_map := btree_insert ?k True (he_map d)\<rparr>" and ?r = "d\<lparr>he_map := btree_remove ?k (he_map d)\<rparr>"
  have w: "wf_hashmap d" "bk_bit_len ?k = he_key_bits d" using assms wf_hash_key(2)[of h] by (simp_all add: wf_extensions_def)
  have i: "insert_bit_key d ?k True = Inr (btree_get ?k (he_map d), ?i)" and r: "remove_bit_key d ?k = Inr (btree_get ?k (he_map d), ?r)"
    and g: "get_bit_key d ?k = Inr (btree_get ?k (he_map d))"
    using w(2) by (simp_all add: insert_bit_key_def remove_bit_key_def get_bit_key_def)
  have "wf_hashmap ?i" "wf_hashmap ?r" using wf_insert_bit_key[OF w(1) wf_hash_key(1) i] wf_remove_bit_key[OF w(1) r] .
  then have "wf_extensions ?i" "wf_extensions ?r" using assms(1) by (simp_all add: wf_extensions_def)
  moreover have "set (iter_hashes ?i) = insert h (set (iter_hashes d))" "set (iter_hashes ?r) = set (iter_hashes d) - {h}"
    using data_removed[OF assms] by (simp_all add: set_iter_hashes fst_set_btree_insert fst_set_btree_remove wf_hash_key(3))
  ultimately show ?thesis using i r g hash_key[OF assms(2)] iter_hashes_iff[OF assms]
    by (simp add: contains_hash_def insert_hash_def remove_hash_def btree_get_mem del: not_None_eq)
qed

theorem extensions_refine_set_witness:
  "contains_hash extensions_empty (replicate 32 7) = Inr False
    \<and> (\<exists>d'. insert_hash extensions_empty (replicate 32 7) = Inr (False, d') \<and> set (iter_hashes d') = {replicate 32 7})"
proof -
  have "wf_extensions extensions_empty"
    by (simp add: wf_extensions_def extensions_empty_def wf_hashmap_new WALLET_V5R1_EXTENSIONS_KEY_BITS_def hashmap_e_new_def wf_hashmap_def)
  moreover have "iter_hashes extensions_empty = []" by (simp add: iter_hashes_def extensions_empty_def hashmap_e_new_def)
  ultimately show ?thesis using extensions_refine_set[of extensions_empty "replicate 32 7"] by fastforce
qed

end
