(* ===== verification/Wallet.thy ===== *)
theory Wallet
  imports WalletData TlbActions Stack
begin

text \<open>
  The offline wallet helpers (\<open>src/wallet/message.rs\<close>, \<open>src/wallet/v5r1.rs\<close>): the signed
  external messages of wallets V4R2 and V5R1, from a list of transfers to the bytes that are sent.  Ed25519 signing is a parameter \<open>sign\<close>, a function
  from the hash of the signing cell to the signature.
\<close>

definition WALLET_V4R2_MAX_MESSAGES :: nat where "WALLET_V4R2_MAX_MESSAGES = 4"
definition WALLET_V4R2_SIMPLE_SEND_OP :: u32 where "WALLET_V4R2_SIMPLE_SEND_OP = 0"
definition WALLET_V4R2_DEFAULT_ID :: u32 where "WALLET_V4R2_DEFAULT_ID = 0x29a9a317"
definition WALLET_V5R1_EXTERNAL_SIGNED_OP :: u32 where "WALLET_V5R1_EXTERNAL_SIGNED_OP = 0x7369676e"
definition WALLET_V5R1_MAX_ACTIONS :: nat where "WALLET_V5R1_MAX_ACTIONS = 255"
definition WALLET_V5R1_ADD_EXTENSION_TAG :: u8 where "WALLET_V5R1_ADD_EXTENSION_TAG = 2"
definition WALLET_V5R1_DELETE_EXTENSION_TAG :: u8 where "WALLET_V5R1_DELETE_EXTENSION_TAG = 3"
definition WALLET_V5R1_SET_SIGNATURE_AUTH_ALLOWED_TAG :: u8 where "WALLET_V5R1_SET_SIGNATURE_AUTH_ALLOWED_TAG = 4"

section \<open>Transfers\<close>

record wallet_message =
  wm_mode :: u8
  wm_destination :: address
  wm_value :: u64
  wm_body :: "cell option"
  wm_bounce :: bool

definition wallet_message_internal :: "address \<Rightarrow> u64 \<Rightarrow> wallet_message" where
  "wallet_message_internal destination val = \<lparr>wm_mode = 3, wm_destination = destination, wm_value = val, wm_body = None, wm_bounce = True\<rparr>"

definition with_mode :: "wallet_message \<Rightarrow> u8 \<Rightarrow> wallet_message" where
  "with_mode m mode = m\<lparr>wm_mode := mode\<rparr>"

definition with_body :: "wallet_message \<Rightarrow> cell \<Rightarrow> wallet_message" where
  "with_body m body = m\<lparr>wm_body := Some body\<rparr>"

definition with_bounce :: "wallet_message \<Rightarrow> bool \<Rightarrow> wallet_message" where
  "with_bounce m bounce = m\<lparr>wm_bounce := bounce\<rparr>"

definition into_message_relaxed :: "wallet_message \<Rightarrow> common_msg_info_relaxed message result" where
  "into_message_relaxed m =
     and_then (case wm_body m of Some c \<Rightarrow> Inr c | None \<Rightarrow> expect_ok (builder_build builder_new)) (\<lambda>body.
     Inr \<lparr>msg_info = RelaxedInternal True (wm_bounce m) False (AddrExt AddrNone) (msg_address_std (wm_destination m))
            (currency_of_grams (unat (wm_value m))) 0 0 0 0,
          msg_init = None, msg_body = Inl body\<rparr>)"

definition into_action :: "wallet_message \<Rightarrow> out_action result" where
  "into_action m = and_then (into_message_relaxed m) (\<lambda>r. Inr (SendMsg (wm_mode m) r))"

section \<open>Extended actions of wallet V5R1\<close>

datatype extended_action = AddExtension msg_address_int | DeleteExtension msg_address_int | SetSignatureAuthAllowed bool

definition add_extension :: "address \<Rightarrow> extended_action" where
  "add_extension a = AddExtension (msg_address_std a)"

definition delete_extension :: "address \<Rightarrow> extended_action" where
  "delete_extension a = DeleteExtension (msg_address_std a)"

definition store_extended_action :: "crates \<Rightarrow> builder \<Rightarrow> extended_action \<Rightarrow> builder result" where
  "store_extended_action X b a = (case a of
      AddExtension address \<Rightarrow> and_then (store_u8 X b WALLET_V5R1_ADD_EXTENSION_TAG) (\<lambda>b. store_msg_address_int X b address)
    | DeleteExtension address \<Rightarrow>
        and_then (store_u8 X b WALLET_V5R1_DELETE_EXTENSION_TAG) (\<lambda>b. store_msg_address_int X b address)
    | SetSignatureAuthAllowed allowed \<Rightarrow>
        and_then (store_u8 X b WALLET_V5R1_SET_SIGNATURE_AUTH_ALLOWED_TAG) (\<lambda>b. store_bit b allowed))"

definition load_extended_action :: "crates \<Rightarrow> slice \<Rightarrow> (extended_action \<times> slice) result" where
  "load_extended_action X s = and_then (load_u8 X s) (\<lambda>(tag, s).
     if tag = WALLET_V5R1_ADD_EXTENSION_TAG
     then and_then (load_msg_address_int X s) (\<lambda>(address, s). Inr (AddExtension address, s))
     else if tag = WALLET_V5R1_DELETE_EXTENSION_TAG
     then and_then (load_msg_address_int X s) (\<lambda>(address, s). Inr (DeleteExtension address, s))
     else if tag = WALLET_V5R1_SET_SIGNATURE_AUTH_ALLOWED_TAG
     then and_then (load_bit s) (\<lambda>(allowed, s). Inr (SetSignatureAuthAllowed allowed, s))
     else Inl (TlbErr (TlbCustomSchema ''WalletV5R1ExtendedAction'')))"

definition extended_list_new :: "extended_action list \<Rightarrow> extended_action list result" where
  "extended_list_new actions =
     (if actions = [] then Inl (TlbErr (TlbCustomSchema ''W5ExtendedActionList''))
      else if WALLET_V5R1_MAX_ACTIONS < length actions then Inl (TlbErr (TlbCustomSchema ''W5ExtendedActionList''))
      else Inr actions)"

fun store_actions :: "crates \<Rightarrow> builder \<Rightarrow> extended_action list \<Rightarrow> builder result" where
  "store_actions X b [] = Inl (TlbErr (TlbCustomSchema ''W5ExtendedActionList''))"
| "store_actions X b (a # rest) =
     and_then (store_extended_action X b a) (\<lambda>b.
     if rest = [] then Inr b
     else
       and_then (store_actions X builder_new rest) (\<lambda>next.
       and_then (builder_build next) (\<lambda>c. store_ref b c)))"

text \<open>The recursion of \<open>load_actions\<close> stops at \<open>WALLET_V5R1_MAX_ACTIONS\<close> levels.\<close>

function load_actions :: "crates \<Rightarrow> slice \<Rightarrow> nat \<Rightarrow> (extended_action list \<times> slice) result" where
  "load_actions X s depth =
     (if WALLET_V5R1_MAX_ACTIONS \<le> depth then Inl (TlbErr (TlbCustomSchema ''W5ExtendedActionList''))
      else and_then (load_extended_action X s) (\<lambda>(action, s).
        if remaining_refs s = 0 then Inr ([action], s)
        else if remaining_refs s = 1 then
          and_then (load_reference s) (\<lambda>(next, s).
          and_then (map_err (TlbInvalidReference ''W5ExtendedActionList'') (load_actions X (slice_new next) (depth + 1)))
            (\<lambda>(rest, next_slice).
          and_then (map_err (TlbInvalidReference ''W5ExtendedActionList'') (ensure_empty next_slice)) (\<lambda>_.
          Inr (action # rest, s))))
        else Inl (TlbErr (TlbCustomSchema ''W5ExtendedActionList''))))"
  by pat_completeness auto
termination
  by (relation "measure (\<lambda>(_, _, depth). WALLET_V5R1_MAX_ACTIONS - depth)") auto

declare load_actions.simps [simp del]

definition load_extended_list :: "crates \<Rightarrow> slice \<Rightarrow> (extended_action list \<times> slice) result" where
  "load_extended_list X s = and_then (load_actions X s 0) (\<lambda>(actions, s).
     and_then (extended_list_new actions) (\<lambda>actions. Inr (actions, s)))"

section \<open>The request of wallet V5R1\<close>

definition validate_action_count :: "nat \<Rightarrow> unit result" where
  "validate_action_count count =
     (if WALLET_V5R1_MAX_ACTIONS < count then Inl (WalletErr (TooManyActions count WALLET_V5R1_MAX_ACTIONS)) else Inr ())"

definition store_v5_inner_request :: "crates \<Rightarrow> builder \<Rightarrow> out_list option \<Rightarrow> extended_action list option \<Rightarrow> builder result" where
  "store_v5_inner_request X b out_list extended_actions =
     and_then (case out_list of
         Some l \<Rightarrow> and_then (store_bit b True) (\<lambda>b. and_then (tlb_to_cell (store_out_list X) l) (\<lambda>c. store_ref b c))
       | None \<Rightarrow> store_bit b False) (\<lambda>b.
     case extended_actions of
       Some l \<Rightarrow> and_then (store_bit b True) (\<lambda>b. store_actions X b l)
     | None \<Rightarrow> store_bit b False)"

definition load_v5_inner_request ::
    "crates \<Rightarrow> slice \<Rightarrow> ((out_list option \<times> extended_action list option) \<times> slice) result" where
  "load_v5_inner_request X s =
     and_then (load_bit s) (\<lambda>(present, s).
     and_then (if present
               then and_then (load_ref_tlb (load_out_list X) ''WalletV5R1ExternalBody.out_list'' s) (\<lambda>(l, s). Inr (Some l, s))
               else Inr (None, s)) (\<lambda>(out_list, s).
     and_then (load_bit s) (\<lambda>(present, s).
     and_then (if present then and_then (load_extended_list X s) (\<lambda>(l, s). Inr (Some l, s)) else Inr (None, s))
       (\<lambda>(extended_actions, s).
     Inr ((out_list, extended_actions), s)))))"

record v5_external_body =
  eb_wallet_id :: u32
  eb_valid_until :: u32
  eb_seqno :: u32
  eb_out_list :: "out_list option"
  eb_extended_actions :: "extended_action list option"
  eb_signature :: bytes

definition v5_body_from_cell :: "crates \<Rightarrow> cell \<Rightarrow> v5_external_body result" where
  "v5_body_from_cell X c =
     (if cell_bit_len c < 512 then Inl (TlbErr (TlbCustomSchema ''WalletV5R1ExternalBody''))
      else
        and_then (load_u32 X (slice_new c)) (\<lambda>(tag, s).
        if tag \<noteq> WALLET_V5R1_EXTERNAL_SIGNED_OP then Inl (TlbErr (TlbCustomSchema ''WalletV5R1ExternalBody''))
        else
          and_then (load_u32 X s) (\<lambda>(wallet_id, s).
          and_then (load_u32 X s) (\<lambda>(valid_until, s).
          and_then (load_u32 X s) (\<lambda>(seqno, s).
          and_then (load_v5_inner_request X s) (\<lambda>((out_list, extended_actions), s).
          and_then (load_bytes s 64) (\<lambda>(signature, s).
          and_then (ensure_empty s) (\<lambda>_.
          Inr \<lparr>eb_wallet_id = wallet_id, eb_valid_until = valid_until, eb_seqno = seqno, eb_out_list = out_list,
               eb_extended_actions = extended_actions, eb_signature = signature\<rparr>))))))))"

section \<open>Wallet V4R2\<close>

record signed_body =
  sb_body :: cell
  sb_signing_hash :: bytes
  sb_signature :: bytes

record wallet_v4 =
  v4_workchain :: i8
  v4_wallet_id :: u32
  v4_public_key :: bytes
  v4_code :: cell

definition wallet_v4_default :: "bytes \<Rightarrow> cell \<Rightarrow> i8 \<Rightarrow> wallet_v4" where
  "wallet_v4_default public_key code wc = \<lparr>v4_workchain = wc, v4_wallet_id = WALLET_V4R2_DEFAULT_ID,
     v4_public_key = public_key, v4_code = code\<rparr>"

definition wallet_v4_data :: "wallet_v4 \<Rightarrow> v4_data" where
  "wallet_v4_data w = v4_data_new (v4_wallet_id w) (v4_public_key w)"

definition v4_state_init :: "crates \<Rightarrow> wallet_v4 \<Rightarrow> state_init result" where
  "v4_state_init X w = and_then (tlb_to_cell (store_v4_data X) (wallet_v4_data w)) (\<lambda>data.
     Inr (state_init_empty\<lparr>si_code := Some (v4_code w), si_data := Some data\<rparr>))"

definition v4_address :: "crates \<Rightarrow> wallet_v4 \<Rightarrow> address result" where
  "v4_address X w = and_then (v4_state_init X w) (\<lambda>i.
     and_then (tlb_to_cell (store_state_init X) i) (\<lambda>c. Inr (new_address (v4_workchain w) (cell_hash X c))))"

definition v4_signing_cell :: "crates \<Rightarrow> wallet_v4 \<Rightarrow> u32 \<Rightarrow> u32 \<Rightarrow> wallet_message list \<Rightarrow> cell result" where
  "v4_signing_cell X w seqno valid_until messages =
     (if WALLET_V4R2_MAX_MESSAGES < length messages then Inl (WalletErr (TooManyActions (length messages) WALLET_V4R2_MAX_MESSAGES))
      else
        and_then (store_u32 X builder_new (v4_wallet_id w)) (\<lambda>b.
        and_then (store_u32 X b valid_until) (\<lambda>b.
        and_then (store_u32 X b seqno) (\<lambda>b.
        and_then (store_u32 X b WALLET_V4R2_SIMPLE_SEND_OP) (\<lambda>b.
        and_then (try_fold (\<lambda>b m.
            and_then (into_message_relaxed m) (\<lambda>relaxed.
            and_then (store_u8 X b (wm_mode m)) (\<lambda>b.
            and_then (tlb_to_cell (store_message_relaxed X) relaxed) (\<lambda>c. store_ref b c)))) b messages) builder_build)))))"

definition v4_signed_body ::
    "crates \<Rightarrow> (bytes \<Rightarrow> bytes) \<Rightarrow> wallet_v4 \<Rightarrow> u32 \<Rightarrow> u32 \<Rightarrow> wallet_message list \<Rightarrow> signed_body result" where
  "v4_signed_body X sign w seqno valid_until messages =
     and_then (v4_signing_cell X w seqno valid_until messages) (\<lambda>signing_cell.
     let signing_hash = cell_hash X signing_cell; signature = sign signing_hash in
     and_then (store_bytes builder_new signature) (\<lambda>b.
     and_then (store_cell b signing_cell) (\<lambda>b.
     and_then (builder_build b) (\<lambda>body.
     Inr \<lparr>sb_body = body, sb_signing_hash = signing_hash, sb_signature = signature\<rparr>))))"

definition v4_message_boc ::
    "crates \<Rightarrow> (bytes \<Rightarrow> bytes) \<Rightarrow> wallet_v4 \<Rightarrow> u32 \<Rightarrow> u32 \<Rightarrow> wallet_message list \<Rightarrow> bool \<Rightarrow> bytes result" where
  "v4_message_boc X sign w seqno valid_until messages include_state_init =
     and_then (v4_signed_body X sign w seqno valid_until messages) (\<lambda>signed.
     and_then (if include_state_init then and_then (v4_state_init X w) (\<lambda>i. Inr (Some (Inr i))) else Inr None) (\<lambda>state_init.
     and_then (v4_address X w) (\<lambda>address.
     and_then (tlb_to_cell (store_message X)
         \<lparr>msg_info = MsgExternalIn AddrNone (msg_address_std address) 0, msg_init = state_init, msg_body = Inr (sb_body signed)\<rparr>) (\<lambda>c.
     serialize_boc X c False))))"

section \<open>Wallet V5R1\<close>

record wallet_v5 =
  v5_workchain :: i8
  v5_wallet_id :: u32
  v5_public_key :: bytes
  v5_code :: cell
  v5_is_signature_allowed :: bool

definition wallet_v5_new :: "bytes \<Rightarrow> u32 \<Rightarrow> cell \<Rightarrow> i8 \<Rightarrow> wallet_v5" where
  "wallet_v5_new public_key wallet_id code wc = \<lparr>v5_workchain = wc, v5_wallet_id = wallet_id, v5_public_key = public_key,
     v5_code = code, v5_is_signature_allowed = True\<rparr>"

definition from_wallet_id :: "bytes \<Rightarrow> wallet_id_parts \<Rightarrow> cell \<Rightarrow> i8 \<Rightarrow> wallet_v5 result" where
  "from_wallet_id public_key wallet_id code wc =
     and_then (wallet_id_pack wallet_id) (\<lambda>packed. Inr (wallet_v5_new public_key packed code wc))"

definition wallet_v5_data :: "wallet_v5 \<Rightarrow> v5_data" where
  "wallet_v5_data w = \<lparr>d5_is_signature_allowed = v5_is_signature_allowed w, d5_seqno = 0, d5_wallet_id = v5_wallet_id w,
     d5_public_key = v5_public_key w, d5_extensions = hashmap_e_new WALLET_V5R1_EXTENSIONS_KEY_BITS\<rparr>"

definition v5_state_init :: "crates \<Rightarrow> wallet_v5 \<Rightarrow> state_init result" where
  "v5_state_init X w = and_then (tlb_to_cell (store_v5_data X) (wallet_v5_data w)) (\<lambda>data.
     Inr (state_init_empty\<lparr>si_code := Some (v5_code w), si_data := Some data\<rparr>))"

definition v5_address :: "crates \<Rightarrow> wallet_v5 \<Rightarrow> address result" where
  "v5_address X w = and_then (v5_state_init X w) (\<lambda>i.
     and_then (tlb_to_cell (store_state_init X) i) (\<lambda>c. Inr (new_address (v5_workchain w) (cell_hash X c))))"

definition v5_signing_cell ::
    "crates \<Rightarrow> wallet_v5 \<Rightarrow> u32 \<Rightarrow> u32 \<Rightarrow> wallet_message list \<Rightarrow> extended_action list \<Rightarrow> cell result" where
  "v5_signing_cell X w seqno valid_until messages extended_actions =
     and_then (validate_action_count (length messages + length extended_actions)) (\<lambda>_.
     and_then (if messages = [] then Inr None
               else and_then (try_fold (\<lambda>l m. and_then (into_action m) (\<lambda>a. Inr (l @ [a]))) [] messages) (\<lambda>l. Inr (Some l))) (\<lambda>out_list.
     and_then (if extended_actions = [] then Inr None
               else and_then (extended_list_new extended_actions) (\<lambda>l. Inr (Some l))) (\<lambda>extended_actions.
     and_then (store_u32 X builder_new WALLET_V5R1_EXTERNAL_SIGNED_OP) (\<lambda>b.
     and_then (store_u32 X b (v5_wallet_id w)) (\<lambda>b.
     and_then (store_u32 X b valid_until) (\<lambda>b.
     and_then (store_u32 X b seqno) (\<lambda>b.
     and_then (store_v5_inner_request X b out_list extended_actions) builder_build)))))))"

definition v5_signed_body ::
    "crates \<Rightarrow> (bytes \<Rightarrow> bytes) \<Rightarrow> wallet_v5 \<Rightarrow> u32 \<Rightarrow> u32 \<Rightarrow> wallet_message list \<Rightarrow> extended_action list \<Rightarrow> signed_body result" where
  "v5_signed_body X sign w seqno valid_until messages extended_actions =
     and_then (v5_signing_cell X w seqno valid_until messages extended_actions) (\<lambda>signing_cell.
     let signing_hash = cell_hash X signing_cell; signature = sign signing_hash in
     and_then (store_cell builder_new signing_cell) (\<lambda>b.
     and_then (store_bytes b signature) (\<lambda>b.
     and_then (builder_build b) (\<lambda>body.
     Inr \<lparr>sb_body = body, sb_signing_hash = signing_hash, sb_signature = signature\<rparr>))))"

definition v5_message_boc ::
    "crates \<Rightarrow> (bytes \<Rightarrow> bytes) \<Rightarrow> wallet_v5 \<Rightarrow> u32 \<Rightarrow> u32 \<Rightarrow> wallet_message list \<Rightarrow> extended_action list \<Rightarrow> bool \<Rightarrow> bytes result" where
  "v5_message_boc X sign w seqno valid_until messages extended_actions include_state_init =
     and_then (v5_signed_body X sign w seqno valid_until messages extended_actions) (\<lambda>signed.
     and_then (if include_state_init then and_then (v5_state_init X w) (\<lambda>i. Inr (Some (Inr i))) else Inr None) (\<lambda>state_init.
     and_then (v5_address X w) (\<lambda>address.
     and_then (tlb_to_cell (store_message X)
         \<lparr>msg_info = MsgExternalIn AddrNone (msg_address_std address) 0, msg_init = state_init, msg_body = Inr (sb_body signed)\<rparr>) (\<lambda>c.
     serialize_boc X c False))))"

section \<open>Encoding of a request\<close>

fun extended_ok :: "extended_action \<Rightarrow> bool" where
  "extended_ok (AddExtension a) \<longleftrightarrow> msg_address_int_ok a"
| "extended_ok (DeleteExtension a) \<longleftrightarrow> msg_address_int_ok a"
| "extended_ok (SetSignatureAuthAllowed v) \<longleftrightarrow> True"

fun extended_bits :: "extended_action \<Rightarrow> bool list" where
  "extended_bits (AddExtension a) = nat_bits 8 (unat WALLET_V5R1_ADD_EXTENSION_TAG) @ msg_address_int_bits a"
| "extended_bits (DeleteExtension a) = nat_bits 8 (unat WALLET_V5R1_DELETE_EXTENSION_TAG) @ msg_address_int_bits a"
| "extended_bits (SetSignatureAuthAllowed v) = nat_bits 8 (unat WALLET_V5R1_SET_SIGNATURE_AUTH_ALLOWED_TAG) @ [v]"

text \<open>The list is a chain of cells; the first action is in the cell of the request itself.\<close>

fun extended_refs :: "extended_action list \<Rightarrow> cell list" where
  "extended_refs [] = []"
| "extended_refs [a] = []"
| "extended_refs (a # b # l) = [mk_cell (extended_bits b) (extended_refs (b # l))]"

definition extended_list_ok :: "extended_action list \<Rightarrow> bool" where
  "extended_list_ok l \<longleftrightarrow> l \<noteq> [] \<and> length l \<le> 255 \<and> list_all (\<lambda>a. extended_ok a \<and> length (extended_bits a) \<le> 381) l"

lemma length_extended_refs: "length (extended_refs l) \<le> 1"
  by (induction l rule: extended_refs.induct) simp_all

lemma wf_extended_refs: "list_all (\<lambda>a. length (extended_bits a) \<le> 381) l \<Longrightarrow> list_all wf_cell (extended_refs l)"
proof (induction l rule: extended_refs.induct)
  case (3 a b l)
  then show ?case using length_extended_refs[of "b # l"] by (simp add: wf_mk_cell)
qed simp_all

text \<open>A reader that takes all references of its slice but only a prefix of its bits.\<close>

definition takes_refs :: "(slice \<Rightarrow> ('a \<times> slice) result) \<Rightarrow> 'a \<Rightarrow> bool list \<Rightarrow> cell list \<Rightarrow> bool" where
  "takes_refs f v ys qs \<longleftrightarrow> (\<forall>s zs. wf_slice s \<longrightarrow> slice_bits s = ys @ zs \<longrightarrow> slice_refs s = qs
     \<longrightarrow> f s = Inr (v, adv s (length ys) (length qs)))"

lemma yields_takes: "yields f v ys qs \<Longrightarrow> takes_refs f v ys qs"
  by (simp add: yields_def takes_refs_def)

lemma takes_bind:
  assumes "yields f v ys qs" "takes_refs (g v) w ys' qs'"
  shows "takes_refs (\<lambda>s. and_then (f s) (\<lambda>(v, s). g v s)) w (ys @ ys') (qs @ qs')"
  unfolding takes_refs_def
proof (intro allI impI)
  fix s zs assume s: "wf_slice s" "slice_bits s = (ys @ ys') @ zs" "slice_refs s = qs @ qs'"
  have "f s = Inr (v, adv s (length ys) (length qs))" using assms(1) s by (simp add: yields_def)
  moreover have "g v (adv s (length ys) (length qs)) = Inr (w, adv (adv s (length ys) (length qs)) (length ys') (length qs'))"
    using assms(2)[unfolded takes_refs_def, rule_format, of "adv s (length ys) (length qs)" zs] s by (simp add: wf_adv)
  ultimately show "and_then (f s) (\<lambda>(v, s). g v s) = Inr (w, adv s (length (ys @ ys')) (length (qs @ qs')))" by simp
qed

lemma takes_map: "takes_refs f v ys qs \<Longrightarrow> takes_refs (\<lambda>s. and_then (f s) (\<lambda>(v, s). Inr (h v, s))) (h v) ys qs"
  by (simp add: takes_refs_def)

lemma takes_then_return:
  assumes "takes_refs f v ys qs"
  shows "takes_refs (\<lambda>s. and_then (f s) (\<lambda>(v, s). and_then (Inr (h v)) (\<lambda>w. Inr (w, s)))) (h v) ys qs"
  using takes_map[OF assms] by simp

context bignum
begin

lemma extended_action_codec:
  "value_codec (store_extended_action X) (load_extended_action X) extended_ok extended_bits (\<lambda>_. [])"
proof (rule codecI)
  note parts = msg_address_int_codec[THEN codec_emits] msg_address_int_codec[THEN codec_yields]
  note tags = WALLET_V5R1_ADD_EXTENSION_TAG_def WALLET_V5R1_DELETE_EXTENSION_TAG_def WALLET_V5R1_SET_SIGNATURE_AUTH_ALLOWED_TAG_def
  show "emits (\<lambda>b. store_extended_action X b a) (extended_bits a) []" if "extended_ok a" for a
    using that unfolding store_extended_action_def
    by (cases a) (simp_all only: extended_action.case extended_ok.simps,
      (rule emits_eq, (rule parts fields | (simp; fail))+)+)
  show "yields (load_extended_action X) a (extended_bits a) []" if "extended_ok a" for a
    using that unfolding load_extended_action_def
    by (cases a) (simp_all only: extended_bits.simps extended_ok.simps,
      (rule yields_if(1), (simp add: tags; fail) | rule yields_if(2), (simp add: tags; fail)
        | rule yields_last_eq parts fields | (simp; fail))+)
qed

lemma store_actions_emits:
  "extended_list_ok l \<Longrightarrow> emits (\<lambda>b. store_actions X b l) (extended_bits (hd l)) (extended_refs l)"
proof (induction l rule: extended_refs.induct)
  case (2 a)
  then show ?case using codec_emits[OF extended_action_codec, of a] by (simp add: extended_list_ok_def emits_def)
next
  case (3 a b l)
  then have ok: "extended_list_ok (b # l)" "extended_ok a" by (simp_all add: extended_list_ok_def)
  have b: "length (extended_bits b) \<le> 1023" "length (extended_refs (b # l)) \<le> 4"
    using 3(2) length_extended_refs[of "b # l"] by (simp_all add: extended_list_ok_def)
  have "store_actions X builder_new (b # l) = Inr (mk_b (extended_bits b) (extended_refs (b # l)))"
    using 3(1)[OF ok(1)] b by (simp add: emits_def builder_new_eq del: store_actions.simps)
  then have "store_actions X bb (a # b # l)
      = and_then (store_extended_action X bb a) (\<lambda>bb. store_ref bb (mk_cell (extended_bits b) (extended_refs (b # l))))" for bb
    using b by (subst store_actions.simps) (simp add: builder_build_mk del: store_actions.simps)
  then show ?case using emits_bind[OF codec_emits[OF extended_action_codec ok(2)] ref_steps(1)] by simp
qed (simp add: extended_list_ok_def)

lemma load_actions_takes:
  "extended_list_ok l \<Longrightarrow> depth + length l \<le> 255 \<Longrightarrow>
    takes_refs (\<lambda>s. load_actions X s depth) l (extended_bits (hd l)) (extended_refs l)"
proof (induction l arbitrary: depth rule: extended_refs.induct)
  case (2 a)
  have "yields (load_extended_action X) a (extended_bits a) []"
    using 2 codec_yields[OF extended_action_codec, of a] by (simp add: extended_list_ok_def)
  then show ?case using 2(2) unfolding takes_refs_def
    by (subst load_actions.simps) (simp add: yields_def WALLET_V5R1_MAX_ACTIONS_def remaining_refs_eq)
next
  case (3 a b l)
  let ?c = "mk_cell (extended_bits b) (extended_refs (b # l))"
  have ok: "extended_list_ok (b # l)" "extended_ok a" "list_all wf_cell (extended_refs (a # b # l))"
    using 3(2) wf_extended_refs[of "a # b # l"] by (simp_all add: extended_list_ok_def list_all_iff)
  have y: "yields (load_extended_action X) a (extended_bits a) []" by (rule codec_yields[OF extended_action_codec ok(2)])
  have "load_actions X (slice_new ?c) (depth + 1)
      = Inr (b # l, adv (slice_new ?c) (length (extended_bits b)) (length (extended_refs (b # l))))"
    using 3(1)[OF ok(1), of "depth + 1"] 3(3) ok(3) by (simp add: takes_refs_def)
  moreover have "ensure_empty (adv (slice_new ?c) (length (extended_bits b)) (length (extended_refs (b # l)))) = Inr ()"
    using ok(3) by (simp add: ensure_empty_def slice_is_empty_eq wf_adv)
  ultimately show ?case using 3(3) y unfolding takes_refs_def
    by (subst load_actions.simps) (simp add: yields_def WALLET_V5R1_MAX_ACTIONS_def remaining_refs_eq load_reference_eq)
qed (simp add: extended_list_ok_def)

lemma extended_list_takes:
  "extended_list_ok l \<Longrightarrow> takes_refs (load_extended_list X) l (extended_bits (hd l)) (extended_refs l)"
  using load_actions_takes[of l 0]
  by (simp add: takes_refs_def load_extended_list_def extended_list_ok_def extended_list_new_def WALLET_V5R1_MAX_ACTIONS_def)

end

definition inner_ok :: "crates \<Rightarrow> out_list option \<Rightarrow> extended_action list option \<Rightarrow> bool" where
  "inner_ok X out ext \<longleftrightarrow> pred_option (out_list_ok X) out \<and> pred_option extended_list_ok ext"

definition inner_bits :: "out_list option \<Rightarrow> extended_action list option \<Rightarrow> bool list" where
  "inner_bits out ext = [out \<noteq> None] @ (case ext of None \<Rightarrow> [False] | Some l \<Rightarrow> [True] @ extended_bits (hd l))"

definition inner_refs :: "crates \<Rightarrow> out_list option \<Rightarrow> extended_action list option \<Rightarrow> cell list" where
  "inner_refs X out ext = (case out of None \<Rightarrow> [] | Some l \<Rightarrow> [out_list_cell X l])
     @ (case ext of None \<Rightarrow> [] | Some l \<Rightarrow> extended_refs l)"

lemma inner_fits:
  assumes "inner_ok X out ext"
  shows "length (inner_bits out ext) \<le> 383" "length (inner_refs X out ext) \<le> 2" "list_all wf_cell (inner_refs X out ext)"
proof -
  have e: "length (extended_bits (hd l)) \<le> 381" "list_all wf_cell (extended_refs l)" if "ext = Some l" for l
    using assms that wf_extended_refs[of l] by (cases l; simp add: inner_ok_def extended_list_ok_def list_all_iff)+
  show "length (inner_bits out ext) \<le> 383" using e(1) by (cases ext) (simp_all add: inner_bits_def)
  have "length (extended_refs l) \<le> 2" for l using length_extended_refs[of l] by simp
  then show "length (inner_refs X out ext) \<le> 2" using length_extended_refs by (auto simp: inner_refs_def split: option.split)
  show "list_all wf_cell (inner_refs X out ext)" using e(2) assms wf_out_list_cell[of X]
    by (cases out; cases ext) (simp_all add: inner_refs_def inner_ok_def)
qed

context bignum
begin

lemma out_list_ref:
  assumes "out_list_ok X l"
  shows "tlb_to_cell (store_out_list X) l = Inr (out_list_cell X l)"
    "yields (load_ref_tlb (load_out_list X) schema) l [] [out_list_cell X l]"
proof -
  note wf = wf_out_list_cell[OF assms]
  have c: "mk_cell (cell_bits (out_list_cell X l)) (cell_references (out_list_cell X l)) = out_list_cell X l"
    using wf_ordinary_eq wf by metis
  have b: "length (cell_bits (out_list_cell X l)) \<le> 1023" "length (cell_references (out_list_cell X l)) \<le> 4"
    using wf_cell_bounds(1,2,5)[OF conjunct1[OF wf]] by simp_all
  show "tlb_to_cell (store_out_list X) l = Inr (out_list_cell X l)"
    using tail_codec.to_cell_eq[OF out_list_codec assms b] c by simp
  show "yields (load_ref_tlb (load_out_list X) schema) l [] [out_list_cell X l]"
    using codec_yields[OF ref_tlb_codec[OF out_list_codec], of l schema] assms b c by simp
qed

lemma store_inner_emits:
  assumes "inner_ok X out ext"
  shows "emits (\<lambda>b. store_v5_inner_request X b out ext) (inner_bits out ext) (inner_refs X out ext)"
proof -
  have "emits (\<lambda>b. case out of Some l \<Rightarrow> and_then (store_bit b True) (\<lambda>b. and_then (tlb_to_cell (store_out_list X) l) (\<lambda>c. store_ref b c))
      | None \<Rightarrow> store_bit b False) [out \<noteq> None] (case out of None \<Rightarrow> [] | Some l \<Rightarrow> [out_list_cell X l])"
    using assms out_list_ref(1) emits_bind[OF bit_steps(1)[of True] ref_steps(1)] bit_steps(1)[of False]
    by (cases out) (simp_all add: inner_ok_def)
  moreover have "emits (\<lambda>b. case ext of Some l \<Rightarrow> and_then (store_bit b True) (\<lambda>b. store_actions X b l) | None \<Rightarrow> store_bit b False)
      (case ext of None \<Rightarrow> [False] | Some l \<Rightarrow> [True] @ extended_bits (hd l)) (case ext of None \<Rightarrow> [] | Some l \<Rightarrow> extended_refs l)"
    using assms emits_bind[OF bit_steps(1)[of True] store_actions_emits] bit_steps(1)[of False]
    by (cases ext) (simp_all add: inner_ok_def)
  ultimately show ?thesis unfolding store_v5_inner_request_def inner_bits_def inner_refs_def by (rule emits_bind)
qed

lemma load_inner_takes:
  assumes "inner_ok X out ext"
  shows "takes_refs (load_v5_inner_request X) (out, ext) (inner_bits out ext) (inner_refs X out ext)"
proof -
  have o: "yields (\<lambda>s. if out \<noteq> None then and_then (load_ref_tlb (load_out_list X) schema s) (\<lambda>(l, s). Inr (Some l, s)) else Inr (None, s))
      out [] (case out of None \<Rightarrow> [] | Some l \<Rightarrow> [out_list_cell X l])" for schema
    using assms yields_last_eq[OF out_list_ref(2), where h = Some] yields_return[of None] by (cases out) (simp_all add: inner_ok_def)
  have e: "takes_refs (\<lambda>s. if ext \<noteq> None then and_then (load_extended_list X s) (\<lambda>(l, s). Inr (Some l, s)) else Inr (None, s))
      ext (case ext of None \<Rightarrow> [] | Some l \<Rightarrow> extended_bits (hd l)) (case ext of None \<Rightarrow> [] | Some l \<Rightarrow> extended_refs l)"
    using assms takes_map[OF extended_list_takes, where h = Some] yields_takes[OF yields_return] by (cases ext) (simp_all add: inner_ok_def)
  have e': "takes_refs (\<lambda>s. and_then (load_bit s) (\<lambda>(present, s).
      and_then (if present then and_then (load_extended_list X s) (\<lambda>(l, s). Inr (Some l, s)) else Inr (None, s)) (\<lambda>(ext, s). Inr ((out, ext), s))))
      (out, ext) ([ext \<noteq> None] @ (case ext of None \<Rightarrow> [] | Some l \<Rightarrow> extended_bits (hd l))) ([] @ (case ext of None \<Rightarrow> [] | Some l \<Rightarrow> extended_refs l))"
    by (rule takes_bind[OF bit_steps(2)]) (rule takes_map[OF e])
  have "takes_refs (load_v5_inner_request X) (out, ext) ([out \<noteq> None] @ [] @ [ext \<noteq> None] @ (case ext of None \<Rightarrow> [] | Some l \<Rightarrow> extended_bits (hd l)))
      ([] @ (case out of None \<Rightarrow> [] | Some l \<Rightarrow> [out_list_cell X l]) @ [] @ (case ext of None \<Rightarrow> [] | Some l \<Rightarrow> extended_refs l))"
    unfolding load_v5_inner_request_def by (rule takes_bind[OF bit_steps(2)], rule takes_bind[OF o], rule e')
  then show ?thesis by (cases ext) (simp_all add: inner_bits_def inner_refs_def)
qed

end

section \<open>Requests that fit\<close>

text \<open>
  A transfer fits one message cell when its body has at most 575 bits; a destination with other
  than the default flags would come back with the default ones.
\<close>

definition transfer_fits :: "wallet_message \<Rightarrow> bool" where
  "transfer_fits m \<longleftrightarrow> length (hash_part (wm_destination m)) = 32
     \<and> wm_destination m = new_address (workchain (wm_destination m)) (hash_part (wm_destination m))
     \<and> pred_option (\<lambda>c. wf_cell c \<and> cell_exotic c = None \<and> length (cell_bits c) \<le> 575) (wm_body m)"

definition relaxed_of :: "wallet_message \<Rightarrow> common_msg_info_relaxed message" where
  "relaxed_of m = \<lparr>msg_info = RelaxedInternal True (wm_bounce m) False (AddrExt AddrNone) (msg_address_std (wm_destination m))
       (currency_of_grams (unat (wm_value m))) 0 0 0 0,
     msg_init = None, msg_body = Inl (case wm_body m of Some c \<Rightarrow> c | None \<Rightarrow> mk_cell [] [])\<rparr>"

definition transfer_action :: "wallet_message \<Rightarrow> out_action" where
  "transfer_action m = SendMsg (wm_mode m) (relaxed_of m)"

lemma into_message_relaxed_eq: "into_message_relaxed m = Inr (relaxed_of m)"
  by (cases "wm_body m") (simp_all add: into_message_relaxed_def relaxed_of_def builder_new_eq builder_build_mk)

lemma into_actions_eq:
  "try_fold (\<lambda>l m. and_then (into_action m) (\<lambda>a. Inr (l @ [a]))) l ms = Inr (l @ map transfer_action ms)"
  by (induction ms arbitrary: l) (simp_all add: into_action_def into_message_relaxed_eq transfer_action_def)

lemma currency_of_grams_ok: "grams_ok g \<Longrightarrow> currency_ok (currency_of_grams g)" "currency_refs X (currency_of_grams g) = []"
  by (simp_all add: currency_ok_def currency_of_grams_def dict_ok_def wf_hashmap_def hashmap_e_new_def EXTRA_CURRENCY_KEY_BITS_def
      currency_refs_def dict_refs_def serialize_hashmap_root_def hashmap_e_is_empty_def)

lemma transfer_relaxed:
  assumes "transfer_fits m"
  shows "relaxed_ok (relaxed_of m)" "length (relaxed_bits (relaxed_of m)) \<le> 1023" "length (relaxed_refs X (relaxed_of m)) \<le> 4"
    "list_all wf_cell (relaxed_refs X (relaxed_of m))"
proof -
  let ?b = "case wm_body m of Some c \<Rightarrow> c | None \<Rightarrow> mk_cell [] []"
  have b: "wf_cell ?b" "cell_exotic ?b = None" "length (cell_bits ?b) \<le> 575"
    using assms by (cases "wm_body m"; simp add: transfer_fits_def wf_mk_cell)+
  have "unat (wm_value m) < 256 ^ 8" using unsigned_less[of "wm_value m", where ?'a = nat] by simp
  then have v: "var_len (unat (wm_value m)) \<le> 8" by (simp add: var_len_le_iff)
  then show "relaxed_ok (relaxed_of m)"
    using assms b currency_of_grams_ok(1)[of "unat (wm_value m)"]
    by (simp add: relaxed_ok_def relaxed_of_def transfer_fits_def msg_address_std_def grams_ok_def)
  show "length (relaxed_bits (relaxed_of m)) \<le> 1023"
    using b(3) v assms by (simp add: relaxed_bits_def relaxed_of_def transfer_fits_def msg_address_std_def currency_bits_def
        currency_of_grams_def maybe_bits_def)
  show "length (relaxed_refs X (relaxed_of m)) \<le> 4" "list_all wf_cell (relaxed_refs X (relaxed_of m))"
    using wf_cell_bounds(2,4)[OF b(1)] by (simp_all add: relaxed_refs_def relaxed_of_def currency_of_grams_ok(2))
qed

lemma transfers_ok:
  assumes "list_all transfer_fits ms" "length ms \<le> 255"
  shows "out_list_ok X (map transfer_action ms)"
  using assms transfer_relaxed by (auto simp: out_list_ok_def transfer_action_def list_all_iff wf_mk_cell)

definition request_fits :: "wallet_message list \<Rightarrow> extended_action list \<Rightarrow> bool" where
  "request_fits ms es \<longleftrightarrow> length ms + length es \<le> 255 \<and> list_all transfer_fits ms
     \<and> list_all (\<lambda>a. extended_ok a \<and> length (extended_bits a) \<le> 381) es"

definition request_out :: "wallet_message list \<Rightarrow> out_list option" where
  "request_out ms = (if ms = [] then None else Some (map transfer_action ms))"

definition request_ext :: "extended_action list \<Rightarrow> extended_action list option" where
  "request_ext es = (if es = [] then None else Some es)"

definition request_bits :: "wallet_v5 \<Rightarrow> u32 \<Rightarrow> u32 \<Rightarrow> wallet_message list \<Rightarrow> extended_action list \<Rightarrow> bool list" where
  "request_bits w seqno valid_until ms es = nat_bits 32 (unat WALLET_V5R1_EXTERNAL_SIGNED_OP) @ nat_bits 32 (unat (v5_wallet_id w))
     @ nat_bits 32 (unat valid_until) @ nat_bits 32 (unat seqno) @ inner_bits (request_out ms) (request_ext es)"

lemma request_inner: "request_fits ms es \<Longrightarrow> inner_ok X (request_out ms) (request_ext es)"
  by (auto simp: request_fits_def inner_ok_def request_out_def request_ext_def extended_list_ok_def intro: transfers_ok)

lemma request_size:
  assumes "request_fits ms es"
  shows "length (request_bits w seqno valid_until ms es) \<le> 511"
  using inner_fits(1)[OF request_inner[OF assms]] by (simp add: request_bits_def)

context bignum
begin

lemma v5_signing_cell_eq:
  assumes "request_fits ms es"
  shows "v5_signing_cell X w seqno valid_until ms es
    = Inr (mk_cell (request_bits w seqno valid_until ms es) (inner_refs X (request_out ms) (request_ext es)))"
proof -
  note inner = request_inner[OF assms, of X]
  have "emits (\<lambda>b. and_then (store_u32 X b WALLET_V5R1_EXTERNAL_SIGNED_OP) (\<lambda>b. and_then (store_u32 X b (v5_wallet_id w)) (\<lambda>b.
      and_then (store_u32 X b valid_until) (\<lambda>b. and_then (store_u32 X b seqno) (\<lambda>b.
      store_v5_inner_request X b (request_out ms) (request_ext es))))))
      (request_bits w seqno valid_until ms es) ([] @ [] @ [] @ [] @ inner_refs X (request_out ms) (request_ext es))"
    unfolding request_bits_def by (intro emits_bind named_uint_steps store_inner_emits[OF inner])
  then have "and_then (store_u32 X builder_new WALLET_V5R1_EXTERNAL_SIGNED_OP) (\<lambda>b. and_then (store_u32 X b (v5_wallet_id w)) (\<lambda>b.
      and_then (store_u32 X b valid_until) (\<lambda>b. and_then (store_u32 X b seqno) (\<lambda>b.
      store_v5_inner_request X b (request_out ms) (request_ext es)))))
      = Inr (mk_b (request_bits w seqno valid_until ms es) (inner_refs X (request_out ms) (request_ext es)))"
    using request_size[OF assms, of w seqno valid_until] inner_fits(2)[OF inner] by (simp add: emits_def builder_new_eq)
  then have "and_then (and_then (store_u32 X builder_new WALLET_V5R1_EXTERNAL_SIGNED_OP) (\<lambda>b. and_then (store_u32 X b (v5_wallet_id w)) (\<lambda>b.
      and_then (store_u32 X b valid_until) (\<lambda>b. and_then (store_u32 X b seqno) (\<lambda>b.
      store_v5_inner_request X b (request_out ms) (request_ext es)))))) builder_build
      = Inr (mk_cell (request_bits w seqno valid_until ms es) (inner_refs X (request_out ms) (request_ext es)))"
    using request_size[OF assms, of w seqno valid_until] inner_fits(2)[OF inner] by (simp add: builder_build_mk)
  moreover have "(if ms = [] then Inr None else and_then (try_fold (\<lambda>l m. and_then (into_action m) (\<lambda>a. Inr (l @ [a]))) [] ms) (\<lambda>l. Inr (Some l)))
      = (Inr (request_out ms) :: _ result)"
    by (simp add: into_actions_eq request_out_def)
  moreover have "(if es = [] then Inr None else and_then (extended_list_new es) (\<lambda>l. Inr (Some l))) = (Inr (request_ext es) :: _ result)"
    using assms by (simp add: request_fits_def extended_list_new_def request_ext_def WALLET_V5R1_MAX_ACTIONS_def)
  moreover have "validate_action_count (length ms + length es) = Inr ()"
    using assms by (simp add: validate_action_count_def request_fits_def WALLET_V5R1_MAX_ACTIONS_def)
  ultimately show ?thesis unfolding v5_signing_cell_def by (simp only: and_then_simps and_then_assoc)
qed

lemma v5_body_reads:
  fixes w :: wallet_v5 and seqno valid_until :: u32
  assumes "request_fits ms es" "length sig = 64"
  defines "c \<equiv> mk_cell (request_bits w seqno valid_until ms es @ bytes_bits sig) (inner_refs X (request_out ms) (request_ext es))"
  shows "wf_cell c" "v5_body_from_cell X c = Inr \<lparr>eb_wallet_id = v5_wallet_id w, eb_valid_until = valid_until, eb_seqno = seqno,
      eb_out_list = request_out ms, eb_extended_actions = request_ext es, eb_signature = sig\<rparr>"
proof -
  note inner = request_inner[OF assms(1), of X]
  let ?refs = "inner_refs X (request_out ms) (request_ext es)"
  show wf: "wf_cell c"
    using request_size[OF assms(1), of w seqno valid_until] inner_fits(2,3)[OF inner] assms(2) by (simp add: c_def wf_mk_cell)
  let ?read = "\<lambda>s. and_then (load_u32 X s) (\<lambda>(tag, s). if tag \<noteq> WALLET_V5R1_EXTERNAL_SIGNED_OP then Inl (TlbErr (TlbCustomSchema ''WalletV5R1ExternalBody''))
      else and_then (load_u32 X s) (\<lambda>(wallet_id, s). and_then (load_u32 X s) (\<lambda>(valid_until, s). and_then (load_u32 X s) (\<lambda>(seqno, s).
        and_then (load_v5_inner_request X s) (\<lambda>(inner, s). Inr ((wallet_id, valid_until, seqno, inner), s))))))"
  have "takes_refs ?read (v5_wallet_id w, valid_until, seqno, request_out ms, request_ext es) (request_bits w seqno valid_until ms es)
      ([] @ [] @ [] @ [] @ ?refs)"
    unfolding request_bits_def
    by (rule takes_bind[OF named_uint_steps(6)], simp only: simp_thms if_False,
      rule takes_bind[OF named_uint_steps(6)], rule takes_bind[OF named_uint_steps(6)], rule takes_bind[OF named_uint_steps(6)],
      rule takes_map[OF load_inner_takes[OF inner], where h = "\<lambda>i. (v5_wallet_id w, valid_until, seqno, i)"])
  then have r: "?read (slice_new c) = Inr ((v5_wallet_id w, valid_until, seqno, request_out ms, request_ext es),
      adv (slice_new c) (length (request_bits w seqno valid_until ms es)) (length ?refs))"
    using wf by (simp add: takes_refs_def c_def)
  moreover have "load_bytes (adv (slice_new c) (length (request_bits w seqno valid_until ms es)) (length ?refs)) 64
      = Inr (sig, adv (slice_new c) (length (request_bits w seqno valid_until ms es) + 512) (length ?refs))"
    using wf assms(2) by (simp add: load_bytes_eq c_def wf_adv)
  moreover have "ensure_empty (adv (slice_new c) (length (request_bits w seqno valid_until ms es) + 512) (length ?refs)) = Inr ()"
    using wf assms(2) by (simp add: ensure_empty_def slice_is_empty_eq wf_adv c_def)
  moreover have "\<not> cell_bit_len c < 512" using assms(2) by (simp add: c_def)
  ultimately show "v5_body_from_cell X c = Inr \<lparr>eb_wallet_id = v5_wallet_id w, eb_valid_until = valid_until, eb_seqno = seqno,
      eb_out_list = request_out ms, eb_extended_actions = request_ext es, eb_signature = sig\<rparr>"
    unfolding v5_body_from_cell_def by (auto simp: and_then_eq_Inr split: if_splits)
qed

lemma v5_signed_body_eq:
  fixes w :: wallet_v5 and seqno valid_until :: u32
  assumes "request_fits ms es" "\<And>h. length (sign h) = 64"
  defines "sc \<equiv> mk_cell (request_bits w seqno valid_until ms es) (inner_refs X (request_out ms) (request_ext es))"
  shows "v5_signed_body X sign w seqno valid_until ms es = Inr \<lparr>sb_body = mk_cell (request_bits w seqno valid_until ms es
      @ bytes_bits (sign (cell_hash X sc))) (inner_refs X (request_out ms) (request_ext es)),
      sb_signing_hash = cell_hash X sc, sb_signature = sign (cell_hash X sc)\<rparr>"
proof -
  note inner = request_inner[OF assms(1), of X]
  have f: "length (request_bits w seqno valid_until ms es) \<le> 511" by (rule request_size[OF assms(1)])
  have "wf_cell sc" using f inner_fits(2,3)[OF inner] by (simp add: sc_def wf_mk_cell)
  then show ?thesis using f inner_fits(2)[OF inner] assms(2) v5_signing_cell_eq[OF assms(1), of w seqno valid_until, folded sc_def]
    by (simp add: v5_signed_body_def Let_def builder_new_eq store_cell_mk store_bytes_mk builder_build_mk sc_def)
qed

end

section \<open>The external message\<close>

definition v5_wallet_ok :: "wallet_v5 \<Rightarrow> bool" where
  "v5_wallet_ok w \<longleftrightarrow> length (v5_public_key w) = 32 \<and> wf_cell (v5_code w)"

definition v5_init :: "wallet_v5 \<Rightarrow> state_init" where
  "v5_init w = state_init_empty\<lparr>si_code := Some (v5_code w), si_data := Some (mk_cell (v5_data_bits (wallet_v5_data w)) [])\<rparr>"

definition v5_self :: "crates \<Rightarrow> wallet_v5 \<Rightarrow> address" where
  "v5_self X w = new_address (v5_workchain w) (cell_hash X (mk_cell (state_init_bits (v5_init w)) (state_init_refs (v5_init w))))"

definition v5_message :: "crates \<Rightarrow> wallet_v5 \<Rightarrow> cell \<Rightarrow> bool \<Rightarrow> common_msg_info message" where
  "v5_message X w body inc = \<lparr>msg_info = MsgExternalIn AddrNone (msg_address_std (v5_self X w)) 0,
     msg_init = (if inc then Some (Inr (v5_init w)) else None), msg_body = Inr body\<rparr>"

definition v5_message_cell ::
    "crates \<Rightarrow> (bytes \<Rightarrow> bytes) \<Rightarrow> wallet_v5 \<Rightarrow> u32 \<Rightarrow> u32 \<Rightarrow> wallet_message list \<Rightarrow> extended_action list \<Rightarrow> bool \<Rightarrow> cell" where
  "v5_message_cell X sign w seqno valid_until ms es inc =
     (let refs = inner_refs X (request_out ms) (request_ext es);
          bits = request_bits w seqno valid_until ms es;
          body = mk_cell (bits @ bytes_bits (sign (cell_hash X (mk_cell bits refs)))) refs;
          m = v5_message X w body inc in
      mk_cell (message_bits m) (message_refs X m))"

lemma v5_init_ok:
  "state_init_ok (v5_init w)" "length (state_init_refs (v5_init w)) = 2" "length (state_init_bits (v5_init w)) = 5"
  by (simp_all add: v5_init_def state_init_empty_def state_init_ok_def state_init_bits_def state_init_refs_def maybe_bits_def maybe_refs_def
      prefix_ok_def prefix_bits_def)

lemma wf_v5_init: "v5_wallet_ok w \<Longrightarrow> list_all wf_cell (state_init_refs (v5_init w))"
  by (simp add: v5_init_def state_init_empty_def state_init_refs_def maybe_refs_def v5_wallet_ok_def v5_data_bits_def wallet_v5_data_def wf_mk_cell)

lemma v5_state_init_eq:
  assumes "bignum X" "v5_wallet_ok w"
  shows "v5_state_init X w = Inr (v5_init w)" "v5_address X w = Inr (v5_self X w)"
proof -
  have d: "v5_data_ok (wallet_v5_data w)" "dict_refs store_bit (d5_extensions (wallet_v5_data w)) = []"
    "length (v5_data_bits (wallet_v5_data w)) = 322"
    using assms(2) by (simp_all add: v5_data_ok_def wallet_v5_data_def v5_wallet_ok_def bools_ok_def wf_hashmap_def hashmap_e_new_def
        WALLET_V5R1_EXTENSIONS_KEY_BITS_def dict_refs_def serialize_hashmap_root_def hashmap_e_is_empty_def v5_data_bits_def)
  then have "tlb_to_cell (store_v5_data X) (wallet_v5_data w) = Inr (mk_cell (v5_data_bits (wallet_v5_data w)) [])"
    using tail_codec.to_cell_eq[OF value_codec_tail[OF bignum.v5_data_codec[OF assms(1)]] d(1)] by simp
  then show i: "v5_state_init X w = Inr (v5_init w)" by (simp add: v5_state_init_def v5_init_def)
  show "v5_address X w = Inr (v5_self X w)"
    using tail_codec.to_cell_eq[OF value_codec_tail[OF bignum.state_init_codec[OF assms(1)]] v5_init_ok(1)[of w]] v5_init_ok(2,3)[of w] i
    by (simp add: v5_address_def v5_self_def)
qed

lemma v5_message_ok:
  assumes "hashing X" "v5_wallet_ok w" "wf_cell body"
  shows "message_ok (v5_message X w body inc)" "length (message_bits (v5_message X w body inc)) \<le> 1023"
    "length (message_refs X (v5_message X w body inc)) \<le> 4" "list_all wf_cell (message_refs X (v5_message X w body inc))"
proof -
  note i = v5_init_ok[of w] wf_v5_init[OF assms(2)]
  have c: "wf_cell (mk_cell (state_init_bits (v5_init w)) (state_init_refs (v5_init w)))" using i by (simp add: wf_mk_cell)
  have h: "length (hash_part (v5_self X w)) = 32" "v5_self X w = new_address (workchain (v5_self X w)) (hash_part (v5_self X w))"
    using hashing.length_cell_hash[OF assms(1) c] by (simp_all add: v5_self_def new_address_def)
  show "message_ok (v5_message X w body inc)"
    using h i by (simp add: message_ok_def v5_message_def msg_address_std_def grams_ok_def)
  show "length (message_bits (v5_message X w body inc)) \<le> 1023"
    using h i by (simp add: message_bits_def v5_message_def msg_address_std_def maybe_bits_def)
  show "length (message_refs X (v5_message X w body inc)) \<le> 4" "list_all wf_cell (message_refs X (v5_message X w body inc))"
    using c assms(3) i by (simp_all add: message_refs_def v5_message_def)
qed

lemma boc_delivers:
  assumes "hashing X" "wf_cell c" "collision_free X (subcells c)" "card (subcells c) < 2 ^ 48"
  obtains boc where "serialize_boc X c crc = Inr boc" "deserialize_boc X boc = Inr c"
  using serialize_boc_eq[OF assms(1,3,2,4)] boc_reads[OF assms(1,3,2,4)] by blast

section \<open>Properties\<close>

text \<open>
  A request of at most 255 transfers and management actions that fit their cells is built, signed
  over the hash of its signing cell, and the signed body decodes to the same request: wallet id,
  expiry, sequence number, the transfers as actions in order, the management actions, and the signature.
\<close>

theorem v5_body_roundtrip:
  assumes "bignum X" "request_fits ms es" "\<And>h. length (sign h) = 64"
  shows "\<exists>sc signed. v5_signing_cell X w seqno valid_until ms es = Inr sc
    \<and> v5_signed_body X sign w seqno valid_until ms es = Inr signed \<and> sb_signature signed = sign (cell_hash X sc)
    \<and> v5_body_from_cell X (sb_body signed) = Inr \<lparr>eb_wallet_id = v5_wallet_id w, eb_valid_until = valid_until, eb_seqno = seqno,
        eb_out_list = request_out ms, eb_extended_actions = request_ext es, eb_signature = sb_signature signed\<rparr>"
  using bignum.v5_signing_cell_eq[OF assms(1,2)] bignum.v5_signed_body_eq[OF assms] bignum.v5_body_reads(2)[OF assms(1,2,3)] by simp

definition sample_transfer :: wallet_message where
  "sample_transfer = with_body (wallet_message_internal (new_address 0 (replicate 32 5)) 1000) (mk_cell [True, False] [])"

definition sample_wallet :: wallet_v5 where
  "sample_wallet = wallet_v5_new (replicate 32 9) 0x7fffff11 (mk_cell [True] []) 0"

theorem v5_body_roundtrip_witness:
  "\<exists>signed. v5_signed_body ref_crates (\<lambda>_. replicate 64 1) sample_wallet 7 8 [sample_transfer, sample_transfer]
      [add_extension (new_address 0 (replicate 32 6)), SetSignatureAuthAllowed False] = Inr signed
    \<and> v5_body_from_cell ref_crates (sb_body signed) = Inr \<lparr>eb_wallet_id = 0x7fffff11, eb_valid_until = 8, eb_seqno = 7,
        eb_out_list = Some [transfer_action sample_transfer, transfer_action sample_transfer],
        eb_extended_actions = Some [add_extension (new_address 0 (replicate 32 6)), SetSignatureAuthAllowed False],
        eb_signature = replicate 64 1\<rparr>"
proof -
  have "request_fits [sample_transfer, sample_transfer] [add_extension (new_address 0 (replicate 32 6)), SetSignatureAuthAllowed False]"
    by (simp add: request_fits_def transfer_fits_def sample_transfer_def with_body_def wallet_message_internal_def new_address_def wf_mk_cell
        add_extension_def msg_address_std_def maybe_bits_def)
  from v5_body_roundtrip[OF ref_bignum.bignum_axioms this, of "\<lambda>_. replicate 64 1" sample_wallet 7 8]
  show ?thesis by (auto simp: sample_wallet_def wallet_v5_new_def request_out_def request_ext_def)
qed

text \<open>
  C29: From transfers to bytes and back: the bag of the external message is read as a message addressed to
  the wallet's own address, the hash of its state init, which comes along when asked for.  The body of the message is the
  signing cell followed by the signature over the hash of that cell, and it decodes to the request with this signature.
\<close>

theorem v5_message_delivered:
  assumes "bignum X" "hashing X" "v5_wallet_ok w" "request_fits ms es" "\<And>h. length (sign h) = 64"
    "collision_free X (subcells (v5_message_cell X sign w seqno valid_until ms es inc))"
    "card (subcells (v5_message_cell X sign w seqno valid_until ms es inc)) < 2 ^ 48"
  shows "\<exists>boc c m self init body sc. v5_message_boc X sign w seqno valid_until ms es inc = Inr boc \<and> deserialize_boc X boc = Inr c
    \<and> tlb_from_cell (load_message X) c = Inr m \<and> v5_address X w = Inr self \<and> v5_state_init X w = Inr init
    \<and> m = \<lparr>msg_info = MsgExternalIn AddrNone (msg_address_std self) 0, msg_init = (if inc then Some (Inr init) else None), msg_body = Inr body\<rparr>
    \<and> v5_signing_cell X w seqno valid_until ms es = Inr sc
    \<and> cell_bits body = cell_bits sc @ bytes_bits (sign (cell_hash X sc)) \<and> cell_references body = cell_references sc
    \<and> v5_body_from_cell X body = Inr \<lparr>eb_wallet_id = v5_wallet_id w, eb_valid_until = valid_until, eb_seqno = seqno,
        eb_out_list = request_out ms, eb_extended_actions = request_ext es, eb_signature = sign (cell_hash X sc)\<rparr>"
proof -
  let ?refs = "inner_refs X (request_out ms) (request_ext es)" and ?bits = "request_bits w seqno valid_until ms es"
  let ?sc = "mk_cell ?bits ?refs" and ?body = "mk_cell (?bits @ bytes_bits (sign (cell_hash X (mk_cell ?bits ?refs)))) ?refs"
  let ?m = "v5_message X w ?body inc" and ?c = "v5_message_cell X sign w seqno valid_until ms es inc"
  note body = bignum.v5_body_reads[OF assms(1,4,5), of w seqno valid_until]
  note ok = v5_message_ok[OF assms(2,3) body(1)]
  note codec = bignum.message_codec[OF assms(1)]
  have c: "?c = mk_cell (message_bits ?m) (message_refs X ?m)" by (simp add: v5_message_cell_def Let_def)
  then have wf: "wf_cell ?c" using ok by (simp add: wf_mk_cell)
  obtain boc where boc: "serialize_boc X ?c False = Inr boc" "deserialize_boc X boc = Inr ?c"
    using boc_delivers[OF assms(2) wf assms(6,7)] .
  have "tlb_to_cell (store_message X) ?m = Inr ?c" using tail_codec.to_cell_eq[OF codec ok(1-3)] c by simp
  then have "v5_message_boc X sign w seqno valid_until ms es inc = Inr boc"
    using boc(1) bignum.v5_signed_body_eq[OF assms(1,4,5)] v5_state_init_eq[OF assms(1,3)]
    by (cases inc) (simp_all add: v5_message_boc_def v5_message_def)
  moreover have "tlb_from_cell (load_message X) ?c = Inr ?m"
    using tail_codec.from_cell_eq[OF codec ok(1)] wf c by simp
  moreover have "v5_signing_cell X w seqno valid_until ms es = Inr ?sc" by (rule bignum.v5_signing_cell_eq[OF assms(1,4)])
  ultimately show ?thesis
    using boc(2) body(2) v5_state_init_eq[OF assms(1,3)]
    by (intro exI[of _ boc] exI[of _ ?c] exI[of _ ?m] exI[of _ "v5_self X w"] exI[of _ "v5_init w"] exI[of _ ?body] exI[of _ ?sc])
      (simp add: v5_message_def)
qed

definition sample_body :: cell where
  "sample_body = mk_cell (request_bits sample_wallet 7 8 [] [SetSignatureAuthAllowed False] @ bytes_bits (replicate 64 1)) []"

definition sample_external :: cell where
  "sample_external = v5_message_cell length_digest (\<lambda>_. replicate 64 1) sample_wallet 7 8 [] [SetSignatureAuthAllowed False] False"

lemma sample_request: "request_fits [] [SetSignatureAuthAllowed False]" "v5_wallet_ok sample_wallet"
  by (simp_all add: request_fits_def v5_wallet_ok_def sample_wallet_def wallet_v5_new_def wf_mk_cell)

lemma sample_external_eq:
  "sample_external = mk_cell (message_bits (v5_message length_digest sample_wallet sample_body False)) [sample_body]"
  by (simp add: sample_external_def v5_message_cell_def Let_def sample_body_def message_refs_def v5_message_def inner_refs_def
      request_out_def request_ext_def)

lemma wf_sample_body: "wf_cell sample_body"
  using bignum.v5_body_reads(1)[OF length_digest_bignum sample_request(1), of "replicate 64 1" sample_wallet 7 8]
  by (simp add: sample_body_def inner_refs_def request_out_def request_ext_def)

lemma sample_external_subcells: "subcells sample_external = {sample_external, sample_body}"
  unfolding sample_external_eq by (auto simp: sample_body_def mk_cell_def)

lemma length_repr_external:
  "length (cell_repr length_digest sample_external) = 71" "length (cell_repr length_digest sample_body) = 84"
proof -
  have w: "wf_cell (mk_cell (state_init_bits (v5_init sample_wallet)) (state_init_refs (v5_init sample_wallet)))"
    using v5_init_ok(2,3)[of sample_wallet] wf_v5_init[OF sample_request(2)] by (simp add: wf_mk_cell)
  have h: "length (hash_part (v5_self length_digest sample_wallet)) = 32"
    using hashing.length_cell_hash[OF length_digest_hashing w] by (simp add: v5_self_def new_address_def)
  have "length (message_bits (v5_message length_digest sample_wallet sample_body False)) = 277"
    using h by (simp add: message_bits_def v5_message_def msg_address_std_def maybe_bits_def)
  then show "length (cell_repr length_digest sample_external) = 71"
    using hashing.length_cell_hash[OF length_digest_hashing wf_sample_body]
    by (simp add: cell_repr_def sample_external_eq descriptors_def div_ceil_def)
  have "length (request_bits sample_wallet 7 8 [] [SetSignatureAuthAllowed False]) = 139"
    by (simp add: request_bits_def inner_bits_def request_out_def request_ext_def)
  then show "length (cell_repr length_digest sample_body) = 84"
    by (simp add: cell_repr_def sample_body_def descriptors_def div_ceil_def)
qed

lemma sample_external_collision_free: "collision_free length_digest (subcells sample_external)"
  using be_bytes_32_inject[of 71 84] unfolding collision_free_def sample_external_subcells inj_on_def
  by (auto simp: length_digest_def length_repr_external[unfolded length_digest_def])

theorem v5_message_delivered_witness:
  "\<exists>boc c m sc body. v5_message_boc length_digest (\<lambda>_. replicate 64 1) sample_wallet 7 8 [] [SetSignatureAuthAllowed False] False = Inr boc
    \<and> deserialize_boc length_digest boc = Inr c \<and> tlb_from_cell (load_message length_digest) c = Inr m
    \<and> v5_signing_cell length_digest sample_wallet 7 8 [] [SetSignatureAuthAllowed False] = Inr sc
    \<and> msg_body m = Inr body \<and> cell_bits body = cell_bits sc @ bytes_bits (replicate 64 1)"
proof -
  have "card (subcells sample_external) < 2 ^ 48"
    unfolding sample_external_subcells by (simp add: card_insert_if)
  then show ?thesis
    using v5_message_delivered[OF length_digest_bignum length_digest_hashing sample_request(2,1), of "\<lambda>_. replicate 64 1" 7 8 False,
        folded sample_external_def] sample_external_collision_free by fastforce
qed

end
