(* ===== verification/Payloads.thy ===== *)
theory Payloads
  imports TlbMessage
begin

text \<open>
  The message bodies of jettons (\<open>src/jetton/payload.rs\<close>) and NFTs (\<open>src/nft/payload.rs\<close>): an operation
  code, a query id and the fields of the operation.  The forward payload at the end of a
  transfer is either the rest of the cell or a reference, so a body that carries one is a
  codec of the whole rest of a cell.  Every body is read back as it was written, and a reader refuses
  the body of any other operation.
\<close>

definition JETTON_TRANSFER_OP :: u32 where "JETTON_TRANSFER_OP = 0x0f8a7ea5"
definition JETTON_TRANSFER_NOTIFICATION_OP :: u32 where "JETTON_TRANSFER_NOTIFICATION_OP = 0x7362d09c"
definition JETTON_INTERNAL_TRANSFER_OP :: u32 where "JETTON_INTERNAL_TRANSFER_OP = 0x178d4519"
definition JETTON_BURN_OP :: u32 where "JETTON_BURN_OP = 0x595f07bc"
definition JETTON_EXCESSES_OP :: u32 where "JETTON_EXCESSES_OP = 0xd53276db"
definition NFT_TRANSFER_OP :: u32 where "NFT_TRANSFER_OP = 0x5fcc3d14"
definition NFT_OWNERSHIP_ASSIGNED_OP :: u32 where "NFT_OWNERSHIP_ASSIGNED_OP = 0x05138d91"
definition NFT_EXCESSES_OP :: u32 where "NFT_EXCESSES_OP = 0xd53276db"
definition NFT_GET_STATIC_DATA_OP :: u32 where "NFT_GET_STATIC_DATA_OP = 0x2fcb26a2"
definition NFT_REPORT_STATIC_DATA_OP :: u32 where "NFT_REPORT_STATIC_DATA_OP = 0x8b771735"
definition NFT_GET_ROYALTY_PARAMS_OP :: u32 where "NFT_GET_ROYALTY_PARAMS_OP = 0x693d3950"
definition NFT_REPORT_ROYALTY_PARAMS_OP :: u32 where "NFT_REPORT_ROYALTY_PARAMS_OP = 0xa8cb00ad"

section \<open>Shared parts\<close>

type_synonym forward_payload = "cell + cell"

text \<open>\<open>Either<Arc<Cell>, CellRef<Arc<Cell>>>\<close> and \<open>Option<CellRef<Arc<Cell>>>\<close> through the combinators of TL-B.\<close>

definition store_forward_payload :: "builder \<Rightarrow> forward_payload \<Rightarrow> builder result" where
  "store_forward_payload b p = store_either store_raw_cell (store_cell_ref store_raw_cell) b p"

definition load_forward_payload :: "slice \<Rightarrow> (forward_payload \<times> slice) result" where
  "load_forward_payload s = load_either load_raw_cell (load_cell_ref load_raw_cell) s"

definition store_custom_payload :: "builder \<Rightarrow> cell option \<Rightarrow> builder result" where
  "store_custom_payload b p = store_maybe (store_cell_ref store_raw_cell) b p"

definition load_custom_payload :: "slice \<Rightarrow> (cell option \<times> slice) result" where
  "load_custom_payload s = load_maybe (load_cell_ref load_raw_cell) s"

definition inline_forward_payload :: "cell \<Rightarrow> forward_payload" where
  "inline_forward_payload c = Inl c"

definition referenced_forward_payload :: "cell \<Rightarrow> forward_payload" where
  "referenced_forward_payload c = Inr c"

definition empty_forward_payload :: "forward_payload result" where
  "empty_forward_payload = (case builder_build builder_new of Inl _ \<Rightarrow> Inl Panic | Inr c \<Rightarrow> Inr (inline_forward_payload c))"

definition std_address :: "address \<Rightarrow> msg_address" where
  "std_address a = AddrInt (msg_address_std a)"

definition query_id_payload :: "crates \<Rightarrow> u32 \<Rightarrow> u64 \<Rightarrow> cell result" where
  "query_id_payload X op query_id =
     and_then (store_u32 X builder_new op) (\<lambda>b. and_then (store_u64 X b query_id) builder_build)"

definition expect_op :: "crates \<Rightarrow> u32 \<Rightarrow> string \<Rightarrow> slice \<Rightarrow> (unit \<times> slice) result" where
  "expect_op X expected schema s = and_then (load_u32 X s) (\<lambda>(actual, s).
     if actual \<noteq> expected then Inl (TlbErr (TlbCustomSchema schema)) else Inr ((), s))"

section \<open>Jettons\<close>

record jetton_transfer =
  jt_query_id :: u64
  jt_amount :: nat
  jt_destination :: msg_address
  jt_response_destination :: msg_address
  jt_custom_payload :: "cell option"
  jt_forward_ton_amount :: nat
  jt_forward_payload :: forward_payload

definition jetton_transfer_new :: "u64 \<Rightarrow> nat \<Rightarrow> address \<Rightarrow> address \<Rightarrow> jetton_transfer result" where
  "jetton_transfer_new query_id amount destination response =
     and_then empty_forward_payload (\<lambda>p.
     Inr \<lparr>jt_query_id = query_id, jt_amount = amount, jt_destination = std_address destination,
       jt_response_destination = std_address response, jt_custom_payload = None, jt_forward_ton_amount = 0, jt_forward_payload = p\<rparr>)"

definition jt_with_custom_payload :: "jetton_transfer \<Rightarrow> cell \<Rightarrow> jetton_transfer" where
  "jt_with_custom_payload t c = t\<lparr>jt_custom_payload := Some c\<rparr>"

definition jt_with_forward_payload :: "jetton_transfer \<Rightarrow> nat \<Rightarrow> forward_payload \<Rightarrow> jetton_transfer" where
  "jt_with_forward_payload t amount p = t\<lparr>jt_forward_ton_amount := amount, jt_forward_payload := p\<rparr>"

definition store_jetton_transfer :: "crates \<Rightarrow> builder \<Rightarrow> jetton_transfer \<Rightarrow> builder result" where
  "store_jetton_transfer X b t =
     and_then (store_u32 X b JETTON_TRANSFER_OP) (\<lambda>b.
     and_then (store_u64 X b (jt_query_id t)) (\<lambda>b.
     and_then (store_grams X b (jt_amount t)) (\<lambda>b.
     and_then (store_msg_address X b (jt_destination t)) (\<lambda>b.
     and_then (store_msg_address X b (jt_response_destination t)) (\<lambda>b.
     and_then (store_custom_payload b (jt_custom_payload t)) (\<lambda>b.
     and_then (store_grams X b (jt_forward_ton_amount t)) (\<lambda>b.
     store_forward_payload b (jt_forward_payload t))))))))"

definition load_jetton_transfer :: "crates \<Rightarrow> slice \<Rightarrow> (jetton_transfer \<times> slice) result" where
  "load_jetton_transfer X s =
     and_then (expect_op X JETTON_TRANSFER_OP ''JettonTransferPayload'' s) (\<lambda>(_, s).
     and_then (load_u64 X s) (\<lambda>(query_id, s).
     and_then (load_grams X s) (\<lambda>(amount, s).
     and_then (load_msg_address X s) (\<lambda>(destination, s).
     and_then (load_msg_address X s) (\<lambda>(response, s).
     and_then (load_custom_payload s) (\<lambda>(custom, s).
     and_then (load_grams X s) (\<lambda>(forward_ton, s).
     and_then (load_forward_payload s) (\<lambda>(forward, s).
     Inr (\<lparr>jt_query_id = query_id, jt_amount = amount, jt_destination = destination, jt_response_destination = response,
       jt_custom_payload = custom, jt_forward_ton_amount = forward_ton, jt_forward_payload = forward\<rparr>, s)))))))))"

record jetton_burn =
  jb_query_id :: u64
  jb_amount :: nat
  jb_response_destination :: msg_address
  jb_custom_payload :: "cell option"

definition jetton_burn_new :: "u64 \<Rightarrow> nat \<Rightarrow> address \<Rightarrow> jetton_burn" where
  "jetton_burn_new query_id amount response =
     \<lparr>jb_query_id = query_id, jb_amount = amount, jb_response_destination = std_address response, jb_custom_payload = None\<rparr>"

definition jb_with_custom_payload :: "jetton_burn \<Rightarrow> cell \<Rightarrow> jetton_burn" where
  "jb_with_custom_payload t c = t\<lparr>jb_custom_payload := Some c\<rparr>"

definition store_jetton_burn :: "crates \<Rightarrow> builder \<Rightarrow> jetton_burn \<Rightarrow> builder result" where
  "store_jetton_burn X b t =
     and_then (store_u32 X b JETTON_BURN_OP) (\<lambda>b.
     and_then (store_u64 X b (jb_query_id t)) (\<lambda>b.
     and_then (store_grams X b (jb_amount t)) (\<lambda>b.
     and_then (store_msg_address X b (jb_response_destination t)) (\<lambda>b.
     store_custom_payload b (jb_custom_payload t)))))"

definition load_jetton_burn :: "crates \<Rightarrow> slice \<Rightarrow> (jetton_burn \<times> slice) result" where
  "load_jetton_burn X s =
     and_then (expect_op X JETTON_BURN_OP ''JettonBurnPayload'' s) (\<lambda>(_, s).
     and_then (load_u64 X s) (\<lambda>(query_id, s).
     and_then (load_grams X s) (\<lambda>(amount, s).
     and_then (load_msg_address X s) (\<lambda>(response, s).
     and_then (load_custom_payload s) (\<lambda>(custom, s).
     Inr (\<lparr>jb_query_id = query_id, jb_amount = amount, jb_response_destination = response, jb_custom_payload = custom\<rparr>, s))))))"

record jetton_internal_transfer =
  ji_query_id :: u64
  ji_amount :: nat
  ji_from :: msg_address
  ji_response_address :: msg_address
  ji_forward_ton_amount :: nat
  ji_forward_payload :: forward_payload

definition jetton_internal_new :: "u64 \<Rightarrow> nat \<Rightarrow> address \<Rightarrow> address \<Rightarrow> jetton_internal_transfer result" where
  "jetton_internal_new query_id amount sender response =
     and_then empty_forward_payload (\<lambda>p.
     Inr \<lparr>ji_query_id = query_id, ji_amount = amount, ji_from = std_address sender, ji_response_address = std_address response,
       ji_forward_ton_amount = 0, ji_forward_payload = p\<rparr>)"

definition ji_with_forward_payload :: "jetton_internal_transfer \<Rightarrow> nat \<Rightarrow> forward_payload \<Rightarrow> jetton_internal_transfer" where
  "ji_with_forward_payload t amount p = t\<lparr>ji_forward_ton_amount := amount, ji_forward_payload := p\<rparr>"

definition store_jetton_internal :: "crates \<Rightarrow> builder \<Rightarrow> jetton_internal_transfer \<Rightarrow> builder result" where
  "store_jetton_internal X b t =
     and_then (store_u32 X b JETTON_INTERNAL_TRANSFER_OP) (\<lambda>b.
     and_then (store_u64 X b (ji_query_id t)) (\<lambda>b.
     and_then (store_grams X b (ji_amount t)) (\<lambda>b.
     and_then (store_msg_address X b (ji_from t)) (\<lambda>b.
     and_then (store_msg_address X b (ji_response_address t)) (\<lambda>b.
     and_then (store_grams X b (ji_forward_ton_amount t)) (\<lambda>b.
     store_forward_payload b (ji_forward_payload t)))))))"

definition load_jetton_internal :: "crates \<Rightarrow> slice \<Rightarrow> (jetton_internal_transfer \<times> slice) result" where
  "load_jetton_internal X s =
     and_then (expect_op X JETTON_INTERNAL_TRANSFER_OP ''JettonInternalTransferPayload'' s) (\<lambda>(_, s).
     and_then (load_u64 X s) (\<lambda>(query_id, s).
     and_then (load_grams X s) (\<lambda>(amount, s).
     and_then (load_msg_address X s) (\<lambda>(sender, s).
     and_then (load_msg_address X s) (\<lambda>(response, s).
     and_then (load_grams X s) (\<lambda>(forward_ton, s).
     and_then (load_forward_payload s) (\<lambda>(forward, s).
     Inr (\<lparr>ji_query_id = query_id, ji_amount = amount, ji_from = sender, ji_response_address = response,
       ji_forward_ton_amount = forward_ton, ji_forward_payload = forward\<rparr>, s))))))))"

definition jetton_transfer_notification :: "crates \<Rightarrow> u64 \<Rightarrow> nat \<Rightarrow> msg_address \<Rightarrow> forward_payload \<Rightarrow> cell result" where
  "jetton_transfer_notification X query_id amount sender forward =
     and_then (store_u32 X builder_new JETTON_TRANSFER_NOTIFICATION_OP) (\<lambda>b.
     and_then (store_u64 X b query_id) (\<lambda>b.
     and_then (store_grams X b amount) (\<lambda>b.
     and_then (store_msg_address X b sender) (\<lambda>b.
     and_then (store_forward_payload b forward) builder_build))))"

definition jetton_excesses :: "crates \<Rightarrow> u64 \<Rightarrow> cell result" where
  "jetton_excesses X query_id = query_id_payload X JETTON_EXCESSES_OP query_id"

section \<open>NFTs\<close>

record nft_transfer =
  nt_query_id :: u64
  nt_new_owner :: msg_address
  nt_response_destination :: msg_address
  nt_custom_payload :: "cell option"
  nt_forward_amount :: nat
  nt_forward_payload :: forward_payload

definition nft_transfer_new :: "u64 \<Rightarrow> address \<Rightarrow> address \<Rightarrow> nft_transfer result" where
  "nft_transfer_new query_id new_owner response =
     and_then empty_forward_payload (\<lambda>p.
     Inr \<lparr>nt_query_id = query_id, nt_new_owner = std_address new_owner, nt_response_destination = std_address response,
       nt_custom_payload = None, nt_forward_amount = 0, nt_forward_payload = p\<rparr>)"

definition nt_with_custom_payload :: "nft_transfer \<Rightarrow> cell \<Rightarrow> nft_transfer" where
  "nt_with_custom_payload t c = t\<lparr>nt_custom_payload := Some c\<rparr>"

definition nt_with_forward_payload :: "nft_transfer \<Rightarrow> nat \<Rightarrow> forward_payload \<Rightarrow> nft_transfer" where
  "nt_with_forward_payload t amount p = t\<lparr>nt_forward_amount := amount, nt_forward_payload := p\<rparr>"

definition store_nft_transfer :: "crates \<Rightarrow> builder \<Rightarrow> nft_transfer \<Rightarrow> builder result" where
  "store_nft_transfer X b t =
     and_then (store_u32 X b NFT_TRANSFER_OP) (\<lambda>b.
     and_then (store_u64 X b (nt_query_id t)) (\<lambda>b.
     and_then (store_msg_address X b (nt_new_owner t)) (\<lambda>b.
     and_then (store_msg_address X b (nt_response_destination t)) (\<lambda>b.
     and_then (store_custom_payload b (nt_custom_payload t)) (\<lambda>b.
     and_then (store_grams X b (nt_forward_amount t)) (\<lambda>b.
     store_forward_payload b (nt_forward_payload t)))))))"

definition load_nft_transfer :: "crates \<Rightarrow> slice \<Rightarrow> (nft_transfer \<times> slice) result" where
  "load_nft_transfer X s =
     and_then (expect_op X NFT_TRANSFER_OP ''NftTransferPayload'' s) (\<lambda>(_, s).
     and_then (load_u64 X s) (\<lambda>(query_id, s).
     and_then (load_msg_address X s) (\<lambda>(new_owner, s).
     and_then (load_msg_address X s) (\<lambda>(response, s).
     and_then (load_custom_payload s) (\<lambda>(custom, s).
     and_then (load_grams X s) (\<lambda>(forward_amount, s).
     and_then (load_forward_payload s) (\<lambda>(forward, s).
     Inr (\<lparr>nt_query_id = query_id, nt_new_owner = new_owner, nt_response_destination = response, nt_custom_payload = custom,
       nt_forward_amount = forward_amount, nt_forward_payload = forward\<rparr>, s))))))))"

record nft_ownership_assigned =
  no_query_id :: u64
  no_prev_owner :: msg_address
  no_forward_payload :: forward_payload

definition ownership_assigned_new :: "u64 \<Rightarrow> address \<Rightarrow> forward_payload \<Rightarrow> nft_ownership_assigned" where
  "ownership_assigned_new query_id prev_owner forward =
     \<lparr>no_query_id = query_id, no_prev_owner = std_address prev_owner, no_forward_payload = forward\<rparr>"

definition store_ownership_assigned :: "crates \<Rightarrow> builder \<Rightarrow> nft_ownership_assigned \<Rightarrow> builder result" where
  "store_ownership_assigned X b t =
     and_then (store_u32 X b NFT_OWNERSHIP_ASSIGNED_OP) (\<lambda>b.
     and_then (store_u64 X b (no_query_id t)) (\<lambda>b.
     and_then (store_msg_address X b (no_prev_owner t)) (\<lambda>b.
     store_forward_payload b (no_forward_payload t))))"

definition load_ownership_assigned :: "crates \<Rightarrow> slice \<Rightarrow> (nft_ownership_assigned \<times> slice) result" where
  "load_ownership_assigned X s =
     and_then (expect_op X NFT_OWNERSHIP_ASSIGNED_OP ''NftOwnershipAssignedPayload'' s) (\<lambda>(_, s).
     and_then (load_u64 X s) (\<lambda>(query_id, s).
     and_then (load_msg_address X s) (\<lambda>(prev_owner, s).
     and_then (load_forward_payload s) (\<lambda>(forward, s).
     Inr (\<lparr>no_query_id = query_id, no_prev_owner = prev_owner, no_forward_payload = forward\<rparr>, s)))))"

record nft_report_static_data =
  ns_query_id :: u64
  ns_index :: nat
  ns_collection :: msg_address

definition report_static_data_new :: "u64 \<Rightarrow> nat \<Rightarrow> address option \<Rightarrow> nft_report_static_data" where
  "report_static_data_new query_id index collection =
     \<lparr>ns_query_id = query_id, ns_index = index,
      ns_collection = (case collection of Some a \<Rightarrow> std_address a | None \<Rightarrow> AddrExt AddrNone)\<rparr>"

definition store_report_static_data :: "crates \<Rightarrow> builder \<Rightarrow> nft_report_static_data \<Rightarrow> builder result" where
  "store_report_static_data X b t =
     and_then (store_u32 X b NFT_REPORT_STATIC_DATA_OP) (\<lambda>b.
     and_then (store_u64 X b (ns_query_id t)) (\<lambda>b.
     and_then (store_big_uint X b (ns_index t) 256) (\<lambda>b.
     store_msg_address X b (ns_collection t))))"

definition load_report_static_data :: "crates \<Rightarrow> slice \<Rightarrow> (nft_report_static_data \<times> slice) result" where
  "load_report_static_data X s =
     and_then (expect_op X NFT_REPORT_STATIC_DATA_OP ''NftReportStaticDataPayload'' s) (\<lambda>(_, s).
     and_then (load_u64 X s) (\<lambda>(query_id, s).
     and_then (load_big_uint X s 256) (\<lambda>(index, s).
     and_then (load_msg_address X s) (\<lambda>(collection, s).
     Inr (\<lparr>ns_query_id = query_id, ns_index = index, ns_collection = collection\<rparr>, s)))))"

record nft_report_royalty =
  nr_query_id :: u64
  nr_numerator :: u16
  nr_denominator :: u16
  nr_destination :: msg_address

definition report_royalty_new :: "u64 \<Rightarrow> u16 \<Rightarrow> u16 \<Rightarrow> address \<Rightarrow> nft_report_royalty" where
  "report_royalty_new query_id numerator denominator destination =
     \<lparr>nr_query_id = query_id, nr_numerator = numerator, nr_denominator = denominator, nr_destination = std_address destination\<rparr>"

definition store_report_royalty :: "crates \<Rightarrow> builder \<Rightarrow> nft_report_royalty \<Rightarrow> builder result" where
  "store_report_royalty X b t =
     and_then (store_u32 X b NFT_REPORT_ROYALTY_PARAMS_OP) (\<lambda>b.
     and_then (store_u64 X b (nr_query_id t)) (\<lambda>b.
     and_then (store_u16 X b (nr_numerator t)) (\<lambda>b.
     and_then (store_u16 X b (nr_denominator t)) (\<lambda>b.
     store_msg_address X b (nr_destination t)))))"

definition load_report_royalty :: "crates \<Rightarrow> slice \<Rightarrow> (nft_report_royalty \<times> slice) result" where
  "load_report_royalty X s =
     and_then (expect_op X NFT_REPORT_ROYALTY_PARAMS_OP ''NftReportRoyaltyParamsPayload'' s) (\<lambda>(_, s).
     and_then (load_u64 X s) (\<lambda>(query_id, s).
     and_then (load_u16 X s) (\<lambda>(numerator, s).
     and_then (load_u16 X s) (\<lambda>(denominator, s).
     and_then (load_msg_address X s) (\<lambda>(destination, s).
     Inr (\<lparr>nr_query_id = query_id, nr_numerator = numerator, nr_denominator = denominator, nr_destination = destination\<rparr>, s))))))"

definition nft_excesses :: "crates \<Rightarrow> u64 \<Rightarrow> cell result" where
  "nft_excesses X query_id = query_id_payload X NFT_EXCESSES_OP query_id"

definition nft_get_static_data :: "crates \<Rightarrow> u64 \<Rightarrow> cell result" where
  "nft_get_static_data X query_id = query_id_payload X NFT_GET_STATIC_DATA_OP query_id"

definition nft_get_royalty_params :: "crates \<Rightarrow> u64 \<Rightarrow> cell result" where
  "nft_get_royalty_params X query_id = query_id_payload X NFT_GET_ROYALTY_PARAMS_OP query_id"

section \<open>Encodings\<close>

text \<open>Cells that survive being copied into a builder: a copy is always an ordinary cell.\<close>

abbreviation plain_cell :: "cell \<Rightarrow> bool" where
  "plain_cell c \<equiv> wf_cell c \<and> cell_exotic c = None"

fun forward_ok :: "forward_payload \<Rightarrow> bool" where
  "forward_ok (Inl c) \<longleftrightarrow> plain_cell c"
| "forward_ok (Inr c) \<longleftrightarrow> plain_cell c"

fun forward_bits :: "forward_payload \<Rightarrow> bool list" where
  "forward_bits (Inl c) = [False] @ cell_bits c"
| "forward_bits (Inr c) = [True] @ []"

fun forward_refs :: "forward_payload \<Rightarrow> cell list" where
  "forward_refs (Inl c) = cell_references c"
| "forward_refs (Inr c) = [c]"

abbreviation custom_bits :: "cell option \<Rightarrow> bool list" where
  "custom_bits \<equiv> maybe_bits (\<lambda>_. [])"

abbreviation custom_refs :: "cell option \<Rightarrow> cell list" where
  "custom_refs \<equiv> maybe_refs (\<lambda>c. [c])"

lemma cell_ref_codec:
  "value_codec (store_cell_ref store_raw_cell) (load_cell_ref load_raw_cell) plain_cell (\<lambda>_. []) (\<lambda>c. [c])"
proof -
  have eq: "mk_cell (cell_bits c) (cell_references c) = c" "length (cell_bits c) \<le> 1023" "length (cell_references c) \<le> 4"
    if "plain_cell c" for c using that wf_cell_bounds[of c] wf_ordinary_eq[of c] by auto
  have "store_cell_ref store_raw_cell = store_ref_tlb store_raw_cell" "load_cell_ref load_raw_cell = load_ref_tlb load_raw_cell ''CellRef''"
    by (simp_all add: fun_eq_iff store_cell_ref_def load_cell_ref_def)
  with ref_tlb_codec[OF raw_cell.tail_codec_axioms, of "''CellRef''"] eq show ?thesis by (simp add: value_codec_iff)
qed

lemma custom_codec: "value_codec store_custom_payload load_custom_payload (pred_option plain_cell) custom_bits custom_refs"
proof -
  have "store_custom_payload = store_maybe (store_cell_ref store_raw_cell)" "load_custom_payload = load_maybe (load_cell_ref load_raw_cell)"
    by (simp_all add: fun_eq_iff store_custom_payload_def load_custom_payload_def)
  with maybe_codec[OF cell_ref_codec] show ?thesis by simp
qed

lemma forward_codec: "tail_codec store_forward_payload load_forward_payload forward_ok forward_bits forward_refs"
proof (rule tail_codecI)
  note raw = raw_cell.tail_codec_axioms[THEN tail_codec_steps(1)] raw_cell.tail_codec_axioms[THEN tail_codec_steps(2)]
    cell_ref_codec[THEN codec_emits] cell_ref_codec[THEN codec_yields, THEN yields_ends]
  fix p assume p: "forward_ok p"
  show "emits (\<lambda>b. store_forward_payload b p) (forward_bits p) (forward_refs p)"
    using p unfolding store_forward_payload_def store_either_def
    by (cases p) (simp_all only: sum.case forward_ok.simps, (rule emits_eq, (rule raw fields | (simp; fail))+)+)
  show "ends load_forward_payload p (forward_bits p) (forward_refs p)"
  proof (cases p)
    case (Inl c)
    then show ?thesis using p unfolding Inl load_forward_payload_def load_either_def forward_bits.simps
      by - (rule ends_bind[OF bit_steps(2)[of False]], simp_all add: ends_last[OF raw(2)])
  next
    case (Inr c)
    then show ?thesis using p unfolding Inr load_forward_payload_def load_either_def forward_bits.simps
      by - (rule ends_bind[OF bit_steps(2)[of True]], simp_all add: ends_last[OF raw(4)])
  qed
qed

definition jetton_transfer_ok :: "jetton_transfer \<Rightarrow> bool" where
  "jetton_transfer_ok t \<longleftrightarrow> grams_ok (jt_amount t) \<and> msg_address_ok (jt_destination t) \<and> msg_address_ok (jt_response_destination t)
     \<and> pred_option plain_cell (jt_custom_payload t) \<and> grams_ok (jt_forward_ton_amount t) \<and> forward_ok (jt_forward_payload t)"

definition jetton_transfer_bits :: "jetton_transfer \<Rightarrow> bool list" where
  "jetton_transfer_bits t = nat_bits 32 (unat JETTON_TRANSFER_OP) @ nat_bits 64 (unat (jt_query_id t)) @ var_enc 4 (jt_amount t)
     @ msg_address_bits (jt_destination t) @ msg_address_bits (jt_response_destination t) @ custom_bits (jt_custom_payload t)
     @ var_enc 4 (jt_forward_ton_amount t) @ forward_bits (jt_forward_payload t)"

definition jetton_transfer_refs :: "jetton_transfer \<Rightarrow> cell list" where
  "jetton_transfer_refs t = custom_refs (jt_custom_payload t) @ forward_refs (jt_forward_payload t)"

definition jetton_burn_ok :: "jetton_burn \<Rightarrow> bool" where
  "jetton_burn_ok t \<longleftrightarrow> grams_ok (jb_amount t) \<and> msg_address_ok (jb_response_destination t) \<and> pred_option plain_cell (jb_custom_payload t)"

definition jetton_burn_bits :: "jetton_burn \<Rightarrow> bool list" where
  "jetton_burn_bits t = nat_bits 32 (unat JETTON_BURN_OP) @ nat_bits 64 (unat (jb_query_id t)) @ var_enc 4 (jb_amount t)
     @ msg_address_bits (jb_response_destination t) @ custom_bits (jb_custom_payload t)"

definition jetton_internal_ok :: "jetton_internal_transfer \<Rightarrow> bool" where
  "jetton_internal_ok t \<longleftrightarrow> grams_ok (ji_amount t) \<and> msg_address_ok (ji_from t) \<and> msg_address_ok (ji_response_address t)
     \<and> grams_ok (ji_forward_ton_amount t) \<and> forward_ok (ji_forward_payload t)"

definition jetton_internal_bits :: "jetton_internal_transfer \<Rightarrow> bool list" where
  "jetton_internal_bits t = nat_bits 32 (unat JETTON_INTERNAL_TRANSFER_OP) @ nat_bits 64 (unat (ji_query_id t)) @ var_enc 4 (ji_amount t)
     @ msg_address_bits (ji_from t) @ msg_address_bits (ji_response_address t) @ var_enc 4 (ji_forward_ton_amount t)
     @ forward_bits (ji_forward_payload t)"

definition nft_transfer_ok :: "nft_transfer \<Rightarrow> bool" where
  "nft_transfer_ok t \<longleftrightarrow> msg_address_ok (nt_new_owner t) \<and> msg_address_ok (nt_response_destination t)
     \<and> pred_option plain_cell (nt_custom_payload t) \<and> grams_ok (nt_forward_amount t) \<and> forward_ok (nt_forward_payload t)"

definition nft_transfer_bits :: "nft_transfer \<Rightarrow> bool list" where
  "nft_transfer_bits t = nat_bits 32 (unat NFT_TRANSFER_OP) @ nat_bits 64 (unat (nt_query_id t)) @ msg_address_bits (nt_new_owner t)
     @ msg_address_bits (nt_response_destination t) @ custom_bits (nt_custom_payload t) @ var_enc 4 (nt_forward_amount t)
     @ forward_bits (nt_forward_payload t)"

definition nft_transfer_refs :: "nft_transfer \<Rightarrow> cell list" where
  "nft_transfer_refs t = custom_refs (nt_custom_payload t) @ forward_refs (nt_forward_payload t)"

definition ownership_assigned_bits :: "nft_ownership_assigned \<Rightarrow> bool list" where
  "ownership_assigned_bits t = nat_bits 32 (unat NFT_OWNERSHIP_ASSIGNED_OP) @ nat_bits 64 (unat (no_query_id t))
     @ msg_address_bits (no_prev_owner t) @ forward_bits (no_forward_payload t)"

definition report_static_data_bits :: "nft_report_static_data \<Rightarrow> bool list" where
  "report_static_data_bits t = nat_bits 32 (unat NFT_REPORT_STATIC_DATA_OP) @ nat_bits 64 (unat (ns_query_id t))
     @ nat_bits 256 (ns_index t) @ msg_address_bits (ns_collection t)"

definition report_royalty_bits :: "nft_report_royalty \<Rightarrow> bool list" where
  "report_royalty_bits t = nat_bits 32 (unat NFT_REPORT_ROYALTY_PARAMS_OP) @ nat_bits 64 (unat (nr_query_id t))
     @ nat_bits 16 (unat (nr_numerator t)) @ nat_bits 16 (unat (nr_denominator t)) @ msg_address_bits (nr_destination t)"

context bignum
begin

lemma expect_op_yields: "yields (expect_op X op schema) () (nat_bits 32 (unat op)) []"
proof -
  have "yields (\<lambda>s. and_then (load_u32 X s) (\<lambda>(actual, s). if actual \<noteq> op then Inl (TlbErr (TlbCustomSchema schema)) else Inr ((), s)))
      () (nat_bits 32 (unat op) @ []) []"
    by (rule yields_bind[OF named_uint_steps(6)[of op]]) (simp_all add: yields_return)
  then show ?thesis by (simp add: expect_op_def[abs_def])
qed

lemma big_uint_steps:
  assumes "n \<le> 1023" "v < 2 ^ n"
  shows "emits (\<lambda>b. store_big_uint X b v n) (nat_bits n v) []" "yields (\<lambda>s. load_big_uint X s n) v (nat_bits n v) []"
  using assms by (cases "n = 0"; auto simp: emits_def yields_def store_big_uint_mk load_big_uint_eq)+

lemmas payload_steps = expect_op_yields big_uint_steps custom_codec[THEN codec_emits] custom_codec[THEN codec_yields]
  forward_codec[THEN tail_codec_steps(1)] forward_codec[THEN tail_codec_steps(2)]

lemma jetton_transfer_codec:
  "tail_codec (store_jetton_transfer X) (load_jetton_transfer X) jetton_transfer_ok jetton_transfer_bits jetton_transfer_refs"
proof (rule tail_codecI)
  fix t assume t: "jetton_transfer_ok t"
  show "emits (\<lambda>b. store_jetton_transfer X b t) (jetton_transfer_bits t) (jetton_transfer_refs t)"
    using t unfolding store_jetton_transfer_def jetton_transfer_ok_def
    by - (rule emits_eq, (rule payload_steps fields | (simp add: jetton_transfer_bits_def jetton_transfer_refs_def; fail))+)
  show "ends (load_jetton_transfer X) t (jetton_transfer_bits t) (jetton_transfer_refs t)"
    using t unfolding load_jetton_transfer_def jetton_transfer_bits_def jetton_transfer_ok_def
    by - (rule ends_last ends_bind payload_steps fields | (simp add: jetton_transfer_refs_def; fail))+
qed

lemma jetton_burn_codec: "value_codec (store_jetton_burn X) (load_jetton_burn X) jetton_burn_ok jetton_burn_bits (\<lambda>t. custom_refs (jb_custom_payload t))"
proof (rule codecI)
  fix t assume t: "jetton_burn_ok t"
  show "emits (\<lambda>b. store_jetton_burn X b t) (jetton_burn_bits t) (custom_refs (jb_custom_payload t))"
    using t unfolding store_jetton_burn_def jetton_burn_ok_def
    by - (rule emits_eq, (rule payload_steps fields | (simp add: jetton_burn_bits_def; fail))+)
  show "yields (load_jetton_burn X) t (jetton_burn_bits t) (custom_refs (jb_custom_payload t))"
    using t unfolding load_jetton_burn_def jetton_burn_bits_def jetton_burn_ok_def
    by - (rule payload_steps fields | (simp; fail))+
qed

lemma jetton_internal_codec: "tail_codec (store_jetton_internal X) (load_jetton_internal X) jetton_internal_ok jetton_internal_bits (\<lambda>t. forward_refs (ji_forward_payload t))"
proof (rule tail_codecI)
  fix t assume t: "jetton_internal_ok t"
  show "emits (\<lambda>b. store_jetton_internal X b t) (jetton_internal_bits t) (forward_refs (ji_forward_payload t))"
    using t unfolding store_jetton_internal_def jetton_internal_ok_def
    by - (rule emits_eq, (rule payload_steps fields | (simp add: jetton_internal_bits_def; fail))+)
  show "ends (load_jetton_internal X) t (jetton_internal_bits t) (forward_refs (ji_forward_payload t))"
    using t unfolding load_jetton_internal_def jetton_internal_bits_def jetton_internal_ok_def
    by - (rule ends_last ends_bind payload_steps fields | (simp; fail))+
qed

lemma nft_transfer_codec: "tail_codec (store_nft_transfer X) (load_nft_transfer X) nft_transfer_ok nft_transfer_bits nft_transfer_refs"
proof (rule tail_codecI)
  fix t assume t: "nft_transfer_ok t"
  show "emits (\<lambda>b. store_nft_transfer X b t) (nft_transfer_bits t) (nft_transfer_refs t)"
    using t unfolding store_nft_transfer_def nft_transfer_ok_def
    by - (rule emits_eq, (rule payload_steps fields | (simp add: nft_transfer_bits_def nft_transfer_refs_def; fail))+)
  show "ends (load_nft_transfer X) t (nft_transfer_bits t) (nft_transfer_refs t)"
    using t unfolding load_nft_transfer_def nft_transfer_bits_def nft_transfer_ok_def
    by - (rule ends_last ends_bind payload_steps fields | (simp add: nft_transfer_refs_def; fail))+
qed

lemma ownership_assigned_codec: "tail_codec (store_ownership_assigned X) (load_ownership_assigned X) (\<lambda>t. msg_address_ok (no_prev_owner t) \<and> forward_ok (no_forward_payload t)) ownership_assigned_bits (\<lambda>t. forward_refs (no_forward_payload t))"
proof (rule tail_codecI)
  fix t :: nft_ownership_assigned assume t: "msg_address_ok (no_prev_owner t) \<and> forward_ok (no_forward_payload t)"
  show "emits (\<lambda>b. store_ownership_assigned X b t) (ownership_assigned_bits t) (forward_refs (no_forward_payload t))"
    using t unfolding store_ownership_assigned_def
    by - (rule emits_eq, (rule payload_steps fields | (simp add: ownership_assigned_bits_def; fail))+)
  show "ends (load_ownership_assigned X) t (ownership_assigned_bits t) (forward_refs (no_forward_payload t))"
    using t unfolding load_ownership_assigned_def ownership_assigned_bits_def
    by - (rule ends_last ends_bind payload_steps fields | (simp; fail))+
qed

lemma report_static_data_codec: "value_codec (store_report_static_data X) (load_report_static_data X) (\<lambda>t. ns_index t < 2 ^ 256 \<and> msg_address_ok (ns_collection t)) report_static_data_bits (\<lambda>t. [])"
proof (rule codecI)
  fix t :: nft_report_static_data assume t: "ns_index t < 2 ^ 256 \<and> msg_address_ok (ns_collection t)"
  show "emits (\<lambda>b. store_report_static_data X b t) (report_static_data_bits t) ([])"
    using t unfolding store_report_static_data_def
    by - (rule emits_eq, (rule payload_steps fields | (simp add: report_static_data_bits_def; fail))+)
  show "yields (load_report_static_data X) t (report_static_data_bits t) ([])"
    using t unfolding load_report_static_data_def report_static_data_bits_def
    by - (rule payload_steps fields | (simp; fail))+
qed

lemma report_royalty_codec: "value_codec (store_report_royalty X) (load_report_royalty X) (\<lambda>t. msg_address_ok (nr_destination t)) report_royalty_bits (\<lambda>t. [])"
proof (rule codecI)
  fix t :: nft_report_royalty assume t: "msg_address_ok (nr_destination t)"
  show "emits (\<lambda>b. store_report_royalty X b t) (report_royalty_bits t) ([])"
    using t unfolding store_report_royalty_def
    by - (rule emits_eq, (rule payload_steps fields | (simp add: report_royalty_bits_def; fail))+)
  show "yields (load_report_royalty X) t (report_royalty_bits t) ([])"
    using t unfolding load_report_royalty_def report_royalty_bits_def
    by - (rule payload_steps fields | (simp; fail))+
qed

text \<open>A reader of another operation.\<close>

lemma expect_op_refuses:
  assumes "wf_cell (mk_cell (nat_bits 32 (unat op) @ bits) refs)" "op \<noteq> other"
  shows "expect_op X other schema (slice_new (mk_cell (nat_bits 32 (unat op) @ bits) refs)) = Inl (TlbErr (TlbCustomSchema schema))"
proof -
  let ?s = "slice_new (mk_cell (nat_bits 32 (unat op) @ bits) refs)"
  have "yields (load_u32 X) op (nat_bits 32 (unat op)) []" by (rule named_uint_steps(6))
  then have "load_u32 X ?s = Inr (op, adv ?s 32 0)"
    using assms(1) by (simp add: yields_def)
  then show ?thesis using assms(2) by (simp add: expect_op_def)
qed

end

section \<open>Properties\<close>

lemma forward_wf: "forward_ok p \<Longrightarrow> list_all wf_cell (forward_refs p)"
  using wf_cell_bounds(4) by (cases p) (auto simp: list_all_iff)

lemma grams_len: "v < 2 ^ 120 \<Longrightarrow> var_len v \<le> 15"
  by (simp add: var_len_le_iff)

text \<open>
  C28: A jetton transfer between standard addresses with a custom payload and a forward payload that is referenced,
  or inline with at most 143 bits and three references, always fits one cell, is read back
  from it unchanged, and the readers of the other operations refuse the cell.  The addresses have the default flags.
\<close>

theorem jetton_transfer_delivered:
  assumes "bignum X" "msg_address_ok (std_address d)" "msg_address_ok (std_address r)" "amount < 2 ^ 120" "ton < 2 ^ 120"
    "plain_cell custom" "forward_ok p" "\<forall>c. p = Inl c \<longrightarrow> length (cell_bits c) \<le> 143 \<and> length (cell_references c) \<le> 3"
  shows "\<exists>t c. and_then (jetton_transfer_new q amount d r) (\<lambda>t. Inr (jt_with_forward_payload (jt_with_custom_payload t custom) ton p)) = Inr t
    \<and> jt_amount t = amount \<and> jt_forward_ton_amount t = ton \<and> jt_custom_payload t = Some custom \<and> jt_forward_payload t = p
    \<and> tlb_to_cell (store_jetton_transfer X) t = Inr c \<and> wf_cell c \<and> tlb_from_cell (load_jetton_transfer X) c = Inr t
    \<and> tlb_from_cell (load_jetton_burn X) c = Inl (TlbErr (TlbCustomSchema ''JettonBurnPayload''))
    \<and> tlb_from_cell (load_jetton_internal X) c = Inl (TlbErr (TlbCustomSchema ''JettonInternalTransferPayload''))
    \<and> tlb_from_cell (load_nft_transfer X) c = Inl (TlbErr (TlbCustomSchema ''NftTransferPayload''))"
proof -
  define t where "t = \<lparr>jt_query_id = q, jt_amount = amount, jt_destination = std_address d, jt_response_destination = std_address r,
      jt_custom_payload = Some custom, jt_forward_ton_amount = ton, jt_forward_payload = p\<rparr>"
  let ?c = "mk_cell (jetton_transfer_bits t) (jetton_transfer_refs t)"
  have new: "and_then (jetton_transfer_new q amount d r) (\<lambda>t. Inr (jt_with_forward_payload (jt_with_custom_payload t custom) ton p)) = Inr t"
    by (simp add: jetton_transfer_new_def empty_forward_payload_def builder_new_eq builder_build_mk inline_forward_payload_def
        jt_with_forward_payload_def jt_with_custom_payload_def t_def)
  have len: "var_len amount \<le> 15" "var_len ton \<le> 15" using assms(4,5) grams_len by blast+
  have ok: "jetton_transfer_ok t" using assms len by (simp add: jetton_transfer_ok_def t_def grams_ok_def)
  have addr: "length (msg_address_bits (std_address a)) = 267" if "msg_address_ok (std_address a)" for a
    using that by (simp add: std_address_def msg_address_std_def maybe_bits_def)
  have bits: "length (jetton_transfer_bits t) \<le> 1023" "length (jetton_transfer_refs t) \<le> 4"
    using len assms(8) addr[OF assms(2)] addr[OF assms(3)]
    by (cases p; simp add: jetton_transfer_bits_def jetton_transfer_refs_def t_def maybe_bits_def maybe_refs_def)+
  have "list_all wf_cell (jetton_transfer_refs t)"
    using assms(6) forward_wf[OF assms(7)] by (simp add: jetton_transfer_refs_def t_def maybe_refs_def)
  with bits have wf: "wf_cell ?c" by (simp add: wf_mk_cell)
  note codec = bignum.jetton_transfer_codec[OF assms(1)]
  have w: "tlb_to_cell (store_jetton_transfer X) t = Inr ?c" "tlb_from_cell (load_jetton_transfer X) ?c = Inr t"
    using tail_codec.to_cell_eq[OF codec ok bits] tail_codec.from_cell_eq[OF codec ok wf] by simp_all
  have refused: "expect_op X other schema (slice_new ?c) = Inl (TlbErr (TlbCustomSchema schema))" if "JETTON_TRANSFER_OP \<noteq> other" for other schema
    using bignum.expect_op_refuses[OF assms(1) _ that] wf by (simp add: jetton_transfer_bits_def)
  have "tlb_from_cell (load_jetton_burn X) ?c = Inl (TlbErr (TlbCustomSchema ''JettonBurnPayload''))"
    "tlb_from_cell (load_jetton_internal X) ?c = Inl (TlbErr (TlbCustomSchema ''JettonInternalTransferPayload''))"
    "tlb_from_cell (load_nft_transfer X) ?c = Inl (TlbErr (TlbCustomSchema ''NftTransferPayload''))"
    using refused[of JETTON_BURN_OP] refused[of JETTON_INTERNAL_TRANSFER_OP] refused[of NFT_TRANSFER_OP]
    by (simp_all add: tlb_from_cell_def load_jetton_burn_def load_jetton_internal_def load_nft_transfer_def
        JETTON_TRANSFER_OP_def JETTON_BURN_OP_def JETTON_INTERNAL_TRANSFER_OP_def NFT_TRANSFER_OP_def)
  then show ?thesis using new w wf by (intro exI[of _ t] exI[of _ ?c]) (simp add: t_def)
qed

theorem jetton_transfer_delivered_witness:
  "\<exists>t c. and_then (jetton_transfer_new 7 1000 (new_address 0 (replicate 32 5)) (new_address 0 (replicate 32 6)))
      (\<lambda>t. Inr (jt_with_forward_payload (jt_with_custom_payload t (mk_cell [True] [])) 1 (inline_forward_payload (mk_cell [True, False] [])))) = Inr t
    \<and> jt_amount t = 1000 \<and> tlb_to_cell (store_jetton_transfer ref_crates) t = Inr c
    \<and> tlb_from_cell (load_jetton_transfer ref_crates) c = Inr t"
proof -
  let ?p = "inline_forward_payload (mk_cell [True, False] [])" and ?c = "mk_cell [True] []"
  have a: "msg_address_ok (std_address (new_address 0 (replicate 32 5)))" "msg_address_ok (std_address (new_address 0 (replicate 32 6)))"
    by (simp_all add: std_address_def msg_address_std_def new_address_def)
  have p: "forward_ok ?p" "\<forall>c. ?p = Inl c \<longrightarrow> length (cell_bits c) \<le> 143 \<and> length (cell_references c) \<le> 3" "plain_cell ?c"
    by (simp_all add: inline_forward_payload_def wf_mk_cell)
  from jetton_transfer_delivered[OF ref_bignum.bignum_axioms a _ _ p(3,1,2), of 1000 1 7] show ?thesis by auto
qed

end
