(* ===== verification/Abi.thy ===== *)
theory Abi
  imports TlbMessage Stack
begin

text \<open>
  Contract interfaces: the types and values of \<open>src/abi/model.rs\<close>, their validation, the conversion of values
  to entries of the TVM stack and back, the message bodies of \<open>src/abi/codec.rs\<close> and the
  dictionaries of \<open>src/abi/map.rs\<close>.

  Every recursion of the code runs along the type, so the converters are primitive recursive on it; the
  loops over fields, values and entries are \<open>store_each\<close>, \<open>load_each\<close>, \<open>collect_results\<close> and \<open>try_fold\<close>.
  A Rust string is the list of its bytes, which are valid UTF-8.  Texts of errors are dropped: \<open>abi_err\<close> is
  \<open>map_err\<close> with a fixed error, through which a panic still passes.
\<close>

section \<open>Types and values\<close>

datatype abi_type =
    TyInt u16 | TyUint u16 | TyBool | TyBytes | TyString | TyAddress | TyCell | TySlice
  | TyTuple "abi_parameter list"
  | TyArray abi_type
  | TyMap abi_type abi_type "u16 option"
  | TyOptional abi_type
  | TyUnknown string
and abi_parameter = Parameter (param_name: string) (param_ty: abi_type) (param_optional: bool)

datatype abi_value =
    VInt int | VUint nat | VBool bool | VBytes bytes | VString bytes | VAddress address | VCell cell | VSlice cell
  | VTuple "abi_value list"
  | VArray "abi_value list"
  | VMap "(abi_value \<times> abi_value) list"
  | VOptional "abi_value option"

datatype function_kind = GetMethod | InternalMessage | ExternalMessage

datatype selector = NoSelector | MethodId u64 | Opcode u32

record abi_function =
  fn_name :: string
  fn_kind :: function_kind
  fn_selector :: selector
  fn_inputs :: "abi_parameter list"
  fn_outputs :: "abi_parameter list"

record abi_event =
  ev_name :: string
  ev_selector :: selector
  ev_fields :: "abi_parameter list"

record abi_contract =
  con_name :: string
  con_methods :: "abi_function list"
  con_events :: "abi_event list"

record abi_definition =
  def_name :: string
  def_version :: string
  def_contracts :: "abi_contract list"

definition ABI_INTEGER_MAX_BITS :: nat where "ABI_INTEGER_MAX_BITS = 257"

section \<open>Validation\<close>

definition abi_err :: "abi_error \<Rightarrow> 'a result \<Rightarrow> 'a result" where
  "abi_err e r = (case r of Inl Panic \<Rightarrow> Inl Panic | Inl OutOfFuel \<Rightarrow> Inl OutOfFuel | Inl _ \<Rightarrow> Inl (AbiErr e) | Inr v \<Rightarrow> Inr v)"

fun check_each :: "unit result list \<Rightarrow> unit result" where
  "check_each [] = Inr ()"
| "check_each (r # rs) = and_then r (\<lambda>_. check_each rs)"

definition ensure_non_empty :: "string \<Rightarrow> string \<Rightarrow> unit result" where
  "ensure_non_empty field v = (if trim v = [] then Inl (AbiErr (AbiEmptyName field)) else Inr ())"

definition validate_integer_width :: "string \<Rightarrow> u16 \<Rightarrow> unit result" where
  "validate_integer_width kind bits =
     (if \<not> (1 \<le> unat bits \<and> unat bits \<le> ABI_INTEGER_MAX_BITS) then Inl (AbiErr (AbiInvalidIntegerWidth kind (unat bits))) else Inr ())"

primrec validate_type :: "abi_type \<Rightarrow> unit result" and validate_parameter :: "abi_parameter \<Rightarrow> unit result" where
  "validate_type (TyInt bits) = validate_integer_width ''int'' bits"
| "validate_type (TyUint bits) = validate_integer_width ''uint'' bits"
| "validate_type TyBool = Inr ()"
| "validate_type TyBytes = Inr ()"
| "validate_type TyString = Inr ()"
| "validate_type TyAddress = Inr ()"
| "validate_type TyCell = Inr ()"
| "validate_type TySlice = Inr ()"
| "validate_type (TyTuple ps) = check_each (map validate_parameter ps)"
| "validate_type (TyArray item) = validate_type item"
| "validate_type (TyMap key val key_bits) = and_then (validate_type key) (\<lambda>_. validate_type val)"
| "validate_type (TyOptional item) = validate_type item"
| "validate_type (TyUnknown name) = ensure_non_empty ''unknown type name'' name"
| "validate_parameter (Parameter name ty opt) = and_then (ensure_non_empty ''parameter name'' name) (\<lambda>_. validate_type ty)"

definition validate_function :: "abi_function \<Rightarrow> unit result" where
  "validate_function f =
     and_then (ensure_non_empty ''function name'' (fn_name f)) (\<lambda>_.
     and_then (check_each (map validate_parameter (fn_inputs f))) (\<lambda>_.
     check_each (map validate_parameter (fn_outputs f))))"

definition validate_event :: "abi_event \<Rightarrow> unit result" where
  "validate_event e =
     and_then (ensure_non_empty ''event name'' (ev_name e)) (\<lambda>_. check_each (map validate_parameter (ev_fields e)))"

definition validate_contract :: "abi_contract \<Rightarrow> unit result" where
  "validate_contract c =
     and_then (ensure_non_empty ''contract name'' (con_name c)) (\<lambda>_.
     and_then (check_each (map validate_function (con_methods c))) (\<lambda>_.
     check_each (map validate_event (con_events c))))"

definition validate_definition :: "abi_definition \<Rightarrow> unit result" where
  "validate_definition d =
     and_then (ensure_non_empty ''ABI definition name'' (def_name d)) (\<lambda>_.
     and_then (ensure_non_empty ''ABI definition version'' (def_version d)) (\<lambda>_.
     check_each (map validate_contract (def_contracts d))))"

section \<open>Helpers of the codecs\<close>

definition validate_integer_width_codec :: "string \<Rightarrow> u16 \<Rightarrow> unit result" where
  "validate_integer_width_codec kind bits =
     (if \<not> (1 \<le> unat bits \<and> unat bits \<le> ABI_INTEGER_MAX_BITS) then Inl (AbiErr (AbiInvalidIntegerWidth kind (unat bits))) else Inr ())"

definition ensure_signed_range :: "int \<Rightarrow> u16 \<Rightarrow> unit result" where
  "ensure_signed_range v bits =
     (let lo = - (2 ^ (unat bits - 1)); hi = 2 ^ (unat bits - 1) - 1 in
      if v < lo \<or> hi < v then Inl (AbiErr (AbiIntegerOutOfRange ''int'' (unat bits) v)) else Inr ())"

definition ensure_unsigned_range :: "nat \<Rightarrow> u16 \<Rightarrow> unit result" where
  "ensure_unsigned_range v bits =
     (if 2 ^ unat bits \<le> v then Inl (AbiErr (AbiIntegerOutOfRange ''uint'' (unat bits) (int v))) else Inr ())"

fun abi_type_name :: "abi_type \<Rightarrow> string" where
  "abi_type_name (TyInt _) = ''int''"
| "abi_type_name (TyUint _) = ''uint''"
| "abi_type_name TyBool = ''bool''"
| "abi_type_name TyBytes = ''bytes''"
| "abi_type_name TyString = ''string''"
| "abi_type_name TyAddress = ''address''"
| "abi_type_name TyCell = ''cell''"
| "abi_type_name TySlice = ''slice''"
| "abi_type_name (TyTuple _) = ''tuple''"
| "abi_type_name (TyArray _) = ''array''"
| "abi_type_name (TyMap _ _ _) = ''map''"
| "abi_type_name (TyOptional _) = ''optional''"
| "abi_type_name (TyUnknown _) = ''unknown''"

fun abi_value_name :: "abi_value \<Rightarrow> string" where
  "abi_value_name (VInt _) = ''int''"
| "abi_value_name (VUint _) = ''uint''"
| "abi_value_name (VBool _) = ''bool''"
| "abi_value_name (VBytes _) = ''bytes''"
| "abi_value_name (VString _) = ''string''"
| "abi_value_name (VAddress _) = ''address''"
| "abi_value_name (VCell _) = ''cell''"
| "abi_value_name (VSlice _) = ''slice''"
| "abi_value_name (VTuple _) = ''tuple''"
| "abi_value_name (VArray _) = ''array''"
| "abi_value_name (VMap _) = ''map''"
| "abi_value_name (VOptional _) = ''optional''"

fun stack_entry_name :: "stack_entry \<Rightarrow> string" where
  "stack_entry_name StackNull = ''null''"
| "stack_entry_name (StackInt _) = ''integer''"
| "stack_entry_name (StackCell _) = ''cell''"
| "stack_entry_name (StackSlice _) = ''slice''"
| "stack_entry_name (StackTuple _) = ''tuple''"
| "stack_entry_name (StackList _) = ''list''"
| "stack_entry_name (StackUnsupported _) = ''unsupported''"

definition abi_mismatch :: "abi_type \<Rightarrow> abi_value \<Rightarrow> 'a result" where
  "abi_mismatch ty v = Inl (AbiErr (AbiTypeMismatch (abi_type_name ty) (abi_value_name v)))"

definition snake_cell :: "bytes \<Rightarrow> cell result" where
  "snake_cell bs =
     and_then (abi_err AbiMalformedSnake (store_snake_bytes builder_new bs)) (\<lambda>b.
     abi_err AbiMalformedSnake (builder_build b))"

lemma abi_err_InrD: "abi_err e r = Inr v \<Longrightarrow> r = Inr v"
  by (auto simp: abi_err_def split: sum.splits error.splits)

lemma sl_cell_load_bytes: "load_bytes s n = Inr (bs, s') \<Longrightarrow> sl_cell s' = sl_cell s"
  by (auto simp: load_bytes_def load_bits_def Let_def dest!: sl_cell_load_bits_loop split: if_splits)

function read_snake_cell_into :: "cell \<Rightarrow> bytes \<Rightarrow> bytes result" where
  "read_snake_cell_into c bs =
     (let s = slice_new c in
      if remaining_bits s mod 8 \<noteq> 0 then Inl (AbiErr AbiMalformedSnake)
      else
        let byte_len = remaining_bits s div 8 in
        and_then (abi_err AbiMalformedSnake (load_bytes s byte_len)) (\<lambda>(loaded, s).
        let bs = bs @ loaded in
        if remaining_refs s = 0 then Inr bs
        else if remaining_refs s = 1 then
          and_then (abi_err AbiMalformedSnake (load_reference s)) (\<lambda>(next, s). read_snake_cell_into next bs)
        else Inl (AbiErr AbiMalformedSnake)))"
  by pat_completeness auto
termination
  by (relation "measure (\<lambda>(c, _). size c)") (auto dest!: load_reference_size sl_cell_load_bytes abi_err_InrD simp: slice_new_def)

declare read_snake_cell_into.simps [simp del]

definition read_snake_cell :: "cell \<Rightarrow> bytes result" where
  "read_snake_cell c = read_snake_cell_into c []"

text \<open>\<open>String::from_utf8\<close>: the well-formed byte sequences of the Unicode standard.\<close>

definition utf8_cont :: "u8 \<Rightarrow> bool" where
  "utf8_cont b \<longleftrightarrow> 0x80 \<le> b \<and> b \<le> 0xBF"

fun utf8_valid :: "bytes \<Rightarrow> bool" where
  "utf8_valid [] \<longleftrightarrow> True"
| "utf8_valid (b # bs) \<longleftrightarrow>
     (if b \<le> 0x7F then utf8_valid bs
      else if 0xC2 \<le> b \<and> b \<le> 0xDF then (case bs of b2 # r \<Rightarrow> utf8_cont b2 \<and> utf8_valid r | _ \<Rightarrow> False)
      else if 0xE0 \<le> b \<and> b \<le> 0xEF then
        (case bs of b2 # b3 # r \<Rightarrow>
           (if b = 0xE0 then 0xA0 \<le> b2 \<and> b2 \<le> 0xBF else if b = 0xED then 0x80 \<le> b2 \<and> b2 \<le> 0x9F else utf8_cont b2)
           \<and> utf8_cont b3 \<and> utf8_valid r
         | _ \<Rightarrow> False)
      else if 0xF0 \<le> b \<and> b \<le> 0xF4 then
        (case bs of b2 # b3 # b4 # r \<Rightarrow>
           (if b = 0xF0 then 0x90 \<le> b2 \<and> b2 \<le> 0xBF else if b = 0xF4 then 0x80 \<le> b2 \<and> b2 \<le> 0x8F else utf8_cont b2)
           \<and> utf8_cont b3 \<and> utf8_cont b4 \<and> utf8_valid r
         | _ \<Rightarrow> False)
      else False)"

definition from_utf8 :: "bytes \<Rightarrow> bytes result" where
  "from_utf8 bs = (if utf8_valid bs then Inr bs else Inl (AbiErr AbiInvalidUtf8))"

definition address_slice_cell :: "crates \<Rightarrow> address \<Rightarrow> cell result" where
  "address_slice_cell X a = abi_err AbiMalformedAddress (tlb_to_cell (store_msg_address_int X) (msg_address_std a))"

definition std_internal :: "msg_address_int \<Rightarrow> address result" where
  "std_internal m = (case m of
      AddrStd None a \<Rightarrow> Inr a
    | AddrStd (Some _) _ \<Rightarrow> Inl (AbiErr AbiMalformedAddress)
    | AddrVar _ _ _ _ \<Rightarrow> Inl (AbiErr AbiMalformedAddress))"

definition decode_address_slice :: "crates \<Rightarrow> cell \<Rightarrow> address result" where
  "decode_address_slice X c =
     and_then (abi_err AbiMalformedAddress (load_msg_address X (slice_new c))) (\<lambda>(m, s).
     if \<not> slice_is_empty s then Inl (AbiErr AbiMalformedAddress)
     else case m of AddrInt a \<Rightarrow> std_internal a | AddrExt _ \<Rightarrow> Inl (AbiErr AbiMalformedAddress))"

definition stack_int :: "stack_entry \<Rightarrow> string \<Rightarrow> int result" where
  "stack_int e expected = (case e of StackInt v \<Rightarrow> Inr v | other \<Rightarrow> Inl (AbiErr (AbiTypeMismatch expected (stack_entry_name other))))"

definition stack_cell :: "stack_entry \<Rightarrow> string \<Rightarrow> cell result" where
  "stack_cell e expected = (case e of StackCell c \<Rightarrow> Inr c | other \<Rightarrow> Inl (AbiErr (AbiTypeMismatch expected (stack_entry_name other))))"

definition stack_slice :: "stack_entry \<Rightarrow> string \<Rightarrow> cell result" where
  "stack_slice e expected = (case e of StackSlice c \<Rightarrow> Inr c | other \<Rightarrow> Inl (AbiErr (AbiTypeMismatch expected (stack_entry_name other))))"

text \<open>\<open>collect::<Result<Vec<_>, _>>\<close>: the values, or the first error.\<close>

fun collect_results :: "'a result list \<Rightarrow> 'a list result" where
  "collect_results [] = Inr []"
| "collect_results (r # rs) = and_then r (\<lambda>v. and_then (collect_results rs) (\<lambda>vs. Inr (v # vs)))"

section \<open>Dictionaries\<close>

text \<open>
  The value type of a map is an ABI type again, so the writer and the reader of the values are arguments here.
\<close>

definition map_key_bits :: "abi_type \<Rightarrow> u16 option \<Rightarrow> u16 result" where
  "map_key_bits key_ty explicit =
     and_then (case key_ty of TyInt bits \<Rightarrow> Inr (''int'', bits) | TyUint bits \<Rightarrow> Inr (''uint'', bits)
       | other \<Rightarrow> Inl (AbiErr (AbiUnsupportedMapKey (abi_type_name other)))) (\<lambda>(kind, bits).
     and_then (validate_integer_width_codec kind bits) (\<lambda>_.
     case explicit of
       None \<Rightarrow> Inr bits
     | Some actual \<Rightarrow>
         and_then (validate_integer_width_codec ''map key'' actual) (\<lambda>_.
         if actual \<noteq> bits then Inl (AbiErr (AbiInvalidMapKeyBits kind (unat bits) (unat actual))) else Inr bits)))"

definition abi_map_key_to_bit_key :: "crates \<Rightarrow> abi_type \<Rightarrow> abi_value \<Rightarrow> u16 \<Rightarrow> bit_key result" where
  "abi_map_key_to_bit_key X key_ty key key_bits =
     and_then (case key_ty of
         TyInt bits \<Rightarrow> (case key of
           VInt v \<Rightarrow>
             and_then (validate_integer_width_codec ''int'' bits) (\<lambda>_.
             and_then (ensure_signed_range v bits) (\<lambda>_.
             abi_err AbiMalformedBody (store_big_int X builder_new v (unat key_bits))))
         | _ \<Rightarrow> abi_mismatch key_ty key)
       | TyUint bits \<Rightarrow> (case key of
           VUint v \<Rightarrow>
             and_then (validate_integer_width_codec ''uint'' bits) (\<lambda>_.
             and_then (ensure_unsigned_range v bits) (\<lambda>_.
             abi_err AbiMalformedBody (store_big_uint X builder_new v (unat key_bits))))
         | _ \<Rightarrow> abi_mismatch key_ty key)
       | other \<Rightarrow> Inl (AbiErr (AbiUnsupportedMapKey (abi_type_name other)))) (\<lambda>b.
     and_then (abi_err AbiMalformedBody (builder_build b)) (\<lambda>c.
     abi_err AbiMalformedBody (bit_key_new (cell_data c) (unat key_bits))))"

definition bit_key_to_abi_map_key :: "crates \<Rightarrow> abi_type \<Rightarrow> bit_key \<Rightarrow> abi_value result" where
  "bit_key_to_abi_map_key X key_ty key =
     and_then (abi_err AbiMalformedBody (store_bits builder_new (bk_data key) (bk_bit_len key))) (\<lambda>b.
     and_then (abi_err AbiMalformedBody (builder_build b)) (\<lambda>c.
     let s = slice_new c in
     case key_ty of
       TyInt bits \<Rightarrow> and_then (abi_err AbiMalformedBody (load_big_int X s (unat bits))) (\<lambda>(v, _). Inr (VInt v))
     | TyUint bits \<Rightarrow> and_then (abi_err AbiMalformedBody (load_big_uint X s (unat bits))) (\<lambda>(v, _). Inr (VUint v))
     | other \<Rightarrow> Inl (AbiErr (AbiUnsupportedMapKey (abi_type_name other)))))"

definition encode_map_value_cell :: "(builder \<Rightarrow> abi_value \<Rightarrow> builder result) \<Rightarrow> abi_value \<Rightarrow> cell result" where
  "encode_map_value_cell store_value v =
     and_then (store_value builder_new v) (\<lambda>b. abi_err AbiMalformedBody (builder_build b))"

definition decode_map_value_cell :: "(slice \<Rightarrow> (abi_value \<times> slice) result) \<Rightarrow> cell \<Rightarrow> abi_value result" where
  "decode_map_value_cell load_value c =
     and_then (load_value (slice_new c)) (\<lambda>(v, s).
     if \<not> slice_is_empty s then Inl (AbiErr AbiMalformedBody) else Inr v)"

definition insert_map_entry ::
    "crates \<Rightarrow> (builder \<Rightarrow> abi_value \<Rightarrow> builder result) \<Rightarrow> abi_type \<Rightarrow> u16 \<Rightarrow> cell hashmap_e \<Rightarrow> abi_value \<times> abi_value \<Rightarrow> cell hashmap_e result" where
  "insert_map_entry X store_value key_ty key_bits dict = (\<lambda>(key, v).
     and_then (abi_map_key_to_bit_key X key_ty key key_bits) (\<lambda>bit_key.
     and_then (encode_map_value_cell store_value v) (\<lambda>value_cell.
     and_then (abi_err AbiMalformedBody (insert_bit_key dict bit_key value_cell)) (\<lambda>(old, dict).
     if old \<noteq> None then Inl (AbiErr (AbiDuplicateMapKey (bk_data bit_key))) else Inr dict))))"

definition encode_map_cell ::
    "crates \<Rightarrow> (builder \<Rightarrow> abi_value \<Rightarrow> builder result) \<Rightarrow> abi_type \<Rightarrow> u16 option \<Rightarrow> (abi_value \<times> abi_value) list \<Rightarrow> cell result" where
  "encode_map_cell X store_value key_ty explicit entries =
     and_then (map_key_bits key_ty explicit) (\<lambda>key_bits.
     and_then (try_fold (insert_map_entry X store_value key_ty key_bits) (hashmap_e_new (unat key_bits)) entries) (\<lambda>dict.
     and_then (abi_err AbiMalformedBody (store_hashmap_e_with builder_new dict store_ref)) (\<lambda>b.
     abi_err AbiMalformedBody (builder_build b))))"

definition decode_map_cell ::
    "crates \<Rightarrow> (slice \<Rightarrow> (abi_value \<times> slice) result) \<Rightarrow> abi_type \<Rightarrow> u16 option \<Rightarrow> cell \<Rightarrow> (abi_value \<times> abi_value) list result" where
  "decode_map_cell X load_value key_ty explicit c =
     and_then (map_key_bits key_ty explicit) (\<lambda>key_bits.
     and_then (abi_err AbiMalformedBody (load_hashmap_e_with (slice_new c) (unat key_bits) load_reference)) (\<lambda>(dict, s).
     if \<not> slice_is_empty s then Inl (AbiErr AbiMalformedBody)
     else collect_results (map (\<lambda>(key, value_cell).
       and_then (bit_key_to_abi_map_key X key_ty key) (\<lambda>k.
       and_then (decode_map_value_cell load_value value_cell) (\<lambda>v. Inr (k, v)))) (he_map dict))))"

section \<open>Values in message bodies\<close>

text \<open>
  The loops over the fields of a tuple and over the parameters of a function are the same, \<open>store_fields\<close> and
  \<open>load_fields\<close>; the number of values is checked before them.
\<close>

definition store_body_ref :: "builder \<Rightarrow> cell \<Rightarrow> builder result" where
  "store_body_ref b c = abi_err AbiMalformedBody (store_ref b c)"

definition load_body_ref :: "slice \<Rightarrow> (cell \<times> slice) result" where
  "load_body_ref s = abi_err AbiMalformedBody (load_reference s)"

fun store_body_value :: "crates \<Rightarrow> builder \<Rightarrow> abi_type \<Rightarrow> abi_value \<Rightarrow> builder result"
  and store_fields :: "crates \<Rightarrow> builder \<Rightarrow> abi_parameter list \<Rightarrow> abi_value list \<Rightarrow> builder result" where
  "store_body_value X b (TyInt bits) v = (case v of
      VInt i \<Rightarrow>
        and_then (validate_integer_width_codec ''int'' bits) (\<lambda>_.
        and_then (ensure_signed_range i bits) (\<lambda>_.
        abi_err AbiMalformedBody (store_big_int X b i (unat bits))))
    | _ \<Rightarrow> abi_mismatch (TyInt bits) v)"
| "store_body_value X b (TyUint bits) v = (case v of
      VUint n \<Rightarrow>
        and_then (validate_integer_width_codec ''uint'' bits) (\<lambda>_.
        and_then (ensure_unsigned_range n bits) (\<lambda>_.
        abi_err AbiMalformedBody (store_big_uint X b n (unat bits))))
    | _ \<Rightarrow> abi_mismatch (TyUint bits) v)"
| "store_body_value X b TyBool v = (case v of
      VBool x \<Rightarrow> abi_err AbiMalformedBody (store_bit b x)
    | _ \<Rightarrow> abi_mismatch TyBool v)"
| "store_body_value X b TyBytes v = (case v of
      VBytes bs \<Rightarrow> and_then (snake_cell bs) (store_body_ref b)
    | _ \<Rightarrow> abi_mismatch TyBytes v)"
| "store_body_value X b TyString v = (case v of
      VString bs \<Rightarrow> and_then (snake_cell bs) (store_body_ref b)
    | _ \<Rightarrow> abi_mismatch TyString v)"
| "store_body_value X b TyAddress v = (case v of
      VAddress a \<Rightarrow> abi_err AbiMalformedBody (store_msg_address_int X b (msg_address_std a))
    | _ \<Rightarrow> abi_mismatch TyAddress v)"
| "store_body_value X b TyCell v = (case v of
      VCell c \<Rightarrow> store_body_ref b c
    | _ \<Rightarrow> abi_mismatch TyCell v)"
| "store_body_value X b TySlice v = (case v of
      VSlice c \<Rightarrow> store_body_ref b c
    | _ \<Rightarrow> abi_mismatch TySlice v)"
| "store_body_value X b (TyTuple ps) v = (case v of
      VTuple vs \<Rightarrow>
        if length ps \<noteq> length vs then Inl (AbiErr (AbiArityMismatch ''tuple'' (length ps) (length vs)))
        else store_fields X b ps vs
    | _ \<Rightarrow> abi_mismatch (TyTuple ps) v)"
| "store_body_value X b (TyArray item) v = Inl (AbiErr (AbiUnsupportedType ''array''))"
| "store_body_value X b (TyMap key val key_bits) v = (case v of
      VMap entries \<Rightarrow>
        and_then (encode_map_cell X (\<lambda>b v. store_body_value X b val v) key key_bits entries) (store_body_ref b)
    | _ \<Rightarrow> abi_mismatch (TyMap key val key_bits) v)"
| "store_body_value X b (TyOptional item) v = (case v of
      VOptional None \<Rightarrow> abi_err AbiMalformedBody (store_bit b False)
    | VOptional (Some w) \<Rightarrow>
        and_then (abi_err AbiMalformedBody (store_bit b True)) (\<lambda>b. store_body_value X b item w)
    | _ \<Rightarrow> abi_mismatch (TyOptional item) v)"
| "store_body_value X b (TyUnknown name) v = Inl (AbiErr (AbiUnsupportedType ''unknown''))"
| "store_fields X b (Parameter name ty opt # ps) (v # vs) =
     and_then (store_body_value X b ty v) (\<lambda>b. store_fields X b ps vs)"
| "store_fields X b [] vs = Inr b"
| "store_fields X b ps [] = Inr b"

fun load_body_value :: "crates \<Rightarrow> abi_type \<Rightarrow> slice \<Rightarrow> (abi_value \<times> slice) result"
  and load_fields :: "crates \<Rightarrow> abi_parameter list \<Rightarrow> slice \<Rightarrow> (abi_value list \<times> slice) result" where
  "load_body_value X (TyInt bits) s =
     and_then (validate_integer_width_codec ''int'' bits) (\<lambda>_.
     and_then (abi_err AbiMalformedBody (load_big_int X s (unat bits))) (\<lambda>(i, s).
     and_then (ensure_signed_range i bits) (\<lambda>_. Inr (VInt i, s))))"
| "load_body_value X (TyUint bits) s =
     and_then (validate_integer_width_codec ''uint'' bits) (\<lambda>_.
     and_then (abi_err AbiMalformedBody (load_big_uint X s (unat bits))) (\<lambda>(n, s).
     and_then (ensure_unsigned_range n bits) (\<lambda>_. Inr (VUint n, s))))"
| "load_body_value X TyBool s =
     and_then (abi_err AbiMalformedBody (load_bit s)) (\<lambda>(x, s). Inr (VBool x, s))"
| "load_body_value X TyBytes s =
     and_then (load_body_ref s) (\<lambda>(c, s). and_then (read_snake_cell c) (\<lambda>bs. Inr (VBytes bs, s)))"
| "load_body_value X TyString s =
     and_then (load_body_ref s) (\<lambda>(c, s).
     and_then (read_snake_cell c) (\<lambda>bs.
     and_then (from_utf8 bs) (\<lambda>str. Inr (VString str, s))))"
| "load_body_value X TyAddress s =
     and_then (abi_err AbiMalformedBody (load_msg_address_int X s)) (\<lambda>(m, s).
     and_then (std_internal m) (\<lambda>a. Inr (VAddress a, s)))"
| "load_body_value X TyCell s = and_then (load_body_ref s) (\<lambda>(c, s). Inr (VCell c, s))"
| "load_body_value X TySlice s = and_then (load_body_ref s) (\<lambda>(c, s). Inr (VSlice c, s))"
| "load_body_value X (TyTuple ps) s = and_then (load_fields X ps s) (\<lambda>(vs, s). Inr (VTuple vs, s))"
| "load_body_value X (TyArray item) s = Inl (AbiErr (AbiUnsupportedType ''array''))"
| "load_body_value X (TyMap key val key_bits) s =
     and_then (load_body_ref s) (\<lambda>(c, s).
     and_then (decode_map_cell X (\<lambda>s. load_body_value X val s) key key_bits c) (\<lambda>entries. Inr (VMap entries, s)))"
| "load_body_value X (TyOptional item) s =
     and_then (abi_err AbiMalformedBody (load_bit s)) (\<lambda>(has_value, s).
     if has_value then and_then (load_body_value X item s) (\<lambda>(v, s). Inr (VOptional (Some v), s))
     else Inr (VOptional None, s))"
| "load_body_value X (TyUnknown name) s = Inl (AbiErr (AbiUnsupportedType ''unknown''))"
| "load_fields X [] s = Inr ([], s)"
| "load_fields X (Parameter name ty opt # ps) s =
     and_then (load_body_value X ty s) (\<lambda>(v, s).
     and_then (load_fields X ps s) (\<lambda>(vs, s). Inr (v # vs, s)))"

section \<open>Values on the stack\<close>

fun abi_value_to_stack_entry :: "crates \<Rightarrow> abi_value \<Rightarrow> abi_type \<Rightarrow> stack_entry result"
  and fields_to_stack :: "crates \<Rightarrow> abi_value list \<Rightarrow> abi_parameter list \<Rightarrow> stack_entry list result" where
  "abi_value_to_stack_entry X v (TyInt bits) = (case v of
      VInt i \<Rightarrow>
        and_then (validate_integer_width_codec ''int'' bits) (\<lambda>_.
        and_then (ensure_signed_range i bits) (\<lambda>_. Inr (StackInt i)))
    | _ \<Rightarrow> abi_mismatch (TyInt bits) v)"
| "abi_value_to_stack_entry X v (TyUint bits) = (case v of
      VUint n \<Rightarrow>
        and_then (validate_integer_width_codec ''uint'' bits) (\<lambda>_.
        and_then (ensure_unsigned_range n bits) (\<lambda>_. Inr (StackInt (int n))))
    | _ \<Rightarrow> abi_mismatch (TyUint bits) v)"
| "abi_value_to_stack_entry X v TyBool = (case v of
      VBool x \<Rightarrow> Inr (StackInt (if x then - 1 else 0))
    | _ \<Rightarrow> abi_mismatch TyBool v)"
| "abi_value_to_stack_entry X v TyBytes = (case v of
      VBytes bs \<Rightarrow> and_then (snake_cell bs) (\<lambda>c. Inr (StackCell c))
    | _ \<Rightarrow> abi_mismatch TyBytes v)"
| "abi_value_to_stack_entry X v TyString = (case v of
      VString bs \<Rightarrow> and_then (snake_cell bs) (\<lambda>c. Inr (StackCell c))
    | _ \<Rightarrow> abi_mismatch TyString v)"
| "abi_value_to_stack_entry X v TyAddress = (case v of
      VAddress a \<Rightarrow> and_then (address_slice_cell X a) (\<lambda>c. Inr (StackSlice c))
    | _ \<Rightarrow> abi_mismatch TyAddress v)"
| "abi_value_to_stack_entry X v TyCell = (case v of
      VCell c \<Rightarrow> Inr (StackCell c)
    | _ \<Rightarrow> abi_mismatch TyCell v)"
| "abi_value_to_stack_entry X v TySlice = (case v of
      VSlice c \<Rightarrow> Inr (StackSlice c)
    | _ \<Rightarrow> abi_mismatch TySlice v)"
| "abi_value_to_stack_entry X v (TyTuple ps) = (case v of
      VTuple vs \<Rightarrow>
        if length ps \<noteq> length vs then Inl (AbiErr (AbiArityMismatch ''tuple'' (length ps) (length vs)))
        else and_then (fields_to_stack X vs ps) (\<lambda>es. Inr (StackTuple es))
    | _ \<Rightarrow> abi_mismatch (TyTuple ps) v)"
| "abi_value_to_stack_entry X v (TyArray item) = (case v of
      VArray vs \<Rightarrow>
        and_then (collect_results (map (\<lambda>w. abi_value_to_stack_entry X w item) vs)) (\<lambda>es. Inr (StackList es))
    | _ \<Rightarrow> abi_mismatch (TyArray item) v)"
| "abi_value_to_stack_entry X v (TyOptional item) = (case v of
      VOptional None \<Rightarrow> Inr StackNull
    | VOptional (Some w) \<Rightarrow> abi_value_to_stack_entry X w item
    | _ \<Rightarrow> abi_mismatch (TyOptional item) v)"
| "abi_value_to_stack_entry X v (TyMap key val key_bits) = (case v of
      VMap entries \<Rightarrow>
        and_then (encode_map_cell X (\<lambda>b v. store_body_value X b val v) key key_bits entries) (\<lambda>c. Inr (StackCell c))
    | _ \<Rightarrow> abi_mismatch (TyMap key val key_bits) v)"
| "abi_value_to_stack_entry X v (TyUnknown name) = Inl (AbiErr (AbiUnsupportedType ''unknown''))"
| "fields_to_stack X (v # vs) (Parameter name ty opt # ps) =
     and_then (abi_value_to_stack_entry X v ty) (\<lambda>e. and_then (fields_to_stack X vs ps) (\<lambda>es. Inr (e # es)))"
| "fields_to_stack X vs [] = Inr []"
| "fields_to_stack X [] ps = Inr []"

fun abi_value_from_stack_entry :: "crates \<Rightarrow> abi_type \<Rightarrow> stack_entry \<Rightarrow> abi_value result"
  and fields_from_stack :: "crates \<Rightarrow> abi_parameter list \<Rightarrow> stack_entry list \<Rightarrow> abi_value list result" where
  "abi_value_from_stack_entry X (TyInt bits) e =
     and_then (validate_integer_width_codec ''int'' bits) (\<lambda>_.
     and_then (stack_int e ''int'') (\<lambda>i.
     and_then (ensure_signed_range i bits) (\<lambda>_. Inr (VInt i))))"
| "abi_value_from_stack_entry X (TyUint bits) e =
     and_then (validate_integer_width_codec ''uint'' bits) (\<lambda>_.
     and_then (stack_int e ''uint'') (\<lambda>i.
     if i < 0 then Inl (AbiErr (AbiIntegerOutOfRange ''uint'' (unat bits) i))
     else and_then (ensure_unsigned_range (nat i) bits) (\<lambda>_. Inr (VUint (nat i)))))"
| "abi_value_from_stack_entry X TyBool e =
     and_then (stack_int e ''bool'') (\<lambda>i.
     if i = - 1 then Inr (VBool True)
     else if i = 0 then Inr (VBool False)
     else Inl (AbiErr (AbiInvalidBool i)))"
| "abi_value_from_stack_entry X TyBytes e =
     and_then (stack_cell e ''bytes'') (\<lambda>c. and_then (read_snake_cell c) (\<lambda>bs. Inr (VBytes bs)))"
| "abi_value_from_stack_entry X TyString e =
     and_then (stack_cell e ''string'') (\<lambda>c.
     and_then (read_snake_cell c) (\<lambda>bs. and_then (from_utf8 bs) (\<lambda>str. Inr (VString str))))"
| "abi_value_from_stack_entry X TyAddress e =
     and_then (stack_slice e ''address'') (\<lambda>c. and_then (decode_address_slice X c) (\<lambda>a. Inr (VAddress a)))"
| "abi_value_from_stack_entry X TyCell e = and_then (stack_cell e ''cell'') (\<lambda>c. Inr (VCell c))"
| "abi_value_from_stack_entry X TySlice e = and_then (stack_slice e ''slice'') (\<lambda>c. Inr (VSlice c))"
| "abi_value_from_stack_entry X (TyTuple ps) e = (case e of
      StackTuple es \<Rightarrow>
        if length ps \<noteq> length es then Inl (AbiErr (AbiArityMismatch ''tuple'' (length ps) (length es)))
        else and_then (fields_from_stack X ps es) (\<lambda>vs. Inr (VTuple vs))
    | other \<Rightarrow> Inl (AbiErr (AbiTypeMismatch ''tuple'' (stack_entry_name other))))"
| "abi_value_from_stack_entry X (TyArray item) e = (case e of
      StackList es \<Rightarrow>
        and_then (collect_results (map (\<lambda>e. abi_value_from_stack_entry X item e) es)) (\<lambda>vs. Inr (VArray vs))
    | other \<Rightarrow> Inl (AbiErr (AbiTypeMismatch ''list'' (stack_entry_name other))))"
| "abi_value_from_stack_entry X (TyOptional item) e = (case e of
      StackNull \<Rightarrow> Inr (VOptional None)
    | e \<Rightarrow> and_then (abi_value_from_stack_entry X item e) (\<lambda>v. Inr (VOptional (Some v))))"
| "abi_value_from_stack_entry X (TyMap key val key_bits) e =
     and_then (stack_cell e ''map'') (\<lambda>c.
     and_then (decode_map_cell X (\<lambda>s. load_body_value X val s) key key_bits c) (\<lambda>entries. Inr (VMap entries)))"
| "abi_value_from_stack_entry X (TyUnknown name) e = Inl (AbiErr (AbiUnsupportedType ''unknown''))"
| "fields_from_stack X (Parameter name ty opt # ps) (e # es) =
     and_then (abi_value_from_stack_entry X ty e) (\<lambda>v. and_then (fields_from_stack X ps es) (\<lambda>vs. Inr (v # vs)))"
| "fields_from_stack X [] es = Inr []"
| "fields_from_stack X ps [] = Inr []"

section \<open>Calls, bodies and events\<close>

definition ensure_message_function :: "abi_function \<Rightarrow> unit result" where
  "ensure_message_function f = (case (fn_kind f, fn_selector f) of
      (InternalMessage, NoSelector) \<Rightarrow> Inr ()
    | (ExternalMessage, NoSelector) \<Rightarrow> Inr ()
    | (InternalMessage, Opcode _) \<Rightarrow> Inr ()
    | (ExternalMessage, Opcode _) \<Rightarrow> Inr ()
    | _ \<Rightarrow> Inl (AbiErr AbiInvalidMessageSelector))"

definition ensure_get_method_function :: "abi_function \<Rightarrow> unit result" where
  "ensure_get_method_function f = (case (fn_kind f, fn_selector f) of
      (GetMethod, NoSelector) \<Rightarrow> Inr ()
    | (GetMethod, MethodId _) \<Rightarrow> Inr ()
    | _ \<Rightarrow> Inl (AbiErr AbiInvalidGetMethodSelector))"

definition ensure_event_selector :: "selector \<Rightarrow> unit result" where
  "ensure_event_selector sel = (case sel of
      NoSelector \<Rightarrow> Inr () | Opcode _ \<Rightarrow> Inr () | MethodId _ \<Rightarrow> Inl (AbiErr AbiInvalidEventSelector))"

definition store_selector :: "crates \<Rightarrow> builder \<Rightarrow> selector \<Rightarrow> builder result" where
  "store_selector X b sel = (case sel of
      Opcode op \<Rightarrow> abi_err AbiMalformedBody (store_u32 X b op)
    | _ \<Rightarrow> Inr b)"

definition load_selector :: "crates \<Rightarrow> selector \<Rightarrow> slice \<Rightarrow> (unit \<times> slice) result" where
  "load_selector X sel s = (case sel of
      Opcode expected \<Rightarrow>
        and_then (abi_err AbiMalformedBody (load_u32 X s)) (\<lambda>(actual, s).
        if actual \<noteq> expected then Inl (AbiErr (AbiOpcodeMismatch expected actual)) else Inr ((), s))
    | _ \<Rightarrow> Inr ((), s))"

definition store_payload_components ::
    "crates \<Rightarrow> builder \<Rightarrow> abi_parameter list \<Rightarrow> abi_value list \<Rightarrow> string \<Rightarrow> builder result" where
  "store_payload_components X b ps vs kind =
     (if length ps \<noteq> length vs then Inl (AbiErr (AbiArityMismatch kind (length ps) (length vs)))
      else store_fields X b ps vs)"

definition load_payload_components_exact :: "crates \<Rightarrow> abi_parameter list \<Rightarrow> slice \<Rightarrow> abi_value list result" where
  "load_payload_components_exact X ps s =
     and_then (load_fields X ps s) (\<lambda>(vs, s).
     if \<not> slice_is_empty s then Inl (AbiErr (AbiTrailingBodyData (remaining_bits s) (remaining_refs s))) else Inr vs)"

definition encode_payload_components :: "crates \<Rightarrow> abi_parameter list \<Rightarrow> abi_value list \<Rightarrow> cell result" where
  "encode_payload_components X ps vs =
     and_then (store_payload_components X builder_new ps vs ''payload components'') (\<lambda>b.
     abi_err AbiMalformedBody (builder_build b))"

definition decode_payload_components :: "crates \<Rightarrow> abi_parameter list \<Rightarrow> cell \<Rightarrow> abi_value list result" where
  "decode_payload_components X ps c = load_payload_components_exact X ps (slice_new c)"

definition encode_message_body :: "crates \<Rightarrow> abi_function \<Rightarrow> abi_value list \<Rightarrow> cell result" where
  "encode_message_body X f vs =
     and_then (ensure_message_function f) (\<lambda>_.
     and_then (store_selector X builder_new (fn_selector f)) (\<lambda>b.
     and_then (store_payload_components X b (fn_inputs f) vs ''message inputs'') (\<lambda>b.
     abi_err AbiMalformedBody (builder_build b))))"

definition decode_message_body :: "crates \<Rightarrow> abi_function \<Rightarrow> cell \<Rightarrow> abi_value list result" where
  "decode_message_body X f body =
     and_then (ensure_message_function f) (\<lambda>_.
     and_then (load_selector X (fn_selector f) (slice_new body)) (\<lambda>(_, s).
     load_payload_components_exact X (fn_inputs f) s))"

definition encode_event_payload :: "crates \<Rightarrow> abi_event \<Rightarrow> abi_value list \<Rightarrow> cell result" where
  "encode_event_payload X ev vs =
     and_then (ensure_event_selector (ev_selector ev)) (\<lambda>_.
     and_then (store_selector X builder_new (ev_selector ev)) (\<lambda>b.
     and_then (store_payload_components X b (ev_fields ev) vs ''event fields'') (\<lambda>b.
     abi_err AbiMalformedBody (builder_build b))))"

definition decode_event_payload :: "crates \<Rightarrow> abi_event \<Rightarrow> cell \<Rightarrow> abi_value list result" where
  "decode_event_payload X ev payload =
     and_then (ensure_event_selector (ev_selector ev)) (\<lambda>_.
     and_then (load_selector X (ev_selector ev) (slice_new payload)) (\<lambda>(_, s).
     load_payload_components_exact X (ev_fields ev) s))"

definition encode_get_method_inputs :: "crates \<Rightarrow> abi_function \<Rightarrow> abi_value list \<Rightarrow> stack_entry list result" where
  "encode_get_method_inputs X f vs =
     and_then (ensure_get_method_function f) (\<lambda>_.
     if length (fn_inputs f) \<noteq> length vs
     then Inl (AbiErr (AbiArityMismatch ''get-method inputs'' (length (fn_inputs f)) (length vs)))
     else fields_to_stack X vs (fn_inputs f))"

definition decode_get_method_outputs :: "crates \<Rightarrow> abi_function \<Rightarrow> stack_entry list \<Rightarrow> abi_value list result" where
  "decode_get_method_outputs X f es =
     and_then (ensure_get_method_function f) (\<lambda>_.
     if length (fn_outputs f) \<noteq> length es
     then Inl (AbiErr (AbiArityMismatch ''get-method outputs'' (length (fn_outputs f)) (length es)))
     else fields_from_stack X (fn_outputs f) es)"

end
