(* ===== verification/AbiCodec.thy ===== *)
theory AbiCodec
  imports Abi
begin

text \<open>
  What the codecs of \<open>Abi\<close> promise: a value of its declared type, in range and small enough for a cell, is
  encoded, and decoding gives it back; and whatever a decoder accepts has the declared type.

  Two things are not carried by the formats: the entries of a map come back in the order of their keys' bits, and
  an address comes back with the default flags of a user-friendly address.  \<open>canonical_value\<close> is the value that
  comes back.
\<close>

section \<open>Values of a type\<close>

definition int_fits :: "u16 \<Rightarrow> int \<Rightarrow> bool" where
  "int_fits bits i \<longleftrightarrow> 1 \<le> unat bits \<and> unat bits \<le> 257 \<and> - (2 ^ (unat bits - 1)) \<le> i \<and> i < 2 ^ (unat bits - 1)"

definition uint_fits :: "u16 \<Rightarrow> nat \<Rightarrow> bool" where
  "uint_fits bits n \<longleftrightarrow> 1 \<le> unat bits \<and> unat bits \<le> 257 \<and> n < 2 ^ unat bits"

definition key_type_ok :: "abi_type \<Rightarrow> u16 option \<Rightarrow> bool" where
  "key_type_ok key key_bits \<longleftrightarrow> (case key of
      TyInt bits \<Rightarrow> 1 \<le> unat bits \<and> unat bits \<le> 257 \<and> key_bits \<in> {None, Some bits}
    | TyUint bits \<Rightarrow> 1 \<le> unat bits \<and> unat bits \<le> 257 \<and> key_bits \<in> {None, Some bits}
    | _ \<Rightarrow> False)"

definition key_fits :: "abi_type \<Rightarrow> abi_value \<Rightarrow> bool" where
  "key_fits key k \<longleftrightarrow> (case key of
      TyInt bits \<Rightarrow> (case k of VInt i \<Rightarrow> int_fits bits i | _ \<Rightarrow> False)
    | TyUint bits \<Rightarrow> (case k of VUint n \<Rightarrow> uint_fits bits n | _ \<Rightarrow> False)
    | _ \<Rightarrow> False)"

definition key_width :: "abi_type \<Rightarrow> u16" where
  "key_width key = (case key of TyInt bits \<Rightarrow> bits | TyUint bits \<Rightarrow> bits | _ \<Rightarrow> 0)"

text \<open>The bits of a key, as a number: dictionaries are ordered by it.\<close>

definition key_code :: "abi_type \<Rightarrow> abi_value \<Rightarrow> nat" where
  "key_code key k = (case k of VInt i \<Rightarrow> nat (i mod 2 ^ unat (key_width key)) | VUint n \<Rightarrow> n | _ \<Rightarrow> 0)"

lemma key_fits_cases [consumes 1]:
  assumes "key_fits key k"
  obtains (int) bits i where "key = TyInt bits" "k = VInt i" "int_fits bits i"
    | (uint) bits n where "key = TyUint bits" "k = VUint n" "uint_fits bits n"
  using assms by (auto simp: key_fits_def split: abi_type.splits abi_value.splits)

lemma key_simps [simp]:
  "key_width (TyInt bits) = bits" "key_width (TyUint bits) = bits"
  "key_code key (VInt i) = nat (i mod 2 ^ unat (key_width key))" "key_code key (VUint n) = n"
  "key_fits (TyInt bits) (VInt i) \<longleftrightarrow> int_fits bits i" "key_fits (TyUint bits) (VUint n) \<longleftrightarrow> uint_fits bits n"
  by (simp_all add: key_width_def key_code_def key_fits_def)

text \<open>The bits and the references a value takes in the cell it is stored in.\<close>

fun body_bits :: "abi_type \<Rightarrow> abi_value \<Rightarrow> nat" and fields_bits :: "abi_parameter list \<Rightarrow> abi_value list \<Rightarrow> nat" where
  "body_bits (TyInt bits) v = unat bits"
| "body_bits (TyUint bits) v = unat bits"
| "body_bits TyBool v = 1"
| "body_bits TyAddress v = 267"
| "body_bits (TyTuple ps) v = (case v of VTuple vs \<Rightarrow> fields_bits ps vs | _ \<Rightarrow> 0)"
| "body_bits (TyOptional item) v = (case v of VOptional (Some w) \<Rightarrow> 1 + body_bits item w | _ \<Rightarrow> 1)"
| "body_bits TyBytes v = 0"
| "body_bits TyString v = 0"
| "body_bits TyCell v = 0"
| "body_bits TySlice v = 0"
| "body_bits (TyArray item) v = 0"
| "body_bits (TyMap key val key_bits) v = 0"
| "body_bits (TyUnknown name) v = 0"
| "fields_bits (Parameter name ty opt # ps) (v # vs) = body_bits ty v + fields_bits ps vs"
| "fields_bits [] vs = 0"
| "fields_bits ps [] = 0"

fun body_refs :: "abi_type \<Rightarrow> abi_value \<Rightarrow> nat" and fields_refs :: "abi_parameter list \<Rightarrow> abi_value list \<Rightarrow> nat" where
  "body_refs TyBytes v = 1"
| "body_refs TyString v = 1"
| "body_refs TyCell v = 1"
| "body_refs TySlice v = 1"
| "body_refs (TyMap key val key_bits) v = 1"
| "body_refs (TyTuple ps) v = (case v of VTuple vs \<Rightarrow> fields_refs ps vs | _ \<Rightarrow> 0)"
| "body_refs (TyOptional item) v = (case v of VOptional (Some w) \<Rightarrow> body_refs item w | _ \<Rightarrow> 0)"
| "body_refs (TyInt bits) v = 0"
| "body_refs (TyUint bits) v = 0"
| "body_refs TyBool v = 0"
| "body_refs TyAddress v = 0"
| "body_refs (TyArray item) v = 0"
| "body_refs (TyUnknown name) v = 0"
| "fields_refs (Parameter name ty opt # ps) (v # vs) = body_refs ty v + fields_refs ps vs"
| "fields_refs [] vs = 0"
| "fields_refs ps [] = 0"

fun selector_bits :: "selector \<Rightarrow> nat" where
  "selector_bits (Opcode op) = 32"
| "selector_bits NoSelector = 0"
| "selector_bits (MethodId m) = 0"

text \<open>The values a message body can carry.\<close>

fun body_ok :: "abi_type \<Rightarrow> abi_value \<Rightarrow> bool" and fields_ok :: "abi_parameter list \<Rightarrow> abi_value list \<Rightarrow> bool" where
  "body_ok (TyInt bits) v \<longleftrightarrow> (case v of VInt i \<Rightarrow> int_fits bits i | _ \<Rightarrow> False)"
| "body_ok (TyUint bits) v \<longleftrightarrow> (case v of VUint n \<Rightarrow> uint_fits bits n | _ \<Rightarrow> False)"
| "body_ok TyBool v \<longleftrightarrow> (case v of VBool _ \<Rightarrow> True | _ \<Rightarrow> False)"
| "body_ok TyBytes v \<longleftrightarrow> (case v of VBytes _ \<Rightarrow> True | _ \<Rightarrow> False)"
| "body_ok TyString v \<longleftrightarrow> (case v of VString bs \<Rightarrow> utf8_valid bs | _ \<Rightarrow> False)"
| "body_ok TyAddress v \<longleftrightarrow> (case v of VAddress a \<Rightarrow> length (hash_part a) = 32 | _ \<Rightarrow> False)"
| "body_ok TyCell v \<longleftrightarrow> (case v of VCell c \<Rightarrow> wf_cell c | _ \<Rightarrow> False)"
| "body_ok TySlice v \<longleftrightarrow> (case v of VSlice c \<Rightarrow> wf_cell c | _ \<Rightarrow> False)"
| "body_ok (TyTuple ps) v \<longleftrightarrow> (case v of VTuple vs \<Rightarrow> fields_ok ps vs | _ \<Rightarrow> False)"
| "body_ok (TyArray item) v \<longleftrightarrow> False"
| "body_ok (TyMap key val key_bits) v \<longleftrightarrow> (case v of
      VMap entries \<Rightarrow> key_type_ok key key_bits \<and> distinct (map (key_code key \<circ> fst) entries)
        \<and> list_all (\<lambda>(k, w). key_fits key k \<and> body_ok val w \<and> body_bits val w \<le> 1023 \<and> body_refs val w \<le> 4) entries
    | _ \<Rightarrow> False)"
| "body_ok (TyOptional item) v \<longleftrightarrow> (case v of VOptional None \<Rightarrow> True | VOptional (Some w) \<Rightarrow> body_ok item w | _ \<Rightarrow> False)"
| "body_ok (TyUnknown name) v \<longleftrightarrow> False"
| "fields_ok [] vs \<longleftrightarrow> vs = []"
| "fields_ok (Parameter name ty opt # ps) vs \<longleftrightarrow> (case vs of [] \<Rightarrow> False | v # vs \<Rightarrow> body_ok ty v \<and> fields_ok ps vs)"

text \<open>The value that comes back.\<close>

fun canonical_value :: "abi_type \<Rightarrow> abi_value \<Rightarrow> abi_value"
  and canonical_fields :: "abi_parameter list \<Rightarrow> abi_value list \<Rightarrow> abi_value list" where
  "canonical_value TyAddress v = (case v of VAddress a \<Rightarrow> VAddress (new_address (workchain a) (hash_part a)) | _ \<Rightarrow> v)"
| "canonical_value (TyTuple ps) v = (case v of VTuple vs \<Rightarrow> VTuple (canonical_fields ps vs) | _ \<Rightarrow> v)"
| "canonical_value (TyArray item) v = (case v of VArray vs \<Rightarrow> VArray (map (canonical_value item) vs) | _ \<Rightarrow> v)"
| "canonical_value (TyMap key val key_bits) v = (case v of
      VMap entries \<Rightarrow> VMap (map (\<lambda>(k, w). (k, canonical_value val w)) (sort_key (key_code key \<circ> fst) entries))
    | _ \<Rightarrow> v)"
| "canonical_value (TyOptional item) v = (case v of VOptional (Some w) \<Rightarrow> VOptional (Some (canonical_value item w)) | _ \<Rightarrow> v)"
| "canonical_value (TyInt bits) v = v"
| "canonical_value (TyUint bits) v = v"
| "canonical_value TyBool v = v"
| "canonical_value TyBytes v = v"
| "canonical_value TyString v = v"
| "canonical_value TyCell v = v"
| "canonical_value TySlice v = v"
| "canonical_value (TyUnknown name) v = v"
| "canonical_fields (Parameter name ty opt # ps) (v # vs) = canonical_value ty v # canonical_fields ps vs"
| "canonical_fields [] vs = []"
| "canonical_fields ps [] = []"

section \<open>Writers and readers that agree\<close>

definition transports ::
    "(builder \<Rightarrow> builder result) \<Rightarrow> (slice \<Rightarrow> ('a \<times> slice) result) \<Rightarrow> 'a \<Rightarrow> nat \<Rightarrow> nat \<Rightarrow> bool" where
  "transports st ld v m n \<longleftrightarrow> (\<exists>ys qs. length ys = m \<and> length qs = n \<and> list_all wf_cell qs \<and> emits st ys qs \<and> yields ld v ys qs)"

lemma transportsI:
  "emits st ys qs \<Longrightarrow> yields ld v ys qs \<Longrightarrow> length ys = m \<Longrightarrow> length qs = n \<Longrightarrow> list_all wf_cell qs \<Longrightarrow> transports st ld v m n"
  by (auto simp: transports_def)

lemma transports_seq:
  assumes "transports st ld v m n" "transports st' ld' w m' n'"
  shows "transports (\<lambda>b. and_then (st b) st') (\<lambda>s. and_then (ld s) (\<lambda>(v, s). and_then (ld' s) (\<lambda>(w, s). Inr (h v w, s))))
    (h v w) (m + m') (n + n')"
proof -
  from assms(1) obtain ys qs where a: "length ys = m" "length qs = n" "list_all wf_cell qs" "emits st ys qs" "yields ld v ys qs"
    by (auto simp: transports_def)
  from assms(2) obtain ys' qs' where b: "length ys' = m'" "length qs' = n'" "list_all wf_cell qs'" "emits st' ys' qs'"
    "yields ld' w ys' qs'" by (auto simp: transports_def)
  show ?thesis
  proof (rule transportsI)
    show "emits (\<lambda>b. and_then (st b) st') (ys @ ys') (qs @ qs')" by (rule emits_bind[OF a(4) b(4)])
    show "yields (\<lambda>s. and_then (ld s) (\<lambda>(v, s). and_then (ld' s) (\<lambda>(w, s). Inr (h v w, s)))) (h v w) (ys @ ys') (qs @ qs')"
      by (rule yields_bind[OF a(5)]) (rule yields_last_eq[OF b(5)], rule refl)
  qed (use a b in simp_all)
qed

lemma transports_reader:
  "transports st ld v m n \<Longrightarrow> (\<And>ys qs. yields ld v ys qs \<Longrightarrow> yields ld' w ys qs) \<Longrightarrow> transports st ld' w m n"
  unfolding transports_def by blast

lemma transports_last: "transports st ld v m n \<Longrightarrow> transports st (\<lambda>s. and_then (ld s) (\<lambda>(v, s). Inr (h v, s))) (h v) m n"
  by (erule transports_reader) (rule yields_last_eq)

lemma transports_guarded:
  assumes "transports st ld v m n" "\<And>b. st' b = st b" "\<And>s s'. ld s = Inr (v, s') \<Longrightarrow> ld' s = Inr (w, s')"
  shows "transports st' ld' w m n"
proof -
  have "st' = st" using assms(2) by (rule ext)
  with assms(1) have "transports st' ld v m n" by simp
  then show ?thesis by (rule transports_reader) (simp add: yields_def assms(3))
qed

lemma transports_nil: "transports Inr (\<lambda>s. Inr (v, s)) v 0 0"
  by (rule transportsI[of _ "[]" "[]"]) (simp_all add: emits_def yields_def)

lemma transports_cell:
  assumes "transports st ld v m n" "m \<le> 1023" "n \<le> 4"
  shows "\<exists>c. and_then (st builder_new) builder_build = Inr c \<and> wf_cell c
    \<and> (\<exists>s. ld (slice_new c) = Inr (v, s) \<and> slice_is_empty s)"
proof -
  from assms(1) obtain ys qs where a: "length ys = m" "length qs = n" "list_all wf_cell qs" "emits st ys qs" "yields ld v ys qs"
    by (auto simp: transports_def)
  let ?c = "mk_cell ys qs"
  have wf: "wf_cell ?c" using a assms by (simp add: wf_mk_cell)
  have "st (mk_b [] []) = Inr (mk_b ys qs)" using a(1,2,4) assms(2,3) by (simp add: emits_def)
  then have "and_then (st builder_new) builder_build = Inr ?c" using a assms by (simp add: builder_new_eq builder_build_mk)
  moreover have "ld (slice_new ?c) = Inr (v, adv (slice_new ?c) m n)"
    using yields_ends[OF a(5)] a(1,2) wf by (simp add: ends_def)
  moreover have "slice_is_empty (adv (slice_new ?c) m n)" using a wf by (simp add: slice_is_empty_eq wf_adv)
  ultimately show ?thesis using wf by blast
qed

lemma abi_err_Inr [simp]: "abi_err e (Inr v) = Inr v"
  by (simp add: abi_err_def)

lemma abi_err_eq_Inr [simp]: "abi_err e r = Inr v \<longleftrightarrow> r = Inr v"
  by (auto dest: abi_err_InrD)

lemma emits_abi_err: "emits f ys qs \<Longrightarrow> emits (\<lambda>b. abi_err e (f b)) ys qs"
  by (simp add: emits_def)

lemma yields_abi_err: "yields f v ys qs \<Longrightarrow> yields (\<lambda>s. abi_err e (f s)) v ys qs"
  by (simp add: yields_def)

lemma transports_abi_err: "transports f g v m n \<Longrightarrow> transports (\<lambda>b. abi_err e (f b)) (\<lambda>s. abi_err e' (g s)) v m n"
  by (auto simp: transports_def intro!: emits_abi_err yields_abi_err)

lemma body_ref_transports: "wf_cell c \<Longrightarrow> transports (\<lambda>b. store_body_ref b c) load_body_ref c 0 1"
  by (rule transportsI[of _ "[]" "[c]"])
    (simp_all add: store_body_ref_def load_body_ref_def[abs_def] emits_abi_err yields_abi_err ref_steps)

text \<open>A value in a cell of its own, behind a reference.\<close>

lemma ref_value_transports:
  assumes "enc = Inr c" "wf_cell c" "dec c = Inr v"
  shows "transports (\<lambda>b. and_then enc (store_body_ref b)) (\<lambda>s. and_then (load_body_ref s) (\<lambda>(c, s). and_then (dec c) (\<lambda>w. Inr (h w, s))))
    (h v) 0 1"
proof -
  have "transports (\<lambda>b. and_then enc (store_body_ref b)) load_body_ref c 0 1"
    using body_ref_transports[OF assms(2)] assms(1) by simp
  then show ?thesis by (rule transports_reader) (use assms(3) in \<open>simp add: yields_def\<close>)
qed

section \<open>Texts\<close>

lemma available_new: "available_bytes builder_new = 127"
  by (simp add: builder_new_eq available_bytes_def)

lemma read_snake_leaf:
  "wf_cell (mk_cell (bytes_bits bs) []) \<Longrightarrow> read_snake_cell_into (mk_cell (bytes_bits bs) []) acc = Inr (acc @ bs)"
  by (subst read_snake_cell_into.simps) (simp add: Let_def remaining_bits_eq remaining_refs_eq load_bytes_eq)

lemma read_snake_link:
  "wf_cell (mk_cell (bytes_bits bs) [c]) \<Longrightarrow>
    read_snake_cell_into (mk_cell (bytes_bits bs) [c]) acc = read_snake_cell_into c (acc @ bs)"
  by (subst read_snake_cell_into.simps) (simp add: Let_def remaining_bits_eq remaining_refs_eq load_bytes_eq load_reference_eq)

lemma snake_cell_reads:
  "\<exists>c. and_then (store_snake_bytes builder_new bs) builder_build = Inr c \<and> wf_cell c \<and> (\<forall>acc. read_snake_cell_into c acc = Inr (acc @ bs))"
proof (induction bs rule: length_induct)
  case (1 bs)
  show ?case
  proof (cases "length bs \<le> 127")
    case True
    let ?c = "mk_cell (bytes_bits bs) []"
    have "store_snake_bytes builder_new bs = Inr (mk_b (bytes_bits bs) [])"
      using True by (subst store_snake_bytes.simps) (auto simp: available_new Let_def, auto simp: builder_new_eq store_bytes_mk)
    moreover have "wf_cell ?c" using True by (simp add: wf_mk_cell)
    ultimately show ?thesis using True by (simp add: builder_build_mk read_snake_leaf)
  next
    case False
    then obtain c where c: "and_then (store_snake_bytes builder_new (drop 127 bs)) builder_build = Inr c" "wf_cell c"
        "read_snake_cell_into c acc = Inr (acc @ drop 127 bs)" for acc
      using 1 by (metis length_drop diff_less zero_less_numeral gr_implies_not_zero not_gr_zero le0)
    let ?bs = "take 127 bs" and ?c = "mk_cell (bytes_bits (take 127 bs)) [c]"
    have "store_snake_bytes builder_new bs = Inr (mk_b (bytes_bits ?bs) [c])"
      using False c(1) by (subst store_snake_bytes.simps)
        (auto simp: available_new Let_def and_then_eq_Inr, auto simp: builder_new_eq store_bytes_mk store_ref_mk)
    moreover have "wf_cell ?c" using False c(2) by (simp add: wf_mk_cell)
    ultimately show ?thesis using False c(3) by (simp add: builder_build_mk read_snake_link)
  qed
qed

lemma snake_cell_roundtrip: "\<exists>c. snake_cell bs = Inr c \<and> wf_cell c \<and> read_snake_cell c = Inr bs"
proof -
  obtain c where "and_then (store_snake_bytes builder_new bs) builder_build = Inr c" "wf_cell c" "read_snake_cell_into c [] = Inr bs"
    using snake_cell_reads[of bs] by (metis append_Nil)
  then show ?thesis by (auto simp: snake_cell_def read_snake_cell_def and_then_eq_Inr)
qed

section \<open>Keys of maps\<close>

lemma width_ok: "validate_integer_width_codec kind bits = Inr () \<longleftrightarrow> 1 \<le> unat bits \<and> unat bits \<le> 257"
  by (simp add: validate_integer_width_codec_def ABI_INTEGER_MAX_BITS_def)

lemma signed_range_ok: "ensure_signed_range i bits = Inr () \<longleftrightarrow> - (2 ^ (unat bits - 1)) \<le> i \<and> i < 2 ^ (unat bits - 1)"
  by (auto simp: ensure_signed_range_def Let_def)

lemma unsigned_range_ok: "ensure_unsigned_range n bits = Inr () \<longleftrightarrow> n < 2 ^ unat bits"
  by (auto simp: ensure_unsigned_range_def)

lemmas range_checks = validate_integer_width_codec_def ABI_INTEGER_MAX_BITS_def ensure_signed_range_def
  ensure_unsigned_range_def int_fits_def uint_fits_def

lemma take_pack: "length xs = n \<Longrightarrow> take n (bytes_bits (pack xs)) = xs"
  by (simp add: bytes_bits_pack)

lemma map_key_bits_ok: "key_type_ok key key_bits \<Longrightarrow> map_key_bits key key_bits = Inr (key_width key)"
  by (auto simp: key_type_ok_def map_key_bits_def range_checks split: abi_type.splits option.splits)

lemma key_width_bounds: "key_type_ok key key_bits \<Longrightarrow> 1 \<le> unat (key_width key) \<and> unat (key_width key) \<le> 257"
  by (auto simp: key_type_ok_def split: abi_type.splits)

lemma key_code_less:
  assumes "key_fits key k"
  shows "key_code key k < 2 ^ unat (key_width key)"
  using assms
proof (cases rule: key_fits_cases)
  case (int bits i)
  have "nat (i mod 2 ^ unat bits) < 2 ^ unat bits" by (simp add: nat_less_iff)
  with int show ?thesis by simp
qed (simp add: uint_fits_def)

definition abi_key :: "abi_type \<Rightarrow> abi_value \<Rightarrow> bit_key" where
  "abi_key key k = mk_key (nat_bits (unat (key_width key)) (key_code key k))"

context bignum
begin

lemma big_uint_transports: "n \<le> 1023 \<Longrightarrow> v < 2 ^ n \<Longrightarrow> transports (\<lambda>b. store_big_uint X b v n) (\<lambda>s. load_big_uint X s n) v n 0"
  by (rule transportsI[of _ "nat_bits n v" "[]"])
    (use codec_emits[OF big_uint.value_codec_axioms, of n v] codec_yields[OF big_uint.value_codec_axioms, of n v] in simp_all)

lemma big_int_transports:
  "0 < n \<Longrightarrow> n \<le> 1023 \<Longrightarrow> - (2 ^ (n - 1)) \<le> v \<Longrightarrow> v < 2 ^ (n - 1) \<Longrightarrow>
    transports (\<lambda>b. store_big_int X b v n) (\<lambda>s. load_big_int X s n) v n 0"
  by (rule transportsI[of _ "nat_bits n (nat (v mod 2 ^ n))" "[]"])
    (use codec_emits[OF big_int.value_codec_axioms, of n v] codec_yields[OF big_int.value_codec_axioms, of n v] in simp_all)

lemma bit_key_of_cell:
  "n \<le> 1023 \<Longrightarrow> and_then (abi_err AbiMalformedBody (builder_build (mk_b (nat_bits n v) []))) (\<lambda>c.
     abi_err AbiMalformedBody (bit_key_new (cell_data c) n)) = Inr (mk_key (nat_bits n v))"
  by (simp add: builder_build_mk bit_key_new_eq take_pack)

lemma abi_key_encodes:
  assumes "key_fits key k"
  shows "abi_map_key_to_bit_key X key k (key_width key) = Inr (abi_key key k)"
  using assms
proof (cases rule: key_fits_cases)
  case (int bits i)
  from int have "1 \<le> unat bits" "unat bits \<le> 257" "- (2 ^ (unat bits - 1)) \<le> i" "i < 2 ^ (unat bits - 1)"
    by (simp_all add: int_fits_def)
  then show ?thesis using int bit_key_of_cell[of "unat bits" "nat (i mod 2 ^ unat bits)"]
    by (simp add: abi_map_key_to_bit_key_def abi_key_def range_checks builder_new_eq store_big_int_mk Let_def)
next
  case (uint bits n)
  then have "1 \<le> unat bits" "unat bits \<le> 257" "n < 2 ^ unat bits" by (simp_all add: uint_fits_def)
  then show ?thesis using uint bit_key_of_cell[of "unat bits" n]
    by (simp add: abi_map_key_to_bit_key_def abi_key_def range_checks builder_new_eq store_big_uint_mk)
qed

lemma abi_key_decodes:
  assumes "key_fits key k"
  shows "bit_key_to_abi_map_key X key (abi_key key k) = Inr k"
  using assms
proof (cases rule: key_fits_cases)
  case (int bits i)
  then show ?thesis using div_ceil_bounds(1)[of "unat bits"]
    by (simp add: bit_key_to_abi_map_key_def abi_key_def int_fits_def builder_new_eq store_bits_mk builder_build_mk
        load_big_int_eq wf_mk_cell signed_val_nat_bits take_pack)
next
  case (uint bits n)
  then show ?thesis using div_ceil_bounds(1)[of "unat bits"]
    by (simp add: bit_key_to_abi_map_key_def abi_key_def uint_fits_def builder_new_eq store_bits_mk builder_build_mk
        load_big_uint_eq wf_mk_cell take_pack)
qed

end

lemma abi_key_less:
  "key_fits key k \<Longrightarrow> key_fits key k' \<Longrightarrow> abi_key key k < abi_key key k' \<longleftrightarrow> key_code key k < key_code key k'"
  using key_code_less[of key k] key_code_less[of key k'] by (simp add: abi_key_def mk_key_less)

lemma abi_key_sel [simp]: "wf_key (abi_key key k)" "bk_bit_len (abi_key key k) = unat (key_width key)"
  by (simp_all add: abi_key_def)

section \<open>Maps\<close>

text \<open>Inserting a fresh key into the sorted entries of the dictionary is insertion by key code.\<close>

lemma btree_insert_insort:
  assumes "\<forall>e \<in> set es. key_fits key (fst e) \<and> key_code key (fst e) \<noteq> key_code key k" "key_fits key k"
  shows "btree_insert (abi_key key k) (vc w) (map (\<lambda>(k, w). (abi_key key k, vc w)) es)
    = map (\<lambda>(k, w). (abi_key key k, vc w)) (insort_key (key_code key \<circ> fst) (k, w) es)"
  using assms
proof (induction es)
  case (Cons e es)
  obtain k' w' where e: "e = (k', w')" by (cases e)
  have k': "key_fits key k'" "key_code key k' \<noteq> key_code key k" using Cons.prems(1) e by auto
  have "abi_key key k < abi_key key k' \<longleftrightarrow> key_code key k < key_code key k'"
    "abi_key key k' < abi_key key k \<longleftrightarrow> key_code key k' < key_code key k"
    using abi_key_less[of key k k'] abi_key_less[of key k' k] k' Cons.prems(2) by simp_all
  then show ?case using Cons e k' by (cases "key_code key k < key_code key k'") auto
qed simp

definition key_sorted :: "abi_type \<Rightarrow> (abi_value \<times> abi_value) list \<Rightarrow> (abi_value \<times> abi_value) list" where
  "key_sorted key entries = sort_key (key_code key \<circ> fst) entries"

definition map_dict :: "abi_type \<Rightarrow> (abi_value \<Rightarrow> cell) \<Rightarrow> (abi_value \<times> abi_value) list \<Rightarrow> cell hashmap_e" where
  "map_dict key vc entries =
     \<lparr>he_key_bits = unat (key_width key), he_map = map (\<lambda>(k, w). (abi_key key k, vc w)) (key_sorted key entries)\<rparr>"

context bignum
begin

lemma insert_map_entry_eq:
  assumes "\<forall>e \<in> set es. key_fits key (fst e) \<and> key_code key (fst e) \<noteq> key_code key k" "key_fits key k"
    "encode_map_value_cell st w = Inr (vc w)"
  shows "insert_map_entry X st key (key_width key)
      \<lparr>he_key_bits = unat (key_width key), he_map = map (\<lambda>(k, w). (abi_key key k, vc w)) es\<rparr> (k, w)
    = Inr \<lparr>he_key_bits = unat (key_width key),
        he_map = map (\<lambda>(k, w). (abi_key key k, vc w)) (insort_key (key_code key \<circ> fst) (k, w) es)\<rparr>"
proof -
  have "abi_key key k \<noteq> abi_key key (fst e)" if "e \<in> set es" for e
    using abi_key_less[of key k "fst e"] abi_key_less[of key "fst e" k] assms(1,2) that
    by (metis less_irrefl linorder_neqE_nat)
  then have "btree_get (abi_key key k) (map (\<lambda>(k, w). (abi_key key k, vc w)) es) = None"
    by (force simp: btree_get_def map_of_eq_None_iff)
  then show ?thesis using assms(2,3) btree_insert_insort[OF assms(1,2), of vc w]
    by (simp add: insert_map_entry_def abi_key_encodes insert_bit_key_def)
qed

lemma insert_map_entries:
  assumes "list_all (\<lambda>(k, w). key_fits key k \<and> encode_map_value_cell st w = Inr (vc w)) entries"
    "distinct (map (key_code key \<circ> fst) (es @ entries))" "\<forall>e \<in> set es. key_fits key (fst e)"
  shows "try_fold (insert_map_entry X st key (key_width key))
      \<lparr>he_key_bits = unat (key_width key), he_map = map (\<lambda>(k, w). (abi_key key k, vc w)) es\<rparr> entries
    = Inr \<lparr>he_key_bits = unat (key_width key),
        he_map = map (\<lambda>(k, w). (abi_key key k, vc w)) (fold (insort_key (key_code key \<circ> fst)) entries es)\<rparr>"
  using assms
proof (induction entries arbitrary: es)
  case (Cons e entries)
  obtain k w where e: "e = (k, w)" by (cases e)
  let ?es = "insort_key (key_code key \<circ> fst) e es"
  have d: "distinct (map (key_code key \<circ> fst) (?es @ entries))"
    using Cons.prems(2) by (auto simp: distinct_map distinct_insort set_insort_key comp_def)
  have f: "\<forall>e \<in> set ?es. key_fits key (fst e)" using Cons.prems(1,3) e by (auto simp: set_insort_key)
  have "try_fold (insert_map_entry X st key (key_width key))
      \<lparr>he_key_bits = unat (key_width key), he_map = map (\<lambda>(k, w). (abi_key key k, vc w)) ?es\<rparr> entries
    = Inr \<lparr>he_key_bits = unat (key_width key),
        he_map = map (\<lambda>(k, w). (abi_key key k, vc w)) (fold (insort_key (key_code key \<circ> fst)) entries ?es)\<rparr>"
    using Cons.prems(1) by (intro Cons.IH[OF _ d f]) simp
  moreover have "\<forall>e' \<in> set es. key_fits key (fst e') \<and> key_code key (fst e') \<noteq> key_code key k"
    using Cons.prems(2,3) e by force
  ultimately show ?case using insert_map_entry_eq[of es key k st w vc] Cons.prems(1) e by (simp add: comp_def)
qed simp

lemma insert_map_entries_new:
  assumes "list_all (\<lambda>(k, w). key_fits key k \<and> encode_map_value_cell st w = Inr (vc w)) entries"
    "distinct (map (key_code key \<circ> fst) entries)"
  shows "try_fold (insert_map_entry X st key (key_width key)) (hashmap_e_new (unat (key_width key))) entries
    = Inr (map_dict key vc entries)"
  using insert_map_entries[of key st vc entries "[]"] assms
  by (simp add: hashmap_e_new_def map_dict_def key_sorted_def sort_key_conv_fold distinct_map)

end

lemma map_dict_wf:
  assumes "list_all (\<lambda>(k, w). key_fits key k) entries" "distinct (map (key_code key \<circ> fst) entries)"
  shows "wf_hashmap (map_dict key vc entries)"
proof -
  let ?es = "key_sorted key entries" and ?f = "key_code key \<circ> fst"
  have es: "list_all (\<lambda>(k, w). key_fits key k) ?es" using assms(1) by (simp add: key_sorted_def list_all_iff)
  have "sorted (map ?f ?es)" "distinct (map ?f ?es)"
    using assms(2) unfolding key_sorted_def by (simp_all add: distinct_map)
  then have "sorted_wrt (<) (map ?f ?es)" by (simp add: strict_sorted_iff)
  then have "sorted_wrt (\<lambda>x y. ?f x < ?f y) ?es" by (simp add: sorted_wrt_map)
  then have "sorted_wrt (\<lambda>x y. abi_key key (fst x) < abi_key key (fst y)) ?es"
  proof (rule sorted_wrt_mono_rel[rotated])
    show "abi_key key (fst x) < abi_key key (fst y)" if "x \<in> set ?es" "y \<in> set ?es" "?f x < ?f y" for x y
      using es that by (auto simp: list_all_iff split_beta abi_key_less)
  qed
  then have "sorted_wrt (<) (map (\<lambda>(k, w). abi_key key k) ?es)" by (simp add: sorted_wrt_map case_prod_unfold)
  then show ?thesis
    by (auto simp: wf_hashmap_def map_dict_def btree_ordered_def case_prod_unfold comp_def)
qed

lemma dict_refs_wf:
  assumes "value_codec store load good encb encr" "dict_ok n good encb encr d"
  shows "list_all wf_cell (dict_refs store d) \<and> length (dict_refs store d) \<le> 1"
proof (cases "he_map d = []")
  case False
  have d: "wf_hashmap d" "he_key_bits d = n" using assms(2) by (simp_all add: dict_ok_def)
  obtain c where "serialize_hashmap_root d store = Inr (Some c)" "wf_cell c"
    using value_codec.hashmap_root_law[OF assms(1) d(1) False, unfolded d(2)] assms(2) unfolding dict_ok_def by blast
  then show ?thesis by (simp add: dict_refs_def)
qed (simp add: dict_refs_def serialize_hashmap_root_def hashmap_e_is_empty_def)

lemma bit_length_257: "n \<le> 257 \<Longrightarrow> bit_length n \<le> 9"
proof -
  assume "n \<le> 257"
  then have "bit_length n \<le> bit_length 257" by (rule bit_length_mono)
  also have "bit_length 257 = 9" by code_simp
  finally show ?thesis .
qed

lemma collect_results_map: "\<forall>x \<in> set xs. f x = Inr (g x) \<Longrightarrow> collect_results (map f xs) = Inr (map g xs)"
  by (induction xs) simp_all

context bignum
begin

lemma map_cell_roundtrip:
  assumes key: "key_type_ok key key_bits" "distinct (map (key_code key \<circ> fst) entries)"
    and vals: "list_all (\<lambda>(k, w). key_fits key k \<and> encode_map_value_cell st w = Inr (vc w) \<and> wf_cell (vc w)
      \<and> decode_map_value_cell ld (vc w) = Inr (f w)) entries"
  shows "\<exists>c. encode_map_cell X st key key_bits entries = Inr c \<and> wf_cell c
    \<and> decode_map_cell X ld key key_bits c = Inr (map (\<lambda>(k, w). (k, f w)) (key_sorted key entries))"
proof -
  let ?n = "unat (key_width key)" and ?d = "map_dict key vc entries"
  have n: "?n \<le> 257" using key_width_bounds[OF key(1)] by simp
  have es: "list_all (\<lambda>(k, w). key_fits key k \<and> wf_cell (vc w) \<and> decode_map_value_cell ld (vc w) = Inr (f w)) (key_sorted key entries)"
    using vals by (auto simp: key_sorted_def list_all_iff)
  have "wf_hashmap ?d" using vals key(2) by (intro map_dict_wf) (auto simp: list_all_iff)
  then have ok: "dict_ok ?n (\<lambda>_. True) (\<lambda>_. []) (\<lambda>c. [c]) ?d"
    using es n bit_length_257[OF n] by (auto simp: dict_ok_def map_dict_def list_all_iff)
  note codec = hashmap_codec[OF ref_codec.value_codec_axioms, of ?n]
  let ?refs = "dict_refs store_ref ?d"
  have refs: "list_all wf_cell ?refs" "length ?refs \<le> 1"
    using dict_refs_wf[OF ref_codec.value_codec_axioms ok] by simp_all
  let ?c = "mk_cell [he_map ?d \<noteq> []] ?refs"
  have wf: "wf_cell ?c" using refs by (simp add: wf_mk_cell)
  have "store_hashmap_e_with builder_new ?d store_ref = Inr (mk_b [he_map ?d \<noteq> []] ?refs)"
    using value_codec.store_appends[OF codec ok, of "[]" "[]"] refs by (simp add: builder_new_eq)
  moreover have "try_fold (insert_map_entry X st key (key_width key)) (hashmap_e_new ?n) entries = Inr ?d"
    using vals key(2) by (intro insert_map_entries_new) (auto simp: list_all_iff)
  ultimately have "encode_map_cell X st key key_bits entries = Inr ?c"
    using refs by (simp add: encode_map_cell_def map_key_bits_ok[OF key(1)] builder_build_mk)
  moreover have "load_hashmap_e_with (slice_new ?c) ?n load_reference = Inr (?d, adv (slice_new ?c) 1 (length ?refs))"
    using value_codec.load_reads[OF codec ok, of "slice_new ?c" "[]" "[]"] wf by simp
  then have "decode_map_cell X ld key key_bits ?c = Inr (map (\<lambda>(k, w). (k, f w)) (key_sorted key entries))"
    using wf es by (simp add: decode_map_cell_def map_key_bits_ok[OF key(1)] slice_is_empty_eq wf_adv)
      (auto simp: map_dict_def list_all_iff abi_key_decodes intro!: collect_results_map)
  ultimately show ?thesis using wf by blast
qed

section \<open>Every value\<close>

text \<open>Induction on types, through the types of the fields of a tuple.\<close>

lemma abi_type_induct [case_names TyInt TyUint TyBool TyBytes TyString TyAddress TyCell TySlice TyTuple TyArray TyMap TyOptional TyUnknown]:
  assumes "\<And>bits. P (TyInt bits)" "\<And>bits. P (TyUint bits)" "P TyBool" "P TyBytes" "P TyString" "P TyAddress" "P TyCell" "P TySlice"
    "\<And>ps. (\<And>p. p \<in> set ps \<Longrightarrow> P (param_ty p)) \<Longrightarrow> P (TyTuple ps)"
    "\<And>item. P item \<Longrightarrow> P (TyArray item)"
    "\<And>key val key_bits. P key \<Longrightarrow> P val \<Longrightarrow> P (TyMap key val key_bits)"
    "\<And>item. P item \<Longrightarrow> P (TyOptional item)"
    "\<And>name. P (TyUnknown name)"
  shows "P ty"
  using assms by (rule abi_type.induct[where ?P2.0 = "\<lambda>p. P (param_ty p)"]) simp_all

lemma fields_ok_length: "fields_ok ps vs \<Longrightarrow> length ps = length vs"
proof (induction ps arbitrary: vs)
  case (Cons p ps)
  then show ?case by (cases p) (auto split: list.splits)
qed simp


lemma map_value_cells:
  assumes "transports (\<lambda>b. st b w) ld w' m n" "m \<le> 1023" "n \<le> 4"
  shows "\<exists>c. encode_map_value_cell st w = Inr c \<and> wf_cell c \<and> decode_map_value_cell ld c = Inr w'"
proof -
  obtain c s where "and_then (st builder_new w) builder_build = Inr c" "wf_cell c" "ld (slice_new c) = Inr (w', s)" "slice_is_empty s"
    using transports_cell[OF assms] by blast
  then show ?thesis by (auto simp: encode_map_value_cell_def decode_map_value_cell_def and_then_eq_Inr)
qed

lemma address_transports:
  assumes "length (hash_part a) = 32"
  shows "transports (\<lambda>b. abi_err e (store_msg_address_int X b (msg_address_std a)))
    (\<lambda>s. and_then (abi_err e' (load_msg_address_int X s)) (\<lambda>(m, s). and_then (std_internal m) (\<lambda>a. Inr (VAddress a, s))))
    (VAddress (new_address (workchain a) (hash_part a))) 267 0"
proof -
  let ?m = "AddrStd None (new_address (workchain a) (hash_part a))"
  have ok: "msg_address_int_ok ?m" using assms by (simp add: new_address_def)
  have st: "store_msg_address_int X b (msg_address_std a) = store_msg_address_int X b ?m" for b
    by (simp add: store_msg_address_int_def msg_address_std_def new_address_def)
  have "transports (\<lambda>b. abi_err e (store_msg_address_int X b ?m)) (\<lambda>s. abi_err e' (load_msg_address_int X s)) ?m 267 0"
    using codec_emits[OF msg_address_int_codec ok] codec_yields[OF msg_address_int_codec ok] assms
    by (intro transports_abi_err transportsI[of _ "msg_address_int_bits ?m" "[]"]) (simp_all add: new_address_def maybe_bits_def)
  then show ?thesis unfolding st by (rule transports_reader) (simp add: yields_def std_internal_def)
qed

lemma map_transports:
  assumes "body_ok (TyMap key val key_bits) (VMap entries)"
    and IH: "\<And>w. body_ok val w \<Longrightarrow> transports (\<lambda>b. store_body_value X b val w) (load_body_value X val) (canonical_value val w) (body_bits val w) (body_refs val w)"
  shows "\<exists>c. encode_map_cell X (\<lambda>b v. store_body_value X b val v) key key_bits entries = Inr c \<and> wf_cell c
    \<and> decode_map_cell X (\<lambda>s. load_body_value X val s) key key_bits c
      = Inr (map (\<lambda>(k, w). (k, canonical_value val w)) (sort_key (key_code key \<circ> fst) entries))"
proof -
  let ?st = "\<lambda>b v. store_body_value X b val v"
  have e: "key_type_ok key key_bits" "distinct (map (key_code key \<circ> fst) entries)"
    "list_all (\<lambda>(k, w). key_fits key k \<and> body_ok val w \<and> body_bits val w \<le> 1023 \<and> body_refs val w \<le> 4) entries"
    using assms(1) by simp_all
  define vc where "vc = (\<lambda>w. projr (encode_map_value_cell ?st w))"
  have vc: "encode_map_value_cell ?st w = Inr (vc w) \<and> wf_cell (vc w)
      \<and> decode_map_value_cell (\<lambda>s. load_body_value X val s) (vc w) = Inr (canonical_value val w)"
    if "body_ok val w" "body_bits val w \<le> 1023" "body_refs val w \<le> 4" for w
    using map_value_cells[of ?st w "\<lambda>s. load_body_value X val s", OF IH[OF that(1)] that(2,3)] by (auto simp: vc_def)
  have "list_all (\<lambda>(k, w). key_fits key k \<and> encode_map_value_cell ?st w = Inr (vc w) \<and> wf_cell (vc w)
      \<and> decode_map_value_cell (\<lambda>s. load_body_value X val s) (vc w) = Inr (canonical_value val w)) entries"
    using e(3) vc by (auto simp: list_all_iff)
  from map_cell_roundtrip[OF e(1,2) this] show ?thesis by (simp add: key_sorted_def)
qed

lemma fields_transports_if:
  assumes "\<And>p v. p \<in> set ps \<Longrightarrow> body_ok (param_ty p) v \<Longrightarrow>
      transports (\<lambda>b. store_body_value X b (param_ty p) v) (load_body_value X (param_ty p))
        (canonical_value (param_ty p) v) (body_bits (param_ty p) v) (body_refs (param_ty p) v)"
    "fields_ok ps vs"
  shows "transports (\<lambda>b. store_fields X b ps vs) (load_fields X ps) (canonical_fields ps vs) (fields_bits ps vs) (fields_refs ps vs)"
  using assms
proof (induction ps arbitrary: vs)
  case Nil
  then show ?case using transports_nil[of "[] :: abi_value list"] by (simp add: transports_def emits_def yields_def)
next
  case (Cons p ps)
  obtain name ty opt where p: "p = Parameter name ty opt" by (cases p)
  obtain w ws where vs: "vs = w # ws" "body_ok ty w" "fields_ok ps ws" using Cons.prems(2) p by (auto split: list.splits)
  have "transports (\<lambda>b. store_body_value X b ty w) (load_body_value X ty) (canonical_value ty w) (body_bits ty w) (body_refs ty w)"
    using Cons.prems(1)[of p w] vs p by simp
  moreover have "transports (\<lambda>b. store_fields X b ps ws) (load_fields X ps) (canonical_fields ps ws) (fields_bits ps ws) (fields_refs ps ws)"
    using Cons.prems(1) vs by (intro Cons.IH) auto
  ultimately show ?case
    using transports_seq[where h = "(#)"] p vs by (simp add: load_fields.simps(2)[abs_def])
qed

lemma text_transports:
  "transports (\<lambda>b. and_then (snake_cell bs) (store_body_ref b))
    (\<lambda>s. and_then (load_body_ref s) (\<lambda>(c, s). and_then (and_then (read_snake_cell c) f) (\<lambda>w. Inr (h w, s)))) (h v) 0 1"
  if "f bs = Inr v"
proof -
  obtain c where "snake_cell bs = Inr c" "wf_cell c" "read_snake_cell c = Inr bs" using snake_cell_roundtrip by blast
  then show ?thesis using that by (intro ref_value_transports[where c = c and dec = "\<lambda>c. and_then (read_snake_cell c) f"]) simp_all
qed

lemma scalar_transports:
  "int_fits bits i \<Longrightarrow> transports (\<lambda>b. store_body_value X b (TyInt bits) (VInt i)) (load_body_value X (TyInt bits)) (VInt i) (unat bits) 0"
  "uint_fits bits n \<Longrightarrow> transports (\<lambda>b. store_body_value X b (TyUint bits) (VUint n)) (load_body_value X (TyUint bits)) (VUint n) (unat bits) 0"
  "transports (\<lambda>b. store_body_value X b TyBool (VBool x)) (load_body_value X TyBool) (VBool x) 1 0"
proof -
  show "transports (\<lambda>b. store_body_value X b (TyInt bits) (VInt i)) (load_body_value X (TyInt bits)) (VInt i) (unat bits) 0"
    if i: "int_fits bits i"
  proof -
    have r: "0 < unat bits" "unat bits \<le> 1023" "- (2 ^ (unat bits - 1)) \<le> i" "i < 2 ^ (unat bits - 1)"
      using i by (simp_all add: int_fits_def)
    have c: "validate_integer_width_codec ''int'' bits = Inr ()" "ensure_signed_range i bits = Inr ()"
      using i by (simp_all add: range_checks Let_def)
    show ?thesis using transports_abi_err[OF big_int_transports[OF r], of AbiMalformedBody AbiMalformedBody]
      by (rule transports_guarded) (simp_all add: c)
  qed
  show "transports (\<lambda>b. store_body_value X b (TyUint bits) (VUint n)) (load_body_value X (TyUint bits)) (VUint n) (unat bits) 0"
    if n: "uint_fits bits n"
  proof -
    have r: "unat bits \<le> 1023" "n < 2 ^ unat bits" using n by (simp_all add: uint_fits_def)
    have c: "validate_integer_width_codec ''uint'' bits = Inr ()" "ensure_unsigned_range n bits = Inr ()"
      using n by (simp_all add: range_checks)
    show ?thesis using transports_abi_err[OF big_uint_transports[OF r], of AbiMalformedBody AbiMalformedBody]
      by (rule transports_guarded) (simp_all add: c)
  qed
  show "transports (\<lambda>b. store_body_value X b TyBool (VBool x)) (load_body_value X TyBool) (VBool x) 1 0"
    by (rule transportsI[of _ "[x]" "[]"])
      (use emits_abi_err[OF bit_steps(1)] yields_abi_err[OF bit_steps(2), of AbiMalformedBody x] in \<open>simp_all add: yields_def\<close>)
qed

lemma body_transports:
  "body_ok ty v \<Longrightarrow> transports (\<lambda>b. store_body_value X b ty v) (load_body_value X ty) (canonical_value ty v) (body_bits ty v) (body_refs ty v)"
proof (induction ty arbitrary: v rule: abi_type_induct)
  case (TyInt bits)
  then obtain i where v: "v = VInt i" "int_fits bits i" by (auto split: abi_value.splits)
  show ?case using scalar_transports(1)[OF v(2)] unfolding v(1) by (simp only: canonical_value.simps body_bits.simps body_refs.simps)
next
  case (TyUint bits)
  then obtain n where v: "v = VUint n" "uint_fits bits n" by (auto split: abi_value.splits)
  show ?case using scalar_transports(2)[OF v(2)] unfolding v(1) by (simp only: canonical_value.simps body_bits.simps body_refs.simps)
next
  case TyBool
  then obtain x where v: "v = VBool x" by (auto split: abi_value.splits)
  show ?case using scalar_transports(3)[of x] unfolding v by (simp only: canonical_value.simps body_bits.simps body_refs.simps)
next
  case TyBytes
  then obtain bs where v: "v = VBytes bs" by (auto split: abi_value.splits)
  have "transports (\<lambda>b. store_body_value X b TyBytes v) (load_body_value X TyBytes) (VBytes bs) 0 1"
    by (rule transports_guarded[OF text_transports[where bs = bs and f = Inr and v = bs and h = VBytes]])
      (auto simp: v and_then_eq_Inr)
  then show ?case by (simp add: v load_body_value.simps[abs_def])
next
  case TyString
  then obtain bs where v: "v = VString bs" "utf8_valid bs" by (auto split: abi_value.splits)
  have "transports (\<lambda>b. store_body_value X b TyString v) (load_body_value X TyString) (VString bs) 0 1"
    by (rule transports_guarded[OF text_transports[where bs = bs and f = from_utf8 and v = bs and h = VString]])
      (auto simp: v and_then_eq_Inr from_utf8_def split: if_splits)
  then show ?case by (simp add: v load_body_value.simps[abs_def])
next
  case TyAddress
  then obtain a where v: "v = VAddress a" "length (hash_part a) = 32" by (auto split: abi_value.splits)
  then show ?case using address_transports[OF v(2), of AbiMalformedBody AbiMalformedBody] by (simp add: load_body_value.simps[abs_def])
next
  case TyCell
  then obtain c where v: "v = VCell c" "wf_cell c" by (auto split: abi_value.splits)
  then show ?case using transports_last[OF body_ref_transports[OF v(2)], of VCell] by (simp add: load_body_value.simps[abs_def])
next
  case TySlice
  then obtain c where v: "v = VSlice c" "wf_cell c" by (auto split: abi_value.splits)
  then show ?case using transports_last[OF body_ref_transports[OF v(2)], of VSlice] by (simp add: load_body_value.simps[abs_def])
next
  case (TyTuple ps)
  then obtain vs where v: "v = VTuple vs" "fields_ok ps vs" by (auto split: abi_value.splits)
  then have len: "length ps = length vs" by (simp add: fields_ok_length)
  have "transports (\<lambda>b. store_fields X b ps vs) (load_fields X ps) (canonical_fields ps vs) (fields_bits ps vs) (fields_refs ps vs)"
    using TyTuple v by (intro fields_transports_if) auto
  then have "transports (\<lambda>b. store_body_value X b (TyTuple ps) v) (load_body_value X (TyTuple ps)) (VTuple (canonical_fields ps vs))
      (fields_bits ps vs) (fields_refs ps vs)"
    by (rule transports_guarded) (simp_all add: v len)
  then show ?case by (simp add: v load_body_value.simps[abs_def])
next
  case (TyArray item)
  then show ?case by simp
next
  case (TyMap key val key_bits)
  then obtain entries where v: "v = VMap entries" by (auto split: abi_value.splits)
  obtain c where c: "encode_map_cell X (\<lambda>b v. store_body_value X b val v) key key_bits entries = Inr c" "wf_cell c"
    "decode_map_cell X (\<lambda>s. load_body_value X val s) key key_bits c
      = Inr (map (\<lambda>(k, w). (k, canonical_value val w)) (sort_key (key_code key \<circ> fst) entries))"
    using map_transports[of key val key_bits entries] TyMap v by blast
  show ?case using ref_value_transports[where h = VMap and dec = "\<lambda>c. decode_map_cell X (\<lambda>s. load_body_value X val s) key key_bits c", OF c] v by (simp add: load_body_value.simps[abs_def])
next
  case (TyOptional item)
  then consider "v = VOptional None" | w where "v = VOptional (Some w)" "body_ok item w"
    by (auto split: abi_value.splits option.splits)
  then show ?case
  proof cases
    case 1
    have "transports (\<lambda>b. store_body_value X b (TyOptional item) v) (load_body_value X (TyOptional item)) (VOptional None) 1 0"
      by (rule transportsI[of _ "[False]" "[]"])
        (use emits_abi_err[OF bit_steps(1)] yields_abi_err[OF bit_steps(2), of AbiMalformedBody False] 1 in \<open>simp_all add: yields_def\<close>)
    then show ?thesis by (simp add: 1 load_body_value.simps[abs_def])
  next
    case (2 w)
    obtain ys qs where a: "length ys = body_bits item w" "length qs = body_refs item w" "list_all wf_cell qs"
      "emits (\<lambda>b. store_body_value X b item w) ys qs" "yields (load_body_value X item) (canonical_value item w) ys qs"
      using TyOptional.IH[OF 2(2)] by (auto simp: transports_def)
    have "transports (\<lambda>b. store_body_value X b (TyOptional item) v) (load_body_value X (TyOptional item))
        (VOptional (Some (canonical_value item w))) (1 + body_bits item w) (body_refs item w)"
    proof (rule transportsI[of _ "[True] @ ys" "[] @ qs"])
      show "emits (\<lambda>b. store_body_value X b (TyOptional item) v) ([True] @ ys) ([] @ qs)"
        using emits_bind[OF emits_abi_err[OF bit_steps(1)] a(4)] by (simp add: 2)
      show "yields (load_body_value X (TyOptional item)) (VOptional (Some (canonical_value item w))) ([True] @ ys) ([] @ qs)"
        unfolding load_body_value.simps[abs_def]
        by (rule yields_bind[OF yields_abi_err[OF bit_steps(2)]], rule yields_if(1), simp, rule yields_last[OF a(5)]) simp_all
    qed (use a in simp_all)
    then show ?thesis by (simp add: 2 load_body_value.simps[abs_def])
  qed
next
  case (TyUnknown name)
  then show ?case by simp
qed

lemma fields_transports:
  "fields_ok ps vs \<Longrightarrow> transports (\<lambda>b. store_fields X b ps vs) (load_fields X ps) (canonical_fields ps vs) (fields_bits ps vs) (fields_refs ps vs)"
  by (intro fields_transports_if body_transports)

lemma selector_transports:
  "(\<And>m. sel \<noteq> MethodId m) \<Longrightarrow> transports (\<lambda>b. store_selector X b sel) (load_selector X sel) () (selector_bits sel) 0"
proof (cases sel)
  case (Opcode op)
  have "transports (\<lambda>b. abi_err AbiMalformedBody (store_u32 X b op)) (\<lambda>s. abi_err AbiMalformedBody (load_u32 X s)) op 32 0"
    by (intro transports_abi_err transportsI[of _ "nat_bits 32 (unat op)" "[]"]) (simp_all add: named_uint_steps)
  then show ?thesis unfolding Opcode selector_bits.simps
    by (rule transports_guarded) (simp_all add: store_selector_def load_selector_def)
qed (use transports_nil[of "()"] in \<open>simp_all add: store_selector_def[abs_def] load_selector_def[abs_def]\<close>)

lemma components_roundtrip:
  assumes "\<And>m. sel \<noteq> MethodId m" "fields_ok ps vs" "selector_bits sel + fields_bits ps vs \<le> 1023" "fields_refs ps vs \<le> 4"
  shows "\<exists>c. and_then (store_selector X builder_new sel) (\<lambda>b. and_then (store_payload_components X b ps vs kind) (\<lambda>b.
        abi_err AbiMalformedBody (builder_build b))) = Inr c \<and> wf_cell c
    \<and> and_then (load_selector X sel (slice_new c)) (\<lambda>(_, s). load_payload_components_exact X ps s) = Inr (canonical_fields ps vs)"
proof -
  have "transports (\<lambda>b. and_then (store_selector X b sel) (\<lambda>b. store_fields X b ps vs))
      (\<lambda>s. and_then (load_selector X sel s) (\<lambda>(u, s). and_then (load_fields X ps s) (\<lambda>(vs, s). Inr (vs, s))))
      (canonical_fields ps vs) (selector_bits sel + fields_bits ps vs) (0 + fields_refs ps vs)"
    using transports_seq[OF selector_transports[OF assms(1)] fields_transports[OF assms(2)], where h = "\<lambda>_ vs. vs"] by simp
  from transports_cell[OF this] assms(3,4) obtain c s where c:
    "and_then (and_then (store_selector X builder_new sel) (\<lambda>b. store_fields X b ps vs)) builder_build = Inr c" "wf_cell c"
    "and_then (load_selector X sel (slice_new c)) (\<lambda>(u, s). and_then (load_fields X ps s) (\<lambda>(vs, s). Inr (vs, s)))
      = Inr (canonical_fields ps vs, s)" "slice_is_empty s"
    by (auto simp: add.commute)
  then show ?thesis
    by (auto simp: store_payload_components_def load_payload_components_exact_def fields_ok_length[OF assms(2)] and_then_eq_Inr)
qed

end

section \<open>Values on the stack\<close>

fun is_optional :: "abi_type \<Rightarrow> bool" where
  "is_optional (TyOptional item) \<longleftrightarrow> True"
| "is_optional ty \<longleftrightarrow> False"

text \<open>
  The values the stack can carry: arrays too, but no optional value directly inside an optional one, since an absent
  value is the null entry and a present one its bare entry.
\<close>

fun stack_ok :: "abi_type \<Rightarrow> abi_value \<Rightarrow> bool" and stack_fields_ok :: "abi_parameter list \<Rightarrow> abi_value list \<Rightarrow> bool" where
  "stack_ok (TyTuple ps) v \<longleftrightarrow> (case v of VTuple vs \<Rightarrow> stack_fields_ok ps vs | _ \<Rightarrow> False)"
| "stack_ok (TyArray item) v \<longleftrightarrow> (case v of VArray vs \<Rightarrow> list_all (stack_ok item) vs | _ \<Rightarrow> False)"
| "stack_ok (TyOptional item) v \<longleftrightarrow> (case v of VOptional None \<Rightarrow> True | VOptional (Some w) \<Rightarrow> \<not> is_optional item \<and> stack_ok item w | _ \<Rightarrow> False)"
| "stack_ok (TyMap key val key_bits) v \<longleftrightarrow> body_ok (TyMap key val key_bits) v"
| "stack_ok (TyInt bits) v \<longleftrightarrow> body_ok (TyInt bits) v"
| "stack_ok (TyUint bits) v \<longleftrightarrow> body_ok (TyUint bits) v"
| "stack_ok TyBool v \<longleftrightarrow> body_ok TyBool v"
| "stack_ok TyBytes v \<longleftrightarrow> body_ok TyBytes v"
| "stack_ok TyString v \<longleftrightarrow> body_ok TyString v"
| "stack_ok TyAddress v \<longleftrightarrow> body_ok TyAddress v"
| "stack_ok TyCell v \<longleftrightarrow> (case v of VCell _ \<Rightarrow> True | _ \<Rightarrow> False)"
| "stack_ok TySlice v \<longleftrightarrow> (case v of VSlice _ \<Rightarrow> True | _ \<Rightarrow> False)"
| "stack_ok (TyUnknown name) v \<longleftrightarrow> False"
| "stack_fields_ok [] vs \<longleftrightarrow> vs = []"
| "stack_fields_ok (Parameter name ty opt # ps) vs \<longleftrightarrow> (case vs of [] \<Rightarrow> False | v # vs \<Rightarrow> stack_ok ty v \<and> stack_fields_ok ps vs)"

lemma stack_fields_ok_length: "stack_fields_ok ps vs \<Longrightarrow> length ps = length vs"
proof (induction ps arbitrary: vs)
  case (Cons p ps)
  then show ?case by (cases p) (auto split: list.splits)
qed simp

context bignum
begin

definition on_stack :: "abi_type \<Rightarrow> abi_value \<Rightarrow> stack_entry \<Rightarrow> bool" where
  "on_stack ty v e \<longleftrightarrow> abi_value_to_stack_entry X v ty = Inr e
     \<and> abi_value_from_stack_entry X ty e = Inr (canonical_value ty v) \<and> (e = StackNull \<longrightarrow> is_optional ty)"

lemma address_on_stack:
  assumes "length (hash_part a) = 32"
  shows "\<exists>c. address_slice_cell X a = Inr c \<and> decode_address_slice X c = Inr (new_address (workchain a) (hash_part a))"
proof -
  let ?m = "AddrStd None (new_address (workchain a) (hash_part a))"
  have ok: "msg_address_ok (AddrInt ?m)" using assms by (simp add: new_address_def)
  have "store_msg_address_int X b (msg_address_std a) = store_msg_address X b (AddrInt ?m)" for b
    by (simp add: store_msg_address_int_def store_msg_address_def msg_address_std_def new_address_def)
  then have st: "tlb_to_cell (store_msg_address_int X) (msg_address_std a) = tlb_to_cell (store_msg_address X) (AddrInt ?m)"
    by (simp add: tlb_to_cell_def)
  have "length (msg_address_bits (AddrInt ?m)) \<le> 1023" using assms by (simp add: new_address_def maybe_bits_def)
  then obtain c where "tlb_to_cell (store_msg_address X) (AddrInt ?m) = Inr c" "tlb_from_cell (load_msg_address X) c = Inr (AddrInt ?m)"
    using tail_codec.cell_roundtrip[OF value_codec_tail[OF msg_address_codec] ok] by auto
  moreover from this(2) obtain s where "load_msg_address X (slice_new c) = Inr (AddrInt ?m, s)" "slice_is_empty s"
    by (auto simp: tlb_from_cell_def ensure_empty_def and_then_eq_Inr split: if_splits)
  ultimately show ?thesis using st
    by (intro exI[of _ c]) (simp add: address_slice_cell_def decode_address_slice_def std_internal_def)
qed

lemma fields_on_stack:
  assumes "\<And>p v. p \<in> set ps \<Longrightarrow> stack_ok (param_ty p) v \<Longrightarrow> \<exists>e. on_stack (param_ty p) v e" "stack_fields_ok ps vs"
  shows "\<exists>es. fields_to_stack X vs ps = Inr es \<and> length es = length ps \<and> fields_from_stack X ps es = Inr (canonical_fields ps vs)"
  using assms
proof (induction ps arbitrary: vs)
  case (Cons p ps)
  obtain name ty opt where p: "p = Parameter name ty opt" by (cases p)
  obtain w ws where vs: "vs = w # ws" "stack_ok ty w" "stack_fields_ok ps ws" using Cons.prems(2) p by (auto split: list.splits)
  obtain e where "on_stack ty w e" using Cons.prems(1)[of p w] vs p by auto
  moreover obtain es where "fields_to_stack X ws ps = Inr es" "length es = length ps" "fields_from_stack X ps es = Inr (canonical_fields ps ws)"
    using Cons.IH[of ws] Cons.prems(1) vs by auto
  ultimately show ?case by (intro exI[of _ "e # es"]) (simp add: vs p on_stack_def)
qed simp

lemma value_on_stack: "stack_ok ty v \<Longrightarrow> \<exists>e. on_stack ty v e"
proof (induction ty arbitrary: v rule: abi_type_induct)
  case (TyTuple ps)
  then obtain vs where v: "v = VTuple vs" "stack_fields_ok ps vs" by (auto split: abi_value.splits)
  then obtain es where "fields_to_stack X vs ps = Inr es" "length es = length ps" "fields_from_stack X ps es = Inr (canonical_fields ps vs)"
    using fields_on_stack[OF TyTuple.IH] by blast
  then show ?case using stack_fields_ok_length[OF v(2)] by (intro exI[of _ "StackTuple es"]) (simp add: v on_stack_def)
next
  case (TyArray item)
  then obtain vs where v: "v = VArray vs" "list_all (stack_ok item) vs" by (auto split: abi_value.splits)
  then have "\<forall>w \<in> set vs. \<exists>e. on_stack item w e" using TyArray.IH by (auto simp: list_all_iff)
  then obtain f where f: "\<forall>w \<in> set vs. on_stack item w (f w)" by metis
  have "collect_results (map (\<lambda>w. abi_value_to_stack_entry X w item) vs) = Inr (map f vs)"
    using f by (intro collect_results_map) (simp add: on_stack_def)
  moreover have "collect_results (map (\<lambda>e. abi_value_from_stack_entry X item e) (map f vs)) = Inr (map (canonical_value item) vs)"
    unfolding map_map comp_def using f by (intro collect_results_map) (simp add: on_stack_def)
  ultimately show ?case by (intro exI[of _ "StackList (map f vs)"]) (simp add: v on_stack_def)
next
  case (TyMap key val key_bits)
  then obtain entries where v: "v = VMap entries" by (auto split: abi_value.splits)
  obtain c where "encode_map_cell X (\<lambda>b v. store_body_value X b val v) key key_bits entries = Inr c"
    "decode_map_cell X (\<lambda>s. load_body_value X val s) key key_bits c
      = Inr (map (\<lambda>(k, w). (k, canonical_value val w)) (sort_key (key_code key \<circ> fst) entries))"
    using map_transports[of key val key_bits entries] body_transports TyMap.prems v by auto
  then show ?case by (intro exI[of _ "StackCell c"]) (simp add: v on_stack_def stack_cell_def)
next
  case (TyOptional item)
  then consider "v = VOptional None" | w e where "v = VOptional (Some w)" "on_stack item w e" "\<not> is_optional item"
    by (fastforce split: abi_value.splits option.splits)
  then show ?case
  proof cases
    case (2 w e)
    then have "e \<noteq> StackNull" by (auto simp: on_stack_def)
    then show ?thesis using 2 by (intro exI[of _ e]) (auto simp: on_stack_def split: stack_entry.splits)
  qed (auto simp: on_stack_def)
next
  case TyBytes
  then obtain bs where v: "v = VBytes bs" by (auto split: abi_value.splits)
  obtain c where "snake_cell bs = Inr c" "read_snake_cell c = Inr bs" using snake_cell_roundtrip by blast
  then show ?case by (auto simp: v on_stack_def stack_cell_def)
next
  case TyString
  then obtain bs where v: "v = VString bs" "utf8_valid bs" by (auto split: abi_value.splits)
  obtain c where "snake_cell bs = Inr c" "read_snake_cell c = Inr bs" using snake_cell_roundtrip by blast
  then show ?case by (auto simp: v on_stack_def stack_cell_def from_utf8_def)
next
  case TyAddress
  then obtain a where v: "v = VAddress a" "length (hash_part a) = 32" by (auto split: abi_value.splits)
  then show ?case using address_on_stack[OF v(2)] by (auto simp: on_stack_def stack_slice_def)
qed (auto simp: on_stack_def[abs_def] stack_int_def stack_cell_def stack_slice_def range_checks Let_def split: abi_value.splits)

end

section \<open>Types of decoded values\<close>

fun has_type :: "abi_type \<Rightarrow> abi_value \<Rightarrow> bool" and fields_typed :: "abi_parameter list \<Rightarrow> abi_value list \<Rightarrow> bool" where
  "has_type (TyInt bits) v \<longleftrightarrow> (case v of VInt i \<Rightarrow> int_fits bits i | _ \<Rightarrow> False)"
| "has_type (TyUint bits) v \<longleftrightarrow> (case v of VUint n \<Rightarrow> uint_fits bits n | _ \<Rightarrow> False)"
| "has_type TyBool v \<longleftrightarrow> (case v of VBool _ \<Rightarrow> True | _ \<Rightarrow> False)"
| "has_type TyBytes v \<longleftrightarrow> (case v of VBytes _ \<Rightarrow> True | _ \<Rightarrow> False)"
| "has_type TyString v \<longleftrightarrow> (case v of VString bs \<Rightarrow> utf8_valid bs | _ \<Rightarrow> False)"
| "has_type TyAddress v \<longleftrightarrow> (case v of VAddress a \<Rightarrow> length (hash_part a) = 32 | _ \<Rightarrow> False)"
| "has_type TyCell v \<longleftrightarrow> (case v of VCell c \<Rightarrow> True | _ \<Rightarrow> False)"
| "has_type TySlice v \<longleftrightarrow> (case v of VSlice c \<Rightarrow> True | _ \<Rightarrow> False)"
| "has_type (TyTuple ps) v \<longleftrightarrow> (case v of VTuple vs \<Rightarrow> fields_typed ps vs | _ \<Rightarrow> False)"
| "has_type (TyArray item) v \<longleftrightarrow> (case v of VArray vs \<Rightarrow> list_all (has_type item) vs | _ \<Rightarrow> False)"
| "has_type (TyMap key val key_bits) v \<longleftrightarrow> (case v of
      VMap entries \<Rightarrow> key_type_ok key key_bits \<and> list_all (\<lambda>(k, w). key_fits key k \<and> has_type val w) entries
    | _ \<Rightarrow> False)"
| "has_type (TyOptional item) v \<longleftrightarrow> (case v of VOptional None \<Rightarrow> True | VOptional (Some w) \<Rightarrow> has_type item w | _ \<Rightarrow> False)"
| "has_type (TyUnknown name) v \<longleftrightarrow> False"
| "fields_typed [] vs \<longleftrightarrow> vs = []"
| "fields_typed (Parameter name ty opt # ps) vs \<longleftrightarrow> (case vs of [] \<Rightarrow> False | v # vs \<Rightarrow> has_type ty v \<and> fields_typed ps vs)"

lemma length_load_bits_loop: "load_bits_loop s i k acc = Inr (bs, s') \<Longrightarrow> length bs = length acc"
proof (induction k arbitrary: s i acc)
  case (Suc k)
  then show ?case by (auto simp: and_then_eq_Inr)
qed simp

lemma length_load_bytes: "load_bytes s n = Inr (bs, s') \<Longrightarrow> length bs = n"
  by (auto simp: load_bytes_def load_bits_def Let_def dest!: length_load_bits_loop split: if_splits)

lemma std_internal_typed:
  assumes "load_msg_address_int X s = Inr (m, s')" "std_internal m = Inr a"
  shows "length (hash_part a) = 32"
proof -
  have m: "m = AddrStd None a" using assms(2) by (auto simp: std_internal_def split: msg_address_int.splits option.splits)
  have "length (hash_part a) = 32" if "load_addr_std X s1 = Inr (AddrStd None a, s')" for s1
    using that by (auto simp: load_addr_std_def and_then_eq_Inr new_address_def dest: length_load_bytes)
  moreover have "load_addr_var X s1 \<noteq> Inr (AddrStd None a, s')" for s1
    by (auto simp: load_addr_var_def and_then_eq_Inr Let_def)
  ultimately show ?thesis using assms(1) unfolding m
    by (auto simp: load_msg_address_int_def and_then_eq_Inr split: if_splits)
qed

lemma signed_val_range: "bs \<noteq> [] \<Longrightarrow> - (2 ^ (length bs - 1)) \<le> signed_val bs \<and> signed_val bs < 2 ^ (length bs - 1)"
proof -
  assume "bs \<noteq> []"
  then obtain n where n: "length bs = Suc n" by (cases bs) auto
  define v where "v = int (bits_val bs)"
  have less: "v < 2 * 2 ^ n" using bits_val_less[of bs] of_nat_less_iff[of "bits_val bs" "2 * 2 ^ n", where ?'a = int] n by (simp add: v_def)
  have half: "2 * bits_val bs < 2 * 2 ^ n \<longleftrightarrow> v < 2 ^ n"
    using of_nat_less_iff[of "2 * bits_val bs" "2 * 2 ^ n", where ?'a = int] by (simp add: v_def)
  have "signed_val bs = (if v < 2 ^ n then v else v - 2 * 2 ^ n)"
    using half by (simp add: signed_val_def n v_def)
  moreover have "0 \<le> v" by (simp add: v_def)
  ultimately show ?thesis using less n by auto
qed

context bignum
begin

lemma decoded_key_fits:
  assumes "bit_key_to_abi_map_key X key k = Inr v" "key_type_ok key key_bits"
  shows "key_fits key v"
proof -
  let ?bs = "take (bk_bit_len k) (bytes_bits (bk_data k))"
  have st: "bk_bit_len k \<le> 1023" "bk_bit_len k \<le> 8 * length (bk_data k)"
    using assms(1) by (auto simp: bit_key_to_abi_map_key_def builder_new_eq store_bits_mk and_then_eq_Inr split: if_splits)
  then have wf: "wf_cell (mk_cell ?bs [])" by (simp add: wf_mk_cell)
  have r: "(case key of TyInt bits \<Rightarrow> v = VInt (signed_val (take (unat bits) ?bs)) \<and> unat bits \<le> length ?bs
    | TyUint bits \<Rightarrow> v = VUint (bits_val (take (unat bits) ?bs)) \<and> unat bits \<le> length ?bs | _ \<Rightarrow> False)"
    using assms(1) st wf
    by (auto simp: bit_key_to_abi_map_key_def builder_new_eq store_bits_mk builder_build_mk load_big_int_eq load_big_uint_eq
        and_then_eq_Inr Let_def split: abi_type.splits if_splits)
  show ?thesis
  proof (cases key)
    case (TyInt bits)
    then obtain xs where b: "1 \<le> unat bits" "unat bits \<le> 257" "length xs = unat bits" "v = VInt (signed_val xs)"
      using r assms(2) that[of "take (unat bits) ?bs"] by (auto simp: key_type_ok_def)
    then have "xs \<noteq> []" by auto
    then show ?thesis using signed_val_range[of xs] b TyInt by (simp add: int_fits_def)
  next
    case (TyUint bits)
    then obtain xs where b: "1 \<le> unat bits" "unat bits \<le> 257" "length xs = unat bits" "v = VUint (bits_val xs)"
      using r assms(2) that[of "take (unat bits) ?bs"] by (auto simp: key_type_ok_def)
    then show ?thesis using bits_val_less[of xs] TyUint by (simp add: uint_fits_def)
  qed (use r in auto)
qed

lemma map_key_bits_typed: "map_key_bits key key_bits = Inr n \<Longrightarrow> key_type_ok key key_bits"
  by (auto simp: map_key_bits_def key_type_ok_def range_checks and_then_eq_Inr split: abi_type.splits option.splits if_splits)

lemma collect_results_all: "collect_results (map f xs) = Inr ys \<Longrightarrow> list_all2 (\<lambda>x y. f x = Inr y) xs ys"
  by (induction xs arbitrary: ys) (auto simp: and_then_eq_Inr)

lemma decoded_map_typed:
  assumes "decode_map_cell X ld key key_bits c = Inr entries" "\<And>s v s'. ld s = Inr (v, s') \<Longrightarrow> P v"
  shows "key_type_ok key key_bits \<and> list_all (\<lambda>(k, w). key_fits key k \<and> P w) entries"
proof -
  from assms(1) obtain n and d :: "cell hashmap_e" where n: "map_key_bits key key_bits = Inr n" and
    "collect_results (map (\<lambda>(key', value_cell). and_then (bit_key_to_abi_map_key X key key') (\<lambda>k.
       and_then (decode_map_value_cell ld value_cell) (\<lambda>v. Inr (k, v)))) (he_map d)) = Inr entries"
    by (auto simp: decode_map_cell_def and_then_eq_Inr split: if_splits)
  from collect_results_all[OF this(2)]
  have "list_all (\<lambda>(k, w). (\<exists>k'. bit_key_to_abi_map_key X key k' = Inr k) \<and> P w) entries"
    by (induction rule: list_all2_induct)
      (auto simp: and_then_eq_Inr decode_map_value_cell_def dest: assms(2) split: if_splits)
  then show ?thesis using map_key_bits_typed[OF n] decoded_key_fits by (auto simp: list_all_iff)
qed

lemma loaded_fields_typed:
  assumes "\<And>p s v s'. p \<in> set ps \<Longrightarrow> load_body_value X (param_ty p) s = Inr (v, s') \<Longrightarrow> has_type (param_ty p) v"
    "load_fields X ps s = Inr (vs, s')"
  shows "fields_typed ps vs"
  using assms
proof (induction ps arbitrary: s vs)
  case (Cons p ps)
  then show ?case by (cases p) (fastforce simp: and_then_eq_Inr)
qed simp

lemma loaded_typed: "load_body_value X ty s = Inr (v, s') \<Longrightarrow> has_type ty v"
proof (induction ty arbitrary: s v s' rule: abi_type_induct)
  case (TyTuple ps)
  then show ?case using loaded_fields_typed[of ps] by (auto simp: and_then_eq_Inr)
next
  case (TyMap key val key_bits)
  then obtain c entries where "decode_map_cell X (\<lambda>s. load_body_value X val s) key key_bits c = Inr entries" "v = VMap entries"
    by (auto simp: and_then_eq_Inr)
  then show ?case using decoded_map_typed[of "\<lambda>s. load_body_value X val s" key key_bits c entries "has_type val"] TyMap.IH(2) by simp
next
  case (TyOptional item)
  then show ?case by (auto simp: and_then_eq_Inr split: if_splits)
qed (auto simp: and_then_eq_Inr width_ok signed_range_ok unsigned_range_ok int_fits_def uint_fits_def from_utf8_def
    dest: std_internal_typed split: if_splits)

lemma stack_fields_typed:
  assumes "\<And>p e v. p \<in> set ps \<Longrightarrow> abi_value_from_stack_entry X (param_ty p) e = Inr v \<Longrightarrow> has_type (param_ty p) v"
    "fields_from_stack X ps es = Inr vs" "length ps = length es"
  shows "fields_typed ps vs"
  using assms
proof (induction ps arbitrary: es vs)
  case (Cons p ps)
  obtain e es' where "es = e # es'" using Cons.prems(3) by (cases es) auto
  with Cons show ?case by (cases p) (fastforce simp: and_then_eq_Inr)
qed simp

lemma decoded_address_typed: "decode_address_slice X c = Inr a \<Longrightarrow> length (hash_part a) = 32"
proof -
  assume "decode_address_slice X c = Inr a"
  then obtain s where l: "load_msg_address X (slice_new c) = Inr (AddrInt (AddrStd None a), s)"
    by (auto simp: decode_address_slice_def std_internal_def and_then_eq_Inr split: if_splits msg_address.splits msg_address_int.splits option.splits)
  have "length (hash_part a) = 32" if "load_addr_std X s1 = Inr (AddrStd None a, s)" for s1
    using that by (auto simp: load_addr_std_def and_then_eq_Inr new_address_def dest: length_load_bytes)
  moreover have "load_addr_var X s1 \<noteq> Inr (AddrStd None a, s)" for s1
    by (auto simp: load_addr_var_def and_then_eq_Inr Let_def)
  ultimately show ?thesis using l by (auto simp: load_msg_address_def and_then_eq_Inr split: if_splits)
qed

lemma stack_value_typed: "abi_value_from_stack_entry X ty e = Inr v \<Longrightarrow> has_type ty v"
proof (induction ty arbitrary: e v rule: abi_type_induct)
  case (TyTuple ps)
  then show ?case using stack_fields_typed[of ps] by (auto simp: and_then_eq_Inr split: stack_entry.splits if_splits)
next
  case (TyArray item)
  then obtain es vs where "e = StackList es" "collect_results (map (\<lambda>e. abi_value_from_stack_entry X item e) es) = Inr vs" "v = VArray vs"
    by (auto simp: and_then_eq_Inr split: stack_entry.splits)
  moreover from collect_results_all[OF this(2)] TyArray.IH have "list_all (has_type item) vs"
    by (induction rule: list_all2_induct) auto
  ultimately show ?case by simp
next
  case (TyMap key val key_bits)
  then obtain c entries where "decode_map_cell X (\<lambda>s. load_body_value X val s) key key_bits c = Inr entries" "v = VMap entries"
    by (auto simp: and_then_eq_Inr)
  then show ?case using decoded_map_typed[of "\<lambda>s. load_body_value X val s" key key_bits c entries "has_type val"] loaded_typed by simp
next
  case (TyOptional item)
  then show ?case by (auto simp: and_then_eq_Inr split: stack_entry.splits)
qed (auto simp: and_then_eq_Inr width_ok signed_range_ok unsigned_range_ok int_fits_def uint_fits_def from_utf8_def
    dest: decoded_address_typed split: if_splits)

end

section \<open>Properties\<close>

text \<open>
  C25: A message body carries its arguments.  For a message function, arguments of the declared types that fit
  the cell are encoded behind the function's opcode, and decoding the body with the same function returns them, the
  entries of maps in the order of their keys' bits and addresses with the default flags.
\<close>

theorem message_body_roundtrip:
  assumes "bignum X" "ensure_message_function f = Inr ()" "fields_ok (fn_inputs f) vs"
    "selector_bits (fn_selector f) + fields_bits (fn_inputs f) vs \<le> 1023" "fields_refs (fn_inputs f) vs \<le> 4"
  shows "\<exists>c. encode_message_body X f vs = Inr c \<and> wf_cell c
    \<and> decode_message_body X f c = Inr (canonical_fields (fn_inputs f) vs)"
proof -
  have "fn_selector f \<noteq> MethodId m" for m
    using assms(2) by (auto simp: ensure_message_function_def split: function_kind.splits)
  from bignum.components_roundtrip[OF assms(1) this assms(3-5), of "''message inputs''"] show ?thesis
    by (auto simp: encode_message_body_def decode_message_body_def assms(2))
qed

definition sample_function :: abi_function where
  "sample_function = \<lparr>fn_name = ''set'', fn_kind = InternalMessage, fn_selector = Opcode 0x12345678,
     fn_inputs = [Parameter ''id'' (TyUint 64) False,
       Parameter ''owner'' (TyTuple [Parameter ''balance'' (TyInt 257) False, Parameter ''note'' (TyOptional TyString) False]) False,
       Parameter ''flags'' (TyMap (TyInt 8) TyBool None) False],
     fn_outputs = []\<rparr>"

definition sample_values :: "abi_value list" where
  "sample_values = [VUint 7, VTuple [VInt (- 5), VOptional (Some (VString [72, 105]))],
     VMap [(VInt (- 1), VBool True), (VInt 3, VBool False)]]"

lemma sample_values_ok:
  "fields_ok (fn_inputs sample_function) sample_values"
  "selector_bits (fn_selector sample_function) + fields_bits (fn_inputs sample_function) sample_values \<le> 1023"
  "fields_refs (fn_inputs sample_function) sample_values \<le> 4"
  by (simp_all add: sample_function_def sample_values_def int_fits_def uint_fits_def key_type_ok_def key_fits_def key_code_def key_width_def)

theorem message_body_roundtrip_witness:
  "\<exists>c. encode_message_body ref_crates sample_function sample_values = Inr c
    \<and> decode_message_body ref_crates sample_function c
      = Inr [VUint 7, VTuple [VInt (- 5), VOptional (Some (VString [72, 105]))],
          VMap [(VInt 3, VBool False), (VInt (- 1), VBool True)]]"
proof -
  have "canonical_fields (fn_inputs sample_function) sample_values
      = [VUint 7, VTuple [VInt (- 5), VOptional (Some (VString [72, 105]))], VMap [(VInt 3, VBool False), (VInt (- 1), VBool True)]]"
    by (simp add: sample_function_def sample_values_def key_code_def key_width_def)
  moreover have "ensure_message_function sample_function = Inr ()"
    by (simp add: ensure_message_function_def sample_function_def)
  ultimately show ?thesis
    using message_body_roundtrip[OF ref_bignum.bignum_axioms, of sample_function sample_values] sample_values_ok by auto
qed

text \<open>
  C26: Whatever a decoder accepts has the declared type: every integer within its width, every string valid
  UTF-8, every address of 32 bytes, every map with keys of its key type, and as many values as there are parameters.
  It holds for message bodies and for the results of get methods, on any cell and any stack.
\<close>

theorem decoded_values_typed:
  assumes "bignum X"
  shows "(decode_message_body X f c = Inr vs \<longrightarrow> fields_typed (fn_inputs f) vs)
    \<and> (decode_get_method_outputs X g es = Inr ws \<longrightarrow> fields_typed (fn_outputs g) ws)"
proof -
  have "fields_typed (fn_inputs f) vs" if "decode_message_body X f c = Inr vs"
    using that bignum.loaded_fields_typed[OF assms] bignum.loaded_typed[OF assms]
    by (auto simp: decode_message_body_def load_payload_components_exact_def and_then_eq_Inr split: if_splits)
  moreover have "fields_typed (fn_outputs g) ws" if "decode_get_method_outputs X g es = Inr ws"
    using that bignum.stack_fields_typed[OF assms] bignum.stack_value_typed[OF assms]
    by (auto simp: decode_get_method_outputs_def and_then_eq_Inr split: if_splits)
  ultimately show ?thesis by blast
qed

definition sample_getter :: abi_function where
  "sample_getter = \<lparr>fn_name = ''get'', fn_kind = GetMethod, fn_selector = NoSelector, fn_inputs = [],
     fn_outputs = [Parameter ''on'' TyBool False, Parameter ''seqno'' (TyUint 32) False]\<rparr>"

lemma sample_getter_decodes:
  "decode_get_method_outputs ref_crates sample_getter [StackInt (- 1), StackInt 42] = Inr [VBool True, VUint 42]"
  by (simp add: decode_get_method_outputs_def sample_getter_def ensure_get_method_function_def stack_int_def range_checks)

theorem decoded_values_typed_witness:
  "decode_get_method_outputs ref_crates sample_getter [StackInt (- 1), StackInt 42] = Inr [VBool True, VUint 42]
    \<and> fields_typed (fn_outputs sample_getter) [VBool True, VUint 42]"
  using decoded_values_typed[OF ref_bignum.bignum_axioms, of sample_function null_stack "[]" sample_getter
      "[StackInt (- 1), StackInt 42]" "[VBool True, VUint 42]"] sample_getter_decodes by simp

text \<open>
  C27: The stack carries the arguments of a get method.  Values of the declared types, without an optional value directly
  inside a present optional one (\<open>stack_fields_ok\<close>), are converted to entries, and converting the entries back, as results
  of a method with these outputs, returns them with the entries of maps in the order of their keys' bits and
  addresses with the default flags (\<open>canonical_fields\<close>).
\<close>

theorem get_method_stack_roundtrip:
  assumes "bignum X" "ensure_get_method_function f = Inr ()" "ensure_get_method_function g = Inr ()"
    "fn_outputs g = fn_inputs f" "stack_fields_ok (fn_inputs f) vs"
  shows "\<exists>es. encode_get_method_inputs X f vs = Inr es
    \<and> decode_get_method_outputs X g es = Inr (canonical_fields (fn_inputs f) vs)"
proof -
  obtain es where "fields_to_stack X vs (fn_inputs f) = Inr es" "length es = length (fn_inputs f)"
      "fields_from_stack X (fn_inputs f) es = Inr (canonical_fields (fn_inputs f) vs)"
    using bignum.fields_on_stack[OF assms(1) bignum.value_on_stack[OF assms(1)] assms(5)] by blast
  then show ?thesis using stack_fields_ok_length[OF assms(5)]
    by (intro exI[of _ es]) (simp add: encode_get_method_inputs_def decode_get_method_outputs_def assms(2-4))
qed

theorem get_method_stack_roundtrip_witness:
  "\<exists>es. encode_get_method_inputs ref_crates (sample_getter\<lparr>fn_inputs := fn_outputs sample_getter\<rparr>) [VBool False, VUint 9] = Inr es
    \<and> decode_get_method_outputs ref_crates sample_getter es = Inr [VBool False, VUint 9]"
  using get_method_stack_roundtrip[OF ref_bignum.bignum_axioms, of "sample_getter\<lparr>fn_inputs := fn_outputs sample_getter\<rparr>"
      sample_getter "[VBool False, VUint 9]"]
  by (simp add: sample_getter_def ensure_get_method_function_def uint_fits_def)

text \<open>
  An optional value directly inside an optional one is lost on the stack: a present absent value is the null entry,
  which is read as absent.
\<close>

lemma nested_optional_collapses:
  "and_then (abi_value_to_stack_entry X (VOptional (Some (VOptional None))) (TyOptional (TyOptional ty)))
     (abi_value_from_stack_entry X (TyOptional (TyOptional ty))) = Inr (VOptional None)"
  by simp

text \<open>A body that starts with another opcode is refused.\<close>

lemma other_opcode_refused:
  assumes "bignum X" "fn_kind f \<noteq> GetMethod" "fn_selector f = Opcode op" "wf_cell (mk_cell (nat_bits 32 (unat op') @ ys) rs)" "op' \<noteq> op"
  shows "decode_message_body X f (mk_cell (nat_bits 32 (unat op') @ ys) rs) = Inl (AbiErr (AbiOpcodeMismatch op op'))"
proof -
  have "load_u32 X (slice_new (mk_cell (nat_bits 32 (unat op') @ ys) rs)) = Inr (op', adv (slice_new (mk_cell (nat_bits 32 (unat op') @ ys) rs)) 32 0)"
    using bignum.named_uint_steps(6)[OF assms(1), of op'] assms(4) by (simp add: yields_def)
  then show ?thesis using assms(2,3,5)
    by (cases "fn_kind f") (simp_all add: decode_message_body_def ensure_message_function_def load_selector_def)
qed

end
