(* ===== verification/Metadata.thy ===== *)
theory Metadata
  imports AbiCodec
begin

text \<open>
  Token metadata in the TEP-64 layouts (\<open>src/metadata.rs\<close>): an off-chain URI, or a dictionary from the SHA-256 hashes of field
  names to values, each a snake text or a dictionary of chunks.  A malformed field is kept as such and does not
  spoil the others.

  \<open>Display\<close> texts of errors are the errors themselves.  The iterators that convert the entries of a dictionary are
  \<open>collect_results\<close>, through which only a panic of \<open>copy_from_slice\<close> could pass; \<open>loaded_key_bytes\<close> shows that
  the keys of a loaded dictionary have the length it expects.
\<close>

definition TEP64_ON_CHAIN_TAG :: u8 where "TEP64_ON_CHAIN_TAG = 0x00"
definition TEP64_OFF_CHAIN_TAG :: u8 where "TEP64_OFF_CHAIN_TAG = 0x01"
definition TEP64_DICT_KEY_BITS :: nat where "TEP64_DICT_KEY_BITS = 256"
definition TEP64_CHUNK_KEY_BITS :: nat where "TEP64_CHUNK_KEY_BITS = 32"

datatype known_key =
  KeyUri | KeyName | KeyDescription | KeyImage | KeyImageData | KeySymbol | KeyDecimals | KeyAmountStyle | KeyRenderType
  | KeyContentUrl | KeyVideo

record tep64_chunk =
  chunk_index :: u32
  chunk_bytes :: bytes

datatype tep64_value =
    SnakeValue bytes
  | ChunkedValue "tep64_chunk list" bytes
  | UnsupportedValue "u8 option" "bytes option"
  | MalformedValue error

record tep64_field =
  tf_key_hash :: bytes
  tf_known_key :: "known_key option"
  tf_value :: tep64_value
  tf_raw :: cell

datatype tep64_content =
    OffChain bytes cell
  | OnChain "tep64_field list" cell
  | UnsupportedContent "u8 option" cell

section \<open>Names of fields\<close>

fun known_key_str :: "known_key \<Rightarrow> string" where
  "known_key_str KeyUri = ''uri''"
| "known_key_str KeyName = ''name''"
| "known_key_str KeyDescription = ''description''"
| "known_key_str KeyImage = ''image''"
| "known_key_str KeyImageData = ''image_data''"
| "known_key_str KeySymbol = ''symbol''"
| "known_key_str KeyDecimals = ''decimals''"
| "known_key_str KeyAmountStyle = ''amount_style''"
| "known_key_str KeyRenderType = ''render_type''"
| "known_key_str KeyContentUrl = ''content_url''"
| "known_key_str KeyVideo = ''video''"

definition as_bytes :: "string \<Rightarrow> bytes" where
  "as_bytes s = map of_char s"

definition tep64_key_hash :: "crates \<Rightarrow> string \<Rightarrow> bytes" where
  "tep64_key_hash X name = sha256 X (as_bytes name)"

definition key_hash :: "crates \<Rightarrow> known_key \<Rightarrow> bytes" where
  "key_hash X k = tep64_key_hash X (known_key_str k)"

definition all_known_keys :: "known_key list" where
  "all_known_keys = [KeyUri, KeyName, KeyDescription, KeyImage, KeyImageData, KeySymbol, KeyDecimals, KeyAmountStyle,
     KeyRenderType, KeyContentUrl, KeyVideo]"

definition known_key_by_hash :: "crates \<Rightarrow> bytes \<Rightarrow> known_key option" where
  "known_key_by_hash X h = find (\<lambda>k. key_hash X k = h) all_known_keys"

text \<open>\<open>copy_from_slice\<close> panics on another length.\<close>

definition bit_key_hash :: "bit_key \<Rightarrow> bytes result" where
  "bit_key_hash key = (if length (bk_data key) = 32 then Inr (bk_data key) else Inl Panic)"

section \<open>Snake texts and chunks\<close>

definition metadata_err :: "metadata_error \<Rightarrow> 'a result \<Rightarrow> 'a result" where
  "metadata_err e r = map_err (\<lambda>_. MetadataErr e) r"

lemma metadata_err_simps [simp]:
  "metadata_err e (Inr v) = Inr v" "metadata_err e r = Inr v \<longleftrightarrow> r = Inr v"
  by (auto simp: metadata_err_def map_err_def split: sum.splits)

function flatten_snake_loop :: "slice \<Rightarrow> bytes \<Rightarrow> bytes result" where
  "flatten_snake_loop s bytes =
     (let bits = remaining_bits s in
      if bits mod 8 \<noteq> 0 then Inl (MetadataErr (NonByteAlignedSnake bits))
      else and_then (metadata_err MalformedSnake (load_bytes s (bits div 8))) (\<lambda>(loaded, s).
        let bytes = bytes @ loaded; refs = remaining_refs s in
        if refs = 0 then Inr bytes
        else if refs = 1 then
          and_then (metadata_err MalformedSnake (load_reference s)) (\<lambda>(next, s). flatten_snake_loop (slice_new next) bytes)
        else Inl (MetadataErr (TooManySnakeRefs refs))))"
  by pat_completeness auto
termination
  by (relation "measure (\<lambda>(s, _). size (sl_cell s))") (auto dest!: load_reference_size sl_cell_load_bytes simp: slice_new_def)

declare flatten_snake_loop.simps [simp del]

definition flatten_snake_slice :: "slice \<Rightarrow> bytes result" where
  "flatten_snake_slice s = flatten_snake_loop s []"

definition flatten_snake_cell :: "cell \<Rightarrow> bytes option result" where
  "flatten_snake_cell c =
     (let s = slice_new c in
      if remaining_bits s = 0 \<and> remaining_refs s = 0 then Inr None
      else and_then (flatten_snake_slice s) (\<lambda>bs. Inr (Some bs)))"

definition decode_chunk :: "bit_key \<times> cell \<Rightarrow> tep64_chunk result" where
  "decode_chunk = (\<lambda>(key, c).
     and_then (metadata_err MalformedChunkedDictionary (bit_key_to_u64 key)) (\<lambda>w.
     and_then (if unat w < 2 ^ 32 then Inr (ucast w :: u32) else Inl (MetadataErr MalformedChunkedDictionary)) (\<lambda>index.
     and_then (flatten_snake_cell c) (\<lambda>bs.
     case bs of None \<Rightarrow> Inl (MetadataErr MalformedSnake) | Some bs \<Rightarrow> Inr \<lparr>chunk_index = index, chunk_bytes = bs\<rparr>))))"

definition decode_chunked_slice :: "slice \<Rightarrow> (tep64_chunk list \<times> bytes) result" where
  "decode_chunked_slice s =
     and_then (metadata_err MalformedChunkedDictionary (load_hashmap_e_with s TEP64_CHUNK_KEY_BITS load_reference)) (\<lambda>(dict, s).
     if \<not> slice_is_empty s then Inl (MetadataErr MalformedChunkedDictionary)
     else and_then (collect_results (map decode_chunk (he_map dict))) (\<lambda>chunks. Inr (chunks, concat (map chunk_bytes chunks))))"

section \<open>Fields and contents\<close>

text \<open>An error of a field becomes its value.\<close>

definition or_malformed :: "'a result \<Rightarrow> ('a \<Rightarrow> tep64_value) \<Rightarrow> tep64_value" where
  "or_malformed r f = (case r of Inl e \<Rightarrow> MalformedValue e | Inr v \<Rightarrow> f v)"

definition decode_field_value :: "crates \<Rightarrow> cell \<Rightarrow> tep64_value" where
  "decode_field_value X raw =
     (let s = slice_new raw in
      if remaining_bits s < 8 then or_malformed (flatten_snake_cell raw) (UnsupportedValue None)
      else case load_u8 X s of
          Inl e \<Rightarrow> MalformedValue e
        | Inr (tag, s) \<Rightarrow>
            if tag = TEP64_ON_CHAIN_TAG then or_malformed (flatten_snake_slice s) SnakeValue
            else if tag = TEP64_OFF_CHAIN_TAG then or_malformed (decode_chunked_slice s) (\<lambda>(chunks, bytes). ChunkedValue chunks bytes)
            else or_malformed (flatten_snake_cell raw) (UnsupportedValue (Some tag)))"

definition decode_onchain_fields :: "crates \<Rightarrow> cell hashmap_e \<Rightarrow> tep64_field list result" where
  "decode_onchain_fields X dict =
     collect_results (map (\<lambda>(key, raw).
       and_then (bit_key_hash key) (\<lambda>h.
       Inr \<lparr>tf_key_hash = h, tf_known_key = known_key_by_hash X h, tf_value = decode_field_value X raw, tf_raw = raw\<rparr>))
       (he_map dict))"

definition parse_tep64_content :: "crates \<Rightarrow> cell \<Rightarrow> tep64_content result" where
  "parse_tep64_content X c =
     (let s = slice_new c in
      if remaining_bits s < 8 then Inr (UnsupportedContent None c)
      else and_then (metadata_err MalformedSnake (load_u8 X s)) (\<lambda>(tag, s).
        if tag = TEP64_OFF_CHAIN_TAG then and_then (flatten_snake_slice s) (\<lambda>uri. Inr (OffChain uri c))
        else if tag = TEP64_ON_CHAIN_TAG then
          and_then (metadata_err MalformedOnChainDictionary (load_hashmap_e_with s TEP64_DICT_KEY_BITS load_reference)) (\<lambda>(dict, s).
          if \<not> slice_is_empty s then Inl (MetadataErr MalformedOnChainDictionary)
          else and_then (decode_onchain_fields X dict) (\<lambda>fields. Inr (OnChain fields c)))
        else Inr (UnsupportedContent (Some tag) c)))"

section \<open>Reading snake texts\<close>

lemma flatten_leaf:
  "wf_slice s \<Longrightarrow> slice_bits s = bytes_bits bs \<Longrightarrow> slice_refs s = [] \<Longrightarrow> flatten_snake_loop s acc = Inr (acc @ bs)"
  by (subst flatten_snake_loop.simps) (simp add: Let_def remaining_bits_eq remaining_refs_eq load_bytes_eq)

lemma flatten_link:
  "wf_slice s \<Longrightarrow> slice_bits s = bytes_bits bs \<Longrightarrow> slice_refs s = [c] \<Longrightarrow>
    flatten_snake_loop s acc = flatten_snake_loop (slice_new c) (acc @ bs)"
  by (subst flatten_snake_loop.simps) (simp add: Let_def remaining_bits_eq remaining_refs_eq load_bytes_eq load_reference_eq)

text \<open>
  \<open>store_snake_bytes\<close> puts as many bytes as the builder has room for into the cell and the rest behind a reference;
  the reader gets all of them back.
\<close>

definition snake_room :: "bool list \<Rightarrow> nat" where
  "snake_room xs = (1023 - length xs) div 8"

lemma snake_flattens:
  assumes "length xs \<le> 1023" "length rs < 4"
  shows "\<exists>qs. store_snake_bytes (mk_b xs rs) bs = Inr (mk_b (xs @ bytes_bits (take (snake_room xs) bs)) (rs @ qs))
    \<and> length qs \<le> 1 \<and> list_all wf_cell qs
    \<and> (\<forall>n s acc. n \<le> snake_room xs \<longrightarrow> wf_slice s \<longrightarrow> slice_bits s = bytes_bits (drop n (take (snake_room xs) bs)) \<longrightarrow> slice_refs s = qs
        \<longrightarrow> flatten_snake_loop s acc = Inr (acc @ drop n bs))"
  using assms
proof (induction "mk_b xs rs" bs arbitrary: xs rs rule: store_snake_bytes.induct)
  case (1 bs)
  let ?av = "snake_room xs"
  have av: "available_bytes (mk_b xs rs) = ?av" by (simp add: available_bytes_def snake_room_def)
  have room: "length xs + 8 * ?av \<le> 1023" using 1(2) by (simp add: snake_room_def)
  show ?case
  proof (cases "length bs \<le> ?av")
    case True
    then have "store_snake_bytes (mk_b xs rs) bs = Inr (mk_b (xs @ bytes_bits (take ?av bs)) (rs @ []))"
      using room by (subst store_snake_bytes.simps) (auto simp: store_bytes_mk av)
    then show ?thesis using True by (intro exI[of _ "[]"]) (simp add: flatten_leaf)
  next
    case False
    then have ne: "bs \<noteq> []" and tk: "length (take ?av bs) = ?av" by auto
    have st: "store_bytes (mk_b xs rs) (take ?av bs) = Inr (mk_b (xs @ bytes_bits (take ?av bs)) rs)"
      using room tk by (simp add: store_bytes_mk)
    obtain qs where nxt: "store_snake_bytes builder_new (drop ?av bs) = Inr (mk_b (bytes_bits (take 127 (drop ?av bs))) qs)"
        "length qs \<le> 1" "list_all wf_cell qs"
        "\<forall>n s acc. n \<le> 127 \<longrightarrow> wf_slice s \<longrightarrow> slice_bits s = bytes_bits (drop n (take 127 (drop ?av bs))) \<longrightarrow> slice_refs s = qs
          \<longrightarrow> flatten_snake_loop s acc = Inr (acc @ drop n (drop ?av bs))"
      using 1(1)[OF ne refl _ _ builder_new_eq] False st by (auto simp: av builder_new_eq snake_room_def)
    let ?c = "mk_cell (bytes_bits (take 127 (drop ?av bs))) qs"
    have wf: "wf_cell ?c" using nxt(2,3) by (simp add: wf_mk_cell)
    have "store_snake_bytes (mk_b xs rs) bs = Inr (mk_b (xs @ bytes_bits (take ?av bs)) (rs @ [?c]))"
      using ne False 1(3) st nxt(1,2) by (subst store_snake_bytes.simps) (simp add: av Let_def builder_build_mk store_ref_mk)
    moreover have "flatten_snake_loop (slice_new ?c) acc = Inr (acc @ drop ?av bs)" for acc
      using nxt(4)[rule_format, of 0 "slice_new ?c" acc] wf by simp
    moreover have "drop n (take ?av bs) @ drop ?av bs = drop n bs" if "n \<le> ?av" for n
      using that tk drop_append[of n "take ?av bs" "drop ?av bs"] by simp
    ultimately show ?thesis using wf by (intro exI[of _ "[?c]"]) (simp add: flatten_link)
  qed
qed

section \<open>Keys of dictionaries\<close>

text \<open>Whatever the reader of dictionaries accepts keeps the invariant, so its keys have the declared width.\<close>

lemma parse_edge_wf:
  "parse_edge ld s r p d = Inr (d', s') \<Longrightarrow> wf_hashmap d \<Longrightarrow> wf_hashmap d' \<and> he_key_bits d' = he_key_bits d"
proof (induction ld s r p d arbitrary: d' s' rule: parse_edge.induct)
  case (1 ld s r p d)
  obtain label s1 where l: "load_label s r = Inr (label, s1)"
    using 1(3) by (auto simp: parse_edge.simps[of ld s r p d] and_then_eq_Inr)
  show ?case
  proof (cases "r - length label = 0")
    case True
    then obtain key v s2 d2 where k: "bit_vec_to_key (p @ label) (he_key_bits d) = Inr key" "insert_bit_key d key v = Inr (None, d')"
      using 1(3) l by (auto simp: parse_edge.simps[of ld s r p d] and_then_eq_Inr split: option.splits)
    then have "wf_key key" by (auto split: if_splits)
    with k 1(4) show ?thesis using wf_insert_bit_key[of d key v None d'] by (auto simp: insert_bit_key_def split: if_splits)
  next
    case False
    then obtain left s2 right d1 s4 s5 where
      e: "load_reference s1 = Inr (left, s2)" "load_reference s2 = Inr (right, s')"
      "parse_edge ld (slice_new left) (r - length label - 1) ((p @ label) @ [False]) d = Inr (d1, s4)"
      "parse_edge ld (slice_new right) (r - length label - 1) ((p @ label) @ [True]) d1 = Inr (d', s5)"
      using 1(3) l by (auto simp: parse_edge.simps[of ld s r p d] and_then_eq_Inr)
    have "wf_hashmap d1 \<and> he_key_bits d1 = he_key_bits d"
      using 1(1)[OF l refl refl refl False e(1) refl e(2) refl e(3) 1(4)] by simp
    with 1(2)[OF l refl refl refl False e(1) refl e(2) refl e(3) refl e(4)] show ?thesis by simp
  qed
qed

lemma loaded_dict_wf:
  assumes "load_hashmap_e_with s n ld = Inr (d, s')"
  shows "wf_hashmap d \<and> he_key_bits d = n"
proof -
  have new: "he_key_bits (hashmap_e_new n) = n" by (simp add: hashmap_e_new_def)
  consider "d = hashmap_e_new n" | c s1 where "parse_edge ld (slice_new c) n [] (hashmap_e_new n) = Inr (d, s1)"
    using assms by (auto simp: load_hashmap_e_with_def deserialize_hashmap_root_def and_then_eq_Inr split: if_splits)
  then show ?thesis
  proof cases
    case 2
    then show ?thesis using parse_edge_wf[OF 2 wf_hashmap_new] new by simp
  qed (simp add: wf_hashmap_new new)
qed

lemma loaded_key_bytes:
  assumes "load_hashmap_e_with s n ld = Inr (d, s')" "(k, v) \<in> set (he_map d)"
  shows "length (bk_data k) = div_ceil n 8"
proof -
  have "wf_key k" "bk_bit_len k = n" using loaded_dict_wf[OF assms(1)] assms(2) by (force simp: wf_hashmap_def)+
  then show ?thesis by (metis wf_keyE mk_key_sel(2) length_pack)
qed

section \<open>Contents\<close>

text \<open>
  The contents a contract publishes, written with the builder: an off-chain URI, and a dictionary of named texts, each a snake
  text behind the prefix byte of \<open>store_snake_string\<close>.
\<close>

definition offchain_content :: "crates \<Rightarrow> bytes \<Rightarrow> cell result" where
  "offchain_content X uri =
     and_then (store_u8 X builder_new TEP64_OFF_CHAIN_TAG) (\<lambda>b.
     and_then (store_snake_bytes b uri) builder_build)"

definition text_value :: "bytes \<Rightarrow> cell result" where
  "text_value text = and_then (store_snake_string builder_new text True) builder_build"

definition text_cell :: "bytes \<Rightarrow> cell" where
  "text_cell text = projr (text_value text)"

definition insert_text :: "crates \<Rightarrow> cell hashmap_e \<Rightarrow> string \<times> bytes \<Rightarrow> cell hashmap_e result" where
  "insert_text X dict = (\<lambda>(name, text).
     and_then (bit_key_from_bits (tep64_key_hash X name) TEP64_DICT_KEY_BITS) (\<lambda>key.
     and_then (text_value text) (\<lambda>c.
     and_then (insert_bit_key dict key c) (\<lambda>(_, dict). Inr dict))))"

definition onchain_content :: "crates \<Rightarrow> (string \<times> bytes) list \<Rightarrow> cell result" where
  "onchain_content X entries =
     and_then (try_fold (insert_text X) (hashmap_e_new TEP64_DICT_KEY_BITS) entries) (\<lambda>dict.
     and_then (store_u8 X builder_new TEP64_ON_CHAIN_TAG) (\<lambda>b.
     and_then (store_hashmap_e_with b dict store_ref) builder_build))"

context bignum
begin

lemma load_tag:
  "wf_slice s \<Longrightarrow> slice_bits s = byte_bits t @ ys \<Longrightarrow> load_u8 X s = Inr (t, adv s 8 0)"
  using load_byte_append[of s t ys] by (simp add: load_u8_def load_byte_def)

lemma store_tag_byte: "store_u8 X builder_new t = Inr (mk_b (byte_bits t) [])"
  using named_uint_steps(1)[of t] by (simp add: emits_def builder_new_eq byte_bits_nat_bits)

lemma offchain_reads: "\<exists>c. offchain_content X uri = Inr c \<and> wf_cell c \<and> parse_tep64_content X c = Inr (OffChain uri c)"
proof -
  let ?t = "byte_bits TEP64_OFF_CHAIN_TAG"
  obtain qs where q: "store_snake_bytes (mk_b ?t []) uri = Inr (mk_b (?t @ bytes_bits (take (snake_room ?t) uri)) qs)"
    "length qs \<le> 1" "list_all wf_cell qs"
    "\<And>s acc. wf_slice s \<Longrightarrow> slice_bits s = bytes_bits (take (snake_room ?t) uri) \<Longrightarrow> slice_refs s = qs \<Longrightarrow>
      flatten_snake_loop s acc = Inr (acc @ uri)"
    using snake_flattens[of ?t "[]" uri] by (auto dest: spec[of _ 0])
  let ?c = "mk_cell (?t @ bytes_bits (take (snake_room ?t) uri)) qs"
  have len: "8 + 8 * length (take (snake_room ?t) uri) \<le> 1023" by (auto simp: snake_room_def)
  then have wf: "wf_cell ?c" using q(2,3) by (simp add: wf_mk_cell)
  have "offchain_content X uri = Inr ?c" using q(1,2) len by (simp add: offchain_content_def store_tag_byte builder_build_mk)
  moreover have "flatten_snake_slice (adv (slice_new ?c) 8 0) = Inr uri"
    using q(4)[of "adv (slice_new ?c) 8 0" "[]"] wf by (simp add: flatten_snake_slice_def wf_adv)
  then have "parse_tep64_content X ?c = Inr (OffChain uri ?c)"
    using wf by (simp add: parse_tep64_content_def Let_def remaining_bits_eq load_tag)
  ultimately show ?thesis using wf by blast
qed

lemma text_value_reads: "\<exists>c. text_value text = Inr c \<and> wf_cell c \<and> decode_field_value X c = SnakeValue text"
proof -
  obtain qs where q: "store_snake_bytes builder_new (0 # text) = Inr (mk_b (bytes_bits (take 127 (0 # text))) qs)"
    "length qs \<le> 1" "list_all wf_cell qs"
    "\<And>s acc. wf_slice s \<Longrightarrow> slice_bits s = bytes_bits (drop 1 (take 127 (0 # text))) \<Longrightarrow> slice_refs s = qs \<Longrightarrow>
      flatten_snake_loop s acc = Inr (acc @ drop 1 (0 # text))"
    using snake_flattens[of "[]" "[]" "0 # text"] by (auto simp: builder_new_eq snake_room_def dest: spec[of _ 1])
  let ?c = "mk_cell (bytes_bits (take 127 (0 # text))) qs" and ?s = "\<lambda>c. adv (slice_new c) 8 0"
  have wf: "wf_cell ?c" using q(2,3) by (simp add: wf_mk_cell)
  have "text_value text = Inr ?c" using q(1,2) by (simp add: text_value_def store_snake_string_def builder_build_mk)
  moreover have "flatten_snake_slice (?s ?c) = Inr text"
    using q(4)[of "?s ?c" "[]"] wf by (simp add: flatten_snake_slice_def wf_adv)
  then have "decode_field_value X ?c = SnakeValue text"
    using wf by (simp add: decode_field_value_def Let_def remaining_bits_eq load_tag or_malformed_def TEP64_ON_CHAIN_TAG_def)
  ultimately show ?thesis using wf by blast
qed

lemma text_cell_eqs:
  "text_value text = Inr (text_cell text)" "wf_cell (text_cell text)" "decode_field_value X (text_cell text) = SnakeValue text"
  using text_value_reads[of "text"] by (auto simp: text_cell_def)

end

lemma set_btree_insert_new: "k \<notin> fst ` set m \<Longrightarrow> set (btree_insert k v m) = insert (k, v) (set m)"
  by (induction k v m rule: btree_insert.induct) auto

definition name_key :: "crates \<Rightarrow> string \<Rightarrow> bit_key" where
  "name_key X name = mk_key (bytes_bits (tep64_key_hash X name))"

context hashing
begin

lemma name_key_simps [simp]:
  "bk_data (name_key X name) = tep64_key_hash X name" "bk_bit_len (name_key X name) = 256" "wf_key (name_key X name)"
  "bit_key_from_bits (tep64_key_hash X name) TEP64_DICT_KEY_BITS = Inr (name_key X name)"
  "length (tep64_key_hash X name) = 32"
  by (simp_all add: name_key_def tep64_key_hash_def length_sha256 bit_key_from_bits_eq TEP64_DICT_KEY_BITS_def)

lemma name_key_inject [simp]: "name_key X m = name_key X n \<longleftrightarrow> tep64_key_hash X m = tep64_key_hash X n"
  by (simp add: name_key_def bytes_bits_inject)

end

locale publishing = bignum X + hashing X for X
begin

lemma insert_texts:
  assumes "wf_hashmap d" "he_key_bits d = 256" "distinct (map (tep64_key_hash X \<circ> fst) entries)"
    "\<forall>e \<in> set entries. name_key X (fst e) \<notin> fst ` set (he_map d)"
  shows "\<exists>d'. try_fold (insert_text X) d entries = Inr d' \<and> wf_hashmap d' \<and> he_key_bits d' = 256
    \<and> set (he_map d') = set (he_map d) \<union> (\<lambda>(n, t). (name_key X n, text_cell t)) ` set entries"
  using assms
proof (induction entries arbitrary: d)
  case (Cons e entries)
  obtain n t where e: "e = (n, t)" by (cases e)
  let ?d = "d\<lparr>he_map := btree_insert (name_key X n) (text_cell t) (he_map d)\<rparr>"
  have new: "name_key X n \<notin> fst ` set (he_map d)" using Cons.prems(4) e by simp
  have ins: "insert_bit_key d (name_key X n) (text_cell t) = Inr (btree_get (name_key X n) (he_map d), ?d)"
    using Cons.prems(2) by (simp add: insert_bit_key_def)
  then have "insert_text X d e = Inr ?d" by (simp add: insert_text_def e text_cell_eqs)
  moreover have "set (he_map ?d) = insert (name_key X n, text_cell t) (set (he_map d))"
    using set_btree_insert_new[OF new] by simp
  moreover have "wf_hashmap ?d" using wf_insert_bit_key[OF Cons.prems(1) _ ins] by simp
  moreover have "\<forall>e \<in> set entries. name_key X (fst e) \<notin> insert (name_key X n) (fst ` set (he_map d))"
    using Cons.prems(3,4) e by (auto simp: image_iff)
  ultimately show ?case using Cons.IH[of ?d] Cons.prems(2,3) e by (auto simp: image_image)
qed simp

lemma fields_decode:
  assumes "set (he_map d) = (\<lambda>(n, t). (name_key X n, text_cell t)) ` set entries" "wf_hashmap d"
  shows "\<exists>fs. decode_onchain_fields X d = Inr fs \<and> distinct (map tf_key_hash fs)
    \<and> set fs = (\<lambda>(n, t). \<lparr>tf_key_hash = tep64_key_hash X n, tf_known_key = known_key_by_hash X (tep64_key_hash X n),
        tf_value = SnakeValue t, tf_raw = text_cell t\<rparr>) ` set entries"
proof -
  let ?f = "\<lambda>(k, raw). \<lparr>tf_key_hash = bk_data k, tf_known_key = known_key_by_hash X (bk_data k), tf_value = decode_field_value X raw, tf_raw = raw\<rparr>"
  have keys: "wf_key k \<and> length (bk_data k) = 32" if "(k, raw) \<in> set (he_map d)" for k raw using that assms(1) by auto
  have "decode_onchain_fields X d = Inr (map ?f (he_map d))"
    unfolding decode_onchain_fields_def by (rule collect_results_map) (use keys in \<open>auto simp: bit_key_hash_def\<close>)
  moreover have "set (map ?f (he_map d)) = (\<lambda>(n, t). \<lparr>tf_key_hash = tep64_key_hash X n,
      tf_known_key = known_key_by_hash X (tep64_key_hash X n), tf_value = SnakeValue t, tf_raw = text_cell t\<rparr>) ` set entries"
    unfolding set_map assms(1) image_image by (intro image_cong) (auto simp: text_cell_eqs)
  moreover have "distinct (map tf_key_hash (map ?f (he_map d)))"
  proof -
    have "distinct (map fst (he_map d))" using assms(2) by (simp add: wf_hashmap_def btree_ordered_def strict_sorted_iff)
    moreover have "inj_on bk_data (fst ` set (he_map d))" using assms(1) by (auto simp: inj_on_def)
    ultimately have "distinct (map bk_data (map fst (he_map d)))" by (simp add: distinct_map del: map_map)
    then show ?thesis by (simp add: comp_def case_prod_unfold)
  qed
  ultimately show ?thesis by blast
qed

lemma onchain_reads:
  assumes "distinct (map (tep64_key_hash X \<circ> fst) entries)"
  shows "\<exists>c fs. onchain_content X entries = Inr c \<and> wf_cell c \<and> parse_tep64_content X c = Inr (OnChain fs c)
    \<and> distinct (map tf_key_hash fs)
    \<and> set fs = (\<lambda>(n, t). \<lparr>tf_key_hash = tep64_key_hash X n, tf_known_key = known_key_by_hash X (tep64_key_hash X n),
        tf_value = SnakeValue t, tf_raw = text_cell t\<rparr>) ` set entries"
proof -
  let ?n = TEP64_DICT_KEY_BITS and ?t = "byte_bits TEP64_ON_CHAIN_TAG"
  obtain d where d: "try_fold (insert_text X) (hashmap_e_new ?n) entries = Inr d" "wf_hashmap d" "he_key_bits d = 256"
    "set (he_map d) = (\<lambda>(n, t). (name_key X n, text_cell t)) ` set entries"
    using insert_texts[of "hashmap_e_new ?n" entries] assms wf_hashmap_new[of 256, unfolded hashmap_e_new_def]
    by (auto simp: hashmap_e_new_def TEP64_DICT_KEY_BITS_def)
  obtain fs where fs: "decode_onchain_fields X d = Inr fs" "distinct (map tf_key_hash fs)"
    "set fs = (\<lambda>(n, t). \<lparr>tf_key_hash = tep64_key_hash X n, tf_known_key = known_key_by_hash X (tep64_key_hash X n),
        tf_value = SnakeValue t, tf_raw = text_cell t\<rparr>) ` set entries"
    using fields_decode[OF d(4,2)] by blast
  have ok: "dict_ok ?n (\<lambda>_. True) (\<lambda>_. []) (\<lambda>c. [c]) d"
    using d bit_length_257[of 256] by (auto simp: dict_ok_def TEP64_DICT_KEY_BITS_def text_cell_eqs)
  note codec = hashmap_codec[OF ref_codec.value_codec_axioms, of ?n]
  let ?refs = "dict_refs store_ref d"
  have refs: "list_all wf_cell ?refs" "length ?refs \<le> 1" using dict_refs_wf[OF ref_codec.value_codec_axioms ok] by simp_all
  let ?c = "mk_cell (?t @ [he_map d \<noteq> []]) ?refs"
  have wf: "wf_cell ?c" using refs by (simp add: wf_mk_cell)
  have "store_hashmap_e_with (mk_b ?t []) d store_ref = Inr (mk_b (?t @ [he_map d \<noteq> []]) ?refs)"
    using value_codec.store_appends[OF codec ok, of ?t "[]"] refs by simp
  then have "onchain_content X entries = Inr ?c"
    using d(1) refs by (simp add: onchain_content_def store_tag_byte builder_build_mk)
  moreover have "load_hashmap_e_with (adv (slice_new ?c) 8 0) ?n load_reference = Inr (d, adv (slice_new ?c) 9 (length ?refs))"
    using value_codec.load_reads[OF codec ok, of "adv (slice_new ?c) 8 0" "[]" "[]"] wf by (simp add: wf_adv)
  then have "parse_tep64_content X ?c = Inr (OnChain fs ?c)"
    using wf fs(1) by (simp add: parse_tep64_content_def Let_def remaining_bits_eq load_tag slice_is_empty_eq wf_adv
        TEP64_ON_CHAIN_TAG_def TEP64_OFF_CHAIN_TAG_def)
  ultimately show ?thesis using wf fs by blast
qed

end

interpretation ref_publishing: publishing ref_crates ..

end
