(* ===== verification/Tokens.thy ===== *)
theory Tokens
  imports Metadata
begin

text \<open>
  Results of the get methods of token contracts (\<open>src/jetton.rs\<close>, \<open>src/nft/types.rs\<close>): the decoders of their stacks and the
  mapping of TEP-64 fields to typed metadata.  The helpers that turn a field into bytes or text and record a diagnostic are the
  same in both files and defined once; the metadata record is threaded through them as the list of its diagnostics.
  A provider is the function \<open>run\<close> from a method name and its arguments to the result stack.
\<close>

section \<open>Fields as text\<close>

datatype diagnostic_error = DiagUnsupported | DiagMalformed error | DiagNotUtf8 | DiagDecimals

record field_diagnostic =
  fd_key_hash :: bytes
  fd_known_key :: "known_key option"
  fd_error :: diagnostic_error
  fd_raw :: cell

record unknown_field =
  uf_key_hash :: bytes
  uf_raw :: cell
  uf_value :: tep64_value

text \<open>\<open>empty_cell\<close> builds from a fresh builder, which cannot fail.\<close>

definition empty_cell :: cell where
  "empty_cell = (case builder_build builder_new of Inr c \<Rightarrow> c | Inl _ \<Rightarrow> mk_cell [] [])"

definition string_from_bytes ::
    "bytes \<Rightarrow> known_key option \<Rightarrow> bytes \<Rightarrow> cell option \<Rightarrow> field_diagnostic list \<Rightarrow> bytes option \<times> field_diagnostic list" where
  "string_from_bytes h k bs raw ds =
     (if utf8_valid bs then (Some bs, ds)
      else (None, ds @ [\<lparr>fd_key_hash = h, fd_known_key = k, fd_error = DiagNotUtf8,
        fd_raw = (case raw of Some c \<Rightarrow> c | None \<Rightarrow> empty_cell)\<rparr>]))"

definition field_bytes :: "tep64_field \<Rightarrow> field_diagnostic list \<Rightarrow> bytes option \<times> field_diagnostic list" where
  "field_bytes f ds = (case tf_value f of
      SnakeValue bs \<Rightarrow> (Some bs, ds)
    | ChunkedValue chunks bs \<Rightarrow> (Some bs, ds)
    | UnsupportedValue tag bs \<Rightarrow>
        (None, ds @ [\<lparr>fd_key_hash = tf_key_hash f, fd_known_key = tf_known_key f, fd_error = DiagUnsupported, fd_raw = tf_raw f\<rparr>])
    | MalformedValue e \<Rightarrow>
        (None, ds @ [\<lparr>fd_key_hash = tf_key_hash f, fd_known_key = tf_known_key f, fd_error = DiagMalformed e, fd_raw = tf_raw f\<rparr>]))"

definition field_string :: "tep64_field \<Rightarrow> field_diagnostic list \<Rightarrow> bytes option \<times> field_diagnostic list" where
  "field_string f ds = (case field_bytes f ds of
      (None, ds) \<Rightarrow> (None, ds)
    | (Some bs, ds) \<Rightarrow> string_from_bytes (tf_key_hash f) (tf_known_key f) bs (Some (tf_raw f)) ds)"

text \<open>\<open>str::parse::<u8>\<close>: an optional plus sign and at least one digit, below 256.\<close>

fun parse_u8_digits :: "nat \<Rightarrow> bytes \<Rightarrow> u8 option" where
  "parse_u8_digits acc [] = Some (word_of_nat acc)"
| "parse_u8_digits acc (b # bs) =
     (if b < 48 \<or> 57 < b then None
      else let acc = acc * 10 + unat (b - 48) in if 255 < acc then None else parse_u8_digits acc bs)"

definition parse_u8 :: "bytes \<Rightarrow> u8 option" where
  "parse_u8 bs = (case bs of
      [] \<Rightarrow> None
    | b # cs \<Rightarrow> if (b = 43 \<or> b = 45) \<and> cs = [] then None
        else if b = 43 then parse_u8_digits 0 cs else parse_u8_digits 0 bs)"

definition field_decimals :: "tep64_field \<Rightarrow> field_diagnostic list \<Rightarrow> u8 option \<times> field_diagnostic list" where
  "field_decimals f ds = (case field_bytes f ds of
      (None, ds) \<Rightarrow> (None, ds)
    | (Some bs, ds) \<Rightarrow> (case string_from_bytes (tf_key_hash f) (tf_known_key f) bs (Some (tf_raw f)) ds of
          (None, ds) \<Rightarrow> (None, ds)
        | (Some text, ds) \<Rightarrow> (case parse_u8 text of
              Some n \<Rightarrow> (Some n, ds)
            | None \<Rightarrow> (None, ds @ [\<lparr>fd_key_hash = tf_key_hash f, fd_known_key = tf_known_key f, fd_error = DiagDecimals, fd_raw = tf_raw f\<rparr>]))))"

definition unknown_of :: "tep64_field \<Rightarrow> unknown_field" where
  "unknown_of f = \<lparr>uf_key_hash = tf_key_hash f, uf_raw = tf_raw f, uf_value = tf_value f\<rparr>"

section \<open>Jetton metadata\<close>

record jetton_metadata =
  jm_uri :: "bytes option"
  jm_name :: "bytes option"
  jm_description :: "bytes option"
  jm_image :: "bytes option"
  jm_image_data :: "bytes option"
  jm_symbol :: "bytes option"
  jm_decimals :: "u8 option"
  jm_amount_style :: "bytes option"
  jm_raw_content :: tep64_content
  jm_unknown_fields :: "unknown_field list"
  jm_field_diagnostics :: "field_diagnostic list"

definition jetton_apply_field :: "jetton_metadata \<Rightarrow> tep64_field \<Rightarrow> jetton_metadata" where
  "jetton_apply_field m f =
     (let ds = jm_field_diagnostics m; (text, ds1) = field_string f ds; (bs, ds2) = field_bytes f ds; (n, ds3) = field_decimals f ds in
      case tf_known_key f of
        None \<Rightarrow> m\<lparr>jm_unknown_fields := jm_unknown_fields m @ [unknown_of f]\<rparr>
      | Some k \<Rightarrow> (case k of
            KeyUri \<Rightarrow> m\<lparr>jm_uri := text, jm_field_diagnostics := ds1\<rparr>
          | KeyName \<Rightarrow> m\<lparr>jm_name := text, jm_field_diagnostics := ds1\<rparr>
          | KeyDescription \<Rightarrow> m\<lparr>jm_description := text, jm_field_diagnostics := ds1\<rparr>
          | KeyImage \<Rightarrow> m\<lparr>jm_image := text, jm_field_diagnostics := ds1\<rparr>
          | KeyImageData \<Rightarrow> m\<lparr>jm_image_data := bs, jm_field_diagnostics := ds2\<rparr>
          | KeySymbol \<Rightarrow> m\<lparr>jm_symbol := text, jm_field_diagnostics := ds1\<rparr>
          | KeyDecimals \<Rightarrow> m\<lparr>jm_decimals := n, jm_field_diagnostics := ds3\<rparr>
          | KeyAmountStyle \<Rightarrow> m\<lparr>jm_amount_style := text, jm_field_diagnostics := ds1\<rparr>
          | _ \<Rightarrow> m\<lparr>jm_unknown_fields := jm_unknown_fields m @ [unknown_of f]\<rparr>))"

definition jetton_from_content :: "crates \<Rightarrow> tep64_content \<Rightarrow> jetton_metadata" where
  "jetton_from_content X content =
     (let m = \<lparr>jm_uri = None, jm_name = None, jm_description = None, jm_image = None, jm_image_data = None, jm_symbol = None,
        jm_decimals = None, jm_amount_style = None, jm_raw_content = content, jm_unknown_fields = [], jm_field_diagnostics = []\<rparr> in
      case content of
        OffChain uri _ \<Rightarrow>
          (let (text, ds) = string_from_bytes (key_hash X KeyUri) (Some KeyUri) uri None [] in
           m\<lparr>jm_uri := text, jm_field_diagnostics := ds\<rparr>)
      | OnChain fs _ \<Rightarrow> foldl jetton_apply_field m fs
      | UnsupportedContent _ _ \<Rightarrow> m)"

section \<open>NFT metadata\<close>

record nft_metadata =
  nm_uri :: "bytes option"
  nm_name :: "bytes option"
  nm_description :: "bytes option"
  nm_image :: "bytes option"
  nm_image_data :: "bytes option"
  nm_render_type :: "bytes option"
  nm_content_url :: "bytes option"
  nm_video :: "bytes option"
  nm_raw_content :: tep64_content
  nm_unknown_fields :: "unknown_field list"
  nm_field_diagnostics :: "field_diagnostic list"

definition preserve_unknown :: "nft_metadata \<Rightarrow> tep64_field \<Rightarrow> nft_metadata" where
  "preserve_unknown m f = m\<lparr>nm_unknown_fields := nm_unknown_fields m @ [unknown_of f]\<rparr>"

definition nft_apply_field :: "nft_metadata \<Rightarrow> tep64_field \<Rightarrow> nft_metadata" where
  "nft_apply_field m f =
     (let ds = nm_field_diagnostics m; (text, ds1) = field_string f ds; (bs, ds2) = field_bytes f ds in
      case tf_known_key f of
        None \<Rightarrow> preserve_unknown m f
      | Some k \<Rightarrow> (case k of
            KeyUri \<Rightarrow> m\<lparr>nm_uri := text, nm_field_diagnostics := ds1\<rparr>
          | KeyName \<Rightarrow> m\<lparr>nm_name := text, nm_field_diagnostics := ds1\<rparr>
          | KeyDescription \<Rightarrow> m\<lparr>nm_description := text, nm_field_diagnostics := ds1\<rparr>
          | KeyImage \<Rightarrow> m\<lparr>nm_image := text, nm_field_diagnostics := ds1\<rparr>
          | KeyImageData \<Rightarrow> m\<lparr>nm_image_data := bs, nm_field_diagnostics := ds2\<rparr>
          | KeyRenderType \<Rightarrow> m\<lparr>nm_render_type := text, nm_field_diagnostics := ds1\<rparr>
          | KeyContentUrl \<Rightarrow> m\<lparr>nm_content_url := text, nm_field_diagnostics := ds1\<rparr>
          | KeyVideo \<Rightarrow> m\<lparr>nm_video := text, nm_field_diagnostics := ds1\<rparr>
          | _ \<Rightarrow> preserve_unknown m f))"

definition nft_from_content :: "crates \<Rightarrow> tep64_content \<Rightarrow> nft_metadata" where
  "nft_from_content X content =
     (let m = \<lparr>nm_uri = None, nm_name = None, nm_description = None, nm_image = None, nm_image_data = None, nm_render_type = None,
        nm_content_url = None, nm_video = None, nm_raw_content = content, nm_unknown_fields = [], nm_field_diagnostics = []\<rparr> in
      case content of
        OffChain uri _ \<Rightarrow>
          (let (text, ds) = string_from_bytes (key_hash X KeyUri) (Some KeyUri) uri None [] in
           m\<lparr>nm_uri := text, nm_field_diagnostics := ds\<rparr>)
      | OnChain fs _ \<Rightarrow> foldl nft_apply_field m fs
      | UnsupportedContent _ _ \<Rightarrow> m)"

section \<open>Entries of result stacks\<close>

text \<open>Indexing out of range panics; the length of the stack is checked first.\<close>

definition stack_entry_int :: "stack_entry list \<Rightarrow> nat \<Rightarrow> int result" where
  "stack_entry_int st i = and_then (index_or_panic st i) (\<lambda>e. case e of
      StackInt v \<Rightarrow> Inr v | _ \<Rightarrow> Inl (TokenErr (TokenStackType i ''integer'' (stack_entry_name e))))"

definition stack_entry_cell :: "stack_entry list \<Rightarrow> nat \<Rightarrow> cell result" where
  "stack_entry_cell st i = and_then (index_or_panic st i) (\<lambda>e. case e of
      StackCell c \<Rightarrow> Inr c | _ \<Rightarrow> Inl (TokenErr (TokenStackType i ''cell'' (stack_entry_name e))))"

definition stack_entry_cell_like :: "stack_entry list \<Rightarrow> nat \<Rightarrow> string \<Rightarrow> cell result" where
  "stack_entry_cell_like st i expected = and_then (index_or_panic st i) (\<lambda>e. case e of
      StackSlice c \<Rightarrow> Inr c | StackCell c \<Rightarrow> Inr c | _ \<Rightarrow> Inl (TokenErr (TokenStackType i expected (stack_entry_name e))))"

definition content_err :: "string \<Rightarrow> 'a result \<Rightarrow> 'a result" where
  "content_err method r = map_err (\<lambda>e. case e of MetadataErr m \<Rightarrow> TokenErr (TokenMalformedContent method m) | _ \<Rightarrow> e) r"

definition parse_non_negative_int :: "int \<Rightarrow> string \<Rightarrow> nat result" where
  "parse_non_negative_int v field = (if v < 0 then Inl (TokenErr (TokenInvalidInteger field)) else Inr (nat v))"

definition parse_optional_standard_address :: "crates \<Rightarrow> cell \<Rightarrow> address option result" where
  "parse_optional_standard_address X c =
     and_then (map_err (\<lambda>_. TokenErr TokenMalformedAddress) (load_msg_address X (slice_new c))) (\<lambda>(m, s).
     and_then (map_err (\<lambda>_. TokenErr TokenMalformedAddress) (ensure_empty s)) (\<lambda>_.
     case m of
       AddrExt AddrNone \<Rightarrow> Inr None
     | AddrInt (AddrStd anycast a) \<Rightarrow> if anycast \<noteq> None then Inl (TokenErr TokenMalformedAddress) else Inr (Some a)
     | AddrInt (AddrVar _ _ _ _) \<Rightarrow> Inl (TokenErr TokenMalformedAddress)
     | AddrExt (AddrExtern _ _) \<Rightarrow> Inl (TokenErr TokenMalformedAddress)))"

section \<open>Jetton masters\<close>

definition JETTON_DATA_STACK_LEN :: nat where "JETTON_DATA_STACK_LEN = 5"

record jetton_master_data =
  jd_total_supply :: nat
  jd_mintable :: bool
  jd_admin_address :: "address option"
  jd_content :: tep64_content
  jd_wallet_code :: cell

definition parse_supply :: "int \<Rightarrow> nat result" where
  "parse_supply v = (if v < 0 then Inl (TokenErr (TokenInvalidInteger ''total_supply'')) else Inr (nat v))"

definition parse_mintable :: "int \<Rightarrow> bool result" where
  "parse_mintable v = (if v = - 1 then Inr True else if v = 0 then Inr False else Inl (TokenErr (TokenInvalidInteger ''mintable'')))"

definition parse_admin_address :: "crates \<Rightarrow> cell \<Rightarrow> address option result" where
  "parse_admin_address X c =
     and_then (map_err (\<lambda>_. TokenErr TokenMalformedAddress) (load_msg_address X (slice_new c))) (\<lambda>(m, s).
     and_then (map_err (\<lambda>_. TokenErr TokenMalformedAddress) (ensure_empty s)) (\<lambda>_.
     case m of
       AddrExt AddrNone \<Rightarrow> Inr None
     | AddrInt (AddrStd anycast a) \<Rightarrow> if anycast \<noteq> None then Inl (TokenErr TokenMalformedAddress) else Inr (Some a)
     | AddrInt (AddrVar _ _ _ _) \<Rightarrow> Inl (TokenErr TokenMalformedAddress)
     | AddrExt (AddrExtern _ _) \<Rightarrow> Inl (TokenErr TokenMalformedAddress)))"

definition decode_jetton_master_data :: "crates \<Rightarrow> stack_entry list \<Rightarrow> jetton_master_data result" where
  "decode_jetton_master_data X st =
     (if length st \<noteq> JETTON_DATA_STACK_LEN then Inl (TokenErr (TokenStackLength (length st) JETTON_DATA_STACK_LEN))
      else
        and_then (stack_entry_int st 0) (\<lambda>v.
        and_then (parse_supply v) (\<lambda>total_supply.
        and_then (stack_entry_int st 1) (\<lambda>v.
        and_then (parse_mintable v) (\<lambda>mintable.
        and_then (stack_entry_cell_like st 2 ''slice/cell'') (\<lambda>c.
        and_then (parse_admin_address X c) (\<lambda>admin.
        and_then (stack_entry_cell st 3) (\<lambda>c.
        and_then (content_err ''get_jetton_data'' (parse_tep64_content X c)) (\<lambda>content.
        and_then (stack_entry_cell st 4) (\<lambda>code.
        Inr \<lparr>jd_total_supply = total_supply, jd_mintable = mintable, jd_admin_address = admin, jd_content = content,
          jd_wallet_code = code\<rparr>))))))))))"

definition decode_jetton_master_data_stack :: "crates \<Rightarrow> tvm_stack \<Rightarrow> jetton_master_data result" where
  "decode_jetton_master_data_stack X st = decode_jetton_master_data X (stack_entries st)"

definition jetton_data_metadata :: "crates \<Rightarrow> jetton_master_data \<Rightarrow> jetton_metadata" where
  "jetton_data_metadata X d = jetton_from_content X (jd_content d)"

type_synonym get_method = "string \<Rightarrow> stack_entry list \<Rightarrow> stack_entry list result"

definition jetton_master_data_latest :: "crates \<Rightarrow> get_method \<Rightarrow> jetton_master_data result" where
  "jetton_master_data_latest X run = and_then (run ''get_jetton_data'' []) (decode_jetton_master_data X)"

definition jetton_metadata_latest :: "crates \<Rightarrow> get_method \<Rightarrow> jetton_metadata result" where
  "jetton_metadata_latest X run = and_then (jetton_master_data_latest X run) (\<lambda>d. Inr (jetton_data_metadata X d))"

section \<open>NFT items and collections\<close>

definition COLLECTION_DATA_STACK_LEN :: nat where "COLLECTION_DATA_STACK_LEN = 3"
definition NFT_DATA_STACK_LEN :: nat where "NFT_DATA_STACK_LEN = 5"
definition NFT_CONTENT_STACK_LEN :: nat where "NFT_CONTENT_STACK_LEN = 1"

record nft_collection_data =
  nc_next_item_index :: nat
  nc_content :: tep64_content
  nc_owner_address :: "address option"

record nft_item_data =
  ni_initialized :: bool
  ni_index :: nat
  ni_collection_address :: "address option"
  ni_owner_address :: "address option"
  ni_individual_content :: cell

definition decode_nft_collection_data :: "crates \<Rightarrow> stack_entry list \<Rightarrow> nft_collection_data result" where
  "decode_nft_collection_data X st =
     (if length st \<noteq> COLLECTION_DATA_STACK_LEN then Inl (TokenErr (TokenStackLength (length st) COLLECTION_DATA_STACK_LEN))
      else
        and_then (stack_entry_int st 0) (\<lambda>v.
        and_then (parse_non_negative_int v ''next_item_index'') (\<lambda>next_item_index.
        and_then (stack_entry_cell st 1) (\<lambda>c.
        and_then (content_err ''get_collection_data'' (parse_tep64_content X c)) (\<lambda>content.
        and_then (stack_entry_cell_like st 2 ''slice/cell'') (\<lambda>c.
        and_then (parse_optional_standard_address X c) (\<lambda>owner.
        Inr \<lparr>nc_next_item_index = next_item_index, nc_content = content, nc_owner_address = owner\<rparr>)))))))"

definition decode_nft_item_data :: "crates \<Rightarrow> stack_entry list \<Rightarrow> nft_item_data result" where
  "decode_nft_item_data X st =
     (if length st \<noteq> NFT_DATA_STACK_LEN then Inl (TokenErr (TokenStackLength (length st) NFT_DATA_STACK_LEN))
      else
        and_then (stack_entry_int st 0) (\<lambda>init.
        and_then (stack_entry_int st 1) (\<lambda>v.
        and_then (parse_non_negative_int v ''index'') (\<lambda>index.
        and_then (stack_entry_cell_like st 2 ''slice/cell'') (\<lambda>c.
        and_then (parse_optional_standard_address X c) (\<lambda>collection.
        and_then (stack_entry_cell_like st 3 ''slice/cell'') (\<lambda>c.
        and_then (parse_optional_standard_address X c) (\<lambda>owner.
        and_then (stack_entry_cell st 4) (\<lambda>content.
        Inr \<lparr>ni_initialized = (init \<noteq> 0), ni_index = index, ni_collection_address = collection, ni_owner_address = owner,
          ni_individual_content = content\<rparr>)))))))))"

definition parse_nft_metadata_cell :: "crates \<Rightarrow> cell \<Rightarrow> nft_metadata result" where
  "parse_nft_metadata_cell X c =
     and_then (content_err ''TEP-64'' (parse_tep64_content X c)) (\<lambda>content. Inr (nft_from_content X content))"

definition decode_nft_full_content_metadata :: "crates \<Rightarrow> stack_entry list \<Rightarrow> nft_metadata result" where
  "decode_nft_full_content_metadata X st =
     (if length st \<noteq> NFT_CONTENT_STACK_LEN then Inl (TokenErr (TokenStackLength (length st) NFT_CONTENT_STACK_LEN))
      else and_then (stack_entry_cell st 0) (parse_nft_metadata_cell X))"

definition nft_item_data_latest :: "crates \<Rightarrow> get_method \<Rightarrow> nft_item_data result" where
  "nft_item_data_latest X run = and_then (run ''get_nft_data'' []) (decode_nft_item_data X)"

definition nft_collection_data_latest :: "crates \<Rightarrow> get_method \<Rightarrow> nft_collection_data result" where
  "nft_collection_data_latest X run = and_then (run ''get_collection_data'' []) (decode_nft_collection_data X)"

definition nft_collection_metadata_latest :: "crates \<Rightarrow> get_method \<Rightarrow> nft_metadata result" where
  "nft_collection_metadata_latest X run =
     and_then (nft_collection_data_latest X run) (\<lambda>d. Inr (nft_from_content X (nc_content d)))"

definition nft_item_metadata_latest :: "crates \<Rightarrow> get_method \<Rightarrow> nft_metadata result" where
  "nft_item_metadata_latest X run =
     and_then (nft_item_data_latest X run) (\<lambda>d.
     if ni_collection_address d \<noteq> None then Inl (TokenErr TokenCollectionContentRequired)
     else parse_nft_metadata_cell X (ni_individual_content d))"

definition nft_full_item_metadata_latest :: "crates \<Rightarrow> get_method \<Rightarrow> nft_item_data \<Rightarrow> nft_metadata result" where
  "nft_full_item_metadata_latest X run d =
     and_then (run ''get_nft_content'' [StackInt (int (ni_index d)), StackCell (ni_individual_content d)])
       (decode_nft_full_content_metadata X)"

section \<open>Published metadata\<close>

lemma all_known_keys_complete: "k \<in> set all_known_keys"
  by (cases k) (simp_all add: all_known_keys_def)

lemma known_key_str_inject [simp]: "known_key_str j = known_key_str k \<longleftrightarrow> j = k"
  by (cases j; cases k) simp_all

lemma known_key_by_hash_name:
  assumes "inj_on (tep64_key_hash X) (insert n (range known_key_str))"
  shows "known_key_by_hash X (tep64_key_hash X n) = Some k \<longleftrightarrow> n = known_key_str k"
proof -
  have h: "key_hash X j = tep64_key_hash X n \<longleftrightarrow> n = known_key_str j" for j
    using inj_onD[OF assms, of "known_key_str j" n] by (auto simp: key_hash_def)
  then have "known_key_by_hash X (tep64_key_hash X n) = find (\<lambda>j. n = known_key_str j) all_known_keys"
    by (simp add: known_key_by_hash_def)
  moreover have "find (\<lambda>j. n = known_key_str j) ks = Some k \<longleftrightarrow> k \<in> set ks \<and> n = known_key_str k" for ks
    by (induction ks) auto
  ultimately show ?thesis using all_known_keys_complete by simp
qed

text \<open>A slot that at most one element of a list writes holds what that element wrote.\<close>

lemma foldl_slot_kept:
  assumes "\<And>m f. f \<in> set fs \<Longrightarrow> get (step m f) = get m"
  shows "get (foldl step m fs) = get m"
  using assms by (induction fs arbitrary: m) simp_all

lemma foldl_slot_written:
  assumes "\<And>m f. f \<in> set fs \<Longrightarrow> get (step m f) = (if P f then w else get m)" "f0 \<in> set fs" "P f0"
  shows "get (foldl step m fs) = w"
  using assms
proof (induction fs rule: rev_induct)
  case (snoc f fs)
  then show ?case by (cases "P f") (auto simp: snoc.IH)
qed simp

definition text_field :: "crates \<Rightarrow> string \<times> bytes \<Rightarrow> tep64_field" where
  "text_field X = (\<lambda>(n, t). \<lparr>tf_key_hash = tep64_key_hash X n, tf_known_key = known_key_by_hash X (tep64_key_hash X n),
     tf_value = SnakeValue t, tf_raw = text_cell t\<rparr>)"

lemma text_field_simps [simp]:
  "tf_key_hash (text_field X (n, t)) = tep64_key_hash X n"
  "tf_known_key (text_field X (n, t)) = known_key_by_hash X (tep64_key_hash X n)"
  "tf_value (text_field X (n, t)) = SnakeValue t" "tf_raw (text_field X (n, t)) = text_cell t"
  by (simp_all add: text_field_def)

lemma published_slot:
  assumes names: "distinct (map fst entries)" "inj_on (tep64_key_hash X) (fst ` set entries \<union> range known_key_str)"
    and fs: "set fs = text_field X ` set entries"
    and step: "\<And>m n t. (n, t) \<in> set entries \<Longrightarrow>
      get (step m (text_field X (n, t))) = (if known_key_by_hash X (tep64_key_hash X n) = Some k then v t else get m)"
  shows "get (foldl step m fs) = (case map_of entries (known_key_str k) of Some t \<Rightarrow> v t | None \<Rightarrow> get m)"
proof -
  have key: "known_key_by_hash X (tep64_key_hash X n) = Some k \<longleftrightarrow> n = known_key_str k" if "(n, t) \<in> set entries" for n t
    using that by (intro known_key_by_hash_name inj_on_subset[OF names(2)]) force
  show ?thesis
  proof (cases "map_of entries (known_key_str k)")
    case None
    then have no: "n \<noteq> known_key_str k" if "(n, t) \<in> set entries" for n t using that by (force simp: map_of_eq_None_iff)
    have "get (step m f) = get m" if f: "f \<in> set fs" for m f
    proof -
      obtain n t where "(n, t) \<in> set entries" "f = text_field X (n, t)" using f fs by auto
      then show ?thesis using step no key by simp
    qed
    then show ?thesis using foldl_slot_kept[of fs get step m] None by simp
  next
    case (Some t)
    then have t: "(known_key_str k, t) \<in> set entries" by (rule map_of_SomeD)
    have "t' = t" if "(known_key_str k, t') \<in> set entries" for t' using that Some names(1) by simp
    then have "get (step m f) = (if tf_known_key f = Some k then v t else get m)" if f: "f \<in> set fs" for m f
    proof -
      obtain n t' where "(n, t') \<in> set entries" "f = text_field X (n, t')" using f fs by auto
      then show ?thesis using step key \<open>\<And>t'. (known_key_str k, t') \<in> set entries \<Longrightarrow> t' = t\<close> by auto
    qed
    then show ?thesis using foldl_slot_written[of fs get step "\<lambda>f. tf_known_key f = Some k" "v t" "text_field X (known_key_str k, t)" m] t Some fs key
      by auto
  qed
qed

text \<open>The text a field of the metadata holds, and the names a jetton gives a field to.\<close>

fun jetton_text :: "known_key \<Rightarrow> jetton_metadata \<Rightarrow> bytes option" where
  "jetton_text KeyUri m = jm_uri m"
| "jetton_text KeyName m = jm_name m"
| "jetton_text KeyDescription m = jm_description m"
| "jetton_text KeyImage m = jm_image m"
| "jetton_text KeyImageData m = jm_image_data m"
| "jetton_text KeySymbol m = jm_symbol m"
| "jetton_text KeyAmountStyle m = jm_amount_style m"
| "jetton_text _ m = None"

definition jetton_text_keys :: "known_key set" where
  "jetton_text_keys = {KeyUri, KeyName, KeyDescription, KeyImage, KeyImageData, KeySymbol, KeyAmountStyle}"

lemma snake_field_values [simp]:
  "tf_value f = SnakeValue t \<Longrightarrow> field_bytes f ds = (Some t, ds)"
  "tf_value f = SnakeValue t \<Longrightarrow> utf8_valid t \<Longrightarrow> field_string f ds = (Some t, ds)"
  by (simp_all add: field_bytes_def field_string_def string_from_bytes_def)

lemma jetton_apply_text:
  assumes "tf_value f = SnakeValue t" "utf8_valid t" "k \<in> jetton_text_keys"
  shows "jetton_text k (jetton_apply_field m f) = (if tf_known_key f = Some k then Some t else jetton_text k m)"
  using assms by (auto simp: jetton_apply_field_def jetton_text_keys_def Let_def split: option.split known_key.split prod.split)

lemma jetton_apply_decimals:
  assumes "tf_value f = SnakeValue t" "utf8_valid t"
  shows "jm_decimals (jetton_apply_field m f) = (if tf_known_key f = Some KeyDecimals then parse_u8 t else jm_decimals m)"
  using assms by (auto simp: jetton_apply_field_def field_decimals_def string_from_bytes_def Let_def
      split: option.split known_key.split prod.split)

lemma jetton_apply_unknown:
  "jm_unknown_fields (jetton_apply_field m f) = jm_unknown_fields m @
     (if tf_known_key f \<in> Some ` (insert KeyDecimals jetton_text_keys) then [] else [unknown_of f])"
  by (auto simp: jetton_apply_field_def jetton_text_keys_def Let_def split: option.split known_key.split prod.split)

lemma jetton_unknown_fields:
  "jm_unknown_fields (foldl jetton_apply_field m fs) = jm_unknown_fields m @
     map unknown_of (filter (\<lambda>f. tf_known_key f \<notin> Some ` (insert KeyDecimals jetton_text_keys)) fs)"
  by (induction fs arbitrary: m) (simp_all add: jetton_apply_unknown)

definition blank_jetton :: "tep64_content \<Rightarrow> jetton_metadata" where
  "blank_jetton content = \<lparr>jm_uri = None, jm_name = None, jm_description = None, jm_image = None, jm_image_data = None,
     jm_symbol = None, jm_decimals = None, jm_amount_style = None, jm_raw_content = content, jm_unknown_fields = [],
     jm_field_diagnostics = []\<rparr>"

lemma blank_jetton_simps [simp]:
  "jetton_text k (blank_jetton content) = None" "jm_decimals (blank_jetton content) = None"
  "jm_unknown_fields (blank_jetton content) = []"
  by (cases k) (simp_all add: blank_jetton_def)

lemma jetton_from_onchain: "jetton_from_content X (OnChain fs c) = foldl jetton_apply_field (blank_jetton (OnChain fs c)) fs"
  by (simp add: jetton_from_content_def blank_jetton_def)

lemma jetton_published:
  assumes names: "distinct (map fst entries)" "inj_on (tep64_key_hash X) (fst ` set entries \<union> range known_key_str)"
    and utf8: "\<forall>e \<in> set entries. utf8_valid (snd e)" and fs: "set fs = text_field X ` set entries"
    and m_def: "m = jetton_from_content X (OnChain fs c)"
  shows "k \<in> jetton_text_keys \<Longrightarrow> jetton_text k m = map_of entries (known_key_str k)"
    and "jm_decimals m = Option.bind (map_of entries ''decimals'') parse_u8"
    and "(\<lambda>u. (uf_key_hash u, uf_value u)) ` set (jm_unknown_fields m) =
      {(tep64_key_hash X n, SnakeValue t) | n t. (n, t) \<in> set entries \<and> n \<notin> known_key_str ` insert KeyDecimals jetton_text_keys}"
proof -
  note slot = published_slot[OF names fs]
  show "jetton_text k m = map_of entries (known_key_str k)" if k: "k \<in> jetton_text_keys"
  proof -
    have "jetton_text k m = (case map_of entries (known_key_str k) of Some t \<Rightarrow> Some t | None \<Rightarrow> jetton_text k (blank_jetton (OnChain fs c)))"
      unfolding m_def jetton_from_onchain by (rule slot) (use k utf8 in \<open>auto simp: jetton_apply_text\<close>)
    then show ?thesis by (simp split: option.splits)
  qed
  have "jm_decimals m = (case map_of entries (known_key_str KeyDecimals) of Some t \<Rightarrow> parse_u8 t | None \<Rightarrow> jm_decimals (blank_jetton (OnChain fs c)))"
    unfolding m_def jetton_from_onchain by (rule slot) (use utf8 in \<open>auto simp: jetton_apply_decimals\<close>)
  then show "jm_decimals m = Option.bind (map_of entries ''decimals'') parse_u8" by (simp split: option.splits)
  have key: "known_key_by_hash X (tep64_key_hash X n) \<in> Some ` K \<longleftrightarrow> n \<in> known_key_str ` K" if "(n, t) \<in> set entries" for n t K
  proof -
    have "known_key_by_hash X (tep64_key_hash X n) = Some k \<longleftrightarrow> n = known_key_str k" for k
      using that by (intro known_key_by_hash_name inj_on_subset[OF names(2)]) force
    then show ?thesis by (simp add: image_iff)
  qed
  show "(\<lambda>u. (uf_key_hash u, uf_value u)) ` set (jm_unknown_fields m) =
      {(tep64_key_hash X n, SnakeValue t) | n t. (n, t) \<in> set entries \<and> n \<notin> known_key_str ` insert KeyDecimals jetton_text_keys}"
    (is "?g ` _ = ?R")
  proof -
    let ?K = "insert KeyDecimals jetton_text_keys"
    have "tf_known_key (text_field X e) \<in> Some ` ?K \<longleftrightarrow> fst e \<in> known_key_str ` ?K" if "e \<in> set entries" for e
      using key[of "fst e" "snd e" ?K] that by (cases e) (simp del: image_insert insert_iff)
    then have "{e \<in> set entries. tf_known_key (text_field X e) \<notin> Some ` ?K} = {e \<in> set entries. fst e \<notin> known_key_str ` ?K}"
      by (simp cong: conj_cong del: image_insert insert_iff)
    then have "{f \<in> set fs. tf_known_key f \<notin> Some ` ?K} = text_field X ` {e \<in> set entries. fst e \<notin> known_key_str ` ?K}"
      unfolding fs Compr_image_eq by simp
    then have "?g ` set (jm_unknown_fields m) = (\<lambda>e. ?g (unknown_of (text_field X e))) ` {e \<in> set entries. fst e \<notin> known_key_str ` ?K}"
      unfolding m_def jetton_from_onchain jetton_unknown_fields by (simp add: image_image)
    also have "\<dots> = ?R" by (force simp: unknown_of_def)
    finally show ?thesis .
  qed
qed

lemma parse_admin_address_eq:
  assumes "decode_address_slice X c = Inr a"
  shows "parse_admin_address X c = Inr (Some a)"
proof -
  obtain s where "load_msg_address X (slice_new c) = Inr (AddrInt (AddrStd None a), s)" "slice_is_empty s"
    using assms by (auto simp: decode_address_slice_def std_internal_def and_then_eq_Inr
        split: if_splits msg_address.splits msg_address_int.splits option.splits)
  then show ?thesis by (simp add: parse_admin_address_def ensure_empty_def map_err_def)
qed

context publishing
begin

lemma published_fields:
  assumes "distinct (map fst entries)" "inj_on (tep64_key_hash X) (fst ` set entries)"
  obtains c fs where "onchain_content X entries = Inr c" "wf_cell c" "parse_tep64_content X c = Inr (OnChain fs c)"
    "set fs = text_field X ` set entries"
proof -
  have "distinct (map (tep64_key_hash X \<circ> fst) entries)"
    using assms by (simp add: distinct_map comp_inj_on_iff flip: map_map)
  from onchain_reads[OF this] show ?thesis using that by (auto simp: text_field_def)
qed

end

text \<open>
  C33: a jetton master publishes named UTF-8 texts as a TEP-64 dictionary.  If the hashes of the names and of the standard names
  differ, the result of \<open>get_jetton_data\<close> decodes to its total supply, its mintable flag, its admin and its code, and the metadata
  made from it hold exactly the published text under each standard name (none where none was published), the published decimals
  if they parse, and every other name among the unknown fields.
\<close>

theorem jetton_metadata_published:
  fixes total :: nat
  assumes "bignum X" "hashing X" "distinct (map fst entries)"
    "inj_on (tep64_key_hash X) (fst ` set entries \<union> range known_key_str)"
    "\<forall>e \<in> set entries. utf8_valid (snd e)" "length (hash_part admin) = 32"
  shows "\<exists>c ac d. onchain_content X entries = Inr c \<and> wf_cell c \<and> address_slice_cell X admin = Inr ac
    \<and> decode_jetton_master_data X [StackInt (int total), StackInt (if mintable then - 1 else 0), StackSlice ac, StackCell c, StackCell code]
        = Inr d
    \<and> jd_total_supply d = total \<and> jd_mintable d = mintable \<and> jd_wallet_code d = code
    \<and> jd_admin_address d = Some (new_address (workchain admin) (hash_part admin))
    \<and> (\<forall>k \<in> jetton_text_keys. jetton_text k (jetton_data_metadata X d) = map_of entries (known_key_str k))
    \<and> jm_decimals (jetton_data_metadata X d) = Option.bind (map_of entries ''decimals'') parse_u8
    \<and> (\<lambda>u. (uf_key_hash u, uf_value u)) ` set (jm_unknown_fields (jetton_data_metadata X d)) =
        {(tep64_key_hash X n, SnakeValue t) | n t. (n, t) \<in> set entries \<and> n \<notin> known_key_str ` insert KeyDecimals jetton_text_keys}"
proof -
  have pub: "publishing X" using assms(1,2) by (rule publishing.intro)
  have inj: "inj_on (tep64_key_hash X) (fst ` set entries)" using assms(4) by (rule inj_on_subset) simp
  obtain c fs where c: "onchain_content X entries = Inr c" "wf_cell c" "parse_tep64_content X c = Inr (OnChain fs c)"
    "set fs = text_field X ` set entries" using publishing.published_fields[OF pub assms(3) inj] .
  obtain ac where ac: "address_slice_cell X admin = Inr ac"
    "parse_admin_address X ac = Inr (Some (new_address (workchain admin) (hash_part admin)))"
    using bignum.address_on_stack[OF assms(1,6)] parse_admin_address_eq by blast
  define d where "d = \<lparr>jd_total_supply = total, jd_mintable = mintable,
    jd_admin_address = Some (new_address (workchain admin) (hash_part admin)), jd_content = OnChain fs c, jd_wallet_code = code\<rparr>"
  have dec: "decode_jetton_master_data X [StackInt (int total), StackInt (if mintable then - 1 else 0), StackSlice ac, StackCell c, StackCell code] = Inr d"
    using c(3) ac(2) by (simp add: decode_jetton_master_data_def JETTON_DATA_STACK_LEN_def d_def stack_entry_int_def stack_entry_cell_def
        stack_entry_cell_like_def index_or_panic_def parse_supply_def parse_mintable_def content_err_def map_err_def)
  have "jetton_data_metadata X d = jetton_from_content X (OnChain fs c)" by (simp add: jetton_data_metadata_def d_def)
  note meta = jetton_published[OF assms(3-5) c(4) this]
  show ?thesis using meta by (intro exI[of _ c] exI[of _ ac] exI[of _ d] conjI c ac dec ballI) (simp_all add: d_def)
qed

theorem jetton_metadata_published_witness:
  "\<exists>c ac d. onchain_content ref_crates [(''name'', [84, 79, 78]), (''decimals'', [57]), (''x'', [49])] = Inr c
    \<and> decode_jetton_master_data ref_crates [StackInt 1000, StackInt (- 1), StackSlice ac, StackCell c, StackCell (mk_cell [] [])] = Inr d
    \<and> jd_total_supply d = 1000 \<and> jd_mintable d \<and> jd_admin_address d = Some (new_address (- 1) (replicate 32 7))
    \<and> jm_name (jetton_data_metadata ref_crates d) = Some [84, 79, 78] \<and> jm_symbol (jetton_data_metadata ref_crates d) = None
    \<and> jm_decimals (jetton_data_metadata ref_crates d) = Some 9"
proof -
  let ?es = "[(''name'', [84, 79, 78]), (''decimals'', [57]), (''x'', [49])] :: (string \<times> bytes) list"
  let ?names = "''x'' # map known_key_str all_known_keys"
  have "distinct (map be_val (map (tep64_key_hash ref_crates) ?names))"
    by (simp add: all_known_keys_def tep64_key_hash_def be_val_be_bytes as_bytes_def of_char_def)
  then have "distinct (map (tep64_key_hash ref_crates) ?names)" by (simp only: distinct_map)
  then have "inj_on (tep64_key_hash ref_crates) (set ?names)" by (simp only: distinct_map)
  moreover have "range known_key_str \<subseteq> set ?names" using all_known_keys_complete by auto
  moreover have "fst ` set ?es \<subseteq> set ?names" by (simp add: all_known_keys_def)
  ultimately have inj: "inj_on (tep64_key_hash ref_crates) (fst ` set ?es \<union> range known_key_str)" by (blast intro: inj_on_subset)
  obtain c ac d where d: "onchain_content ref_crates ?es = Inr c"
    "decode_jetton_master_data ref_crates [StackInt (int 1000), StackInt (if True then - 1 else 0), StackSlice ac, StackCell c,
       StackCell (mk_cell [] [])] = Inr d" "jd_total_supply d = 1000" "jd_mintable d = True"
    "jd_admin_address d = Some (new_address (workchain (new_address (- 1) (replicate 32 7))) (hash_part (new_address (- 1) (replicate 32 7))))"
    "\<forall>k \<in> jetton_text_keys. jetton_text k (jetton_data_metadata ref_crates d) = map_of ?es (known_key_str k)"
    "jm_decimals (jetton_data_metadata ref_crates d) = Option.bind (map_of ?es ''decimals'') parse_u8"
    using jetton_metadata_published[OF ref_bignum.bignum_axioms ref_hashing.hashing_axioms _ inj,
        of "new_address (- 1) (replicate 32 7)" 1000 True "mk_cell [] []"] by (auto simp: new_address_def)
  have "jm_decimals (jetton_data_metadata ref_crates d) = Some 9" using d(7) by (simp add: parse_u8_def)
  moreover have "jm_name (jetton_data_metadata ref_crates d) = Some [84, 79, 78]" "jm_symbol (jetton_data_metadata ref_crates d) = None"
    using bspec[OF d(6), of KeyName] bspec[OF d(6), of KeySymbol] by (simp_all add: jetton_text_keys_def)
  ultimately show ?thesis using d(1-5) by (intro exI[of _ c] exI[of _ ac] exI[of _ d]) (simp add: new_address_def)
qed

end
