(* ===== verification/LiteDecode.thy ===== *)
theory LiteDecode
  imports TlbBlock BocInspect
begin

text \<open>
  The decoding of lite-server answers (\<open>src/liteclient/boc.rs\<close>): bags behind typed views, and the extraction of a shard account
  from proof material.  The \<open>context\<close> strings \<open>anyhow\<close> adds to errors are dropped.  An inspection is the list of root hashes
  \<open>inspect_boc\<close> returns; the hexadecimal texts of hashes are left out.
\<close>

record decoded_boc =
  db_raw :: bytes
  db_root :: cell

definition decoded_boc_decode :: "crates \<Rightarrow> bytes \<Rightarrow> decoded_boc result" where
  "decoded_boc_decode X raw = and_then (deserialize_boc X raw) (\<lambda>root. Inr \<lparr>db_raw = raw, db_root = root\<rparr>)"

record decoded_boc_roots =
  dr_raw :: bytes
  dr_roots :: "cell list"

definition decoded_boc_roots_decode :: "crates \<Rightarrow> bytes \<Rightarrow> decoded_boc_roots result" where
  "decoded_boc_roots_decode X raw = and_then (deserialize_boc_roots X raw) (\<lambda>roots. Inr \<lparr>dr_raw = raw, dr_roots = roots\<rparr>)"

record inspected_proof_boc =
  ip_raw :: bytes
  ip_inspection :: "bytes list"

definition inspected_proof_inspect :: "crates \<Rightarrow> bytes \<Rightarrow> inspected_proof_boc result" where
  "inspected_proof_inspect X raw = and_then (inspect_boc X raw) (\<lambda>i. Inr \<lparr>ip_raw = raw, ip_inspection = i\<rparr>)"

definition inspected_root_count :: "inspected_proof_boc \<Rightarrow> nat" where
  "inspected_root_count p = length (ip_inspection p)"

record extracted_shard_account =
  ex_proof :: decoded_boc
  ex_shard_account :: shard_account

section \<open>Typed views of bags\<close>

text \<open>A decoded bag with its typed view; the structs of the source differ in the type of the view only.\<close>

record 'a decoded_view =
  dv_boc :: decoded_boc
  dv_value :: 'a

definition decode_account_state_boc :: "crates \<Rightarrow> bytes \<Rightarrow> account decoded_view result" where
  "decode_account_state_boc X raw =
     and_then (decoded_boc_decode X raw) (\<lambda>boc.
     and_then (tlb_from_cell (load_account X) (db_root boc)) (\<lambda>account. Inr \<lparr>dv_boc = boc, dv_value = account\<rparr>))"

definition decode_block_boc :: "crates \<Rightarrow> bytes \<Rightarrow> block decoded_view result" where
  "decode_block_boc X raw =
     and_then (decoded_boc_decode X raw) (\<lambda>boc.
     and_then (tlb_from_cell (load_block X) (db_root boc)) (\<lambda>block. Inr \<lparr>dv_boc = boc, dv_value = block\<rparr>))"

definition decode_config_params_boc :: "crates \<Rightarrow> bytes \<Rightarrow> config_params decoded_view result" where
  "decode_config_params_boc X raw =
     and_then (decoded_boc_decode X raw) (\<lambda>boc.
     and_then (tlb_from_cell load_config_params (db_root boc)) (\<lambda>config. Inr \<lparr>dv_boc = boc, dv_value = config\<rparr>))"

definition decode_shard_state_boc :: "crates \<Rightarrow> bytes \<Rightarrow> shard_state decoded_view result" where
  "decode_shard_state_boc X raw =
     and_then (decoded_boc_decode X raw) (\<lambda>boc.
     and_then (tlb_from_cell (load_shard_state X) (db_root boc)) (\<lambda>st. Inr \<lparr>dv_boc = boc, dv_value = st\<rparr>))"

definition decode_shard_account_boc :: "crates \<Rightarrow> bytes \<Rightarrow> shard_account result" where
  "decode_shard_account_boc X raw =
     and_then (decoded_boc_decode X raw) (\<lambda>boc. tlb_from_cell (load_shard_account X) (db_root boc))"

definition decode_transaction_boc :: "crates \<Rightarrow> bytes \<Rightarrow> transaction result" where
  "decode_transaction_boc X raw =
     and_then (decoded_boc_decode X raw) (\<lambda>boc. tlb_from_cell (load_transaction X) (db_root boc))"

definition decode_merkle_proof_boc :: "crates \<Rightarrow> bytes \<Rightarrow> merkle_proof result" where
  "decode_merkle_proof_boc X raw = and_then (decoded_boc_decode X raw) (\<lambda>boc. proof_from_exotic_cell (db_root boc))"

definition decode_merkle_update_boc :: "crates \<Rightarrow> bytes \<Rightarrow> merkle_update result" where
  "decode_merkle_update_boc X raw = and_then (decoded_boc_decode X raw) (\<lambda>boc. update_from_exotic_cell (db_root boc))"

definition decode_optional_boc :: "crates \<Rightarrow> bytes \<Rightarrow> decoded_boc option result" where
  "decode_optional_boc X raw = (if raw = [] then Inr None else and_then (decoded_boc_decode X raw) (\<lambda>b. Inr (Some b)))"

definition inspect_optional_proof_boc :: "crates \<Rightarrow> bytes \<Rightarrow> inspected_proof_boc option result" where
  "inspect_optional_proof_boc X raw =
     (if raw = [] then Inr None else and_then (inspected_proof_inspect X raw) (\<lambda>p. Inr (Some p)))"

definition decode_optional_config :: "crates \<Rightarrow> bytes \<Rightarrow> config_params decoded_view option result" where
  "decode_optional_config X raw =
     (if raw = [] then Inr None else and_then (decode_config_params_boc X raw) (\<lambda>c. Inr (Some c)))"

definition decode_single_transaction_list :: "crates \<Rightarrow> bytes \<Rightarrow> transaction list result" where
  "decode_single_transaction_list X raw =
     (if raw = [] then Inr [] else and_then (decode_transaction_boc X raw) (\<lambda>t. Inr [t]))"

section \<open>Shard accounts\<close>

definition validate_account_address :: "msg_address_int \<Rightarrow> address \<Rightarrow> unit result" where
  "validate_account_address actual expected = (case actual of
      AddrStd _ a \<Rightarrow> if a = expected then Inr () else Inl (ProofErr WrongAccountHash)
    | AddrVar _ _ _ _ \<Rightarrow> Inl (ProofErr NonStandardAccountAddress))"

definition validate_shard_account :: "crates \<Rightarrow> shard_account \<Rightarrow> bytes \<Rightarrow> address \<Rightarrow> unit result" where
  "validate_shard_account X sa state_raw expected =
     and_then (case sa_account sa of
         AccountNone \<Rightarrow> Inr ()
       | AccountFull addr _ _ \<Rightarrow> validate_account_address addr expected) (\<lambda>_.
     if state_raw \<noteq> [] then
       and_then (decode_account_state_boc X state_raw) (\<lambda>v.
       if dv_value v \<noteq> sa_account sa then Inl (ProofErr StateProofMismatch) else Inr ())
     else Inr ())"

definition extract_verified_shard_account_with_root_hash ::
    "crates \<Rightarrow> bytes \<Rightarrow> bytes \<Rightarrow> address \<Rightarrow> bytes option \<Rightarrow> extracted_shard_account result" where
  "extract_verified_shard_account_with_root_hash X proof_raw state_raw account expected_root_hash =
     and_then (decoded_boc_decode X proof_raw) (\<lambda>pr.
     and_then (case expected_root_hash of
         None \<Rightarrow> Inr ()
       | Some expected \<Rightarrow> if cell_hash X (db_root pr) \<noteq> expected then Inl (ProofErr WrongShardRoot) else Inr ()) (\<lambda>_.
     and_then (tlb_from_cell (load_shard_account X) (db_root pr)) (\<lambda>sa.
     and_then (validate_shard_account X sa state_raw account) (\<lambda>_.
     Inr \<lparr>ex_proof = pr, ex_shard_account = sa\<rparr>))))"

definition extract_verified_shard_account :: "crates \<Rightarrow> bytes \<Rightarrow> bytes \<Rightarrow> address \<Rightarrow> extracted_shard_account result" where
  "extract_verified_shard_account X proof_raw state_raw account =
     extract_verified_shard_account_with_root_hash X proof_raw state_raw account None"

section \<open>Account states\<close>

record tl_block_id_ext =
  bi_workchain :: i32
  bi_shard :: i64
  bi_seqno :: i32
  bi_root_hash :: bytes
  bi_file_hash :: bytes

record raw_account_state =
  ra_id :: tl_block_id_ext
  ra_shardblk :: tl_block_id_ext
  ra_shard_proof :: bytes
  ra_proof :: bytes
  ra_state :: bytes

record decoded_account_state =
  da_raw :: raw_account_state
  da_shard_proof :: "inspected_proof_boc option"
  da_proof :: "inspected_proof_boc option"
  da_shard_account :: "shard_account option"
  da_account :: "account option"

datatype simple_account_state = SimpleNone | SimpleUninit | SimpleFrozen | SimpleActive

record simple_account =
  sm_block_id :: tl_block_id_ext
  sm_shard_block_id :: tl_block_id_ext
  sm_last_transaction_lt :: "u64 option"
  sm_last_transaction_hash :: "bytes option"
  sm_state :: simple_account_state
  sm_account :: "account option"

definition from_raw :: "crates \<Rightarrow> raw_account_state \<Rightarrow> decoded_account_state result" where
  "from_raw X raw =
     and_then (inspect_optional_proof_boc X (ra_shard_proof raw)) (\<lambda>shard_proof.
     and_then (inspect_optional_proof_boc X (ra_proof raw)) (\<lambda>pr.
     and_then (if ra_state raw = [] then Inr None
        else and_then (decode_account_state_boc X (ra_state raw)) (\<lambda>v. Inr (Some (dv_value v)))) (\<lambda>account.
     Inr \<lparr>da_raw = raw, da_shard_proof = shard_proof, da_proof = pr, da_shard_account = None, da_account = account\<rparr>)))"

definition from_raw_verified :: "crates \<Rightarrow> raw_account_state \<Rightarrow> address \<Rightarrow> decoded_account_state result" where
  "from_raw_verified X raw account =
     and_then (from_raw X raw) (\<lambda>decoded.
     if ra_proof (da_raw decoded) \<noteq> [] \<and> ra_state (da_raw decoded) \<noteq> [] then
       and_then (extract_verified_shard_account X (ra_proof (da_raw decoded)) (ra_state (da_raw decoded)) account) (\<lambda>ex.
       Inr (decoded\<lparr>da_shard_account := Some (ex_shard_account ex)\<rparr>))
     else Inr decoded)"

definition simple_account_state_of :: "account \<Rightarrow> simple_account_state" where
  "simple_account_state_of a = (case a of
      AccountNone \<Rightarrow> SimpleNone
    | AccountFull _ _ storage \<Rightarrow> (case as_state storage of
          StateUninit \<Rightarrow> SimpleUninit | StateFrozen _ \<Rightarrow> SimpleFrozen | StateActive _ \<Rightarrow> SimpleActive))"

definition account_last_trans_lt :: "account \<Rightarrow> u64 option" where
  "account_last_trans_lt a = (case a of AccountNone \<Rightarrow> None | AccountFull _ _ storage \<Rightarrow> Some (as_last_trans_lt storage))"

definition simple :: "decoded_account_state \<Rightarrow> simple_account" where
  "simple d =
     \<lparr>sm_block_id = ra_id (da_raw d), sm_shard_block_id = ra_shardblk (da_raw d),
      sm_last_transaction_lt = (case map_option sa_last_trans_lt (da_shard_account d) of
          Some lt \<Rightarrow> Some lt
        | None \<Rightarrow> Option.bind (da_account d) account_last_trans_lt),
      sm_last_transaction_hash = map_option sa_last_trans_hash (da_shard_account d),
      sm_state = (case da_account d of None \<Rightarrow> SimpleNone | Some a \<Rightarrow> simple_account_state_of a),
      sm_account = da_account d\<rparr>"

section \<open>What a verified account is\<close>

text \<open>The flags of an address are not part of its cells: a decoded address has the default ones.\<close>

definition default_flags :: "address \<Rightarrow> bool" where
  "default_flags a \<longleftrightarrow> a = new_address (workchain a) (hash_part a)"

lemma loaded_address_flags: "load_msg_address_int X s = Inr (AddrStd any a, s') \<Longrightarrow> default_flags a"
  by (auto simp: load_msg_address_int_def load_addr_std_def load_addr_var_def and_then_eq_Inr Let_def default_flags_def new_address_def
      split: if_splits)

lemma loaded_account_flags: "load_account X s = Inr (AccountFull (AddrStd any a) i st, s') \<Longrightarrow> default_flags a"
  by (auto simp: load_account_def and_then_eq_Inr split: if_splits dest: loaded_address_flags)

lemma loaded_shard_account_flags:
  "load_shard_account X s = Inr (sa, s') \<Longrightarrow> sa_account sa = AccountFull (AddrStd any a) i st \<Longrightarrow> default_flags a"
  by (auto simp: load_shard_account_def load_ref_tlb_def tlb_from_cell_def and_then_eq_Inr dest: loaded_account_flags)

definition shard_cell :: "crates \<Rightarrow> shard_account \<Rightarrow> cell" where
  "shard_cell X sa = mk_cell (shard_account_bits sa) (shard_account_refs X sa)"

definition account_cell :: "crates \<Rightarrow> account \<Rightarrow> cell" where
  "account_cell X a = mk_cell (account_bits a) (account_refs X a)"

fun belongs_to :: "account \<Rightarrow> address \<Rightarrow> bool" where
  "belongs_to AccountNone a \<longleftrightarrow> True"
| "belongs_to (AccountFull addr _ _) a \<longleftrightarrow> (case addr of AddrStd _ b \<Rightarrow> b = a | AddrVar _ _ _ _ \<Rightarrow> False)"

lemma belongs_to_iff: "belongs_to acc a \<longleftrightarrow> acc = AccountNone \<or> (\<exists>any i s. acc = AccountFull (AddrStd any a) i s)"
  by (cases acc) (auto split: msg_address_int.splits)

lemma validate_shard_account_eq:
  "validate_shard_account X sa st a = Inr () \<longleftrightarrow> belongs_to (sa_account sa) a
    \<and> (st \<noteq> [] \<longrightarrow> (\<exists>v. decode_account_state_boc X st = Inr v \<and> dv_value v = sa_account sa))"
  by (auto simp: validate_shard_account_def validate_account_address_def and_then_eq_Inr
      split: account.splits msg_address_int.splits if_splits)

lemma extract_eq:
  "extract_verified_shard_account_with_root_hash X pr st a h = Inr r \<longleftrightarrow>
    deserialize_boc X pr = Inr (db_root (ex_proof r)) \<and> db_raw (ex_proof r) = pr
    \<and> (\<forall>e. h = Some e \<longrightarrow> cell_hash X (db_root (ex_proof r)) = e)
    \<and> tlb_from_cell (load_shard_account X) (db_root (ex_proof r)) = Inr (ex_shard_account r)
    \<and> validate_shard_account X (ex_shard_account r) st a = Inr ()"
  by (cases r; cases "ex_proof r")
    (auto simp: extract_verified_shard_account_with_root_hash_def decoded_boc_decode_def and_then_eq_Inr split: option.splits if_splits)

context bignum
begin

lemma shard_cell_codec:
  assumes "shard_account_ok X sa" "list_all wf_cell (account_refs X (sa_account sa))"
  shows "tlb_to_cell (store_shard_account X) sa = Inr (shard_cell X sa)" "wf_cell (shard_cell X sa)"
    "tlb_from_cell (load_shard_account X) (shard_cell X sa) = Inr sa"
    "tlb_to_cell (store_account X) (sa_account sa) = Inr (account_cell X (sa_account sa))" "wf_cell (account_cell X (sa_account sa))"
    "tlb_from_cell (load_account X) (account_cell X (sa_account sa)) = Inr (sa_account sa)"
    "subcells (account_cell X (sa_account sa)) \<subseteq> subcells (shard_cell X sa)"
proof -
  note tc = value_codec_tail[OF shard_account_codec] value_codec_tail[OF account_codec]
  have fit: "length (shard_account_bits sa) \<le> 1023" "length (shard_account_refs X sa) \<le> 4"
    using assms(1) by (simp_all add: shard_account_bits_def shard_account_refs_def shard_account_ok_def)
  have acc: "account_ok (sa_account sa)" "length (account_bits (sa_account sa)) \<le> 1023" "length (account_refs X (sa_account sa)) \<le> 4"
    using assms(1) by (simp_all add: shard_account_ok_def)
  show wf: "wf_cell (account_cell X (sa_account sa))" using acc assms(2) by (simp add: account_cell_def wf_mk_cell)
  then show wfs: "wf_cell (shard_cell X sa)" using fit by (simp add: shard_cell_def wf_mk_cell shard_account_refs_def account_cell_def)
  show "tlb_to_cell (store_shard_account X) sa = Inr (shard_cell X sa)"
    unfolding shard_cell_def by (rule tail_codec.to_cell_eq[OF tc(1) assms(1) fit])
  show "tlb_from_cell (load_shard_account X) (shard_cell X sa) = Inr sa"
    using wfs unfolding shard_cell_def by (rule tail_codec.from_cell_eq[OF tc(1) assms(1)])
  show "tlb_to_cell (store_account X) (sa_account sa) = Inr (account_cell X (sa_account sa))"
    unfolding account_cell_def by (rule tail_codec.to_cell_eq[OF tc(2) acc])
  show "tlb_from_cell (load_account X) (account_cell X (sa_account sa)) = Inr (sa_account sa)"
    using wf unfolding account_cell_def by (rule tail_codec.from_cell_eq[OF tc(2) acc(1)])
  show "subcells (account_cell X (sa_account sa)) \<subseteq> subcells (shard_cell X sa)"
    by (rule subcells_ref) (simp add: shard_cell_def shard_account_refs_def account_cell_def)
qed

end

text \<open>A bag written by \<open>serialize_boc\<close>, with its bytes.\<close>

lemma bag_reads:
  assumes "hashing X" "wf_cell c" "collision_free X (subcells c)" "card (subcells c) < 2 ^ 48"
  obtains bs where "serialize_boc X c crc = Inr bs" "deserialize_boc X bs = Inr c"
  using serialize_boc_eq[OF assms(1,3,2,4)] boc_reads[OF assms(1,3,2,4)] by blast

text \<open>
  C12: the shard account that extraction returns is the one the trusted hash stands for.  Let \<open>sa\<close> be a shard account that fits its
  cell.  Its own bags of proof and state are accepted under the hash of its cell, for the address it has if it is an existing
  account, and for any address whatsoever if it is empty, because an empty account has no address to compare.
  Conversely, whatever bytes a server sends, if extraction accepts them under that hash, then the result is \<open>sa\<close> unless SHA-256 collides
  on the cells involved; an existing account has exactly the requested address, which then has the default flags;
  and a state that was sent decodes to the account of \<open>sa\<close>.
\<close>

theorem extracted_account_anchored:
  assumes "bignum X" "hashing X" "shard_account_ok X sa" "list_all wf_cell (account_refs X (sa_account sa))"
    "collision_free X (subcells (shard_cell X sa))" "card (subcells (shard_cell X sa)) < 2 ^ 48"
  defines "h \<equiv> cell_hash X (shard_cell X sa)"
  shows "(\<exists>pr st. and_then (tlb_to_cell (store_shard_account X) sa) (\<lambda>c. serialize_boc X c crc) = Inr pr
      \<and> and_then (tlb_to_cell (store_account X) (sa_account sa)) (\<lambda>c. serialize_boc X c crc) = Inr st
      \<and> (\<forall>a. sa_account sa = AccountNone \<or> (\<exists>any i s. sa_account sa = AccountFull (AddrStd any a) i s) \<longrightarrow>
          extract_verified_shard_account_with_root_hash X pr st a (Some h) =
          Inr \<lparr>ex_proof = \<lparr>db_raw = pr, db_root = shard_cell X sa\<rparr>, ex_shard_account = sa\<rparr>))
    \<and> (\<forall>pr st a r. extract_verified_shard_account_with_root_hash X pr st a (Some h) = Inr r
        \<and> collision_free X (subcells (shard_cell X sa) \<union> subcells (db_root (ex_proof r))) \<longrightarrow>
      ex_shard_account r = sa
      \<and> (sa_account sa \<noteq> AccountNone \<longrightarrow> default_flags a \<and> (\<exists>any i s. sa_account sa = AccountFull (AddrStd any a) i s))
      \<and> (st \<noteq> [] \<longrightarrow> (\<exists>v. decode_account_state_boc X st = Inr v \<and> dv_value v = sa_account sa)))"
proof (intro conjI allI impI)
  let ?c = "shard_cell X sa" and ?ac = "account_cell X (sa_account sa)"
  note cells = bignum.shard_cell_codec[OF assms(1,3,4)]
  have ac: "collision_free X (subcells ?ac)" "card (subcells ?ac) < 2 ^ 48"
    using assms(5,6) cells(7) card_mono[OF finite_subcells cells(7)] by (auto simp: collision_free_def intro: inj_on_subset)
  obtain pr where pr: "serialize_boc X ?c crc = Inr pr" "deserialize_boc X pr = Inr ?c" using bag_reads[OF assms(2) cells(2) assms(5,6)] .
  obtain st where st: "serialize_boc X ?ac crc = Inr st" "deserialize_boc X st = Inr ?ac" using bag_reads[OF assms(2) cells(5) ac] .
  have "decode_account_state_boc X st = Inr \<lparr>dv_boc = \<lparr>db_raw = st, db_root = ?ac\<rparr>, dv_value = sa_account sa\<rparr>"
    using st(2) cells(6) by (simp add: decode_account_state_boc_def decoded_boc_decode_def)
  then have "extract_verified_shard_account_with_root_hash X pr st a (Some h) = Inr \<lparr>ex_proof = \<lparr>db_raw = pr, db_root = ?c\<rparr>, ex_shard_account = sa\<rparr>"
    if "sa_account sa = AccountNone \<or> (\<exists>any i s. sa_account sa = AccountFull (AddrStd any a) i s)" for a
    using that[folded belongs_to_iff] pr(2) cells(3) by (simp add: extract_eq validate_shard_account_eq h_def)
  then show "\<exists>pr st. and_then (tlb_to_cell (store_shard_account X) sa) (\<lambda>c. serialize_boc X c crc) = Inr pr
      \<and> and_then (tlb_to_cell (store_account X) (sa_account sa)) (\<lambda>c. serialize_boc X c crc) = Inr st
      \<and> (\<forall>a. sa_account sa = AccountNone \<or> (\<exists>any i s. sa_account sa = AccountFull (AddrStd any a) i s) \<longrightarrow>
          extract_verified_shard_account_with_root_hash X pr st a (Some h) =
          Inr \<lparr>ex_proof = \<lparr>db_raw = pr, db_root = ?c\<rparr>, ex_shard_account = sa\<rparr>)"
    using pr(1) st(1) cells(1,4) by (intro exI[of _ pr] exI[of _ st]) simp
  fix pr st a r
  assume r: "extract_verified_shard_account_with_root_hash X pr st a (Some h) = Inr r
    \<and> collision_free X (subcells ?c \<union> subcells (db_root (ex_proof r)))"
  then have e: "deserialize_boc X pr = Inr (db_root (ex_proof r))" "cell_hash X (db_root (ex_proof r)) = cell_hash X ?c"
    "tlb_from_cell (load_shard_account X) (db_root (ex_proof r)) = Inr (ex_shard_account r)"
    "validate_shard_account X (ex_shard_account r) st a = Inr ()"
    by (simp_all add: extract_eq h_def)
  have root: "db_root (ex_proof r) = ?c"
    using hashing.cell_hash_injective[OF assms(2) conjunct2[OF r] deserialize_boc_wf[OF e(1)] cells(2) _ _ e(2)] by simp
  then show sa: "ex_shard_account r = sa" using e(3) cells(3) by simp
  note val = e(4)[unfolded sa validate_shard_account_eq]
  show "\<exists>any i s. sa_account sa = AccountFull (AddrStd any a) i s" if "sa_account sa \<noteq> AccountNone"
    using val that by (simp add: belongs_to_iff)
  show "\<exists>v. decode_account_state_boc X st = Inr v \<and> dv_value v = sa_account sa" if "st \<noteq> []" using val that by blast
  obtain s where "load_shard_account X (slice_new ?c) = Inr (sa, s)" using cells(3) by (auto simp: tlb_from_cell_def and_then_eq_Inr)
  note flags = loaded_shard_account_flags[OF this]
  show "default_flags a" if "sa_account sa \<noteq> AccountNone"
    using val that flags by (cases "sa_account sa") (auto split: msg_address_int.splits)
qed

text \<open>An account of the zero address, whose cells have representations of different lengths.\<close>

definition sample_shard_account :: shard_account where
  "sample_shard_account = \<lparr>sa_account = AccountFull (AddrStd None (new_address 0 (replicate 32 0)))
       \<lparr>si_used = \<lparr>su_cells = 0, su_bits = 0\<rparr>, si_last_paid = 0, si_due_payment = None, si_extra = ExtraNone\<rparr>
       \<lparr>as_last_trans_lt = 9, as_balance = currency_of_grams 1000, as_state = StateUninit\<rparr>,
     sa_last_trans_hash = replicate 32 1, sa_last_trans_lt = 9\<rparr>"

lemma sample_shard_account_ok:
  "shard_account_ok length_digest sample_shard_account"
  "account_refs length_digest (sa_account sample_shard_account) = []"
  "length (account_bits (sa_account sample_shard_account)) \<le> 500"
  using sample_currency
  by (simp_all add: shard_account_ok_def sample_shard_account_def account_storage_ok_def storage_info_ok_def storage_used_ok_def
      storage_info_bits_def storage_used_bits_def account_storage_bits_def account_storage_refs_def new_address_def maybe_bits_def)

lemma sample_shard_cells:
  defines "c \<equiv> shard_cell length_digest sample_shard_account" and "d \<equiv> account_cell length_digest (sa_account sample_shard_account)"
  shows "subcells c = {c, d}" "collision_free length_digest {c, d}"
proof -
  have refs: "shard_account_refs length_digest sample_shard_account = [d]"
    by (simp add: d_def shard_account_refs_def account_cell_def)
  show "subcells c = {c, d}"
    by (auto simp: c_def d_def shard_cell_def account_cell_def shard_account_refs_def sample_shard_account_ok(2) mk_cell_def)
  have wf: "wf_cell d" using bignum.shard_cell_codec(5)[OF length_digest_bignum sample_shard_account_ok(1)] by (simp add: d_def sample_shard_account_ok(2))
  have "length (sa_last_trans_hash sample_shard_account) = 32" by (simp add: sample_shard_account_def)
  then have len: "length (cell_repr length_digest c) = 76"
    by (simp add: c_def cell_repr_def shard_cell_def refs descriptors_def div_ceil_def shard_account_bits_def
        hashing.length_cell_hash[OF length_digest_hashing wf])
  have "length (cell_repr length_digest d) \<le> 65"
    using sample_shard_account_ok(3) by (simp add: d_def cell_repr_def account_cell_def sample_shard_account_ok(2) descriptors_def div_ceil_def)
  then have "be_val (be_bytes 32 (length (cell_repr length_digest c))) \<noteq> be_val (be_bytes 32 (length (cell_repr length_digest d)))"
    unfolding be_val_be_bytes len by simp
  then have "sha256 length_digest (cell_repr length_digest c) \<noteq> sha256 length_digest (cell_repr length_digest d)"
    by (auto simp: length_digest_def)
  then show "collision_free length_digest {c, d}" by (auto simp: collision_free_def inj_on_def)
qed

theorem extracted_account_anchored_witness:
  "\<exists>pr st. serialize_boc length_digest (shard_cell length_digest sample_shard_account) False = Inr pr
    \<and> extract_verified_shard_account_with_root_hash length_digest pr st (new_address 0 (replicate 32 0))
        (Some (cell_hash length_digest (shard_cell length_digest sample_shard_account)))
      = Inr \<lparr>ex_proof = \<lparr>db_raw = pr, db_root = shard_cell length_digest sample_shard_account\<rparr>, ex_shard_account = sample_shard_account\<rparr>"
proof -
  let ?c = "shard_cell length_digest sample_shard_account"
  note ok = sample_shard_account_ok
  have "card (subcells ?c) \<le> 2" unfolding sample_shard_cells(1) by (simp add: card_insert_if)
  then have card: "card (subcells ?c) < 2 ^ 48" by simp
  have refs: "list_all wf_cell (account_refs length_digest (sa_account sample_shard_account))" by (simp add: ok(2))
  have cell: "tlb_to_cell (store_shard_account length_digest) sample_shard_account = Inr ?c"
    by (rule bignum.shard_cell_codec(1)[OF length_digest_bignum ok(1) refs])
  have owner: "\<exists>any i s. sa_account sample_shard_account = AccountFull (AddrStd any (new_address 0 (replicate 32 0))) i s"
    by (simp add: sample_shard_account_def)
  have "collision_free length_digest (subcells ?c)" unfolding sample_shard_cells(1) by (rule sample_shard_cells(2))
  from extracted_account_anchored[OF length_digest_bignum length_digest_hashing ok(1) refs this card, THEN conjunct1, of False]
  show ?thesis unfolding cell and_then_simps using owner by blast
qed

end
