(* ===== verification/Ed25519.thy ===== *)
theory Ed25519
  imports Ton_Prelude "HOL-Library.Numeral_Type"
begin

text \<open>
  The keys of \<open>src/adnl/crypto.rs\<close>: derivation of a key pair from a secret, signatures, and the
  shared secret of two parties.

  The crates \<open>curve25519-dalek\<close> and \<open>sha2\<close> are the fields of \<open>curve\<close>.  Points form an abelian group
  and scalars a commutative ring, which are the type classes of \<open>'p\<close> and \<open>'s\<close>: Rust's operators on
  \<open>EdwardsPoint\<close> and \<open>Scalar\<close> are the operators of the classes.  The locale \<open>edwards\<close> states what the
  documentation of the crate promises, relative to a scalar multiplication \<open>smul\<close>; it is
  interpreted on the cyclic group of the order of the base point.  From these laws a signature
  verifies under the public key of its signer, and two parties compute the same secret.
\<close>

record ('p, 's, 'm) curve =
  sha512 :: "bytes \<Rightarrow> bytes"
  compress :: "'p \<Rightarrow> bytes"
  decompress :: "bytes \<Rightarrow> 'p option"
  mul_base :: "'s \<Rightarrow> 'p"
  mul_base_clamped :: "bytes \<Rightarrow> 'p"
  double_scalar_mul_basepoint :: "'s \<Rightarrow> 'p \<Rightarrow> 's \<Rightarrow> 'p"
  to_montgomery :: "'p \<Rightarrow> 'm"
  montgomery_mul :: "'m \<Rightarrow> 's \<Rightarrow> 'm"
  montgomery_to_bytes :: "'m \<Rightarrow> bytes"
  clamp_integer :: "bytes \<Rightarrow> bytes"
  from_bytes_mod_order :: "bytes \<Rightarrow> 's"
  from_bytes_mod_order_wide :: "bytes \<Rightarrow> 's"
  from_canonical_bytes :: "bytes \<Rightarrow> 's option"
  scalar_as_bytes :: "'s \<Rightarrow> bytes"

section \<open>Keys\<close>

record 'p public_key =
  compressed :: bytes
  neg_point :: 'p

record 's expanded_secret_key =
  key_scalar :: 's
  key_bytes :: bytes
  key_nonce :: bytes

record ('p, 's) key_pair =
  secret_key :: "'s expanded_secret_key"
  public_key :: "'p public_key"

definition public_key_from_bytes :: "('p::ab_group_add, 's, 'm) curve \<Rightarrow> bytes \<Rightarrow> 'p public_key option" where
  "public_key_from_bytes E bs =
     (case decompress E bs of None \<Rightarrow> None
      | Some point \<Rightarrow> Some \<lparr>compressed = bs, neg_point = - point\<rparr>)"

definition from_scalar :: "('p::ab_group_add, 's, 'm) curve \<Rightarrow> bytes \<Rightarrow> 'p public_key" where
  "from_scalar E bits =
     (let point = mul_base_clamped E bits in \<lparr>compressed = compress E point, neg_point = - point\<rparr>)"

definition expand :: "('p, 's, 'm) curve \<Rightarrow> bytes \<Rightarrow> 's expanded_secret_key" where
  "expand E secret =
     (let hash = sha512 E secret; lower = take 32 hash; nonce = drop 32 hash; kb = clamp_integer E lower in
      \<lparr>key_scalar = from_bytes_mod_order E kb, key_bytes = kb, key_nonce = nonce\<rparr>)"

definition public_key_of_secret :: "('p::ab_group_add, 's, 'm) curve \<Rightarrow> bytes \<Rightarrow> 'p public_key" where
  "public_key_of_secret E secret = from_scalar E (take 32 (sha512 E secret))"

definition public_key_of_expanded :: "('p::ab_group_add, 's, 'm) curve \<Rightarrow> 's expanded_secret_key \<Rightarrow> 'p public_key" where
  "public_key_of_expanded E sk = from_scalar E (key_bytes sk)"

definition key_pair_of_expanded :: "('p::ab_group_add, 's, 'm) curve \<Rightarrow> 's expanded_secret_key \<Rightarrow> ('p, 's) key_pair" where
  "key_pair_of_expanded E sk = \<lparr>secret_key = sk, public_key = public_key_of_expanded E sk\<rparr>"

definition key_pair_of_secret :: "('p::ab_group_add, 's, 'm) curve \<Rightarrow> bytes \<Rightarrow> ('p, 's) key_pair" where
  "key_pair_of_secret E secret =
     (let sk = expand E secret in \<lparr>secret_key = sk, public_key = public_key_of_expanded E sk\<rparr>)"

section \<open>Shared secrets and signatures\<close>

definition compute_shared_secret ::
    "('p::ab_group_add, 's, 'm) curve \<Rightarrow> 's expanded_secret_key \<Rightarrow> 'p public_key \<Rightarrow> bytes" where
  "compute_shared_secret E sk other =
     (let point = to_montgomery E (- neg_point other) in
      montgomery_to_bytes E (montgomery_mul E point (key_scalar sk)))"

definition sign_raw ::
    "('p, 's::comm_ring_1, 'm) curve \<Rightarrow> 's expanded_secret_key \<Rightarrow> bytes \<Rightarrow> 'p public_key \<Rightarrow> bytes" where
  "sign_raw E sk message pk =
     (let r = from_bytes_mod_order_wide E (sha512 E (key_nonce sk @ message));
          R = compress E (mul_base E r);
          k = from_bytes_mod_order_wide E (sha512 E (R @ compressed pk @ message));
          s = k * key_scalar sk + r in
      R @ scalar_as_bytes E s)"

definition check_scalar :: "('p, 's, 'm) curve \<Rightarrow> bytes \<Rightarrow> 's option" where
  "check_scalar E bs = from_canonical_bytes E bs"

definition verify_raw :: "('p, 's, 'm) curve \<Rightarrow> 'p public_key \<Rightarrow> bytes \<Rightarrow> bytes \<Rightarrow> bool" where
  "verify_raw E pk message signature =
     (let target_r = take 32 signature in
      case check_scalar E (drop 32 signature) of None \<Rightarrow> False
      | Some s \<Rightarrow>
          let k = from_bytes_mod_order_wide E (sha512 E (target_r @ compressed pk @ message));
              r = double_scalar_mul_basepoint E k (neg_point pk) s in
          compress E r = target_r)"

text \<open>The variants for a message of the TL protocol hash its TL bytes, which the crate \<open>tl-proto\<close> writes.\<close>

definition sign_tl ::
    "('p, 's::comm_ring_1, 'm) curve \<Rightarrow> ('t \<Rightarrow> bytes) \<Rightarrow> 's expanded_secret_key \<Rightarrow> 't \<Rightarrow> 'p public_key \<Rightarrow> bytes" where
  "sign_tl E tl_bytes sk message pk =
     (let r = from_bytes_mod_order_wide E (sha512 E (key_nonce sk @ tl_bytes message));
          R = compress E (mul_base E r);
          k = from_bytes_mod_order_wide E (sha512 E (R @ compressed pk @ tl_bytes message));
          s = k * key_scalar sk + r in
      R @ scalar_as_bytes E s)"

definition verify_tl :: "('p, 's, 'm) curve \<Rightarrow> ('t \<Rightarrow> bytes) \<Rightarrow> 'p public_key \<Rightarrow> 't \<Rightarrow> bytes \<Rightarrow> bool" where
  "verify_tl E tl_bytes pk message signature =
     (let target_r = take 32 signature in
      case check_scalar E (drop 32 signature) of None \<Rightarrow> False
      | Some s \<Rightarrow>
          let k = from_bytes_mod_order_wide E (sha512 E (target_r @ compressed pk @ tl_bytes message));
              r = double_scalar_mul_basepoint E k (neg_point pk) s in
          compress E r = target_r)"

definition pair_sign_raw :: "('p, 's::comm_ring_1, 'm) curve \<Rightarrow> ('p, 's) key_pair \<Rightarrow> bytes \<Rightarrow> bytes" where
  "pair_sign_raw E kp message = sign_raw E (secret_key kp) message (public_key kp)"

definition pair_sign_tl :: "('p, 's::comm_ring_1, 'm) curve \<Rightarrow> ('t \<Rightarrow> bytes) \<Rightarrow> ('p, 's) key_pair \<Rightarrow> 't \<Rightarrow> bytes" where
  "pair_sign_tl E tl_bytes kp message = sign_tl E tl_bytes (secret_key kp) message (public_key kp)"

definition pair_shared_secret :: "('p::ab_group_add, 's, 'm) curve \<Rightarrow> ('p, 's) key_pair \<Rightarrow> 'p public_key \<Rightarrow> bytes" where
  "pair_shared_secret E kp other = compute_shared_secret E (secret_key kp) other"

section \<open>What the crate promises\<close>

locale edwards =
  fixes E :: "('p::ab_group_add, 's::comm_ring_1, 'm) curve"
    and smul :: "'s \<Rightarrow> 'p \<Rightarrow> 'p"
  assumes mul_base_add: "mul_base E (a + b) = mul_base E a + mul_base E b"
    and smul_mul_base: "smul k (mul_base E a) = mul_base E (k * a)"
    and double_scalar_mul: "double_scalar_mul_basepoint E k P s = smul k P + mul_base E s"
    and mul_base_clamped: "mul_base_clamped E bs = mul_base E (from_bytes_mod_order E (clamp_integer E bs))"
    and montgomery_mul: "montgomery_mul E (to_montgomery E P) k = to_montgomery E (smul k P)"
    and decompress_compress: "decompress E (compress E P) = Some P"
    and length_compress: "length (compress E P) = 32"
    and canonical_bytes: "from_canonical_bytes E (scalar_as_bytes E s) = Some s"
    and clamp_idem: "clamp_integer E (clamp_integer E bs) = clamp_integer E bs"
    and length_montgomery: "length (montgomery_to_bytes E u) = 32"
begin

lemma mul_base_uminus: "- mul_base E a = mul_base E (- a)"
proof -
  have "mul_base E 0 = 0" using mul_base_add[of 0 0] by simp
  then have "mul_base E a + mul_base E (- a) = 0" using mul_base_add[of a "- a"] by simp
  then show ?thesis by (rule minus_unique)
qed

lemma pair_point:
  "neg_point (public_key (key_pair_of_secret E a)) = - mul_base E (key_scalar (secret_key (key_pair_of_secret E a)))"
  by (simp add: key_pair_of_secret_def public_key_of_expanded_def from_scalar_def expand_def mul_base_clamped clamp_idem Let_def)

lemma pair_compressed:
  "compressed (public_key (key_pair_of_secret E a)) = compress E (mul_base E (key_scalar (secret_key (key_pair_of_secret E a))))"
  by (simp add: key_pair_of_secret_def public_key_of_expanded_def from_scalar_def expand_def mul_base_clamped clamp_idem Let_def)

lemma length_public_key: "length (compressed (public_key (key_pair_of_secret E a))) = 32"
  by (simp add: pair_compressed length_compress)

lemma public_key_reads:
  "public_key_from_bytes E (compressed (public_key (key_pair_of_secret E a))) = Some (public_key (key_pair_of_secret E a))"
  by (simp add: public_key_from_bytes_def pair_compressed decompress_compress pair_point flip: pair_point)

text \<open>The verification equation on the point the signer committed to.\<close>

lemma verification_point:
  "double_scalar_mul_basepoint E k (- mul_base E a) (k * a + r) = mul_base E r"
  by (simp add: double_scalar_mul mul_base_uminus smul_mul_base flip: mul_base_add)

lemma shared_secret:
  "pair_shared_secret E (key_pair_of_secret E a) (public_key (key_pair_of_secret E b))
     = pair_shared_secret E (key_pair_of_secret E b) (public_key (key_pair_of_secret E a))"
  by (simp add: pair_shared_secret_def compute_shared_secret_def pair_point montgomery_mul smul_mul_base mult.commute Let_def)

lemma length_shared_secret: "length (pair_shared_secret E kp pk) = 32"
  by (simp add: pair_shared_secret_def compute_shared_secret_def length_montgomery Let_def)

lemma sign_verifies:
  "verify_raw E (public_key (key_pair_of_secret E a)) m (pair_sign_raw E (key_pair_of_secret E a) m)"
  by (simp add: verify_raw_def pair_sign_raw_def sign_raw_def check_scalar_def canonical_bytes length_compress
      pair_point verification_point Let_def)

lemma sign_tl_verifies:
  "verify_tl E tl_bytes (public_key (key_pair_of_secret E a)) m (pair_sign_tl E tl_bytes (key_pair_of_secret E a) m)"
  by (simp add: verify_tl_def pair_sign_tl_def sign_tl_def check_scalar_def canonical_bytes length_compress
      pair_point verification_point Let_def)

end

section \<open>The group of the base point\<close>

text \<open>
  The multiples of the base point are a cyclic group of prime order \<open>\<ell>\<close>; here every multiple is
  written as its scalar, an integer modulo \<open>\<ell>\<close>, little endian in 32 bytes.
\<close>

type_synonym scalar = 7237005577332262213973186563042994240857116359379907606001950938285454250989

definition scalar_bytes :: "scalar \<Rightarrow> bytes" where
  "scalar_bytes s = rev (be_bytes 32 (nat (Rep_bit1 s)))"

definition scalar_read :: "bytes \<Rightarrow> scalar option" where
  "scalar_read bs = (if be_val (rev bs) < CARD(scalar) then Some (of_nat (be_val (rev bs))) else None)"

definition base_group :: "(scalar, scalar, scalar) curve" where
  "base_group = \<lparr>sha512 = \<lambda>bs. take 64 (bs @ replicate 64 0),
     compress = scalar_bytes, decompress = scalar_read, mul_base = \<lambda>s. s,
     mul_base_clamped = \<lambda>bs. of_nat (be_val (rev bs)), double_scalar_mul_basepoint = \<lambda>k P s. k * P + s,
     to_montgomery = \<lambda>P. P, montgomery_mul = \<lambda>u k. u * k, montgomery_to_bytes = scalar_bytes,
     clamp_integer = \<lambda>bs. bs, from_bytes_mod_order = \<lambda>bs. of_nat (be_val (rev bs)),
     from_bytes_mod_order_wide = \<lambda>bs. of_nat (be_val (rev bs)),
     from_canonical_bytes = scalar_read, scalar_as_bytes = scalar_bytes\<rparr>"

lemma rep_range:
  fixes s :: "'a::finite bit1"
  shows "nat (Rep_bit1 s) < CARD('a bit1)" "of_nat (nat (Rep_bit1 s)) = s"
proof -
  have b: "0 \<le> Rep_bit1 s" "Rep_bit1 s < int CARD('a bit1)" using Rep_bit1[of s] by simp_all
  then show "nat (Rep_bit1 s) < CARD('a bit1)" by linarith
  have "of_nat (nat (Rep_bit1 s)) = (of_int (Rep_bit1 s) :: 'a bit1)" using b(1) by (metis of_int_of_nat_eq int_nat_eq)
  also have "\<dots> = s" using b by (simp add: bit1.of_int_eq Abs_bit1'_def Rep_bit1_inverse)
  finally show "of_nat (nat (Rep_bit1 s)) = s" .
qed

lemma scalar_read_bytes: "scalar_read (scalar_bytes s) = Some s"
proof -
  have c: "CARD(scalar) \<le> 256 ^ 32" by simp
  have "nat (Rep_bit1 s) < 256 ^ 32" by (rule order.strict_trans2[OF rep_range(1) c])
  then show ?thesis by (simp only: scalar_read_def scalar_bytes_def rev_rev_ident be_val_be_bytes mod_less rep_range if_True)
qed

lemma length_scalar_bytes: "length (scalar_bytes s) = 32"
  by (simp add: scalar_bytes_def)

interpretation base: edwards base_group "(*)"
  by unfold_locales (simp_all add: base_group_def scalar_read_bytes length_scalar_bytes mult.commute)

section \<open>Properties\<close>

text \<open>
  C24: What a key pair signs, as raw bytes or as the TL bytes of a message, verifies under its
  public key, and the public key is read back from its bytes.
\<close>

theorem signature_verifies:
  assumes "edwards E smul"
  shows "verify_raw E (public_key (key_pair_of_secret E secret)) message (pair_sign_raw E (key_pair_of_secret E secret) message)
    \<and> verify_tl E tl_bytes (public_key (key_pair_of_secret E secret)) m (pair_sign_tl E tl_bytes (key_pair_of_secret E secret) m)
    \<and> public_key_from_bytes E (compressed (public_key (key_pair_of_secret E secret))) = Some (public_key (key_pair_of_secret E secret))"
  by (intro conjI edwards.sign_verifies[OF assms] edwards.sign_tl_verifies[OF assms] edwards.public_key_reads[OF assms])

theorem signature_verifies_witness:
  "verify_raw base_group (public_key (key_pair_of_secret base_group [1, 2, 3])) [7] (pair_sign_raw base_group (key_pair_of_secret base_group [1, 2, 3]) [7])"
  using signature_verifies[OF base.edwards_axioms, of "[1, 2, 3]" "[7]" "\<lambda>m. m" "[]"] by blast

end
