(* ===== verification/Adnl.thy ===== *)
theory Adnl
  imports BocReader Ed25519 "HOL-Library.Sublist"
begin

text \<open>
  The encrypted transport: the session parameters and addresses of \<open>src/adnl/helper_types.rs\<close>, the
  packet codec of \<open>src/adnl/primitives/codec.rs\<close>, the handshake of \<open>src/adnl/primitives/handshake.rs\<close>
  and its builder of \<open>src/adnl/wrappers/builder.rs\<close>.

  The cipher \<open>Ctr128BE<Aes256>\<close> of the crates \<open>aes\<close> and \<open>ctr\<close> is a parameter \<open>K\<close>: the byte of the key stream
  of a key and a nonce at a position.  A cipher object is its key, its nonce and its position.
  \<open>decode\<close> and \<open>encode\<close> return their result with the codec and the buffer they leave behind, decrypted
  bytes of a refused packet included; growing the capacity of a buffer has no effect here.
  The relation \<open>receives\<close> is a receiver on a byte stream: bytes in flight arrive in chunks of any size
  and \<open>decode\<close> is called at any time.
\<close>

unbundle bit_operations_syntax

type_synonym keystream = "bytes \<Rightarrow> bytes \<Rightarrow> nat \<Rightarrow> u8"

record adnl_aes =
  aes_key :: bytes
  aes_nonce :: bytes
  aes_pos :: nat

definition aes_new :: "bytes \<Rightarrow> bytes \<Rightarrow> adnl_aes" where
  "aes_new key nonce = \<lparr>aes_key = key, aes_nonce = nonce, aes_pos = 0\<rparr>"

fun xor_stream :: "(nat \<Rightarrow> u8) \<Rightarrow> nat \<Rightarrow> bytes \<Rightarrow> bytes" where
  "xor_stream k p [] = []"
| "xor_stream k p (b # bs) = (b XOR k p) # xor_stream k (Suc p) bs"

definition apply_keystream :: "keystream \<Rightarrow> adnl_aes \<Rightarrow> bytes \<Rightarrow> bytes \<times> adnl_aes" where
  "apply_keystream K a bs =
     (xor_stream (K (aes_key a) (aes_nonce a)) (aes_pos a) bs, a\<lparr>aes_pos := aes_pos a + length bs\<rparr>)"

section \<open>Session parameters and addresses\<close>

record aes_params =
  rx_key :: bytes
  tx_key :: bytes
  rx_nonce :: bytes
  tx_nonce :: bytes
  padding :: bytes

definition aes_params_from :: "bytes \<Rightarrow> aes_params" where
  "aes_params_from raw = \<lparr>rx_key = take 32 raw, tx_key = take 32 (drop 32 raw), rx_nonce = take 16 (drop 64 raw),
     tx_nonce = take 16 (drop 80 raw), padding = take 64 (drop 96 raw)\<rparr>"

definition aes_params_to_bytes :: "aes_params \<Rightarrow> bytes" where
  "aes_params_to_bytes p = rx_key p @ tx_key p @ rx_nonce p @ tx_nonce p @ padding p"

definition adnl_address :: "crates \<Rightarrow> 'p public_key \<Rightarrow> bytes" where
  "adnl_address X pk = sha256 X ([0xc6, 0xb4, 0x13, 0x48] @ compressed pk)"

section \<open>Packets\<close>

record adnl_codec =
  aes_rx :: adnl_aes
  aes_tx :: adnl_aes
  last_readed_length :: "nat option"

definition codec_client :: "aes_params \<Rightarrow> adnl_codec" where
  "codec_client p = \<lparr>aes_rx = aes_new (rx_key p) (rx_nonce p), aes_tx = aes_new (tx_key p) (tx_nonce p), last_readed_length = None\<rparr>"

definition codec_server :: "aes_params \<Rightarrow> adnl_codec" where
  "codec_server p = \<lparr>aes_rx = aes_new (tx_key p) (tx_nonce p), aes_tx = aes_new (rx_key p) (rx_nonce p), last_readed_length = None\<rparr>"

definition decode_body :: "keystream \<Rightarrow> crates \<Rightarrow> adnl_codec \<Rightarrow> nat \<Rightarrow> bytes \<Rightarrow> bytes option result \<times> adnl_codec \<times> bytes" where
  "decode_body K X c n src =
     (if length src < n then (Inr None, c, src)
      else
        let c = c\<lparr>last_readed_length := None\<rparr>;
            (plain, aes) = apply_keystream K (aes_rx c) (take n src);
            c = c\<lparr>aes_rx := aes\<rparr>;
            src = plain @ drop n src;
            given_hash = take 32 (drop (n - 32) src) in
        if given_hash \<noteq> sha256 X (take (n - 32) src) then (Inl (AdnlErr IntegrityError), c, src)
        else (Inr (Some (take (n - 32 - 32) (drop 32 src))), c, drop n src))"

definition decode :: "keystream \<Rightarrow> crates \<Rightarrow> adnl_codec \<Rightarrow> bytes \<Rightarrow> bytes option result \<times> adnl_codec \<times> bytes" where
  "decode K X c src =
     (case last_readed_length c of
        Some n \<Rightarrow> decode_body K X c n src
      | None \<Rightarrow>
          if length src < 4 then (Inr None, c, src)
          else
            let (plain, aes) = apply_keystream K (aes_rx c) (take 4 src);
                c = c\<lparr>aes_rx := aes\<rparr>;
                src = plain @ drop 4 src;
                n = unat (u32_from_le (take 4 src)) in
            if n < 64 then (Inl (AdnlErr TooShortPacket), c, src)
            else if 2 ^ 24 < n then (Inl (AdnlErr TooLongPacket), c, src)
            else decode_body K X (c\<lparr>last_readed_length := Some n\<rparr>) n (drop 4 src))"

definition encode :: "keystream \<Rightarrow> crates \<Rightarrow> bytes \<Rightarrow> adnl_codec \<Rightarrow> bytes \<Rightarrow> bytes \<Rightarrow> unit result \<times> adnl_codec \<times> bytes" where
  "encode K X nonce c buffer dst =
     (if 2 ^ 24 - 64 < length buffer then (Inl (AdnlErr TooLongPacket), c, dst)
      else
        let len = u32_le_bytes (word_of_nat (length buffer + 64));
            hash = sha256 X (nonce @ buffer);
            dst = dst @ len @ nonce @ buffer @ hash;
            start_offset = length dst - length buffer - 68;
            (crypted, aes) = apply_keystream K (aes_tx c) (drop start_offset dst) in
        (Inr (), c\<lparr>aes_tx := aes\<rparr>, take start_offset dst @ crypted))"

section \<open>Handshake\<close>

record 'p handshake =
  hs_receiver :: bytes
  hs_sender :: "'p public_key"
  hs_aes_params :: aes_params
  hs_secret :: bytes

definition initialize_aes :: "bytes \<Rightarrow> bytes \<Rightarrow> adnl_aes" where
  "initialize_aes secret hash =
     aes_new (take 16 secret @ take 16 (drop 16 hash)) (take 4 hash @ take 12 (drop 20 secret))"

definition handshake_to_bytes :: "keystream \<Rightarrow> crates \<Rightarrow> 'p handshake \<Rightarrow> bytes" where
  "handshake_to_bytes K X h =
     (let raw_params = aes_params_to_bytes (hs_aes_params h);
          hash = sha256 X raw_params;
          raw_params = fst (apply_keystream K (initialize_aes (hs_secret h) hash) raw_params) in
      hs_receiver h @ compressed (hs_sender h) @ hash @ raw_params)"

definition make_client_codec :: "'p handshake \<Rightarrow> adnl_codec" where
  "make_client_codec h = codec_client (hs_aes_params h)"

definition make_server_codec :: "'p handshake \<Rightarrow> adnl_codec" where
  "make_server_codec h = codec_server (hs_aes_params h)"

definition decrypt_from_raw ::
    "keystream \<Rightarrow> crates \<Rightarrow> ('p::ab_group_add, 's, 'm) curve \<Rightarrow> bytes \<Rightarrow> (bytes \<Rightarrow> ('p, 's) key_pair option) \<Rightarrow> 'p handshake result" where
  "decrypt_from_raw K X E packet keypair_selector =
     (let receiver = take 32 packet in
      case public_key_from_bytes E (take 32 (drop 32 packet)) of None \<Rightarrow> Inl (AdnlErr InvalidPublicKey)
      | Some sender \<Rightarrow>
      let hash = take 32 (drop 64 packet); raw_params = take 160 (drop 96 packet) in
      case keypair_selector receiver of None \<Rightarrow> Inl (AdnlErr (UnknownAddr receiver))
      | Some keypair \<Rightarrow>
      if adnl_address X (public_key keypair) \<noteq> receiver then Inl (AdnlErr (UnknownAddr receiver))
      else
        let secret = pair_shared_secret E keypair sender;
            raw_params = fst (apply_keystream K (initialize_aes secret hash) raw_params) in
        if hash \<noteq> sha256 X raw_params then Inl (AdnlErr IntegrityError)
        else Inr \<lparr>hs_receiver = receiver, hs_sender = sender, hs_aes_params = aes_params_from raw_params, hs_secret = secret\<rparr>)"

definition use_static_ecdh :: "aes_params \<Rightarrow> 'p public_key \<Rightarrow> bytes \<Rightarrow> bytes \<Rightarrow> 'p handshake" where
  "use_static_ecdh p sender receiver secret =
     \<lparr>hs_receiver = receiver, hs_sender = sender, hs_aes_params = p, hs_secret = secret\<rparr>"

definition perform_ecdh ::
    "crates \<Rightarrow> ('p::ab_group_add, 's, 'm) curve \<Rightarrow> aes_params \<Rightarrow> ('p, 's) key_pair \<Rightarrow> 'p public_key \<Rightarrow> 'p handshake" where
  "perform_ecdh X E p sender receiver =
     \<lparr>hs_receiver = adnl_address X receiver, hs_sender = public_key sender, hs_aes_params = p,
      hs_secret = pair_shared_secret E sender receiver\<rparr>"

text \<open>
  The two ends of \<open>src/adnl/wrappers/peer.rs\<close> on the bytes they exchange.  The server answers the 256
  bytes it read with an empty packet; the client waits for the first packet on its codec.
\<close>

record connection_info =
  local_address :: bytes
  remote_address :: bytes

definition handle_handshake ::
    "keystream \<Rightarrow> crates \<Rightarrow> ('p::ab_group_add, 's, 'm) curve \<Rightarrow> bytes \<Rightarrow> bytes \<Rightarrow> (bytes \<Rightarrow> ('p, 's) key_pair option)
      \<Rightarrow> (adnl_codec \<times> connection_info \<times> bytes) result" where
  "handle_handshake K X E nonce packet keypair_selector =
     and_then (decrypt_from_raw K X E packet keypair_selector) (\<lambda>h.
     let info = \<lparr>local_address = hs_receiver h, remote_address = adnl_address X (hs_sender h)\<rparr>;
         (r, c, dst) = encode K X nonce (make_server_codec h) [] [] in
     and_then r (\<lambda>_. Inr (c, info, dst)))"

definition accept_reply ::
    "keystream \<Rightarrow> crates \<Rightarrow> 'p handshake \<Rightarrow> bytes \<Rightarrow> (adnl_codec \<times> connection_info \<times> bytes) option result" where
  "accept_reply K X h src =
     (case decode K X (make_client_codec h) src of
        (Inl e, _, _) \<Rightarrow> Inl e
      | (Inr None, _, _) \<Rightarrow> Inr None
      | (Inr (Some _), c, rest) \<Rightarrow>
          Inr (Some (c, \<lparr>local_address = adnl_address X (hs_sender h), remote_address = hs_receiver h\<rparr>, rest)))"

section \<open>A receiver on a stream\<close>

fun send_all :: "keystream \<Rightarrow> crates \<Rightarrow> adnl_codec \<Rightarrow> bytes \<Rightarrow> (bytes \<times> bytes) list \<Rightarrow> (adnl_codec \<times> bytes) result" where
  "send_all K X c dst [] = Inr (c, dst)"
| "send_all K X c dst ((nonce, m) # ms) =
     (case encode K X nonce c m dst of (Inl e, _, _) \<Rightarrow> Inl e | (Inr _, c, dst) \<Rightarrow> send_all K X c dst ms)"

record receiver =
  in_flight :: bytes
  buffered :: bytes
  codec :: adnl_codec
  delivered :: "bytes list"

inductive receives :: "keystream \<Rightarrow> crates \<Rightarrow> adnl_codec \<Rightarrow> bytes \<Rightarrow> receiver \<Rightarrow> bool" for K X c0 stream where
  receives_start: "receives K X c0 stream \<lparr>in_flight = stream, buffered = [], codec = c0, delivered = []\<rparr>"
| receives_chunk: "receives K X c0 stream r \<Longrightarrow> in_flight r = chunk @ rest
    \<Longrightarrow> receives K X c0 stream (r\<lparr>in_flight := rest, buffered := buffered r @ chunk\<rparr>)"
| receives_packet: "receives K X c0 stream r \<Longrightarrow> decode K X (codec r) (buffered r) = (Inr (Some m), c, b)
    \<Longrightarrow> receives K X c0 stream (r\<lparr>buffered := b, codec := c, delivered := delivered r @ [m]\<rparr>)"
| receives_wait: "receives K X c0 stream r \<Longrightarrow> decode K X (codec r) (buffered r) = (Inr None, c, b)
    \<Longrightarrow> receives K X c0 stream (r\<lparr>buffered := b, codec := c\<rparr>)"

section \<open>The cipher\<close>

lemma length_xor_stream [simp]: "length (xor_stream k p bs) = length bs"
  by (induction bs arbitrary: p) auto

lemma xor_stream_append: "xor_stream k p (xs @ ys) = xor_stream k p xs @ xor_stream k (p + length xs) ys"
  by (induction xs arbitrary: p) auto

lemma xor_stream_twice [simp]: "xor_stream k p (xor_stream k p bs) = bs"
  by (induction bs arbitrary: p) (auto simp: xor.assoc)

lemma fst_apply_keystream [simp]:
  "fst (apply_keystream K a bs) = xor_stream (K (aes_key a) (aes_nonce a)) (aes_pos a) bs"
  by (simp add: apply_keystream_def)

text \<open>Bytes encrypted from the position of a cipher.\<close>

abbreviation crypt :: "keystream \<Rightarrow> adnl_aes \<Rightarrow> bytes \<Rightarrow> bytes" where
  "crypt K a \<equiv> xor_stream (K (aes_key a) (aes_nonce a)) (aes_pos a)"

definition ahead :: "adnl_aes \<Rightarrow> nat \<Rightarrow> adnl_aes" where
  "ahead a n = a\<lparr>aes_pos := aes_pos a + n\<rparr>"

lemma ahead_ahead [simp]: "ahead (ahead a m) n = ahead a (m + n)" "ahead a 0 = a"
  by (simp_all add: ahead_def)

lemma apply_keystream_ahead: "apply_keystream K a bs = (crypt K a bs, ahead a (length bs))"
  by (simp add: apply_keystream_def ahead_def)

lemma crypt_append: "crypt K a (xs @ ys) = crypt K a xs @ crypt K (ahead a (length xs)) ys"
  by (simp add: xor_stream_append ahead_def)

lemma crypt_split:
  assumes "buf @ u = crypt K a (xs @ ys)" "length xs \<le> length buf"
  shows "crypt K a (take (length xs) buf) = xs" "drop (length xs) buf @ u = crypt K (ahead a (length xs)) ys"
proof -
  have "take (length xs) (buf @ u) = crypt K a xs" "drop (length xs) (buf @ u) = crypt K (ahead a (length xs)) ys"
    unfolding assms(1) crypt_append by simp_all
  then show "crypt K a (take (length xs) buf) = xs" "drop (length xs) buf @ u = crypt K (ahead a (length xs)) ys"
    using assms(2) by simp_all
qed

section \<open>Packets on the wire\<close>

definition sendable :: "bytes \<times> bytes \<Rightarrow> bool" where
  "sendable p \<longleftrightarrow> length (fst p) = 32 \<and> length (snd p) \<le> 2 ^ 24 - 64"

definition packet_body :: "crates \<Rightarrow> bytes \<times> bytes \<Rightarrow> bytes" where
  "packet_body X p = fst p @ snd p @ sha256 X (fst p @ snd p)"

definition packet :: "crates \<Rightarrow> bytes \<times> bytes \<Rightarrow> bytes" where
  "packet X p = u32_le_bytes (word_of_nat (length (snd p) + 64)) @ packet_body X p"

definition packets :: "crates \<Rightarrow> (bytes \<times> bytes) list \<Rightarrow> bytes" where
  "packets X ps = concat (map (packet X) ps)"

lemma packets_simps [simp]: "packets X [] = []" "packets X (p # ps) = packet X p @ packets X ps"
  by (simp_all add: packets_def)

context hashing
begin

lemma length_packet_body: "sendable p \<Longrightarrow> length (packet_body X p) = length (snd p) + 64"
  by (simp add: packet_body_def sendable_def length_sha256)

lemma encode_packet:
  assumes "sendable (nonce, m)"
  shows "encode K X nonce c m dst
    = (Inr (), c\<lparr>aes_tx := ahead (aes_tx c) (length m + 68)\<rparr>, dst @ crypt K (aes_tx c) (packet X (nonce, m)))"
  using assms by (auto simp: encode_def sendable_def packet_def packet_body_def length_sha256 apply_keystream_ahead Let_def add.commute)

lemma send_all_eq:
  assumes "send_all K X c dst ps = Inr (c', stream)" "\<forall>p\<in>set ps. length (fst p) = 32"
  shows "stream = dst @ crypt K (aes_tx c) (packets X ps) \<and> list_all sendable ps
    \<and> c' = c\<lparr>aes_tx := ahead (aes_tx c) (length (packets X ps))\<rparr>"
  using assms
proof (induction ps arbitrary: c dst)
  case (Cons p ps)
  obtain nonce m where p: "p = (nonce, m)" by (cases p)
  show ?case
  proof (cases "2 ^ 24 - 64 < length m")
    case True
    then show ?thesis using Cons.prems(1) by (simp add: p encode_def)
  next
    case False
    then have s: "sendable (nonce, m)" using Cons.prems(2) by (simp add: sendable_def p)
    have l: "length (packet X (nonce, m)) = length m + 68" using length_packet_body[OF s] by (simp add: packet_def)
    have "send_all K X (c\<lparr>aes_tx := ahead (aes_tx c) (length m + 68)\<rparr>) (dst @ crypt K (aes_tx c) (packet X (nonce, m))) ps = Inr (c', stream)"
      using Cons.prems(1) unfolding p send_all.simps encode_packet[OF s] by simp
    from Cons.IH[OF this] show ?thesis using Cons.prems(2) s l by (simp add: p crypt_append)
  qed
qed (simp add: ahead_def)

text \<open>Decoding the body of a packet, when the buffer and the bytes in flight are what was sent.\<close>

lemma decode_body_step:
  assumes "sendable p" "buf @ u = crypt K (aes_rx c) (packet_body X p @ rest)" "n = length (snd p) + 64"
    "last_readed_length c = Some n"
  shows "if length buf < n then decode_body K X c n buf = (Inr None, c, buf)
    else \<exists>buf'. decode_body K X c n buf
           = (Inr (Some (snd p)), c\<lparr>last_readed_length := None, aes_rx := ahead (aes_rx c) n\<rparr>, buf')
         \<and> buf' @ u = crypt K (ahead (aes_rx c) n) rest"
proof (cases "length buf < n")
  case False
  have l: "length (packet_body X p) = n" using length_packet_body[OF assms(1)] assms(3) by simp
  note split = crypt_split[of buf u K "aes_rx c" "packet_body X p" rest, unfolded l, OF assms(2)]
  have body: "take (n - 32) (packet_body X p) = fst p @ snd p" "drop (n - 32) (packet_body X p) = sha256 X (fst p @ snd p)"
    "drop 32 (packet_body X p) = snd p @ sha256 X (fst p @ snd p)"
    using assms(1,3) by (simp_all add: packet_body_def sendable_def)
  have "decode_body K X c n buf
      = (Inr (Some (snd p)), c\<lparr>last_readed_length := None, aes_rx := ahead (aes_rx c) n\<rparr>, drop n buf)"
    using False split(1) body l assms(3) by (simp add: decode_body_def apply_keystream_ahead length_sha256 Let_def)
  then show ?thesis using False split(2) by simp
qed (simp add: decode_body_def)

lemma decode_step:
  assumes "last_readed_length c = None" "buf @ u = crypt K (aes_rx c) (packet X p @ ys)" "sendable p"
  defines "n \<equiv> length (snd p) + 64"
  defines "c' \<equiv> c\<lparr>aes_rx := ahead (aes_rx c) 4, last_readed_length := Some n\<rparr>"
  shows "if length buf < 4 then decode K X c buf = (Inr None, c, buf)
    else decode K X c buf = decode_body K X c' n (drop 4 buf)
       \<and> drop 4 buf @ u = crypt K (aes_rx c') (packet_body X p @ ys)"
proof (cases "length buf < 4")
  case False
  let ?w = "word_of_nat n :: u32"
  have "n < 2 ^ 32" using assms(3) by (simp add: n_def sendable_def)
  then have w: "unat ?w = n" by (simp add: unat_of_nat take_bit_nat_eq_self)
  have "buf @ u = crypt K (aes_rx c) (u32_le_bytes ?w @ packet_body X p @ ys)"
    using assms(2) by (simp add: packet_def n_def)
  note split = crypt_split[of buf u K "aes_rx c" "u32_le_bytes ?w" "packet_body X p @ ys", OF this, unfolded length_u32_bytes]
  have "decode K X c buf = decode_body K X c' n (drop 4 buf)"
    using False split(1) assms(1,3) w
    by (simp add: decode_def apply_keystream_ahead c'_def Let_def) (simp add: n_def sendable_def)
  then show ?thesis using False split(2) by (simp add: c'_def)
qed (use assms in \<open>simp add: decode_def\<close>)

lemma decode_packet:
  assumes "last_readed_length c = None" "sendable p"
  shows "decode K X c (crypt K (aes_rx c) (packet X p) @ rest)
    = (Inr (Some (snd p)), c\<lparr>last_readed_length := None, aes_rx := ahead (aes_rx c) (length (snd p) + 68)\<rparr>, rest)"
proof -
  let ?b = "crypt K (aes_rx c) (packet X p) @ rest" and ?n = "length (snd p) + 64"
  let ?c = "c\<lparr>aes_rx := ahead (aes_rx c) 4, last_readed_length := Some ?n\<rparr>"
  let ?ys = "crypt K (ahead (aes_rx c) (?n + 4)) rest"
  have len: "length (packet X p) = ?n + 4" using length_packet_body[OF assms(2)] by (simp add: packet_def)
  have "?b = crypt K (aes_rx c) (packet X p @ ?ys)" by (simp only: crypt_append len xor_stream_twice)
  then have h: "decode K X c ?b = decode_body K X ?c ?n (drop 4 ?b)" "drop 4 ?b @ [] = crypt K (aes_rx ?c) (packet_body X p @ ?ys)"
    using decode_step[of c ?b "[]" K p ?ys] assms len by simp_all
  from decode_body_step[of p "drop 4 ?b" "[]" K ?c ?ys ?n, OF assms(2) h(2)] show ?thesis using h(1) len by (simp add: add.commute)
qed

end

section \<open>Only encoded packets are accepted\<close>

lemma u32_le_bytes_from: "length bs = 4 \<Longrightarrow> u32_le_bytes (u32_from_le bs) = bs"
  using be_bytes_be_val[of "rev bs"] be_val_less[of "rev bs"]
  by (simp add: u32_le_bytes_def u32_from_le_def unat_of_nat take_bit_nat_eq_self)

lemma body_parts:
  assumes "length body = n" "64 \<le> n" "take 32 (drop (n - 32) body) = h"
  shows "body = take 32 body @ take (n - 64) (drop 32 body) @ h" "take (n - 32) body = take 32 body @ take (n - 64) (drop 32 body)"
proof -
  show *: "take (n - 32) body = take 32 body @ take (n - 64) (drop 32 body)"
    using assms(2) take_add[of 32 "n - 64" body] by simp
  have "body = take (n - 32) body @ drop (n - 32) body" by simp
  also have "drop (n - 32) body = h" using assms by auto
  finally show "body = take 32 body @ take (n - 64) (drop 32 body) @ h" using * by simp
qed

context hashing
begin

lemma decode_body_sound:
  assumes "decode_body K X c n src = (Inr (Some m), c', rest)" "64 \<le> n"
  shows "\<exists>nonce. length nonce = 32 \<and> length m + 64 = n \<and> src = crypt K (aes_rx c) (packet_body X (nonce, m)) @ rest"
proof -
  let ?body = "crypt K (aes_rx c) (take n src)"
  have len: "n \<le> length src" using assms(1) by (auto simp: decode_body_def split: if_splits)
  then have b: "length ?body = n" by simp
  have h: "take 32 (drop (n - 32) ?body) = sha256 X (take (n - 32) ?body)"
    and m: "m = take (n - 64) (drop 32 ?body)" and rest: "rest = drop n src"
    using assms len by (auto simp: decode_body_def apply_keystream_ahead Let_def split: if_splits)
  have "?body = packet_body X (take 32 ?body, m)"
    using body_parts[OF b assms(2) h] by (simp add: packet_body_def m)
  then have "crypt K (aes_rx c) ?body = crypt K (aes_rx c) (packet_body X (take 32 ?body, m))" by (rule arg_cong)
  then have "take n src = crypt K (aes_rx c) (packet_body X (take 32 ?body, m))" by simp
  then have "src = crypt K (aes_rx c) (packet_body X (take 32 ?body, m)) @ rest" by (metis rest append_take_drop_id)
  moreover have "length (take 32 ?body) = 32" "length m + 64 = n" using b assms(2) by (simp_all add: m)
  ultimately show ?thesis by blast
qed

lemma decode_sound:
  assumes "decode K X c src = (Inr (Some m), c', rest)" "last_readed_length c = None"
  shows "\<exists>nonce. sendable (nonce, m) \<and> src = crypt K (aes_rx c) (packet X (nonce, m)) @ rest"
proof -
  let ?len = "crypt K (aes_rx c) (take 4 src)"
  let ?n = "unat (u32_from_le ?len)"
  let ?c = "c\<lparr>aes_rx := ahead (aes_rx c) 4, last_readed_length := Some ?n\<rparr>"
  have l: "4 \<le> length src" using assms by (auto simp: decode_def split: if_splits)
  have d: "64 \<le> ?n" "?n \<le> 2 ^ 24" "decode_body K X ?c ?n (drop 4 src) = (Inr (Some m), c', rest)"
    using assms l by (auto simp: decode_def apply_keystream_ahead Let_def split: if_splits)
  from decode_body_sound[OF d(3,1)] obtain nonce where n: "length nonce = 32" "length m + 64 = ?n"
    "drop 4 src = crypt K (ahead (aes_rx c) 4) (packet_body X (nonce, m)) @ rest" by auto
  have "?len = u32_le_bytes (u32_from_le ?len)" using l by (simp add: u32_le_bytes_from)
  also have "u32_from_le ?len = word_of_nat (length m + 64)" unfolding n(2) by simp
  finally have "take 4 src = crypt K (aes_rx c) (u32_le_bytes (word_of_nat (length m + 64)))" by (metis xor_stream_twice)
  then have "src = crypt K (aes_rx c) (u32_le_bytes (word_of_nat (length m + 64))) @ crypt K (ahead (aes_rx c) 4) (packet_body X (nonce, m)) @ rest"
    using n(3) by (metis append_take_drop_id)
  then show ?thesis using n(1,2) d(2) by (auto simp: packet_def crypt_append sendable_def intro!: exI[of _ nonce])
qed

end

section \<open>The invariant of a receiver\<close>

text \<open>
  Every packet not yet delivered lies, encrypted from the position of the receiving cipher, in the
  buffer followed by the bytes in flight; after a length has been read the first of them
  lacks its length field.
\<close>

definition on_stream :: "keystream \<Rightarrow> crates \<Rightarrow> (bytes \<times> bytes) list \<Rightarrow> receiver \<Rightarrow> bool" where
  "on_stream K X ps r \<longleftrightarrow> (\<exists>rest. map snd ps = delivered r @ map snd rest \<and> list_all sendable rest
     \<and> (case last_readed_length (codec r) of
          None \<Rightarrow> buffered r @ in_flight r = crypt K (aes_rx (codec r)) (packets X rest)
        | Some n \<Rightarrow> (\<exists>p qs. rest = p # qs \<and> n = length (snd p) + 64
            \<and> buffered r @ in_flight r = crypt K (aes_rx (codec r)) (packet_body X p @ packets X qs))))"

lemma on_stream_cong:
  assumes "codec r = codec r'" "delivered r = delivered r'" "buffered r @ in_flight r = buffered r' @ in_flight r'"
  shows "on_stream K X ps r = on_stream K X ps r'"
  by (simp only: on_stream_def assms)

text \<open>What one call of \<open>decode\<close> does to a receiver.\<close>

definition decode_ok :: "keystream \<Rightarrow> crates \<Rightarrow> (bytes \<times> bytes) list \<Rightarrow> receiver \<Rightarrow> bool" where
  "decode_ok K X ps r \<longleftrightarrow> (case decode K X (codec r) (buffered r) of
       (Inl e, _, _) \<Rightarrow> False
     | (Inr None, c, b) \<Rightarrow> on_stream K X ps (r\<lparr>buffered := b, codec := c\<rparr>)
         \<and> (in_flight r = [] \<longrightarrow> delivered r = map snd ps \<and> b = [])
     | (Inr (Some m), c, b) \<Rightarrow> on_stream K X ps (r\<lparr>buffered := b, codec := c, delivered := delivered r @ [m]\<rparr>))"

context hashing
begin

lemma decode_ok_body:
  assumes "decode K X (codec r) (buffered r) = decode_body K X c n b" "last_readed_length c = Some n"
    "map snd ps = delivered r @ map snd (p # qs)" "list_all sendable (p # qs)" "n = length (snd p) + 64"
    "b @ in_flight r = crypt K (aes_rx c) (packet_body X p @ packets X qs)"
  shows "decode_ok K X ps r"
proof -
  have p: "sendable p" using assms(4) by simp
  note step = decode_body_step[of p b "in_flight r" K c "packets X qs" n, OF p assms(6,5,2)]
  show ?thesis
  proof (cases "length b < n")
    case True
    have "length (b @ in_flight r) \<ge> n" unfolding assms(6) using length_packet_body[OF p] assms(5) by simp
    then have "in_flight r \<noteq> []" using True by auto
    moreover have "on_stream K X ps (r\<lparr>buffered := b, codec := c\<rparr>)"
      using assms(2-6) unfolding on_stream_def by (intro exI[of _ "p # qs"]) simp
    ultimately show ?thesis using step True assms(1) by (simp add: decode_ok_def)
  next
    case False
    then obtain b' where d: "decode_body K X c n b
        = (Inr (Some (snd p)), c\<lparr>last_readed_length := None, aes_rx := ahead (aes_rx c) n\<rparr>, b')"
      "b' @ in_flight r = crypt K (ahead (aes_rx c) n) (packets X qs)" using step by auto
    then show ?thesis using assms(1,3,4) unfolding decode_ok_def on_stream_def by (auto intro!: exI[of _ qs])
  qed
qed

lemma decode_on_stream:
  assumes "on_stream K X ps r"
  shows "decode_ok K X ps r"
proof -
  obtain rest where r: "map snd ps = delivered r @ map snd rest" "list_all sendable rest"
    and s: "case last_readed_length (codec r) of
        None \<Rightarrow> buffered r @ in_flight r = crypt K (aes_rx (codec r)) (packets X rest)
      | Some n \<Rightarrow> (\<exists>p qs. rest = p # qs \<and> n = length (snd p) + 64
          \<and> buffered r @ in_flight r = crypt K (aes_rx (codec r)) (packet_body X p @ packets X qs))"
    using assms unfolding on_stream_def by blast
  show ?thesis
  proof (cases "last_readed_length (codec r)")
    case (Some n)
    then obtain p qs where "rest = p # qs" "n = length (snd p) + 64"
      "buffered r @ in_flight r = crypt K (aes_rx (codec r)) (packet_body X p @ packets X qs)" using s by auto
    then show ?thesis using decode_ok_body[OF _ Some] r Some by (simp add: decode_def)
  next
    case None
    show ?thesis
    proof (cases rest)
      case Nil
      then show ?thesis using None r s by (simp add: decode_ok_def decode_def on_stream_def)
    next
      case (Cons p qs)
      have p: "sendable p" using r(2) Cons by simp
      have b: "buffered r @ in_flight r = crypt K (aes_rx (codec r)) (packet X p @ packets X qs)" using s None Cons by simp
      note step = decode_step[of "codec r" "buffered r" "in_flight r" K p "packets X qs", OF None b p]
      show ?thesis
      proof (cases "length (buffered r) < 4")
        case True
        have "length (buffered r @ in_flight r) \<ge> 4" unfolding b by (simp add: packet_def)
        then have "in_flight r \<noteq> []" using True by auto
        then show ?thesis using step True assms by (simp add: decode_ok_def)
      next
        case False
        then show ?thesis using decode_ok_body[OF _ _ _ _ refl] step r Cons by auto
      qed
    qed
  qed
qed

lemma receives_on_stream:
  assumes "receives K X c0 stream r" "stream = crypt K (aes_rx c0) (packets X ps)" "last_readed_length c0 = None" "list_all sendable ps"
  shows "on_stream K X ps r"
  using assms(1)
proof induction
  case receives_start
  show ?case using assms(2-4) by (auto simp: on_stream_def)
next
  case (receives_chunk r chunk rest)
  then show ?case using on_stream_cong[of "r\<lparr>in_flight := rest, buffered := buffered r @ chunk\<rparr>" r] by simp
next
  case (receives_packet r m c b)
  then show ?case using decode_on_stream[of K ps r] by (simp add: decode_ok_def)
next
  case (receives_wait r c b)
  then show ?case using decode_on_stream[of K ps r] by (simp add: decode_ok_def)
qed

end

section \<open>Reading a handshake\<close>

definition params_ok :: "aes_params \<Rightarrow> bool" where
  "params_ok p \<longleftrightarrow> length (rx_key p) = 32 \<and> length (tx_key p) = 32 \<and> length (rx_nonce p) = 16
     \<and> length (tx_nonce p) = 16 \<and> length (padding p) = 64"

lemma aes_params_reads: "params_ok p \<Longrightarrow> aes_params_from (aes_params_to_bytes p) = p"
  by (simp add: aes_params_from_def aes_params_to_bytes_def params_ok_def)

lemma length_aes_params: "params_ok p \<Longrightarrow> length (aes_params_to_bytes p) = 160"
  by (simp add: aes_params_to_bytes_def params_ok_def)

lemma decrypt_reads:
  fixes a b :: bytes
  assumes "edwards E smul" "hashing X" "params_ok p"
  defines "client \<equiv> key_pair_of_secret E a" and "server \<equiv> key_pair_of_secret E b"
  assumes "selector (adnl_address X (public_key server)) = Some server"
  shows "decrypt_from_raw K X E (handshake_to_bytes K X (perform_ecdh X E p client (public_key server))) selector
    = Inr (perform_ecdh X E p client (public_key server))"
proof -
  note len = hashing.length_sha256[OF assms(2)] edwards.length_public_key[OF assms(1), of a, folded client_def]
    length_aes_params[OF assms(3)]
  have addr: "length (adnl_address X (public_key server)) = 32" by (simp add: adnl_address_def len(1))
  have pk: "public_key_from_bytes E (compressed (public_key client)) = Some (public_key client)"
    unfolding client_def by (rule edwards.public_key_reads[OF assms(1)])
  have sec: "pair_shared_secret E server (public_key client) = pair_shared_secret E client (public_key server)"
    unfolding client_def server_def by (rule edwards.shared_secret[OF assms(1)])
  show ?thesis
    using assms(6) by (simp add: decrypt_from_raw_def handshake_to_bytes_def perform_ecdh_def Let_def len addr pk sec aes_params_reads[OF assms(3)])
qed

section \<open>Properties\<close>

text \<open>
  C21: Whatever the sizes of the chunks in which an encrypted stream arrives and whenever the decoder is
  called, it reports no error, the messages delivered are the first ones sent, in order, and
  once every byte has arrived the next call delivers a message unless all have been delivered.
\<close>

theorem adnl_stream_delivers:
  assumes "hashing X" "send_all K X s [] ps = Inr (s', stream)" "\<forall>p\<in>set ps. length (fst p) = 32"
    "aes_rx c0 = aes_tx s" "last_readed_length c0 = None" "receives K X c0 stream r"
  shows "prefix (delivered r) (map snd ps)
    \<and> is_ok (fst (decode K X (codec r) (buffered r)))
    \<and> (in_flight r = [] \<and> delivered r \<noteq> map snd ps
        \<longrightarrow> (\<exists>m c b. decode K X (codec r) (buffered r) = (Inr (Some m), c, b) \<and> prefix (delivered r @ [m]) (map snd ps)))"
proof -
  have "stream = crypt K (aes_rx c0) (packets X ps)" "list_all sendable ps"
    using hashing.send_all_eq[OF assms(1-3)] assms(4) by simp_all
  then have on: "on_stream K X ps r" by (rule hashing.receives_on_stream[OF assms(1,6) _ assms(5)])
  have pre: "on_stream K X ps q \<Longrightarrow> prefix (delivered q) (map snd ps)" for q by (auto simp: on_stream_def)
  obtain res c b where d: "decode K X (codec r) (buffered r) = (res, c, b)" by (cases "decode K X (codec r) (buffered r)")
  note ok = hashing.decode_on_stream[OF assms(1) on, unfolded decode_ok_def d]
  show ?thesis
  proof (cases res)
    case (Inl e)
    then show ?thesis using ok by simp
  next
    case (Inr got)
    show ?thesis
    proof (cases got)
      case None
      then show ?thesis using ok d Inr pre[OF on] by (simp add: is_ok_def)
    next
      case (Some m)
      then have "prefix (delivered r @ [m]) (map snd ps)"
        using ok Inr pre[of "r\<lparr>buffered := b, codec := c, delivered := delivered r @ [m]\<rparr>"] by simp
      then show ?thesis using d Inr Some pre[OF on] by (simp add: is_ok_def)
    qed
  qed
qed

text \<open>A stream of two packets under a key stream that counts; five bytes have arrived and \<open>decode\<close> was called.\<close>

definition counting :: keystream where
  "counting key nonce pos = word_of_nat pos"

definition sample_codec :: adnl_codec where
  "sample_codec = codec_client (aes_params_from (replicate 160 0))"

definition sample_packets :: "(bytes \<times> bytes) list" where
  "sample_packets = [(replicate 32 1, [5, 6]), (replicate 32 2, [])]"

theorem adnl_stream_delivers_witness:
  "\<exists>s' stream. send_all counting ref_crates sample_codec [] sample_packets = Inr (s', stream)
    \<and> is_ok (fst (decode counting ref_crates (sample_codec\<lparr>aes_rx := aes_tx sample_codec\<rparr>) (take 5 stream)))"
proof -
  let ?c = "sample_codec\<lparr>aes_rx := aes_tx sample_codec\<rparr>"
  obtain s' stream where s: "send_all counting ref_crates sample_codec [] sample_packets = Inr (s', stream)"
    by (simp add: sample_packets_def encode_def apply_keystream_def Let_def)
  have c: "last_readed_length ?c = None" by (simp add: sample_codec_def codec_client_def)
  let ?r = "\<lparr>in_flight = stream, buffered = [], codec = ?c, delivered = []\<rparr>"
  have r: "receives counting ref_crates ?c stream (?r\<lparr>in_flight := drop 5 stream, buffered := buffered ?r @ take 5 stream\<rparr>)"
    by (rule receives_chunk[OF receives_start]) simp
  have n: "\<forall>p\<in>set sample_packets. length (fst p) = 32" by (simp add: sample_packets_def)
  from adnl_stream_delivers[OF ref_hashing.hashing_axioms s n _ c r] show ?thesis using s by simp
qed

text \<open>
  C23: The decoder accepts exactly what the encoder writes: a decoder at the start of a packet delivers a message and
  leaves some bytes in the buffer if and only if the buffer was an encoding of the message, for
  some nonce, followed by these bytes.
\<close>

theorem decode_exact:
  assumes "hashing X" "last_readed_length c = None" "aes_tx s = aes_rx c"
  shows "(\<exists>c'. decode K X c src = (Inr (Some m), c', rest))
    \<longleftrightarrow> (\<exists>nonce s' wire. length nonce = 32 \<and> encode K X nonce s m [] = (Inr (), s', wire) \<and> src = wire @ rest)"
proof
  assume "\<exists>c'. decode K X c src = (Inr (Some m), c', rest)"
  then obtain nonce where n: "sendable (nonce, m)" "src = crypt K (aes_rx c) (packet X (nonce, m)) @ rest"
    using hashing.decode_sound[OF assms(1) _ assms(2)] by blast
  then show "\<exists>nonce s' wire. length nonce = 32 \<and> encode K X nonce s m [] = (Inr (), s', wire) \<and> src = wire @ rest"
    using hashing.encode_packet[OF assms(1) n(1), of K s "[]"] assms(3) by (auto simp: sendable_def)
next
  assume "\<exists>nonce s' wire. length nonce = 32 \<and> encode K X nonce s m [] = (Inr (), s', wire) \<and> src = wire @ rest"
  then obtain nonce s' wire where e: "length nonce = 32" "encode K X nonce s m [] = (Inr (), s', wire)" "src = wire @ rest" by blast
  then have n: "sendable (nonce, m)" by (auto simp: sendable_def encode_def split: if_splits)
  then have "src = crypt K (aes_rx c) (packet X (nonce, m)) @ rest"
    using e(2,3) hashing.encode_packet[OF assms(1) n, of K s "[]"] assms(3) by auto
  then show "\<exists>c'. decode K X c src = (Inr (Some m), c', rest)" using hashing.decode_packet[OF assms(1,2) n] by simp
qed

theorem decode_exact_witness:
  "\<exists>c' wire s'. encode counting ref_crates (replicate 32 0) sample_codec [9] [] = (Inr (), s', wire)
    \<and> decode counting ref_crates (sample_codec\<lparr>aes_rx := aes_tx sample_codec\<rparr>) (wire @ [1]) = (Inr (Some [9]), c', [1])"
proof -
  obtain s' wire where e: "encode counting ref_crates (replicate 32 0) sample_codec [9] [] = (Inr (), s', wire)"
    by (simp add: encode_def apply_keystream_def Let_def)
  have "last_readed_length (sample_codec\<lparr>aes_rx := aes_tx sample_codec\<rparr>) = None" by (simp add: sample_codec_def codec_client_def)
  from decode_exact[OF ref_hashing.hashing_axioms this, of sample_codec counting "wire @ [1]" "[9]" "[1]"] e
  show ?thesis by (metis (no_types, lifting) adnl_codec.select_convs(1) adnl_codec.surjective adnl_codec.update_convs(1) length_replicate)
qed

text \<open>
  C22: A client and a server that derive their keys from secrets complete the handshake: the server
  decrypts the packet to the parameters of the client, its empty answer is accepted, each knows
  the other's address, and the cipher each sends with is the one the other receives with.
\<close>

theorem handshake_completes:
  fixes a b :: bytes
  assumes "edwards E smul" "hashing X" "params_ok p" "length nonce = 32"
    "selector (adnl_address X (public_key (key_pair_of_secret E b))) = Some (key_pair_of_secret E b)"
  shows "\<exists>sc cc reply client server.
    handle_handshake K X E nonce (handshake_to_bytes K X
        (perform_ecdh X E p (key_pair_of_secret E a) (public_key (key_pair_of_secret E b)))) selector = Inr (sc, server, reply)
    \<and> accept_reply K X (perform_ecdh X E p (key_pair_of_secret E a) (public_key (key_pair_of_secret E b))) reply = Inr (Some (cc, client, []))
    \<and> aes_tx cc = aes_rx sc \<and> aes_rx cc = aes_tx sc \<and> last_readed_length cc = None \<and> last_readed_length sc = None
    \<and> local_address client = adnl_address X (public_key (key_pair_of_secret E a))
    \<and> local_address server = adnl_address X (public_key (key_pair_of_secret E b))
    \<and> remote_address client = local_address server \<and> remote_address server = local_address client"
proof -
  let ?h = "perform_ecdh X E p (key_pair_of_secret E a) (public_key (key_pair_of_secret E b))"
  let ?c = "make_client_codec ?h" and ?s = "make_server_codec ?h"
  have s: "sendable (nonce, [])" using assms(4) by (simp add: sendable_def)
  have aligned: "aes_rx ?c = aes_tx ?s" "aes_tx ?c = aes_rx ?s" "last_readed_length ?c = None" "last_readed_length ?s = None"
    by (simp_all add: make_client_codec_def make_server_codec_def codec_client_def codec_server_def)
  let ?reply = "crypt K (aes_tx ?s) (packet X (nonce, []))"
  have h: "handle_handshake K X E nonce (handshake_to_bytes K X ?h) selector
      = Inr (?s\<lparr>aes_tx := ahead (aes_tx ?s) 68\<rparr>, \<lparr>local_address = hs_receiver ?h, remote_address = adnl_address X (hs_sender ?h)\<rparr>, ?reply)"
    using decrypt_reads[of E smul X p selector b K a, OF assms(1-3,5)] hashing.encode_packet[OF assms(2) s, of K ?s "[]"]
    by (simp add: handle_handshake_def)
  have "decode K X ?c ?reply = (Inr (Some []), ?c\<lparr>last_readed_length := None, aes_rx := ahead (aes_rx ?c) 68\<rparr>, [])"
    using hashing.decode_packet[of X ?c "(nonce, [])" K "[]", OF assms(2) aligned(3) s] by (simp add: aligned(1))
  then have r: "accept_reply K X ?h ?reply = Inr (Some (?c\<lparr>last_readed_length := None, aes_rx := ahead (aes_rx ?c) 68\<rparr>,
      \<lparr>local_address = adnl_address X (hs_sender ?h), remote_address = hs_receiver ?h\<rparr>, []))"
    by (simp add: accept_reply_def)
  show ?thesis using h r aligned by (simp add: perform_ecdh_def)
qed

definition sample_selector :: "bytes \<Rightarrow> (scalar, scalar) key_pair option" where
  "sample_selector a = Some (key_pair_of_secret base_group [2])"

theorem handshake_completes_witness:
  "\<exists>sc cc reply client server.
    handle_handshake counting ref_crates base_group (replicate 32 7) (handshake_to_bytes counting ref_crates
        (perform_ecdh ref_crates base_group (aes_params_from (replicate 160 0)) (key_pair_of_secret base_group [1])
          (public_key (key_pair_of_secret base_group [2])))) sample_selector = Inr (sc, server, reply)
    \<and> accept_reply counting ref_crates (perform_ecdh ref_crates base_group (aes_params_from (replicate 160 0))
          (key_pair_of_secret base_group [1]) (public_key (key_pair_of_secret base_group [2]))) reply = Inr (Some (cc, client, []))
    \<and> aes_tx cc = aes_rx sc \<and> aes_rx cc = aes_tx sc \<and> remote_address client = local_address server"
proof -
  have p: "params_ok (aes_params_from (replicate 160 0))" by (simp add: params_ok_def aes_params_from_def)
  have n: "length (replicate 32 (7 :: u8)) = 32" by simp
  have s: "sample_selector (adnl_address ref_crates (public_key (key_pair_of_secret base_group [2]))) = Some (key_pair_of_secret base_group [2])"
    by (simp only: sample_selector_def)
  from handshake_completes[of base_group "(*)" ref_crates _ _ sample_selector "[2]" counting "[1]",
      OF base.edwards_axioms ref_hashing.hashing_axioms p n s]
  show ?thesis by blast
qed

end
