(* ===== verification/RateLimit.thy ===== *)
theory RateLimit
  imports Ton_Prelude
begin

text \<open>
  The token bucket of \<open>src/liteclient/rate_limit.rs\<close>.  Durations are nanoseconds; the \<open>u128\<close> and
  \<open>u32\<close> operations are natural numbers with the saturation of the code written out.

  The bucket is shared by every clone of a limiter behind a mutex, and the clock is read
  while the mutex is held, so the calls of all tasks form one sequence of \<open>acquire_at\<close> with
  readings that never decrease: the relation \<open>bucket_run\<close>.  For every such interleaving the
  tokens stay within the burst, the number of admissions is bounded by the burst and the
  rate, and a refused caller that sleeps for the duration it was given is then admitted,
  and not earlier.
\<close>

definition NANOS_PER_SECOND :: nat where "NANOS_PER_SECOND = 1000000000"

definition u128_max :: nat where "u128_max = 2 ^ 128 - 1"
definition u64_max :: nat where "u64_max = 2 ^ 64 - 1"
definition u32_max :: nat where "u32_max = 2 ^ 32 - 1"

definition saturating_mul_u128 :: "nat \<Rightarrow> nat \<Rightarrow> nat" where
  "saturating_mul_u128 a b = min (a * b) u128_max"

definition saturating_add_u32 :: "nat \<Rightarrow> nat \<Rightarrow> nat" where
  "saturating_add_u32 a b = min (a + b) u32_max"

record request_rate_limit =
  rps :: nat
  burst :: nat

datatype rate_limit_error = ZeroRps | ZeroBurst

definition with_burst :: "nat \<Rightarrow> nat \<Rightarrow> rate_limit_error + request_rate_limit" where
  "with_burst r n =
     (if r = 0 then Inl ZeroRps
      else if n = 0 then Inl ZeroBurst
      else Inr \<lparr>rps = r, burst = n\<rparr>)"

definition per_second :: "nat \<Rightarrow> rate_limit_error + request_rate_limit" where
  "per_second r = with_burst r r"

record token_bucket =
  limit :: request_rate_limit
  tokens :: nat
  last_refill_ns :: nat

definition bucket_new :: "request_rate_limit \<Rightarrow> nat \<Rightarrow> token_bucket" where
  "bucket_new l now = \<lparr>limit = l, tokens = burst l, last_refill_ns = now\<rparr>"

definition refill :: "token_bucket \<Rightarrow> nat \<Rightarrow> token_bucket" where
  "refill b now_ns =
     (let elapsed_ns = now_ns - last_refill_ns b;
          new_tokens = saturating_mul_u128 elapsed_ns (rps (limit b)) div NANOS_PER_SECOND in
      if new_tokens = 0 then b
      else b\<lparr>tokens := min (saturating_add_u32 (tokens b) (min new_tokens u32_max)) (burst (limit b)),
             last_refill_ns := last_refill_ns b
               + saturating_mul_u128 new_tokens NANOS_PER_SECOND div rps (limit b)\<rparr>)"

definition wait_duration :: "token_bucket \<Rightarrow> nat \<Rightarrow> nat" where
  "wait_duration b now_ns =
     (let nanos_per_token = div_ceil NANOS_PER_SECOND (rps (limit b));
          elapsed_ns = now_ns - last_refill_ns b;
          wait_ns = max (nanos_per_token - elapsed_ns) 1
      in min wait_ns u64_max)"

text \<open>\<open>None\<close> admits the caller; \<open>Some d\<close> tells it to sleep for \<open>d\<close>.\<close>

definition acquire_at :: "token_bucket \<Rightarrow> nat \<Rightarrow> nat option \<times> token_bucket" where
  "acquire_at b now =
     (let b = refill b now in
      if 0 < tokens b then (None, b\<lparr>tokens := tokens b - 1\<rparr>)
      else (Some (wait_duration b now), b))"

text \<open>
  The loop of \<open>RateLimiter::acquire\<close>: \<open>clock i\<close> is the \<open>i\<close>-th reading of the elapsed time.  The loop may run
  for ever when the clock stands still, hence the fuel.
\<close>

fun acquire_loop :: "nat \<Rightarrow> (nat \<Rightarrow> nat) \<Rightarrow> nat \<Rightarrow> token_bucket \<Rightarrow> (nat \<times> token_bucket) option" where
  "acquire_loop 0 clock i b = None"
| "acquire_loop (Suc fuel) clock i b =
     (case acquire_at b (clock i) of
        (None, b) \<Rightarrow> Some (i, b)
      | (Some _, b) \<Rightarrow> acquire_loop fuel clock (Suc i) b)"

section \<open>Runs\<close>

text \<open>\<open>bucket_run l t0 t g b\<close>: from a new bucket at \<open>t0\<close>, calls up to time \<open>t\<close> with \<open>g\<close> admissions lead to \<open>b\<close>.\<close>

inductive bucket_run :: "request_rate_limit \<Rightarrow> nat \<Rightarrow> nat \<Rightarrow> nat \<Rightarrow> token_bucket \<Rightarrow> bool" where
  fresh: "bucket_run l t0 t0 0 (bucket_new l t0)"
| admitted: "bucket_run l t0 t g b \<Longrightarrow> t \<le> now \<Longrightarrow> acquire_at b now = (None, b') \<Longrightarrow> bucket_run l t0 now (g + 1) b'"
| refused: "bucket_run l t0 t g b \<Longrightarrow> t \<le> now \<Longrightarrow> acquire_at b now = (Some d, b') \<Longrightarrow> bucket_run l t0 now g b'"

inductive_cases bucket_run_step: "bucket_run l t0 t g b"

definition valid_limit :: "request_rate_limit \<Rightarrow> bool" where
  "valid_limit l \<longleftrightarrow> 0 < rps l \<and> rps l \<le> u32_max \<and> 0 < burst l \<and> burst l \<le> u32_max"

text \<open>The readings of a \<open>Duration\<close>, whose seconds are a \<open>u64\<close>.\<close>

definition valid_time :: "nat \<Rightarrow> bool" where
  "valid_time t \<longleftrightarrow> t < 2 ^ 64 * NANOS_PER_SECOND"

section \<open>Lemmas\<close>

lemma valid_time_mono: "valid_time t \<Longrightarrow> s \<le> t \<Longrightarrow> valid_time s"
  by (simp add: valid_time_def)

lemma min_saturated: "(n :: nat) \<le> m \<Longrightarrow> min (min (a + min k m) m) n = min (a + k) n"
  by (simp add: min_def)

text \<open>The products of the refill do not saturate.\<close>

lemma refill_unsaturated:
  assumes "valid_time now" "valid_limit (limit b)"
  shows "refill b now =
    (let k = (now - last_refill_ns b) * rps (limit b) div NANOS_PER_SECOND in
     if k = 0 then b
     else b\<lparr>tokens := min (tokens b + k) (burst (limit b)),
            last_refill_ns := last_refill_ns b + k * NANOS_PER_SECOND div rps (limit b)\<rparr>)"
proof -
  let ?r = "rps (limit b)" and ?e = "now - last_refill_ns b"
  have r: "?r \<le> 2 ^ 32 - 1"
    using assms(2) by (simp add: valid_limit_def u32_max_def)
  have "?e \<le> 2 ^ 64 * NANOS_PER_SECOND" using assms(1) by (simp add: valid_time_def)
  then have "?e * ?r \<le> (2 ^ 64 * NANOS_PER_SECOND) * (2 ^ 32 - 1)" using r by (rule mult_le_mono)
  also have "\<dots> \<le> u128_max" by (simp add: u128_max_def NANOS_PER_SECOND_def)
  finally have m: "?e * ?r \<le> u128_max" .
  let ?k = "?e * ?r div NANOS_PER_SECOND"
  have "?k * NANOS_PER_SECOND \<le> ?e * ?r" by (rule div_times_less_eq_dividend)
  with m have k: "?k * NANOS_PER_SECOND \<le> u128_max" by linarith
  have "saturating_mul_u128 ?e ?r = ?e * ?r" "saturating_mul_u128 ?k NANOS_PER_SECOND = ?k * NANOS_PER_SECOND"
    unfolding saturating_mul_u128_def by (rule min_absorb1, rule m, rule min_absorb1, rule k)
  moreover have "min (saturating_add_u32 (tokens b) (min ?k u32_max)) (burst (limit b)) = min (tokens b + ?k) (burst (limit b))"
    unfolding saturating_add_u32_def by (rule min_saturated) (use assms(2) in \<open>simp add: valid_limit_def\<close>)
  ultimately show ?thesis by (simp only: refill_def Let_def)
qed

definition bucket_ok :: "token_bucket \<Rightarrow> nat \<Rightarrow> bool" where
  "bucket_ok b now \<longleftrightarrow> valid_limit (limit b) \<and> tokens b \<le> burst (limit b) \<and> last_refill_ns b \<le> now"

text \<open>What a refill does to a bucket: \<open>k\<close> tokens accrue and are paid with time.\<close>

lemma refill_spec:
  assumes "bucket_ok b t" "t \<le> now" "valid_time now"
  obtains k where "k = (now - last_refill_ns b) * rps (limit b) div NANOS_PER_SECOND"
    "refill b now = b\<lparr>tokens := min (tokens b + k) (burst (limit b)),
       last_refill_ns := last_refill_ns b + k * NANOS_PER_SECOND div rps (limit b)\<rparr>"
    "bucket_ok (refill b now) now"
    "k * (NANOS_PER_SECOND div rps (limit b)) \<le> k * NANOS_PER_SECOND div rps (limit b)"
proof -
  let ?r = "rps (limit b)" and ?e = "now - last_refill_ns b"
  define k where "k = ?e * ?r div NANOS_PER_SECOND"
  have l: "valid_limit (limit b)" "0 < ?r" "tokens b \<le> burst (limit b)" "last_refill_ns b \<le> now"
    using assms(1,2) by (simp_all add: bucket_ok_def valid_limit_def)
  have eq: "refill b now = b\<lparr>tokens := min (tokens b + k) (burst (limit b)),
       last_refill_ns := last_refill_ns b + k * NANOS_PER_SECOND div ?r\<rparr>"
    using l(3) by (simp add: refill_unsaturated[OF assms(3) l(1)] k_def[symmetric] Let_def min_absorb1)
  have "k * NANOS_PER_SECOND \<le> ?e * ?r" unfolding k_def by (rule div_times_less_eq_dividend)
  then have "k * NANOS_PER_SECOND div ?r \<le> ?e" using l(2) by (metis div_le_mono nonzero_mult_div_cancel_right neq0_conv)
  then have "bucket_ok (refill b now) now" using l eq by (simp add: bucket_ok_def)
  moreover have "k * (NANOS_PER_SECOND div ?r) \<le> k * NANOS_PER_SECOND div ?r"
    using l(2) by (simp add: less_eq_div_iff_mult_less_eq mult.assoc div_times_less_eq_dividend)
  ultimately show ?thesis using that k_def eq by blast
qed

lemma acquire_at_cases:
  assumes "bucket_ok b t" "t \<le> now" "valid_time now" "acquire_at b now = (r, b')"
  shows "bucket_ok b' now" "limit b' = limit b"
    "r = None \<Longrightarrow> 0 < tokens (refill b now) \<and> b' = (refill b now)\<lparr>tokens := tokens (refill b now) - 1\<rparr>"
    "r = Some d \<Longrightarrow> tokens (refill b now) = 0 \<and> b' = refill b now \<and> d = wait_duration b' now"
proof -
  obtain k where k: "refill b now = b\<lparr>tokens := min (tokens b + k) (burst (limit b)),
       last_refill_ns := last_refill_ns b + k * NANOS_PER_SECOND div rps (limit b)\<rparr>" "bucket_ok (refill b now) now"
    using refill_spec[OF assms(1-3)] by metis
  have lim: "limit (refill b now) = limit b" using k(1) by simp
  show "bucket_ok b' now" using assms(4) k(2) by (auto simp: acquire_at_def Let_def bucket_ok_def split: if_splits)
  show "limit b' = limit b" using assms(4) lim by (auto simp: acquire_at_def Let_def split: if_splits)
  show "r = None \<Longrightarrow> 0 < tokens (refill b now) \<and> b' = (refill b now)\<lparr>tokens := tokens (refill b now) - 1\<rparr>"
    "r = Some d \<Longrightarrow> tokens (refill b now) = 0 \<and> b' = refill b now \<and> d = wait_duration b' now"
    using assms(4) by (auto simp: acquire_at_def Let_def split: if_splits)
qed

text \<open>The account of a run: admissions and tokens are covered by the burst and by tokens paid with time.\<close>

definition account :: "request_rate_limit \<Rightarrow> nat \<Rightarrow> nat \<Rightarrow> token_bucket \<Rightarrow> bool" where
  "account l t0 g b \<longleftrightarrow> t0 \<le> last_refill_ns b
     \<and> (\<exists>k. g + tokens b \<le> burst l + k \<and> k * (NANOS_PER_SECOND div rps l) \<le> last_refill_ns b - t0)"

lemma account_refill:
  assumes "bucket_ok b t" "t \<le> now" "valid_time now" "limit b = l" "account l t0 g b"
  shows "account l t0 g (refill b now)"
proof -
  obtain k where k: "refill b now = b\<lparr>tokens := min (tokens b + k) (burst l),
       last_refill_ns := last_refill_ns b + k * NANOS_PER_SECOND div rps l\<rparr>"
    "k * (NANOS_PER_SECOND div rps l) \<le> k * NANOS_PER_SECOND div rps l"
    using refill_spec[OF assms(1-3)] assms(4) by metis
  from assms(5) obtain m where m: "t0 \<le> last_refill_ns b" "g + tokens b \<le> burst l + m"
      "m * (NANOS_PER_SECOND div rps l) \<le> last_refill_ns b - t0"
    unfolding account_def by blast
  have "(m + k) * (NANOS_PER_SECOND div rps l) \<le> last_refill_ns b + k * NANOS_PER_SECOND div rps l - t0"
    using m(1,3) k(2) by (simp add: add_mult_distrib)
  moreover have "g + min (tokens b + k) (burst l) \<le> burst l + (m + k)" using m(2) by linarith
  ultimately show ?thesis using m(1) unfolding account_def k(1) by (auto intro!: exI[of _ "m + k"])
qed

lemma bucket_run_inv:
  "bucket_run l t0 t g b \<Longrightarrow> valid_limit l \<Longrightarrow> valid_time t \<Longrightarrow> bucket_ok b t \<and> limit b = l \<and> account l t0 g b"
proof (induction rule: bucket_run.induct)
  case (fresh l t0)
  then show ?case by (simp add: bucket_ok_def bucket_new_def account_def)
next
  case (admitted l t0 t g b now b')
  then have b: "bucket_ok b t" "limit b = l" "account l t0 g b" using valid_time_mono by blast+
  note a = acquire_at_cases[OF b(1) admitted.hyps(2) admitted.prems(2) admitted.hyps(3)]
  note r = account_refill[OF b(1) admitted.hyps(2) admitted.prems(2) b(2,3)]
  have "account l t0 (g + 1) b'" using a(3)[OF refl] r by (auto simp: account_def)
  then show ?case using a(1,2) b(2) by simp
next
  case (refused l t0 t g b now d b')
  then have b: "bucket_ok b t" "limit b = l" "account l t0 g b" using valid_time_mono by blast+
  note a = acquire_at_cases[OF b(1) refused.hyps(2) refused.prems(2) refused.hyps(3)]
  note r = account_refill[OF b(1) refused.hyps(2) refused.prems(2) b(2,3)]
  show ?case using a(1,2) a(4)[OF refl] b(2) r by simp
qed

text \<open>An empty bucket: when the next token is due.\<close>

lemma less_div_ceil: "0 < r \<Longrightarrow> e < div_ceil n r \<longleftrightarrow> e * r < n"
proof -
  assume r: "0 < r"
  have "e < (n + r - 1) div r \<longleftrightarrow> Suc e \<le> (n + r - 1) div r" by auto
  also have "\<dots> \<longleftrightarrow> Suc e * r \<le> n + r - 1" using r by (rule less_eq_div_iff_mult_less_eq)
  also have "\<dots> \<longleftrightarrow> e * r < n" using r by auto
  finally show ?thesis by (simp add: div_ceil_def)
qed

lemma refused_due:
  assumes "bucket_ok b t" "t \<le> now" "valid_time now" "acquire_at b now = (Some d, b')"
  shows "(now - last_refill_ns b') * rps (limit b') < NANOS_PER_SECOND"
    "now - last_refill_ns b' + d = div_ceil NANOS_PER_SECOND (rps (limit b'))"
proof -
  let ?r = "rps (limit b)"
  have pos: "0 < ?r" "0 < burst (limit b)" using assms(1) by (simp_all add: bucket_ok_def valid_limit_def)
  obtain k where k: "k = (now - last_refill_ns b) * ?r div NANOS_PER_SECOND"
      "refill b now = b\<lparr>tokens := min (tokens b + k) (burst (limit b)),
         last_refill_ns := last_refill_ns b + k * NANOS_PER_SECOND div ?r\<rparr>"
    using refill_spec[OF assms(1-3)] by metis
  have a: "tokens (refill b now) = 0" "b' = refill b now" "d = wait_duration b' now"
    using acquire_at_cases(4)[OF assms refl] by simp_all
  have "k = 0" using a(1) k(2) pos(2) by (simp add: min_def split: if_splits)
  moreover have "k = 0 \<longleftrightarrow> (now - last_refill_ns b) * ?r < NANOS_PER_SECOND"
    unfolding k(1) by (simp add: div_eq_0_iff NANOS_PER_SECOND_def)
  ultimately show lt: "(now - last_refill_ns b') * rps (limit b') < NANOS_PER_SECOND" using a(2) k(2) by simp
  then have e: "now - last_refill_ns b' < div_ceil NANOS_PER_SECOND (rps (limit b'))"
    using pos(1) a(2) k(2) by (simp add: less_div_ceil)
  have "\<not> u64_max < div_ceil NANOS_PER_SECOND (rps (limit b'))"
    using pos(1) a(2) k(2) by (simp add: less_div_ceil u64_max_def NANOS_PER_SECOND_def)
  then show "now - last_refill_ns b' + d = div_ceil NANOS_PER_SECOND (rps (limit b'))"
    using e unfolding a(3) wait_duration_def Let_def by linarith
qed

text \<open>A refused caller: a later call at \<open>now + e\<close> is admitted exactly when \<open>e\<close> is at least the wait.\<close>

lemma admitted_iff_waited:
  assumes "bucket_ok b t" "t \<le> now" "acquire_at b now = (Some d, b')" "valid_time (now + e)"
  shows "fst (acquire_at b' (now + e)) = None \<longleftrightarrow> d \<le> e"
proof -
  have v: "valid_time now" by (rule valid_time_mono[OF assms(4)]) simp
  note a = acquire_at_cases[OF assms(1,2) v assms(3)]
  note due = refused_due[OF assms(1,2) v assms(3)]
  have ok: "bucket_ok b' now" by (rule a(1))
  have l: "last_refill_ns b' \<le> now" "0 < rps (limit b')" "0 < burst (limit b')"
    using ok by (simp_all add: bucket_ok_def valid_limit_def)
  obtain k where k: "k = (now + e - last_refill_ns b') * rps (limit b') div NANOS_PER_SECOND"
      "refill b' (now + e) = b'\<lparr>tokens := min (tokens b' + k) (burst (limit b')),
         last_refill_ns := last_refill_ns b' + k * NANOS_PER_SECOND div rps (limit b')\<rparr>"
    using refill_spec[OF ok _ assms(4)] by (metis le_add1)
  have "tokens b' = 0" using a(4)[OF refl] by simp
  then have "fst (acquire_at b' (now + e)) = None \<longleftrightarrow> 0 < k"
    using l(3) by (simp add: acquire_at_def Let_def k(2))
  also have "\<dots> \<longleftrightarrow> \<not> (now + e - last_refill_ns b') * rps (limit b') < NANOS_PER_SECOND"
    unfolding k(1) by (simp add: div_eq_0_iff NANOS_PER_SECOND_def flip: neq0_conv)
  also have "\<dots> \<longleftrightarrow> div_ceil NANOS_PER_SECOND (rps (limit b')) \<le> now + e - last_refill_ns b'"
    using l(2) by (simp add: less_div_ceil[symmetric] not_less)
  also have "\<dots> \<longleftrightarrow> d \<le> e" using due(2) l(1) by linarith
  finally show ?thesis .
qed

section \<open>Properties\<close>

text \<open>
  In every interleaving of calls on a limiter, however many tasks share it, the bucket
  never holds more than the burst, keeps its limit, and its refill time stays between the
  creation of the limiter and the latest call.
\<close>

theorem bucket_invariant:
  assumes "bucket_run l t0 t g b" "valid_limit l" "valid_time t"
  shows "tokens b \<le> burst l \<and> limit b = l \<and> t0 \<le> last_refill_ns b \<and> last_refill_ns b \<le> t"
  using bucket_run_inv[OF assms] by (auto simp: bucket_ok_def account_def)

theorem bucket_invariant_witness:
  "tokens (snd (acquire_at (bucket_new \<lparr>rps = 5, burst = 1\<rparr> 0) 7)) \<le> 1"
proof -
  have a: "acquire_at (bucket_new \<lparr>rps = 5, burst = 1\<rparr> 0) 7 = (None, \<lparr>limit = \<lparr>rps = 5, burst = 1\<rparr>, tokens = 0, last_refill_ns = 0\<rparr>)"
    by (simp add: acquire_at_def refill_def bucket_new_def saturating_mul_u128_def NANOS_PER_SECOND_def u128_max_def)
  have "bucket_run \<lparr>rps = 5, burst = 1\<rparr> 0 7 (0 + 1) (snd (acquire_at (bucket_new \<lparr>rps = 5, burst = 1\<rparr> 0) 7))"
    by (rule bucket_run.admitted[OF bucket_run.fresh]) (simp, simp only: a snd_conv)
  from bucket_invariant[OF this] show ?thesis
    by (simp add: valid_limit_def valid_time_def NANOS_PER_SECOND_def u32_max_def)
qed



text \<open>
  The wait a refused caller is given is exact: at any later time, with no call in between,
  it is admitted if and only if it has waited at least that long.
\<close>

theorem wait_is_exact:
  assumes "bucket_run l t0 t g b" "valid_limit l" "t \<le> now" "acquire_at b now = (Some d, b')" "valid_time (now + e)"
  shows "fst (acquire_at b' (now + e)) = None \<longleftrightarrow> d \<le> e"
proof -
  have "valid_time t" by (rule valid_time_mono[OF assms(5)]) (use assms(3) in simp)
  then have "bucket_ok b t" using bucket_run_inv[OF assms(1,2)] by simp
  then show ?thesis by (rule admitted_iff_waited) (use assms in simp_all)
qed

theorem wait_is_exact_witness:
  "fst (acquire_at \<lparr>limit = \<lparr>rps = 5, burst = 1\<rparr>, tokens = 0, last_refill_ns = 0\<rparr> (199000000 + 1000000)) = None"
proof -
  let ?l = "\<lparr>rps = 5, burst = 1\<rparr>" and ?b = "\<lparr>limit = \<lparr>rps = 5, burst = 1\<rparr>, tokens = 0, last_refill_ns = 0\<rparr>"
  note defs = acquire_at_def refill_def bucket_new_def saturating_mul_u128_def saturating_add_u32_def
    NANOS_PER_SECOND_def u128_max_def u32_max_def u64_max_def wait_duration_def div_ceil_def
  have "bucket_run ?l 0 0 (0 + 1) ?b"
    by (rule bucket_run.admitted[OF bucket_run.fresh]) (simp_all add: defs)
  moreover have "acquire_at ?b 199000000 = (Some 1000000, ?b)" by (simp add: defs)
  ultimately show ?thesis using wait_is_exact[of ?l 0 0 "0 + 1" ?b 199000000 1000000 ?b 1000000]
    by (simp add: valid_limit_def valid_time_def NANOS_PER_SECOND_def u32_max_def)
qed

text \<open>
  \<open>acquire\<close> returns: a caller alone on the limiter whose clock moves at least by the
  requested sleep passes the loop at its second iteration at the latest.
\<close>

theorem acquire_returns:
  assumes "bucket_run l t0 t g b" "valid_limit l" "t \<le> clock 0" "valid_time (clock 1)"
    and "clock 0 \<le> clock 1" "\<And>d b'. acquire_at b (clock 0) = (Some d, b') \<Longrightarrow> clock 0 + d \<le> clock 1"
  shows "\<exists>i b'. i \<le> 1 \<and> acquire_loop 2 clock 0 b = Some (i, b')"
proof -
  obtain r b' where r: "acquire_at b (clock 0) = (r, b')" by fastforce
  show ?thesis
  proof (cases r)
    case None
    then show ?thesis using r by (simp add: numeral_2_eq_2)
  next
    case (Some d)
    have "valid_time t" by (rule valid_time_mono[OF assms(4)]) (use assms(3,5) in linarith)
    then have "bucket_ok b t" using bucket_run_inv[OF assms(1,2)] by simp
    from admitted_iff_waited[OF this assms(3) r[unfolded Some], of "clock 1 - clock 0"]
    have "fst (acquire_at b' (clock 1)) = None" using assms(4,5,6) r Some by fastforce
    then obtain b'' where "acquire_at b' (clock 1) = (None, b'')" by (metis prod.collapse)
    then show ?thesis using r Some by (simp add: numeral_2_eq_2)
  qed
qed

theorem acquire_returns_witness:
  "\<exists>i b'. i \<le> 1 \<and> acquire_loop 2 (\<lambda>i. i * 200000000) 0 \<lparr>limit = \<lparr>rps = 5, burst = 1\<rparr>, tokens = 0, last_refill_ns = 0\<rparr> = Some (i, b')"
proof -
  let ?l = "\<lparr>rps = 5, burst = 1\<rparr>" and ?b = "\<lparr>limit = \<lparr>rps = 5, burst = 1\<rparr>, tokens = 0, last_refill_ns = 0\<rparr>"
  note defs = acquire_at_def refill_def bucket_new_def saturating_mul_u128_def saturating_add_u32_def
    NANOS_PER_SECOND_def u128_max_def u32_max_def u64_max_def wait_duration_def div_ceil_def
  have run: "bucket_run ?l 0 0 (0 + 1) ?b"
    by (rule bucket_run.admitted[OF bucket_run.fresh]) (simp_all add: defs)
  show ?thesis
    by (rule acquire_returns[OF run]) (simp_all add: valid_limit_def valid_time_def defs)
qed

end
