(* ===== verification/Balancer.thy ===== *)
theory Balancer
  imports RateLimit "HOL-Library.AList" "HOL-Library.Word"
begin

text \<open>
  The balancer of \<open>src/liteclient/balancer/\<close>: a set of liteservers, statistics of each, the choice of a
  peer for a request, failover and the marking of dead peers.

  \<open>HashMap\<close>s are association lists or maps, \<open>HashSet\<close>s are sets whose iteration order is a parameter under the contract
  \<open>hash_order\<close>; the \<open>u64\<close> and \<open>u32\<close> counters are words and wrap as in release builds.  What the network
  does in one attempt (the answer of each peer, the time it takes, the clock readings at the global
  rate limiter, the iteration order) is a record \<open>attempt\<close>; an operation takes one attempt per iteration
  of its loop.  Every method borrows the balancer mutably, so operations do not
  interleave, but a caller may drop a call that waits for its peer: the step \<open>dropped\<close> of
  \<open>session\<close>.
\<close>

type_synonym u32 = "32 word"
type_synonym u64 = "64 word"

section \<open>Types (\<open>types.rs\<close>)\<close>

datatype peer_state = Healthy | Suspect | Dead | Recovering

datatype peer_failure_kind = TimeoutFailure | ConnectionFailure

text \<open>\<open>AdnlError\<close> is split by what \<open>retryable_failure\<close> looks at.\<close>

datatype lite_error = ServerError | LiteTimeout | LiteTlError | UnexpectedMessage | AdnlTimeout | AdnlOther | UnknownError

text \<open>\<open>BalancerPanic\<close> is the out-of-range index of \<open>self.peers[peer_idx]\<close>.\<close>

datatype balancer_error = NoAlivePeers | NoArchivePeers | UseStartUp | UseCloseAll
  | BalancerLiteError lite_error | BalancerTimeout | BalancerPanic

record peer_statistics =
  mc_block_seqno :: u32
  avg_response_time_ms :: u64
  total_requests :: u64
  current_requests :: u64
  failure_count :: u32
  last_failure_kind :: "peer_failure_kind option"
  ewma_latency_ms :: "u64 option"
  last_observed_seqno :: u32

definition stats_default :: peer_statistics where
  "stats_default = \<lparr>mc_block_seqno = 0, avg_response_time_ms = 0, total_requests = 0, current_requests = 0,
     failure_count = 0, last_failure_kind = None, ewma_latency_ms = None, last_observed_seqno = 0\<rparr>"

text \<open>The fields of a client that the balancer sets.\<close>

record lite_client =
  client_rate_limiter :: "token_bucket option"
  request_timeout :: "u64 option"

record lite_balancer =
  peers :: "lite_client list"
  alive_peers :: "nat set"
  archival_peers :: "nat set"
  peer_stats :: "(nat \<times> peer_statistics) list"
  peer_states :: "nat \<rightharpoonup> peer_state"
  checker_running :: bool
  global_rate_limiter :: "token_bucket option"
  max_req_per_peer :: u64
  max_retries :: nat
  timeout_ms :: u64
  inited :: bool

record 'r attempt =
  iteration :: "nat set \<Rightarrow> nat list"
  readings :: "nat list"
  elapsed_ms :: u64
  answer :: "nat \<Rightarrow> lite_error + 'r"

section \<open>Creation\<close>

definition set_request_timeout :: "u64 \<Rightarrow> lite_client \<Rightarrow> lite_client" where
  "set_request_timeout t c = c\<lparr>request_timeout := Some t\<rparr>"

definition set_rate_limit :: "request_rate_limit \<Rightarrow> lite_client \<Rightarrow> lite_client" where
  "set_rate_limit l c = c\<lparr>client_rate_limiter := Some (bucket_new l 0)\<rparr>"

definition balancer_new :: "lite_client list \<Rightarrow> u64 \<Rightarrow> lite_balancer" where
  "balancer_new cs t = \<lparr>peers = map (set_request_timeout t) cs, alive_peers = {}, archival_peers = {},
     peer_stats = [], peer_states = Map.empty, checker_running = False, global_rate_limiter = None,
     max_req_per_peer = 100, max_retries = 1, timeout_ms = t, inited = False\<rparr>"

definition with_rate_limit_per_peer :: "request_rate_limit \<Rightarrow> lite_balancer \<Rightarrow> lite_balancer" where
  "with_rate_limit_per_peer l b = b\<lparr>peers := map (set_rate_limit l) (peers b)\<rparr>"

definition with_global_rate_limit :: "request_rate_limit \<Rightarrow> lite_balancer \<Rightarrow> lite_balancer" where
  "with_global_rate_limit l b = b\<lparr>global_rate_limiter := Some (bucket_new l 0)\<rparr>"

definition connect_to_peer :: "lite_client \<Rightarrow> bool" where
  "connect_to_peer c = True"

fun connect_loop :: "nat \<Rightarrow> lite_client list \<Rightarrow> lite_balancer \<Rightarrow> lite_balancer" where
  "connect_loop i [] b = b"
| "connect_loop i (c # cs) b =
     connect_loop (Suc i) cs
       (if connect_to_peer c
        then b\<lparr>alive_peers := insert i (alive_peers b), peer_states := (peer_states b)(i \<mapsto> Healthy)\<rparr>
        else b)"

text \<open>\<open>probe i\<close> is the outcome of \<open>check_archive\<close> on peer \<open>i\<close>.\<close>

definition find_archives :: "(nat set \<Rightarrow> nat list) \<Rightarrow> (nat \<Rightarrow> bool) \<Rightarrow> lite_balancer \<Rightarrow> lite_balancer" where
  "find_archives iter probe b = b\<lparr>archival_peers :=
     fold (\<lambda>i archival. if i < length (peers b) \<and> probe i then insert i archival else archival) (iter (alive_peers b)) {}\<rparr>"

definition start_up :: "(nat set \<Rightarrow> nat list) \<Rightarrow> (nat \<Rightarrow> bool) \<Rightarrow> lite_balancer \<Rightarrow> lite_balancer" where
  "start_up iter probe b =
     (find_archives iter probe (connect_loop 0 (peers b) b))\<lparr>checker_running := True, inited := True\<rparr>"

definition close_all :: "lite_balancer \<Rightarrow> lite_balancer" where
  "close_all b = b\<lparr>checker_running := False, inited := False\<rparr>"

definition peers_num :: "lite_balancer \<Rightarrow> nat" where
  "peers_num b = length (peers b)"

definition alive_peers_num :: "lite_balancer \<Rightarrow> nat" where
  "alive_peers_num b = card (alive_peers b)"

definition archival_peers_num :: "lite_balancer \<Rightarrow> nat" where
  "archival_peers_num b = card (archival_peers b)"

section \<open>Choice of a peer\<close>

definition saturating_mul_u64 :: "u64 \<Rightarrow> u64 \<Rightarrow> u64" where
  "saturating_mul_u64 a b = (if unat a * unat b < 2 ^ 64 then a * b else - 1)"

definition peer_score :: "peer_statistics option \<Rightarrow> u32 \<Rightarrow> u64 \<Rightarrow> u64" where
  "peer_score stats best_seqno timeout =
     (case stats of
        None \<Rightarrow> timeout
      | Some s \<Rightarrow>
          let latency = (case ewma_latency_ms s of
                Some l \<Rightarrow> l
              | None \<Rightarrow> if avg_response_time_ms s = 0 then timeout else avg_response_time_ms s);
              seen = max (last_observed_seqno s) (mc_block_seqno s);
              stale_penalty = ucast (if seen \<le> best_seqno then best_seqno - seen else 0) * max timeout 1 * 2;
              in_flight_penalty = saturating_mul_u64 (current_requests s) (max timeout 1 div 4 + 1)
          in latency + stale_penalty + in_flight_penalty)"

definition best_seqno :: "lite_balancer \<Rightarrow> u32" where
  "best_seqno b = fold max (map (\<lambda>(p, s). max (last_observed_seqno s) (mc_block_seqno s)) (peer_stats b)) 0"

definition build_priority_list :: "(nat set \<Rightarrow> nat list) \<Rightarrow> bool \<Rightarrow> lite_balancer \<Rightarrow> nat list" where
  "build_priority_list iter only_archive b =
     (let ps = iter (if only_archive then archival_peers b else alive_peers b) in
      sort_key (\<lambda>p. peer_score (map_of (peer_stats b) p) (best_seqno b) (timeout_ms b)) ps)"

definition load_of :: "lite_balancer \<Rightarrow> nat \<Rightarrow> u64" where
  "load_of b p = (case map_of (peer_stats b) p of Some s \<Rightarrow> current_requests s | None \<Rightarrow> 0)"

definition skipped :: "lite_balancer \<Rightarrow> nat set \<Rightarrow> nat \<Rightarrow> bool" where
  "skipped b excluded p \<longleftrightarrow> p \<in> excluded \<or> peer_states b p = Some Dead"

fun first_pass :: "lite_balancer \<Rightarrow> nat set \<Rightarrow> u64 \<Rightarrow> nat list \<Rightarrow> nat option \<times> u64" where
  "first_pass b excluded min_req [] = (None, min_req)"
| "first_pass b excluded min_req (p # ps) =
     (if skipped b excluded p then first_pass b excluded min_req ps
      else if load_of b p < max_req_per_peer b then (Some p, min_req)
      else first_pass b excluded (min min_req (load_of b p)) ps)"

fun second_pass :: "lite_balancer \<Rightarrow> nat set \<Rightarrow> u64 \<Rightarrow> nat list \<Rightarrow> nat option" where
  "second_pass b excluded min_req [] = None"
| "second_pass b excluded min_req (p # ps) =
     (if skipped b excluded p then second_pass b excluded min_req ps
      else if load_of b p \<le> min_req then Some p
      else second_pass b excluded min_req ps)"

definition no_peers :: "bool \<Rightarrow> balancer_error" where
  "no_peers only_archive = (if only_archive then NoArchivePeers else NoAlivePeers)"

definition choose_peer_excluding ::
  "(nat set \<Rightarrow> nat list) \<Rightarrow> bool \<Rightarrow> nat set \<Rightarrow> lite_balancer \<Rightarrow> balancer_error + nat" where
  "choose_peer_excluding iter only_archive excluded b =
     (let ps = build_priority_list iter only_archive b in
      if ps = [] then Inl (no_peers only_archive)
      else case first_pass b excluded (- 1) ps of
        (Some p, _) \<Rightarrow> Inr p
      | (None, min_req) \<Rightarrow>
          (case second_pass b excluded min_req ps of
             Some p \<Rightarrow> Inr p
           | None \<Rightarrow> Inl (no_peers only_archive)))"

definition choose_peer :: "(nat set \<Rightarrow> nat list) \<Rightarrow> bool \<Rightarrow> lite_balancer \<Rightarrow> balancer_error + nat" where
  "choose_peer iter only_archive b = choose_peer_excluding iter only_archive {} b"

section \<open>Statistics\<close>

definition calc_new_average :: "u64 \<Rightarrow> u64 \<Rightarrow> u64 \<Rightarrow> u64" where
  "calc_new_average old_avg n new_value =
     (if n = 0 then new_value else (old_avg * n + new_value) div (n + 1))"

definition stats_entry :: "lite_balancer \<Rightarrow> nat \<Rightarrow> peer_statistics" where
  "stats_entry b p = (case map_of (peer_stats b) p of Some s \<Rightarrow> s | None \<Rightarrow> stats_default)"

text \<open>\<open>stats.entry(p).or_insert_with(PeerStats::default)\<close>, changed by \<open>f\<close>.\<close>

definition modify_stats :: "nat \<Rightarrow> (peer_statistics \<Rightarrow> peer_statistics) \<Rightarrow> lite_balancer \<Rightarrow> lite_balancer" where
  "modify_stats p f b = b\<lparr>peer_stats := AList.update p (f (stats_entry b p)) (peer_stats b)\<rparr>"

definition observe_time :: "u64 \<Rightarrow> peer_statistics \<Rightarrow> peer_statistics" where
  "observe_time t s = s\<lparr>
     avg_response_time_ms := calc_new_average (avg_response_time_ms s) (total_requests s) t,
     ewma_latency_ms := Some (case ewma_latency_ms s of Some old \<Rightarrow> (old * 7 + t * 3) div 10 | None \<Rightarrow> t),
     total_requests := total_requests s + 1\<rparr>"

definition update_average_request_time :: "nat \<Rightarrow> u64 \<Rightarrow> lite_balancer \<Rightarrow> lite_balancer" where
  "update_average_request_time p t b = modify_stats p (observe_time t) b"

definition retryable_failure :: "lite_error \<Rightarrow> peer_failure_kind option" where
  "retryable_failure e = (case e of
     LiteTimeout \<Rightarrow> Some TimeoutFailure
   | AdnlTimeout \<Rightarrow> Some TimeoutFailure
   | AdnlOther \<Rightarrow> Some ConnectionFailure
   | _ \<Rightarrow> None)"

definition decrement_current_requests :: "nat \<Rightarrow> lite_balancer \<Rightarrow> lite_balancer" where
  "decrement_current_requests p b =
     (case map_of (peer_stats b) p of
        None \<Rightarrow> b
      | Some s \<Rightarrow> b\<lparr>peer_stats := AList.update p
          (s\<lparr>current_requests := (if current_requests s = 0 then 0 else current_requests s - 1)\<rparr>) (peer_stats b)\<rparr>)"

definition record_success :: "nat \<Rightarrow> u64 \<Rightarrow> lite_balancer \<Rightarrow> lite_balancer" where
  "record_success p elapsed b =
     (let b = update_average_request_time p elapsed b;
          b = modify_stats p (\<lambda>s. s\<lparr>failure_count := 0, last_failure_kind := None\<rparr>) b
      in b\<lparr>alive_peers := insert p (alive_peers b), peer_states := (peer_states b)(p \<mapsto> Healthy)\<rparr>)"

definition record_retryable_failure :: "nat \<Rightarrow> peer_failure_kind \<Rightarrow> u64 \<Rightarrow> lite_balancer \<Rightarrow> lite_balancer" where
  "record_retryable_failure p kind t b =
     (let b = modify_stats p (\<lambda>s. (observe_time t s)\<lparr>failure_count := failure_count s + 1, last_failure_kind := Some kind\<rparr>) b
      in if 2 \<le> failure_count (stats_entry b p)
         then b\<lparr>alive_peers := alive_peers b - {p}, peer_states := (peer_states b)(p \<mapsto> Dead)\<rparr>
         else b\<lparr>alive_peers := insert p (alive_peers b), peer_states := (peer_states b)(p \<mapsto> Suspect)\<rparr>)"

definition record_non_retryable_error :: "nat \<Rightarrow> u64 \<Rightarrow> lite_balancer \<Rightarrow> lite_balancer" where
  "record_non_retryable_error p elapsed b = modify_stats p (observe_time elapsed) b"

definition update_peer_seqno :: "nat \<Rightarrow> u32 \<Rightarrow> lite_balancer \<Rightarrow> lite_balancer" where
  "update_peer_seqno p seqno b = modify_stats p (\<lambda>s. s\<lparr>mc_block_seqno := seqno, last_observed_seqno := seqno\<rparr>) b"

definition find_consensus_block :: "lite_balancer \<Rightarrow> u32" where
  "find_consensus_block b =
     (let seqnos = map (\<lambda>(p, s). mc_block_seqno s) (peer_stats b) in
      if seqnos = [] then 0
      else let seqnos = rev (sort seqnos); consensus_idx = length seqnos * 2 div 3
           in if consensus_idx < length seqnos then seqnos ! consensus_idx else 0)"

definition delete_unsync_peers :: "lite_balancer \<Rightarrow> lite_balancer" where
  "delete_unsync_peers b =
     (let consensus_block = find_consensus_block b in
      b\<lparr>alive_peers := {p \<in> alive_peers b.
          case map_of (peer_stats b) p of Some s \<Rightarrow> consensus_block \<le> mc_block_seqno s | None \<Rightarrow> False}\<rparr>)"

section \<open>Requests\<close>

text \<open>The wait at the global limiter; \<open>None\<close> when the readings end before the caller is admitted.\<close>

definition acquire_global :: "nat list \<Rightarrow> lite_balancer \<Rightarrow> lite_balancer option" where
  "acquire_global rs b =
     (case global_rate_limiter b of
        None \<Rightarrow> Some b
      | Some k \<Rightarrow> (case acquire_loop (length rs) (\<lambda>i. rs ! i) 0 k of
          None \<Rightarrow> None
        | Some (_, k) \<Rightarrow> Some (b\<lparr>global_rate_limiter := Some k\<rparr>)))"

definition execute_request_excluding ::
  "bool \<Rightarrow> nat set \<Rightarrow> 'r attempt \<Rightarrow> lite_balancer \<Rightarrow> ((balancer_error + nat) \<times> lite_balancer) option" where
  "execute_request_excluding only_archive excluded a b =
     (case choose_peer_excluding (iteration a) only_archive excluded b of
        Inl e \<Rightarrow> Some (Inl e, b)
      | Inr p \<Rightarrow>
          let b = (if p < length (peers b)
                   then b\<lparr>peers := (peers b)[p := set_request_timeout (timeout_ms b) (peers b ! p)]\<rparr> else b)
          in case acquire_global (readings a) b of
               None \<Rightarrow> None
             | Some b \<Rightarrow> Some (Inr p, modify_stats p (\<lambda>s. s\<lparr>current_requests := current_requests s + 1\<rparr>) b))"

definition execute_request :: "bool \<Rightarrow> 'r attempt \<Rightarrow> lite_balancer \<Rightarrow> ((balancer_error + nat) \<times> lite_balancer) option" where
  "execute_request only_archive a b =
     (case choose_peer (iteration a) only_archive b of
        Inl e \<Rightarrow> Some (Inl e, b)
      | Inr p \<Rightarrow>
          let b = (if p < length (peers b)
                   then b\<lparr>peers := (peers b)[p := set_request_timeout (timeout_ms b) (peers b ! p)]\<rparr> else b)
          in case acquire_global (readings a) b of
               None \<Rightarrow> None
             | Some b \<Rightarrow> Some (Inr p, modify_stats p (\<lambda>s. s\<lparr>current_requests := current_requests s + 1\<rparr>) b))"

definition complete_request :: "nat \<Rightarrow> u64 \<Rightarrow> bool \<Rightarrow> lite_balancer \<Rightarrow> lite_balancer" where
  "complete_request p elapsed success b =
     (let b = decrement_current_requests p b in
      if success then record_success p elapsed b
      else record_retryable_failure p ConnectionFailure (timeout_ms b) b)"

definition complete_request_error :: "nat \<Rightarrow> u64 \<Rightarrow> lite_error \<Rightarrow> lite_balancer \<Rightarrow> lite_balancer" where
  "complete_request_error p elapsed e b =
     (let b = decrement_current_requests p b in
      case retryable_failure e of
        Some kind \<Rightarrow> record_retryable_failure p kind (timeout_ms b) b
      | None \<Rightarrow> record_non_retryable_error p elapsed b)"

text \<open>
  The loop of \<open>balanced_call!\<close> and of the methods that write it out: \<open>n\<close> attempts are left, \<open>i\<close> are done;
  \<open>on_ok\<close> is what the method does with an answer.  The result is \<open>None\<close> while the call waits at the limiter.
\<close>

fun retry_loop ::
  "(nat \<Rightarrow> u64 \<Rightarrow> 'r \<Rightarrow> lite_balancer \<Rightarrow> lite_balancer) \<Rightarrow> bool \<Rightarrow> (nat \<Rightarrow> 'r attempt) \<Rightarrow> nat \<Rightarrow> nat \<Rightarrow> lite_balancer
   \<Rightarrow> ((balancer_error + 'r) \<times> lite_balancer) option" where
  "retry_loop on_ok only_archive net 0 i b = Some (Inl BalancerTimeout, b)"
| "retry_loop on_ok only_archive net (Suc n) i b =
     (case execute_request only_archive (net i) b of
        None \<Rightarrow> None
      | Some (Inl e, b) \<Rightarrow> Some (Inl e, b)
      | Some (Inr p, b) \<Rightarrow>
          if length (peers b) \<le> p then Some (Inl BalancerPanic, b)
          else case answer (net i) p of
            Inr r \<Rightarrow> Some (Inr r, on_ok p (elapsed_ms (net i)) r b)
          | Inl e \<Rightarrow>
              let b = complete_request_error p (elapsed_ms (net i)) e b in
              if retryable_failure e = None then Some (Inl (BalancerLiteError e), b)
              else retry_loop on_ok only_archive net n (Suc i) b)"

definition balanced_call :: "bool \<Rightarrow> (nat \<Rightarrow> 'r attempt) \<Rightarrow> lite_balancer \<Rightarrow> ((balancer_error + 'r) \<times> lite_balancer) option" where
  "balanced_call only_archive net b =
     retry_loop (\<lambda>p t r b. complete_request p t True b) only_archive net (max_retries b) 0 b"

text \<open>
  The methods that write the loop out, with their request inside \<open>answer\<close>; the remaining typed methods are the
  macro, \<open>balanced_call False\<close>.
\<close>

definition get_masterchain_info_ext :: "(nat \<Rightarrow> 'r attempt) \<Rightarrow> lite_balancer \<Rightarrow> ((balancer_error + 'r) \<times> lite_balancer) option" where
  "get_masterchain_info_ext net b = retry_loop (\<lambda>p t r b. complete_request p t True b) False net (max_retries b) 0 b"

definition get_time :: "(nat \<Rightarrow> u32 attempt) \<Rightarrow> lite_balancer \<Rightarrow> ((balancer_error + u32) \<times> lite_balancer) option" where
  "get_time net b = retry_loop (\<lambda>p t r b. complete_request p t True b) False net (max_retries b) 0 b"

definition get_version :: "(nat \<Rightarrow> 'r attempt) \<Rightarrow> lite_balancer \<Rightarrow> ((balancer_error + 'r) \<times> lite_balancer) option" where
  "get_version net b = retry_loop (\<lambda>p t r b. complete_request p t True b) False net (max_retries b) 0 b"

definition get_block :: "(nat \<Rightarrow> 'r attempt) \<Rightarrow> lite_balancer \<Rightarrow> ((balancer_error + 'r) \<times> lite_balancer) option" where
  "get_block net b = retry_loop (\<lambda>p t r b. complete_request p t True b) False net (max_retries b) 0 b"

definition get_state :: "(nat \<Rightarrow> 'r attempt) \<Rightarrow> lite_balancer \<Rightarrow> ((balancer_error + 'r) \<times> lite_balancer) option" where
  "get_state net b = retry_loop (\<lambda>p t r b. complete_request p t True b) False net (max_retries b) 0 b"

definition get_block_header :: "(nat \<Rightarrow> 'r attempt) \<Rightarrow> lite_balancer \<Rightarrow> ((balancer_error + 'r) \<times> lite_balancer) option" where
  "get_block_header net b = retry_loop (\<lambda>p t r b. complete_request p t True b) False net (max_retries b) 0 b"

definition get_account_state :: "(nat \<Rightarrow> 'r attempt) \<Rightarrow> lite_balancer \<Rightarrow> ((balancer_error + 'r) \<times> lite_balancer) option" where
  "get_account_state net b = retry_loop (\<lambda>p t r b. complete_request p t True b) False net (max_retries b) 0 b"

definition run_smc_method :: "(nat \<Rightarrow> 'r attempt) \<Rightarrow> lite_balancer \<Rightarrow> ((balancer_error + 'r) \<times> lite_balancer) option" where
  "run_smc_method net b = retry_loop (\<lambda>p t r b. complete_request p t True b) False net (max_retries b) 0 b"

definition get_transactions :: "(nat \<Rightarrow> 'r attempt) \<Rightarrow> lite_balancer \<Rightarrow> ((balancer_error + 'r) \<times> lite_balancer) option" where
  "get_transactions net b = retry_loop (\<lambda>p t r b. complete_request p t True b) False net (max_retries b) 0 b"

text \<open>\<open>last_seqno\<close> reads \<open>response.last.seqno as u32\<close>.\<close>

definition get_masterchain_info ::
  "('r \<Rightarrow> u32) \<Rightarrow> (nat \<Rightarrow> 'r attempt) \<Rightarrow> lite_balancer \<Rightarrow> ((balancer_error + 'r) \<times> lite_balancer) option" where
  "get_masterchain_info last_seqno net b =
     retry_loop (\<lambda>p t r b. delete_unsync_peers (complete_request p t True (update_peer_seqno p (last_seqno r) b)))
       False net (max_retries b) 0 b"

fun send_loop ::
  "(nat \<Rightarrow> 'r attempt) \<Rightarrow> nat \<Rightarrow> nat \<Rightarrow> nat set \<Rightarrow> (lite_error + 'r) list \<Rightarrow> lite_balancer
   \<Rightarrow> ((balancer_error + (lite_error + 'r) list) \<times> nat set \<times> lite_balancer) option" where
  "send_loop net 0 i attempted results b = Some (Inr results, attempted, b)"
| "send_loop net (Suc n) i attempted results b =
     (case execute_request_excluding False attempted (net i) b of
        None \<Rightarrow> None
      | Some (Inl e, b) \<Rightarrow> if e = NoAlivePeers then Some (Inr results, attempted, b) else Some (Inl e, attempted, b)
      | Some (Inr p, b) \<Rightarrow>
          if length (peers b) \<le> p then Some (Inl BalancerPanic, attempted, b)
          else let b = (case answer (net i) p of
                 Inr status \<Rightarrow> complete_request p (elapsed_ms (net i)) True b
               | Inl e \<Rightarrow> complete_request_error p (elapsed_ms (net i)) e b)
               in send_loop net n (Suc i) (insert p attempted) (results @ [answer (net i) p]) b)"

fun first_ok :: "(lite_error + 'r) list \<Rightarrow> 'r option" where
  "first_ok [] = None"
| "first_ok (Inr r # xs) = Some r"
| "first_ok (Inl e # xs) = first_ok xs"

definition send_fanout :: "lite_balancer \<Rightarrow> nat" where
  "send_fanout b = (let alive_count = card (alive_peers b) in
     min (if alive_count < 12 then 4 else alive_count div 3) (length (peers b)))"

definition send_message :: "(nat \<Rightarrow> 'r attempt) \<Rightarrow> lite_balancer \<Rightarrow> ((balancer_error + 'r) \<times> lite_balancer) option" where
  "send_message net b =
     (case send_loop net (send_fanout b) 0 {} [] b of
        None \<Rightarrow> None
      | Some (Inl e, _, b) \<Rightarrow> Some (Inl e, b)
      | Some (Inr results, _, b) \<Rightarrow>
          (case first_ok results of
             Some status \<Rightarrow> Some (Inr status, b)
           | None \<Rightarrow> Some (Inl BalancerTimeout, b)))"

section \<open>The choice\<close>

text \<open>What iterating a \<open>HashSet\<close> promises: each element once, in some order.\<close>

locale hash_order =
  fixes iter :: "nat set \<Rightarrow> nat list"
  assumes iter_set: "finite S \<Longrightarrow> set (iter S) = S"
    and iter_distinct: "finite S \<Longrightarrow> distinct (iter S)"

interpretation sorted_order: hash_order sorted_list_of_set
  by unfold_locales simp_all

definition pool :: "lite_balancer \<Rightarrow> bool \<Rightarrow> nat set" where
  "pool b only_archive = (if only_archive then archival_peers b else alive_peers b)"

definition score_of :: "lite_balancer \<Rightarrow> nat \<Rightarrow> u64" where
  "score_of b p = peer_score (map_of (peer_stats b) p) (best_seqno b) (timeout_ms b)"

lemma first_pass_some:
  "first_pass b X m ps = (Some p, m') \<Longrightarrow>
   \<exists>us vs. ps = us @ p # vs \<and> \<not> skipped b X p \<and> load_of b p < max_req_per_peer b
     \<and> (\<forall>u\<in>set us. skipped b X u \<or> max_req_per_peer b \<le> load_of b u)"
proof (induction ps arbitrary: m)
  case (Cons q ps)
  show ?case
  proof (cases "\<not> skipped b X q \<and> load_of b q < max_req_per_peer b")
    case True
    then have "ps = [] @ ps" "q = p" using Cons.prems by simp_all
    then show ?thesis using True by (metis append_Nil empty_iff list.set(1))
  next
    case False
    then obtain m2 where "first_pass b X m2 ps = (Some p, m')" using Cons.prems by (auto split: if_splits)
    from Cons.IH[OF this] obtain us vs where "ps = us @ p # vs" "\<not> skipped b X p" "load_of b p < max_req_per_peer b"
      "\<forall>u\<in>set us. skipped b X u \<or> max_req_per_peer b \<le> load_of b u" by blast
    then show ?thesis using False by (intro exI[of _ "q # us"] exI[of _ vs]) auto
  qed
qed simp

lemma first_pass_none:
  "first_pass b X m ps = (None, m') \<Longrightarrow>
   (\<forall>p\<in>set ps. \<not> skipped b X p \<longrightarrow> max_req_per_peer b \<le> load_of b p \<and> m' \<le> load_of b p)
   \<and> m' \<le> m \<and> (m' = m \<or> (\<exists>p\<in>set ps. \<not> skipped b X p \<and> load_of b p = m'))"
proof (induction ps arbitrary: m)
  case (Cons q ps)
  show ?case
  proof (cases "skipped b X q")
    case True
    then show ?thesis using Cons.IH[of m] Cons.prems by auto
  next
    case False
    then have *: "first_pass b X (min m (load_of b q)) ps = (None, m')" "max_req_per_peer b \<le> load_of b q"
      using Cons.prems by (auto split: if_splits)
    from Cons.IH[OF *(1)] *(2) False show ?thesis by (auto simp: min_def split: if_splits)
  qed
qed simp

lemma second_pass_some:
  "second_pass b X m ps = Some p \<Longrightarrow> p \<in> set ps \<and> \<not> skipped b X p \<and> load_of b p \<le> m"
  by (induction ps) (auto split: if_splits)

lemma second_pass_none:
  "second_pass b X m ps = None \<Longrightarrow> p \<in> set ps \<Longrightarrow> \<not> skipped b X p \<Longrightarrow> m < load_of b p"
  by (induction ps) (auto split: if_splits)

lemma passes_find:
  assumes "first_pass b X (- 1) ps = (None, m)" "second_pass b X m ps = None"
  shows "\<forall>p\<in>set ps. skipped b X p"
proof (rule ccontr)
  assume "\<not> (\<forall>p\<in>set ps. skipped b X p)"
  then obtain p where p: "p \<in> set ps" "\<not> skipped b X p" by blast
  then have "m < load_of b p" using second_pass_none[OF assms(2)] by blast
  moreover have "m = - 1 \<or> (\<exists>q\<in>set ps. \<not> skipped b X q \<and> load_of b q = m)"
    using first_pass_none[OF assms(1)] by blast
  ultimately show False using second_pass_none[OF assms(2)] by (metis not_less_iff_gr_or_eq word_order.extremum_strict)
qed

context hash_order
begin

lemma priority_set: "finite (pool b oa) \<Longrightarrow> set (build_priority_list iter oa b) = pool b oa"
  by (simp add: build_priority_list_def pool_def iter_set Let_def)

lemma priority_sorted: "sorted (map (score_of b) (build_priority_list iter oa b))"
  by (simp add: build_priority_list_def score_of_def[abs_def] Let_def)

lemma choose_eligible:
  assumes "finite (pool b oa)" "choose_peer_excluding iter oa X b = Inr p"
  shows "p \<in> pool b oa \<and> \<not> skipped b X p"
proof -
  have "p \<in> set (build_priority_list iter oa b) \<and> \<not> skipped b X p"
    using assms(2) by (auto simp: choose_peer_excluding_def Let_def split: if_splits prod.splits option.splits
        dest!: first_pass_some second_pass_some)
  then show ?thesis using priority_set[OF assms(1)] by blast
qed

lemma choose_fails:
  assumes "finite (pool b oa)" "choose_peer_excluding iter oa X b = Inl e"
  shows "e = no_peers oa \<and> (\<forall>p\<in>pool b oa. skipped b X p)"
  using assms(2) passes_find priority_set[OF assms(1)]
  by (fastforce simp: choose_peer_excluding_def Let_def split: if_splits prod.splits option.splits)

lemma choose_total:
  assumes "finite (pool b oa)" "q \<in> pool b oa" "\<not> skipped b X q"
  obtains p where "choose_peer_excluding iter oa X b = Inr p" "p \<in> pool b oa" "\<not> skipped b X p"
  using choose_eligible[OF assms(1)] choose_fails[OF assms(1)] assms(2,3)
  by (cases "choose_peer_excluding iter oa X b") blast+

lemma choose_best:
  assumes "finite (pool b oa)" "choose_peer_excluding iter oa X b = Inr p"
    and q: "q \<in> pool b oa" "\<not> skipped b X q"
  shows "load_of b q < max_req_per_peer b \<Longrightarrow> load_of b p < max_req_per_peer b \<and> score_of b p \<le> score_of b q"
    and "max_req_per_peer b \<le> load_of b p \<Longrightarrow> load_of b p \<le> load_of b q"
proof -
  let ?ps = "build_priority_list iter oa b"
  have q': "q \<in> set ?ps" using q(1) priority_set[OF assms(1)] by simp
  consider (first) m where "first_pass b X (- 1) ?ps = (Some p, m)"
    | (second) m where "first_pass b X (- 1) ?ps = (None, m)" "second_pass b X m ?ps = Some p"
    using assms(2) by (auto simp: choose_peer_excluding_def Let_def split: if_splits prod.splits option.splits)
  then have "(load_of b q < max_req_per_peer b \<longrightarrow> load_of b p < max_req_per_peer b \<and> score_of b p \<le> score_of b q)
    \<and> (max_req_per_peer b \<le> load_of b p \<longrightarrow> load_of b p \<le> load_of b q)"
  proof cases
    case first
    then obtain us vs where ps: "?ps = us @ p # vs" "load_of b p < max_req_per_peer b"
        "\<forall>u\<in>set us. skipped b X u \<or> max_req_per_peer b \<le> load_of b u"
      using first_pass_some by blast
    have "load_of b q < max_req_per_peer b \<Longrightarrow> q = p \<or> q \<in> set vs" using ps(1,3) q(2) q' by fastforce
    then show ?thesis using ps(2) priority_sorted[of b oa] by (auto simp: ps(1) sorted_append)
  next
    case second
    then have "max_req_per_peer b \<le> load_of b q" "m \<le> load_of b q" "load_of b p \<le> m"
      using first_pass_none[OF second(1)] second_pass_some[OF second(2)] q' q(2) by blast+
    then show ?thesis by auto
  qed
  then show "load_of b q < max_req_per_peer b \<Longrightarrow> load_of b p < max_req_per_peer b \<and> score_of b p \<le> score_of b q"
    "max_req_per_peer b \<le> load_of b p \<Longrightarrow> load_of b p \<le> load_of b q" by blast+
qed

end

section \<open>What the operations change\<close>

named_theorems views

abbreviation fails :: "lite_balancer \<Rightarrow> nat \<Rightarrow> u32" where
  "fails b p \<equiv> failure_count (stats_entry b p)"

lemma load_of_entry: "load_of b p = current_requests (stats_entry b p)"
  by (simp add: load_of_def stats_entry_def stats_default_def split: option.split)

lemma stats_entry_modify [views]: "stats_entry (modify_stats p f b) q = (if q = p then f (stats_entry b p) else stats_entry b q)"
  by (simp add: stats_entry_def modify_stats_def update_conv')

lemma modify_stats_other [views]:
  "peers (modify_stats p f b) = peers b" "alive_peers (modify_stats p f b) = alive_peers b"
  "archival_peers (modify_stats p f b) = archival_peers b" "peer_states (modify_stats p f b) = peer_states b"
  "global_rate_limiter (modify_stats p f b) = global_rate_limiter b" "max_retries (modify_stats p f b) = max_retries b"
  by (simp_all add: modify_stats_def)

lemma stats_entry_cong [views]:
  "stats_entry (b\<lparr>alive_peers := A\<rparr>) = stats_entry b" "stats_entry (b\<lparr>peer_states := S\<rparr>) = stats_entry b"
  "stats_entry (b\<lparr>peers := P\<rparr>) = stats_entry b" "stats_entry (b\<lparr>global_rate_limiter := g\<rparr>) = stats_entry b"
  "stats_entry (b\<lparr>archival_peers := A\<rparr>) = stats_entry b"
  by (simp_all add: stats_entry_def fun_eq_iff)

lemma observe_time_simps [simp]:
  "failure_count (observe_time t s) = failure_count s" "current_requests (observe_time t s) = current_requests s"
  by (simp_all add: observe_time_def)

definition drop_request :: "u64 \<Rightarrow> u64" where
  "drop_request n = (if n = 0 then 0 else n - 1)"

lemma drop_request_succ: "n \<noteq> - 1 \<Longrightarrow> drop_request (n + 1) = n"
  by (auto simp: drop_request_def add_eq_0_iff2)

lemma decrement_views [views]:
  "fails (decrement_current_requests p b) q = fails b q"
  "load_of (decrement_current_requests p b) q = (if q = p then drop_request (load_of b p) else load_of b q)"
  "peers (decrement_current_requests p b) = peers b" "alive_peers (decrement_current_requests p b) = alive_peers b"
  "archival_peers (decrement_current_requests p b) = archival_peers b"
  "peer_states (decrement_current_requests p b) = peer_states b"
  "global_rate_limiter (decrement_current_requests p b) = global_rate_limiter b"
  by (auto simp: decrement_current_requests_def load_of_entry stats_entry_def stats_default_def update_conv' drop_request_def
      split: option.split)

lemma load_of_views [views]:
  "load_of (modify_stats p f b) q = (if q = p then current_requests (f (stats_entry b p)) else load_of b q)"
  "load_of (b\<lparr>alive_peers := A\<rparr>) = load_of b" "load_of (b\<lparr>peer_states := S\<rparr>) = load_of b"
  "load_of (b\<lparr>peers := P\<rparr>) = load_of b" "load_of (b\<lparr>global_rate_limiter := g\<rparr>) = load_of b"
  by (simp_all add: load_of_entry views fun_eq_iff)

text \<open>The end of a request.\<close>

lemma complete_ok_views [views]:
  "peers (complete_request p t True b) = peers b"
  "archival_peers (complete_request p t True b) = archival_peers b"
  "global_rate_limiter (complete_request p t True b) = global_rate_limiter b"
  "alive_peers (complete_request p t True b) = insert p (alive_peers b)"
  "peer_states (complete_request p t True b) = (peer_states b)(p \<mapsto> Healthy)"
  "fails (complete_request p t True b) q = (if q = p then 0 else fails b q)"
  "load_of (complete_request p t True b) q = (if q = p then drop_request (load_of b p) else load_of b q)"
  by (simp_all add: complete_request_def record_success_def update_average_request_time_def Let_def views flip: load_of_entry)

lemma complete_error_views [views]:
  "peers (complete_request_error p t e b) = peers b"
  "archival_peers (complete_request_error p t e b) = archival_peers b"
  "global_rate_limiter (complete_request_error p t e b) = global_rate_limiter b"
  "fails (complete_request_error p t e b) q = (if q = p \<and> retryable_failure e \<noteq> None then fails b p + 1 else fails b q)"
  "load_of (complete_request_error p t e b) q = (if q = p then drop_request (load_of b p) else load_of b q)"
  "alive_peers (complete_request_error p t e b) =
     (if retryable_failure e = None then alive_peers b
      else if 2 \<le> fails b p + 1 then alive_peers b - {p} else insert p (alive_peers b))"
  "peer_states (complete_request_error p t e b) =
     (if retryable_failure e = None then peer_states b
      else if 2 \<le> fails b p + 1 then (peer_states b)(p \<mapsto> Dead) else (peer_states b)(p \<mapsto> Suspect))"
  by (auto simp: complete_request_error_def record_retryable_failure_def record_non_retryable_error_def Let_def views
      split: option.split simp flip: load_of_entry)

lemma seqno_views [views]:
  "peers (update_peer_seqno p s b) = peers b" "alive_peers (update_peer_seqno p s b) = alive_peers b"
  "archival_peers (update_peer_seqno p s b) = archival_peers b" "peer_states (update_peer_seqno p s b) = peer_states b"
  "fails (update_peer_seqno p s b) q = fails b q" "load_of (update_peer_seqno p s b) q = load_of b q"
  by (simp_all add: update_peer_seqno_def views flip: load_of_entry)

lemma unsync_views [views]:
  "peers (delete_unsync_peers b) = peers b" "archival_peers (delete_unsync_peers b) = archival_peers b"
  "peer_states (delete_unsync_peers b) = peer_states b" "stats_entry (delete_unsync_peers b) = stats_entry b"
  "load_of (delete_unsync_peers b) = load_of b"
  by (simp_all add: delete_unsync_peers_def Let_def views)

lemma unsync_alive: "alive_peers (delete_unsync_peers b) \<subseteq> alive_peers b"
  by (auto simp: delete_unsync_peers_def Let_def)

text \<open>The statistics count each finished request of a peer once, whatever its outcome.\<close>

abbreviation served :: "lite_balancer \<Rightarrow> nat \<Rightarrow> u64" where
  "served b p \<equiv> total_requests (stats_entry b p)"

lemma served_decrement: "served (decrement_current_requests p b) q = served b q"
  by (auto simp: decrement_current_requests_def stats_entry_def update_conv' split: option.split)

lemma served_complete:
  "served (complete_request p t True b) q = (if q = p then served b p + 1 else served b q)"
  "served (complete_request_error p t e b) q = (if q = p then served b p + 1 else served b q)"
  by (simp_all add: complete_request_def record_success_def update_average_request_time_def complete_request_error_def
      record_retryable_failure_def record_non_retryable_error_def Let_def views served_decrement observe_time_def split: option.split)

text \<open>The start of a request: one choice, and one more request counted for the chosen peer.\<close>

lemma execute_request_eq: "execute_request oa a b = execute_request_excluding oa {} a b"
  by (simp add: execute_request_def execute_request_excluding_def choose_peer_def)

definition same_but_load :: "nat \<Rightarrow> lite_balancer \<Rightarrow> lite_balancer \<Rightarrow> bool" where
  "same_but_load p b b' \<longleftrightarrow> length (peers b') = length (peers b) \<and> alive_peers b' = alive_peers b
     \<and> archival_peers b' = archival_peers b \<and> peer_states b' = peer_states b \<and> fails b' = fails b
     \<and> load_of b' = (load_of b)(p := load_of b p + 1) \<and> (global_rate_limiter b = None \<longrightarrow> global_rate_limiter b' = None)"

lemma acquire_global_views:
  "acquire_global rs b = Some b' \<Longrightarrow> peers b' = peers b \<and> alive_peers b' = alive_peers b
     \<and> archival_peers b' = archival_peers b \<and> peer_states b' = peer_states b \<and> stats_entry b' = stats_entry b
     \<and> load_of b' = load_of b \<and> (global_rate_limiter b = None \<longrightarrow> global_rate_limiter b' = None)"
  by (auto simp: acquire_global_def views split: option.splits)

lemma execute_request_ok:
  assumes "execute_request_excluding oa X a b = Some (Inr p, b')"
  shows "choose_peer_excluding (iteration a) oa X b = Inr p" "same_but_load p b b'"
proof -
  from assms obtain b1 where c: "choose_peer_excluding (iteration a) oa X b = Inr p"
    and g: "acquire_global (readings a) (if p < length (peers b)
        then b\<lparr>peers := (peers b)[p := set_request_timeout (timeout_ms b) (peers b ! p)]\<rparr> else b) = Some b1"
    and b': "b' = modify_stats p (\<lambda>s. s\<lparr>current_requests := current_requests s + 1\<rparr>) b1"
    by (auto simp: execute_request_excluding_def Let_def split: sum.splits option.splits)
  show "choose_peer_excluding (iteration a) oa X b = Inr p" by (rule c)
  show "same_but_load p b b'" using acquire_global_views[OF g] unfolding b'
    by (auto simp: same_but_load_def views fun_eq_iff load_of_entry split: if_splits)
qed

lemma execute_request_served:
  assumes "execute_request_excluding oa X a b = Some (Inr p, b')"
  shows "served b' q = served b q"
proof -
  from assms obtain b1 where "acquire_global (readings a) (if p < length (peers b)
        then b\<lparr>peers := (peers b)[p := set_request_timeout (timeout_ms b) (peers b ! p)]\<rparr> else b) = Some b1"
    and b': "b' = modify_stats p (\<lambda>s. s\<lparr>current_requests := current_requests s + 1\<rparr>) b1"
    by (auto simp: execute_request_excluding_def Let_def split: sum.splits option.splits)
  from acquire_global_views[OF this(1)] show ?thesis unfolding b' by (auto simp: views split: if_splits)
qed

lemma execute_request_err:
  "execute_request_excluding oa X a b = Some (Inl e, b') \<Longrightarrow> b' = b \<and> choose_peer_excluding (iteration a) oa X b = Inl e"
  by (auto simp: execute_request_excluding_def Let_def split: sum.splits option.splits)

section \<open>The invariant\<close>

definition bal_inv :: "lite_balancer \<Rightarrow> bool" where
  "bal_inv b \<longleftrightarrow> alive_peers b \<subseteq> {..<length (peers b)} \<and> archival_peers b \<subseteq> {..<length (peers b)}
     \<and> (\<forall>p. peer_states b p = Some Dead \<longrightarrow> p \<notin> alive_peers b)
     \<and> (\<forall>p. peer_states b p \<noteq> Some Dead \<longrightarrow> fails b p < 2)"

text \<open>\<open>kept\<close>: the invariant holds after, and no dead peer came back.  \<open>evolves\<close>: besides, every counter of
  requests in flight is back at its value.\<close>

definition kept :: "lite_balancer \<Rightarrow> lite_balancer \<Rightarrow> bool" where
  "kept b b' \<longleftrightarrow> bal_inv b' \<and> length (peers b') = length (peers b)
     \<and> (\<forall>p. peer_states b p = Some Dead \<longrightarrow> peer_states b' p = Some Dead)"

definition evolves :: "lite_balancer \<Rightarrow> lite_balancer \<Rightarrow> bool" where
  "evolves b b' \<longleftrightarrow> kept b b' \<and> (\<forall>q. load_of b q \<noteq> - 1 \<longrightarrow> load_of b' q = load_of b q)"

lemma kept_refl: "bal_inv b \<Longrightarrow> kept b b"
  by (simp add: kept_def)

lemma kept_trans [trans]: "kept a b \<Longrightarrow> kept b c \<Longrightarrow> kept a c"
  by (simp add: kept_def)

lemma evolves_refl: "bal_inv b \<Longrightarrow> evolves b b"
  by (simp add: evolves_def kept_refl)

lemma evolves_trans [trans]: "evolves a b \<Longrightarrow> evolves b c \<Longrightarrow> evolves a c"
  by (auto simp: evolves_def elim: kept_trans)

lemma evolves_kept: "evolves b b' \<Longrightarrow> kept b b'"
  by (simp add: evolves_def)

lemma bal_inv_pool: "bal_inv b \<Longrightarrow> pool b oa \<subseteq> {..<length (peers b)}" "bal_inv b \<Longrightarrow> finite (pool b oa)"
  by (auto simp: bal_inv_def pool_def intro: finite_subset)

lemma attempt_begins:
  assumes "bal_inv b" "hash_order (iteration a)" "execute_request_excluding oa X a b = Some (Inr p, b')"
  shows "p < length (peers b)" "p \<in> pool b oa" "p \<notin> X" "peer_states b p \<noteq> Some Dead" "same_but_load p b b'" "bal_inv b'"
proof -
  note ok = execute_request_ok[OF assms(3)]
  have "p \<in> pool b oa \<and> \<not> skipped b X p"
    using hash_order.choose_eligible[OF assms(2) bal_inv_pool(2)[OF assms(1)] ok(1)] .
  then show "p < length (peers b)" "p \<in> pool b oa" "p \<notin> X" "peer_states b p \<noteq> Some Dead"
    using bal_inv_pool(1)[OF assms(1)] by (auto simp: skipped_def)
  show "same_but_load p b b'" by (rule ok(2))
  then show "bal_inv b'" using assms(1) by (simp add: same_but_load_def bal_inv_def fun_eq_iff)
qed

text \<open>A request on \<open>p\<close> is settled: counted down, and the peer judged.\<close>

definition settled :: "nat \<Rightarrow> lite_balancer \<Rightarrow> lite_balancer \<Rightarrow> bool" where
  "settled p b b' \<longleftrightarrow> kept b b' \<and> (\<forall>q. load_of b' q = (if q = p then drop_request (load_of b p) else load_of b q))"

lemma attempt_settled:
  assumes "bal_inv b" "hash_order (iteration a)" "execute_request_excluding oa X a b = Some (Inr p, b1)" "settled p b1 b2"
  shows "evolves b b2"
proof -
  note a = attempt_begins[OF assms(1-3)]
  then have "kept b b1" by (simp add: kept_def same_but_load_def)
  moreover have "load_of b q \<noteq> - 1 \<longrightarrow> load_of b2 q = load_of b q" for q
    using assms(4) a(5) drop_request_succ by (auto simp: settled_def same_but_load_def)
  ultimately show ?thesis using assms(4) kept_trans by (auto simp: evolves_def settled_def)
qed

lemma complete_ok_settled:
  "bal_inv b \<Longrightarrow> p < length (peers b) \<Longrightarrow> peer_states b p \<noteq> Some Dead \<Longrightarrow> settled p b (complete_request p t True b)"
  by (auto simp: settled_def kept_def bal_inv_def views)

lemma complete_error_settled:
  "bal_inv b \<Longrightarrow> p < length (peers b) \<Longrightarrow> peer_states b p \<noteq> Some Dead \<Longrightarrow> settled p b (complete_request_error p t e b)"
  by (auto simp: settled_def kept_def bal_inv_def views not_le)

lemma unsync_settled: "settled p b b' \<Longrightarrow> settled p b (delete_unsync_peers b')"
  using unsync_alive[of b'] by (auto simp: settled_def kept_def bal_inv_def views)

lemma seqno_settled: "settled p (update_peer_seqno p n b) b' \<Longrightarrow> settled p b b'"
  by (auto simp: settled_def kept_def views)

lemma bal_inv_seqno: "bal_inv (update_peer_seqno p n b) = bal_inv b"
  by (simp add: bal_inv_def views)

text \<open>The contract of what a method does with an answer, and the retry loop over it.\<close>

locale answer_handler =
  fixes on_ok :: "nat \<Rightarrow> u64 \<Rightarrow> 'r \<Rightarrow> lite_balancer \<Rightarrow> lite_balancer"
  assumes settles: "bal_inv b \<Longrightarrow> p < length (peers b) \<Longrightarrow> peer_states b p \<noteq> Some Dead \<Longrightarrow> settled p b (on_ok p t r b)"
begin

lemma attempt_ok:
  assumes "bal_inv b" "hash_order (iteration a)" "execute_request oa a b = Some (Inr p, b1)"
  shows "evolves b (on_ok p t r b1)" "evolves b (complete_request_error p t e b1)" "p < length (peers b1)"
    "p \<in> pool b oa" "peer_states b p \<noteq> Some Dead"
proof -
  note x = assms(3)[unfolded execute_request_eq]
  note a = attempt_begins[OF assms(1,2) x]
  have p: "p < length (peers b1)" "peer_states b1 p \<noteq> Some Dead" using a(1,4,5) by (simp_all add: same_but_load_def)
  show "evolves b (on_ok p t r b1)" by (rule attempt_settled[OF assms(1,2) x settles[OF a(6) p]])
  show "evolves b (complete_request_error p t e b1)" by (rule attempt_settled[OF assms(1,2) x complete_error_settled[OF a(6) p]])
  show "p < length (peers b1)" "p \<in> pool b oa" "peer_states b p \<noteq> Some Dead" by (rule p(1) a(2) a(4))+
qed

lemma retry_loop_evolves:
  assumes "\<And>i. hash_order (iteration (net i))"
  shows "bal_inv b \<Longrightarrow> retry_loop on_ok oa net n i b = Some (r, b') \<Longrightarrow> evolves b b' \<and> r \<noteq> Inl BalancerPanic"
proof (induction n arbitrary: i b)
  case 0
  then show ?case by (auto intro: evolves_refl)
next
  case (Suc n)
  show ?case
  proof (cases "execute_request oa (net i) b")
    case None
    then show ?thesis using Suc.prems(2) by simp
  next
    case (Some x)
    then obtain y b1 where x: "execute_request oa (net i) b = Some (y, b1)" by (cases x) simp
    show ?thesis
    proof (cases y)
      case (Inl e)
      then have "choose_peer_excluding (iteration (net i)) oa {} b = Inl e" "b1 = b"
        using execute_request_err x unfolding execute_request_eq by blast+
      then have "e = no_peers oa" using hash_order.choose_fails[OF assms bal_inv_pool(2)[OF Suc.prems(1)]] by blast
      then show ?thesis using Suc.prems x Inl \<open>b1 = b\<close> by (auto simp: no_peers_def intro: evolves_refl split: if_splits)
    next
      case (Inr p)
      note a = attempt_ok[OF Suc.prems(1) assms x[unfolded Inr]]
      show ?thesis
      proof (cases "answer (net i) p")
        case (Inr s)
        then show ?thesis using Suc.prems(2) x \<open>y = Inr p\<close> a(1,3) by auto
      next
        case (Inl e)
        let ?b = "complete_request_error p (elapsed_ms (net i)) e b1"
        have ev: "evolves b ?b" by (rule a(2))
        then have "bal_inv ?b" by (simp add: evolves_def kept_def)
        then show ?thesis using Suc.prems(2) x Inl \<open>y = Inr p\<close> a(3) ev Suc.IH[of ?b "Suc i"]
          by (auto simp: Let_def split: if_splits dest: evolves_trans)
      qed
    qed
  qed
qed

end

interpretation plain: answer_handler "\<lambda>p t r b. complete_request p t True b"
  by unfold_locales (rule complete_ok_settled)

interpretation masterchain:
  answer_handler "\<lambda>p t r b. delete_unsync_peers (complete_request p t True (update_peer_seqno p (last_seqno r) b))"
  by unfold_locales (rule unsync_settled, rule seqno_settled, rule complete_ok_settled, simp_all add: bal_inv_seqno views)

lemma methods_balanced:
  "get_masterchain_info_ext net b = balanced_call False net b" "get_time net' b = balanced_call False net' b"
  "get_version net b = balanced_call False net b" "get_block net b = balanced_call False net b"
  "get_state net b = balanced_call False net b" "get_block_header net b = balanced_call False net b"
  "get_account_state net b = balanced_call False net b" "run_smc_method net b = balanced_call False net b"
  "get_transactions net b = balanced_call False net b"
  by (simp_all add: balanced_call_def get_masterchain_info_ext_def get_time_def get_version_def get_block_def get_state_def
      get_block_header_def get_account_state_def run_smc_method_def get_transactions_def)

section \<open>Sending to several peers\<close>

lemma send_settled:
  assumes "bal_inv b" "hash_order (iteration a)" "execute_request_excluding False X a b = Some (Inr p, b1)"
  defines "b2 \<equiv> (case answer a p of Inr status \<Rightarrow> complete_request p (elapsed_ms a) True b1
    | Inl e \<Rightarrow> complete_request_error p (elapsed_ms a) e b1)"
  shows "evolves b b2" "p < length (peers b1)" "p \<in> alive_peers b - X" "alive_peers b2 - insert p X = alive_peers b - X - {p}"
    "served b2 q = (if q = p then served b p + 1 else served b q)"
proof -
  note a = attempt_begins[OF assms(1-3)]
  have p: "p < length (peers b1)" "peer_states b1 p \<noteq> Some Dead" using a(1,4,5) by (simp_all add: same_but_load_def)
  have "settled p b1 b2" using complete_ok_settled[OF a(6) p] complete_error_settled[OF a(6) p]
    by (simp add: b2_def split: sum.split)
  then show "evolves b b2" by (rule attempt_settled[OF assms(1-3)])
  show "p < length (peers b1)" by (rule p)
  show pa: "p \<in> alive_peers b - X" using a(2,3) by (simp add: pool_def)
  have "alive_peers b1 = alive_peers b" using a(5) by (simp add: same_but_load_def)
  then show "alive_peers b2 - insert p X = alive_peers b - X - {p}" using pa
    by (auto simp: b2_def views split: sum.splits)
  show "served b2 q = (if q = p then served b p + 1 else served b q)"
    using execute_request_served[OF assms(3)] by (simp add: b2_def served_complete split: sum.split)
qed

definition answers :: "(nat \<Rightarrow> 'r attempt) \<Rightarrow> nat \<Rightarrow> nat list \<Rightarrow> (lite_error + 'r) list" where
  "answers net i ps = map (\<lambda>(j, p). answer (net j) p) (enumerate i ps)"

lemma answers_simps [simp]: "answers net i [] = []" "answers net i (p # ps) = answer (net i) p # answers net (Suc i) ps"
  by (simp_all add: answers_def)

lemma send_fails:
  assumes "bal_inv b" "hash_order (iteration a)" "execute_request_excluding False X a b = Some (Inl e, b1)"
  shows "e = NoAlivePeers \<and> b1 = b \<and> alive_peers b - X = {}"
proof -
  have "choose_peer_excluding (iteration a) False X b = Inl e" "b1 = b" using execute_request_err[OF assms(3)] by simp_all
  then show ?thesis using hash_order.choose_fails[OF assms(2) bal_inv_pool(2)[OF assms(1)]] assms(1)
    by (fastforce simp: no_peers_def pool_def skipped_def bal_inv_def)
qed

lemma send_loop_spec:
  assumes fair: "\<And>i. hash_order (iteration (net i))"
  shows "bal_inv b \<Longrightarrow> send_loop net n i X rs b = Some (x, X', b') \<Longrightarrow>
    \<exists>ps. x = Inr (rs @ answers net i ps) \<and> distinct ps \<and> set ps \<subseteq> alive_peers b - X
      \<and> length ps = min n (card (alive_peers b - X)) \<and> evolves b b'
      \<and> (\<forall>q. served b' q = (if q \<in> set ps then served b q + 1 else served b q))"
proof (induction n arbitrary: i X rs b)
  case 0
  then show ?case by (auto intro!: exI[of _ "[]"] evolves_refl)
next
  case (Suc n)
  from Suc.prems(2) obtain y b1 where y: "execute_request_excluding False X (net i) b = Some (y, b1)"
    by (auto split: option.splits)
  show ?case
  proof (cases y)
    case (Inl e)
    then have e: "e = NoAlivePeers" "b1 = b" and none: "alive_peers b - X = {}"
      using send_fails[OF Suc.prems(1) fair] y by blast+
    have "length [] = min (Suc n) (card (alive_peers b - X))" unfolding none by simp
    then show ?thesis using Suc.prems y Inl e evolves_refl[OF Suc.prems(1)] by (intro exI[of _ "[]"]) auto
  next
    case (Inr p)
    define b2 where "b2 = (case answer (net i) p of Inr status \<Rightarrow> complete_request p (elapsed_ms (net i)) True b1
      | Inl e \<Rightarrow> complete_request_error p (elapsed_ms (net i)) e b1)"
    note st = send_settled[OF Suc.prems(1) fair y[unfolded Inr], folded b2_def]
    have "send_loop net n (Suc i) (insert p X) (rs @ [answer (net i) p]) b2 = Some (x, X', b')"
      using Suc.prems(2) st(2) by (simp add: y Inr b2_def Let_def)
    moreover have "bal_inv b2" using st(1) by (simp add: evolves_def kept_def)
    ultimately obtain ps where ps: "x = Inr ((rs @ [answer (net i) p]) @ answers net (Suc i) ps)" "distinct ps"
        "set ps \<subseteq> alive_peers b - X - {p}" "length ps = min n (card (alive_peers b - X - {p}))" "evolves b2 b'"
        "\<And>q. served b' q = (if q \<in> set ps then served b2 q + 1 else served b2 q)"
      using Suc.IH st(4) by metis
    have "finite (alive_peers b)" using bal_inv_pool(2)[OF Suc.prems(1), of False] by (simp add: pool_def)
    then have "Suc (card (alive_peers b - X - {p})) = card (alive_peers b - X)" using st(3) by (intro card_Suc_Diff1) auto
    moreover have "served b' q = (if q \<in> set (p # ps) then served b q + 1 else served b q)" for q using ps(3,6) st(5)[of q] by auto
    ultimately show ?thesis using ps(1-4) st(3) evolves_trans[OF st(1) ps(5)] by (intro exI[of _ "p # ps"]) auto
  qed
qed

lemma execute_request_returns:
  "global_rate_limiter b = None \<Longrightarrow> \<exists>y b1. execute_request_excluding oa X a b = Some (y, b1) \<and> global_rate_limiter b1 = None"
  by (auto simp: execute_request_excluding_def Let_def acquire_global_def views split: sum.split)

lemma send_loop_returns: "global_rate_limiter b = None \<Longrightarrow> send_loop net n i X rs b \<noteq> None"
proof (induction n arbitrary: i X rs b)
  case (Suc n)
  obtain y b1 where y: "execute_request_excluding False X (net i) b = Some (y, b1)" "global_rate_limiter b1 = None"
    using execute_request_returns[OF Suc.prems] by blast
  then show ?case using Suc.IH by (auto simp: Let_def views split: sum.split)
qed simp

section \<open>Failover\<close>

text \<open>The failures that the other peers can still make before they are dead.\<close>

definition lives :: "lite_balancer \<Rightarrow> nat \<Rightarrow> nat" where
  "lives b p = (\<Sum>q\<in>alive_peers b - {p}. if fails b q = 0 then 2 else 1)"

lemma two_failures: "(x :: u32) < 2 \<Longrightarrow> \<not> 2 \<le> x + 1 \<Longrightarrow> x = 0"
proof -
  assume "x < 2" and no: "\<not> 2 \<le> x + 1"
  then have "unat x < 2" by (simp add: word_less_nat_alt)
  then have "unat x = unat (0 :: u32) \<or> unat x = unat (1 :: u32)" by auto
  then have "x = 0 \<or> x = 1" by (simp only: word_unat_eq_iff)
  then show "x = 0" using no by auto
qed

lemma lives_decrease:
  assumes "bal_inv b" "same_but_load q b b1" "q \<in> alive_peers b" "q \<noteq> p" "retryable_failure e \<noteq> None"
  shows "lives (complete_request_error q t e b1) p < lives b p"
proof -
  let ?A = "alive_peers b - {p}" and ?w = "\<lambda>b q. if fails b q = 0 then (2 :: nat) else 1"
  let ?b = "complete_request_error q t e b1"
  have fin: "finite ?A" using bal_inv_pool(2)[OF assms(1), of False] by (simp add: pool_def)
  have q: "q \<in> ?A" "fails b q < 2" using assms(1,3,4) by (auto simp: bal_inv_def)
  have b1: "alive_peers b1 = alive_peers b" "fails b1 = fails b" using assms(2) by (simp_all add: same_but_load_def)
  have same: "?w ?b r = ?w b r" if "r \<noteq> q" for r using that b1 by (simp add: views fun_eq_iff)
  have split: "lives b p = ?w b q + sum (?w b) (?A - {q})" unfolding lives_def by (rule sum.remove[OF fin q(1)])
  have rest: "sum (?w ?b) (?A - {q}) = sum (?w b) (?A - {q})" by (rule sum.cong) (use same in auto)
  show ?thesis
  proof (cases "2 \<le> fails b q + 1")
    case True
    then have "alive_peers ?b - {p} = ?A - {q}" using b1 assms(5) by (auto simp: views fun_eq_iff)
    then show ?thesis using split rest by (simp add: lives_def)
  next
    case False
    then have f: "fails b q = 0" using two_failures q(2) by blast
    have "alive_peers ?b - {p} = ?A" using False b1 assms(3,5) by (auto simp: views fun_eq_iff)
    then have "lives ?b p = ?w ?b q + sum (?w b) (?A - {q})"
      unfolding lives_def rest[symmetric] by (simp only:) (rule sum.remove[OF fin q(1)])
    then show ?thesis using split f b1 assms(5) by (simp add: views fun_eq_iff)
  qed
qed

context answer_handler
begin

lemma retry_loop_reaches:
  assumes fair: "\<And>i. hash_order (iteration (net i))"
    and good: "\<And>i. \<exists>r. answer (net i) p = Inr r"
    and retry: "\<And>i q e. answer (net i) q = Inl e \<Longrightarrow> retryable_failure e \<noteq> None"
  shows "bal_inv b \<Longrightarrow> p \<in> alive_peers b \<Longrightarrow> global_rate_limiter b = None \<Longrightarrow> lives b p < n \<Longrightarrow>
    \<exists>r b'. retry_loop on_ok False net n i b = Some (Inr r, b')"
proof (induction n arbitrary: i b)
  case (Suc n)
  have live: "p \<in> pool b False" "\<not> skipped b {} p" using Suc.prems(1,2) by (auto simp: pool_def skipped_def bal_inv_def)
  obtain q where c: "choose_peer_excluding (iteration (net i)) False {} b = Inr q"
    by (rule hash_order.choose_total[OF fair bal_inv_pool(2)[OF Suc.prems(1)] live])
  obtain b1 where x: "execute_request False (net i) b = Some (Inr q, b1)" and g: "global_rate_limiter b1 = None"
    using execute_request_returns[OF Suc.prems(3), of False "{}" "net i"] c execute_request_ok(1) execute_request_err
    unfolding execute_request_eq by (metis Inl_Inr_False Inr_inject obj_sumE)
  note a = attempt_ok[OF Suc.prems(1) fair x]
  show ?case
  proof (cases "answer (net i) q")
    case (Inr r)
    then show ?thesis using x a(3) by simp
  next
    case (Inl e)
    let ?b = "complete_request_error q (elapsed_ms (net i)) e b1"
    have qp: "q \<noteq> p" using good[of i] Inl by auto
    have sb: "same_but_load q b b1" by (rule execute_request_ok(2)[OF x[unfolded execute_request_eq]])
    have "lives ?b p < lives b p"
      using lives_decrease[OF Suc.prems(1) sb _ qp retry[OF Inl]] a(4) by (simp add: pool_def)
    then have "lives ?b p < n" using Suc.prems(4) by linarith
    moreover have "bal_inv ?b" using a(2) by (simp add: evolves_def kept_def)
    moreover have "p \<in> alive_peers ?b" using Suc.prems(2) qp sb by (simp add: views same_but_load_def)
    moreover have "global_rate_limiter ?b = None" using g by (simp add: views)
    ultimately show ?thesis using Suc.IH[of ?b "Suc i"] x Inl a(3) retry[OF Inl] by (auto simp: Let_def)
  qed
qed simp

end

lemma lives_bound:
  assumes "bal_inv b" "p \<in> alive_peers b"
  shows "lives b p \<le> 2 * (length (peers b) - 1)"
proof -
  have sub: "alive_peers b \<subseteq> {..<length (peers b)}" using assms(1) by (simp add: bal_inv_def)
  then have fin: "finite (alive_peers b)" by (rule finite_subset) simp
  have "lives b p \<le> card (alive_peers b - {p}) * 2"
    unfolding lives_def using sum_bounded_above[of "alive_peers b - {p}" "\<lambda>q. if fails b q = 0 then 2 else 1" "2 :: nat"] by simp
  moreover have "card (alive_peers b - {p}) = card (alive_peers b) - 1" using assms(2) fin by simp
  moreover have "card (alive_peers b) \<le> length (peers b)" using card_mono[OF _ sub] by simp
  ultimately show ?thesis by linarith
qed

section \<open>Sessions\<close>

text \<open>The balancers a caller can make before \<open>start_up\<close>; the limits on requests and retries are public fields.\<close>

inductive configured :: "lite_balancer \<Rightarrow> bool" where
  new: "configured (balancer_new cs t)"
| per_peer: "configured b \<Longrightarrow> configured (with_rate_limit_per_peer l b)"
| global: "configured b \<Longrightarrow> configured (with_global_rate_limit l b)"
| tuned: "configured b \<Longrightarrow> configured (b\<lparr>max_req_per_peer := q, max_retries := m\<rparr>)"

text \<open>
  \<open>session b0 b\<close>: calls lead from \<open>b0\<close> to \<open>b\<close>.  Of an answer the balancer reads at most one
  number, so answers are represented by it.
\<close>

inductive session :: "lite_balancer \<Rightarrow> lite_balancer \<Rightarrow> bool" for b0 where
  begins: "session b0 b0"
| called: "session b0 b \<Longrightarrow> \<forall>i. hash_order (iteration (net i)) \<Longrightarrow> balanced_call oa (net :: nat \<Rightarrow> u32 attempt) b = Some (r, b') \<Longrightarrow>
    session b0 b'"
| info: "session b0 b \<Longrightarrow> \<forall>i. hash_order (iteration (net i)) \<Longrightarrow> get_masterchain_info (\<lambda>n. n) net b = Some (r, b') \<Longrightarrow> session b0 b'"
| sent: "session b0 b \<Longrightarrow> \<forall>i. hash_order (iteration (net i)) \<Longrightarrow> send_message (net :: nat \<Rightarrow> u32 attempt) b = Some (r, b') \<Longrightarrow>
    session b0 b'"
| dropped: "session b0 b \<Longrightarrow> hash_order (iteration a) \<Longrightarrow> execute_request oa (a :: u32 attempt) b = Some (Inr p, b') \<Longrightarrow> session b0 b'"
| closed: "session b0 b \<Longrightarrow> session b0 (close_all b)"

lemma connect_loop_views:
  "alive_peers (connect_loop i cs b) = alive_peers b \<union> {i..<i + length cs}"
  "peer_states (connect_loop i cs b) p = (if i \<le> p \<and> p < i + length cs then Some Healthy else peer_states b p)"
  "peers (connect_loop i cs b) = peers b" "archival_peers (connect_loop i cs b) = archival_peers b"
  "peer_stats (connect_loop i cs b) = peer_stats b" "max_retries (connect_loop i cs b) = max_retries b"
  "global_rate_limiter (connect_loop i cs b) = global_rate_limiter b" "timeout_ms (connect_loop i cs b) = timeout_ms b"
  "max_req_per_peer (connect_loop i cs b) = max_req_per_peer b"
  by (induction i cs b rule: connect_loop.induct) (auto simp: connect_to_peer_def)

lemma find_archives_subset: "archival_peers (find_archives iter probe b) \<subseteq> {..<length (peers b)}"
proof -
  have "fold (\<lambda>i A. if i < n \<and> probe i then insert i A else A) xs A \<subseteq> {..<n}" if "A \<subseteq> {..<n}" for n xs A
    using that by (induction xs arbitrary: A) auto
  then show ?thesis by (simp add: find_archives_def)
qed

lemma configured_fresh: "configured b \<Longrightarrow> peer_stats b = [] \<and> alive_peers b = {} \<and> archival_peers b = {} \<and> peer_states b = Map.empty"
  by (induction rule: configured.induct)
     (simp_all add: balancer_new_def with_rate_limit_per_peer_def with_global_rate_limit_def)

lemma start_up_views:
  "peers (start_up iter probe b) = peers b" "peer_stats (start_up iter probe b) = peer_stats b"
  "alive_peers (start_up iter probe b) = alive_peers b \<union> {..<length (peers b)}"
  "max_retries (start_up iter probe b) = max_retries b" "global_rate_limiter (start_up iter probe b) = global_rate_limiter b"
  "peer_states (start_up iter probe b) p = (if p < length (peers b) then Some Healthy else peer_states b p)"
  by (auto simp: start_up_def find_archives_def connect_loop_views)

lemma start_up_inv: "configured b \<Longrightarrow> bal_inv (start_up iter probe b)"
  using configured_fresh[of b] find_archives_subset[of iter probe "connect_loop 0 (peers b) b"]
  by (auto simp: bal_inv_def start_up_views stats_entry_def stats_default_def connect_loop_views)
     (auto simp: start_up_def connect_loop_views find_archives_def)

lemma send_message_evolves:
  assumes "bal_inv b" "\<And>i. hash_order (iteration (net i))" "send_message net b = Some (r, b')"
  shows "evolves b b' \<and> r \<noteq> Inl BalancerPanic"
proof -
  obtain x X' b2 where x: "send_loop net (send_fanout b) 0 {} [] b = Some (x, X', b2)"
    using assms(3) by (auto simp: send_message_def split: option.splits)
  then obtain rs where "x = Inr rs" "evolves b b2" using send_loop_spec[of net, OF assms(2,1)] by blast
  then show ?thesis using assms(3) x by (auto simp: send_message_def split: option.splits)
qed

lemma calls_evolve:
  assumes "bal_inv b" "\<And>i. hash_order (iteration (net i))"
  shows "balanced_call oa net b = Some (r, b') \<Longrightarrow> evolves b b' \<and> r \<noteq> Inl BalancerPanic"
    "get_masterchain_info last_seqno net b = Some (r, b') \<Longrightarrow> evolves b b' \<and> r \<noteq> Inl BalancerPanic"
    "send_message net b = Some (r, b') \<Longrightarrow> evolves b b' \<and> r \<noteq> Inl BalancerPanic"
  unfolding balanced_call_def get_masterchain_info_def
  using plain.retry_loop_evolves[of net b] masterchain.retry_loop_evolves[of net b] send_message_evolves[of b net] assms
  by blast+

lemma session_kept: "session b0 b \<Longrightarrow> bal_inv b0 \<Longrightarrow> kept b0 b"
proof (induction rule: session.induct)
  case begins
  then show ?case by (rule kept_refl)
next
  case (called b net oa r b')
  then show ?case using calls_evolve(1)[of b net oa r b'] by (meson evolves_kept kept_def kept_trans)
next
  case (info b net r b')
  then show ?case using calls_evolve(2)[of b net "\<lambda>n. n" r b'] by (meson evolves_kept kept_def kept_trans)
next
  case (sent b net r b')
  then show ?case using calls_evolve(3)[of b net r b'] by (meson evolves_kept kept_def kept_trans)
next
  case (dropped b a oa p b')
  then have "bal_inv b" by (simp add: kept_def)
  from attempt_begins(5,6)[OF this dropped.hyps(2) dropped.hyps(3)[unfolded execute_request_eq]]
  have "kept b b'" by (simp add: kept_def same_but_load_def)
  then show ?case using dropped kept_trans by blast
next
  case (closed b)
  moreover have "bal_inv (close_all b) = bal_inv b" by (simp add: close_all_def bal_inv_def stats_entry_def)
  ultimately show ?case by (simp add: kept_def) (simp add: close_all_def)
qed

text \<open>The first \<open>get_masterchain_info\<close>: the statistics hold the asked peer only.\<close>

lemma modify_single: "peer_stats b = [(p, s)] \<Longrightarrow> peer_stats (modify_stats p f b) = [(p, f s)]"
  by (simp add: modify_stats_def stats_entry_def)

lemma complete_single:
  "peer_stats b = [(p, s)] \<Longrightarrow> \<exists>s'. peer_stats (complete_request p t True b) = [(p, s')] \<and> mc_block_seqno s' = mc_block_seqno s"
  by (simp add: complete_request_def record_success_def update_average_request_time_def decrement_current_requests_def
      modify_stats_def stats_entry_def observe_time_def Let_def)

lemma unsync_single: "peer_stats b = [(p, s)] \<Longrightarrow> p \<in> alive_peers b \<Longrightarrow> alive_peers (delete_unsync_peers b) = {p}"
  by (auto simp: delete_unsync_peers_def find_consensus_block_def Let_def split: if_splits)

lemma execute_single:
  assumes "execute_request oa a b = Some (Inr p, b1)" "peer_stats b = []"
  shows "\<exists>s. peer_stats b1 = [(p, s)]"
  using assms by (auto simp: execute_request_def Let_def acquire_global_def modify_stats_def split: sum.splits option.splits if_splits)

section \<open>An example session\<close>

text \<open>One peer, which refuses two calls and is dead afterwards.\<close>

definition w_attempt :: "(nat \<Rightarrow> lite_error + u32) \<Rightarrow> u32 attempt" where
  "w_attempt f = \<lparr>iteration = sorted_list_of_set, readings = [], elapsed_ms = 5, answer = f\<rparr>"

definition w_balancer :: "peer_statistics option \<Rightarrow> peer_state \<Rightarrow> lite_balancer" where
  "w_balancer st ps = \<lparr>peers = [\<lparr>client_rate_limiter = None, request_timeout = Some 1000\<rparr>],
     alive_peers = (if ps = Dead then {} else {0}), archival_peers = {}, peer_stats = (case st of None \<Rightarrow> [] | Some s \<Rightarrow> [(0, s)]),
     peer_states = [0 \<mapsto> ps], checker_running = True, global_rate_limiter = None,
     max_req_per_peer = 100, max_retries = 1, timeout_ms = 1000, inited = True\<rparr>"

lemmas w_defs = w_attempt_def w_balancer_def balancer_new_def start_up_def find_archives_def connect_to_peer_def set_request_timeout_def
  balanced_call_def execute_request_def choose_peer_def choose_peer_excluding_def build_priority_list_def best_seqno_def
  peer_score_def skipped_def load_of_def acquire_global_def modify_stats_def stats_entry_def stats_default_def
  complete_request_def complete_request_error_def decrement_current_requests_def record_success_def update_average_request_time_def
  observe_time_def calc_new_average_def record_retryable_failure_def retryable_failure_def saturating_mul_u64_def

definition w_stats :: "u32 \<Rightarrow> u64 \<Rightarrow> peer_statistics" where
  "w_stats f n = stats_default\<lparr>failure_count := f, total_requests := n, avg_response_time_ms := 1000, ewma_latency_ms := Some 1000,
     last_failure_kind := Some ConnectionFailure\<rparr>"

lemma w_start: "start_up sorted_list_of_set (\<lambda>p. False) (balancer_new [\<lparr>client_rate_limiter = None, request_timeout = None\<rparr>] 1000) = w_balancer None Healthy"
  by (simp add: w_defs)

lemma w_fail1: "balanced_call False (\<lambda>i. w_attempt (\<lambda>p. Inl AdnlOther)) (w_balancer None Healthy) = Some (Inl BalancerTimeout, w_balancer (Some (w_stats 1 1)) Suspect)"
  by (simp add: w_defs w_stats_def Let_def word_le_nat_alt)

lemma w_fail2: "balanced_call False (\<lambda>i. w_attempt (\<lambda>p. Inl AdnlOther)) (w_balancer (Some (w_stats 1 1)) Suspect) = Some (Inl BalancerTimeout, w_balancer (Some (w_stats 2 2)) Dead)"
  by (simp add: w_defs w_stats_def Let_def word_le_nat_alt)

lemma w_configured: "configured (balancer_new [\<lparr>client_rate_limiter = None, request_timeout = None\<rparr>] 1000)"
  by (rule configured.new)

lemma w_order: "hash_order (iteration (w_attempt f))"
  by (simp add: w_attempt_def sorted_order.hash_order_axioms)

lemma w_session: "session (start_up sorted_list_of_set (\<lambda>p. False) (balancer_new [\<lparr>client_rate_limiter = None, request_timeout = None\<rparr>] 1000))
    (w_balancer (Some (w_stats 2 2)) Dead)"
  unfolding w_start
  by (rule session.called[OF session.called[OF session.begins _ w_fail1] _ w_fail2]) (simp_all add: w_order)

lemma w_inv: "bal_inv (w_balancer None Healthy)"
  using start_up_inv[OF w_configured] w_start by metis

section \<open>Properties\<close>

text \<open>
  C5: In every session, whatever the peers answer and whichever calls are dropped, only existing
  peers are alive or archival, no dead peer is alive, and a peer that is not dead has failed
  at most once since its last success.  A session starts with one \<open>start_up\<close>, and a dropped call is dropped in its first attempt.
\<close>

theorem balancer_invariant:
  assumes "configured c" "session (start_up iter probe c) b"
  shows "alive_peers b \<subseteq> {..<peers_num b} \<and> archival_peers b \<subseteq> {..<peers_num b} \<and> peers_num b = peers_num c
    \<and> (\<forall>p. if peer_states b p = Some Dead then p \<notin> alive_peers b else failure_count (stats_entry b p) < 2)"
  using session_kept[OF assms(2) start_up_inv[OF assms(1)]]
  by (auto simp: kept_def bal_inv_def peers_num_def start_up_views)

theorem balancer_invariant_witness:
  "alive_peers (w_balancer (Some (w_stats 2 2)) Dead) \<subseteq> {..<1} \<and> peers_num (w_balancer (Some (w_stats 2 2)) Dead) = 1"
  using balancer_invariant[OF w_configured w_session] by (auto simp: peers_num_def balancer_new_def)

text \<open>
  C8: Death is final: once a peer is marked dead it stays dead for the rest of the session and no call
  chooses it again, although the balancer runs a health checker.
\<close>

theorem dead_stays_dead:
  assumes "configured c" "session (start_up iter probe c) b" "peer_states b p = Some Dead"
    and "session b b'" "hash_order iter'"
  shows "peer_states b' p = Some Dead \<and> p \<notin> alive_peers b' \<and> choose_peer_excluding iter' only_archive excluded b' \<noteq> Inr p"
proof -
  have "bal_inv b" using session_kept[OF assms(2) start_up_inv[OF assms(1)]] by (simp add: kept_def)
  then have k: "kept b b'" by (rule session_kept[OF assms(4)])
  then have dead: "peer_states b' p = Some Dead" "bal_inv b'" using assms(3) by (simp_all add: kept_def)
  moreover have "choose_peer_excluding iter' only_archive excluded b' \<noteq> Inr p"
    using hash_order.choose_eligible[OF assms(5) bal_inv_pool(2)[OF dead(2)]] dead(1) by (auto simp: skipped_def)
  ultimately show ?thesis by (auto simp: bal_inv_def)
qed

theorem dead_stays_dead_witness:
  "choose_peer_excluding sorted_list_of_set False {} (close_all (w_balancer (Some (w_stats 2 2)) Dead)) \<noteq> Inr 0"
  using dead_stays_dead[OF w_configured w_session _ session.closed[OF session.begins] sorted_order.hash_order_axioms, of 0]
  by (simp add: w_balancer_def)

text \<open>
  C6: The choice of a peer succeeds exactly when some peer of the pool is neither excluded nor dead.  It takes such a peer;
  while one is below its request limit, the taken one is too and no other such peer has a better score, and
  otherwise none has fewer requests.
\<close>

theorem choose_peer_spec:
  assumes "hash_order iter" "finite (pool b only_archive)"
  shows "case choose_peer_excluding iter only_archive excluded b of
      Inl e \<Rightarrow> e = no_peers only_archive \<and> (\<forall>q\<in>pool b only_archive. skipped b excluded q)
    | Inr p \<Rightarrow> p \<in> pool b only_archive \<and> \<not> skipped b excluded p
        \<and> (\<forall>q\<in>pool b only_archive. \<not> skipped b excluded q \<longrightarrow>
              (load_of b q < max_req_per_peer b \<longrightarrow> load_of b p < max_req_per_peer b \<and> score_of b p \<le> score_of b q)
            \<and> (max_req_per_peer b \<le> load_of b p \<longrightarrow> load_of b p \<le> load_of b q))"
  using hash_order.choose_fails[OF assms] hash_order.choose_eligible[OF assms] hash_order.choose_best[OF assms]
  by (fastforce split: sum.split)

theorem choose_peer_spec_witness:
  "choose_peer_excluding sorted_list_of_set False {} (w_balancer None Healthy) = Inr 0"
  using choose_peer_spec[OF sorted_order.hash_order_axioms, of "w_balancer None Healthy" False "{}"]
  by (auto simp: pool_def skipped_def w_balancer_def split: sum.splits)

text \<open>
  C9: Every call that returns, on every path through answers, retries and failures, leaves each
  peer's counter of requests in flight as it found it, and none indexes past the list of peers.
\<close>

theorem request_counters_restored:
  assumes "bal_inv b" "\<And>i. hash_order (iteration (net i))" "load_of b q \<noteq> - 1"
    and "balanced_call only_archive net b = Some (r, b') \<or> get_masterchain_info last_seqno net b = Some (r, b')
       \<or> send_message net b = Some (r, b')"
  shows "load_of b' q = load_of b q \<and> r \<noteq> Inl BalancerPanic"
  using assms(4) calls_evolve(1)[of b net only_archive r b', OF assms(1,2)] calls_evolve(2)[of b net last_seqno r b', OF assms(1,2)]
    calls_evolve(3)[of b net r b', OF assms(1,2)] assms(3) by (auto simp: evolves_def)

theorem request_counters_restored_witness:
  "load_of (w_balancer (Some (w_stats 1 1)) Suspect) 0 = 0"
proof -
  have "load_of (w_balancer None Healthy) 0 = 0" by (simp add: load_of_def w_balancer_def)
  with request_counters_restored[OF w_inv w_order _ disjI1[OF w_fail1], of 0] show ?thesis by simp
qed

text \<open>
  C4: Failover: in a session without a global limiter, as long as one peer that is alive answers and all
  others either answer or fail with errors worth a retry, a balanced call with at least \<open>2 n - 1\<close>
  attempts for \<open>n\<close> peers returns an answer.
\<close>

theorem failover_succeeds:
  assumes "configured c" "session (start_up iter probe c) b" "global_rate_limiter b = None"
    and "\<And>i. hash_order (iteration (net i))"
    and "p \<in> alive_peers b" "\<And>i. \<exists>r. answer (net i) p = Inr r"
    and "\<And>i q e. answer (net i) q = Inl e \<Longrightarrow> retryable_failure e \<noteq> None"
    and "2 * peers_num b - 1 \<le> max_retries b"
  shows "\<exists>r b'. balanced_call False net b = Some (Inr r, b')"
proof -
  have inv: "bal_inv b" using session_kept[OF assms(2) start_up_inv[OF assms(1)]] by (simp add: kept_def)
  have "peers b \<noteq> []" using inv assms(5) by (auto simp: bal_inv_def)
  then have "lives b p < max_retries b"
    using lives_bound[OF inv assms(5)] assms(8) by (cases "peers b") (simp_all add: peers_num_def)
  from plain.retry_loop_reaches[of net p, OF assms(4,6,7) inv assms(5,3) this] show ?thesis
    by (simp add: balanced_call_def)
qed

theorem failover_succeeds_witness:
  "\<exists>r b'. balanced_call False (\<lambda>i. w_attempt (\<lambda>p. Inr 7)) (w_balancer None Healthy) = Some (Inr r, b')"
  by (rule failover_succeeds[OF w_configured session.begins, of sorted_list_of_set "\<lambda>p. False" _ 0, unfolded w_start])
     (simp_all add: w_order w_attempt_def w_balancer_def peers_num_def sorted_order.hash_order_axioms)

text \<open>
  C7: \<open>send_message\<close> asks distinct alive peers, as many as the fan-out and the alive peers allow, also after one has
  accepted: the statistics count one more request for each of them and for no other peer.  It returns the first acceptance
  in the order of asking, or the timeout error when all of them failed.
\<close>

theorem send_message_spec:
  assumes "bal_inv b" "\<And>i. hash_order (iteration (net i))" "global_rate_limiter b = None"
  shows "\<exists>ps b'. distinct ps \<and> set ps \<subseteq> alive_peers b \<and> length ps = min (send_fanout b) (card (alive_peers b))
    \<and> send_message net b = Some (case first_ok (answers net 0 ps) of Some r \<Rightarrow> Inr r | None \<Rightarrow> Inl BalancerTimeout, b')
    \<and> (\<forall>p. total_requests (stats_entry b' p) = total_requests (stats_entry b p) + (if p \<in> set ps then 1 else 0))"
proof -
  obtain x X' b' where x: "send_loop net (send_fanout b) 0 {} [] b = Some (x, X', b')"
    using send_loop_returns[OF assms(3)] by (metis not_Some_eq prod_cases3)
  then obtain ps where "x = Inr (answers net 0 ps)" "distinct ps" "set ps \<subseteq> alive_peers b"
      "length ps = min (send_fanout b) (card (alive_peers b))"
      "\<forall>q. served b' q = (if q \<in> set ps then served b q + 1 else served b q)"
    using send_loop_spec[of net, OF assms(2,1)] by fastforce
  then show ?thesis using x by (intro exI[of _ ps] exI[of _ b']) (simp add: send_message_def split: option.split)
qed

theorem send_message_spec_witness:
  "\<exists>ps b'. distinct ps \<and> set ps \<subseteq> {0} \<and> length ps = 1
    \<and> send_message (\<lambda>i. w_attempt (\<lambda>p. Inr 1)) (w_balancer None Healthy)
      = Some (case first_ok (answers (\<lambda>i. w_attempt (\<lambda>p. Inr 1)) 0 ps) of Some r \<Rightarrow> Inr r | None \<Rightarrow> Inl BalancerTimeout, b')
    \<and> (\<forall>p. total_requests (stats_entry b' p) = total_requests (stats_entry (w_balancer None Healthy) p) + (if p \<in> set ps then 1 else 0))"
  using send_message_spec[OF w_inv w_order, of "\<lambda>i p. Inr 1"] by (simp add: w_balancer_def send_fanout_def)

text \<open>
  C10: After \<open>start_up\<close> all peers are alive, but when the peer that the first \<open>get_masterchain_info\<close> asks answers at once, the
  call leaves alive only that peer: peers without statistics count as out of sync.
\<close>

theorem masterchain_info_isolates:
  assumes "configured c" "0 < max_retries c" "global_rate_limiter c = None" "hash_order (iteration (net 0))"
    and "choose_peer (iteration (net 0)) False (start_up iter probe c) = Inr p" "answer (net 0) p = Inr r"
  shows "alive_peers (start_up iter probe c) = {..<peers_num c}
    \<and> (\<exists>b'. get_masterchain_info last_seqno net (start_up iter probe c) = Some (Inr r, b') \<and> alive_peers b' = {p})"
proof -
  let ?b = "start_up iter probe c"
  note f = configured_fresh[OF assms(1)]
  have all: "alive_peers ?b = {..<peers_num c}" using f by (simp add: start_up_views peers_num_def)
  have inv: "bal_inv ?b" by (rule start_up_inv[OF assms(1)])
  have c: "choose_peer_excluding (iteration (net 0)) False {} ?b = Inr p" using assms(5) by (simp add: choose_peer_def)
  obtain b1 where x: "execute_request False (net 0) ?b = Some (Inr p, b1)"
    using execute_request_returns[of ?b False "{}" "net 0"] c execute_request_ok(1) execute_request_err assms(3)
    unfolding execute_request_eq by (metis Inl_Inr_False Inr_inject obj_sumE start_up_views(5))
  note a = plain.attempt_ok[OF inv assms(4) x]
  obtain s where "peer_stats b1 = [(p, s)]" using execute_single[OF x] f by (auto simp: start_up_views)
  from modify_single[OF this] obtain s1 where s1: "peer_stats (update_peer_seqno p (last_seqno r) b1) = [(p, s1)]"
    unfolding update_peer_seqno_def by blast
  let ?b2 = "complete_request p (elapsed_ms (net 0)) True (update_peer_seqno p (last_seqno r) b1)"
  have "alive_peers (delete_unsync_peers ?b2) = {p}"
    using complete_single[OF s1] unsync_single[of ?b2 p] by (auto simp: views)
  moreover have "get_masterchain_info last_seqno net ?b = Some (Inr r, delete_unsync_peers ?b2)"
    using assms(2,6) x a(3) by (cases "max_retries c") (simp_all add: get_masterchain_info_def start_up_views)
  ultimately show ?thesis using all by blast
qed

theorem masterchain_info_isolates_witness:
  "\<exists>p b'. choose_peer sorted_list_of_set False (start_up sorted_list_of_set (\<lambda>p. False)
       (balancer_new [\<lparr>client_rate_limiter = None, request_timeout = None\<rparr>, \<lparr>client_rate_limiter = None, request_timeout = None\<rparr>] 1000)) = Inr p
    \<and> get_masterchain_info (\<lambda>n. n) (\<lambda>i. w_attempt (\<lambda>p. Inr 7))
      (start_up sorted_list_of_set (\<lambda>p. False) (balancer_new [\<lparr>client_rate_limiter = None, request_timeout = None\<rparr>,
         \<lparr>client_rate_limiter = None, request_timeout = None\<rparr>] 1000)) = Some (Inr 7, b') \<and> alive_peers b' = {p}"
proof -
  let ?c = "balancer_new [\<lparr>client_rate_limiter = None, request_timeout = None\<rparr>,
    \<lparr>client_rate_limiter = None, request_timeout = None\<rparr>] 1000"
  let ?b = "start_up sorted_list_of_set (\<lambda>p. False) ?c"
  have ok: "0 < max_retries ?c" "global_rate_limiter ?c = None" by (simp_all add: balancer_new_def)
  have inv: "bal_inv ?b" by (rule start_up_inv[OF configured.new])
  have live: "0 \<in> pool ?b False" "\<not> skipped ?b {} 0"
    by (simp_all add: pool_def peers_num_def skipped_def start_up_views balancer_new_def)
  obtain p where c: "choose_peer sorted_list_of_set False ?b = Inr p"
    unfolding choose_peer_def by (rule hash_order.choose_total[OF sorted_order.hash_order_axioms bal_inv_pool(2)[OF inv] live])
  from masterchain_info_isolates[OF configured.new ok, of "\<lambda>i. w_attempt (\<lambda>p. Inr 7)" sorted_list_of_set "\<lambda>p. False" p 7] c
  show ?thesis by (auto simp: w_order w_attempt_def sorted_order.hash_order_axioms)
qed

end
