(* ===== verification/Spec2Isabelle.thy ===== *)
theory Spec2Isabelle
  imports Ton_Prelude Crates Cell CellBuilder Slice TextCodecs Address Builder CellFields BTreeMap BitKey Labels Hashmap HashmapAug
    BocCodec BocRecords BocWriter BocReader BocSafety BocInspect Stack
    TlbCore TlbMessage TlbActions TlbAccount TlbPhases TlbTransaction TlbShard TlbBlock
    WalletData Wallet Payloads Abi AbiCodec Metadata Tokens LiteDecode Ed25519 Adnl RateLimit Balancer
begin

text \<open>
  A model of \<open>tonutils\<close>, a Rust library for the TON blockchain, and the theorems that make its
  data layer, its transport and its choice of servers correct.  Source paths below are relative to \<open>src/src\<close>.

  \<^bold>\<open>The program.\<close>  All data of the network are trees of \<^emph>\<open>cells\<close> (at most 1023 bits and four
  references each).  A \<^emph>\<open>builder\<close> writes fields into a new cell, a \<^emph>\<open>slice\<close> reads them back.  On top
  of these stand addresses and their text forms, dictionaries (Patricia trees of cells), the
  bag-of-cells byte format, the stack of the virtual machine, and the TL-B records of messages,
  actions, accounts, transactions and blocks.  Wallets, token payloads and contract interfaces
  build message bodies and read results from these.  A value passes through these layers in order: a
  record is stored in a builder, built as a cell, serialized in a bag, sent, parsed, and loaded from
  slices.  Bags travel as the payload of encrypted ADNL packets to lite servers; a rate limiter delays
  requests and a balancer chooses the server, retries and reports failures.

  \<^bold>\<open>Conventions.\<close>  A fallible function returns \<open>'a result\<close>, which is \<open>error + 'a\<close>; every \<open>bail!\<close>, \<open>?\<close> and early return is a
  branch, a message text is reduced to a constructor of \<open>error\<close>, an out-of-range index or
  \<open>unreachable!\<close> is \<open>Panic\<close>.  A method with \<open>&mut self\<close> returns the updated record; a reader of a
  slice returns the value and the slice behind it.  Integers of fixed width are words; \<open>usize\<close> is \<open>nat\<close>, with the
  64-bit bound written out where the code checks it; \<open>BigUint\<close> is \<open>nat\<close> and \<open>BigInt\<close> is \<open>int\<close>.  Code of
  other crates (SHA-256, CRC, num-bigint, hex, base64) is a field of \<open>crates\<close> or \<open>text_codecs\<close>, and the
  documented laws used of it are the locales \<open>bignum\<close>, \<open>hashing\<close> and \<open>text_laws\<close>, interpreted on the
  executable reference \<open>ref_crates\<close> and \<open>ref_text\<close>.  The curve and SHA-512 of the signature crate are the record \<open>curve\<close> with the
  locale \<open>edwards\<close>, the AES counter stream is \<open>keystream\<close>.  An error that \<open>?\<close> converts with \<open>From\<close> is kept as it is.
  Text is a byte list where it comes from the network and a list of ASCII characters where it is a name of the program.

  \<^bold>\<open>Theories.\<close>
  \<^item> \<open>Ton_Prelude\<close>: errors, the \<open>?\<close> operator (\<open>and_then\<close>), bits, bytes and their numbers.
  \<^item> \<open>Crates\<close>, \<open>TextCodecs\<close>: the external crates as parameters, their contracts and references.
  \<^item> \<open>Cell\<close> (\<open>tvm/cell/cell.rs\<close>): the cell, its level, depth, descriptors, hash and exotic kinds;
    \<open>wf_cell\<close> is the invariant of every cell the library makes.
  \<^item> \<open>CellBuilder\<close> (same file, \<open>tvm/uint.rs\<close>), \<open>Builder\<close> (\<open>tvm/builder.rs\<close>), \<open>Slice\<close> (\<open>tvm/slice.rs\<close>):
    the byte-level loops, each shown to append or to read a list of bits.  The locale
    \<open>value_codec\<close> is the contract of a writer with its reader; round trips of integers, coins,
    variable-length integers and snake data rest on it.
  \<^item> \<open>Address\<close> (\<open>tvm/address.rs\<close>): text forms round-trip, the raw form without its flags, and CRC-16 catches every burst
    of errors of up to 16 bits.  The flags of an address are part of its equality but not of its cells, so round trips through
    cells ask for the default flags (\<open>msg_address_int_ok\<close>) or return them.
  \<^item> \<open>BTreeMap\<close>, \<open>BitKey\<close>, \<open>Labels\<close>, \<open>Hashmap\<close> (\<open>tvm/dict/hashmap.rs\<close>, \<open>tvm/dict/labels.rs\<close>): keys in
    their derived order, shortest labels, the tree writer and reader, canonicity of the tree, and refinement of
    finite maps under any history of calls.  \<open>HashmapAug\<close>: dictionaries with extra values at every node.
  \<^item> \<open>BocCodec\<close> (\<open>tvm/boc/api.rs\<close>): the definitions.  \<open>BocRecords\<close>, \<open>BocWriter\<close>, \<open>BocReader\<close>: what the
    writer emits and that the reader accepts it.  \<open>BocSafety\<close>: behaviour on arbitrary bytes.
    \<open>BocInspect\<close>: the hash-only inspector agrees with the reader.
  \<^item> \<open>Stack\<close> (\<open>tvm/stack.rs\<close>): stack entries as cells and as bags.
  \<^item> \<open>CellFields\<close>, \<open>TlbCore\<close> (\<open>tlb/core.rs\<close>): the TL-B combinators.  \<open>emits\<close> and \<open>yields\<close> describe one writer and one
    reader; the rules \<open>fields\<close> derive the codec of a record from those of its parts, and
    \<open>tail_codec\<close> is the contract of a record that takes the rest of its cell.
  \<^item> \<open>TlbMessage\<close> (\<open>tlb/message/address.rs\<close>, \<open>tlb/message/helpers.rs\<close>): addresses, amounts, state
    inits and messages.  \<open>TlbActions\<close> (\<open>tlb/message/helpers.rs\<close>): actions, the bounded action
    list, the action phase.
  \<^item> \<open>TlbAccount\<close>, \<open>TlbPhases\<close>, \<open>TlbTransaction\<close>, \<open>TlbShard\<close> (\<open>tlb/transaction/account.rs\<close>, \<open>tlb/transaction/helpers.rs\<close>): accounts,
    phases, transactions with the transactions nested in their descriptions, the augmented dictionaries of a
    shard.  \<open>TlbBlock\<close> (\<open>tlb/block.rs\<close>): blocks, shard states, configuration, Merkle proofs; what \<open>config_entries\<close> loses.
  \<^item> \<open>WalletData\<close> (\<open>wallet/mnemonic.rs\<close>), \<open>Wallet\<close> (\<open>wallet/message.rs\<close>, \<open>wallet/v5r1.rs\<close>): wallet ids, the extension set, and the signed
    messages of V4R2 and V5R1 wallets, read back as they were built.
  \<^item> \<open>Payloads\<close> (\<open>jetton/payload.rs\<close>, \<open>nft/payload.rs\<close>): token message bodies.  \<open>Metadata\<close> (\<open>metadata.rs\<close>), \<open>Tokens\<close> (\<open>jetton.rs\<close>,
    \<open>nft/types.rs\<close>): TEP-64 contents and the results of the get methods of tokens; what a contract publishes is found
    under its name.  The locale \<open>publishing\<close> joins the two contracts its publisher needs.
  \<^item> \<open>Abi\<close> (\<open>abi/model.rs\<close>, \<open>abi/codec.rs\<close>, \<open>abi/map.rs\<close>): types, values, message bodies and stacks of contract interfaces.
    \<open>AbiCodec\<close>: their round trips, and that what is decoded has its declared type.
  \<^item> \<open>LiteDecode\<close> (\<open>liteclient/boc.rs\<close>): typed views of server answers; an extracted shard account is the one its trusted hash
    stands for.
  \<^item> \<open>Ed25519\<close> (\<open>adnl/crypto.rs\<close>): keys and signatures.  \<open>Adnl\<close> (\<open>adnl/helper_types.rs\<close>, \<open>adnl/primitives/\<close>, \<open>adnl/wrappers/\<close>): handshake and
    packet codec; \<open>receives\<close> is the relation of a decoder fed with a stream in chunks of any size.
  \<^item> \<open>RateLimit\<close> (\<open>liteclient/rate_limit.rs\<close>): the token bucket; \<open>bucket_run\<close> is any interleaving of calls.
    \<open>Balancer\<close> (\<open>liteclient/balancer/\<close>): the choice of a peer, retries, fan-out and start-up; \<open>session\<close> is any sequence of calls.
    What a peer answers is the record \<open>attempt\<close>, an argument of a call.  The locale \<open>hash_order\<close> states what is known of the
    iteration order of hash maps, \<open>answer_handler\<close> what the handler of an answer may change.  A session starts with one
    \<open>start_up\<close> (another one would make dead peers alive again) and drops a call only in its first attempt.

  \<^bold>\<open>Bounds and fuel.\<close>  The two depth-first passes over the cells of a bag
  (\<open>build_parsed_cell\<close>, \<open>compute_raw_cell_hash\<close>) take fuel \<open>count + 1\<close>; \<open>BocSafety\<close> and \<open>BocInspect\<close> prove
  that it is never used up, because a cell is entered only while unvisited.  All other
  recursions carry a termination proof.  Round trips of bags ask for fewer than \<open>2 ^ 48\<close> distinct cells, so
  that sizes fit eight bytes, and for no SHA-256 collision among the cells of the tree, since the
  writer merges cells by hash.

  \<^bold>\<open>Not modelled.\<close>  Memory allocation (so the allocation of buffers from untrusted counts is only a
  finding) and the native stack (a recursion that the model ends may overflow it on a very deep chain of cells); the interior hash and depth caches beyond their value; \<open>Display\<close> and \<open>Debug\<close> texts; sockets, timers and
  task scheduling of the asynchronous client, whose effects are arguments of the model; the command line; JSON documents;
  mnemonics and their key derivation; the TL codecs and requests generated by macros of another crate; the compiler of
  TL-B schema texts.
\<close>

end
